(* ===== verification/Prelude.thy ===== *)
theory Prelude
  imports Main "HOL-Library.Word" "HOL-Library.Multiset"
begin

section \<open>Shared vocabulary of the development\<close>

text \<open>
  What every component uses: the result type of fallible code, the slice operations of
  Rust's \<^verbatim>\<open>Vec\<close> that the program calls, and the list lemmas the components share.
  Indices and lengths (\<^verbatim>\<open>usize\<close>) are natural numbers.
\<close>

subsection \<open>Outcomes\<close>

text \<open>
  \<open>Ok\<close> and \<open>Err\<close> are Rust's \<^verbatim>\<open>Result\<close>; \<open>Panic\<close> is a run that stops the program (an index out of
  range, a failed \<^verbatim>\<open>unwrap\<close> or \<^verbatim>\<open>expect\<close>).
\<close>

datatype ('e, 'a) outcome = Ok 'a | Err 'e | Panic

fun and_then :: "('e, 'a) outcome \<Rightarrow> ('a \<Rightarrow> ('e, 'b) outcome) \<Rightarrow> ('e, 'b) outcome" where
  "and_then (Ok a) f = f a"
| "and_then (Err e) f = Err e"
| "and_then Panic f = Panic"

text \<open>\<^verbatim>\<open>Result::expect\<close> and \<^verbatim>\<open>unwrap\<close>: an error becomes a panic.\<close>

fun expect :: "('e, 'a) outcome \<Rightarrow> ('f, 'a) outcome" where
  "expect (Ok a) = Ok a"
| "expect (Err e) = Panic"
| "expect Panic = Panic"

named_theorems outcome_simps \<open>unfolding of sequenced outcomes\<close>

lemma and_then_Ok [outcome_simps]:
  "and_then r f = Ok b \<longleftrightarrow> (\<exists>a. r = Ok a \<and> f a = Ok b)"
  by (cases r) auto

lemma and_then_Panic [outcome_simps]:
  "and_then r f = Panic \<longleftrightarrow> r = Panic \<or> (\<exists>a. r = Ok a \<and> f a = Panic)"
  by (cases r) auto

lemma expect_Ok [outcome_simps]: "expect r = Ok b \<longleftrightarrow> r = Ok b"
  by (cases r) auto

subsection \<open>Slices\<close>

text \<open>\<^verbatim>\<open>slice::get\<close>.\<close>

definition get :: "'a list \<Rightarrow> nat \<Rightarrow> 'a option" where
  "get xs i = (if i < length xs then Some (xs ! i) else None)"

lemma get_Some [simp]: "get xs i = Some x \<longleftrightarrow> i < length xs \<and> xs ! i = x"
  by (auto simp: get_def)

lemma get_None [simp]: "get xs i = None \<longleftrightarrow> length xs \<le> i"
  by (auto simp: get_def)

lemma get_in_range: "i < length xs \<Longrightarrow> get xs i = Some (xs ! i)"
  by simp

text \<open>\<^verbatim>\<open>Vec::insert\<close> (within range), \<^verbatim>\<open>Vec::drain\<close> of a range and what is left after it.\<close>

definition vec_insert :: "nat \<Rightarrow> 'a \<Rightarrow> 'a list \<Rightarrow> 'a list" where
  "vec_insert i x xs = take i xs @ x # drop i xs"

definition slice_range :: "nat \<Rightarrow> nat \<Rightarrow> 'a list \<Rightarrow> 'a list" where
  "slice_range a b xs = take (b - a) (drop a xs)"

definition without :: "nat \<Rightarrow> nat \<Rightarrow> 'a list \<Rightarrow> 'a list" where
  "without a b xs = take a xs @ drop b xs"

lemma length_vec_insert [simp]: "length (vec_insert i x xs) = Suc (length xs)"
  by (simp add: vec_insert_def)

lemma mset_vec_insert [simp]: "mset (vec_insert i x xs) = add_mset x (mset xs)"
proof -
  have "mset (vec_insert i x xs) = add_mset x (mset (take i xs @ drop i xs))"
    by (simp add: vec_insert_def del: append_take_drop_id)
  then show ?thesis by simp
qed

lemma slice_without_split:
  assumes "a \<le> b" "b \<le> length xs"
  shows "xs = take a xs @ slice_range a b xs @ drop b xs"
proof -
  have "drop a xs = slice_range a b xs @ drop (b - a) (drop a xs)"
    unfolding slice_range_def by (rule append_take_drop_id [symmetric])
  moreover have "drop (b - a) (drop a xs) = drop b xs" using assms by simp
  ultimately show ?thesis by (metis append_take_drop_id)
qed

lemma mset_slice_without:
  assumes "a \<le> b" "b \<le> length xs"
  shows "mset (slice_range a b xs) + mset (without a b xs) = mset xs"
proof -
  have "mset xs = mset (take a xs @ slice_range a b xs @ drop b xs)"
    using slice_without_split[OF assms] by simp
  then show ?thesis by (simp add: without_def)
qed

lemma length_slice [simp]: "b \<le> length xs \<Longrightarrow> length (slice_range a b xs) = b - a"
  by (simp add: slice_range_def)

lemma nth_slice [simp]: "b \<le> length xs \<Longrightarrow> i < b - a \<Longrightarrow> slice_range a b xs ! i = xs ! (a + i)"
  by (simp add: slice_range_def)

lemma set_slice_nth: "b \<le> length xs \<Longrightarrow> set (slice_range a b xs) = {xs ! i |i. a \<le> i \<and> i < b}"
proof -
  assume b: "b \<le> length xs"
  have "x \<in> set (slice_range a b xs) \<longleftrightarrow> (\<exists>i. a \<le> i \<and> i < b \<and> x = xs ! i)" for x
  proof
    assume "x \<in> set (slice_range a b xs)"
    then obtain i where "i < b - a" "x = slice_range a b xs ! i" using b by (auto simp: in_set_conv_nth)
    with b show "\<exists>i. a \<le> i \<and> i < b \<and> x = xs ! i" by (intro exI [of _ "a + i"]) simp
  next
    assume "\<exists>i. a \<le> i \<and> i < b \<and> x = xs ! i"
    then obtain i where i: "a \<le> i" "i < b" "x = xs ! i" by blast
    then have "slice_range a b xs ! (i - a) = x" "i - a < length (slice_range a b xs)" using b by simp_all
    then show "x \<in> set (slice_range a b xs)" by (metis nth_mem)
  qed
  then show ?thesis by blast
qed

text \<open>
  \<^verbatim>\<open>slice::partition_point\<close>, the number of leading elements that satisfy the predicate. The
  library finds it by bisection, which the standard documents for slices that are partitioned.
\<close>

definition partition_point :: "('a \<Rightarrow> bool) \<Rightarrow> 'a list \<Rightarrow> nat" where
  "partition_point P xs = length (takeWhile P xs)"

lemma partition_point_le: "partition_point P xs \<le> length xs"
  by (simp add: partition_point_def length_takeWhile_le)

lemma partition_point_before: "i < partition_point P xs \<Longrightarrow> P (xs ! i)"
  by (metis nth_mem partition_point_def set_takeWhileD takeWhile_nth)

lemma partition_point_at: "partition_point P xs < length xs \<Longrightarrow> \<not> P (xs ! partition_point P xs)"
  by (simp add: partition_point_def nth_length_takeWhile)

subsection \<open>Stable sorting\<close>

text \<open>
  \<^verbatim>\<open>sort_by\<close> and \<^verbatim>\<open>sorted_by\<close>: a stable sort by the order \<open>le\<close>, which the standard documents for a comparison
  that is a total order.
\<close>

fun insert_by :: "('a \<Rightarrow> 'a \<Rightarrow> bool) \<Rightarrow> 'a \<Rightarrow> 'a list \<Rightarrow> 'a list" where
  "insert_by le x [] = [x]"
| "insert_by le x (y # ys) = (if le x y then x # y # ys else y # insert_by le x ys)"

definition sorted_by :: "('a \<Rightarrow> 'a \<Rightarrow> bool) \<Rightarrow> 'a list \<Rightarrow> 'a list" where
  "sorted_by le xs = foldr (insert_by le) xs []"

lemma mset_insert_by [simp]: "mset (insert_by le x xs) = add_mset x (mset xs)"
  by (induction xs) auto

lemma mset_sorted_by [simp]: "mset (sorted_by le xs) = mset xs"
  unfolding sorted_by_def by (induction xs) simp_all

lemma set_sorted_by [simp]: "set (sorted_by le xs) = set xs"
  by (metis mset_sorted_by set_mset_mset)

lemma set_insert_by [simp]: "set (insert_by le x xs) = insert x (set xs)"
  by (metis mset_insert_by set_mset_mset set_mset_add_mset_insert)

lemma sorted_insert_by:
  assumes "\<And>a b. le a b \<or> le b a" "\<And>a b c. le a b \<Longrightarrow> le b c \<Longrightarrow> le a c" "sorted_wrt le xs"
  shows "sorted_wrt le (insert_by le x xs)"
  using assms(3)
proof (induction xs)
  case (Cons y ys)
  then show ?case using assms(1)[of x y] assms(2)[of x y] by auto
qed simp

lemma sorted_sorted_by:
  assumes "\<And>a b. le a b \<or> le b a" "\<And>a b c. le a b \<Longrightarrow> le b c \<Longrightarrow> le a c"
  shows "sorted_wrt le (sorted_by le xs)"
  unfolding sorted_by_def by (induction xs) (simp_all add: sorted_insert_by[of le, OF assms])

text \<open>Elements that compare equal keep their order.\<close>

lemma insert_by_stable:
  assumes "\<And>a b. Q a \<Longrightarrow> Q b \<Longrightarrow> le a b"
  shows "filter Q (insert_by le x xs) = (if Q x then x # filter Q xs else filter Q xs)"
  using assms by (induction xs) auto

lemma sorted_by_stable:
  assumes "\<And>a b. Q a \<Longrightarrow> Q b \<Longrightarrow> le a b"
  shows "filter Q (sorted_by le xs) = filter Q xs"
  unfolding sorted_by_def by (induction xs) (simp_all add: insert_by_stable[of Q le, OF assms])

end
