(* ===== verification/Rust_Strings.thy ===== *)
theory Rust_Strings
  imports Prelude
begin

section \<open>Strings and number formatting\<close>

text \<open>
  Rust's \<^verbatim>\<open>str\<close> is its UTF-8 bytes: a \<open>string\<close> whose \<open>char\<close>s are the bytes, so \<open>length\<close> is
  \<^verbatim>\<open>str::len\<close>. The operations below are those of the standard library that the program calls:
  \<^verbatim>\<open>trim\<close>, \<^verbatim>\<open>starts_with\<close>, \<^verbatim>\<open>strip_prefix\<close>, \<^verbatim>\<open>contains\<close>, \<^verbatim>\<open>to_ascii_lowercase\<close>, \<^verbatim>\<open>split_once\<close>, \<^verbatim>\<open>join\<close>,
  \<^verbatim>\<open>lines\<close>, \<^verbatim>\<open>from_str_radix\<close> and the \<^verbatim>\<open>format!\<close> specifications \<^verbatim>\<open>{}\<close>, \<^verbatim>\<open>{:b}\<close>, \<^verbatim>\<open>{:o}\<close>, \<^verbatim>\<open>{:x}\<close>, \<^verbatim>\<open>{:X}\<close>
  with zero padding. The lemmas are the round trips between formatting and parsing.
\<close>

subsection \<open>Digits\<close>

fun digits_of :: "nat \<Rightarrow> nat \<Rightarrow> nat list" where
  "digits_of r n = (if r \<le> 1 \<or> n < r then [n] else digits_of r (n div r) @ [n mod r])"

declare digits_of.simps [simp del]

definition value_of :: "nat \<Rightarrow> nat list \<Rightarrow> nat" where
  "value_of r ds = foldl (\<lambda>a d. a * r + d) 0 ds"

lemma value_of_snoc [simp]: "value_of r (ds @ [d]) = value_of r ds * r + d"
  by (simp add: value_of_def)

lemma value_of_Nil [simp]: "value_of r [] = 0"
  by (simp add: value_of_def)

lemma value_of_append: "value_of r (xs @ ys) = value_of r xs * r ^ length ys + value_of r ys"
  by (induction ys rule: rev_induct)
    (simp_all add: append_assoc [symmetric] algebra_simps del: append_assoc)

lemma value_of_single [simp]: "value_of r [d] = d"
  by (simp add: value_of_def)

lemma value_of_Cons: "value_of r (d # ds) = d * r ^ length ds + value_of r ds"
  using value_of_append[of r "[d]" ds] by simp

lemma value_of_zeros [simp]: "value_of r (replicate k 0 @ ds) = value_of r ds"
  by (induction k) (simp_all add: value_of_Cons)

lemma value_of_bound: "\<forall>d \<in> set ds. d < r \<Longrightarrow> value_of r ds < r ^ length ds"
proof (induction ds rule: rev_induct)
  case Nil
  then show ?case by simp
next
  case (snoc d ds)
  then have "value_of r ds < r ^ length ds" "d < r" by auto
  then have "value_of r ds * r + d < value_of r ds * r + r" by simp
  also have "\<dots> = (value_of r ds + 1) * r" by simp
  also have "\<dots> \<le> r ^ length ds * r"
    using \<open>value_of r ds < r ^ length ds\<close> by (intro mult_right_mono) auto
  finally show ?case by (simp add: mult.commute)
qed

lemma digits_of_nonempty [simp]: "digits_of r n \<noteq> []"
  by (subst digits_of.simps) simp

lemma value_of_digits: "2 \<le> r \<Longrightarrow> value_of r (digits_of r n) = n"
proof (induction r n rule: digits_of.induct)
  case (1 r n)
  then show ?case by (subst digits_of.simps) auto
qed

lemma digits_of_less: "2 \<le> r \<Longrightarrow> d \<in> set (digits_of r n) \<Longrightarrow> d < r"
proof (induction r n rule: digits_of.induct)
  case (1 r n)
  then show ?case by (subst (asm) (2) digits_of.simps) (auto split: if_splits)
qed

lemma digits_of_length:
  assumes "2 \<le> r" "0 < k"
  shows "length (digits_of r n) \<le> k \<longleftrightarrow> n < r ^ k"
  using assms(2)
proof (induction k arbitrary: n)
  case 0
  then show ?case by simp
next
  case (Suc k)
  show ?case
  proof (cases "n < r")
    case True
    with assms have "n < r ^ Suc k"
      by (metis less_le_trans one_le_numeral power_Suc self_le_power zero_less_Suc le_trans)
    with True show ?thesis by (simp add: digits_of.simps[of r n])
  next
    case False
    with assms have eq: "length (digits_of r n) = Suc (length (digits_of r (n div r)))"
      by (simp add: digits_of.simps[of r n])
    show ?thesis
    proof (cases "k = 0")
      case True
      with False eq show ?thesis by simp
    next
      case k: False
      have "n div r < r ^ k \<longleftrightarrow> n < r ^ k * r"
        using assms by (intro div_less_iff_less_mult) simp
      with eq Suc.IH[of "n div r"] k show ?thesis by (simp add: mult.commute)
    qed
  qed
qed

subsection \<open>Digits as characters\<close>

definition digit_char :: "nat \<Rightarrow> char" where
  "digit_char d = char_of (if d < 10 then 48 + d else 87 + d)"

definition digit_char_upper :: "nat \<Rightarrow> char" where
  "digit_char_upper d = char_of (if d < 10 then 48 + d else 55 + d)"

definition digit_val :: "char \<Rightarrow> nat option" where
  "digit_val c = (let k = of_char c :: nat in
     if 48 \<le> k \<and> k \<le> 57 then Some (k - 48)
     else if 97 \<le> k \<and> k \<le> 122 then Some (k - 87)
     else if 65 \<le> k \<and> k \<le> 90 then Some (k - 55)
     else None)"

lemma digit_val_digit_char [simp]: "d < 36 \<Longrightarrow> digit_val (digit_char d) = Some d"
  by (auto simp: digit_val_def digit_char_def Let_def)

lemma digit_val_digit_char_upper [simp]: "d < 36 \<Longrightarrow> digit_val (digit_char_upper d) = Some d"
  by (auto simp: digit_val_def digit_char_upper_def Let_def)

text \<open>Evaluation of the hexadecimal digits.\<close>

lemma digit_char_eval [simp]:
  "digit_char 0 = CHR ''0''"
  "digit_char 1 = CHR ''1''"
  "digit_char 2 = CHR ''2''"
  "digit_char 3 = CHR ''3''"
  "digit_char 4 = CHR ''4''"
  "digit_char 5 = CHR ''5''"
  "digit_char 6 = CHR ''6''"
  "digit_char 7 = CHR ''7''"
  "digit_char 8 = CHR ''8''"
  "digit_char 9 = CHR ''9''"
  "digit_char 10 = CHR ''a''"
  "digit_char 11 = CHR ''b''"
  "digit_char 12 = CHR ''c''"
  "digit_char 13 = CHR ''d''"
  "digit_char 14 = CHR ''e''"
  "digit_char 15 = CHR ''f''"
  "digit_char (Suc 0) = CHR ''1''"
  by (simp_all add: digit_char_def char_of_eq_iff)

lemma digit_char_upper_eval [simp]:
  "digit_char_upper 0 = CHR ''0''"
  "digit_char_upper 1 = CHR ''1''"
  "digit_char_upper 2 = CHR ''2''"
  "digit_char_upper 3 = CHR ''3''"
  "digit_char_upper 4 = CHR ''4''"
  "digit_char_upper 5 = CHR ''5''"
  "digit_char_upper 6 = CHR ''6''"
  "digit_char_upper 7 = CHR ''7''"
  "digit_char_upper 8 = CHR ''8''"
  "digit_char_upper 9 = CHR ''9''"
  "digit_char_upper 10 = CHR ''A''"
  "digit_char_upper 11 = CHR ''B''"
  "digit_char_upper 12 = CHR ''C''"
  "digit_char_upper 13 = CHR ''D''"
  "digit_char_upper 14 = CHR ''E''"
  "digit_char_upper 15 = CHR ''F''"
  "digit_char_upper (Suc 0) = CHR ''1''"
  by (simp_all add: digit_char_upper_def char_of_eq_iff)

text \<open>\<open>{}\<close>, \<open>{:b}\<close>, \<open>{:o}\<close>, \<open>{:x}\<close> of an unsigned number are \<open>show_radix\<close> at 10, 2, 8 and 16.\<close>

definition show_radix :: "nat \<Rightarrow> nat \<Rightarrow> string" where
  "show_radix r n = map digit_char (digits_of r n)"

definition show_radix_upper :: "nat \<Rightarrow> nat \<Rightarrow> string" where
  "show_radix_upper r n = map digit_char_upper (digits_of r n)"

abbreviation show_nat :: "nat \<Rightarrow> string" where
  "show_nat n \<equiv> show_radix 10 n"

definition show_int :: "int \<Rightarrow> string" where
  "show_int i = (if i < 0 then CHR ''-'' # show_nat (nat (- i)) else show_nat (nat i))"

text \<open>The width and zero flag of a format specification.\<close>

definition zero_pad :: "nat \<Rightarrow> string \<Rightarrow> string" where
  "zero_pad w s = replicate (w - length s) CHR ''0'' @ s"

lemma length_zero_pad [simp]: "length (zero_pad w s) = max w (length s)"
  by (simp add: zero_pad_def)

lemma length_show_radix [simp]: "length (show_radix r n) = length (digits_of r n)"
  by (simp add: show_radix_def)

lemma length_show_radix_upper [simp]: "length (show_radix_upper r n) = length (digits_of r n)"
  by (simp add: show_radix_upper_def)

subsection \<open>Parsing digits\<close>

fun digit_vals :: "nat \<Rightarrow> string \<Rightarrow> nat list option" where
  "digit_vals r [] = Some []"
| "digit_vals r (c # cs) = (case digit_val c of
     None \<Rightarrow> None
   | Some d \<Rightarrow> if d < r then map_option (Cons d) (digit_vals r cs) else None)"

definition parse_digits :: "nat \<Rightarrow> string \<Rightarrow> nat option" where
  "parse_digits r s = (if s = [] then None else map_option (value_of r) (digit_vals r s))"

lemma digit_vals_append:
  "digit_vals r (xs @ ys) = (case (digit_vals r xs, digit_vals r ys) of
     (Some a, Some b) \<Rightarrow> Some (a @ b) | _ \<Rightarrow> None)"
  by (induction xs) (auto split: option.splits)

lemma digit_vals_map:
  assumes "r \<le> 36" "\<forall>d \<in> set ds. d < r" "\<forall>d < 36. digit_val (f d) = Some d"
  shows "digit_vals r (map f ds) = Some ds"
  using assms by (induction ds) auto

lemma digit_vals_zeros [simp]: "0 < r \<Longrightarrow> digit_vals r (replicate k CHR ''0'') = Some (replicate k 0)"
  by (induction k) (auto simp: digit_val_def)

lemma digit_vals_show: "2 \<le> r \<Longrightarrow> r \<le> 36 \<Longrightarrow> digit_vals r (show_radix r n) = Some (digits_of r n)"
  unfolding show_radix_def by (rule digit_vals_map) (auto intro: digits_of_less)

lemma digit_vals_show_upper:
  "2 \<le> r \<Longrightarrow> r \<le> 36 \<Longrightarrow> digit_vals r (show_radix_upper r n) = Some (digits_of r n)"
  unfolding show_radix_upper_def by (rule digit_vals_map) (auto intro: digits_of_less)

lemma show_radix_nonempty [simp]: "show_radix r n \<noteq> []" "show_radix_upper r n \<noteq> []"
  by (simp_all add: show_radix_def show_radix_upper_def)

lemma zero_pad_nonempty [simp]: "s \<noteq> [] \<Longrightarrow> zero_pad w s \<noteq> []"
  by (simp add: zero_pad_def)

text \<open>Round trips: what was formatted parses back, with or without padding.\<close>

lemma parse_show_radix [simp]:
  "2 \<le> r \<Longrightarrow> r \<le> 36 \<Longrightarrow> parse_digits r (zero_pad w (show_radix r n)) = Some n"
  by (simp add: parse_digits_def zero_pad_def digit_vals_append digit_vals_show value_of_digits)

lemma parse_show_radix_upper [simp]:
  "2 \<le> r \<Longrightarrow> r \<le> 36 \<Longrightarrow> parse_digits r (zero_pad w (show_radix_upper r n)) = Some n"
  by (simp add: parse_digits_def zero_pad_def digit_vals_append digit_vals_show_upper value_of_digits)

subsection \<open>String operations\<close>

definition starts_with :: "string \<Rightarrow> string \<Rightarrow> bool" where
  "starts_with p s \<longleftrightarrow> take (length p) s = p"

definition ends_with :: "string \<Rightarrow> string \<Rightarrow> bool" where
  "ends_with p s \<longleftrightarrow> length p \<le> length s \<and> drop (length s - length p) s = p"

definition strip_prefix :: "string \<Rightarrow> string \<Rightarrow> string option" where
  "strip_prefix p s = (if starts_with p s then Some (drop (length p) s) else None)"

definition contains_char :: "char \<Rightarrow> string \<Rightarrow> bool" where
  "contains_char c s \<longleftrightarrow> c \<in> set s"

fun contains_str :: "string \<Rightarrow> string \<Rightarrow> bool" where
  "contains_str p [] \<longleftrightarrow> p = []"
| "contains_str p (c # s) \<longleftrightarrow> starts_with p (c # s) \<or> contains_str p s"

lemma starts_with_iff: "starts_with p s \<longleftrightarrow> (\<exists>r. s = p @ r)"
  by (metis append_eq_conv_conj append_take_drop_id starts_with_def)

lemma contains_str_iff: "contains_str p s \<longleftrightarrow> (\<exists>a b. s = a @ p @ b)"
proof (induction s)
  case Nil
  then show ?case by auto
next
  case (Cons c s)
  show ?case
  proof
    assume "contains_str p (c # s)"
    then consider "starts_with p (c # s)" | "contains_str p s" by auto
    then show "\<exists>a b. c # s = a @ p @ b"
    proof cases
      case 1
      then show ?thesis by (metis append_Nil starts_with_iff)
    next
      case 2
      then show ?thesis using Cons.IH by (metis append_Cons)
    qed
  next
    assume "\<exists>a b. c # s = a @ p @ b"
    then obtain a b where ab: "c # s = a @ p @ b" by blast
    show "contains_str p (c # s)"
    proof (cases a)
      case Nil
      with ab have "starts_with p (c # s)" by (auto simp: starts_with_iff)
      then show ?thesis by simp
    next
      case (Cons x a')
      with ab Cons.IH show ?thesis by auto
    qed
  qed
qed

definition is_ascii_digit :: "char \<Rightarrow> bool" where
  "is_ascii_digit c \<longleftrightarrow> (let k = of_char c :: nat in 48 \<le> k \<and> k \<le> 57)"

definition ascii_lower :: "char \<Rightarrow> char" where
  "ascii_lower c = (let k = of_char c :: nat in if 65 \<le> k \<and> k \<le> 90 then char_of (k + 32) else c)"

definition to_ascii_lowercase :: "string \<Rightarrow> string" where
  "to_ascii_lowercase s = map ascii_lower s"

text \<open>
  Leading and trailing whitespace. \<open>ws_len\<close> is the number of bytes of the Unicode
  \<^verbatim>\<open>White_Space\<close> character a byte sequence starts with, 0 when it starts with another one.
\<close>

definition ws3 :: "nat \<Rightarrow> nat \<Rightarrow> nat \<Rightarrow> bool" where
  "ws3 a b c \<longleftrightarrow> a = 225 \<and> b = 154 \<and> c = 128
     \<or> a = 226 \<and> b = 128 \<and> (128 \<le> c \<and> c \<le> 138 \<or> c = 168 \<or> c = 169 \<or> c = 175)
     \<or> a = 226 \<and> b = 129 \<and> c = 159 \<or> a = 227 \<and> b = 128 \<and> c = 128"

definition ws1 :: "nat \<Rightarrow> bool" where
  "ws1 a \<longleftrightarrow> 9 \<le> a \<and> a \<le> 13 \<or> a = 32"

definition ws2 :: "nat \<Rightarrow> nat \<Rightarrow> bool" where
  "ws2 a b \<longleftrightarrow> a = 194 \<and> (b = 133 \<or> b = 160)"

fun ws_len :: "nat list \<Rightarrow> nat" where
  "ws_len [] = 0"
| "ws_len [a] = (if ws1 a then 1 else 0)"
| "ws_len [a, b] = (if ws1 a then 1 else if ws2 a b then 2 else 0)"
| "ws_len (a # b # c # _) = (if ws1 a then 1 else if ws2 a b then 2 else if ws3 a b c then 3 else 0)"

fun ws_len_rev :: "nat list \<Rightarrow> nat" where
  "ws_len_rev [] = 0"
| "ws_len_rev [a] = (if ws1 a then 1 else 0)"
| "ws_len_rev [b, a] = (if ws1 b then 1 else if ws2 a b then 2 else 0)"
| "ws_len_rev (c # b # a # _) = (if ws1 c then 1 else if ws2 b c then 2 else if ws3 a b c then 3 else 0)"

lemma ws_len_pos: "0 < ws_len (map f s) \<Longrightarrow> length s - ws_len (map f s) < length s"
  and ws_len_rev_pos: "0 < ws_len_rev (map f s) \<Longrightarrow> length s - ws_len_rev (map f s) < length s"
  by (cases s; simp)+

function trim_start :: "string \<Rightarrow> string" where
  "trim_start s = (let k = ws_len (map of_char s) in if k = 0 then s else trim_start (drop k s))"
  by pat_completeness auto
termination
  by (relation "measure length") (auto simp: ws_len_pos ws_len_rev_pos)

function trim_rev :: "string \<Rightarrow> string" where
  "trim_rev s = (let k = ws_len_rev (map of_char s) in if k = 0 then s else trim_rev (drop k s))"
  by pat_completeness auto
termination
  by (relation "measure length") (auto simp: ws_len_pos ws_len_rev_pos)

declare trim_start.simps [simp del] trim_rev.simps [simp del]

definition trim_end :: "string \<Rightarrow> string" where
  "trim_end s = rev (trim_rev (rev s))"

definition trim :: "string \<Rightarrow> string" where
  "trim s = trim_end (trim_start s)"

lemma trim_start_id: "ws_len (map of_char s) = 0 \<Longrightarrow> trim_start s = s"
  by (subst trim_start.simps) simp

lemma trim_end_id: "ws_len_rev (map of_char (rev s)) = 0 \<Longrightarrow> trim_end s = s"
  unfolding trim_end_def by (subst trim_rev.simps) simp

text \<open>A string of printable ASCII characters has nothing to trim.\<close>

definition graphic :: "char \<Rightarrow> bool" where
  "graphic c \<longleftrightarrow> (let k = of_char c :: nat in 33 \<le> k \<and> k \<le> 126)"

lemma ws_len_codes: "\<forall>k \<in> set ks. 33 \<le> k \<and> k \<le> 126 \<Longrightarrow> ws_len ks = 0"
  by (cases ks rule: ws_len.cases) (auto simp: ws1_def ws2_def ws3_def)

lemma ws_len_rev_codes: "\<forall>k \<in> set ks. 33 \<le> k \<and> k \<le> 126 \<Longrightarrow> ws_len_rev ks = 0"
  by (cases ks rule: ws_len_rev.cases) (auto simp: ws1_def ws2_def ws3_def)

lemma ws_len_graphic: "\<forall>c \<in> set s. graphic c \<Longrightarrow> ws_len (map of_char s) = 0"
  by (rule ws_len_codes) (auto simp: graphic_def Let_def)

lemma ws_len_rev_graphic: "\<forall>c \<in> set s. graphic c \<Longrightarrow> ws_len_rev (map of_char s) = 0"
  by (rule ws_len_rev_codes) (auto simp: graphic_def Let_def)

lemma trim_graphic [simp]: "\<forall>c \<in> set s. graphic c \<Longrightarrow> trim s = s"
  unfolding trim_def using ws_len_graphic[of s] ws_len_rev_graphic[of "rev s"]
  by (simp add: trim_start_id trim_end_id)

text \<open>\<^verbatim>\<open>str::split_once\<close>, \<^verbatim>\<open>str::split\<close> on a character, \<^verbatim>\<open>[String]::join\<close> and \<^verbatim>\<open>str::lines\<close>.\<close>

definition split_once :: "char \<Rightarrow> string \<Rightarrow> (string \<times> string) option" where
  "split_once c s = (if c \<in> set s
     then Some (takeWhile (\<lambda>x. x \<noteq> c) s, tl (dropWhile (\<lambda>x. x \<noteq> c) s)) else None)"

fun split_on :: "(char \<Rightarrow> bool) \<Rightarrow> string \<Rightarrow> string list" where
  "split_on P [] = [[]]"
| "split_on P (c # s) = (if P c then [] # split_on P s
     else (case split_on P s of [] \<Rightarrow> [[c]] | w # ws \<Rightarrow> (c # w) # ws))"

fun join :: "string \<Rightarrow> string list \<Rightarrow> string" where
  "join sep [] = []"
| "join sep [w] = w"
| "join sep (w # v # ws) = w @ sep @ join sep (v # ws)"

definition lines :: "string \<Rightarrow> string list" where
  "lines s = (let ls = split_on (\<lambda>c. c = char_of (10 :: nat)) s;
      ls' = (if last ls = [] then butlast ls else ls)
    in map (\<lambda>l. if l \<noteq> [] \<and> last l = char_of (13 :: nat) then butlast l else l) ls')"

lemma split_on_nonempty [simp]: "split_on P s \<noteq> []"
  by (induction s) (auto split: list.splits)

text \<open>
  \<^verbatim>\<open>from_str_radix\<close> and \<^verbatim>\<open>parse\<close> of the standard library's bounded unsigned and signed
  integers: one leading plus sign is accepted, the minus sign for signed types only, an empty
  digit string and a value out of range are errors.
\<close>

definition parse_unsigned :: "nat \<Rightarrow> nat \<Rightarrow> string \<Rightarrow> nat option" where
  "parse_unsigned w r s = (let ds = (case s of c # cs \<Rightarrow> if c = CHR ''+'' then cs else s | [] \<Rightarrow> [])
     in case parse_digits r ds of None \<Rightarrow> None | Some n \<Rightarrow> if n < 2 ^ w then Some n else None)"

definition parse_i64 :: "string \<Rightarrow> int option" where
  "parse_i64 s = (case s of
     [] \<Rightarrow> None
   | c # cs \<Rightarrow>
       let (neg, ds) = (if c = CHR ''-'' then (True, cs) else if c = CHR ''+'' then (False, cs) else (False, s))
       in case parse_digits 10 ds of None \<Rightarrow> None | Some n \<Rightarrow>
         let i = (if neg then - int n else int n)
         in if - (2 ^ 63) \<le> i \<and> i < 2 ^ 63 then Some i else None)"

end
