(* ===== verification/Bit_Lanes.thy ===== *)
theory Bit_Lanes
  imports Rust_Strings
begin

section \<open>Bit lanes and decoded words\<close>

text \<open>
  The data of \<^verbatim>\<open>libsurfer/src/decoders/mod.rs\<close> that every protocol decoder shares: the
  transitions of one signal (\<^verbatim>\<open>BitLane\<close>), the words a decoder produces, and how a word is
  rendered. Times are \<^verbatim>\<open>u64\<close> ticks, natural numbers here.
\<close>

datatype bit = Zero | One | Invalid

definition is_high :: "bit \<Rightarrow> bool" where
  "is_high b \<longleftrightarrow> b = One"

record bit_lane =
  changes :: "(nat \<times> bit) list"

text \<open>\<open>value_at\<close>: the value set by the latest transition at or before a time.\<close>

definition value_at :: "bit_lane \<Rightarrow> nat \<Rightarrow> bit option" where
  "value_at l time =
     (let idx = partition_point (\<lambda>(t, _). t \<le> time) (changes l)
      in if 0 < idx then Some (snd (changes l ! (idx - 1))) else None)"

text \<open>\<open>edges_to\<close>: the loop carries the value of the transition before.\<close>

fun edges_from :: "bit option \<Rightarrow> bit \<Rightarrow> (nat \<times> bit) list \<Rightarrow> nat list" where
  "edges_from prev to [] = []"
| "edges_from prev to ((t, v) # xs) =
     (if (case prev of None \<Rightarrow> False | Some p \<Rightarrow> p \<noteq> v) \<and> v = to
      then t # edges_from (Some v) to xs else edges_from (Some v) to xs)"

definition edges_to :: "bit_lane \<Rightarrow> bit \<Rightarrow> nat list" where
  "edges_to l to = edges_from None to (changes l)"

text \<open>A lane as the module documents it: transitions sorted by time, no two at one time.\<close>

definition lane_ok :: "bit_lane \<Rightarrow> bool" where
  "lane_ok l \<longleftrightarrow> sorted_wrt (<) (map fst (changes l))"

subsection \<open>Values\<close>

lemma takeWhile_le_filter:
  "sorted_wrt (<) (map fst xs) \<Longrightarrow>
   takeWhile (\<lambda>(t, _). t \<le> (time :: nat)) xs = filter (\<lambda>(t, _). t \<le> time) xs"
proof (induction xs)
  case Nil
  then show ?case by simp
next
  case (Cons x xs)
  show ?case
  proof (cases "fst x \<le> time")
    case True
    with Cons show ?thesis by (cases x) simp
  next
    case False
    with Cons.prems have "filter (\<lambda>(t, _). t \<le> time) xs = []"
      by (fastforce simp: filter_empty_conv)
    with False show ?thesis by (cases x) simp
  qed
qed

lemma value_at_last:
  assumes "lane_ok l"
  shows "value_at l time =
    (let ys = filter (\<lambda>(t, _). t \<le> time) (changes l) in if ys = [] then None else Some (snd (last ys)))"
proof -
  let ?ys = "takeWhile (\<lambda>(t, _). t \<le> time) (changes l)"
  have "?ys \<noteq> [] \<Longrightarrow> changes l ! (length ?ys - 1) = last ?ys"
    by (simp add: last_conv_nth takeWhile_nth)
  then show ?thesis
    using takeWhile_le_filter[of "changes l" time] assms
    by (simp add: value_at_def partition_point_def Let_def lane_ok_def)
qed

lemma value_at_between:
  assumes "lane_ok l" "i < length (changes l)" "fst (changes l ! i) \<le> time"
    and "Suc i < length (changes l) \<Longrightarrow> time < fst (changes l ! Suc i)"
  shows "value_at l time = Some (snd (changes l ! i))"
proof -
  let ?P = "\<lambda>(t, _). t \<le> time" and ?xs = "changes l"
  have mono: "fst (?xs ! a) < fst (?xs ! b)" if "a < b" "b < length ?xs" for a b
    using assms(1) that by (simp add: lane_ok_def sorted_wrt_iff_nth_less)
  have "partition_point ?P ?xs = Suc i"
  proof (rule antisym)
    show "partition_point ?P ?xs \<le> Suc i"
    proof (rule ccontr)
      assume "\<not> partition_point ?P ?xs \<le> Suc i"
      then have "Suc i < partition_point ?P ?xs" by simp
      then have "?P (?xs ! Suc i)" by (rule partition_point_before)
      moreover have "Suc i < length ?xs"
        using \<open>Suc i < partition_point ?P ?xs\<close> partition_point_le[of ?P ?xs] by simp
      ultimately show False using assms(4) by (simp add: case_prod_beta)
    qed
    show "Suc i \<le> partition_point ?P ?xs"
    proof (rule ccontr)
      assume "\<not> Suc i \<le> partition_point ?P ?xs"
      then have le: "partition_point ?P ?xs \<le> i" by simp
      then have "\<not> ?P (?xs ! partition_point ?P ?xs)"
        using assms(2) by (intro partition_point_at) simp
      moreover have "fst (?xs ! partition_point ?P ?xs) \<le> fst (?xs ! i)"
      proof (cases "partition_point ?P ?xs = i")
        case True
        then show ?thesis by simp
      next
        case False
        with le have "partition_point ?P ?xs < i" by simp
        from mono[OF this assms(2)] show ?thesis by simp
      qed
      ultimately show False using assms(3) by (simp add: case_prod_beta)
    qed
  qed
  then show ?thesis by (simp add: value_at_def)
qed

lemma value_at_before: "(\<And>x. x \<in> set (changes l) \<Longrightarrow> time < fst x) \<Longrightarrow> value_at l time = None"
proof (cases "changes l")
  case Nil
  then show ?thesis by (simp add: value_at_def partition_point_def)
next
  case (Cons x xs)
  assume "\<And>x. x \<in> set (changes l) \<Longrightarrow> time < fst x"
  with Cons have "\<not> fst x \<le> time" by (simp add: not_le)
  with Cons show ?thesis by (simp add: value_at_def partition_point_def case_prod_beta)
qed

subsection \<open>Edges\<close>

lemma edges_from_subset: "set (edges_from p to xs) \<subseteq> fst ` set xs"
  by (induction p to xs rule: edges_from.induct) auto

lemma edges_from_sorted:
  "sorted_wrt (<) (map fst xs) \<Longrightarrow> sorted_wrt (<) (edges_from p to xs)"
proof (induction p to xs rule: edges_from.induct)
  case (2 prev to t v xs)
  have "\<forall>e \<in> set (edges_from (Some v) to xs). t < e"
    using edges_from_subset[of "Some v" to xs] 2(3) by fastforce
  with 2 show ?case by auto
qed simp

lemma edges_to_sorted: "lane_ok l \<Longrightarrow> sorted_wrt (<) (edges_to l to)"
  by (simp add: lane_ok_def edges_to_def edges_from_sorted)

lemma in_edges_from:
  "t \<in> set (edges_from p to xs) \<longleftrightarrow>
     (\<exists>i < length xs. xs ! i = (t, to) \<and>
        (case i of 0 \<Rightarrow> p \<noteq> None \<and> p \<noteq> Some to | Suc j \<Rightarrow> snd (xs ! j) \<noteq> to))"
proof (induction xs arbitrary: p)
  case Nil
  then show ?case by simp
next
  case (Cons x xs)
  obtain t' v where x: "x = (t', v)" by (cases x)
  have "t \<in> set (edges_from p to (x # xs)) \<longleftrightarrow>
      (t = t' \<and> v = to \<and> p \<noteq> None \<and> p \<noteq> Some to) \<or> t \<in> set (edges_from (Some v) to xs)"
    by (auto simp: x split: option.splits)
  moreover have "t \<in> set (edges_from (Some v) to xs) \<longleftrightarrow>
      (\<exists>i < length xs. xs ! i = (t, to) \<and> snd ((x # xs) ! i) \<noteq> to)"
    unfolding Cons.IH by (intro ex_cong1) (auto simp: x split: nat.splits)
  ultimately show ?case
    by (auto simp: x Ex_less_Suc2)
qed

lemma in_edges_to:
  "t \<in> set (edges_to l to) \<longleftrightarrow>
     (\<exists>i. Suc i < length (changes l) \<and> changes l ! Suc i = (t, to) \<and> snd (changes l ! i) \<noteq> to)"
proof
  assume "t \<in> set (edges_to l to)"
  then obtain i where "i < length (changes l)" "changes l ! i = (t, to)"
    "case i of 0 \<Rightarrow> False | Suc j \<Rightarrow> snd (changes l ! j) \<noteq> to"
    by (auto simp: edges_to_def in_edges_from cong: nat.case_cong)
  then show "\<exists>i. Suc i < length (changes l) \<and> changes l ! Suc i = (t, to) \<and> snd (changes l ! i) \<noteq> to"
    by (cases i) auto
next
  assume "\<exists>i. Suc i < length (changes l) \<and> changes l ! Suc i = (t, to) \<and> snd (changes l ! i) \<noteq> to"
  then obtain i where "Suc i < length (changes l)" "changes l ! Suc i = (t, to)" "snd (changes l ! i) \<noteq> to"
    by blast
  then show "t \<in> set (edges_to l to)"
    unfolding edges_to_def in_edges_from by (intro exI [of _ "Suc i"]) simp
qed

lemma value_at_edge:
  assumes "lane_ok l" "t \<in> set (edges_to l to)"
  shows "value_at l t = Some to"
proof -
  from assms(2) obtain i where i: "Suc i < length (changes l)" "changes l ! Suc i = (t, to)"
    unfolding in_edges_to by blast
  have "t < fst (changes l ! Suc (Suc i))" if "Suc (Suc i) < length (changes l)"
  proof -
    have "map fst (changes l) ! Suc i < map fst (changes l) ! Suc (Suc i)"
      using assms(1) that unfolding lane_ok_def by (intro sorted_wrt_nth_less) auto
    with i that show ?thesis by simp
  qed
  with i assms(1) show ?thesis
    using value_at_between[of l "Suc i" t] by simp
qed

subsection \<open>Decoded words\<close>

datatype word_kind = Data | Error

record decoded_word =
  dw_start :: nat
  dw_end :: nat
  dw_text :: string
  dw_kind :: word_kind

record decoded_lane =
  dl_name :: string
  dl_words :: "decoded_word list"

datatype bit_order = MsbFirst | LsbFirst

datatype word_format = Hex | Decimal | Binary | Ascii

definition div_ceil :: "nat \<Rightarrow> nat \<Rightarrow> nat" where
  "div_ceil a b = (a + (b - 1)) div b"

text \<open>The characters \<^verbatim>\<open>is_ascii_graphic() || c == ' '\<close> accepts, as byte values.\<close>

definition printable :: "nat \<Rightarrow> bool" where
  "printable v \<longleftrightarrow> 32 \<le> v \<and> v \<le> 126"

fun format_word :: "word_format \<Rightarrow> nat \<Rightarrow> nat \<Rightarrow> string" where
  "format_word Hex value bits = zero_pad (div_ceil bits 4) (show_radix_upper 16 value)"
| "format_word Decimal value bits = show_nat value"
| "format_word Binary value bits = zero_pad bits (show_radix 2 value)"
| "format_word Ascii value bits =
     (if value < 256 \<and> printable value then [CHR 0x27, char_of value, CHR 0x27]
      else zero_pad 2 (show_radix_upper 16 value))"

text \<open>
  Reading a rendered word back: a quoted character is its code, anything else is a number in
  the radix of the format.
\<close>

fun read_word :: "word_format \<Rightarrow> string \<Rightarrow> nat option" where
  "read_word Hex s = parse_digits 16 s"
| "read_word Decimal s = parse_digits 10 s"
| "read_word Binary s = parse_digits 2 s"
| "read_word Ascii s =
     (case s of [q, c, q'] \<Rightarrow> if q = CHR 0x27 then Some (of_char c) else parse_digits 16 s
      | _ \<Rightarrow> parse_digits 16 s)"

lemma parse_digits_head: "parse_digits r (c # cs) = Some n \<Longrightarrow> digit_val c \<noteq> None"
  by (auto simp: parse_digits_def split: option.splits)

lemma read_format_word: "read_word f (format_word f value bits) = Some value"
proof (cases f)
  case Hex
  then show ?thesis by simp
next
  case Decimal
  have "parse_digits 10 (zero_pad 0 (show_nat value)) = Some value"
    by (rule parse_show_radix) simp_all
  with Decimal show ?thesis by (simp add: zero_pad_def)
next
  case Binary
  then show ?thesis by simp
next
  case Ascii
  have gen: "read_word Ascii s = Some value" if p: "parse_digits 16 s = Some value" for s
  proof -
    have "q \<noteq> CHR 0x27" if "s = [q, c, q']" for q c q'
      using parse_digits_head[of 16 q "[c, q']" "value"] p that by (auto simp: digit_val_def)
    with p show ?thesis by (auto split: list.split)
  qed
  have "read_word Ascii (zero_pad 2 (show_radix_upper 16 value)) = Some value"
    by (rule gen) simp
  with Ascii show ?thesis by (auto simp: take_bit_eq_mod)
qed

lemma format_word_length:
  assumes "value < 2 ^ bits" "0 < bits"
  shows "length (format_word Hex value bits) = div_ceil bits 4"
    and "length (format_word Binary value bits) = bits"
proof -
  have "bits \<le> 4 * div_ceil bits 4" by (simp add: div_ceil_def)
  then have "value < 2 ^ (4 * div_ceil bits 4)"
    using assms(1) by (meson less_le_trans one_le_numeral power_increasing)
  then have "value < 16 ^ div_ceil bits 4" by (simp add: power_mult)
  moreover have "0 < div_ceil bits 4" using assms(2) by (simp add: div_ceil_def)
  ultimately show "length (format_word Hex value bits) = div_ceil bits 4"
    using digits_of_length[of "16" "div_ceil bits 4" "value"] by simp
  show "length (format_word Binary value bits) = bits"
    using digits_of_length[of "2" bits "value"] assms by simp
qed

text \<open>Words in the order of their starts, each of a span that does not end before it starts.\<close>

definition starts_sorted :: "decoded_word list \<Rightarrow> bool" where
  "starts_sorted ws \<longleftrightarrow> sorted_wrt (\<lambda>a b. dw_start a \<le> dw_start b) ws \<and> (\<forall>w \<in> set ws. dw_start w \<le> dw_end w)"

lemma starts_sorted_Nil [simp]: "starts_sorted []"
  by (simp add: starts_sorted_def)

lemma starts_sorted_snoc:
  "starts_sorted ws \<Longrightarrow> \<forall>v \<in> set ws. dw_start v \<le> dw_start w \<Longrightarrow> dw_start w \<le> dw_end w \<Longrightarrow> starts_sorted (ws @ [w])"
  by (simp add: starts_sorted_def sorted_wrt_append)

lemma starts_sorted_alt:
  "starts_sorted ws \<longleftrightarrow> sorted (map dw_start ws) \<and> (\<forall>w \<in> set ws. dw_start w \<le> dw_end w)"
  by (simp add: starts_sorted_def sorted_map)

end
