(* ===== verification/Decoder_Uart.thy ===== *)
theory Decoder_Uart
  imports Bit_Lanes
begin

section \<open>The UART decoder\<close>

text \<open>
  \<^verbatim>\<open>libsurfer/src/decoders/uart.rs\<close>: the settings, the bit period, the frame sampled at the
  centre of each bit and the scan over the start edges. The scan carries \<open>next_free\<close>, the end of
  the frame decoded last. Ticks are natural numbers; \<open>uart_times_bound\<close> states when every time
  computed fits \<^verbatim>\<open>u64\<close>. A frame has at most nine data bits, so \<open>value\<close> never meets its width.
\<close>

unbundle bit_operations_syntax

datatype parity = ParityNone | ParityEven | ParityOdd

record uart_settings =
  us_bit_period :: "nat option"
  us_data_bits :: nat
  us_parity :: parity
  us_stop_bits :: nat
  us_bit_order :: bit_order
  us_idle_high :: bool
  us_format :: word_format

definition uart_default :: uart_settings where
  "uart_default = \<lparr>us_bit_period = None, us_data_bits = 8, us_parity = ParityNone, us_stop_bits = 1,
     us_bit_order = LsbFirst, us_idle_high = True, us_format = Ascii\<rparr>"

definition uart_lane_names :: "uart_settings \<Rightarrow> string list" where
  "uart_lane_names s = [''Data'']"

definition uart_idle :: "uart_settings \<Rightarrow> bit" where
  "uart_idle s = (if us_idle_high s then One else Zero)"

definition uart_start :: "uart_settings \<Rightarrow> bit" where
  "uart_start s = (if us_idle_high s then Zero else One)"

fun gaps :: "(nat \<times> bit) list \<Rightarrow> nat list" where
  "gaps (x # y # xs) = (fst y - fst x) # gaps (y # xs)"
| "gaps _ = []"

fun list_min :: "nat list \<Rightarrow> nat option" where
  "list_min [] = None"
| "list_min (x # xs) = Some (case list_min xs of None \<Rightarrow> x | Some m \<Rightarrow> min x m)"

definition resolve_bit_period :: "uart_settings \<Rightarrow> bit_lane \<Rightarrow> nat option" where
  "resolve_bit_period s line = (case us_bit_period s of
     Some p \<Rightarrow> if 0 < p then Some p else None
   | None \<Rightarrow> list_min (filter (\<lambda>d. 0 < d) (gaps (changes line))))"

definition uart_data_bits :: "uart_settings \<Rightarrow> nat" where
  "uart_data_bits s = max 1 (min 9 (us_data_bits s))"

definition uart_parity_bits :: "uart_settings \<Rightarrow> nat" where
  "uart_parity_bits s = (if us_parity s \<noteq> ParityNone then 1 else 0)"

definition uart_stop_bits :: "uart_settings \<Rightarrow> nat" where
  "uart_stop_bits s = max 1 (min 2 (us_stop_bits s))"

definition uart_frame_bits :: "uart_settings \<Rightarrow> nat" where
  "uart_frame_bits s = 1 + uart_data_bits s + uart_parity_bits s + uart_stop_bits s"

text \<open>The loop over the data bits: value, number of ones, and whether a bit was invalid.\<close>

fun uart_data :: "uart_settings \<Rightarrow> bit_lane \<Rightarrow> (nat \<Rightarrow> nat) \<Rightarrow> nat list
    \<Rightarrow> nat \<times> nat \<times> bool \<Rightarrow> nat \<times> nat \<times> bool" where
  "uart_data s line centre [] acc = acc"
| "uart_data s line centre (i # is) (v, ones, invalid) =
     (case value_at line (centre (i + 1)) of
        Some b \<Rightarrow> if b = Invalid then uart_data s line centre is (v, ones, True)
          else (let is_one = (b = uart_idle s); one = of_bool is_one
            in uart_data s line centre is
                 ((case us_bit_order s of LsbFirst \<Rightarrow> v OR push_bit i one
                    | MsbFirst \<Rightarrow> push_bit 1 v OR one), ones + one, invalid))
      | None \<Rightarrow> uart_data s line centre is (v, ones, True))"

definition get_or_insert :: "string option \<Rightarrow> string \<Rightarrow> string option" where
  "get_or_insert e t = (case e of None \<Rightarrow> Some t | Some e' \<Rightarrow> Some e')"

definition uart_parity_check :: "uart_settings \<Rightarrow> bit_lane \<Rightarrow> (nat \<Rightarrow> nat) \<Rightarrow> nat \<Rightarrow> string option \<Rightarrow> string option" where
  "uart_parity_check s line centre ones error =
     (if us_parity s \<noteq> ParityNone then
        let bit = value_at line (centre (uart_data_bits s + 1));
            got = (bit = Some One);
            want_even = (us_parity s = ParityEven);
            expected = ((ones mod 2 = 1) = want_even)
        in if got \<noteq> expected then get_or_insert error ''parity'' else error
      else error)"

fun uart_stop_check :: "uart_settings \<Rightarrow> bit_lane \<Rightarrow> (nat \<Rightarrow> nat) \<Rightarrow> nat list \<Rightarrow> string option \<Rightarrow> string option" where
  "uart_stop_check s line centre [] error = error"
| "uart_stop_check s line centre (k # ks) error =
     uart_stop_check s line centre ks
       (if value_at line (centre (uart_data_bits s + uart_parity_bits s + 1 + k)) \<noteq> Some (uart_idle s)
        then get_or_insert error ''framing'' else error)"

text \<open>One pass of the scan at a start edge; \<open>None\<close> is the \<^verbatim>\<open>continue\<close> on a glitch.\<close>

definition uart_frame :: "uart_settings \<Rightarrow> bit_lane \<Rightarrow> nat \<Rightarrow> nat \<Rightarrow> decoded_word option" where
  "uart_frame s line period start =
     (let centre = (\<lambda>index. start + index * period + period div 2)
      in if value_at line (centre 0) \<noteq> Some (uart_start s) then None
      else
        let (v, ones, invalid) = uart_data s line centre [0..<uart_data_bits s] (0, 0, False);
            error = (if invalid then Some ''x'' else None);
            error = uart_parity_check s line centre ones error;
            error = uart_stop_check s line centre [0..<uart_stop_bits s] error
        in Some \<lparr>dw_start = start, dw_end = start + uart_frame_bits s * period,
             dw_text = (case error of Some e \<Rightarrow> e | None \<Rightarrow> format_word (us_format s) v (uart_data_bits s)),
             dw_kind = (if error \<noteq> None then Error else Data)\<rparr>)"

fun uart_scan :: "uart_settings \<Rightarrow> bit_lane \<Rightarrow> nat \<Rightarrow> nat list \<Rightarrow> nat \<Rightarrow> decoded_word list" where
  "uart_scan s line period [] next_free = []"
| "uart_scan s line period (start # es) next_free =
     (if start < next_free then uart_scan s line period es next_free
      else case uart_frame s line period start of
        None \<Rightarrow> uart_scan s line period es next_free
      | Some w \<Rightarrow> w # uart_scan s line period es (dw_end w))"

definition uart_decode :: "uart_settings \<Rightarrow> bit_lane option list \<Rightarrow> decoded_lane list" where
  "uart_decode s lanes = (case get lanes 0 of
     Some (Some line) \<Rightarrow> (case resolve_bit_period s line of
         None \<Rightarrow> [\<lparr>dl_name = ''Data'', dl_words = []\<rparr>]
       | Some period \<Rightarrow>
           [\<lparr>dl_name = ''Data'', dl_words = uart_scan s line period (edges_to line (uart_start s)) 0\<rparr>])
   | _ \<Rightarrow> [\<lparr>dl_name = ''Data'', dl_words = []\<rparr>])"

subsection \<open>A frame on the line\<close>

text \<open>
  What a transmitter puts on the line: the start level, the data bits in the configured order, the
  parity bit and the stop bits, every logical 1 at the idle level.
\<close>

definition uart_level :: "uart_settings \<Rightarrow> bool \<Rightarrow> bit" where
  "uart_level s b = (if b then uart_idle s else uart_start s)"

definition uart_data_bit :: "uart_settings \<Rightarrow> nat \<Rightarrow> nat \<Rightarrow> bool" where
  "uart_data_bit s v i = (case us_bit_order s of LsbFirst \<Rightarrow> bit v i
     | MsbFirst \<Rightarrow> bit v (uart_data_bits s - 1 - i))"

definition uart_ones :: "uart_settings \<Rightarrow> nat \<Rightarrow> nat" where
  "uart_ones s v = length (filter (uart_data_bit s v) [0..<uart_data_bits s])"

definition uart_parity_bit :: "uart_settings \<Rightarrow> nat \<Rightarrow> bool" where
  "uart_parity_bit s v \<longleftrightarrow> (if us_parity s = ParityEven then odd (uart_ones s v) else even (uart_ones s v))"

definition uart_levels :: "uart_settings \<Rightarrow> nat \<Rightarrow> bit list" where
  "uart_levels s v = uart_start s # map (\<lambda>i. uart_level s (uart_data_bit s v i)) [0..<uart_data_bits s]
     @ replicate (uart_parity_bits s) (uart_level s (uart_parity_bit s v))
     @ replicate (uart_stop_bits s) (uart_idle s)"

definition uart_sampled :: "uart_settings \<Rightarrow> bit_lane \<Rightarrow> nat \<Rightarrow> nat \<Rightarrow> nat \<Rightarrow> bool" where
  "uart_sampled s line period start v \<longleftrightarrow>
     (\<forall>k < uart_frame_bits s.
        value_at line (start + k * period + period div 2) = Some (uart_levels s v ! k))"

lemma length_uart_levels [simp]: "length (uart_levels s v) = uart_frame_bits s"
  by (simp add: uart_levels_def uart_frame_bits_def)

lemma uart_data_bits_range [simp]: "0 < uart_data_bits s" "uart_data_bits s \<le> 9"
  by (auto simp: uart_data_bits_def)

lemma uart_stop_bits_range: "0 < uart_stop_bits s" "uart_stop_bits s \<le> 2"
  by (auto simp: uart_stop_bits_def)

lemma uart_parity_bits_range: "uart_parity_bits s \<le> 1"
  by (simp add: uart_parity_bits_def)

lemma uart_frame_bits_range: "3 \<le> uart_frame_bits s" "uart_frame_bits s \<le> 13"
  using uart_data_bits_range[of s] uart_stop_bits_range[of s] uart_parity_bits_range[of s]
  unfolding uart_frame_bits_def by linarith+

lemma uart_levels_start: "uart_levels s v ! 0 = uart_start s"
  by (simp add: uart_levels_def)

lemma uart_levels_data:
  "i < uart_data_bits s \<Longrightarrow> uart_levels s v ! (i + 1) = uart_level s (uart_data_bit s v i)"
  by (simp add: uart_levels_def nth_append)

lemma uart_levels_parity:
  "us_parity s \<noteq> ParityNone \<Longrightarrow> uart_levels s v ! (uart_data_bits s + 1) = uart_level s (uart_parity_bit s v)"
  by (simp add: uart_levels_def nth_append uart_parity_bits_def)

lemma uart_levels_stop:
  "k < uart_stop_bits s \<Longrightarrow>
   uart_levels s v ! (uart_data_bits s + uart_parity_bits s + 1 + k) = uart_idle s"
  by (simp add: uart_levels_def nth_append)

lemma uart_start_idle [simp]: "uart_start s \<noteq> uart_idle s" "uart_idle s \<noteq> uart_start s"
  "uart_idle s \<noteq> Invalid" "uart_start s \<noteq> Invalid"
  by (auto simp: uart_start_def uart_idle_def)

subsection \<open>The loop over the data bits\<close>

definition uart_shift :: "uart_settings \<Rightarrow> (nat \<Rightarrow> bool) \<Rightarrow> nat \<Rightarrow> nat \<Rightarrow> nat" where
  "uart_shift s f v i = (case us_bit_order s of LsbFirst \<Rightarrow> v OR push_bit i (of_bool (f i))
     | MsbFirst \<Rightarrow> push_bit 1 v OR of_bool (f i))"

lemma uart_data_valid:
  assumes "\<forall>i \<in> set is. value_at line (centre (i + 1)) = Some (uart_level s (f i))"
  shows "uart_data s line centre is (v, ones, invalid) =
    (foldl (uart_shift s f) v is, ones + length (filter f is), invalid)"
  using assms
proof (induction "is" arbitrary: v ones)
  case Nil
  then show ?case by simp
next
  case (Cons i "is")
  then show ?case
    by (cases "f i"; cases "us_bit_order s") (simp_all add: uart_level_def uart_shift_def)
qed

lemma lsb_fold: "foldl (\<lambda>v i. v OR push_bit i (of_bool (bit x i))) (0::nat) [0..<n] = take_bit n (x::nat)"
proof (induction n)
  case 0
  then show ?case by simp
next
  case (Suc n)
  have "take_bit n x OR push_bit n (of_bool (bit x n)) = take_bit (Suc n) x"
    by (rule bit_eqI) (auto simp: bit_or_iff bit_take_bit_iff bit_push_bit_iff bit_of_bool_iff less_Suc_eq)
  with Suc show ?case by simp
qed

lemma msb_fold:
  assumes "x < 2 ^ n" "k \<le> n"
  shows "foldl (\<lambda>v i. push_bit 1 v OR of_bool (bit x (n - 1 - i))) (0::nat) [0..<k] = drop_bit (n - k) (x::nat)"
  using assms(2)
proof (induction k)
  case 0
  with assms(1) show ?case by (simp add: drop_bit_eq_div)
next
  case (Suc k)
  have "push_bit 1 (drop_bit (n - k) x) OR of_bool (bit x (n - 1 - k)) = drop_bit (n - Suc k) x"
  proof (rule bit_eqI)
    fix m
    show "bit (push_bit 1 (drop_bit (n - k) x) OR of_bool (bit x (n - 1 - k))) m
        \<longleftrightarrow> bit (drop_bit (n - Suc k) x) m"
      using Suc.prems unfolding bit_or_iff bit_push_bit_iff bit_drop_bit_eq bit_of_bool_iff
      by (cases m) (auto simp: Suc_diff_Suc)
  qed
  with Suc show ?case by simp
qed

lemma uart_shift_fold:
  assumes "v < 2 ^ uart_data_bits s"
  shows "foldl (uart_shift s (uart_data_bit s v)) 0 [0..<uart_data_bits s] = v"
proof (cases "us_bit_order s")
  case MsbFirst
  then have "uart_shift s (uart_data_bit s v) =
      (\<lambda>w i. push_bit 1 w OR of_bool (bit v (uart_data_bits s - 1 - i)))"
    by (intro ext) (simp add: uart_shift_def uart_data_bit_def)
  with msb_fold[OF assms order.refl] show ?thesis by simp
next
  case LsbFirst
  then have "uart_shift s (uart_data_bit s v) = (\<lambda>w i. w OR push_bit i (of_bool (bit v i)))"
    by (intro ext) (simp add: uart_shift_def uart_data_bit_def)
  with lsb_fold[of v "uart_data_bits s"] assms show ?thesis by (simp add: take_bit_nat_eq_self)
qed

lemma uart_data_sampled:
  assumes "uart_sampled s line period start v" "v < 2 ^ uart_data_bits s"
  shows "uart_data s line (\<lambda>index. start + index * period + period div 2) [0..<uart_data_bits s] (0, 0, False)
    = (v, uart_ones s v, False)"
proof -
  have "\<forall>i \<in> set [0..<uart_data_bits s].
      value_at line (start + (i + 1) * period + period div 2) = Some (uart_level s (uart_data_bit s v i))"
  proof
    fix i assume "i \<in> set [0..<uart_data_bits s]"
    then have i: "i < uart_data_bits s" by simp
    then have "i + 1 < uart_frame_bits s" by (simp add: uart_frame_bits_def)
    with assms(1) have "value_at line (start + (i + 1) * period + period div 2) = Some (uart_levels s v ! (i + 1))"
      unfolding uart_sampled_def by blast
    then show "value_at line (start + (i + 1) * period + period div 2) = Some (uart_level s (uart_data_bit s v i))"
      unfolding uart_levels_data[OF i] .
  qed
  from uart_data_valid[where centre = "\<lambda>index. start + index * period + period div 2", OF this]
  show ?thesis using uart_shift_fold[OF assms(2)] by (simp add: uart_ones_def)
qed

lemma uart_stop_ok:
  assumes "\<forall>k \<in> set ks. value_at line (centre (uart_data_bits s + uart_parity_bits s + 1 + k)) = Some (uart_idle s)"
  shows "uart_stop_check s line centre ks e = e"
  using assms by (induction ks) simp_all

lemma uart_stop_sampled:
  assumes "uart_sampled s line period start v"
  shows "uart_stop_check s line (\<lambda>index. start + index * period + period div 2) [0..<uart_stop_bits s] e = e"
proof (rule uart_stop_ok, rule ballI)
  fix k assume "k \<in> set [0..<uart_stop_bits s]"
  then have k: "k < uart_stop_bits s" by simp
  then have "uart_data_bits s + uart_parity_bits s + 1 + k < uart_frame_bits s"
    by (simp add: uart_frame_bits_def)
  with assms show "value_at line (start + (uart_data_bits s + uart_parity_bits s + 1 + k) * period + period div 2)
      = Some (uart_idle s)"
    unfolding uart_sampled_def using uart_levels_stop[OF k, of v] by metis
qed

lemma uart_parity_sampled:
  assumes "uart_sampled s line period start v" "us_parity s \<noteq> ParityNone"
  shows "value_at line (start + (uart_data_bits s + 1) * period + period div 2)
    = Some (uart_level s (uart_parity_bit s v))"
proof -
  have "uart_data_bits s + 1 < uart_frame_bits s"
    using assms(2) uart_stop_bits_range[of s] by (simp add: uart_frame_bits_def uart_parity_bits_def)
  with assms show ?thesis
    unfolding uart_sampled_def using uart_levels_parity[OF assms(2), of v] by metis
qed

lemma uart_start_sampled:
  "uart_sampled s line period start v \<Longrightarrow> value_at line (start + period div 2) = Some (uart_start s)"
  using uart_frame_bits_range(1)[of s] uart_levels_start[of s v]
  unfolding uart_sampled_def by (metis add_0_right less_le_trans mult_0 zero_less_numeral)

lemma uart_parity_check_sampled:
  assumes "uart_sampled s line period start v" "us_parity s \<noteq> ParityNone"
  shows "uart_parity_check s line (\<lambda>index. start + index * period + period div 2) (uart_ones s v) e
    = (if us_idle_high s then e else get_or_insert e ''parity'')"
  using assms(2) unfolding uart_parity_check_def Let_def uart_parity_sampled[OF assms]
  by (cases "us_parity s")
    (auto simp: uart_level_def uart_parity_bit_def uart_idle_def uart_start_def even_iff_mod_2_eq_zero)

text \<open>The frame the decoder reports for a frame on the line.\<close>

definition uart_word :: "uart_settings \<Rightarrow> nat \<Rightarrow> nat \<Rightarrow> nat \<Rightarrow> decoded_word" where
  "uart_word s period start v = \<lparr>dw_start = start, dw_end = start + uart_frame_bits s * period,
     dw_text = format_word (us_format s) v (uart_data_bits s), dw_kind = Data\<rparr>"

lemma uart_frame_sampled:
  assumes "uart_sampled s line period start v" "v < 2 ^ uart_data_bits s"
  shows "uart_frame s line period start =
    Some (if us_idle_high s \<or> us_parity s = ParityNone then uart_word s period start v
          else (uart_word s period start v)\<lparr>dw_text := ''parity'', dw_kind := Error\<rparr>)"
  using uart_start_sampled[OF assms(1)] uart_parity_check_sampled[OF assms(1)]
  by (auto simp: uart_frame_def uart_data_sampled[OF assms] uart_stop_sampled[OF assms(1)]
      uart_word_def Let_def get_or_insert_def uart_parity_check_def)

lemma uart_frame_span: "uart_frame s line period start = Some w \<Longrightarrow>
    dw_start w = start \<and> dw_end w = start + uart_frame_bits s * period"
  by (auto simp: uart_frame_def Let_def split: if_splits prod.splits)

subsection \<open>The scan\<close>

text \<open>
  A line that carries a sequence of frames: they do not overlap, each begins at a start edge and has
  its levels at the bit centres, and between them the line has no start edge.
\<close>

definition uart_carries :: "uart_settings \<Rightarrow> bit_lane \<Rightarrow> nat \<Rightarrow> (nat \<times> nat) list \<Rightarrow> bool" where
  "uart_carries s line period fs \<longleftrightarrow>
     sorted_wrt (\<lambda>a b. fst a + uart_frame_bits s * period \<le> fst b) fs \<and>
     (\<forall>(t, v) \<in> set fs. t \<in> set (edges_to line (uart_start s)) \<and> v < 2 ^ uart_data_bits s
        \<and> uart_sampled s line period t v) \<and>
     (\<forall>e \<in> set (edges_to line (uart_start s)).
        \<exists>(t, v) \<in> set fs. t \<le> e \<and> e < t + uart_frame_bits s * period)"

lemma uart_scan_frames:
  assumes "sorted_wrt (<) es" "0 < L"
    and "sorted_wrt (\<lambda>a b. fst a + L \<le> fst b) fs"
    and "\<forall>(t, v) \<in> set fs. t \<in> set es \<and> next_free \<le> t \<and> uart_frame s line period t = Some (word t v)
           \<and> dw_end (word t v) = t + L"
    and "\<forall>e \<in> set es. e < next_free \<or> (\<exists>(t, v) \<in> set fs. t \<le> e \<and> e < t + L)"
  shows "uart_scan s line period es next_free = map (\<lambda>(t, v). word t v) fs"
  using assms
proof (induction es arbitrary: fs next_free)
  case Nil
  then show ?case by (cases fs) auto
next
  case (Cons e es)
  note later = Cons.prems(1)[simplified, THEN conjunct1]
  show ?case
  proof (cases "e < next_free")
    case True
    have "uart_scan s line period es next_free = map (\<lambda>(t, v). word t v) fs"
      using Cons.prems True by (intro Cons.IH) fastforce+
    with True show ?thesis by simp
  next
    case False
    then obtain t v where tv: "(t, v) \<in> set fs" "t \<le> e" "e < t + L"
      using Cons.prems(5) by auto
    with Cons.prems(4) later have te: "t = e" by fastforce
    obtain t0 v0 gs where fs: "fs = (t0, v0) # gs" using tv(1) by (cases fs) auto
    have "t0 = e"
    proof -
      have "e \<le> t0" using Cons.prems(4) later fs by fastforce
      moreover have "t0 \<le> t" using Cons.prems(3) fs tv(1) by fastforce
      ultimately show ?thesis using te by simp
    qed
    with Cons.prems(4) fs have hd: "uart_frame s line period e = Some (word e v0)" "dw_end (word e v0) = e + L"
      by auto
    have gs: "\<forall>(t, v) \<in> set gs. e + L \<le> t" using Cons.prems(3) fs \<open>t0 = e\<close> by auto
    have "uart_scan s line period es (e + L) = map (\<lambda>(t, v). word t v) gs"
    proof (rule Cons.IH)
      show "\<forall>(t, v) \<in> set gs. t \<in> set es \<and> e + L \<le> t \<and> uart_frame s line period t = Some (word t v)
          \<and> dw_end (word t v) = t + L"
        using Cons.prems(2,4) gs fs by fastforce
      show "\<forall>x \<in> set es. x < e + L \<or> (\<exists>(t, v) \<in> set gs. t \<le> x \<and> x < t + L)"
        using Cons.prems(5) fs \<open>t0 = e\<close> later False by fastforce
    qed (use Cons.prems fs in auto)
    with hd False fs \<open>t0 = e\<close> show ?thesis by simp
  qed
qed

lemma uart_scan_words:
  assumes "sorted_wrt (<) es"
  shows "sorted_wrt (\<lambda>a b. dw_end a \<le> dw_start b) (uart_scan s line period es next_free)
    \<and> (\<forall>w \<in> set (uart_scan s line period es next_free). next_free \<le> dw_start w
         \<and> dw_start w \<in> set es \<and> dw_end w = dw_start w + uart_frame_bits s * period)"
  using assms
proof (induction es arbitrary: next_free)
  case Nil
  then show ?case by simp
next
  case (Cons e es)
  show ?case
  proof (cases "next_free \<le> e \<and> uart_frame s line period e \<noteq> None")
    case True
    then obtain w where w: "uart_frame s line period e = Some w" by blast
    with True uart_frame_span[OF w] Cons.IH[of "dw_end w"] Cons.prems show ?thesis by fastforce
  next
    case False
    then have "uart_scan s line period (e # es) next_free = uart_scan s line period es next_free" by auto
    with Cons.IH[of next_free] Cons.prems show ?thesis by simp
  qed
qed

lemma gaps_members: "d \<in> set (gaps xs) \<Longrightarrow> \<exists>i. Suc i < length xs \<and> d = fst (xs ! Suc i) - fst (xs ! i)"
proof (induction xs rule: gaps.induct)
  case (1 x y xs)
  then consider "d = fst y - fst x" | "d \<in> set (gaps (y # xs))" by auto
  then show ?case
  proof cases
    case 1
    then show ?thesis by (intro exI [of _ 0]) simp
  next
    case 2
    with "1.IH" obtain i where "Suc i < length (y # xs)" "d = fst ((y # xs) ! Suc i) - fst ((y # xs) ! i)" by blast
    then show ?thesis by (intro exI [of _ "Suc i"]) simp
  qed
qed simp_all

lemma gaps_nth: "Suc i < length xs \<Longrightarrow> fst (xs ! Suc i) - fst (xs ! i) \<in> set (gaps xs)"
proof (induction xs arbitrary: i rule: gaps.induct)
  case (1 x y xs)
  then show ?case by (cases i) auto
qed simp_all

lemma list_min_Some: "list_min xs = Some m \<longleftrightarrow> m \<in> set xs \<and> (\<forall>x \<in> set xs. m \<le> x)"
proof (induction xs arbitrary: m)
  case (Cons x xs)
  show ?case
  proof (cases "list_min xs")
    case None
    then have "xs = []" by (cases xs) auto
    then show ?thesis by auto
  next
    case (Some k)
    then have "k \<in> set xs" "\<forall>x \<in> set xs. k \<le> x" using Cons.IH by auto
    with Some show ?thesis by (auto simp: min_def intro: antisym)
  qed
qed simp

lemma resolve_bit_period_pos: "resolve_bit_period s line = Some p \<Longrightarrow> 0 < p"
  by (auto simp: resolve_bit_period_def list_min_Some split: option.splits if_splits)

lemma uart_decode_line: "get lanes 0 = Some (Some line) \<Longrightarrow> resolve_bit_period s line = Some p \<Longrightarrow>
    uart_decode s lanes = [\<lparr>dl_name = ''Data'', dl_words = uart_scan s line p (edges_to line (uart_start s)) 0\<rparr>]"
  by (simp add: uart_decode_def del: get_Some)

subsection \<open>Reading a frame back\<close>

lemma uart_data_invalid: "snd (snd (uart_data s line centre is (v, ones, True)))"
proof (induction "is" arbitrary: v ones)
  case (Cons i "is")
  then show ?case by (auto simp: Let_def split: option.splits)
qed simp

lemma uart_data_levels:
  assumes "\<not> snd (snd (uart_data s line centre is (v, ones, invalid)))"
  shows "\<forall>i \<in> set is. value_at line (centre (i + 1)) =
    Some (uart_level s (value_at line (centre (i + 1)) = Some (uart_idle s)))"
  using assms
proof (induction "is" arbitrary: v ones invalid)
  case Nil
  then show ?case by simp
next
  case (Cons i "is")
  then obtain b where b: "value_at line (centre (i + 1)) = Some b" "b \<noteq> Invalid"
    using uart_data_invalid[of s line centre "is" v ones]
    by (cases "value_at line (centre (i + 1))") (auto split: if_splits)
  then have "b = uart_idle s \<or> b = uart_start s"
    by (cases b) (auto simp: uart_idle_def uart_start_def)
  with b have "value_at line (centre (i + 1)) =
      Some (uart_level s (value_at line (centre (i + 1)) = Some (uart_idle s)))"
    by (auto simp: uart_level_def)
  moreover have "\<forall>i \<in> set is. value_at line (centre (i + 1)) =
      Some (uart_level s (value_at line (centre (i + 1)) = Some (uart_idle s)))"
    using Cons.prems b by (intro Cons.IH) (auto simp: Let_def)
  ultimately show ?case by simp
qed

lemma lsb_bits: "bit (foldl (\<lambda>v i. v OR push_bit i (of_bool (f i))) (0::nat) [0..<n]) m \<longleftrightarrow> m < n \<and> f m"
  by (induction n) (auto simp: bit_or_iff bit_push_bit_iff bit_of_bool_iff less_Suc_eq)

lemma msb_bits: "bit (foldl (\<lambda>v i. push_bit 1 v OR of_bool (f i)) (0::nat) [0..<n]) m \<longleftrightarrow> m < n \<and> f (n - 1 - m)"
proof (induction n arbitrary: m)
  case (Suc n)
  have "bit (foldl (\<lambda>v i. push_bit 1 v OR of_bool (f i)) (0::nat) [0..<Suc n]) m \<longleftrightarrow>
      1 \<le> m \<and> bit (foldl (\<lambda>v i. push_bit 1 v OR of_bool (f i)) (0::nat) [0..<n]) (m - 1) \<or> (m = 0 \<and> f n)"
    by (simp add: bit_or_iff bit_push_bit_iff bit_of_bool_iff del: push_bit_Suc One_nat_def)
  then show ?case unfolding Suc.IH by (cases m) (auto simp: Suc_diff_Suc)
qed simp

lemma bits_below: "(\<And>m. bit (x::nat) m \<Longrightarrow> m < n) \<Longrightarrow> x < 2 ^ n"
proof -
  assume "\<And>m. bit x m \<Longrightarrow> m < n"
  then have "take_bit n x = x" by (intro bit_eqI) (auto simp: bit_take_bit_iff)
  then show ?thesis by (metis take_bit_nat_less_exp)
qed

lemma uart_shift_bits:
  fixes s :: uart_settings and f :: "nat \<Rightarrow> bool"
  defines "n \<equiv> uart_data_bits s"
  defines "v \<equiv> foldl (uart_shift s f) 0 [0..<uart_data_bits s]"
  shows "v < 2 ^ n" "i < n \<Longrightarrow> uart_data_bit s v i = f i"
proof -
  have "v < 2 ^ n \<and> (i < n \<longrightarrow> uart_data_bit s v i = f i)"
  proof (cases "us_bit_order s")
    case MsbFirst
    then have "uart_shift s f = (\<lambda>w i. push_bit 1 w OR of_bool (f i))"
      by (intro ext) (simp add: uart_shift_def)
    then have "bit v m \<longleftrightarrow> m < n \<and> f (n - 1 - m)" for m
      unfolding v_def n_def using msb_bits by simp
    with MsbFirst bits_below[of v n] show ?thesis by (auto simp: uart_data_bit_def n_def)
  next
    case LsbFirst
    then have "uart_shift s f = (\<lambda>w i. w OR push_bit i (of_bool (f i)))"
      by (intro ext) (simp add: uart_shift_def)
    then have "bit v m \<longleftrightarrow> m < n \<and> f m" for m
      unfolding v_def n_def using lsb_bits by simp
    with LsbFirst bits_below[of v n] show ?thesis by (auto simp: uart_data_bit_def n_def)
  qed
  then show "v < 2 ^ n" "i < n \<Longrightarrow> uart_data_bit s v i = f i" by simp_all
qed

lemma uart_stop_check_none:
  "uart_stop_check s line centre ks e = None \<Longrightarrow> e = None \<and>
    (\<forall>k \<in> set ks. value_at line (centre (uart_data_bits s + uart_parity_bits s + 1 + k)) = Some (uart_idle s))"
proof (induction ks arbitrary: e)
  case (Cons k ks)
  let ?ok = "value_at line (centre (uart_data_bits s + uart_parity_bits s + 1 + k)) = Some (uart_idle s)"
  from Cons.IH[of "if \<not> ?ok then get_or_insert e ''framing'' else e"] Cons.prems
  have "(if \<not> ?ok then get_or_insert e ''framing'' else e) = None" and
    "\<forall>k \<in> set ks. value_at line (centre (uart_data_bits s + uart_parity_bits s + 1 + k)) = Some (uart_idle s)"
    unfolding uart_stop_check.simps by blast+
  moreover have "get_or_insert e ''framing'' \<noteq> None" by (simp add: get_or_insert_def split: option.split)
  ultimately show ?case by (auto split: if_splits)
qed simp

lemma uart_index_cases:
  assumes "k < uart_frame_bits s" "uart_parity_bits s = 0"
  obtains "k = 0" | i where "k = i + 1" "i < uart_data_bits s"
    | j where "k = uart_data_bits s + uart_parity_bits s + 1 + j" "j < uart_stop_bits s"
proof -
  consider "k = 0" | "0 < k" "k \<le> uart_data_bits s" | "uart_data_bits s < k" by linarith
  then show ?thesis
  proof cases
    case 2
    then show ?thesis using that(2)[of "k - 1"] by simp
  next
    case 3
    then show ?thesis using that(3)[of "k - uart_data_bits s - 1"] assms by (simp add: uart_frame_bits_def)
  qed (rule that(1))
qed

lemma uart_frame_data:
  assumes "uart_frame s line period start = Some w" "dw_kind w = Data" "us_parity s = ParityNone"
  shows "\<exists>v < 2 ^ uart_data_bits s. uart_sampled s line period start v \<and> w = uart_word s period start v"
proof -
  define centre where "centre = (\<lambda>index. start + index * period + period div 2)"
  define f where "f i \<longleftrightarrow> value_at line (centre (i + 1)) = Some (uart_idle s)" for i
  define v where "v = foldl (uart_shift s f) 0 [0..<uart_data_bits s]"
  obtain v' ones invalid where d: "uart_data s line centre [0..<uart_data_bits s] (0, 0, False) = (v', ones, invalid)"
    by (metis prod_cases3)
  note fr = assms(1)[unfolded uart_frame_def centre_def[symmetric] Let_def d]
  have start: "value_at line (centre 0) = Some (uart_start s)" using fr by (auto split: if_splits)
  have w: "w = \<lparr>dw_start = start, dw_end = start + uart_frame_bits s * period, dw_text =
       (case uart_stop_check s line centre [0..<uart_stop_bits s] (if invalid then Some ''x'' else None) of
          Some e \<Rightarrow> e | None \<Rightarrow> format_word (us_format s) v' (uart_data_bits s)),
       dw_kind = (if uart_stop_check s line centre [0..<uart_stop_bits s] (if invalid then Some ''x'' else None)
          \<noteq> None then Error else Data)\<rparr>"
    using fr start assms(3) by (simp add: uart_parity_check_def)
  then have none: "uart_stop_check s line centre [0..<uart_stop_bits s] (if invalid then Some ''x'' else None) = None"
    using assms(2) by (auto split: if_splits)
  from uart_stop_check_none[OF this] have inv: "\<not> invalid"
    and stop: "\<And>k. k < uart_stop_bits s \<Longrightarrow>
      value_at line (centre (uart_data_bits s + uart_parity_bits s + 1 + k)) = Some (uart_idle s)"
    by (auto split: if_splits)
  have lev: "\<forall>i \<in> set [0..<uart_data_bits s]. value_at line (centre (i + 1)) = Some (uart_level s (f i))"
    unfolding f_def by (rule uart_data_levels[of s line centre _ 0 0 False]) (use d inv in simp)
  from uart_data_valid[of _ line centre s f 0 0 False, OF this] d have "v' = v" by (simp add: v_def)
  have "uart_sampled s line period start v"
    unfolding uart_sampled_def
  proof (intro allI impI)
    fix k assume "k < uart_frame_bits s"
    moreover have "uart_parity_bits s = 0" using assms(3) by (simp add: uart_parity_bits_def)
    ultimately have "value_at line (centre k) = Some (uart_levels s v ! k)"
    proof (cases k rule: uart_index_cases)
      case 1
      with start show ?thesis by (simp add: uart_levels_start)
    next
      case (2 i)
      with lev show ?thesis
        using uart_levels_data[of i s v] uart_shift_bits(2)[of i s f] by (simp add: v_def)
    next
      case (3 j)
      with stop show ?thesis using uart_levels_stop[of j s v] by simp
    qed
    then show "value_at line (start + k * period + period div 2) = Some (uart_levels s v ! k)"
      by (simp add: centre_def)
  qed
  moreover have "w = uart_word s period start v"
    using w none \<open>v' = v\<close> by (simp add: uart_word_def)
  ultimately show ?thesis using uart_shift_bits(1)[of s f] by (auto simp: v_def)
qed

lemma uart_scan_from_frame:
  "w \<in> set (uart_scan s line period es next_free) \<Longrightarrow> uart_frame s line period (dw_start w) = Some w"
proof (induction es arbitrary: next_free)
  case (Cons e es)
  then show ?case
    using uart_frame_span[of s line period e] by (auto split: if_splits option.splits)
qed simp

lemma uart_centre_in_frame:
  assumes "k < uart_frame_bits s"
  shows "start + k * period + period div 2 \<le> start + uart_frame_bits s * period"
proof -
  have "k * period + period div 2 \<le> Suc k * period" by simp
  also have "\<dots> \<le> uart_frame_bits s * period" using assms by (intro mult_right_mono) auto
  finally show ?thesis by simp
qed

lemma uart_times_bound:
  assumes "k < uart_frame_bits s" "start + 13 * period < 2 ^ 64"
  shows "start + k * period + period div 2 < 2 ^ 64" "start + uart_frame_bits s * period < 2 ^ 64"
proof -
  have "uart_frame_bits s * period \<le> 13 * period"
    using uart_frame_bits_range(2) by (intro mult_right_mono) auto
  with uart_centre_in_frame[OF assms(1), of start period] assms(2)
  show "start + k * period + period div 2 < 2 ^ 64" "start + uart_frame_bits s * period < 2 ^ 64"
    by linarith+
qed

subsection \<open>Properties\<close>

text \<open>
  C9. A line that carries a sequence of frames decodes to exactly those frames: one word for each, at
  its start edge, over its whole length, with the value that was sent, and nothing else. It holds for
  every number of data and stop bits, both bit orders and, without parity, both polarities.
\<close>

theorem uart_stream:
  assumes "lane_ok line" "resolve_bit_period s line = Some p"
    and "us_idle_high s \<or> us_parity s = ParityNone"
    and "uart_carries s line p fs"
  shows "uart_decode s [Some line] =
    [\<lparr>dl_name = ''Data'', dl_words = map (\<lambda>(t, v). uart_word s p t v) fs\<rparr>]"
proof -
  have "uart_scan s line p (edges_to line (uart_start s)) 0 = map (\<lambda>(t, v). uart_word s p t v) fs"
  proof (rule uart_scan_frames)
    show "0 < uart_frame_bits s * p"
      using resolve_bit_period_pos[OF assms(2)] uart_frame_bits_range(1)[of s] by simp
    show "\<forall>(t, v) \<in> set fs. t \<in> set (edges_to line (uart_start s)) \<and> 0 \<le> t \<and>
        uart_frame s line p t = Some (uart_word s p t v) \<and>
        dw_end (uart_word s p t v) = t + uart_frame_bits s * p"
      using assms(3,4) uart_frame_sampled[of s line p]
      by (fastforce simp: uart_carries_def uart_word_def)
  qed (use assms(1,4) edges_to_sorted in \<open>auto simp: uart_carries_def\<close>)
  with assms(2) show ?thesis by (simp add: uart_decode_line)
qed

definition uart_sample_line :: bit_lane where
  "uart_sample_line = \<lparr>changes = [(0, One), (4, Zero), (8, One), (16, Zero), (20, One), (24, Zero),
     (32, One), (36, Zero), (40, One), (60, Zero), (64, One), (68, Zero), (84, One), (92, Zero), (96, One)]\<rparr>"

lemma uart_stream_witness:
  "uart_decode (uart_default\<lparr>us_format := Hex\<rparr>) [Some uart_sample_line] =
     [\<lparr>dl_name = ''Data'', dl_words = map (\<lambda>(t, v). uart_word (uart_default\<lparr>us_format := Hex\<rparr>) 4 t v)
        [(4, 75), (60, 97)]\<rparr>]"
proof (rule uart_stream)
  show "lane_ok uart_sample_line" by code_simp
  show "resolve_bit_period (uart_default\<lparr>us_format := Hex\<rparr>) uart_sample_line = Some 4" by code_simp
  show "us_idle_high (uart_default\<lparr>us_format := Hex\<rparr>) \<or> us_parity (uart_default\<lparr>us_format := Hex\<rparr>) = ParityNone"
    by code_simp
  show "uart_carries (uart_default\<lparr>us_format := Hex\<rparr>) uart_sample_line 4 [(4, 75), (60, 97)]"
    by code_simp
qed

text \<open>
  Without parity the decoder is sound: a word it reports as data is a frame on the line. Sampled at
  its bit centres the line has the start level, the levels of some value and the stop levels, and the
  word is that value's.
\<close>

theorem uart_sound:
  assumes "resolve_bit_period s line = Some p" "us_parity s = ParityNone"
    and "w \<in> set (dl_words (hd (uart_decode s [Some line])))" "dw_kind w = Data"
  shows "\<exists>v < 2 ^ uart_data_bits s. uart_sampled s line p (dw_start w) v \<and> w = uart_word s p (dw_start w) v"
proof -
  have "w \<in> set (uart_scan s line p (edges_to line (uart_start s)) 0)"
    using assms(1,3) by (simp add: uart_decode_line)
  then have "uart_frame s line p (dw_start w) = Some w" by (rule uart_scan_from_frame)
  from uart_frame_data[OF this assms(4,2)] show ?thesis .
qed

lemma uart_sound_witness:
  "\<exists>v < 2 ^ uart_data_bits uart_default.
     uart_sampled uart_default uart_sample_line 4 4 v \<and> uart_word uart_default 4 4 75 = uart_word uart_default 4 4 v"
proof -
  have "resolve_bit_period uart_default uart_sample_line = Some 4" by code_simp
  moreover have "us_parity uart_default = ParityNone" by code_simp
  moreover have "uart_word uart_default 4 4 75 \<in> set (dl_words (hd (uart_decode uart_default [Some uart_sample_line])))"
    by code_simp
  moreover have "dw_kind (uart_word uart_default 4 4 75) = Data" by code_simp
  moreover have "dw_start (uart_word uart_default 4 4 75) = 4" by code_simp
  ultimately show ?thesis
    using uart_sound[of uart_default uart_sample_line 4 "uart_word uart_default 4 4 75"] by simp
qed

text \<open>
  On a line that rests low, every bit of a frame is inverted, the parity bit included. The data bits
  are read inverted but the parity bit is not, so with parity enabled every correctly transmitted frame of
  an inverted line is reported as a parity error, whatever its value.
\<close>

theorem uart_inverted_parity:
  assumes "\<not> us_idle_high s" "us_parity s \<noteq> ParityNone"
    and "uart_sampled s line p start v" "v < 2 ^ uart_data_bits s"
  shows "uart_frame s line p start =
    Some \<lparr>dw_start = start, dw_end = start + uart_frame_bits s * p, dw_text = ''parity'', dw_kind = Error\<rparr>"
  using uart_frame_sampled[OF assms(3,4)] assms(1,2) by (simp add: uart_word_def)

lemma uart_inverted_parity_witness:
  "uart_frame (uart_default\<lparr>us_idle_high := False, us_parity := ParityEven\<rparr>)
     \<lparr>changes = [(0, Zero), (4, One), (8, Zero), (12, One), (40, Zero)]\<rparr> 4 4 =
   Some \<lparr>dw_start = 4, dw_end = 48, dw_text = ''parity'', dw_kind = Error\<rparr>"
proof -
  let ?s = "uart_default\<lparr>us_idle_high := False, us_parity := ParityEven\<rparr>"
  let ?l = "\<lparr>changes = [(0, Zero), (4, One), (8, Zero), (12, One), (40, Zero)]\<rparr>"
  have "\<not> us_idle_high ?s" by code_simp
  moreover have "us_parity ?s \<noteq> ParityNone" by code_simp
  moreover have "uart_sampled ?s ?l 4 4 1" by code_simp
  moreover have "(1 :: nat) < 2 ^ uart_data_bits ?s" by code_simp
  ultimately have "uart_frame ?s ?l 4 4 = Some \<lparr>dw_start = 4, dw_end = 4 + uart_frame_bits ?s * 4,
      dw_text = ''parity'', dw_kind = Error\<rparr>" by (rule uart_inverted_parity)
  moreover have "4 + uart_frame_bits ?s * 4 = 48" by code_simp
  ultimately show ?thesis by simp
qed

end
