(* ===== verification/Decoder_I2c.thy ===== *)
theory Decoder_I2c
  imports Bit_Lanes
begin

section \<open>The I2C decoder\<close>

text \<open>
  \<^verbatim>\<open>libsurfer/src/decoders/i2c.rs\<close>: the events on the bus (START, STOP and the samples at rising
  clock edges), the token machine that consumes them in time order, and the pass that closes each
  token at the next. The byte accumulator is the code's \<^verbatim>\<open>u64\<close>, a 64-bit word, because its top bit
  is used as a flag; the number of bits seen stays at most eight.
\<close>

unbundle bit_operations_syntax

record i2c_settings =
  is_split_address :: bool
  is_format :: word_format

definition i2c_default :: i2c_settings where
  "i2c_default = \<lparr>is_split_address = True, is_format = Hex\<rparr>"

definition i2c_lane_names :: "i2c_settings \<Rightarrow> string list" where
  "i2c_lane_names s = [''Bus'']"

datatype i2c_event = Start | Stop | Sample bit

text \<open>\<open>collect_events\<close>: the changes of SDA while SCL is high, then the samples.\<close>

fun sda_events :: "bit_lane \<Rightarrow> bit option \<Rightarrow> (nat \<times> bit) list \<Rightarrow> (nat \<times> i2c_event) list" where
  "sda_events scl prev [] = []"
| "sda_events scl prev ((t, v) # cs) =
     (if (case prev of Some p \<Rightarrow> p \<noteq> v | None \<Rightarrow> False) \<and> value_at scl t = Some One
      then (case v of Zero \<Rightarrow> [(t, Start)] | One \<Rightarrow> [(t, Stop)] | Invalid \<Rightarrow> [])
      else []) @ sda_events scl (Some v) cs"

definition next_fall :: "bit_lane \<Rightarrow> nat \<Rightarrow> nat" where
  "next_fall scl t = (let falls = edges_to scl Zero
     in case get falls (partition_point (\<lambda>f. f \<le> t) falls) of Some f \<Rightarrow> f | None \<Rightarrow> 2 ^ 64 - 1)"

definition sda_moves :: "bit_lane \<Rightarrow> bit_lane \<Rightarrow> nat \<Rightarrow> bool" where
  "sda_moves scl sda t = (let first_after = partition_point (\<lambda>(st, _). st \<le> t) (changes sda)
     in case get (changes sda) first_after of Some (st, _) \<Rightarrow> st < next_fall scl t | None \<Rightarrow> False)"

fun sample_events :: "bit_lane \<Rightarrow> bit_lane \<Rightarrow> nat list \<Rightarrow> (nat \<times> i2c_event) list" where
  "sample_events scl sda [] = []"
| "sample_events scl sda (t # ts) =
     (if sda_moves scl sda t then sample_events scl sda ts
      else (t, Sample (case value_at sda t of Some b \<Rightarrow> b | None \<Rightarrow> Invalid)) # sample_events scl sda ts)"

definition collect_events :: "bit_lane \<Rightarrow> bit_lane \<Rightarrow> (nat \<times> i2c_event) list" where
  "collect_events scl sda = sda_events scl None (changes sda) @ sample_events scl sda (edges_to scl One)"

text \<open>The token machine.\<close>

record i2c_state =
  i2c_words :: "decoded_word list"
  in_transaction :: bool
  i2c_bits :: nat
  i2c_acc :: "64 word"
  byte_start :: nat
  expect_address :: bool

definition i2c_init :: i2c_state where
  "i2c_init = \<lparr>i2c_words = [], in_transaction = False, i2c_bits = 0, i2c_acc = 0, byte_start = 0,
     expect_address = False\<rparr>"

definition push_token :: "nat \<Rightarrow> nat \<Rightarrow> string \<Rightarrow> word_kind \<Rightarrow> i2c_state \<Rightarrow> i2c_state" where
  "push_token clock_period start text kind st = st\<lparr>i2c_words := i2c_words st @
     [\<lparr>dw_start = start, dw_end = start + clock_period, dw_text = text, dw_kind = kind\<rparr>]\<rparr>"

definition bits_of_8 :: "nat \<Rightarrow> string" where
  "bits_of_8 n = show_nat n @ '' of 8 bits''"

text \<open>\<open>push_partial\<close> is the error token of an incomplete byte, pushed at a STOP and at the end.\<close>

definition push_partial :: "nat \<Rightarrow> i2c_state \<Rightarrow> i2c_state" where
  "push_partial clock_period st =
     (if 0 < i2c_bits st
      then push_token clock_period (byte_start st) (bits_of_8 (i2c_bits st)) Error st else st)"

definition i2c_byte_text :: "i2c_settings \<Rightarrow> bool \<Rightarrow> bool \<Rightarrow> 64 word \<Rightarrow> string" where
  "i2c_byte_text s address unreliable byte =
     (if unreliable then ''x''
      else if address \<and> is_split_address s
      then format_word (is_format s) (unat (drop_bit 1 byte)) 7 @ '' '' @ (if byte AND 1 = 0 then ''W'' else ''R'')
      else format_word (is_format s) (unat byte) 8)"

definition i2c_shift :: "bit \<Rightarrow> 64 word \<Rightarrow> 64 word" where
  "i2c_shift b acc = (let acc = push_bit 1 acc OR of_bool (b = One)
     in if b = Invalid then acc OR push_bit 63 1 else acc)"

definition push_byte :: "i2c_settings \<Rightarrow> nat \<Rightarrow> i2c_state \<Rightarrow> i2c_state" where
  "push_byte s time st =
     (let unreliable = (i2c_acc st AND push_bit 63 1 \<noteq> 0); byte = i2c_acc st AND 0xFF
      in st\<lparr>i2c_words := i2c_words st @ [\<lparr>dw_start = byte_start st, dw_end = time,
           dw_text = i2c_byte_text s (expect_address st) unreliable byte,
           dw_kind = (if unreliable then Error else Data)\<rparr>]\<rparr>)"

definition i2c_bit :: "i2c_settings \<Rightarrow> nat \<Rightarrow> bit \<Rightarrow> i2c_state \<Rightarrow> i2c_state" where
  "i2c_bit s time b st =
     (let st = (if i2c_bits st = 0 then st\<lparr>byte_start := time\<rparr> else st);
          st = st\<lparr>i2c_acc := i2c_shift b (i2c_acc st), i2c_bits := i2c_bits st + 1\<rparr>
      in if i2c_bits st = 8 then push_byte s time st else st)"

fun i2c_step :: "i2c_settings \<Rightarrow> nat \<Rightarrow> i2c_state \<Rightarrow> nat \<times> i2c_event \<Rightarrow> i2c_state" where
  "i2c_step s clock_period st (time, Start) =
     (push_token clock_period time (if in_transaction st then ''Sr'' else ''S'') Data st)
       \<lparr>in_transaction := True, expect_address := True, i2c_bits := 0, i2c_acc := 0\<rparr>"
| "i2c_step s clock_period st (time, Stop) =
     (push_token clock_period time ''P'' Data (push_partial clock_period st))
       \<lparr>in_transaction := False, i2c_bits := 0, i2c_acc := 0\<rparr>"
| "i2c_step s clock_period st (time, Sample b) =
     (if \<not> in_transaction st then st
      else if i2c_bits st = 8 then
        (push_token clock_period time (if b = Zero then ''A'' else ''N'') (if b = Zero then Data else Error) st)
          \<lparr>i2c_bits := 0, i2c_acc := 0, expect_address := False\<rparr>
      else i2c_bit s time b st)"

text \<open>Closing each token at the next one when they are adjacent.\<close>

fun close_tokens :: "nat \<Rightarrow> decoded_word list \<Rightarrow> decoded_word list" where
  "close_tokens clock_period (w # v # ws) =
     (if dw_start w < dw_start v \<and> dw_start v - dw_start w \<le> clock_period * 2
      then w\<lparr>dw_end := dw_start v\<rparr> else w) # close_tokens clock_period (v # ws)"
| "close_tokens clock_period ws = ws"

fun edge_gaps :: "nat list \<Rightarrow> nat list" where
  "edge_gaps (a # b # ts) = (b - a) # edge_gaps (b # ts)"
| "edge_gaps _ = []"

definition clock_period :: "bit_lane \<Rightarrow> nat" where
  "clock_period scl = (case edge_gaps (edges_to scl One) of [] \<Rightarrow> 1 | g # gs \<Rightarrow> foldl min g gs)"

definition i2c_tokens :: "i2c_settings \<Rightarrow> bit_lane \<Rightarrow> bit_lane \<Rightarrow> decoded_word list" where
  "i2c_tokens s scl sda = (let period = clock_period scl
     in close_tokens period (i2c_words (push_partial period
          (foldl (i2c_step s period) i2c_init (sort_key fst (collect_events scl sda))))))"

definition i2c_decode :: "i2c_settings \<Rightarrow> bit_lane option list \<Rightarrow> decoded_lane list" where
  "i2c_decode s lanes = (case (get lanes 0, get lanes 1) of
     (Some (Some scl), Some (Some sda)) \<Rightarrow> [\<lparr>dl_name = ''Bus'', dl_words = i2c_tokens s scl sda\<rparr>]
   | _ \<Rightarrow> [\<lparr>dl_name = ''Bus'', dl_words = []\<rparr>])"

subsection \<open>The byte accumulator\<close>

definition bits_value :: "bit list \<Rightarrow> nat" where
  "bits_value bs = value_of 2 (map (\<lambda>b. of_bool (b = One)) bs)"

lemma bits_value_snoc [simp]: "bits_value (bs @ [b]) = 2 * bits_value bs + of_bool (b = One)"
  by (simp add: bits_value_def)

lemma bits_value_Nil [simp]: "bits_value [] = 0"
  by (simp add: bits_value_def)

lemma bits_value_less: "bits_value bs < 2 ^ length bs"
  using value_of_bound[of "map (\<lambda>b. of_bool (b = One)) bs" 2] by (auto simp: bits_value_def)

text \<open>The accumulator after the bits \<open>bs\<close>: only the flag of the last of them is left.\<close>

definition acc_of :: "bit list \<Rightarrow> 64 word" where
  "acc_of bs = of_nat (bits_value bs) OR (if bs \<noteq> [] \<and> last bs = Invalid then push_bit 63 1 else 0)"

lemma acc_of_snoc:
  "i2c_shift b (acc_of bs) = acc_of (bs @ [b])"
proof -
  have flag: "push_bit 1 (x OR push_bit 63 1) = push_bit 1 x" for x :: "64 word"
  proof -
    have "push_bit 1 (push_bit 63 1) = (0 :: 64 word)" by simp
    then show ?thesis unfolding push_bit_or by (simp only: or.right_neutral)
  qed
  have "push_bit 1 (acc_of bs) = push_bit 1 (of_nat (bits_value bs))"
  proof (cases "bs \<noteq> [] \<and> last bs = Invalid")
    case True
    show ?thesis unfolding acc_of_def if_P[OF True] by (rule flag)
  next
    case False
    show ?thesis unfolding acc_of_def if_not_P[OF False] by (simp only: or.right_neutral)
  qed
  moreover have "push_bit 1 (of_nat (bits_value bs)) OR of_bool (b = One) = (of_nat (bits_value (bs @ [b])) :: 64 word)"
    by (cases b) (simp_all add: or_one_eq)
  ultimately show ?thesis by (simp add: i2c_shift_def acc_of_def)
qed

lemma acc_of_byte:
  assumes "length bs = 8"
  shows "acc_of bs AND 0xFF = of_nat (bits_value bs)"
    and "acc_of bs AND push_bit 63 1 \<noteq> 0 \<longleftrightarrow> last bs = Invalid"
proof -
  have v: "bits_value bs < 256" using bits_value_less[of bs] assms by simp
  have low: "(of_nat (bits_value bs) :: 64 word) AND 0xFF = of_nat (bits_value bs)"
  proof -
    have "(of_nat (bits_value bs) :: 64 word) AND mask 8 = take_bit 8 (of_nat (bits_value bs))"
      by (simp add: take_bit_eq_mask)
    also have "\<dots> = of_nat (bits_value bs)"
      using v by (simp add: take_bit_of_nat take_bit_nat_eq_self)
    finally show ?thesis by (simp add: mask_eq_exp_minus_1)
  qed
  have high: "\<not> bit (of_nat (bits_value bs) :: 64 word) 63"
  proof -
    have "take_bit 8 (of_nat (bits_value bs) :: 64 word) = of_nat (bits_value bs)"
      using v by (simp add: take_bit_of_nat take_bit_nat_eq_self)
    then have "bit (of_nat (bits_value bs) :: 64 word) 63 = bit (take_bit 8 (of_nat (bits_value bs) :: 64 word)) 63"
      by simp
    then show ?thesis by (simp add: bit_take_bit_iff)
  qed
  have flag: "(push_bit 63 1 :: 64 word) AND 0xFF = 0" by simp
  show "acc_of bs AND 0xFF = of_nat (bits_value bs)"
    unfolding acc_of_def by (simp only: and.commute[of _ "0xFF"] bit.conj_disj_distrib low[unfolded and.commute[of _ "0xFF"]])
      (use flag in \<open>simp add: and.commute\<close>)
  have eq: "x AND push_bit 63 1 \<noteq> 0 \<longleftrightarrow> bit x 63" for x :: "64 word"
    by (simp only: bit_iff_and_push_bit_not_eq_0)
  show "acc_of bs AND push_bit 63 1 \<noteq> 0 \<longleftrightarrow> last bs = Invalid"
    unfolding eq acc_of_def bit_or_iff using high assms by (auto simp: bit_push_bit_iff)
qed

subsection \<open>A byte\<close>

text \<open>The state after some bits of a byte, and what eight of them produce.\<close>

definition sample_list :: "nat list \<Rightarrow> bit list \<Rightarrow> (nat \<times> i2c_event) list" where
  "sample_list ts bs = zip ts (map Sample bs)"

definition i2c_word :: "i2c_settings \<Rightarrow> bool \<Rightarrow> nat list \<Rightarrow> bit list \<Rightarrow> decoded_word" where
  "i2c_word s address ts bs = \<lparr>dw_start = hd ts, dw_end = last ts,
     dw_text = (if last bs = Invalid then ''x''
       else if address \<and> is_split_address s
       then format_word (is_format s) (bits_value bs div 2) 7 @ '' '' @ (if even (bits_value bs) then ''W'' else ''R'')
       else format_word (is_format s) (bits_value bs) 8),
     dw_kind = (if last bs = Invalid then Error else Data)\<rparr>"

lemma i2c_byte_text_acc:
  assumes "length bs = 8"
  shows "i2c_byte_text s address u (acc_of bs AND 0xFF) =
    (if u then ''x''
     else if address \<and> is_split_address s
     then format_word (is_format s) (bits_value bs div 2) 7 @ '' '' @ (if even (bits_value bs) then ''W'' else ''R'')
     else format_word (is_format s) (bits_value bs) 8)"
proof -
  have v: "bits_value bs < 256" using bits_value_less[of bs] assms by simp
  have u: "unat (of_nat (bits_value bs) :: 64 word) = bits_value bs"
    using v by (simp add: unsigned_of_nat take_bit_nat_eq_self)
  have "unat (drop_bit 1 (of_nat (bits_value bs)) :: 64 word) = bits_value bs div 2"
    unfolding unat_drop_bit_eq u by (simp add: drop_bit_eq_div)
  moreover have "(of_nat (bits_value bs) AND 1 = (0 :: 64 word)) \<longleftrightarrow> even (bits_value bs)"
    by (simp add: and_one_eq mod_2_eq_odd)
  ultimately show ?thesis unfolding acc_of_byte(1)[OF assms] i2c_byte_text_def u by simp
qed

lemma i2c_bit_partial:
  assumes "i2c_bits st = length bs" "i2c_acc st = acc_of bs" "length bs < 7"
  shows "i2c_bit s t b st = st\<lparr>i2c_acc := acc_of (bs @ [b]), i2c_bits := Suc (length bs),
    byte_start := (if bs = [] then t else byte_start st)\<rparr>"
  using assms by (cases "bs = []") (auto simp: i2c_bit_def Let_def acc_of_snoc)

lemma push_byte_acc:
  assumes "i2c_acc st = acc_of bs" "length bs = 8"
  shows "push_byte s t st =
    st\<lparr>i2c_words := i2c_words st @ [i2c_word s (expect_address st) [byte_start st, t] bs]\<rparr>"
  unfolding push_byte_def Let_def assms(1) acc_of_byte(2)[OF assms(2)] i2c_byte_text_acc[OF assms(2)]
  by (simp add: i2c_word_def)

lemma i2c_bit_last:
  assumes "i2c_bits st = 7" "i2c_acc st = acc_of bs" "length bs = 7"
  shows "i2c_bit s t b st = st\<lparr>i2c_acc := acc_of (bs @ [b]), i2c_bits := 8,
    i2c_words := i2c_words st @ [i2c_word s (expect_address st) [byte_start st, t] (bs @ [b])]\<rparr>"
  using assms by (simp add: i2c_bit_def acc_of_snoc push_byte_acc)

lemma sample_list_Cons [simp]: "sample_list (t # ts) (b # bs) = (t, Sample b) # sample_list ts bs"
  by (simp add: sample_list_def)

lemma sample_list_Nil [simp]: "sample_list ts [] = []" "sample_list [] bs = []"
  by (simp_all add: sample_list_def)

lemma i2c_partial_bits:
  assumes "in_transaction st" "i2c_bits st = 0" "i2c_acc st = 0" "length ts = length bs" "0 < length bs" "length bs < 8"
  shows "foldl (i2c_step s p) st (sample_list ts bs) =
    st\<lparr>i2c_acc := acc_of bs, i2c_bits := length bs, byte_start := hd ts\<rparr>"
  using assms(4-6)
proof (induction bs arbitrary: ts rule: rev_induct)
  case Nil
  then show ?case by simp
next
  case (snoc b bs ts')
  obtain ts t where ts': "ts' = ts @ [t]" using snoc.prems(1) by (cases ts' rule: rev_cases) auto
  then have len: "length ts = length bs" using snoc.prems(1) by simp
  then have app: "sample_list ts' (bs @ [b]) = sample_list ts bs @ [(t, Sample b)]"
    by (simp add: sample_list_def ts')
  show ?case
  proof (cases "bs = []")
    case True
    with len assms have "foldl (i2c_step s p) st (sample_list ts' (bs @ [b])) = i2c_bit s t b st" by (simp add: ts')
    also have "\<dots> = st\<lparr>i2c_acc := acc_of ([] @ [b]), i2c_bits := Suc (length []), byte_start := t\<rparr>"
      using assms by (subst i2c_bit_partial[of _ "[]"]) (simp_all add: acc_of_def)
    finally show ?thesis using True len by (simp add: ts')
  next
    case False
    with snoc len have IH: "foldl (i2c_step s p) st (sample_list ts bs) =
        st\<lparr>i2c_acc := acc_of bs, i2c_bits := length bs, byte_start := hd ts\<rparr>" by simp
    from False snoc.prems len have "ts \<noteq> []" "length bs < 7" by auto
    with False assms(1) show ?thesis
      unfolding app foldl_append IH by (simp add: i2c_bit_partial ts')
  qed
qed

lemma i2c_byte:
  assumes "in_transaction st" "i2c_bits st = 0" "i2c_acc st = 0" "length ts = 8" "length bs = 8"
  shows "foldl (i2c_step s p) st (sample_list ts bs) =
    st\<lparr>i2c_acc := acc_of bs, i2c_bits := 8, byte_start := hd ts,
      i2c_words := i2c_words st @ [i2c_word s (expect_address st) ts bs]\<rparr>"
proof -
  obtain ts' t where ts: "ts = ts' @ [t]" using assms(4) by (cases ts rule: rev_cases) auto
  obtain bs' b where bs: "bs = bs' @ [b]" using assms(5) by (cases bs rule: rev_cases) auto
  have len: "length ts' = length bs'" "length bs' = 7" using assms(4,5) ts bs by auto
  then have app: "sample_list ts bs = sample_list ts' bs' @ [(t, Sample b)]" by (simp add: sample_list_def ts bs)
  have "hd ts = hd ts'" using len by (cases ts') (auto simp: ts)
  moreover have "foldl (i2c_step s p) st (sample_list ts' bs') =
      st\<lparr>i2c_acc := acc_of bs', i2c_bits := 7, byte_start := hd ts'\<rparr>"
    using i2c_partial_bits[OF assms(1-3), of ts' bs' s p] len by simp
  ultimately show ?thesis
    unfolding app foldl_append using assms(1) len
    by (simp add: i2c_bit_last[of _ bs'] i2c_word_def ts bs)
qed

subsection \<open>Transactions\<close>

text \<open>
  A transaction as an analyser reads it: the bus is started (and restarted) and every segment after a
  start is a run of frames, a byte and its acknowledge, ending in a stop. A frame is the times of its
  nine clocks, its eight bits and the acknowledge bit.
\<close>

type_synonym i2c_frame = "nat list \<times> bit list \<times> bit"

text \<open>
  A byte with an unknown bit is meant to be shown as \<open>x\<close>. The code forgets an unknown bit when another bit follows
  (see the last theorem), so in a well-formed frame only the last bit may be unknown.
\<close>

definition frame_ok :: "i2c_frame \<Rightarrow> bool" where
  "frame_ok f \<longleftrightarrow> (case f of (ts, bs, ack) \<Rightarrow> length ts = 9 \<and> length bs = 8 \<and> Invalid \<notin> set (butlast bs))"

definition byte_token :: "i2c_settings \<Rightarrow> bool \<Rightarrow> nat list \<Rightarrow> bit list \<Rightarrow> decoded_word" where
  "byte_token s address ts bs = \<lparr>dw_start = hd ts, dw_end = last ts,
     dw_text = (if Invalid \<in> set bs then ''x''
       else if address \<and> is_split_address s
       then format_word (is_format s) (bits_value bs div 2) 7 @ '' '' @ (if even (bits_value bs) then ''W'' else ''R'')
       else format_word (is_format s) (bits_value bs) 8),
     dw_kind = (if Invalid \<in> set bs then Error else Data)\<rparr>"

lemma byte_token_word: "bs \<noteq> [] \<Longrightarrow> Invalid \<notin> set (butlast bs) \<Longrightarrow> i2c_word s address ts bs = byte_token s address ts bs"
  by (cases bs rule: rev_cases) (auto simp: i2c_word_def byte_token_def)

definition frame_events :: "i2c_frame \<Rightarrow> (nat \<times> i2c_event) list" where
  "frame_events f = (case f of (ts, bs, ack) \<Rightarrow> sample_list ts (bs @ [ack]))"

definition frame_tokens :: "i2c_settings \<Rightarrow> nat \<Rightarrow> bool \<Rightarrow> i2c_frame \<Rightarrow> decoded_word list" where
  "frame_tokens s p address f = (case f of (ts, bs, ack) \<Rightarrow>
     [byte_token s address (butlast ts) bs,
      \<lparr>dw_start = last ts, dw_end = last ts + p, dw_text = (if ack = Zero then ''A'' else ''N''),
       dw_kind = (if ack = Zero then Data else Error)\<rparr>])"

definition segment_events :: "nat \<times> i2c_frame list \<Rightarrow> (nat \<times> i2c_event) list" where
  "segment_events seg = (fst seg, Start) # concat (map frame_events (snd seg))"

definition segment_tokens :: "i2c_settings \<Rightarrow> nat \<Rightarrow> string \<Rightarrow> nat \<times> i2c_frame list \<Rightarrow> decoded_word list" where
  "segment_tokens s p name seg =
     \<lparr>dw_start = fst seg, dw_end = fst seg + p, dw_text = name, dw_kind = Data\<rparr>
     # (case snd seg of [] \<Rightarrow> [] | f # fs \<Rightarrow> frame_tokens s p True f @ concat (map (frame_tokens s p False) fs))"

definition transaction_events :: "(nat \<times> i2c_frame list) list \<Rightarrow> nat \<Rightarrow> (nat \<times> i2c_event) list" where
  "transaction_events segs stop = concat (map segment_events segs) @ [(stop, Stop)]"

definition transaction_tokens :: "i2c_settings \<Rightarrow> nat \<Rightarrow> (nat \<times> i2c_frame list) list \<Rightarrow> nat \<Rightarrow> decoded_word list" where
  "transaction_tokens s p segs stop =
     (case segs of [] \<Rightarrow> [] | seg # rest \<Rightarrow>
        segment_tokens s p ''S'' seg @ concat (map (segment_tokens s p ''Sr'') rest))
     @ [\<lparr>dw_start = stop, dw_end = stop + p, dw_text = ''P'', dw_kind = Data\<rparr>]"

definition between_bytes :: "bool \<Rightarrow> i2c_state \<Rightarrow> bool" where
  "between_bytes address st \<longleftrightarrow> in_transaction st \<and> i2c_bits st = 0 \<and> i2c_acc st = 0 \<and> expect_address st = address"

lemma i2c_frame_run:
  assumes "between_bytes address st" "frame_ok f"
  shows "between_bytes False (foldl (i2c_step s p) st (frame_events f)) \<and>
    i2c_words (foldl (i2c_step s p) st (frame_events f)) = i2c_words st @ frame_tokens s p address f"
proof -
  obtain ts0 bs ack where f: "f = (ts0, bs, ack)" by (metis prod_cases3)
  with assms(2) have len: "length ts0 = 9" "length bs = 8" and clean: "Invalid \<notin> set (butlast bs)" by (auto simp: frame_ok_def)
  have word: "i2c_word s address ts bs = byte_token s address ts bs" for ts
    by (rule byte_token_word[OF _ clean]) (use len in auto)
  from len obtain ts t where ts: "ts0 = ts @ [t]" by (cases ts0 rule: rev_cases) auto
  with len have "length ts = 8" by simp
  with len have ev: "frame_events f = sample_list ts bs @ [(t, Sample ack)]"
    by (simp add: frame_events_def f sample_list_def ts)
  have run: "foldl (i2c_step s p) st (sample_list ts bs) =
    st\<lparr>i2c_acc := acc_of bs, i2c_bits := 8, byte_start := hd ts,
      i2c_words := i2c_words st @ [i2c_word s address ts bs]\<rparr>"
    using assms(1) len \<open>length ts = 8\<close> i2c_byte[of st ts bs s p] by (simp add: between_bytes_def)
  from assms(1) show ?thesis
    unfolding ev foldl_append run
    by (simp add: between_bytes_def frame_tokens_def f ts push_token_def word)
qed

lemma i2c_frames_run:
  assumes "between_bytes False st" "\<forall>f \<in> set fs. frame_ok f"
  shows "between_bytes False (foldl (i2c_step s p) st (concat (map frame_events fs))) \<and>
    i2c_words (foldl (i2c_step s p) st (concat (map frame_events fs))) =
      i2c_words st @ concat (map (frame_tokens s p False) fs)"
  using assms
proof (induction fs arbitrary: st)
  case (Cons f fs)
  have f: "between_bytes False (foldl (i2c_step s p) st (frame_events f))"
    "i2c_words (foldl (i2c_step s p) st (frame_events f)) = i2c_words st @ frame_tokens s p False f"
    using i2c_frame_run[of False st f s p] Cons.prems by auto
  from Cons.IH[OF f(1)] Cons.prems(2) f(2) show ?case by simp
qed simp

lemma i2c_segment_run:
  assumes "\<forall>f \<in> set (snd seg). frame_ok f"
  shows "in_transaction (foldl (i2c_step s p) st (segment_events seg)) \<and>
    i2c_bits (foldl (i2c_step s p) st (segment_events seg)) = 0 \<and>
    i2c_words (foldl (i2c_step s p) st (segment_events seg)) =
      i2c_words st @ segment_tokens s p (if in_transaction st then ''Sr'' else ''S'') seg"
proof -
  let ?st = "i2c_step s p st (fst seg, Start)"
  have st: "between_bytes True ?st" "i2c_words ?st = i2c_words st @
      [\<lparr>dw_start = fst seg, dw_end = fst seg + p, dw_text = (if in_transaction st then ''Sr'' else ''S''), dw_kind = Data\<rparr>]"
    by (simp_all add: between_bytes_def push_token_def)
  show ?thesis
  proof (cases "snd seg")
    case Nil
    with st show ?thesis by (simp add: segment_events_def segment_tokens_def between_bytes_def del: i2c_step.simps)
  next
    case (Cons f fs)
    with assms have "frame_ok f" "\<forall>f \<in> set fs. frame_ok f" by auto
    with i2c_frame_run[OF st(1), of f s p]
      i2c_frames_run[of "foldl (i2c_step s p) ?st (frame_events f)" fs s p] Cons st(2)
    show ?thesis by (simp add: segment_events_def segment_tokens_def between_bytes_def del: i2c_step.simps)
  qed
qed

lemma i2c_segments_run:
  assumes "\<forall>seg \<in> set segs. \<forall>f \<in> set (snd seg). frame_ok f" "in_transaction st" "i2c_bits st = 0"
  shows "i2c_bits (foldl (i2c_step s p) st (concat (map segment_events segs))) = 0 \<and>
    i2c_words (foldl (i2c_step s p) st (concat (map segment_events segs))) =
      i2c_words st @ concat (map (segment_tokens s p ''Sr'') segs)"
  using assms
proof (induction segs arbitrary: st)
  case (Cons seg segs)
  note seg = i2c_segment_run[of seg s p st]
  from seg Cons.prems Cons.IH[of "foldl (i2c_step s p) st (segment_events seg)"] show ?case by simp
qed simp

lemma i2c_transaction_run:
  assumes "\<forall>seg \<in> set segs. \<forall>f \<in> set (snd seg). frame_ok f"
  shows "i2c_bits (foldl (i2c_step s p) i2c_init (transaction_events segs stop)) = 0 \<and>
    i2c_words (foldl (i2c_step s p) i2c_init (transaction_events segs stop)) = transaction_tokens s p segs stop"
proof (cases segs)
  case Nil
  then show ?thesis
    by (simp add: transaction_events_def transaction_tokens_def push_token_def push_partial_def i2c_init_def)
next
  case (Cons seg rest)
  let ?st = "foldl (i2c_step s p) i2c_init (segment_events seg)"
  have seg: "in_transaction ?st" "i2c_bits ?st = 0" "i2c_words ?st = segment_tokens s p ''S'' seg"
    using i2c_segment_run[of seg s p i2c_init] assms Cons by (simp_all add: i2c_init_def)
  have "\<forall>seg \<in> set rest. \<forall>f \<in> set (snd seg). frame_ok f" using assms Cons by simp
  from i2c_segments_run[OF this seg(1,2), of s p] seg(3) show ?thesis
    by (simp add: transaction_events_def transaction_tokens_def Cons push_token_def push_partial_def)
qed

subsection \<open>Order of the tokens\<close>

definition i2c_inv :: "nat \<Rightarrow> i2c_state \<Rightarrow> bool" where
  "i2c_inv now st \<longleftrightarrow> starts_sorted (i2c_words st) \<and> (\<forall>w \<in> set (i2c_words st). dw_start w \<le> now) \<and>
     (0 < i2c_bits st \<longrightarrow> byte_start st \<le> now \<and> (\<forall>w \<in> set (i2c_words st). dw_start w \<le> byte_start st))"

lemma i2c_inv_partial:
  "i2c_inv now st \<Longrightarrow> i2c_inv now (push_partial p st)"
  by (auto simp: i2c_inv_def push_partial_def push_token_def intro!: starts_sorted_snoc)

lemma i2c_inv_later: "i2c_inv now st \<Longrightarrow> now \<le> t \<Longrightarrow> i2c_inv t st"
  by (fastforce simp: i2c_inv_def)

lemma i2c_inv_token:
  "i2c_inv now st \<Longrightarrow> now \<le> t \<Longrightarrow> starts_sorted (i2c_words (push_token p t text kind st)) \<and>
     (\<forall>w \<in> set (i2c_words (push_token p t text kind st)). dw_start w \<le> t)"
  by (fastforce simp: i2c_inv_def push_token_def intro!: starts_sorted_snoc)

lemma i2c_inv_bit:
  assumes "i2c_inv now st" "now \<le> t"
  shows "i2c_inv t (i2c_bit s t b st)"
proof -
  define st1 where "st1 = (if i2c_bits st = 0 then st\<lparr>byte_start := t\<rparr> else st)"
  define st2 where "st2 = st1\<lparr>i2c_acc := i2c_shift b (i2c_acc st1), i2c_bits := i2c_bits st1 + 1\<rparr>"
  have 2: "i2c_inv t st2" using assms by (fastforce simp: i2c_inv_def st1_def st2_def)
  have "0 < i2c_bits st2" by (simp add: st2_def)
  with 2 have "i2c_inv t (push_byte s t st2)"
    by (auto simp: i2c_inv_def push_byte_def Let_def intro!: starts_sorted_snoc)
  moreover have "i2c_bit s t b st = (if i2c_bits st2 = 8 then push_byte s t st2 else st2)"
    unfolding i2c_bit_def Let_def st1_def st2_def ..
  ultimately show ?thesis using 2 by simp
qed

lemma i2c_inv_step:
  assumes "i2c_inv now st" "now \<le> t"
  shows "i2c_inv t (i2c_step s p st (t, e))"
proof (cases e)
  case Start
  with i2c_inv_token[OF assms] show ?thesis by (simp add: i2c_inv_def)
next
  case Stop
  with i2c_inv_token[OF i2c_inv_partial[OF assms(1)] assms(2)] show ?thesis by (simp add: i2c_inv_def)
next
  case (Sample b)
  with i2c_inv_token[OF assms] i2c_inv_bit[OF assms] i2c_inv_later[OF assms] show ?thesis
    by (simp add: i2c_inv_def)
qed

lemma i2c_inv_run:
  assumes "i2c_inv now st" "sorted (map fst es)" "\<forall>e \<in> set es. now \<le> fst e"
  shows "\<exists>t. i2c_inv t (foldl (i2c_step s p) st es)"
  using assms
proof (induction es arbitrary: now st)
  case (Cons e es)
  have "i2c_inv (fst e) (i2c_step s p st e)"
    using i2c_inv_step[OF Cons.prems(1), of "fst e" s p "snd e"] Cons.prems(3) by simp
  with Cons.IH[of "fst e"] Cons.prems(2) show ?case by simp
qed auto

lemma close_tokens_starts [simp]: "map dw_start (close_tokens p ws) = map dw_start ws"
  by (induction p ws rule: close_tokens.induct) auto

lemma close_tokens_texts: "map dw_text (close_tokens p ws) = map dw_text ws"
  "map dw_kind (close_tokens p ws) = map dw_kind ws"
  by (induction p ws rule: close_tokens.induct) auto

lemma close_tokens_spans: "\<forall>w \<in> set ws. dw_start w \<le> dw_end w \<Longrightarrow> \<forall>w \<in> set (close_tokens p ws). dw_start w \<le> dw_end w"
  by (induction p ws rule: close_tokens.induct) auto

lemma i2c_tokens_sorted: "starts_sorted (i2c_tokens s scl sda)"
proof -
  let ?es = "sort_key fst (collect_events scl sda)" and ?p = "clock_period scl"
  have "i2c_inv 0 i2c_init" by (simp add: i2c_inv_def i2c_init_def starts_sorted_def)
  then obtain t where "i2c_inv t (foldl (i2c_step s ?p) i2c_init ?es)"
    using i2c_inv_run[of 0 i2c_init ?es s ?p] by auto
  then have "i2c_inv t (push_partial ?p (foldl (i2c_step s ?p) i2c_init ?es))" by (rule i2c_inv_partial)
  then show ?thesis
    by (auto simp: i2c_inv_def i2c_tokens_def Let_def starts_sorted_alt dest: close_tokens_spans)
qed

subsection \<open>Properties\<close>

text \<open>
  C10. The tokens of a transaction: when the events on the bus are those of a started (and perhaps
  restarted) transaction of acknowledged bytes that ends in a stop, the decoder's row is \<open>S\<close>, the
  address byte with its direction, the acknowledge, each data byte with its acknowledge, \<open>Sr\<close> and the
  address again for each restart, and \<open>P\<close>, closed at one another; nothing is lost or made up. A byte whose last bit
  is unknown is shown as \<open>x\<close>; the first seven bits are 0 or 1.
\<close>

theorem i2c_transaction:
  assumes "sort_key fst (collect_events scl sda) = transaction_events segs stop"
    and "\<And>seg f. seg \<in> set segs \<Longrightarrow> f \<in> set (snd seg) \<Longrightarrow> frame_ok f"
  shows "i2c_decode s [Some scl, Some sda] = [\<lparr>dl_name = ''Bus'',
    dl_words = close_tokens (clock_period scl) (transaction_tokens s (clock_period scl) segs stop)\<rparr>]"
  using i2c_transaction_run[of segs s "clock_period scl" stop] assms
  by (simp add: i2c_decode_def get_def i2c_tokens_def Let_def push_partial_def)

definition i2c_sample_scl :: bit_lane where
  "i2c_sample_scl = \<lparr>changes = [(0, One), (5, Zero), (10, One), (15, Zero), (20, One), (25, Zero), (30, One),
     (35, Zero), (40, One), (45, Zero), (50, One), (55, Zero), (60, One), (65, Zero), (70, One), (75, Zero),
     (80, One), (85, Zero), (90, One), (95, Zero), (100, One), (110, Zero)]\<rparr>"

definition i2c_sample_sda :: bit_lane where
  "i2c_sample_sda = \<lparr>changes = [(0, One), (2, Zero), (7, One), (17, Zero), (27, One), (37, Zero), (102, One)]\<rparr>"

lemma i2c_transaction_witness:
  "map (\<lambda>w. (dw_start w, dw_text w)) (dl_words (hd (i2c_decode i2c_default [Some i2c_sample_scl, Some i2c_sample_sda])))
   = [(2, ''S''), (10, ''50 W''), (90, ''A''), (102, ''P'')]"
proof -
  have ev: "sort_key fst (collect_events i2c_sample_scl i2c_sample_sda) =
    transaction_events [(2, [([10, 20, 30, 40, 50, 60, 70, 80, 90], [One, Zero, One, Zero, Zero, Zero, Zero, Zero], Zero)])] 102"
    by code_simp
  have "i2c_decode i2c_default [Some i2c_sample_scl, Some i2c_sample_sda] = [\<lparr>dl_name = ''Bus'',
     dl_words = close_tokens (clock_period i2c_sample_scl) (transaction_tokens i2c_default (clock_period i2c_sample_scl)
       [(2, [([10, 20, 30, 40, 50, 60, 70, 80, 90], [One, Zero, One, Zero, Zero, Zero, Zero, Zero], Zero)])] 102)\<rparr>]"
    by (rule i2c_transaction[OF ev]) (simp add: frame_ok_def)
  moreover have "map (\<lambda>w. (dw_start w, dw_text w)) (close_tokens (clock_period i2c_sample_scl)
      (transaction_tokens i2c_default (clock_period i2c_sample_scl)
       [(2, [([10, 20, 30, 40, 50, 60, 70, 80, 90], [One, Zero, One, Zero, Zero, Zero, Zero, Zero], Zero)])] 102))
     = [(2, ''S''), (10, ''50 W''), (90, ''A''), (102, ''P'')]"
    by code_simp
  ultimately show ?thesis by simp
qed

text \<open>
  The unreliable flag of the accumulator is its top bit, and the next bit shifts it out. A byte whose
  last bit is 0 or 1 is therefore reported as data with every unknown bit before it read as 0: the
  decoder's state after it is the one after the byte with zeros in their place.
\<close>

theorem i2c_invalid_bit_reads_zero:
  assumes "between_bytes address st" "length ts = 8" "length bs = 8" "last bs \<noteq> Invalid"
  shows "foldl (i2c_step s p) st (sample_list ts bs) =
      foldl (i2c_step s p) st (sample_list ts (map (\<lambda>b. if b = Invalid then Zero else b) bs)) \<and>
    dw_kind (last (i2c_words (foldl (i2c_step s p) st (sample_list ts bs)))) = Data"
proof -
  let ?f = "\<lambda>b. if b = Invalid then Zero else b"
  have st: "in_transaction st" "i2c_bits st = 0" "i2c_acc st = 0" using assms(1) by (simp_all add: between_bytes_def)
  have "map ((\<lambda>b. of_bool (b = One)) \<circ> ?f) bs = map (\<lambda>b. of_bool (b = One)) bs"
    by (rule map_cong) auto
  then have v: "bits_value (map ?f bs) = bits_value bs" unfolding bits_value_def map_map by metis
  have "bs \<noteq> []" using assms(3) by auto
  then have l: "last (map ?f bs) \<noteq> Invalid" by (simp add: last_map)
  have "acc_of (map ?f bs) = acc_of bs" "i2c_word s a ts (map ?f bs) = i2c_word s a ts bs" for a
    using v l assms(4) by (simp_all add: acc_of_def i2c_word_def)
  with i2c_byte[OF st assms(2,3), of s p] i2c_byte[OF st assms(2), of "map ?f bs" s p] assms(3,4)
  show ?thesis by (simp add: i2c_word_def)
qed

lemma i2c_invalid_bit_reads_zero_witness:
  "dw_text (last (i2c_words (foldl (i2c_step i2c_default 10) (i2c_step i2c_default 10 i2c_init (2, Start))
      (sample_list [10, 20, 30, 40, 50, 60, 70, 80] [One, Invalid, One, Zero, Zero, Zero, Zero, Zero])))) = ''50 W''
   \<and> dw_kind (last (i2c_words (foldl (i2c_step i2c_default 10) (i2c_step i2c_default 10 i2c_init (2, Start))
      (sample_list [10, 20, 30, 40, 50, 60, 70, 80] [One, Invalid, One, Zero, Zero, Zero, Zero, Zero])))) = Data"
proof -
  let ?st = "i2c_step i2c_default 10 i2c_init (2, Start)"
  let ?bs = "[One, Invalid, One, Zero, Zero, Zero, Zero, Zero]"
  have "between_bytes True ?st" by code_simp
  then have run: "foldl (i2c_step i2c_default 10) ?st (sample_list [10, 20, 30, 40, 50, 60, 70, 80] ?bs) =
      foldl (i2c_step i2c_default 10) ?st (sample_list [10, 20, 30, 40, 50, 60, 70, 80]
        (map (\<lambda>b. if b = Invalid then Zero else b) ?bs)) \<and>
      dw_kind (last (i2c_words (foldl (i2c_step i2c_default 10) ?st
        (sample_list [10, 20, 30, 40, 50, 60, 70, 80] ?bs)))) = Data"
    by (rule i2c_invalid_bit_reads_zero) simp_all
  have w: "last (i2c_words (foldl (i2c_step i2c_default 10) ?st (sample_list [10, 20, 30, 40, 50, 60, 70, 80]
        (map (\<lambda>b. if b = Invalid then Zero else b) ?bs)))) =
      i2c_word i2c_default True [10, 20, 30, 40, 50, 60, 70, 80] (map (\<lambda>b. if b = Invalid then Zero else b) ?bs)"
    by (subst i2c_byte) (simp_all add: i2c_init_def push_token_def)
  have shown: "dw_text (i2c_word i2c_default True [10, 20, 30, 40, 50, 60, 70, 80]
      (map (\<lambda>b. if b = Invalid then Zero else b) ?bs)) = ''50 W''"
    by code_simp
  show ?thesis using conjunct2[OF run] unfolding conjunct1[OF run] w shown by simp
qed

end
