(* ===== verification/Decoder_Spi.thy ===== *)
theory Decoder_Spi
  imports Bit_Lanes
begin

section \<open>The SPI decoder\<close>

text \<open>
  \<^verbatim>\<open>libsurfer/src/decoders/spi.rs\<close>: the sampling edge of a mode, the loop over the sampling edges
  (\<^verbatim>\<open>decode_one\<close>) with its accumulator, the word left over at the end and the pass that stretches
  each word to the next. The accumulator is the code's \<^verbatim>\<open>u64\<close>; a word has at most 64 bits.
\<close>

unbundle bit_operations_syntax

record spi_settings =
  ss_cpol :: bool
  ss_cpha :: bool
  ss_bit_order :: bit_order
  ss_word_size :: nat
  ss_format :: word_format
  ss_cs_active_low :: bool

definition spi_default :: spi_settings where
  "spi_default = \<lparr>ss_cpol = False, ss_cpha = False, ss_bit_order = MsbFirst, ss_word_size = 8,
     ss_format = Hex, ss_cs_active_low = True\<rparr>"

definition spi_mode :: "spi_settings \<Rightarrow> 8 word" where
  "spi_mode s = push_bit 1 (of_bool (ss_cpol s)) OR of_bool (ss_cpha s)"

definition spi_set_mode :: "8 word \<Rightarrow> spi_settings \<Rightarrow> spi_settings" where
  "spi_set_mode mode s = s\<lparr>ss_cpol := (mode AND 2 \<noteq> 0), ss_cpha := (mode AND 1 \<noteq> 0)\<rparr>"

definition spi_lane_names :: "spi_settings \<Rightarrow> string list" where
  "spi_lane_names s = [''MOSI'', ''MISO'']"

definition sampling_level :: "spi_settings \<Rightarrow> bit" where
  "sampling_level s = (let leading_is_rise = \<not> ss_cpol s; sample_on_leading = \<not> ss_cpha s
     in if leading_is_rise = sample_on_leading then One else Zero)"

definition is_selected :: "spi_settings \<Rightarrow> bit_lane \<Rightarrow> nat \<Rightarrow> bool" where
  "is_selected s cs t = (case value_at cs t of
     Some One \<Rightarrow> \<not> ss_cs_active_low s
   | Some Zero \<Rightarrow> ss_cs_active_low s
   | _ \<Rightarrow> False)"

definition spi_word_size :: "spi_settings \<Rightarrow> nat" where
  "spi_word_size s = max 1 (min 64 (ss_word_size s))"

record spi_state =
  spi_words :: "decoded_word list"
  spi_acc :: "64 word"
  spi_count :: nat
  word_start :: nat
  spi_invalid :: bool
  was_selected :: bool

definition spi_init :: spi_state where
  "spi_init = \<lparr>spi_words = [], spi_acc = 0, spi_count = 0, word_start = 0, spi_invalid = False,
     was_selected = False\<rparr>"

definition of_bits :: "nat \<Rightarrow> nat \<Rightarrow> string" where
  "of_bits n word_size = show_nat n @ '' of '' @ show_nat word_size @ '' bits''"

definition spi_push :: "nat \<Rightarrow> string \<Rightarrow> word_kind \<Rightarrow> spi_state \<Rightarrow> spi_state" where
  "spi_push end text kind st = st\<lparr>spi_words := spi_words st @
     [\<lparr>dw_start = word_start st, dw_end = end, dw_text = text, dw_kind = kind\<rparr>]\<rparr>"

definition spi_reset :: "spi_state \<Rightarrow> spi_state" where
  "spi_reset st = st\<lparr>spi_acc := 0, spi_count := 0, spi_invalid := False\<rparr>"

text \<open>One bit into the accumulator; an unknown bit marks the word and keeps its slot.\<close>

definition spi_add_bit :: "spi_settings \<Rightarrow> bit option \<Rightarrow> spi_state \<Rightarrow> spi_state" where
  "spi_add_bit s sampled st = (case sampled of
     Some b \<Rightarrow> if b = Invalid then st\<lparr>spi_invalid := True\<rparr>
       else (case ss_bit_order s of
           MsbFirst \<Rightarrow> st\<lparr>spi_acc := push_bit 1 (spi_acc st) OR of_bool (b = One)\<rparr>
         | LsbFirst \<Rightarrow> st\<lparr>spi_acc := spi_acc st OR push_bit (spi_count st) (of_bool (b = One))\<rparr>)
   | None \<Rightarrow> st\<lparr>spi_invalid := True\<rparr>)"

definition spi_sample :: "spi_settings \<Rightarrow> nat \<Rightarrow> nat \<Rightarrow> bit option \<Rightarrow> spi_state \<Rightarrow> spi_state" where
  "spi_sample s word_size t sampled st =
     (let st = (if spi_count st = 0 then st\<lparr>word_start := t\<rparr> else st);
          st = spi_add_bit s sampled st;
          st = st\<lparr>spi_count := spi_count st + 1\<rparr>
      in if spi_count st = word_size then
           spi_reset (spi_push t
             (if spi_invalid st then ''x'' else format_word (ss_format s) (unat (spi_acc st)) word_size)
             (if spi_invalid st then Error else Data) st)
         else st)"

definition spi_step :: "spi_settings \<Rightarrow> bit_lane \<Rightarrow> bit_lane option \<Rightarrow> nat \<Rightarrow> spi_state \<Rightarrow> nat \<Rightarrow> spi_state" where
  "spi_step s data cs word_size st t =
     (let selected = (case cs of None \<Rightarrow> True | Some cs \<Rightarrow> is_selected s cs t);
          st = (if was_selected st \<and> \<not> selected \<and> 0 < spi_count st
                then spi_reset (spi_push t (of_bits (spi_count st) word_size) Error st) else st);
          st = st\<lparr>was_selected := selected\<rparr>
      in if \<not> selected then st else spi_sample s word_size t (value_at data t) st)"

text \<open>Stretching every word to the start of the next.\<close>

fun stretch :: "decoded_word list \<Rightarrow> decoded_word list" where
  "stretch (w # v # ws) = w\<lparr>dw_end := dw_start v\<rparr> # stretch (v # ws)"
| "stretch ws = ws"

definition spi_finish :: "nat list \<Rightarrow> nat \<Rightarrow> spi_state \<Rightarrow> spi_state" where
  "spi_finish sample_times word_size st =
     (if 0 < spi_count st
      then spi_push (if sample_times = [] then word_start st else last sample_times)
             (of_bits (spi_count st) word_size) Error st
      else st)"

definition decode_one :: "spi_settings \<Rightarrow> bit_lane \<Rightarrow> bit_lane option \<Rightarrow> nat list \<Rightarrow> nat \<Rightarrow> decoded_word list" where
  "decode_one s data cs sample_times word_size =
     stretch (spi_words (spi_finish sample_times word_size
       (foldl (spi_step s data cs word_size) spi_init sample_times)))"

definition bound_lane :: "bit_lane option list \<Rightarrow> nat \<Rightarrow> bit_lane option" where
  "bound_lane lanes i = (case get lanes i of Some l \<Rightarrow> l | None \<Rightarrow> None)"

definition spi_decode :: "spi_settings \<Rightarrow> bit_lane option list \<Rightarrow> decoded_lane list" where
  "spi_decode s lanes = (case bound_lane lanes 0 of
     None \<Rightarrow> map (\<lambda>name. \<lparr>dl_name = name, dl_words = []\<rparr>) (spi_lane_names s)
   | Some sclk \<Rightarrow>
       let cs = bound_lane lanes 3;
           word_size = spi_word_size s;
           sample_times = edges_to sclk (sampling_level s)
       in map (\<lambda>(data_idx, name). \<lparr>dl_name = name, dl_words =
            (case bound_lane lanes data_idx of
               Some data \<Rightarrow> decode_one s data cs sample_times word_size
             | None \<Rightarrow> [])\<rparr>) (zip [1, 2] (spi_lane_names s)))"

subsection \<open>A word\<close>

lemma spi_word_size_range: "0 < spi_word_size s" "spi_word_size s \<le> 64"
  by (auto simp: spi_word_size_def)

text \<open>The value of the bits sampled so far, in the order of the wire.\<close>

definition wire_value :: "spi_settings \<Rightarrow> bit list \<Rightarrow> nat" where
  "wire_value s bs = value_of 2 (map (\<lambda>b. of_bool (b = One))
     (case ss_bit_order s of MsbFirst \<Rightarrow> bs | LsbFirst \<Rightarrow> rev bs))"

lemma wire_value_less: "wire_value s bs < 2 ^ length bs"
proof -
  have "value_of 2 (map (\<lambda>b. of_bool (b = One)) xs) < 2 ^ length xs" for xs
    using value_of_bound[of "map (\<lambda>b. of_bool (b = One)) xs" 2] by auto
  from this[of bs] this[of "rev bs"] show ?thesis by (cases "ss_bit_order s") (simp_all add: wire_value_def)
qed

lemma wire_value_Nil [simp]: "wire_value s [] = 0"
  by (simp add: wire_value_def split: bit_order.split)

lemma wire_value_snoc:
  "wire_value s (bs @ [b]) = (case ss_bit_order s of MsbFirst \<Rightarrow> 2 * wire_value s bs + of_bool (b = One)
     | LsbFirst \<Rightarrow> wire_value s bs + 2 ^ length bs * of_bool (b = One))"
  by (simp add: wire_value_def value_of_Cons split: bit_order.split)

lemma spi_acc_snoc:
  assumes "spi_acc st = of_nat (wire_value s bs)" "spi_count st = length bs" "length bs < 64" "b \<noteq> Invalid"
  shows "spi_add_bit s (Some b) st = st\<lparr>spi_acc := of_nat (wire_value s (bs @ [b]))\<rparr>"
proof (cases "ss_bit_order s")
  case MsbFirst
  have "push_bit 1 (of_nat n) OR of_bool (b = One) = (of_nat (2 * n + of_bool (b = One)) :: 64 word)" for n
    by (cases b) (simp_all add: or_one_eq)
  with MsbFirst assms show ?thesis by (simp add: spi_add_bit_def wire_value_snoc del: push_bit_Suc One_nat_def)
next
  case LsbFirst
  have "wire_value s bs OR push_bit (length bs) (of_bool (b = One)) =
      wire_value s bs + push_bit (length bs) (of_bool (b = One))"
  proof (rule disjunctive_add [symmetric])
    fix n
    have "take_bit (length bs) (wire_value s bs) = wire_value s bs"
      using wire_value_less by (simp add: take_bit_nat_eq_self)
    then have "bit (wire_value s bs) n \<Longrightarrow> n < length bs" by (metis bit_take_bit_iff)
    then show "\<not> bit (wire_value s bs) n \<or> \<not> bit (push_bit (length bs) (of_bool (b = One))) n"
      by (auto simp: bit_push_bit_iff)
  qed
  then have "wire_value s (bs @ [b]) = wire_value s bs OR push_bit (length bs) (of_bool (b = One))"
    using LsbFirst by (simp add: wire_value_snoc push_bit_eq_mult)
  then have "(of_nat (wire_value s (bs @ [b])) :: 64 word) =
      of_nat (wire_value s bs) OR push_bit (length bs) (of_bool (b = One))"
    by (simp add: of_nat_or_eq of_nat_push_bit)
  with LsbFirst assms show ?thesis by (simp add: spi_add_bit_def)
qed

definition cs_selected :: "spi_settings \<Rightarrow> bit_lane option \<Rightarrow> nat \<Rightarrow> bool" where
  "cs_selected s cs t = (case cs of None \<Rightarrow> True | Some cs \<Rightarrow> is_selected s cs t)"

lemma spi_step_selected:
  "cs_selected s cs t \<Longrightarrow> spi_step s data cs n st t = spi_sample s n t (value_at data t) (st\<lparr>was_selected := True\<rparr>)"
  by (simp add: spi_step_def cs_selected_def split: option.splits)

lemma spi_sample_valid:
  assumes "spi_acc st = of_nat (wire_value s bs)" "spi_count st = length bs" "\<not> spi_invalid st"
    and "length bs < n" "n \<le> 64" "b \<noteq> Invalid"
  shows "spi_sample s n t (Some b) st =
    (if Suc (length bs) = n
     then st\<lparr>spi_acc := 0, spi_count := 0, word_start := (if bs = [] then t else word_start st),
       spi_words := spi_words st @ [\<lparr>dw_start = (if bs = [] then t else word_start st), dw_end = t,
         dw_text = format_word (ss_format s) (wire_value s (bs @ [b])) n, dw_kind = Data\<rparr>]\<rparr>
     else st\<lparr>spi_acc := of_nat (wire_value s (bs @ [b])), spi_count := Suc (length bs),
       word_start := (if bs = [] then t else word_start st)\<rparr>)"
proof -
  define st1 where "st1 = (if spi_count st = 0 then st\<lparr>word_start := t\<rparr> else st)"
  have 1: "spi_acc st1 = of_nat (wire_value s bs)" "spi_count st1 = length bs" "\<not> spi_invalid st1"
    using assms(1-3) by (auto simp: st1_def)
  from spi_acc_snoc[OF 1(1,2) _ assms(6)] assms(4,5)
  have add: "spi_add_bit s (Some b) st1 = st1\<lparr>spi_acc := of_nat (wire_value s (bs @ [b]))\<rparr>" by simp
  have "unat (of_nat (wire_value s (bs @ [b])) :: 64 word) = wire_value s (bs @ [b])" if "Suc (length bs) = n"
  proof -
    have "wire_value s (bs @ [b]) < 2 ^ n" using wire_value_less[of s "bs @ [b]"] that by simp
    also have "(2 :: nat) ^ n \<le> 2 ^ 64" using assms(5) by (rule power_increasing) simp
    finally show ?thesis by (simp add: unsigned_of_nat take_bit_nat_eq_self)
  qed
  with 1 assms(2) show ?thesis
    unfolding spi_sample_def Let_def st1_def[symmetric] add
    by (auto simp: spi_push_def spi_reset_def st1_def)
qed

definition spi_fresh :: "spi_state \<Rightarrow> bool" where
  "spi_fresh st \<longleftrightarrow> spi_acc st = 0 \<and> spi_count st = 0 \<and> \<not> spi_invalid st"

text \<open>The samples of a word: all selected, with known bits on the data line.\<close>

definition spi_carries :: "spi_settings \<Rightarrow> bit_lane \<Rightarrow> bit_lane option \<Rightarrow> nat list \<Rightarrow> bit list \<Rightarrow> bool" where
  "spi_carries s data cs ts bs \<longleftrightarrow> (\<forall>t \<in> set ts. cs_selected s cs t) \<and> map (value_at data) ts = map Some bs
     \<and> Invalid \<notin> set bs"

lemma spi_partial_run:
  assumes "spi_fresh st" "spi_carries s data cs ts bs" "length ts < n" "n \<le> 64" "ts \<noteq> []"
  shows "foldl (spi_step s data cs n) st ts =
    st\<lparr>spi_acc := of_nat (wire_value s bs), spi_count := length ts, word_start := hd ts, was_selected := True\<rparr>"
  using assms(2,3,5)
proof (induction ts arbitrary: bs rule: rev_induct)
  case Nil
  then show ?case by simp
next
  case (snoc t ts bs')
  then obtain bs b where bs': "bs' = bs @ [b]" by (cases bs' rule: rev_cases) (auto simp: spi_carries_def)
  with snoc.prems(1) have len: "length ts = length bs" "value_at data t = Some b" "b \<noteq> Invalid"
    "cs_selected s cs t" "spi_carries s data cs ts bs"
    unfolding spi_carries_def bs' by (auto dest: map_eq_imp_length_eq)
  show ?case
  proof (cases "ts = []")
    case True
    with len have "bs = []" by simp
    with True len assms(1,4) snoc.prems(2) show ?thesis
      by (simp add: spi_step_selected spi_sample_valid[of _ s "[]"] spi_fresh_def bs')
  next
    case False
    with snoc.IH[OF len(5)] snoc.prems(2)
    have IH: "foldl (spi_step s data cs n) st ts = st\<lparr>spi_acc := of_nat (wire_value s bs), spi_count := length ts,
        word_start := hd ts, was_selected := True\<rparr>" by simp
    have "bs \<noteq> []" using False len by auto
    with False len assms(1,4) snoc.prems(2) show ?thesis
      unfolding foldl_append IH
      by (simp add: spi_step_selected spi_sample_valid[of _ s bs] spi_fresh_def bs')
  qed
qed

definition spi_word :: "spi_settings \<Rightarrow> nat \<Rightarrow> nat list \<Rightarrow> bit list \<Rightarrow> decoded_word" where
  "spi_word s n ts bs = \<lparr>dw_start = hd ts, dw_end = last ts,
     dw_text = format_word (ss_format s) (wire_value s bs) n, dw_kind = Data\<rparr>"

lemma spi_word_run:
  assumes "spi_fresh st" "spi_carries s data cs ts bs" "length ts = n" "n \<le> 64" "0 < n"
  shows "foldl (spi_step s data cs n) st ts =
    st\<lparr>word_start := hd ts, was_selected := True, spi_words := spi_words st @ [spi_word s n ts bs]\<rparr>"
proof -
  obtain ts' t where ts: "ts = ts' @ [t]" using assms(3,5) by (cases ts rule: rev_cases) auto
  with assms(2) obtain bs' b where bs: "bs = bs' @ [b]"
    by (cases bs rule: rev_cases) (auto simp: spi_carries_def)
  with assms(2) have len: "length ts' = length bs'" "value_at data t = Some b" "b \<noteq> Invalid"
    "cs_selected s cs t" "spi_carries s data cs ts' bs'"
    unfolding spi_carries_def bs ts by (auto dest: map_eq_imp_length_eq)
  show ?thesis
  proof (cases "ts' = []")
    case True
    with len have "bs' = []" by simp
    with True len assms(1,3,4) show ?thesis
      by (simp add: spi_step_selected spi_sample_valid[of _ s "[]"] spi_fresh_def bs ts spi_word_def)
  next
    case False
    with spi_partial_run[OF assms(1) len(5), of n] assms(3,4)
    have run: "foldl (spi_step s data cs n) st ts' = st\<lparr>spi_acc := of_nat (wire_value s bs'), spi_count := length ts',
        word_start := hd ts', was_selected := True\<rparr>" by (simp add: ts)
    have "bs' \<noteq> []" using False len by auto
    with False len assms(1,3,4) show ?thesis
      unfolding ts foldl_append run
      by (simp add: spi_step_selected spi_sample_valid[of _ s bs'] spi_fresh_def bs ts spi_word_def)
  qed
qed

lemma spi_words_run:
  assumes "spi_fresh st" "\<forall>(ts, bs) \<in> set ws. length ts = n \<and> spi_carries s data cs ts bs" "n \<le> 64" "0 < n"
  shows "spi_fresh (foldl (spi_step s data cs n) st (concat (map fst ws))) \<and>
    spi_words (foldl (spi_step s data cs n) st (concat (map fst ws))) =
      spi_words st @ map (\<lambda>(ts, bs). spi_word s n ts bs) ws"
  using assms(1,2)
proof (induction ws arbitrary: st)
  case (Cons w ws)
  obtain ts bs where w: "w = (ts, bs)" by (cases w)
  with Cons.prems(2) have "length ts = n" "spi_carries s data cs ts bs" by auto
  from spi_word_run[OF Cons.prems(1) this(2,1) assms(3,4)]
  have run: "foldl (spi_step s data cs n) st ts =
    st\<lparr>word_start := hd ts, was_selected := True, spi_words := spi_words st @ [spi_word s n ts bs]\<rparr>" .
  have "spi_fresh (st\<lparr>word_start := hd ts, was_selected := True, spi_words := spi_words st @ [spi_word s n ts bs]\<rparr>)"
    using Cons.prems(1) by (simp add: spi_fresh_def)
  from Cons.IH[OF this] Cons.prems(2) show ?case by (simp add: w run)
qed simp

lemma spi_init_fresh: "spi_fresh spi_init" "spi_words spi_init = []"
  by (simp_all add: spi_fresh_def spi_init_def)

lemma stretch_starts [simp]: "map dw_start (stretch ws) = map dw_start ws"
  and stretch_texts: "map dw_text (stretch ws) = map dw_text ws" "map dw_kind (stretch ws) = map dw_kind ws"
  by (induction ws rule: stretch.induct) auto

subsection \<open>Transfers\<close>

text \<open>
  A run of the clock while the chip is selected: some whole words, and the bits of one that was begun.
\<close>

type_synonym spi_run = "(nat list \<times> bit list) list \<times> nat list \<times> bit list"

definition run_times :: "spi_run \<Rightarrow> nat list" where
  "run_times r = (case r of (ws, ts, bs) \<Rightarrow> concat (map fst ws) @ ts)"

definition run_ok :: "spi_settings \<Rightarrow> bit_lane \<Rightarrow> bit_lane option \<Rightarrow> nat \<Rightarrow> spi_run \<Rightarrow> bool" where
  "run_ok s data cs n r \<longleftrightarrow> (case r of (ws, ts, bs) \<Rightarrow>
     (\<forall>(ts, bs) \<in> set ws. length ts = n \<and> spi_carries s data cs ts bs)
     \<and> length ts < n \<and> spi_carries s data cs ts bs)"

definition cut_word :: "nat \<Rightarrow> nat list \<Rightarrow> nat \<Rightarrow> decoded_word list" where
  "cut_word n ts end = (if ts = [] then []
     else [\<lparr>dw_start = hd ts, dw_end = end, dw_text = of_bits (length ts) n, dw_kind = Error\<rparr>])"

definition run_words :: "spi_settings \<Rightarrow> nat \<Rightarrow> spi_run \<Rightarrow> nat \<Rightarrow> decoded_word list" where
  "run_words s n r end = (case r of (ws, ts, bs) \<Rightarrow>
     map (\<lambda>(ts, bs). spi_word s n ts bs) ws @ cut_word n ts end)"

lemma spi_run_run:
  assumes "spi_fresh st" "run_ok s data cs n (ws, ts, bs)" "n \<le> 64" "0 < n"
  defines "st' \<equiv> foldl (spi_step s data cs n) st (run_times (ws, ts, bs))"
  shows "spi_words st' = spi_words st @ map (\<lambda>(ts, bs). spi_word s n ts bs) ws"
    and "spi_count st' = length ts" and "ts \<noteq> [] \<Longrightarrow> word_start st' = hd ts \<and> was_selected st'"
    and "ts = [] \<Longrightarrow> spi_fresh st'" and "\<not> spi_invalid st'"
proof -
  let ?st = "foldl (spi_step s data cs n) st (concat (map fst ws))"
  have 1: "spi_fresh ?st" "spi_words ?st = spi_words st @ map (\<lambda>(ts, bs). spi_word s n ts bs) ws"
    using spi_words_run[OF assms(1) _ assms(3,4), of ws s data cs] assms(2) by (auto simp: run_ok_def)
  have st': "st' = foldl (spi_step s data cs n) ?st ts" by (simp add: st'_def run_times_def)
  have 2: "ts \<noteq> [] \<Longrightarrow> st' = ?st\<lparr>spi_acc := of_nat (wire_value s bs), spi_count := length ts, word_start := hd ts,
      was_selected := True\<rparr>"
    using spi_partial_run[OF 1(1), of s data cs ts bs n] assms(2,3) by (simp add: run_ok_def st')
  show "spi_words st' = spi_words st @ map (\<lambda>(ts, bs). spi_word s n ts bs) ws"
    using 1(2) 2 st' by (cases "ts = []") auto
  show "spi_count st' = length ts"
    using 1(1) 2 st' by (cases "ts = []") (auto simp: spi_fresh_def)
  show "ts \<noteq> [] \<Longrightarrow> word_start st' = hd ts \<and> was_selected st'" using 2 by simp
  show "ts = [] \<Longrightarrow> spi_fresh st'" using 1(1) st' by simp
  show "\<not> spi_invalid st'" using 1(1) 2 st' by (cases "ts = []") (auto simp: spi_fresh_def)
qed

lemma spi_transfer_run:
  assumes "spi_fresh st" "run_ok s data cs n r" "n \<le> 64" "0 < n" "\<not> cs_selected s cs d"
  shows "spi_fresh (foldl (spi_step s data cs n) st (run_times r @ [d]))"
    and "spi_words (foldl (spi_step s data cs n) st (run_times r @ [d])) = spi_words st @ run_words s n r d"
proof -
  obtain ws ts bs where r: "r = (ws, ts, bs)" by (metis prod_cases3)
  let ?st = "foldl (spi_step s data cs n) st (run_times r)"
  note run = spi_run_run[OF assms(1) assms(2)[unfolded r] assms(3,4), folded r]
  have step: "spi_step s data cs n ?st d = (if was_selected ?st \<and> ts \<noteq> []
      then spi_reset (spi_push d (of_bits (length ts) n) Error ?st) else ?st)\<lparr>was_selected := False\<rparr>"
    using assms(5) run(2) by (auto simp: spi_step_def cs_selected_def Let_def split: option.splits)
  show "spi_fresh (foldl (spi_step s data cs n) st (run_times r @ [d]))"
    using run(3,4) step by (cases "ts = []") (auto simp: spi_fresh_def spi_reset_def)
  show "spi_words (foldl (spi_step s data cs n) st (run_times r @ [d])) = spi_words st @ run_words s n r d"
    using run(1,3) step by (cases "ts = []") (auto simp: spi_reset_def spi_push_def run_words_def r cut_word_def)
qed

text \<open>
  A run with the chip held selected from its first sampling edge to its last: the code looks at chip select on the edges
  only (see the last theorem), so a shorter deselection would not be seen.
\<close>

definition run_held :: "spi_settings \<Rightarrow> bit_lane option \<Rightarrow> spi_run \<Rightarrow> bool" where
  "run_held s cs r \<longleftrightarrow> run_times r = [] \<or> list_all (cs_selected s cs) [hd (run_times r)..<Suc (last (run_times r))]"

text \<open>
  A transfer is a run and the deselected sampling edges after it. There may be none when the run has whole words only:
  then the next transfer starts a new word anyway.
\<close>

definition transfers_ok :: "spi_settings \<Rightarrow> bit_lane \<Rightarrow> bit_lane option \<Rightarrow> nat \<Rightarrow> (spi_run \<times> nat list) list \<Rightarrow> spi_run \<Rightarrow> bool" where
  "transfers_ok s data cs n trs r \<longleftrightarrow>
     (\<forall>(r, ds) \<in> set trs. run_ok s data cs n r \<and> run_held s cs r \<and> (\<forall>d \<in> set ds. \<not> cs_selected s cs d)
        \<and> (ds = [] \<longrightarrow> fst (snd r) = []))
     \<and> run_ok s data cs n r \<and> run_held s cs r"

definition transfers_times :: "(spi_run \<times> nat list) list \<Rightarrow> spi_run \<Rightarrow> nat list" where
  "transfers_times trs r = concat (map (\<lambda>(r, ds). run_times r @ ds) trs) @ run_times r"

text \<open>The words of the transfers: a word that is cut short ends at the first deselected edge, or where the clock ends.\<close>

definition transfers_words :: "spi_settings \<Rightarrow> nat \<Rightarrow> (spi_run \<times> nat list) list \<Rightarrow> spi_run \<Rightarrow> decoded_word list" where
  "transfers_words s n trs r = concat (map (\<lambda>(r, ds). run_words s n r (hd ds)) trs)
     @ run_words s n r (last (transfers_times trs r))"

lemma spi_idle_run:
  assumes "spi_fresh st" "\<forall>d \<in> set ds. \<not> cs_selected s cs d"
  shows "spi_fresh (foldl (spi_step s data cs n) st ds) \<and> spi_words (foldl (spi_step s data cs n) st ds) = spi_words st"
  using assms
proof (induction ds arbitrary: st)
  case (Cons d ds)
  have "spi_step s data cs n st d = st\<lparr>was_selected := False\<rparr>"
    using Cons.prems by (auto simp: spi_step_def cs_selected_def spi_fresh_def Let_def split: option.splits)
  moreover have "spi_fresh (st\<lparr>was_selected := False\<rparr>)" using Cons.prems(1) by (simp add: spi_fresh_def)
  ultimately show ?case using Cons.IH[of "st\<lparr>was_selected := False\<rparr>"] Cons.prems(2) by simp
qed simp

lemma spi_transfer_idle_run:
  assumes "spi_fresh st" "run_ok s data cs n r" "n \<le> 64" "0 < n" "\<forall>d \<in> set ds. \<not> cs_selected s cs d" "ds = [] \<longrightarrow> fst (snd r) = []"
  shows "spi_fresh (foldl (spi_step s data cs n) st (run_times r @ ds))
    \<and> spi_words (foldl (spi_step s data cs n) st (run_times r @ ds)) = spi_words st @ run_words s n r (hd ds)"
proof (cases ds)
  case Nil
  obtain ws ts bs where r: "r = (ws, ts, bs)" by (metis prod_cases3)
  with Nil assms(6) have "ts = []" by simp
  with spi_run_run[OF assms(1) assms(2)[unfolded r] assms(3,4)] Nil show ?thesis
    by (simp add: r run_words_def cut_word_def)
next
  case (Cons d ds')
  have d: "\<not> cs_selected s cs d" using assms(5) Cons by simp
  note tr = spi_transfer_run[OF assms(1-4) d]
  show ?thesis using spi_idle_run[OF tr(1), of ds' s cs data n] tr(2) assms(5) by (simp add: Cons)
qed

lemma spi_transfers_run:
  assumes "spi_fresh st" "\<forall>(r, ds) \<in> set trs. run_ok s data cs n r \<and> (\<forall>d \<in> set ds. \<not> cs_selected s cs d) \<and> (ds = [] \<longrightarrow> fst (snd r) = [])"
    and "n \<le> 64" "0 < n"
  defines "st' \<equiv> foldl (spi_step s data cs n) st (concat (map (\<lambda>(r, ds). run_times r @ ds) trs))"
  shows "spi_fresh st' \<and> spi_words st' = spi_words st @ concat (map (\<lambda>(r, ds). run_words s n r (hd ds)) trs)"
  using assms(1,2) unfolding st'_def
proof (induction trs arbitrary: st)
  case (Cons x trs)
  obtain r ds where x: "x = (r, ds)" by (cases x)
  with Cons.prems have "run_ok s data cs n r" "\<forall>d \<in> set ds. \<not> cs_selected s cs d" "ds = [] \<longrightarrow> fst (snd r) = []" by auto
  note tr = spi_transfer_idle_run[OF Cons.prems(1) this(1) assms(3,4) this(2,3)]
  from Cons.IH[OF conjunct1[OF tr]] Cons.prems(2) conjunct2[OF tr] show ?case by (simp add: x)
qed simp

lemma decode_one_transfers:
  assumes "transfers_ok s data cs n trs r" "0 < n" "n \<le> 64"
  shows "decode_one s data cs (transfers_times trs r) n = stretch (transfers_words s n trs r)"
proof -
  obtain ws ts bs where r: "r = (ws, ts, bs)" by (metis prod_cases3)
  let ?st = "foldl (spi_step s data cs n) spi_init (concat (map (\<lambda>(r, ds). run_times r @ ds) trs))"
  have 1: "spi_fresh ?st" "spi_words ?st = concat (map (\<lambda>(r, ds). run_words s n r (hd ds)) trs)"
    using spi_transfers_run[OF spi_init_fresh(1), of trs s data cs n] assms(1-3)
    by (fastforce simp: transfers_ok_def spi_init_fresh)+
  have "run_ok s data cs n (ws, ts, bs)" using assms(1) by (simp add: transfers_ok_def r)
  note run = spi_run_run[OF 1(1) this assms(3,2), folded r]
  have "ts \<noteq> [] \<Longrightarrow> transfers_times trs r \<noteq> []" by (auto simp: transfers_times_def r run_times_def)
  with run(1-3) 1(2) show ?thesis
    by (auto simp: decode_one_def transfers_words_def transfers_times_def spi_finish_def spi_push_def run_words_def r cut_word_def)
qed

subsection \<open>The clock\<close>

text \<open>
  The clock rests at the level of CPOL. A pulse leaves it at its leading edge and comes back at its trailing one; CPHA
  chooses the edge on which a bit is read.
\<close>

definition clock_idle :: "spi_settings \<Rightarrow> bit" where
  "clock_idle s = (if ss_cpol s then One else Zero)"

definition clock_active :: "spi_settings \<Rightarrow> bit" where
  "clock_active s = (if ss_cpol s then Zero else One)"

definition clock_lane :: "spi_settings \<Rightarrow> nat \<Rightarrow> (nat \<times> nat) list \<Rightarrow> bit_lane" where
  "clock_lane s t0 pulses = \<lparr>changes = (t0, clock_idle s)
     # concat (map (\<lambda>(leading, trailing). [(leading, clock_active s), (trailing, clock_idle s)]) pulses)\<rparr>"

definition reading_edge :: "spi_settings \<Rightarrow> nat \<times> nat \<Rightarrow> nat" where
  "reading_edge s pulse = (if ss_cpha s then snd pulse else fst pulse)"

lemma clock_edges: "edges_to (clock_lane s t0 pulses) (sampling_level s) = map (reading_edge s) pulses"
proof -
  have "edges_from (Some (clock_idle s)) (sampling_level s)
      (concat (map (\<lambda>(leading, trailing). [(leading, clock_active s), (trailing, clock_idle s)]) pulses)) = map (reading_edge s) pulses"
    by (induction pulses) (auto simp: clock_idle_def clock_active_def sampling_level_def reading_edge_def Let_def)
  then show ?thesis by (simp add: edges_to_def clock_lane_def)
qed

subsection \<open>Order of the words\<close>

definition spi_inv :: "nat \<Rightarrow> spi_state \<Rightarrow> bool" where
  "spi_inv now st \<longleftrightarrow> starts_sorted (spi_words st) \<and> (\<forall>w \<in> set (spi_words st). dw_start w \<le> now) \<and>
     (0 < spi_count st \<longrightarrow> word_start st \<le> now \<and> (\<forall>w \<in> set (spi_words st). dw_start w \<le> word_start st))"

lemma spi_inv_later: "spi_inv now st \<Longrightarrow> now \<le> t \<Longrightarrow> spi_inv t st"
  by (fastforce simp: spi_inv_def)

lemma spi_inv_push:
  "spi_inv t st \<Longrightarrow> 0 < spi_count st \<Longrightarrow> t \<le> end \<Longrightarrow> spi_inv t (spi_reset (spi_push end text kind st))"
  by (auto simp: spi_inv_def spi_push_def spi_reset_def intro!: starts_sorted_snoc)

lemma spi_add_bit_frame [simp]:
  "spi_words (spi_add_bit s b st) = spi_words st" "spi_count (spi_add_bit s b st) = spi_count st"
  "word_start (spi_add_bit s b st) = word_start st"
  by (auto simp: spi_add_bit_def split: option.split bit_order.split)

lemma spi_inv_sample:
  assumes "spi_inv now st" "now \<le> t"
  shows "spi_inv t (spi_sample s n t b st)"
proof -
  define st1 where "st1 = (spi_add_bit s b (if spi_count st = 0 then st\<lparr>word_start := t\<rparr> else st))
    \<lparr>spi_count := spi_count (spi_add_bit s b (if spi_count st = 0 then st\<lparr>word_start := t\<rparr> else st)) + 1\<rparr>"
  have 1: "spi_inv t st1" "0 < spi_count st1" using assms by (fastforce simp: spi_inv_def st1_def)+
  moreover have "spi_sample s n t b st = (if spi_count st1 = n then spi_reset (spi_push t
      (if spi_invalid st1 then ''x'' else format_word (ss_format s) (unat (spi_acc st1)) n)
      (if spi_invalid st1 then Error else Data) st1) else st1)"
    unfolding spi_sample_def Let_def st1_def ..
  ultimately show ?thesis using spi_inv_push[OF 1 order.refl] by simp
qed

lemma spi_inv_step:
  assumes "spi_inv now st" "now \<le> t"
  shows "spi_inv t (spi_step s data cs n st t)"
proof -
  from spi_inv_later[OF assms] have 1: "spi_inv t st" .
  define sel where "sel \<longleftrightarrow> (case cs of None \<Rightarrow> True | Some cs \<Rightarrow> is_selected s cs t)"
  define st2 where "st2 = (if was_selected st \<and> \<not> sel \<and> 0 < spi_count st
    then spi_reset (spi_push t (of_bits (spi_count st) n) Error st) else st)\<lparr>was_selected := sel\<rparr>"
  have 2: "spi_inv t st2" unfolding st2_def using 1 spi_inv_push[OF 1 _ order.refl] by (simp add: spi_inv_def)
  have "spi_step s data cs n st t = (if \<not> sel then st2 else spi_sample s n t (value_at data t) st2)"
    unfolding spi_step_def Let_def sel_def st2_def ..
  then show ?thesis using 2 spi_inv_sample[OF 2 order.refl] by simp
qed

lemma spi_inv_run:
  assumes "spi_inv now st" "sorted ts" "\<forall>t \<in> set ts. now \<le> t"
  shows "spi_inv (if ts = [] then now else last ts) (foldl (spi_step s data cs n) st ts)"
  using assms
proof (induction ts arbitrary: now st)
  case (Cons t ts)
  from Cons.prems have "spi_inv t (spi_step s data cs n st t)" by (intro spi_inv_step[of now]) auto
  from Cons.IH[OF this] Cons.prems(2) show ?case by auto
qed simp

lemma stretch_ends:
  "sorted (map dw_start ws) \<Longrightarrow> \<forall>w \<in> set ws. dw_start w \<le> dw_end w \<Longrightarrow>
   \<forall>w \<in> set (stretch ws). dw_start w \<le> dw_end w"
  by (induction ws rule: stretch.induct) simp_all

lemma stretch_spans: "starts_sorted ws \<Longrightarrow> starts_sorted (stretch ws)"
  unfolding starts_sorted_alt using stretch_ends[of ws] by simp

lemma decode_one_presorted:
  assumes "sorted ts"
  shows "starts_sorted (spi_words (spi_finish ts n (foldl (spi_step s data cs n) spi_init ts)))"
proof -
  let ?st = "foldl (spi_step s data cs n) spi_init ts"
  have "spi_inv 0 spi_init" by (simp add: spi_inv_def spi_init_def starts_sorted_def)
  from spi_inv_run[OF this assms, of s data cs n]
  have inv: "spi_inv (if ts = [] then 0 else last ts) ?st" by simp
  then show ?thesis
    by (auto simp: spi_inv_def spi_finish_def spi_push_def spi_init_def intro!: starts_sorted_snoc split: if_splits)
qed

lemma spi_set_mode_mode: "spi_set_mode (spi_mode s) s = s"
  by (cases "ss_cpol s"; cases "ss_cpha s") (simp_all add: spi_set_mode_def spi_mode_def)

subsection \<open>Properties\<close>

text \<open>
  C11. The bus decodes to its transfers. The lanes are a clock of pulses in the configured polarity, MOSI, MISO and perhaps
  chip select. When the edges that the configured phase reads split into transfers, each a run with the chip held selected
  and the deselected edges after it, the row of each data lane has every run's whole words in order, with the value of
  their bits in the configured bit order, and an error word saying how many bits arrived for the word that a deselection
  or the end of the trace cut short. It holds for all four modes and every word size.
\<close>

theorem spi_transfers:
  assumes "transfers_ok s mosi cs (spi_word_size s) trs r" and "transfers_ok s miso cs (spi_word_size s) trs' r'"
    and "map (reading_edge s) pulses = transfers_times trs r" and "map (reading_edge s) pulses = transfers_times trs' r'"
  shows "spi_decode s [Some (clock_lane s t0 pulses), Some mosi, Some miso, cs] =
    [\<lparr>dl_name = ''MOSI'', dl_words = stretch (transfers_words s (spi_word_size s) trs r)\<rparr>,
     \<lparr>dl_name = ''MISO'', dl_words = stretch (transfers_words s (spi_word_size s) trs' r')\<rparr>]"
  using decode_one_transfers[OF assms(1) spi_word_size_range] decode_one_transfers[OF assms(2) spi_word_size_range] assms(3,4)
  by (simp add: spi_decode_def bound_lane_def get_def clock_edges spi_lane_names_def Let_def)

definition spi_sample_data :: bit_lane where
  "spi_sample_data = \<lparr>changes = [(0, Zero), (15, One), (25, Zero), (35, One), (45, Zero), (55, One)]\<rparr>"

definition spi_sample_cs :: bit_lane where
  "spi_sample_cs = \<lparr>changes = [(0, One), (5, Zero), (65, One)]\<rparr>"

definition spi_sample_settings :: spi_settings where
  "spi_sample_settings = spi_default\<lparr>ss_word_size := 4, ss_cpol := True, ss_cpha := True\<rparr>"

definition spi_sample_pulses :: "(nat \<times> nat) list" where
  "spi_sample_pulses = [(7, 10), (17, 20), (27, 30), (37, 40), (47, 50), (57, 60), (67, 70)]"

definition spi_sample_transfers :: "(spi_run \<times> nat list) list" where
  "spi_sample_transfers = [(([([10, 20, 30, 40], [Zero, One, Zero, One])], [50, 60], [Zero, One]), [70])]"

lemma spi_transfers_witness:
  "spi_decode spi_sample_settings [Some (clock_lane spi_sample_settings 0 spi_sample_pulses), Some spi_sample_data, Some spi_sample_data,
      Some spi_sample_cs] =
     [\<lparr>dl_name = ''MOSI'', dl_words = [\<lparr>dw_start = 10, dw_end = 50, dw_text = ''5'', dw_kind = Data\<rparr>,
      \<lparr>dw_start = 50, dw_end = 70, dw_text = ''2 of 4 bits'', dw_kind = Error\<rparr>]\<rparr>,
      \<lparr>dl_name = ''MISO'', dl_words = [\<lparr>dw_start = 10, dw_end = 50, dw_text = ''5'', dw_kind = Data\<rparr>,
      \<lparr>dw_start = 50, dw_end = 70, dw_text = ''2 of 4 bits'', dw_kind = Error\<rparr>]\<rparr>]"
proof -
  have ok: "transfers_ok spi_sample_settings spi_sample_data (Some spi_sample_cs) (spi_word_size spi_sample_settings)
      spi_sample_transfers ([], [], [])"
    by code_simp
  have times: "map (reading_edge spi_sample_settings) spi_sample_pulses = transfers_times spi_sample_transfers ([], [], [])"
    by code_simp
  have words: "stretch (transfers_words spi_sample_settings (spi_word_size spi_sample_settings) spi_sample_transfers ([], [], [])) =
    [\<lparr>dw_start = 10, dw_end = 50, dw_text = ''5'', dw_kind = Data\<rparr>,
      \<lparr>dw_start = 50, dw_end = 70, dw_text = ''2 of 4 bits'', dw_kind = Error\<rparr>]"
    by code_simp
  show ?thesis using spi_transfers[OF ok ok times times, of 0] unfolding words .
qed

text \<open>
  Chip select is looked at only at the sampling edges of the clock. Two chip-select lines that agree
  there decode alike, so a deselection between two edges of the clock is not seen: the bits after it join
  the word before it.
\<close>

theorem spi_cs_only_sampled:
  assumes "\<And>t. t \<in> set tms \<Longrightarrow> is_selected s cs t = is_selected s cs' t"
  shows "decode_one s data (Some cs) tms n = decode_one s data (Some cs') tms n"
proof -
  have "foldl (spi_step s data (Some cs) n) st tms = foldl (spi_step s data (Some cs') n) st tms" for st
    using assms by (intro foldl_cong) (simp_all add: spi_step_def)
  then show ?thesis by (simp add: decode_one_def)
qed

lemma spi_cs_only_sampled_witness:
  "decode_one spi_default spi_sample_data (Some \<lparr>changes = [(0, Zero), (22, One), (28, Zero)]\<rparr>) [10, 20, 30, 40] 4
   = [\<lparr>dw_start = 10, dw_end = 40, dw_text = ''5'', dw_kind = Data\<rparr>]"
proof -
  have "decode_one spi_default spi_sample_data (Some \<lparr>changes = [(0, Zero), (22, One), (28, Zero)]\<rparr>) [10, 20, 30, 40] 4
    = decode_one spi_default spi_sample_data (Some \<lparr>changes = [(0, Zero)]\<rparr>) [10, 20, 30, 40] 4"
  proof (rule spi_cs_only_sampled)
    have "\<forall>t \<in> set [10, 20, 30, 40 :: nat].
        is_selected spi_default \<lparr>changes = [(0, Zero), (22, One), (28, Zero)]\<rparr> t =
        is_selected spi_default \<lparr>changes = [(0, Zero)]\<rparr> t"
      by code_simp
    then show "t \<in> set [10, 20, 30, 40] \<Longrightarrow>
        is_selected spi_default \<lparr>changes = [(0, Zero), (22, One), (28, Zero)]\<rparr> t =
        is_selected spi_default \<lparr>changes = [(0, Zero)]\<rparr> t" for t
      by blast
  qed
  also have "\<dots> = [\<lparr>dw_start = 10, dw_end = 40, dw_text = ''5'', dw_kind = Data\<rparr>]"
  proof -
    have "decode_one spi_default spi_sample_data (Some \<lparr>changes = [(0, Zero)]\<rparr>) [10, 20, 30, 40] 4 =
      stretch (map (\<lambda>(ts, bs). spi_word spi_default 4 ts bs) [([10, 20, 30, 40], [Zero, One, Zero, One])])"
    proof -
      have "spi_fresh spi_init \<and> (\<forall>(ts, bs) \<in> set [([10, 20, 30, 40], [Zero, One, Zero, One])]. length ts = 4 \<and>
          spi_carries spi_default spi_sample_data (Some \<lparr>changes = [(0, Zero)]\<rparr>) ts bs)"
        by code_simp
      with spi_words_run[of spi_init "[([10, 20, 30, 40], [Zero, One, Zero, One])]" 4 spi_default
          spi_sample_data "Some \<lparr>changes = [(0, Zero)]\<rparr>"]
      show ?thesis by (simp add: decode_one_def spi_finish_def spi_fresh_def spi_init_fresh)
    qed
    also have "\<dots> = [\<lparr>dw_start = 10, dw_end = 40, dw_text = ''5'', dw_kind = Data\<rparr>]" by code_simp
    finally show ?thesis .
  qed
  finally show ?thesis .
qed

end
