(* ===== verification/Variable_Refs.thy ===== *)
theory Variable_Refs
  imports Rust_Strings "HOL-Library.List_Lexorder" "HOL-Library.Char_ord"
begin

section \<open>References to variables and scopes\<close>

text \<open>
  \<^verbatim>\<open>ScopeRef\<close> and \<^verbatim>\<open>VariableRef\<close> of \<^verbatim>\<open>surfer-translation-types\<close> with the operations of
  \<^verbatim>\<open>libsurfer/src/wave_container.rs\<close>, and the minimal display names of
  \<^verbatim>\<open>libsurfer/src/variable_name_type.rs\<close>. The numeric id of the waveform library is a type
  parameter, \<open>None\<close> where it is not known. Two references are equal to the program when their paths
  and names are (\<open>var_eq\<close>), whatever their id and index.
\<close>

record 's scope_ref =
  sc_strs :: "string list"
  sc_id :: "'s option"

record ('v, 's) variable_ref =
  vr_path :: "'s scope_ref"
  vr_name :: string
  vr_id :: "'v option"
  vr_index :: "int option"

definition scope_eq :: "'s scope_ref \<Rightarrow> 's scope_ref \<Rightarrow> bool" where
  "scope_eq a b \<longleftrightarrow> sc_strs a = sc_strs b"

definition var_eq :: "('v, 's) variable_ref \<Rightarrow> ('v, 's) variable_ref \<Rightarrow> bool" where
  "var_eq a b \<longleftrightarrow> scope_eq (vr_path a) (vr_path b) \<and> vr_name a = vr_name b"

definition scope_empty :: "'s scope_ref" where
  "scope_empty = \<lparr>sc_strs = [], sc_id = None\<rparr>"

definition scope_from_strs_with_id :: "string list \<Rightarrow> 's option \<Rightarrow> 's scope_ref" where
  "scope_from_strs_with_id s i = \<lparr>sc_strs = s, sc_id = i\<rparr>"

definition scope_from_strs :: "string list \<Rightarrow> 's scope_ref" where
  "scope_from_strs s = scope_from_strs_with_id s None"

definition split_dots :: "string \<Rightarrow> string list" where
  "split_dots s = split_on (\<lambda>c. c = CHR ''.'') s"

definition scope_from_hierarchy_string :: "string \<Rightarrow> 's scope_ref" where
  "scope_from_hierarchy_string s = \<lparr>sc_strs = split_dots s, sc_id = None\<rparr>"

definition with_subscope :: "'s scope_ref \<Rightarrow> string \<Rightarrow> 's option \<Rightarrow> 's scope_ref" where
  "with_subscope sc subscope i = \<lparr>sc_strs = sc_strs sc @ [subscope], sc_id = i\<rparr>"

definition scope_name :: "'s scope_ref \<Rightarrow> string" where
  "scope_name sc = (if sc_strs sc = [] then [] else last (sc_strs sc))"

definition scope_full_name :: "'s scope_ref \<Rightarrow> string" where
  "scope_full_name sc = join ''.'' (sc_strs sc)"

text \<open>\<open>rfind\<close>: the position of the last occurrence of a character.\<close>

definition rfind :: "char \<Rightarrow> string \<Rightarrow> nat option" where
  "rfind c s = (if c \<in> set s then Some (length s - 1 - length (takeWhile (\<lambda>x. x \<noteq> c) (rev s))) else None)"

definition extract_index :: "string \<Rightarrow> string \<times> int option" where
  "extract_index s = (case rfind (CHR ''['') s of
     Some start_idx \<Rightarrow>
       if 0 < start_idx \<and> ends_with '']'' s then
         (case parse_i64 (slice_range (start_idx + 1) (length s - 1) s) of
            Some index \<Rightarrow> (take start_idx s, Some index)
          | None \<Rightarrow> (s, None))
       else (s, None)
   | None \<Rightarrow> (s, None))"

definition new_with_id_and_index ::
    "'s scope_ref \<Rightarrow> string \<Rightarrow> 'v option \<Rightarrow> int option \<Rightarrow> ('v, 's) variable_ref" where
  "new_with_id_and_index path name i index =
     (let (name, index) = (if index = None then extract_index name else (name, index))
      in \<lparr>vr_path = path, vr_name = name, vr_id = i, vr_index = index\<rparr>)"

definition var_new :: "'s scope_ref \<Rightarrow> string \<Rightarrow> ('v, 's) variable_ref" where
  "var_new path name = new_with_id_and_index path name None None"

definition var_from_hierarchy_string :: "string \<Rightarrow> ('v, 's) variable_ref" where
  "var_from_hierarchy_string s =
     (let components = split_dots s in
      if components = [] then \<lparr>vr_path = scope_empty, vr_name = [], vr_id = None, vr_index = None\<rparr>
      else let (name, index) = extract_index (last components)
        in \<lparr>vr_path = scope_from_strs (butlast components), vr_name = name, vr_id = None, vr_index = index\<rparr>)"

definition var_from_hierarchy_string_with_id :: "string \<Rightarrow> 'v option \<Rightarrow> ('v, 's) variable_ref" where
  "var_from_hierarchy_string_with_id s i =
     (let components = split_dots s in
      if components = [] then \<lparr>vr_path = scope_empty, vr_name = [], vr_id = i, vr_index = None\<rparr>
      else \<lparr>vr_path = scope_from_strs (butlast components), vr_name = last components, vr_id = i, vr_index = None\<rparr>)"

definition full_path_string_no_index :: "('v, 's) variable_ref \<Rightarrow> string" where
  "full_path_string_no_index v =
     (if sc_strs (vr_path v) = [] then vr_name v
      else scope_full_name (vr_path v) @ ''.'' @ vr_name v)"

definition full_path_string :: "('v, 's) variable_ref \<Rightarrow> string" where
  "full_path_string v = (case vr_index v of
     Some index \<Rightarrow> scope_full_name (vr_path v) @ ''.'' @ vr_name v @ ''['' @ show_int index @ '']''
   | None \<Rightarrow> full_path_string_no_index v)"

definition full_path :: "('v, 's) variable_ref \<Rightarrow> string list" where
  "full_path v = sc_strs (vr_path v) @ [vr_name v]"

definition full_path_with_index :: "('v, 's) variable_ref \<Rightarrow> string list" where
  "full_path_with_index v = (case vr_index v of
     Some index \<Rightarrow> sc_strs (vr_path v) @ [vr_name v, ''['' @ show_int index @ '']'']
   | None \<Rightarrow> full_path v)"

text \<open>The range of an index declaration, \<^verbatim>\<open>VariableIndex\<close>.\<close>

record variable_index =
  vi_msb :: int
  vi_lsb :: int

definition show_variable_index :: "variable_index \<Rightarrow> string" where
  "show_variable_index i = (if vi_msb i = vi_lsb i then ''['' @ show_int (vi_lsb i) @ '']''
     else ''['' @ show_int (vi_msb i) @ '':'' @ show_int (vi_lsb i) @ '']'')"

subsection \<open>Minimal display names\<close>

fun common_prefix_len :: "'a list \<Rightarrow> 'a list \<Rightarrow> nat" where
  "common_prefix_len (x # xs) (y # ys) = (if x = y then Suc (common_prefix_len xs ys) else 0)"
| "common_prefix_len _ _ = 0"

text \<open>The ellipsis is one character of three bytes.\<close>

definition ellipsis :: string where
  "ellipsis = [CHR 0xE2, CHR 0x80, CHR 0xA6]"

definition name_need :: "string list list \<Rightarrow> nat \<Rightarrow> nat" where
  "name_need paths i =
     max (if 0 < i then common_prefix_len (paths ! i) (paths ! (i - 1)) + 1 else 0)
         (if i + 1 < length paths then common_prefix_len (paths ! i) (paths ! (i + 1)) + 1 else 0)"

definition minimal_name :: "string list \<Rightarrow> nat \<Rightarrow> string \<Rightarrow> string" where
  "minimal_name path_i need name =
     (if need = 0 \<or> path_i = [] then name
      else let take_n = min need (length path_i);
               scope = join ''.'' (rev (take take_n path_i));
               prefix = (if take_n < length path_i then ellipsis else [])
           in if scope = [] then name else prefix @ scope @ ''.'' @ name)"

definition name_entries :: "('v, 's) variable_ref list \<Rightarrow> (string list \<times> ('v, 's) variable_ref) list" where
  "name_entries vars = sort_key fst (map (\<lambda>v. (rev (sc_strs (vr_path v)), v)) vars)"

definition group_display_names :: "('v, 's) variable_ref list \<Rightarrow> (string \<times> string) list" where
  "group_display_names vars =
     (if length vars = 1 then [(full_path_string (hd vars), vr_name (hd vars))]
      else let entries = name_entries vars; paths = map fst entries in
        map (\<lambda>i. (full_path_string (snd (entries ! i)),
                  minimal_name (paths ! i) (name_need paths i) (vr_name (snd (entries ! i)))))
          [0..<length entries])"

text \<open>
  The map of all groups; \<open>locals\<close> is the order in which the hash map of groups yields them.
\<close>

definition compute_minimal_display_map ::
    "string list \<Rightarrow> ('v, 's) variable_ref list \<Rightarrow> string \<Rightarrow> string option" where
  "compute_minimal_display_map locals vars =
     foldl (\<lambda>m (k, d). m(k \<mapsto> d)) Map.empty
       (concat (map (\<lambda>l. group_display_names (filter (\<lambda>v. vr_name v = l) vars)) locals))"

subsection \<open>Splitting and joining\<close>

lemma split_on_no: "\<forall>c \<in> set s. \<not> P c \<Longrightarrow> split_on P s = [s]"
  by (induction s) auto

lemma split_on_append: "\<forall>c \<in> set w. \<not> P c \<Longrightarrow> P d \<Longrightarrow> split_on P (w @ d # s) = w # split_on P s"
  by (induction w) auto

lemma split_join:
  assumes "ws \<noteq> []" "\<forall>w \<in> set ws. c \<notin> set w"
  shows "split_on (\<lambda>x. x = c) (join [c] ws) = ws"
  using assms
proof (induction "[c]" ws rule: join.induct)
  case (2 w)
  then show ?case using split_on_no[of w "\<lambda>x. x = c"] by auto
next
  case (3 w v ws)
  then show ?case using split_on_append[of w "\<lambda>x. x = c" c "join [c] (v # ws)"] by auto
qed simp

lemma join_Cons: "ws \<noteq> [] \<Longrightarrow> join sep (w # ws) = w @ sep @ join sep ws"
  by (cases ws) simp_all

lemma join_append: "xs \<noteq> [] \<Longrightarrow> ys \<noteq> [] \<Longrightarrow> join sep (xs @ ys) = join sep xs @ sep @ join sep ys"
proof (induction xs)
  case (Cons x xs)
  show ?case
  proof (cases "xs = []")
    case True
    with Cons.prems show ?thesis by (simp add: join_Cons)
  next
    case False
    then have "join sep ((x # xs) @ ys) = x @ sep @ join sep (xs @ ys)" by (simp add: join_Cons)
    also have "\<dots> = join sep (x # xs) @ sep @ join sep ys"
      unfolding Cons.IH[OF False Cons.prems(2)] join_Cons[OF False] by (simp only: append_assoc)
    finally show ?thesis .
  qed
qed simp

lemma join_inj:
  assumes "join [c] xs = join [c] ys" "xs \<noteq> []" "ys \<noteq> []" "\<forall>w \<in> set xs \<union> set ys. c \<notin> set w"
  shows "xs = ys"
proof -
  have "split_on (\<lambda>x. x = c) (join [c] xs) = xs" using assms by (intro split_join) auto
  moreover have "split_on (\<lambda>x. x = c) (join [c] ys) = ys" using assms by (intro split_join) auto
  ultimately show ?thesis unfolding assms(1) by (rule trans[OF sym])
qed

subsection \<open>Reading a path back\<close>

lemma digit_char_not: "d < 10 \<Longrightarrow> digit_char d \<notin> {CHR ''['', CHR ''.'', CHR ''-'', CHR ''+'', CHR '']''}"
proof -
  assume "d < 10"
  then have "take_bit 8 (48 + d) = 48 + d" by (simp add: take_bit_nat_eq_self)
  with \<open>d < 10\<close> show ?thesis by (auto simp: digit_char_def char_of_eq_iff)
qed

lemma show_nat_chars: "c \<in> set (show_nat n) \<Longrightarrow> c \<notin> {CHR ''['', CHR ''.'', CHR ''-'', CHR ''+'', CHR '']''}"
  using digits_of_less[of 10 _ n] digit_char_not by (auto simp: show_radix_def)

lemma parse_show_nat: "parse_digits 10 (show_nat n) = Some n"
  using parse_show_radix[of 10 0 n] by (simp add: zero_pad_def)

lemma parse_show_int: "- (2 ^ 63) \<le> i \<Longrightarrow> i < 2 ^ 63 \<Longrightarrow> parse_i64 (show_int i) = Some i"
proof (cases "i < 0")
  case True
  assume "- (2 ^ 63) \<le> i"
  with True show ?thesis by (simp add: show_int_def parse_i64_def parse_show_nat)
next
  case False
  assume "i < 2 ^ 63"
  obtain c cs where c: "show_nat (nat i) = c # cs" by (cases "show_nat (nat i)") auto
  then have "c \<noteq> CHR ''-''" "c \<noteq> CHR ''+''" using show_nat_chars[of c "nat i"] by auto
  with False \<open>i < 2 ^ 63\<close> show ?thesis
    using parse_show_nat[of "nat i"] by (simp add: show_int_def parse_i64_def c)
qed

lemma show_int_chars: "c \<in> set (show_int i) \<Longrightarrow> c \<noteq> CHR ''['' \<and> c \<noteq> CHR ''.'' \<and> c \<noteq> CHR '']''"
  using show_nat_chars by (auto simp: show_int_def split: if_splits)

lemma rfind_last: "c \<notin> set ys \<Longrightarrow> rfind c (xs @ c # ys) = Some (length xs)"
  by (simp add: rfind_def takeWhile_append)

lemma extract_index_suffix:
  assumes "name \<noteq> []" "- (2 ^ 63) \<le> i" "i < 2 ^ 63"
  shows "extract_index (name @ ''['' @ show_int i @ '']'') = (name, Some i)"
proof -
  let ?s = "name @ ''['' @ show_int i @ '']''"
  have "rfind (CHR ''['') ?s = Some (length name)"
    using rfind_last[of "CHR ''[''" "show_int i @ '']''" name] show_int_chars[of _ i] by auto
  moreover have "ends_with '']'' ?s" by (simp add: ends_with_def)
  moreover have "slice_range (length name + 1) (length ?s - 1) ?s = show_int i"
    by (simp add: slice_range_def)
  ultimately show ?thesis using assms parse_show_int by (simp add: extract_index_def)
qed

text \<open>A reference whose path and name can be read back: no dots, and no index hidden in the name.\<close>

definition readable :: "('v, 's) variable_ref \<Rightarrow> bool" where
  "readable v \<longleftrightarrow> sc_strs (vr_path v) \<noteq> [] \<and> (\<forall>w \<in> set (full_path v). CHR ''.'' \<notin> set w) \<and>
     (case vr_index v of Some i \<Rightarrow> vr_name v \<noteq> [] \<and> - (2 ^ 63) \<le> i \<and> i < 2 ^ 63
      | None \<Rightarrow> extract_index (vr_name v) = (vr_name v, None))"

lemma split_full_path_string:
  assumes "readable v"
  shows "split_dots (full_path_string v) = sc_strs (vr_path v) @
    [vr_name v @ (case vr_index v of Some i \<Rightarrow> ''['' @ show_int i @ '']'' | None \<Rightarrow> [])]"
    (is "_ = ?ws @ [?w]")
proof -
  have "full_path_string v = join ''.'' (?ws @ [?w])"
    using assms by (simp add: readable_def full_path_string_def full_path_string_no_index_def join_append
        scope_full_name_def split: option.split)
  moreover have "\<forall>w \<in> set (?ws @ [?w]). CHR ''.'' \<notin> set w"
    using assms show_int_chars by (fastforce simp: readable_def full_path_def split: option.split)
  ultimately show ?thesis unfolding split_dots_def using split_join[of "?ws @ [?w]" "CHR ''.''"] by simp
qed

subsection \<open>Minimal names are distinct\<close>

lemma common_prefix_len_commute: "common_prefix_len xs ys = common_prefix_len ys xs"
  by (induction xs ys rule: common_prefix_len.induct) auto

lemma common_prefix_len_mono:
  fixes a :: "'a::linorder list"
  assumes "a \<le> b" "b \<le> c"
  shows "common_prefix_len a c \<le> common_prefix_len a b" "common_prefix_len a c \<le> common_prefix_len b c"
  using assms
proof (induction a arbitrary: b c)
  case Nil
  {
    case 1
    then show ?case by simp
  next
    case 2
    then show ?case by simp
  }
next
  case (Cons x xs)
  {
    case 1
    show ?case
    proof (cases c)
      case c: (Cons z zs)
      with 1 obtain y ys where b: "b = y # ys" by (cases b) auto
      with 1 c Cons.IH(1)[of ys zs] show ?thesis by auto
    qed simp
  next
    case 2
    show ?case
    proof (cases c)
      case c: (Cons z zs)
      with 2 obtain y ys where b: "b = y # ys" by (cases b) auto
      with 2 c Cons.IH(2)[of ys zs] show ?thesis by auto
    qed simp
  }
qed

lemma common_prefix_take: "k \<le> length xs \<Longrightarrow> k \<le> length ys \<Longrightarrow> take k xs = take k ys \<Longrightarrow> k \<le> common_prefix_len xs ys"
proof (induction xs ys arbitrary: k rule: common_prefix_len.induct)
  case (1 x xs y ys)
  then show ?case by (cases k) auto
qed auto

text \<open>The needed length exceeds the common prefix with every other path, not only with the neighbours.\<close>

lemma name_need_exceeds:
  fixes paths :: "string list list"
  assumes "sorted paths" "i < length paths" "j < length paths" "i \<noteq> j"
  shows "common_prefix_len (paths ! i) (paths ! j) < name_need paths i"
proof (cases "i < j")
  case True
  then have "common_prefix_len (paths ! i) (paths ! j) \<le> common_prefix_len (paths ! i) (paths ! (i + 1))"
    using assms by (intro common_prefix_len_mono(1)) (auto simp: sorted_nth_mono)
  with True assms show ?thesis by (simp add: name_need_def)
next
  case False
  then have "common_prefix_len (paths ! j) (paths ! i) \<le> common_prefix_len (paths ! (i - 1)) (paths ! i)"
    using assms by (intro common_prefix_len_mono(2)) (auto simp: sorted_nth_mono)
  with False assms show ?thesis
    by (simp add: name_need_def common_prefix_len_commute[of "paths ! i"])
qed

definition plain_component :: "string \<Rightarrow> bool" where
  "plain_component w \<longleftrightarrow> w \<noteq> [] \<and> CHR ''.'' \<notin> set w \<and> \<not> starts_with ellipsis w"

lemma scope_suffix_inj:
  assumes "p @ join ''.'' xs @ ''.'' @ n = q @ join ''.'' ys @ ''.'' @ n" "p \<in> {[], ellipsis}" "q \<in> {[], ellipsis}"
    and "xs \<noteq> []" "ys \<noteq> []" "\<forall>w \<in> set xs \<union> set ys. plain_component w"
  shows "p = q \<and> xs = ys"
proof -
  have plain: "\<not> starts_with ellipsis (join ''.'' zs @ ''.'' @ n)" if "zs \<noteq> []" "\<forall>w \<in> set zs. plain_component w" for zs
  proof
    assume "starts_with ellipsis (join ''.'' zs @ ''.'' @ n)"
    then obtain r where r: "join ''.'' zs @ ''.'' @ n = ellipsis @ r" by (auto simp: starts_with_iff)
    obtain w ws where zs: "zs = w # ws" using \<open>zs \<noteq> []\<close> by (cases zs) auto
    obtain r' where r': "join ''.'' zs @ ''.'' @ n = w @ CHR ''.'' # r'"
      using zs by (cases ws) auto
    have "CHR ''.'' \<notin> set ellipsis" by (simp add: ellipsis_def)
    moreover from r r' have "w @ CHR ''.'' # r' = ellipsis @ r" by simp
    moreover have "w @ CHR ''.'' # u = ellipsis \<Longrightarrow> CHR ''.'' \<in> set ellipsis" for u
      by (metis in_set_conv_decomp)
    ultimately have "starts_with ellipsis w"
      by (auto simp: append_eq_append_conv2 starts_with_iff Cons_eq_append_conv)
    with that zs show False by (simp add: plain_component_def)
  qed
  have eq: "p @ join ''.'' xs = q @ join ''.'' ys" using assms(1) by (metis append_assoc same_append_eq append_same_eq)
  have "p = q"
  proof (rule ccontr)
    assume "p \<noteq> q"
    with assms(2,3) consider "p = ellipsis" "q = []" | "p = []" "q = ellipsis" by auto
    then show False
    proof cases
      case 1
      with assms(1) have "join ''.'' ys @ ''.'' @ n = ellipsis @ join ''.'' xs @ ''.'' @ n" by simp
      then have "starts_with ellipsis (join ''.'' ys @ ''.'' @ n)" unfolding starts_with_iff by blast
      with plain[of ys] assms show False by auto
    next
      case 2
      with assms(1) have "join ''.'' xs @ ''.'' @ n = ellipsis @ join ''.'' ys @ ''.'' @ n" by simp
      then have "starts_with ellipsis (join ''.'' xs @ ''.'' @ n)" unfolding starts_with_iff by blast
      with plain[of xs] assms show False by auto
    qed
  qed
  moreover from this eq have "join ''.'' xs = join ''.'' ys" by simp
  then have "xs = ys" using assms(4-6) by (intro join_inj) (auto simp: plain_component_def)
  ultimately show ?thesis by simp
qed

lemma join_nonempty: "xs \<noteq> [] \<Longrightarrow> \<forall>w \<in> set xs. w \<noteq> [] \<Longrightarrow> join sep xs \<noteq> []"
  by (cases xs; cases "tl xs") (auto simp: join_Cons)

lemma minimal_name_cases:
  assumes "\<forall>w \<in> set path. plain_component w" "0 < need"
  shows "minimal_name path need n = (if path = [] then n
    else (if need < length path then ellipsis else []) @ join ''.'' (rev (take need path)) @ ''.'' @ n)"
proof (cases "path = []")
  case False
  have "take (min need (length path)) path = take need path" by (cases "need \<le> length path") auto
  moreover have "join ''.'' (rev (take need path)) \<noteq> []"
    using assms False by (intro join_nonempty) (auto simp: plain_component_def dest: in_set_takeD)
  ultimately show ?thesis using False assms(2) by (auto simp: minimal_name_def Let_def)
qed (simp add: minimal_name_def)

lemma minimal_names_differ:
  assumes "sorted paths" "i < length paths" "j < length paths" "i \<noteq> j" "paths ! i \<noteq> paths ! j"
    and "\<forall>p \<in> set paths. \<forall>w \<in> set p. plain_component w"
  shows "minimal_name (paths ! i) (name_need paths i) n \<noteq> minimal_name (paths ! j) (name_need paths j) n"
proof
  let ?a = "paths ! i" and ?b = "paths ! j" and ?m = "name_need paths i" and ?k = "name_need paths j"
  assume eq: "minimal_name ?a ?m n = minimal_name ?b ?k n"
  have need: "common_prefix_len ?a ?b < ?m" "common_prefix_len ?a ?b < ?k"
    using name_need_exceeds[of paths i j] name_need_exceeds[of paths j i] assms common_prefix_len_commute by metis+
  have plain: "\<forall>w \<in> set ?a. plain_component w" "\<forall>w \<in> set ?b. plain_component w" using assms by auto
  note eq = eq[unfolded minimal_name_cases[OF plain(1) le_less_trans[OF le0 need(1)]]
      minimal_name_cases[OF plain(2) le_less_trans[OF le0 need(2)]]]
  have ne: "?a \<noteq> []" "?b \<noteq> []" using eq assms(5) by (auto split: if_splits)
  have "(if ?m < length ?a then ellipsis else []) = (if ?k < length ?b then ellipsis else [])
      \<and> rev (take ?m ?a) = rev (take ?k ?b)"
    by (rule scope_suffix_inj[of _ _ n])
      (use eq ne need plain in \<open>auto dest: in_set_takeD\<close>)
  then have flag: "?m < length ?a \<longleftrightarrow> ?k < length ?b" and tk: "take ?m ?a = take ?k ?b"
    by (auto simp: ellipsis_def split: if_splits)
  show False
  proof (cases "?m < length ?a")
    case True
    with flag tk have "?m = ?k" by (metis length_take min.strict_order_iff min.commute less_imp_le min_absorb2)
    with True flag tk common_prefix_take[of ?m ?a ?b] need show False by simp
  next
    case False
    with flag tk assms(5) show False by simp
  qed
qed

lemma map_fst_name_entries: "sorted (map fst (name_entries vars))"
  by (simp add: name_entries_def)

lemma set_name_entries: "set (name_entries vars) = (\<lambda>v. (rev (sc_strs (vr_path v)), v)) ` set vars"
  by (simp add: name_entries_def)

lemma group_display_names_keys:
  "mset (map fst (group_display_names vars)) = image_mset full_path_string (mset vars)"
proof (cases "length vars = 1")
  case True
  then show ?thesis by (cases vars) (auto simp: group_display_names_def)
next
  case False
  let ?es = "name_entries vars"
  from False have "map fst (group_display_names vars) = map (\<lambda>i. full_path_string (snd (?es ! i))) [0..<length ?es]"
    by (simp add: group_display_names_def Let_def)
  also have "\<dots> = map (\<lambda>e. full_path_string (snd e)) ?es" by (rule nth_equalityI) auto
  finally have "map fst (group_display_names vars) = map (\<lambda>e. full_path_string (snd e)) ?es" .
  then show ?thesis by (simp add: name_entries_def multiset.map_comp comp_def)
qed

lemma group_display_name:
  assumes "v \<in> set vars" "w \<in> set vars" "sc_strs (vr_path v) \<noteq> sc_strs (vr_path w)"
    and "vr_name v = n" "vr_name w = n" "\<forall>v \<in> set vars. \<forall>c \<in> set (sc_strs (vr_path v)). plain_component c"
  shows "\<exists>d e. (full_path_string v, d) \<in> set (group_display_names vars) \<and>
    (full_path_string w, e) \<in> set (group_display_names vars) \<and> d \<noteq> e"
proof -
  let ?es = "name_entries vars" and ?paths = "map fst (name_entries vars)"
  have in_es: "\<exists>i < length ?es. ?es ! i = (rev (sc_strs (vr_path u)), u)" if "u \<in> set vars" for u
  proof -
    from that have "(rev (sc_strs (vr_path u)), u) \<in> set ?es" by (auto simp: set_name_entries)
    then show ?thesis by (simp add: in_set_conv_nth)
  qed
  obtain i where i: "i < length ?es" "?es ! i = (rev (sc_strs (vr_path v)), v)" using in_es[OF assms(1)] by blast
  obtain j where j: "j < length ?es" "?es ! j = (rev (sc_strs (vr_path w)), w)" using in_es[OF assms(2)] by blast
  have "v \<noteq> w" using assms(3) by auto
  then have "length vars \<noteq> 1" using assms(1,2) by (cases vars) auto
  then have "(full_path_string (snd (?es ! k)), minimal_name (?paths ! k) (name_need ?paths k) (vr_name (snd (?es ! k))))
      \<in> set (group_display_names vars)" if "k < length ?es" for k
    using that by (auto simp: group_display_names_def Let_def)
  from this[OF i(1)] this[OF j(1)] i j assms(4,5)
  have "(full_path_string v, minimal_name (?paths ! i) (name_need ?paths i) n) \<in> set (group_display_names vars)"
    "(full_path_string w, minimal_name (?paths ! j) (name_need ?paths j) n) \<in> set (group_display_names vars)"
    by auto
  moreover have "minimal_name (?paths ! i) (name_need ?paths i) n \<noteq> minimal_name (?paths ! j) (name_need ?paths j) n"
  proof (rule minimal_names_differ)
    show "?paths ! i \<noteq> ?paths ! j" using i j assms(3) by simp
    then show "i \<noteq> j" by auto
    show "\<forall>p \<in> set ?paths. \<forall>w \<in> set p. plain_component w" using assms(6) by (auto simp: set_name_entries)
  qed (use i j map_fst_name_entries in auto)
  ultimately show ?thesis by blast
qed

text \<open>Whatever scope is put in front, a name without a dot is read off a display name behind the last dot.\<close>

definition after_last_dot :: "string \<Rightarrow> string" where
  "after_last_dot d = rev (takeWhile (\<lambda>c. c \<noteq> CHR ''.'') (rev d))"

lemma after_last_dot_append: "CHR ''.'' \<notin> set n \<Longrightarrow> after_last_dot (pre @ CHR ''.'' # n) = n"
proof -
  assume "CHR ''.'' \<notin> set n"
  then have "takeWhile (\<lambda>c. c \<noteq> CHR ''.'') (rev n @ CHR ''.'' # rev pre) = rev n"
    by (subst takeWhile_append2) auto
  then show "after_last_dot (pre @ CHR ''.'' # n) = n" by (simp add: after_last_dot_def)
qed

lemma after_last_dot_name: "CHR ''.'' \<notin> set n \<Longrightarrow> after_last_dot n = n"
proof -
  assume "CHR ''.'' \<notin> set n"
  then have "takeWhile (\<lambda>c. c \<noteq> CHR ''.'') (rev n) = rev n" by (subst takeWhile_eq_all_conv) auto
  then show "after_last_dot n = n" by (simp only: after_last_dot_def rev_rev_ident)
qed

lemma minimal_name_after_dot: "CHR ''.'' \<notin> set n \<Longrightarrow> after_last_dot (minimal_name p k n) = n"
  using after_last_dot_append[of n "_ @ _"] after_last_dot_append[of n]
  by (simp add: minimal_name_def Let_def after_last_dot_name)

lemma group_member_name:
  assumes "v \<in> set vars" "\<forall>u \<in> set vars. vr_name u = n" "CHR ''.'' \<notin> set n"
  shows "\<exists>d. (full_path_string v, d) \<in> set (group_display_names vars) \<and> after_last_dot d = n"
proof -
  from assms(1) have "full_path_string v \<in># mset (map fst (group_display_names vars))"
    unfolding group_display_names_keys by simp
  then obtain d where d: "(full_path_string v, d) \<in> set (group_display_names vars)" by auto
  moreover have "after_last_dot d = n"
  proof (cases "length vars = 1")
    case True
    with d assms show ?thesis by (cases vars) (auto simp: group_display_names_def after_last_dot_name)
  next
    case False
    have named: "vr_name (snd (name_entries vars ! i)) = n" if "i < length (name_entries vars)" for i
      using nth_mem[OF that] assms(2) by (auto simp: set_name_entries)
    from d False obtain i where "i < length (name_entries vars)"
      "d = minimal_name (map fst (name_entries vars) ! i) (name_need (map fst (name_entries vars)) i) (vr_name (snd (name_entries vars ! i)))"
      by (auto simp: group_display_names_def Let_def)
    with named assms(3) show ?thesis by (simp add: minimal_name_after_dot)
  qed
  ultimately show ?thesis by blast
qed

lemma foldl_updates:
  "distinct (map fst kvs) \<Longrightarrow> foldl (\<lambda>m (k, d). m(k \<mapsto> d)) m kvs = m ++ map_of kvs"
proof (induction kvs arbitrary: m)
  case (Cons kv kvs)
  obtain k d where kv: "kv = (k, d)" by (cases kv)
  with Cons.prems have "map_of kvs k = None" by (auto simp: map_of_eq_None_iff)
  then have upd: "m(k \<mapsto> d) ++ map_of kvs = m ++ map_of ((k, d) # kvs)"
    by (intro ext) (auto simp: map_add_def split: option.split)
  have "foldl (\<lambda>m (k, d). m(k \<mapsto> d)) (m(k \<mapsto> d)) kvs = m(k \<mapsto> d) ++ map_of kvs"
    using Cons.prems by (intro Cons.IH) simp
  then show ?case unfolding kv upd foldl_Cons prod.case .
qed simp

lemma display_map_keys:
  assumes "inj_on full_path_string (set vars)" "distinct vars" "distinct locals"
  shows "distinct (map fst (concat (map (\<lambda>l. group_display_names (filter (\<lambda>v. vr_name v = l) vars)) locals)))"
proof -
  let ?g = "\<lambda>l. group_display_names (filter (\<lambda>v. vr_name v = l) vars)"
  have keys: "set (map fst (?g l)) = full_path_string ` {v \<in> set vars. vr_name v = l}" for l
    using arg_cong[OF group_display_names_keys[of "filter (\<lambda>v. vr_name v = l) vars"], of set_mset] by simp
  have dist: "distinct (map fst (?g l))" for l
  proof -
    have "distinct (map full_path_string (filter (\<lambda>v. vr_name v = l) vars))"
      using assms(1,2) by (auto simp: distinct_map intro: inj_on_subset)
    moreover have "mset (map fst (?g l)) = mset (map full_path_string (filter (\<lambda>v. vr_name v = l) vars))"
      using group_display_names_keys[of "filter (\<lambda>v. vr_name v = l) vars"] by simp
    ultimately show ?thesis by (metis mset_eq_imp_distinct_iff)
  qed
  have disj: "set (map fst (?g l)) \<inter> set (map fst (?g k)) = {}" if "l \<noteq> k" for l k
    using that assms(1) unfolding keys by (auto dest: inj_onD)
  show ?thesis
    using assms(3)
  proof (induction locals)
    case (Cons l ls)
    have "set (map fst (?g l)) \<inter> set (map fst (concat (map ?g ls))) = {}"
    proof (rule equals0I)
      fix x assume "x \<in> set (map fst (?g l)) \<inter> set (map fst (concat (map ?g ls)))"
      then obtain k where "k \<in> set ls" "x \<in> set (map fst (?g k))" "x \<in> set (map fst (?g l))" by auto
      with disj[of l k] Cons.prems show False by auto
    qed
    with Cons dist[of l] show ?case by (simp only: list.map concat.simps map_append distinct_append distinct.simps)
  qed simp
qed

subsection \<open>Properties\<close>

text \<open>
  C17. A reference written as a path and read back is the same reference with the same index: the dots
  separate the scopes again and the index in brackets is split off the name, for every index of 64 bits.
\<close>

theorem variable_ref_roundtrip:
  assumes "readable v"
  shows "var_eq (var_from_hierarchy_string (full_path_string v)) v \<and>
    vr_index (var_from_hierarchy_string (full_path_string v)) = vr_index v"
  using assms extract_index_suffix[of "vr_name v"]
  by (auto simp: var_from_hierarchy_string_def split_full_path_string[OF assms] readable_def var_eq_def scope_eq_def
      scope_from_strs_def scope_from_strs_with_id_def split: option.splits)

definition sample_ref :: "(unit, unit) variable_ref" where
  "sample_ref = \<lparr>vr_path = \<lparr>sc_strs = [''tb'', ''dut''], sc_id = None\<rparr>, vr_name = ''mem'', vr_id = None, vr_index = Some (- 12)\<rparr>"

lemma variable_ref_roundtrip_witness:
  "full_path_string sample_ref = ''tb.dut.mem[-12]'' \<and>
   var_eq (var_from_hierarchy_string ''tb.dut.mem[-12]'') sample_ref \<and>
   vr_index (var_from_hierarchy_string ''tb.dut.mem[-12]'') = Some (- 12)"
proof -
  have "readable sample_ref" by (simp add: readable_def sample_ref_def full_path_def)
  moreover have "full_path_string sample_ref = ''tb.dut.mem[-12]''" by code_simp
  moreover have "vr_index sample_ref = Some (- 12)" by code_simp
  ultimately show ?thesis using variable_ref_roundtrip[of sample_ref] by simp
qed


definition scoped :: "string list \<Rightarrow> string \<Rightarrow> (unit, unit) variable_ref" where
  "scoped path name = \<lparr>vr_path = \<lparr>sc_strs = path, sc_id = None\<rparr>, vr_name = name, vr_id = None, vr_index = None\<rparr>"


end
