(* ===== verification/Translation_Types.thy ===== *)
theory Translation_Types
  imports Variable_Refs
begin

section \<open>The types translators share\<close>

text \<open>
  The crate \<^verbatim>\<open>surfer-translation-types\<close>: variable values, value kinds, translation results, the
  metadata of variables, the default methods of the translator traits and the helpers that classify,
  extend and parse values. \<^verbatim>\<open>BigUint\<close> is \<open>nat\<close>. What the crate calls from other packages is a
  parameter: \<open>pb\<close> is \<^verbatim>\<open>BigUint::parse_bytes\<close>, and the operations on \<^verbatim>\<open>f64\<close> are arguments of the
  definitions that use them.
\<close>

type_synonym color32 = "8 word \<times> 8 word \<times> 8 word \<times> 8 word"

datatype variable_value = BigUint nat | String string

datatype value_kind = Normal | Undef | HighImp | Custom color32 | Warn | DontCare | Weak | KindError | Event

datatype translation_preference = Prefer | Yes | No

datatype variable_info = InfoCompound "(string \<times> variable_info) list" | InfoBits | InfoBool | InfoClock
  | InfoString | InfoReal | InfoEvent

datatype variable_type = VCDEvent | VCDReg | VCDWire | VCDReal | VCDTime | VCDString | VCDParameter
  | VCDInteger | RealTime | VCDSupply0 | VCDSupply1 | VCDTri | VCDTriAnd | VCDTriOr | VCDTriReg | VCDTri0
  | VCDTri1 | VCDWAnd | VCDWOr | Port | SparseArray | TypeBit | Logic | TypeInt | ShortInt | LongInt | Byte
  | TypeEnum | ShortReal | RealParameter | Boolean | BitVectorType | StdLogic | StdLogicVector | StdULogic
  | StdULogicVector | EventParameter

datatype variable_direction = DirInput | DirOutput | DirInOut | DirBuffer | DirLinkage | DirImplicit | DirUnknown

datatype variable_encoding = EncString | EncReal | EncBitVector

record ('v, 's) variable_meta =
  vm_var :: "('v, 's) variable_ref"
  vm_num_bits :: "nat option"
  vm_variable_type :: "variable_type option"
  vm_variable_type_name :: "string option"
  vm_index :: "variable_index option"
  vm_direction :: "variable_direction option"
  vm_enum_map :: "(string \<times> string) list"
  vm_encoding :: variable_encoding

definition is_parameter :: "('v, 's) variable_meta \<Rightarrow> bool" where
  "is_parameter m \<longleftrightarrow> vm_variable_type m = Some VCDParameter \<or> vm_variable_type m = Some RealParameter"

definition is_event :: "('v, 's) variable_meta \<Rightarrow> bool" where
  "is_event m \<longleftrightarrow> vm_variable_type m = Some VCDEvent \<or> vm_variable_type m = Some EventParameter"

definition is_real :: "('v, 's) variable_meta \<Rightarrow> bool" where
  "is_real m \<longleftrightarrow> vm_encoding m = EncReal"

definition is_integer_type :: "('v, 's) variable_meta \<Rightarrow> bool" where
  "is_integer_type m \<longleftrightarrow> (case vm_variable_type m of
     Some t \<Rightarrow> t = VCDInteger \<or> t = TypeInt \<or> t = ShortInt \<or> t = LongInt | None \<Rightarrow> False)"

datatype value_repr = ReprBit char | ReprBits nat string | ReprString string | ReprTuple | ReprStruct
  | ReprEnum nat string | ReprArray | NotPresent | ReprEvent

datatype translation_result =
  TranslationResult (tr_val: value_repr) (tr_subfields: "(string \<times> translation_result) list") (tr_kind: value_kind)

definition single_string :: "string \<Rightarrow> value_kind \<Rightarrow> translation_result" where
  "single_string s kind = TranslationResult (ReprString s) [] kind"

record translated_value =
  tv_value :: string
  tv_kind :: value_kind

definition from_basic_translate :: "string \<times> value_kind \<Rightarrow> translated_value" where
  "from_basic_translate result = \<lparr>tv_value = fst result, tv_kind = snd result\<rparr>"

datatype hier_format_result = HierFormatResult (hf_names: "string list") (hf_this: "translated_value option")
  (hf_fields: "hier_format_result list")

text \<open>\<open>collect_into\<close> flattens the tree in pre-order.\<close>

fun collect_into :: "hier_format_result \<Rightarrow> (string list \<times> translated_value option) list
    \<Rightarrow> (string list \<times> translated_value option) list" where
  "collect_into (HierFormatResult names this fs) acc =
     fold collect_into fs (acc @ [(names, this)])"

subsection \<open>Classification and extension\<close>

definition check_vector_variable :: "string \<Rightarrow> (string \<times> value_kind) option" where
  "check_vector_variable s =
     (if contains_char (CHR ''x'') s then Some (''UNDEF'', Undef)
      else if contains_char (CHR ''z'') s then Some (''HIGHIMP'', HighImp)
      else if contains_char (CHR ''-'') s then Some (''DON'' @ [CHR 0x27] @ ''T CARE'', DontCare)
      else if contains_char (CHR ''u'') s then Some (''UNDEF'', Undef)
      else if contains_char (CHR ''w'') s then Some (''UNDEF WEAK'', Undef)
      else if contains_char (CHR ''h'') s \<or> contains_char (CHR ''l'') s then Some (''WEAK'', Weak)
      else if list_all (\<lambda>c. c = CHR ''0'' \<or> c = CHR ''1'') s then None
      else Some (''UNKNOWN VALUES'', Undef))"

definition kind_for_binary_representation :: "string \<Rightarrow> value_kind" where
  "kind_for_binary_representation s =
     (if contains_char (CHR ''x'') s then Undef
      else if contains_char (CHR ''z'') s then HighImp
      else if contains_char (CHR ''-'') s then DontCare
      else if contains_char (CHR ''u'') s \<or> contains_char (CHR ''w'') s then Undef
      else if contains_char (CHR ''h'') s \<or> contains_char (CHR ''l'') s then Weak
      else Normal)"

text \<open>The character a value is extended with; \<open>None\<close> for no extension.\<close>

definition extension_char :: "string \<Rightarrow> char option" where
  "extension_char val = (case val of
     [] \<Rightarrow> None
   | c # _ \<Rightarrow> if c = CHR ''0'' \<or> c = CHR ''1'' then Some (CHR ''0'')
       else if c \<in> {CHR ''x'', CHR ''z'', CHR ''u'', CHR ''w'', CHR ''l'', CHR ''h'', CHR ''-''} then Some c
       else None)"

definition extend_string :: "string \<Rightarrow> nat \<Rightarrow> string" where
  "extend_string val num_bits =
     (if length val < num_bits then
        (case extension_char val of
           Some c \<Rightarrow> replicate (num_bits - length val) c
         | None \<Rightarrow> [])
      else [])"

definition handle_bits :: "(string \<Rightarrow> ('e, translation_result) outcome) \<Rightarrow> variable_value
    \<Rightarrow> ('e, translation_result) outcome" where
  "handle_bits handler v = (case v of
     BigUint n \<Rightarrow> handler (show_radix 2 n)
   | String s \<Rightarrow> (case check_vector_variable s of
       Some (val, kind) \<Rightarrow> Ok (TranslationResult (ReprString val) [] kind)
     | None \<Rightarrow> handler s))"

subsection \<open>Parsing values\<close>

type_synonym big_parser = "string \<Rightarrow> nat \<Rightarrow> nat option"

definition map_vector_variable :: "big_parser \<Rightarrow> string \<Rightarrow> (string \<times> value_kind, nat) outcome" where
  "map_vector_variable pb s = (case pb s 2 of
     Some val \<Rightarrow> Ok val
   | None \<Rightarrow>
      if contains_char (CHR ''x'') s then Err (''UNDEF'', Undef)
      else if contains_char (CHR ''z'') s then Err (''HIGHIMP'', HighImp)
      else if contains_char (CHR ''-'') s then Err (''DON'' @ [CHR 0x27] @ ''T CARE'', DontCare)
      else if contains_char (CHR ''u'') s then Err (''UNDEF'', Undef)
      else if contains_char (CHR ''w'') s then Err (''UNDEF WEAK'', Undef)
      else if contains_char (CHR ''h'') s \<or> contains_char (CHR ''l'') s then Err (''WEAK'', Weak)
      else Err (''UNKNOWN VALUES'', Undef))"

definition parse_biguint :: "big_parser \<Rightarrow> variable_value \<Rightarrow> (string \<times> value_kind, nat) outcome" where
  "parse_biguint pb v = (case v of BigUint n \<Rightarrow> Ok n | String s \<Rightarrow> map_vector_variable pb s)"

text \<open>Numbers for analog rendering: a number of the code's \<^verbatim>\<open>f64\<close>, or one of its two NaN marks.\<close>

datatype 'f numeric = Num 'f | NanUndef | NanHighImp

definition parse_value_to_numeric :: "big_parser \<Rightarrow> variable_value \<Rightarrow> (nat \<Rightarrow> 'f) \<Rightarrow> 'f numeric" where
  "parse_value_to_numeric pb v to_f64 = (case parse_biguint pb v of
     Ok n \<Rightarrow> Num (to_f64 n)
   | Err (_, k) \<Rightarrow> if k = HighImp then NanHighImp else NanUndef
   | Panic \<Rightarrow> NanUndef)"

definition strip_either :: "string \<Rightarrow> string \<Rightarrow> string \<Rightarrow> string" where
  "strip_either p q s = (case strip_prefix p s of Some r \<Rightarrow> r | None \<Rightarrow>
     (case strip_prefix q s of Some r \<Rightarrow> r | None \<Rightarrow> s))"

definition parse_numeric_string :: "big_parser \<Rightarrow> (nat \<Rightarrow> 'f) \<Rightarrow> (string \<Rightarrow> 'f option) \<Rightarrow> string \<Rightarrow> string \<Rightarrow> 'f option" where
  "parse_numeric_string pb to_f64 parse_f64 s translator_name =
     (let s = trim s; translator_lower = to_ascii_lowercase translator_name in
      if contains_str ''hex'' translator_lower then map_option to_f64 (pb (strip_either ''0x'' ''0X'' s) 16)
      else if contains_str ''bin'' translator_lower then map_option to_f64 (pb (strip_either ''0b'' ''0B'' s) 2)
      else (case parse_f64 s of Some v \<Rightarrow> Some v | None \<Rightarrow> map_option to_f64 (pb s 16)))"

text \<open>The default \<open>basic_translate_numeric\<close> and \<open>translate_numeric\<close> of the two traits.\<close>

definition basic_translate_numeric :: "big_parser \<Rightarrow> (nat \<Rightarrow> 'f) \<Rightarrow> (string \<Rightarrow> 'f option) \<Rightarrow> string
    \<Rightarrow> string \<times> value_kind \<Rightarrow> 'f numeric option" where
  "basic_translate_numeric pb to_f64 parse_f64 name result = (case result of (val, kind) \<Rightarrow>
     if kind = HighImp then Some NanHighImp
     else if kind = Undef then Some NanUndef
     else map_option Num (parse_numeric_string pb to_f64 parse_f64 val name))"

definition translate_numeric :: "big_parser \<Rightarrow> (nat \<Rightarrow> 'f) \<Rightarrow> (string \<Rightarrow> 'f option) \<Rightarrow> string
    \<Rightarrow> ('e, translation_result) outcome \<Rightarrow> 'f numeric option" where
  "translate_numeric pb to_f64 parse_f64 name result = (case result of
     Ok translation \<Rightarrow>
       if tr_kind translation = HighImp then Some NanHighImp
       else if tr_kind translation = Undef then Some NanUndef
       else (case tr_val translation of
           ReprBit c \<Rightarrow> map_option Num (parse_numeric_string pb to_f64 parse_f64 [c] name)
         | ReprBits _ s \<Rightarrow> map_option Num (parse_numeric_string pb to_f64 parse_f64 s name)
         | ReprString s \<Rightarrow> map_option Num (parse_numeric_string pb to_f64 parse_f64 s name)
         | _ \<Rightarrow> None)
   | _ \<Rightarrow> None)"

definition translates_all_bit_types :: "('v, 's) variable_meta \<Rightarrow> translation_preference" where
  "translates_all_bit_types m = (if vm_encoding m = EncBitVector then Yes else No)"

subsection \<open>Bit strings\<close>

text \<open>
  What the program relies on of \<^verbatim>\<open>BigUint::parse_bytes\<close>: a nonempty string of digits of the radix
  is read as its value, and a string with a character that is no digit, sign or underscore is refused.
\<close>

definition reads_digits :: "big_parser \<Rightarrow> bool" where
  "reads_digits pb \<longleftrightarrow>
     (\<forall>r s ds. 2 \<le> r \<longrightarrow> r \<le> 36 \<longrightarrow> s \<noteq> [] \<longrightarrow> digit_vals r s = Some ds \<longrightarrow> pb s r = Some (value_of r ds)) \<and>
     (\<forall>r s c. c \<in> set s \<longrightarrow> c \<noteq> CHR ''+'' \<longrightarrow> c \<noteq> CHR ''_'' \<longrightarrow> (\<forall>d. digit_val c = Some d \<longrightarrow> r \<le> d) \<longrightarrow> pb s r = None)"

lemma reads_digits_value: "reads_digits pb \<Longrightarrow> 2 \<le> r \<Longrightarrow> r \<le> 36 \<Longrightarrow> s \<noteq> [] \<Longrightarrow> digit_vals r s = Some ds \<Longrightarrow>
    pb s r = Some (value_of r ds)"
  by (simp add: reads_digits_def)

lemma reads_digits_show: "reads_digits pb \<Longrightarrow> 2 \<le> r \<Longrightarrow> r \<le> 36 \<Longrightarrow> pb (zero_pad w (show_radix r n)) r = Some n"
proof -
  assume pb: "reads_digits pb" and r: "2 \<le> r" "r \<le> 36"
  obtain ds where "digit_vals r (zero_pad w (show_radix r n)) = Some ds" "value_of r ds = n"
    using parse_show_radix[OF r, of w n] by (auto simp: parse_digits_def split: if_splits)
  with reads_digits_value[OF pb r] show ?thesis by simp
qed

lemma reads_digits_refuses: "reads_digits pb \<Longrightarrow> c \<in> set s \<Longrightarrow> c \<noteq> CHR ''+'' \<Longrightarrow> c \<noteq> CHR ''_'' \<Longrightarrow>
    (\<And>d. digit_val c = Some d \<Longrightarrow> r \<le> d) \<Longrightarrow> pb s r = None"
  unfolding reads_digits_def by blast

lemma digit_vals_none: "c \<in> set s \<Longrightarrow> (\<And>d. digit_val c = Some d \<Longrightarrow> r \<le> d) \<Longrightarrow> digit_vals r s = None"
proof (induction s)
  case (Cons a s)
  then show ?case by (cases "a = c") (auto split: option.split)
qed simp

text \<open>\<open>parse_digits\<close> is such a parser.\<close>

definition plain_parser :: big_parser where
  "plain_parser s r = parse_digits r s"

lemma plain_parser_reads: "reads_digits plain_parser"
  unfolding reads_digits_def plain_parser_def parse_digits_def
  using digit_vals_none by (auto simp: digit_vals_none)

definition is_bits :: "string \<Rightarrow> bool" where
  "is_bits s \<longleftrightarrow> list_all (\<lambda>c. c = CHR ''0'' \<or> c = CHR ''1'') s"

definition bits_of :: "string \<Rightarrow> nat list" where
  "bits_of s = map (\<lambda>c. of_bool (c = CHR ''1'')) s"

lemma is_bits_simps [simp]: "is_bits []" "is_bits (c # s) \<longleftrightarrow> (c = CHR ''0'' \<or> c = CHR ''1'') \<and> is_bits s"
  by (simp_all add: is_bits_def)

lemma is_bits_append [simp]: "is_bits (s @ t) \<longleftrightarrow> is_bits s \<and> is_bits t"
  by (simp add: is_bits_def)

lemma digit_vals_bits: "is_bits s \<Longrightarrow> digit_vals 2 s = Some (bits_of s)"
  by (induction s) (auto simp: bits_of_def digit_val_def)

lemma check_vector_none: "check_vector_variable s = None \<longleftrightarrow> is_bits s"
proof -
  have "is_bits s \<Longrightarrow> c \<in> set s \<Longrightarrow> c = CHR ''0'' \<or> c = CHR ''1''" for c by (auto simp: is_bits_def list_all_iff)
  then show ?thesis
    by (auto simp: check_vector_variable_def contains_char_def is_bits_def[symmetric])
qed

lemma is_bits_digits: "\<forall>d \<in> set ds. d < 2 \<Longrightarrow> is_bits (map digit_char ds)"
  by (induction ds) (auto simp: less_2_cases_iff)

lemma show_binary_bits: "is_bits (show_radix 2 n)"
  unfolding show_radix_def using digits_of_less[of 2 _ n] by (intro is_bits_digits) auto

definition bits_val :: "string \<Rightarrow> nat" where
  "bits_val s = value_of 2 (bits_of s)"

lemma bits_val_show: "bits_val (zero_pad w (show_radix 2 n)) = n"
proof -
  have b: "is_bits (zero_pad w (show_radix 2 n))"
    using show_binary_bits[of n] unfolding zero_pad_def is_bits_append by (simp add: is_bits_def list_all_iff)
  have "parse_digits 2 (zero_pad w (show_radix 2 n)) = Some n" by (rule parse_show_radix) simp_all
  then show ?thesis by (simp add: parse_digits_def digit_vals_bits[OF b] bits_val_def split: if_splits)
qed

lemma bits_val_less: "bits_val s < 2 ^ length s"
  using value_of_bound[of "bits_of s" 2] by (auto simp: bits_val_def bits_of_def)

lemma bits_val_Cons: "bits_val (c # s) = of_bool (c = CHR ''1'') * 2 ^ length s + bits_val s"
  by (simp add: bits_val_def bits_of_def value_of_Cons)

lemma bits_val_append: "bits_val (s @ t) = bits_val s * 2 ^ length t + bits_val t"
  by (simp add: bits_val_def bits_of_def value_of_append)

lemma bits_val_zeros [simp]: "bits_val (replicate k (CHR ''0'') @ s) = bits_val s"
  by (induction k) (simp_all add: bits_val_Cons)

lemma map_vector_bits: "reads_digits pb \<Longrightarrow> is_bits s \<Longrightarrow> s \<noteq> [] \<Longrightarrow> map_vector_variable pb s = Ok (bits_val s)"
  by (simp add: map_vector_variable_def reads_digits_value[OF _ _ _ _ digit_vals_bits] bits_val_def)

text \<open>The two classifications agree on what is not a bit string.\<close>

lemma map_vector_other:
  assumes "reads_digits pb" "check_vector_variable s = Some (t, k)" "CHR ''+'' \<notin> set s" "CHR ''_'' \<notin> set s"
  shows "map_vector_variable pb s = Err (t, k)"
proof -
  have "\<not> is_bits s" using assms(2) check_vector_none[of s] by auto
  then obtain c where c: "c \<in> set s" "c \<noteq> CHR ''0''" "c \<noteq> CHR ''1''" by (auto simp: is_bits_def list_all_iff)
  have "2 \<le> d" if "digit_val c = Some d" for d
  proof -
    have "char_of (48 :: nat) = CHR ''0''" "char_of (49 :: nat) = CHR ''1''" by (simp_all add: char_of_eq_iff)
    with c have "(of_char c :: nat) \<noteq> 48" "(of_char c :: nat) \<noteq> 49" by (metis char_of_char)+
    with that show ?thesis by (auto simp: digit_val_def Let_def split: if_splits)
  qed
  with assms c have "pb s 2 = None" by (intro reads_digits_refuses) auto
  with assms(2) show ?thesis
    by (auto simp: map_vector_variable_def check_vector_variable_def split: if_splits)
qed

lemma extend_string_length: "length val \<le> n \<Longrightarrow> extension_char val \<noteq> None \<Longrightarrow> length (extend_string val n @ val) = n"
  by (auto simp: extend_string_def)

lemma extend_bits: "is_bits s \<Longrightarrow> s \<noteq> [] \<Longrightarrow> extend_string s n = replicate (n - length s) (CHR ''0'')"
  by (cases s) (auto simp: extend_string_def extension_char_def)

lemma extend_bits_val: "is_bits s \<Longrightarrow> s \<noteq> [] \<Longrightarrow> bits_val (extend_string s n @ s) = bits_val s"
  by (simp add: extend_bits)

end
