(* ===== verification/Decoders.thy ===== *)
theory Decoders
  imports Decoder_Uart Decoder_I2c Decoder_Spi Translation_Types
begin

section \<open>Protocols, role bindings and decoder rows\<close>

text \<open>
  The rest of \<^verbatim>\<open>libsurfer/src/decoders/mod.rs\<close> (protocols, roles and their binding, the cache key,
  the dispatch on the protocol) and the drawing of a decoder's row in
  \<^verbatim>\<open>libsurfer/src/drawing_canvas.rs\<close> (\<^verbatim>\<open>bit_lane_for\<close>, \<^verbatim>\<open>lane_draw_commands\<close>). The contract every
  decoder keeps is the locale \<open>protocol_decoder\<close>, interpreted on the three decoders.
\<close>

datatype protocol = Spi | I2c | Uart

record role =
  role_name :: string
  role_required :: bool
  role_aliases :: "string list"

definition spi_roles :: "role list" where
  "spi_roles =
     [\<lparr>role_name = ''SCLK'', role_required = True, role_aliases = [''sclk'', ''sck'', ''scl'', ''clk'']\<rparr>,
      \<lparr>role_name = ''MOSI'', role_required = False, role_aliases = [''mosi'', ''copi'', ''sdo'', ''din'', ''tx'']\<rparr>,
      \<lparr>role_name = ''MISO'', role_required = False, role_aliases = [''miso'', ''cipo'', ''sdi'', ''dout'', ''rx'']\<rparr>,
      \<lparr>role_name = ''CS'', role_required = False,
       role_aliases = [''cs_n'', ''csn'', ''ss_n'', ''ssn'', ''nss'', ''cs'', ''ss'']\<rparr>]"

definition i2c_roles :: "role list" where
  "i2c_roles =
     [\<lparr>role_name = ''SCL'', role_required = True, role_aliases = [''scl'', ''i2c_clk'', ''sclk'', ''clk'']\<rparr>,
      \<lparr>role_name = ''SDA'', role_required = True, role_aliases = [''sda'', ''i2c_data'', ''data'']\<rparr>]"

definition uart_roles :: "role list" where
  "uart_roles =
     [\<lparr>role_name = ''Line'', role_required = True,
       role_aliases = [''uart'', ''tx'', ''rx'', ''txd'', ''rxd'', ''serial'', ''sout'', ''sin'']\<rparr>]"

fun roles :: "protocol \<Rightarrow> role list" where
  "roles Spi = spi_roles"
| "roles I2c = i2c_roles"
| "roles Uart = uart_roles"

subsection \<open>Role bindings\<close>

record ('v, 's) role_bindings =
  signals :: "('v, 's) variable_ref option list"

definition by_alias :: "role list \<Rightarrow> (nat \<times> string) list" where
  "by_alias rs = sort_key (\<lambda>(_, a). - int (length a))
     (concat (map (\<lambda>(i, r). map (Pair i) (role_aliases r)) (enumerate 0 rs)))"

text \<open>The first candidate that is free and whose name contains the alias.\<close>

definition claim :: "string \<Rightarrow> bool list \<Rightarrow> ('v, 's) variable_ref list \<Rightarrow> nat option" where
  "claim alias taken candidates =
     List.find (\<lambda>c. \<not> taken ! c \<and> contains_str alias (to_ascii_lowercase (vr_name (candidates ! c))))
       [0..<length candidates]"

fun guess_roles :: "('v, 's) variable_ref list \<Rightarrow> (nat \<times> string) list
    \<Rightarrow> ('v, 's) variable_ref option list \<times> bool list \<Rightarrow> ('v, 's) variable_ref option list \<times> bool list" where
  "guess_roles candidates [] st = st"
| "guess_roles candidates ((role_idx, alias) # as) (sigs, taken) =
     (if sigs ! role_idx \<noteq> None then guess_roles candidates as (sigs, taken)
      else case claim alias taken candidates of
        Some c \<Rightarrow> guess_roles candidates as (sigs[role_idx := Some (candidates ! c)], taken[c := True])
      | None \<Rightarrow> guess_roles candidates as (sigs, taken))"

definition guess :: "protocol \<Rightarrow> ('v, 's) variable_ref list \<Rightarrow> ('v, 's) role_bindings" where
  "guess p candidates = \<lparr>signals = fst (guess_roles candidates (by_alias (roles p))
     (replicate (length (roles p)) None, replicate (length candidates) False))\<rparr>"

definition binding :: "('v, 's) role_bindings \<Rightarrow> nat \<Rightarrow> ('v, 's) variable_ref option" where
  "binding b idx = (case get (signals b) idx of Some s \<Rightarrow> s | None \<Rightarrow> None)"

definition missing :: "('v, 's) role_bindings \<Rightarrow> protocol \<Rightarrow> string list" where
  "missing b p = map (\<lambda>(_, r). role_name r)
     (filter (\<lambda>(i, r). role_required r \<and> binding b i = None) (enumerate 0 (roles p)))"

definition fit_to :: "protocol \<Rightarrow> ('v, 's) role_bindings \<Rightarrow> ('v, 's) role_bindings" where
  "fit_to p b = (let n = length (roles p)
     in b\<lparr>signals := take n (signals b) @ replicate (n - length (signals b)) None\<rparr>)"

subsection \<open>Settings and dispatch\<close>

datatype decoder_settings = SpiSettings spi_settings | I2cSettings i2c_settings | UartSettings uart_settings

fun for_protocol :: "protocol \<Rightarrow> decoder_settings" where
  "for_protocol Spi = SpiSettings spi_default"
| "for_protocol I2c = I2cSettings i2c_default"
| "for_protocol Uart = UartSettings uart_default"

fun protocol_of :: "decoder_settings \<Rightarrow> protocol" where
  "protocol_of (SpiSettings _) = Spi"
| "protocol_of (I2cSettings _) = I2c"
| "protocol_of (UartSettings _) = Uart"

fun decode :: "decoder_settings \<Rightarrow> bit_lane option list \<Rightarrow> decoded_lane list" where
  "decode (SpiSettings s) lanes = spi_decode s lanes"
| "decode (I2cSettings s) lanes = i2c_decode s lanes"
| "decode (UartSettings s) lanes = uart_decode s lanes"

fun lane_names :: "decoder_settings \<Rightarrow> string list" where
  "lane_names (SpiSettings s) = spi_lane_names s"
| "lane_names (I2cSettings s) = i2c_lane_names s"
| "lane_names (UartSettings s) = uart_lane_names s"

record ('v, 's) decode_key =
  dk_generation :: nat
  dk_settings :: decoder_settings
  dk_bindings :: "('v, 's) role_bindings"
  dk_loaded :: "bool list"

text \<open>Equality of keys is derived, so bindings are compared with the references' own equality.\<close>

definition bindings_eq :: "('v, 's) role_bindings \<Rightarrow> ('v, 's) role_bindings \<Rightarrow> bool" where
  "bindings_eq a b \<longleftrightarrow> list_all2 (rel_option var_eq) (signals a) (signals b)"

definition key_eq :: "('v, 's) decode_key \<Rightarrow> ('v, 's) decode_key \<Rightarrow> bool" where
  "key_eq a b \<longleftrightarrow> dk_generation a = dk_generation b \<and> dk_settings a = dk_settings b
     \<and> bindings_eq (dk_bindings a) (dk_bindings b) \<and> dk_loaded a = dk_loaded b"

record ('v, 's) cached_decode =
  cd_key :: "('v, 's) decode_key"
  cd_lanes :: "decoded_lane list"

definition is_valid_for :: "('v, 's) cached_decode \<Rightarrow> ('v, 's) decode_key \<Rightarrow> bool" where
  "is_valid_for c key \<longleftrightarrow> key_eq (cd_key c) key"

subsection \<open>Lanes of variables and rows on the canvas\<close>

definition bit_of_value :: "variable_value \<Rightarrow> bit" where
  "bit_of_value v = (case v of
     BigUint n \<Rightarrow> if n = 0 then Zero else if n = 1 then One else Invalid
   | String s \<Rightarrow> if trim s = ''0'' then Zero else if trim s = ''1'' then One else Invalid)"

definition lane_of_changes :: "(nat \<times> variable_value) list \<Rightarrow> bit_lane" where
  "lane_of_changes cs = \<lparr>changes = map (\<lambda>(time, v). (time, bit_of_value v)) cs\<rparr>"

definition word_region :: "decoded_word \<Rightarrow> translated_value" where
  "word_region w = \<lparr>tv_value = dw_text w, tv_kind = (case dw_kind w of Data \<Rightarrow> Normal | Error \<Rightarrow> Warn)\<rparr>"

text \<open>The walk: \<open>skip_words\<close> moves the word index to the first word that ends after the time.\<close>

function skip_words :: "decoded_word list \<Rightarrow> nat \<Rightarrow> nat \<Rightarrow> nat" where
  "skip_words ws idx time =
     (if idx < length ws \<and> dw_end (ws ! idx) \<le> time then skip_words ws (idx + 1) time else idx)"
  by pat_completeness auto
termination by (relation "measure (\<lambda>(ws, idx, time). length ws - idx)") auto

declare skip_words.simps [simp del]

definition to_u64 :: "nat \<Rightarrow> nat" where
  "to_u64 t = (if t < 2 ^ 64 then t else 2 ^ 64 - 1)"

fun lane_draw :: "decoded_word list \<Rightarrow> ('p \<times> nat) list \<Rightarrow> nat \<Rightarrow> nat option
    \<Rightarrow> ('p \<times> translated_value option) list \<Rightarrow> ('p \<times> translated_value option) list" where
  "lane_draw ws [] word_idx prev_word cmds = cmds"
| "lane_draw ws ((pixel, t) # ts) word_idx prev_word cmds =
     (let time = to_u64 t;
          word_idx = skip_words ws word_idx time;
          value = (case get ws word_idx of
             Some w \<Rightarrow> if dw_start w \<le> time then Some (word_region w) else None | None \<Rightarrow> None);
          here = (if value = None then None else Some word_idx)
      in if here \<noteq> prev_word \<or> cmds = []
         then lane_draw ws ts word_idx here (cmds @ [(pixel, value)])
         else lane_draw ws ts word_idx prev_word cmds)"

definition lane_draw_commands :: "decoded_lane \<Rightarrow> ('p \<times> nat) list \<Rightarrow> ('p \<times> translated_value option) list" where
  "lane_draw_commands lane ts = lane_draw (dl_words lane) ts 0 None []
     @ (if ts = [] then [] else [(fst (last ts), None)])"

subsection \<open>The contract of a decoder\<close>

text \<open>
  What the row of a decoder relies on: one lane for each name laid out in advance, with the words in the
  order of their starts; and, for the decoders of plain words, words that do not overlap.
\<close>

definition lanes_ok :: "bit_lane option list \<Rightarrow> bool" where
  "lanes_ok lanes \<longleftrightarrow> (\<forall>l. Some l \<in> set lanes \<longrightarrow> lane_ok l)"

definition words_disjoint :: "decoded_word list \<Rightarrow> bool" where
  "words_disjoint ws \<longleftrightarrow> sorted_wrt (\<lambda>a b. dw_end a \<le> dw_start b) ws \<and> (\<forall>w \<in> set ws. dw_start w \<le> dw_end w)"

definition row_at :: "decoded_word list \<Rightarrow> nat \<Rightarrow> nat option" where
  "row_at ws t = (let i = partition_point (\<lambda>w. dw_end w \<le> t) ws
     in if i < length ws \<and> dw_start (ws ! i) \<le> t then Some i else None)"

lemma row_at_Some: "row_at ws t = Some i \<Longrightarrow> i < length ws \<and> dw_start (ws ! i) \<le> t \<and> t < dw_end (ws ! i)"
  using partition_point_at[of "\<lambda>w. dw_end w \<le> t" ws] by (auto simp: row_at_def Let_def split: if_splits)

lemma row_at_disjoint:
  assumes "words_disjoint ws" "i < length ws" "dw_start (ws ! i) \<le> t" "t < dw_end (ws ! i)"
  shows "row_at ws t = Some i"
proof -
  let ?P = "\<lambda>w. dw_end w \<le> t"
  have before: "?P (ws ! j)" if "j < i" for j
  proof -
    have "dw_end (ws ! j) \<le> dw_start (ws ! i)"
      using assms(1,2) that by (simp add: words_disjoint_def sorted_wrt_iff_nth_less)
    with assms(3) show ?thesis by simp
  qed
  have "partition_point ?P ws = i"
  proof (rule antisym)
    show "partition_point ?P ws \<le> i"
      using partition_point_before[of i ?P ws] assms(4) by (meson leD leI)
    show "i \<le> partition_point ?P ws"
    proof (rule ccontr)
      assume "\<not> i \<le> partition_point ?P ws"
      then have "partition_point ?P ws < i" by simp
      with before partition_point_at[of ?P ws] assms(2) show False by simp
    qed
  qed
  with assms show ?thesis by (simp add: row_at_def)
qed

locale protocol_decoder =
  fixes dec :: "bit_lane option list \<Rightarrow> decoded_lane list"
    and names :: "string list"
  assumes dec_names: "map dl_name (dec lanes) = names"
    and dec_sorted: "lanes_ok lanes \<Longrightarrow> d \<in> set (dec lanes) \<Longrightarrow> starts_sorted (dl_words d)"
begin

lemma dec_length: "length (dec lanes) = length names"
  using arg_cong[OF dec_names, of length] by simp

lemma starts_le:
  assumes "lanes_ok lanes" "d \<in> set (dec lanes)" "i \<le> j" "j < length (dl_words d)"
  shows "dw_start (dl_words d ! i) \<le> dw_start (dl_words d ! j)"
  using dec_sorted[OF assms(1,2)] assms(3,4) sorted_nth_mono[of "map dw_start (dl_words d)" i j]
  by (simp add: starts_sorted_alt)

end

locale word_decoder = protocol_decoder +
  assumes dec_disjoint: "lanes_ok lanes \<Longrightarrow> d \<in> set (dec lanes) \<Longrightarrow> words_disjoint (dl_words d)"
begin

lemma row_exact:
  assumes "lanes_ok lanes" "d \<in> set (dec lanes)"
  shows "row_at (dl_words d) t = Some i \<longleftrightarrow>
    i < length (dl_words d) \<and> dw_start (dl_words d ! i) \<le> t \<and> t < dw_end (dl_words d ! i)"
  using row_at_Some row_at_disjoint[OF dec_disjoint[OF assms]] by blast

end

lemma lanes_ok_get: "lanes_ok lanes \<Longrightarrow> get lanes i = Some (Some l) \<Longrightarrow> lane_ok l"
  unfolding lanes_ok_def by (metis get_Some nth_mem)

lemma bound_lane_ok: "lanes_ok lanes \<Longrightarrow> bound_lane lanes i = Some l \<Longrightarrow> lane_ok l"
  using lanes_ok_get by (auto simp: bound_lane_def split: option.splits)

lemma sorted_strict: "sorted_wrt (<) (xs :: nat list) \<Longrightarrow> sorted xs"
  by (rule sorted_wrt_mono_rel) auto

lemma uart_lanes:
  assumes "d \<in> set (uart_decode s lanes)" "lanes_ok lanes"
  shows "words_disjoint (dl_words d)"
proof (cases "\<exists>line p. get lanes 0 = Some (Some line) \<and> resolve_bit_period s line = Some p")
  case True
  then obtain line p where line: "get lanes 0 = Some (Some line)" "resolve_bit_period s line = Some p" by blast
  have "sorted_wrt (<) (edges_to line (uart_start s))"
    using lanes_ok_get[OF assms(2) line(1)] by (rule edges_to_sorted)
  from uart_scan_words[OF this, of s line p 0] assms(1) show ?thesis
    by (auto simp: uart_decode_line[OF line] words_disjoint_def)
next
  case False
  then have "dl_words d = []" using assms(1) by (auto simp: uart_decode_def split: option.splits)
  then show ?thesis by (simp add: words_disjoint_def)
qed

lemma disjoint_starts_sorted: "words_disjoint ws \<Longrightarrow> starts_sorted ws"
proof -
  assume ws: "words_disjoint ws"
  have "sorted_wrt (\<lambda>a b. dw_start a \<le> dw_start b) ws"
    unfolding sorted_wrt_iff_nth_less
  proof (intro allI impI)
    fix i j assume "i < j" "j < length ws"
    with ws have "dw_end (ws ! i) \<le> dw_start (ws ! j)" "dw_start (ws ! i) \<le> dw_end (ws ! i)"
      by (auto simp: words_disjoint_def sorted_wrt_iff_nth_less)
    then show "dw_start (ws ! i) \<le> dw_start (ws ! j)" by simp
  qed
  with ws show ?thesis by (simp add: starts_sorted_def words_disjoint_def)
qed

lemma stretch_disjoint: "starts_sorted ws \<Longrightarrow> words_disjoint (stretch ws)"
proof -
  have "sorted (map dw_start ws) \<Longrightarrow> sorted_wrt (\<lambda>a b. dw_end a \<le> dw_start b) (stretch ws)"
  proof (induction ws rule: stretch.induct)
    case (1 w v ws)
    have "\<forall>x \<in> set (stretch (v # ws)). dw_start v \<le> dw_start x"
    proof
      fix x assume "x \<in> set (stretch (v # ws))"
      then have "dw_start x \<in> set (map dw_start (stretch (v # ws)))" by (metis imageI set_map)
      then have "dw_start x \<in> set (map dw_start (v # ws))" unfolding stretch_starts .
      with 1(2) show "dw_start v \<le> dw_start x" by auto
    qed
    with 1 show ?case by auto
  qed simp_all
  moreover assume "starts_sorted ws"
  ultimately show ?thesis using stretch_spans[of ws] by (simp add: words_disjoint_def starts_sorted_alt)
qed

lemma spi_lanes:
  assumes "d \<in> set (spi_decode s lanes)" "lanes_ok lanes"
  shows "words_disjoint (dl_words d)"
proof (cases "dl_words d = []")
  case True
  then show ?thesis by (simp add: words_disjoint_def)
next
  case False
  with assms(1) obtain sclk data where
    "bound_lane lanes 0 = Some sclk"
    "dl_words d = decode_one s data (bound_lane lanes 3) (edges_to sclk (sampling_level s)) (spi_word_size s)"
    by (auto simp: spi_decode_def Let_def spi_lane_names_def split: option.splits)
  moreover from this(1) assms(2) have "sorted (edges_to sclk (sampling_level s))"
    using bound_lane_ok edges_to_sorted sorted_strict by blast
  ultimately show ?thesis
    using decode_one_presorted[of "edges_to sclk (sampling_level s)" "spi_word_size s" s data "bound_lane lanes 3"]
      stretch_disjoint
    by (simp add: decode_one_def)
qed

lemma i2c_lanes: "d \<in> set (i2c_decode s lanes) \<Longrightarrow> starts_sorted (dl_words d)"
  by (auto simp: i2c_decode_def i2c_tokens_sorted split: option.splits)

interpretation uart: word_decoder "uart_decode s" "uart_lane_names s" for s
proof
  show "map dl_name (uart_decode s lanes) = uart_lane_names s" for lanes
    by (auto simp: uart_decode_def uart_lane_names_def split: option.splits)
qed (auto dest: uart_lanes disjoint_starts_sorted)

interpretation spi: word_decoder "spi_decode s" "spi_lane_names s" for s
proof
  show "map dl_name (spi_decode s lanes) = spi_lane_names s" for lanes
    by (auto simp: spi_decode_def spi_lane_names_def Let_def split: option.splits)
qed (auto dest: spi_lanes disjoint_starts_sorted)

interpretation i2c: protocol_decoder "i2c_decode s" "i2c_lane_names s" for s
proof
  show "map dl_name (i2c_decode s lanes) = i2c_lane_names s" for lanes
    by (auto simp: i2c_decode_def i2c_lane_names_def split: option.splits)
qed (auto dest: i2c_lanes)

lemma decode_sorted: "lanes_ok lanes \<Longrightarrow> d \<in> set (decode s lanes) \<Longrightarrow> starts_sorted (dl_words d)"
  by (cases s) (auto dest: uart.dec_sorted spi.dec_sorted i2c.dec_sorted)

lemma decode_names: "map dl_name (decode s lanes) = lane_names s"
  by (cases s) (simp_all add: uart.dec_names spi.dec_names i2c.dec_names)

interpretation any: protocol_decoder "decode s" "lane_names s" for s
  by unfold_locales (simp_all add: decode_names decode_sorted)

subsection \<open>The walk along the row\<close>

text \<open>The reference: every pixel looks its word up, and a region starts where the word changes.\<close>

definition region_at :: "decoded_word list \<Rightarrow> nat \<Rightarrow> translated_value option" where
  "region_at ws t = map_option (\<lambda>i. word_region (ws ! i)) (row_at ws t)"

fun draw_each :: "decoded_word list \<Rightarrow> nat option option \<Rightarrow> ('p \<times> nat) list \<Rightarrow> ('p \<times> translated_value option) list" where
  "draw_each ws prev [] = []"
| "draw_each ws prev ((pixel, t) # ts) =
     (if prev = Some (row_at ws (to_u64 t)) then [] else [(pixel, region_at ws (to_u64 t))])
     @ draw_each ws (Some (row_at ws (to_u64 t))) ts"

lemma skip_words_partition:
  assumes "idx \<le> partition_point (\<lambda>w. dw_end w \<le> t) ws"
  shows "skip_words ws idx t = partition_point (\<lambda>w. dw_end w \<le> t) ws"
  using assms
proof (induction ws idx t rule: skip_words.induct)
  case (1 ws idx t)
  let ?p = "partition_point (\<lambda>w. dw_end w \<le> t) ws"
  show ?case
  proof (cases "idx < ?p")
    case True
    then have "idx < length ws \<and> dw_end (ws ! idx) \<le> t"
      using partition_point_le[of "\<lambda>w. dw_end w \<le> t" ws] partition_point_before[of idx "\<lambda>w. dw_end w \<le> t" ws]
      by simp
    with 1 True show ?thesis by (subst skip_words.simps) simp
  next
    case False
    with 1(2) have "idx = ?p" by simp
    with partition_point_at[of "\<lambda>w. dw_end w \<le> t" ws] show ?thesis
      by (subst skip_words.simps) auto
  qed
qed

lemma partition_point_mono_time:
  "t \<le> (u :: nat) \<Longrightarrow> partition_point (\<lambda>w. dw_end w \<le> t) ws \<le> partition_point (\<lambda>w. dw_end w \<le> u) ws"
proof (rule ccontr)
  let ?p = "partition_point (\<lambda>w. dw_end w \<le> t) ws" and ?q = "partition_point (\<lambda>w. dw_end w \<le> u) ws"
  assume tu: "t \<le> u" and "\<not> ?p \<le> ?q"
  then have q: "?q < ?p" by simp
  then have "?q < length ws" using partition_point_le[of "\<lambda>w. dw_end w \<le> t" ws] by simp
  from partition_point_at[OF this] partition_point_before[OF q] tu show False by simp
qed

lemma to_u64_mono: "a \<le> b \<Longrightarrow> to_u64 a \<le> to_u64 b"
  by (simp add: to_u64_def)

lemma lane_draw_each:
  assumes "sorted (map snd ts)" "\<forall>x \<in> set ts. idx \<le> partition_point (\<lambda>w. dw_end w \<le> to_u64 (snd x)) ws"
    and "cmds \<noteq> [] \<or> prev = None"
  shows "lane_draw ws ts idx prev cmds = cmds @ draw_each ws (if cmds = [] then None else Some prev) ts"
  using assms
proof (induction ts arbitrary: idx prev cmds)
  case (Cons x ts)
  obtain pixel t where x: "x = (pixel, t)" by (cases x)
  let ?t = "to_u64 t"
  let ?i = "partition_point (\<lambda>w. dw_end w \<le> ?t) ws"
  have skip: "skip_words ws idx ?t = ?i" using Cons.prems(2) by (intro skip_words_partition) (simp add: x)
  have val: "(case get ws ?i of Some w \<Rightarrow> if dw_start w \<le> ?t then Some (word_region w) else None | None \<Rightarrow> None)
      = region_at ws ?t"
    by (simp add: region_at_def row_at_def get_def Let_def)
  have here: "(if region_at ws ?t = None then None else Some ?i) = row_at ws ?t"
    by (simp add: region_at_def row_at_def Let_def)
  have later: "\<forall>x \<in> set ts. ?i \<le> partition_point (\<lambda>w. dw_end w \<le> to_u64 (snd x)) ws"
    using Cons.prems(1) by (auto simp: x intro!: partition_point_mono_time to_u64_mono)
  have step: "lane_draw ws (x # ts) idx prev cmds =
    (if row_at ws ?t \<noteq> prev \<or> cmds = []
     then lane_draw ws ts ?i (row_at ws ?t) (cmds @ [(pixel, region_at ws ?t)])
     else lane_draw ws ts ?i prev cmds)"
    by (simp only: x lane_draw.simps Let_def skip val here)
  show ?case
  proof (cases "row_at ws ?t \<noteq> prev \<or> cmds = []")
    case True
    then have "lane_draw ws (x # ts) idx prev cmds =
        (cmds @ [(pixel, region_at ws ?t)]) @ draw_each ws (Some (row_at ws ?t)) ts"
      unfolding step using Cons.IH[of ?i "cmds @ [(pixel, region_at ws ?t)]" "row_at ws ?t"] Cons.prems(1) later by simp
    with True show ?thesis by (auto simp: x)
  next
    case False
    then have "lane_draw ws (x # ts) idx prev cmds = cmds @ draw_each ws (Some prev) ts"
      unfolding step using Cons.IH[of ?i cmds prev] Cons.prems(1,3) later by simp
    with False show ?thesis by (simp add: x)
  qed
qed simp

subsection \<open>Binding roles\<close>

text \<open>
  The state of the guessing loop: the candidate of every bound role, no candidate twice, and for an alias
  already tried, an unbound role has no free candidate with that alias.
\<close>

definition name_has :: "string \<Rightarrow> ('v, 's) variable_ref \<Rightarrow> bool" where
  "name_has alias v \<longleftrightarrow> contains_str alias (to_ascii_lowercase (vr_name v))"

definition guess_inv :: "('v, 's) variable_ref list \<Rightarrow> nat \<Rightarrow> (nat \<times> string) set
    \<Rightarrow> ('v, 's) variable_ref option list \<Rightarrow> bool list \<Rightarrow> (nat \<Rightarrow> nat option) \<Rightarrow> bool" where
  "guess_inv cands n tried sigs taken f \<longleftrightarrow>
     sigs = map (\<lambda>r. map_option (nth cands) (f r)) [0..<n] \<and> length taken = length cands \<and>
     (\<forall>c < length cands. taken ! c \<longleftrightarrow> (\<exists>r < n. f r = Some c)) \<and>
     (\<forall>r s c. r < n \<longrightarrow> s < n \<longrightarrow> f r = Some c \<longrightarrow> f s = Some c \<longrightarrow> r = s) \<and>
     (\<forall>r < n. \<forall>c. f r = Some c \<longrightarrow> c < length cands \<and> (\<exists>a. (r, a) \<in> tried \<and> name_has a (cands ! c))) \<and>
     (\<forall>(r, a) \<in> tried. r < n \<longrightarrow> f r = None \<longrightarrow> (\<forall>c < length cands. taken ! c \<or> \<not> name_has a (cands ! c)))"

lemma claim_Some: "claim a taken cands = Some c \<Longrightarrow> c < length cands \<and> \<not> taken ! c \<and> name_has a (cands ! c)"
  by (auto simp: claim_def find_Some_iff name_has_def)

lemma claim_None: "claim a taken cands = None \<Longrightarrow> c < length cands \<Longrightarrow> taken ! c \<or> \<not> name_has a (cands ! c)"
  by (auto simp: claim_def find_None_iff name_has_def)

lemma guess_invI:
  assumes "sigs = map (\<lambda>r. map_option (nth cands) (f r)) [0..<n]" "length taken = length cands"
    and "\<And>c. c < length cands \<Longrightarrow> taken ! c \<longleftrightarrow> (\<exists>r < n. f r = Some c)"
    and "\<And>r s c. r < n \<Longrightarrow> s < n \<Longrightarrow> f r = Some c \<Longrightarrow> f s = Some c \<Longrightarrow> r = s"
    and "\<And>r c. r < n \<Longrightarrow> f r = Some c \<Longrightarrow> c < length cands \<and> (\<exists>a. (r, a) \<in> tried \<and> name_has a (cands ! c))"
    and "\<And>r a c. (r, a) \<in> tried \<Longrightarrow> r < n \<Longrightarrow> f r = None \<Longrightarrow> c < length cands \<Longrightarrow> taken ! c \<or> \<not> name_has a (cands ! c)"
  shows "guess_inv cands n tried sigs taken f"
  using assms unfolding guess_inv_def by blast

lemma guess_invD:
  assumes "guess_inv cands n tried sigs taken f"
  shows "sigs = map (\<lambda>r. map_option (nth cands) (f r)) [0..<n]" "length taken = length cands"
    and "\<And>c. c < length cands \<Longrightarrow> taken ! c \<longleftrightarrow> (\<exists>r < n. f r = Some c)"
    and "\<And>r s c. r < n \<Longrightarrow> s < n \<Longrightarrow> f r = Some c \<Longrightarrow> f s = Some c \<Longrightarrow> r = s"
    and "\<And>r c. r < n \<Longrightarrow> f r = Some c \<Longrightarrow> c < length cands \<and> (\<exists>a. (r, a) \<in> tried \<and> name_has a (cands ! c))"
    and "\<And>r a c. (r, a) \<in> tried \<Longrightarrow> r < n \<Longrightarrow> f r = None \<Longrightarrow> c < length cands \<Longrightarrow> taken ! c \<or> \<not> name_has a (cands ! c)"
  using assms unfolding guess_inv_def by blast+

lemma guess_inv_more:
  assumes "guess_inv cands n tried sigs taken f"
    and "\<And>c. f r = None \<Longrightarrow> c < length cands \<Longrightarrow> taken ! c \<or> \<not> name_has a (cands ! c)"
  shows "guess_inv cands n (insert (r, a) tried) sigs taken f"
proof (rule guess_invI)
  note inv = guess_invD[OF assms(1)]
  show "c < length cands \<and> (\<exists>b. (s, b) \<in> insert (r, a) tried \<and> name_has b (cands ! c))"
    if "s < n" "f s = Some c" for s c using inv(5)[OF that] by blast
  show "taken ! c \<or> \<not> name_has b (cands ! c)"
    if "(s, b) \<in> insert (r, a) tried" "s < n" "f s = None" "c < length cands" for s b c
    using that assms(2) inv(6) by blast
qed (fact guess_invD[OF assms(1)])+

lemma guess_inv_bind:
  assumes "guess_inv cands n tried sigs taken f" "r < n" "f r = None" "claim a taken cands = Some c"
  shows "guess_inv cands n (insert (r, a) tried) (sigs[r := Some (cands ! c)]) (taken[c := True]) (f(r \<mapsto> c))"
proof (rule guess_invI)
  note inv = guess_invD[OF assms(1)]
  note c = claim_Some[OF assms(4)]
  have free: "f s \<noteq> Some c" if "s < n" for s using c inv(3)[of c] that by blast
  show "sigs[r := Some (cands ! c)] = map (\<lambda>s. map_option (nth cands) ((f(r \<mapsto> c)) s)) [0..<n]"
    unfolding inv(1) using assms(2) by (intro nth_equalityI) (auto simp: nth_list_update)
  show "length (taken[c := True]) = length cands" using inv(2) by simp
  show "(taken[c := True]) ! d \<longleftrightarrow> (\<exists>s < n. (f(r \<mapsto> c)) s = Some d)" if "d < length cands" for d
  proof (cases "d = c")
    case True
    then have "(f(r \<mapsto> c)) r = Some d" by simp
    with assms(2) have "\<exists>s < n. (f(r \<mapsto> c)) s = Some d" by blast
    with True c inv(2) show ?thesis by simp
  next
    case False
    have "(\<exists>s < n. (f(r \<mapsto> c)) s = Some d) \<longleftrightarrow> (\<exists>s < n. f s = Some d)"
    proof
      assume "\<exists>s < n. (f(r \<mapsto> c)) s = Some d"
      then obtain s where "s < n" "(f(r \<mapsto> c)) s = Some d" by blast
      with False show "\<exists>s < n. f s = Some d" by (cases "s = r") auto
    next
      assume "\<exists>s < n. f s = Some d"
      then obtain s where "s < n" "f s = Some d" by blast
      with assms(3) have "(f(r \<mapsto> c)) s = Some d" by (cases "s = r") auto
      with \<open>s < n\<close> show "\<exists>s < n. (f(r \<mapsto> c)) s = Some d" by blast
    qed
    with False inv(3)[OF that] show ?thesis by simp
  qed
  show "s = u" if "s < n" "u < n" "(f(r \<mapsto> c)) s = Some d" "(f(r \<mapsto> c)) u = Some d" for s u d
    using that inv(4)[of s u d] free[of s] free[of u] by (cases "s = r"; cases "u = r") auto
  show "d < length cands \<and> (\<exists>b. (s, b) \<in> insert (r, a) tried \<and> name_has b (cands ! d))"
    if "s < n" "(f(r \<mapsto> c)) s = Some d" for s d
    using that c inv(5)[of s d] by (cases "s = r") auto
  show "(taken[c := True]) ! d \<or> \<not> name_has b (cands ! d)"
    if "(s, b) \<in> insert (r, a) tried" "s < n" "(f(r \<mapsto> c)) s = None" "d < length cands" for s b d
    using that inv(6)[of s b d] inv(2) by (cases "s = r"; cases "d = c") auto
qed

lemma guess_roles_inv:
  assumes "guess_inv cands n tried sigs taken f" "\<forall>(r, a) \<in> set as. r < n"
  shows "\<exists>f'. guess_inv cands n (tried \<union> set as) (fst (guess_roles cands as (sigs, taken)))
    (snd (guess_roles cands as (sigs, taken))) f'"
  using assms
proof (induction as arbitrary: tried sigs taken f)
  case Nil
  then show ?case by auto
next
  case (Cons x as)
  obtain r a where x: "x = (r, a)" by (cases x)
  with Cons.prems(2) have r: "r < n" by simp
  have sig: "sigs ! r = map_option (nth cands) (f r)" using Cons.prems(1) r by (simp add: guess_inv_def)
  have ins: "tried \<union> set (x # as) = insert (r, a) tried \<union> set as" by (auto simp: x)
  show ?case
  proof (cases "f r")
    case (Some c)
    with guess_inv_more[OF Cons.prems(1), of r a] Cons.IH[of "insert (r, a) tried" sigs taken f] Cons.prems(2) sig
    show ?thesis unfolding ins by (simp add: x)
  next
    case None
    show ?thesis
    proof (cases "claim a taken cands")
      case None
      with guess_inv_more[OF Cons.prems(1) claim_None[OF None], of r] Cons.IH[of "insert (r, a) tried" sigs taken f] Cons.prems(2) sig \<open>f r = None\<close>
      show ?thesis unfolding ins by (simp add: x)
    next
      case (Some c)
      with guess_inv_bind[OF Cons.prems(1) r \<open>f r = None\<close> Some]
        Cons.IH[of "insert (r, a) tried" "sigs[r := Some (cands ! c)]" "taken[c := True]" "f(r \<mapsto> c)"] Cons.prems(2) sig \<open>f r = None\<close>
      show ?thesis unfolding ins by (simp add: x del: fun_upd_apply)
    qed
  qed
qed

lemma in_by_alias: "(r, a) \<in> set (by_alias rs) \<longleftrightarrow> r < length rs \<and> a \<in> set (role_aliases (rs ! r))"
proof -
  have "(r, a) \<in> set (by_alias rs) \<longleftrightarrow> (\<exists>x. (r, x) \<in> set (enumerate 0 rs) \<and> a \<in> set (role_aliases x))"
    by (fastforce simp: by_alias_def)
  then show ?thesis by (auto simp: in_set_enumerate_eq)
qed

lemma var_eq_refl [simp]: "var_eq v v"
  by (simp add: var_eq_def scope_eq_def)

subsection \<open>Properties\<close>

text \<open>
  A row is drawn as if every pixel looked up its own word: the single forward walk over words and
  pixel times gives a region at exactly the pixels where the word in force changes, with that word's text
  and kind (or nothing between words), for every list of words and every nondecreasing pixel times.
\<close>

theorem lane_draw_reference:
  assumes "sorted (map snd ts)"
  shows "lane_draw_commands lane ts = draw_each (dl_words lane) None ts
    @ (if ts = [] then [] else [(fst (last ts), None)])"
  using assms by (simp add: lane_draw_commands_def lane_draw_each)

lemma lane_draw_reference_witness:
  "lane_draw_commands \<lparr>dl_name = ''Data'', dl_words = [\<lparr>dw_start = 2, dw_end = 5, dw_text = ''A'', dw_kind = Data\<rparr>]\<rparr>
     [(0 :: nat, 1), (1, 3), (2, 4), (3, 5)] =
   draw_each [\<lparr>dw_start = 2, dw_end = 5, dw_text = ''A'', dw_kind = Data\<rparr>] None [(0, 1), (1, 3), (2, 4), (3, 5)]
     @ [(3, None)]"
  using lane_draw_reference[of "[(0 :: nat, 1), (1, 3), (2, 4), (3, 5)]"
      "\<lparr>dl_name = ''Data'', dl_words = [\<lparr>dw_start = 2, dw_end = 5, dw_text = ''A'', dw_kind = Data\<rparr>]\<rparr>"]
  by simp

text \<open>
  C15. The contract of the decoders: whatever the settings and the bound signals, a decoder yields one row
  for each name it announced, and each row's words are in the order of their starts and end no earlier
  than they start; the words of SPI and UART moreover never overlap, so the word in force at a time is
  the one whose span contains it.
\<close>

theorem decoder_contract:
  assumes "lanes_ok lanes" "d \<in> set (decode s lanes)"
  shows "map dl_name (decode s lanes) = lane_names s \<and> starts_sorted (dl_words d) \<and>
    (protocol_of s \<noteq> I2c \<longrightarrow> (\<forall>t i. row_at (dl_words d) t = Some i \<longleftrightarrow>
      i < length (dl_words d) \<and> dw_start (dl_words d ! i) \<le> t \<and> t < dw_end (dl_words d ! i)))"
proof (intro conjI impI)
  show "map dl_name (decode s lanes) = lane_names s" by (rule any.dec_names)
  show "starts_sorted (dl_words d)" using assms by (rule any.dec_sorted)
  show "\<forall>t i. row_at (dl_words d) t = Some i \<longleftrightarrow>
      i < length (dl_words d) \<and> dw_start (dl_words d ! i) \<le> t \<and> t < dw_end (dl_words d ! i)"
    if "protocol_of s \<noteq> I2c"
    using that assms by (cases s) (auto simp: spi.row_exact uart.row_exact)
qed

lemma decoder_contract_witness:
  "lanes_ok [Some uart_sample_line] \<and> starts_sorted (dl_words (hd (decode (for_protocol Uart) [Some uart_sample_line])))"
proof -
  have "lane_ok uart_sample_line" by code_simp
  then have ok: "lanes_ok [Some uart_sample_line]" by (simp add: lanes_ok_def)
  moreover have "hd (decode (for_protocol Uart) [Some uart_sample_line])
      \<in> set (decode (for_protocol Uart) [Some uart_sample_line])"
    by (simp add: uart_decode_def split: option.split)
  ultimately show ?thesis using decoder_contract by blast
qed

text \<open>
  Guessing the roles of a decoder binds no signal twice, binds a role only to a signal whose
  lower-case name contains one of the role's aliases, and leaves a role unbound only when no signal that
  is still free has any of them.
\<close>

theorem guess_spec:
  "\<exists>f. signals (guess p cands) = map (\<lambda>r. map_option (nth cands) (f r)) [0..<length (roles p)] \<and>
     (\<forall>r s c. r < length (roles p) \<and> s < length (roles p) \<and> f r = Some c \<and> f s = Some c \<longrightarrow> r = s) \<and>
     (\<forall>r c. r < length (roles p) \<and> f r = Some c \<longrightarrow>
        c < length cands \<and> (\<exists>a \<in> set (role_aliases (roles p ! r)). name_has a (cands ! c))) \<and>
     (\<forall>r a c. r < length (roles p) \<and> f r = None \<and> a \<in> set (role_aliases (roles p ! r)) \<and> c < length cands \<longrightarrow>
        (\<exists>s < length (roles p). f s = Some c) \<or> \<not> name_has a (cands ! c))"
proof -
  let ?n = "length (roles p)" and ?as = "by_alias (roles p)"
  have "guess_inv cands ?n {} (replicate ?n None) (replicate (length cands) False) (\<lambda>_. None)"
    by (rule guess_invI) (auto simp: map_replicate_const)
  moreover have "\<forall>(r, a) \<in> set ?as. r < ?n" by (auto simp: in_by_alias)
  ultimately obtain f where "guess_inv cands ?n ({} \<union> set ?as)
      (fst (guess_roles cands ?as (replicate ?n None, replicate (length cands) False)))
      (snd (guess_roles cands ?as (replicate ?n None, replicate (length cands) False))) f"
    using guess_roles_inv by blast
  note inv = guess_invD[OF this]
  show ?thesis
  proof (intro exI[of _ f] conjI allI impI)
    show "signals (guess p cands) = map (\<lambda>r. map_option (nth cands) (f r)) [0..<?n]"
      using inv(1) by (simp add: guess_def)
  next
    fix r s c
    assume "r < ?n \<and> s < ?n \<and> f r = Some c \<and> f s = Some c"
    then show "r = s" using inv(4) by blast
  next
    fix r c
    assume rc: "r < ?n \<and> f r = Some c"
    then show "c < length cands" using inv(5) by blast
    from rc inv(5) obtain a where "(r, a) \<in> set ?as" "name_has a (cands ! c)" by blast
    then show "\<exists>a \<in> set (role_aliases (roles p ! r)). name_has a (cands ! c)" by (auto simp: in_by_alias)
  next
    fix r a c
    assume x: "r < ?n \<and> f r = None \<and> a \<in> set (role_aliases (roles p ! r)) \<and> c < length cands"
    then have "(r, a) \<in> {} \<union> set ?as" by (simp add: in_by_alias)
    with x inv(3)[of c] inv(6)[of r a c] show "(\<exists>s < ?n. f s = Some c) \<or> \<not> name_has a (cands ! c)" by blast
  qed
qed

definition named_signal :: "string \<Rightarrow> (unit, unit) variable_ref" where
  "named_signal n = sample_ref\<lparr>vr_name := n\<rparr>"

lemma guess_spec_witness:
  "signals (guess Uart [named_signal ''clk'', named_signal ''uart_tx'']) = [Some (named_signal ''uart_tx'')]"
proof -
  let ?cands = "[named_signal ''clk'', named_signal ''uart_tx'']"
  have n: "length (roles Uart) = 1" "role_aliases (roles Uart ! 0) = [''uart'', ''tx'', ''rx'', ''txd'', ''rxd'', ''serial'', ''sout'', ''sin'']"
    by (simp_all add: uart_roles_def)
  have no: "\<not> (\<exists>a \<in> set (role_aliases (roles Uart ! 0)). name_has a (?cands ! 0))"
    and yes: "name_has ''tx'' (?cands ! 1)"
    unfolding n name_has_def named_signal_def sample_ref_def by code_simp+
  obtain f where sig: "signals (guess Uart ?cands) = map (\<lambda>r. map_option (nth ?cands) (f r)) [0..<length (roles Uart)]"
    and bound: "\<And>c. f 0 = Some c \<Longrightarrow> c < length ?cands \<and> (\<exists>a \<in> set (role_aliases (roles Uart ! 0)). name_has a (?cands ! c))"
    and free: "f 0 = None \<Longrightarrow> (\<exists>s < length (roles Uart). f s = Some 1) \<or> \<not> name_has ''tx'' (?cands ! 1)"
  proof -
    assume that: "\<And>f. \<lbrakk>signals (guess Uart ?cands) = map (\<lambda>r. map_option (nth ?cands) (f r)) [0..<length (roles Uart)];
      \<And>c. f 0 = Some c \<Longrightarrow> c < length ?cands \<and> (\<exists>a \<in> set (role_aliases (roles Uart ! 0)). name_has a (?cands ! c));
      f 0 = None \<Longrightarrow> (\<exists>s < length (roles Uart). f s = Some 1) \<or> \<not> name_has ''tx'' (?cands ! 1)\<rbrakk> \<Longrightarrow> thesis"
    obtain f where f: "signals (guess Uart ?cands) = map (\<lambda>r. map_option (nth ?cands) (f r)) [0..<length (roles Uart)]"
      "\<forall>r c. r < length (roles Uart) \<and> f r = Some c \<longrightarrow>
        c < length ?cands \<and> (\<exists>a \<in> set (role_aliases (roles Uart ! r)). name_has a (?cands ! c))"
      "\<forall>r a c. r < length (roles Uart) \<and> f r = None \<and> a \<in> set (role_aliases (roles Uart ! r)) \<and> c < length ?cands \<longrightarrow>
        (\<exists>s < length (roles Uart). f s = Some c) \<or> \<not> name_has a (?cands ! c)"
      using guess_spec[of Uart ?cands] by (elim exE conjE) rule
    have z: "(0::nat) < length (roles Uart)" "''tx'' \<in> set (role_aliases (roles Uart ! 0))" unfolding n by simp_all
    have "c < length ?cands \<and> (\<exists>a \<in> set (role_aliases (roles Uart ! 0)). name_has a (?cands ! c))" if "f 0 = Some c" for c
      using f(2) z(1) that by blast
    moreover have "(\<exists>s < length (roles Uart). f s = Some 1) \<or> \<not> name_has ''tx'' (?cands ! 1)" if "f 0 = None"
      by (rule f(3)[rule_format, of 0]) (use z that in simp)
    ultimately show thesis by (rule that[OF f(1)])
  qed
  have "f 0 = Some 1"
  proof (cases "f 0")
    case None
    then show ?thesis using free yes by (auto simp: n simp del: roles.simps)
  next
    case (Some c)
    with bound no have "c < 2" "c \<noteq> 0" by fastforce+
    with Some show ?thesis by simp
  qed
  then show ?thesis using sig by (simp add: n del: roles.simps)
qed

end
