(* ===== verification/Displayed_Items.thy ===== *)
theory Displayed_Items
  imports Decoders
begin

section \<open>Displayed items (displayed\_item.rs)\<close>

text \<open>
  The rows of the waveform view: one record per kind of item and the enum over them, with the accessors
  and setters that the message handlers call, and the change of a variable into a placeholder and back
  when a waveform is reloaded. A height scaling factor is its \<^verbatim>\<open>f32\<close> bit pattern: it is only stored. An
  analog cache is the identity of the shared entry; cloning an item drops it.
\<close>

type_synonym f32_bits = "32 word"

datatype analog_render_style = StepStyle | Interpolated

datatype analog_y_axis_scale = ViewportScale | GlobalScale | TypeLimits

record analog_settings =
  as_render_style :: analog_render_style
  as_y_axis_scale :: analog_y_axis_scale

definition downgrade_type_limits :: "analog_settings \<Rightarrow> analog_settings" where
  "downgrade_type_limits s =
     (if as_y_axis_scale s = TypeLimits then s\<lparr>as_y_axis_scale := GlobalScale\<rparr> else s)"

record analog_var_state =
  av_settings :: analog_settings
  av_cache :: "nat option"

definition analog_new :: "analog_settings \<Rightarrow> analog_var_state" where
  "analog_new s = \<lparr>av_settings = s, av_cache = None\<rparr>"

definition analog_clone :: "analog_var_state \<Rightarrow> analog_var_state" where
  "analog_clone a = \<lparr>av_settings = av_settings a, av_cache = None\<rparr>"

datatype variable_name_type = LocalName | UniqueName | GlobalName

record field_format =
  ff_field :: "string list"
  ff_format :: string

record ('v, 's) displayed_variable =
  dv_ref :: "('v, 's) variable_ref"
  dv_info :: variable_info
  dv_color :: "string option"
  dv_background :: "string option"
  dv_display_name :: string
  dv_name_type :: variable_name_type
  dv_manual_name :: "string option"
  dv_format :: "string option"
  dv_field_formats :: "field_format list"
  dv_height :: "f32_bits option"
  dv_analog :: "analog_var_state option"

record displayed_divider =
  dd_color :: "string option"
  dd_background :: "string option"
  dd_name :: "string option"

record displayed_marker =
  dm_color :: "string option"
  dm_background :: "string option"
  dm_name :: "string option"
  dm_idx :: nat

record displayed_timeline =
  dt_color :: "string option"
  dt_background :: "string option"
  dt_name :: "string option"

record ('v, 's) displayed_placeholder =
  dp_ref :: "('v, 's) variable_ref"
  dp_color :: "string option"
  dp_background :: "string option"
  dp_display_name :: string
  dp_name_type :: variable_name_type
  dp_manual_name :: "string option"
  dp_format :: "string option"
  dp_field_formats :: "field_format list"
  dp_height :: "f32_bits option"
  dp_analog :: "analog_var_state option"

record transaction_stream_ref =
  ts_stream_id :: nat
  ts_gen_id :: "nat option"
  ts_name :: string

record displayed_stream =
  ds_ref :: transaction_stream_ref
  ds_color :: "string option"
  ds_background :: "string option"
  ds_display_name :: string
  ds_manual_name :: "string option"
  ds_rows :: nat

record displayed_group =
  dg_name :: string
  dg_color :: "string option"
  dg_background :: "string option"
  dg_content :: "nat list"
  dg_is_open :: bool

record ('v, 's) displayed_decoder =
  de_instance :: nat
  de_settings :: decoder_settings
  de_bindings :: "('v, 's) role_bindings"
  de_lane :: nat
  de_color :: "string option"
  de_background :: "string option"
  de_display_name :: string
  de_manual_name :: "string option"

datatype ('v, 's) displayed_item =
  ItemVariable "('v, 's) displayed_variable"
| ItemDivider displayed_divider
| ItemMarker displayed_marker
| ItemTimeLine displayed_timeline
| ItemPlaceholder "('v, 's) displayed_placeholder"
| ItemStream displayed_stream
| ItemGroup displayed_group
| ItemDecoder "('v, 's) displayed_decoder"

subsection \<open>Accessors and setters\<close>

definition default_divider_name :: string where "default_divider_name = ''''"

definition default_timeline_name :: string where "default_timeline_name = ''Time''"

definition default_marker_name :: string where "default_marker_name = ''Marker''"

definition or_else :: "'a option \<Rightarrow> 'a \<Rightarrow> 'a" where
  "or_else x d = (case x of Some y \<Rightarrow> y | None \<Rightarrow> d)"

fun item_color :: "('v, 's) displayed_item \<Rightarrow> string option" where
  "item_color (ItemVariable v) = dv_color v"
| "item_color (ItemDivider d) = dd_color d"
| "item_color (ItemMarker m) = dm_color m"
| "item_color (ItemTimeLine t) = dt_color t"
| "item_color (ItemPlaceholder p) = None"
| "item_color (ItemStream s) = ds_color s"
| "item_color (ItemGroup g) = dg_color g"
| "item_color (ItemDecoder d) = de_color d"

fun set_color :: "string option \<Rightarrow> ('v, 's) displayed_item \<Rightarrow> ('v, 's) displayed_item" where
  "set_color c (ItemVariable v) = ItemVariable (v\<lparr>dv_color := c\<rparr>)"
| "set_color c (ItemDivider d) = ItemDivider (d\<lparr>dd_color := c\<rparr>)"
| "set_color c (ItemMarker m) = ItemMarker (m\<lparr>dm_color := c\<rparr>)"
| "set_color c (ItemTimeLine t) = ItemTimeLine (t\<lparr>dt_color := c\<rparr>)"
| "set_color c (ItemPlaceholder p) = ItemPlaceholder (p\<lparr>dp_color := c\<rparr>)"
| "set_color c (ItemStream s) = ItemStream (s\<lparr>ds_color := c\<rparr>)"
| "set_color c (ItemGroup g) = ItemGroup (g\<lparr>dg_color := c\<rparr>)"
| "set_color c (ItemDecoder d) = ItemDecoder (d\<lparr>de_color := c\<rparr>)"

fun item_background :: "('v, 's) displayed_item \<Rightarrow> string option" where
  "item_background (ItemVariable v) = dv_background v"
| "item_background (ItemDivider d) = dd_background d"
| "item_background (ItemMarker m) = dm_background m"
| "item_background (ItemTimeLine t) = dt_background t"
| "item_background (ItemPlaceholder p) = None"
| "item_background (ItemStream s) = ds_background s"
| "item_background (ItemGroup g) = dg_background g"
| "item_background (ItemDecoder d) = de_background d"

fun set_background :: "string option \<Rightarrow> ('v, 's) displayed_item \<Rightarrow> ('v, 's) displayed_item" where
  "set_background c (ItemVariable v) = ItemVariable (v\<lparr>dv_background := c\<rparr>)"
| "set_background c (ItemDivider d) = ItemDivider (d\<lparr>dd_background := c\<rparr>)"
| "set_background c (ItemMarker m) = ItemMarker (m\<lparr>dm_background := c\<rparr>)"
| "set_background c (ItemTimeLine t) = ItemTimeLine (t\<lparr>dt_background := c\<rparr>)"
| "set_background c (ItemPlaceholder p) = ItemPlaceholder (p\<lparr>dp_background := c\<rparr>)"
| "set_background c (ItemStream s) = ItemStream (s\<lparr>ds_background := c\<rparr>)"
| "set_background c (ItemGroup g) = ItemGroup (g\<lparr>dg_background := c\<rparr>)"
| "set_background c (ItemDecoder d) = ItemDecoder (d\<lparr>de_background := c\<rparr>)"

fun item_name :: "('v, 's) displayed_item \<Rightarrow> string" where
  "item_name (ItemVariable v) = or_else (dv_manual_name v) (dv_display_name v)"
| "item_name (ItemDivider d) = or_else (dd_name d) default_divider_name"
| "item_name (ItemMarker m) = or_else (dm_name m) default_marker_name"
| "item_name (ItemTimeLine t) = or_else (dt_name t) default_timeline_name"
| "item_name (ItemPlaceholder p) = or_else (dp_manual_name p) (dp_display_name p)"
| "item_name (ItemStream s) = or_else (ds_manual_name s) (ds_display_name s)"
| "item_name (ItemGroup g) = dg_name g"
| "item_name (ItemDecoder d) = or_else (de_manual_name d) (de_display_name d)"

fun set_name :: "string option \<Rightarrow> ('v, 's) displayed_item \<Rightarrow> ('v, 's) displayed_item" where
  "set_name n (ItemVariable v) = ItemVariable (v\<lparr>dv_manual_name := n\<rparr>)"
| "set_name n (ItemDivider d) = ItemDivider (d\<lparr>dd_name := n\<rparr>)"
| "set_name n (ItemMarker m) = ItemMarker (m\<lparr>dm_name := n\<rparr>)"
| "set_name n (ItemTimeLine t) = ItemTimeLine (t\<lparr>dt_name := n\<rparr>)"
| "set_name n (ItemPlaceholder p) = ItemPlaceholder (p\<lparr>dp_manual_name := n\<rparr>)"
| "set_name n (ItemStream s) = ItemStream (s\<lparr>ds_manual_name := n\<rparr>)"
| "set_name n (ItemGroup g) = ItemGroup (g\<lparr>dg_name := or_else n ''''\<rparr>)"
| "set_name n (ItemDecoder d) = ItemDecoder (d\<lparr>de_manual_name := n\<rparr>)"

fun has_overwritten_name :: "('v, 's) displayed_item \<Rightarrow> bool" where
  "has_overwritten_name (ItemVariable v) \<longleftrightarrow> dv_manual_name v \<noteq> None"
| "has_overwritten_name (ItemPlaceholder p) \<longleftrightarrow> dp_manual_name p \<noteq> None"
| "has_overwritten_name (ItemStream s) \<longleftrightarrow> ds_manual_name s \<noteq> None"
| "has_overwritten_name (ItemDecoder d) \<longleftrightarrow> de_manual_name d \<noteq> None"
| "has_overwritten_name _ \<longleftrightarrow> False"

text \<open>The default is the bit pattern of \<^verbatim>\<open>1.0\<close>.\<close>

fun height_scaling_factor :: "('v, 's) displayed_item \<Rightarrow> f32_bits" where
  "height_scaling_factor (ItemVariable v) = or_else (dv_height v) 0x3F800000"
| "height_scaling_factor (ItemPlaceholder p) = or_else (dp_height p) 0x3F800000"
| "height_scaling_factor _ = 0x3F800000"

fun set_height_scaling_factor :: "f32_bits \<Rightarrow> ('v, 's) displayed_item \<Rightarrow> ('v, 's) displayed_item" where
  "set_height_scaling_factor h (ItemVariable v) = ItemVariable (v\<lparr>dv_height := Some h\<rparr>)"
| "set_height_scaling_factor h (ItemPlaceholder p) = ItemPlaceholder (p\<lparr>dp_height := Some h\<rparr>)"
| "set_height_scaling_factor h i = i"

definition get_format :: "string list \<Rightarrow> ('v, 's) displayed_variable \<Rightarrow> string option" where
  "get_format field v = (if field = [] then dv_format v
     else map_option ff_format (List.find (\<lambda>ff. ff_field ff = field) (dv_field_formats v)))"

subsection \<open>Placeholders\<close>

definition into_placeholder :: "('v, 's) displayed_variable \<Rightarrow> ('v, 's) displayed_placeholder" where
  "into_placeholder v = \<lparr>dp_ref = (dv_ref v)\<lparr>vr_id := None\<rparr>, dp_color = dv_color v, dp_background = dv_background v,
     dp_display_name = dv_display_name v, dp_name_type = dv_name_type v, dp_manual_name = dv_manual_name v,
     dp_format = dv_format v, dp_field_formats = dv_field_formats v, dp_height = dv_height v, dp_analog = dv_analog v\<rparr>"

definition into_variable :: "variable_info \<Rightarrow> ('v, 's) variable_ref \<Rightarrow> ('v, 's) displayed_placeholder
    \<Rightarrow> ('v, 's) displayed_variable" where
  "into_variable info r p = \<lparr>dv_ref = r, dv_info = info, dv_color = dp_color p, dv_background = dp_background p,
     dv_display_name = dp_display_name p, dv_name_type = dp_name_type p, dv_manual_name = dp_manual_name p,
     dv_format = dp_format p, dv_field_formats = dp_field_formats p, dv_height = dp_height p, dv_analog = dp_analog p\<rparr>"

text \<open>The clone of an item drops its analog cache.\<close>

fun item_clone :: "('v, 's) displayed_item \<Rightarrow> ('v, 's) displayed_item" where
  "item_clone (ItemVariable v) = ItemVariable (v\<lparr>dv_analog := map_option analog_clone (dv_analog v)\<rparr>)"
| "item_clone (ItemPlaceholder p) = ItemPlaceholder (p\<lparr>dp_analog := map_option analog_clone (dp_analog p)\<rparr>)"
| "item_clone i = i"

text \<open>A variable after a reload; \<open>update_ref\<close> is the new waveform's \<^verbatim>\<open>update_variable_ref\<close>.\<close>

definition update_variable :: "(('v, 's) variable_ref \<Rightarrow> ('v, 's) variable_ref option) \<Rightarrow> bool
    \<Rightarrow> ('v, 's) displayed_variable \<Rightarrow> ('v, 's) displayed_item option" where
  "update_variable update_ref keep_unavailable v =
     (let c = v\<lparr>dv_analog := map_option analog_clone (dv_analog v)\<rparr> in
      case update_ref (dv_ref v) of
       None \<Rightarrow> if keep_unavailable then Some (ItemPlaceholder (into_placeholder c)) else None
     | Some new_ref \<Rightarrow> Some (ItemVariable (c\<lparr>dv_ref := new_ref\<rparr>)))"

subsection \<open>Kinds\<close>

fun is_group :: "('v, 's) displayed_item \<Rightarrow> bool" where
  "is_group (ItemGroup g) \<longleftrightarrow> True"
| "is_group _ \<longleftrightarrow> False"

fun marker_idx :: "('v, 's) displayed_item \<Rightarrow> nat option" where
  "marker_idx (ItemMarker m) = Some (dm_idx m)"
| "marker_idx _ = None"

fun is_placeholder :: "('v, 's) displayed_item \<Rightarrow> bool" where
  "is_placeholder (ItemPlaceholder p) \<longleftrightarrow> True"
| "is_placeholder _ \<longleftrightarrow> False"

named_theorems item_kinds \<open>operations that keep the kind of an item\<close>

lemma is_group_setters [simp, item_kinds]:
  "is_group (set_color c i) = is_group i" "is_group (set_background c i) = is_group i"
  "is_group (set_name n i) = is_group i" "is_group (set_height_scaling_factor h i) = is_group i"
  "is_group (item_clone i) = is_group i"
  by (cases i; simp)+

lemma marker_idx_setters [simp, item_kinds]:
  "marker_idx (set_color c i) = marker_idx i" "marker_idx (set_background c i) = marker_idx i"
  "marker_idx (set_name n i) = marker_idx i" "marker_idx (set_height_scaling_factor h i) = marker_idx i"
  "marker_idx (item_clone i) = marker_idx i"
  by (cases i; simp)+

lemma set_color_item_color: "item_color (set_color c i) = (if is_placeholder i then None else c)"
  by (cases i) simp_all

lemma item_name_reset: "has_overwritten_name i \<Longrightarrow> \<not> has_overwritten_name (set_name None i)"
  by (cases i) simp_all

lemma item_clone_idem [simp]: "item_clone (item_clone i) = item_clone i"
proof -
  have "map_option analog_clone (map_option analog_clone a) = map_option analog_clone a" for a
    by (cases a) (simp_all add: analog_clone_def)
  then show ?thesis by (cases i) simp_all
qed

text \<open>A variable that becomes a placeholder and then a variable again keeps every setting of the user.\<close>

lemma placeholder_roundtrip:
  "into_variable info r (into_placeholder v) = v\<lparr>dv_ref := r, dv_info := info\<rparr>"
  by (simp add: into_variable_def into_placeholder_def)

end
