(* ===== verification/Item_Tree.thy ===== *)
theory Item_Tree
  imports Prelude
begin

section \<open>The tree of displayed items\<close>

text \<open>
  \<^verbatim>\<open>libsurfer/src/displayed_item_tree.rs\<close>: the flat list of nodes with nesting levels, iteration over
  the visible nodes, insertion, removal, folding, selection and moves. Levels are \<^verbatim>\<open>u8\<close>: natural
  numbers with the saturation and the conversion errors of the code written out at 255. An index out of
  range panics in the code and is \<open>Panic\<close> here.
\<close>

record node =
  item_ref :: nat
  level :: nat
  unfolded :: bool
  selected :: bool

type_synonym item_tree = "node list"

datatype move_error = InvalidIndex | InvalidLevel | CircularMove | LevelTooDeep

datatype move_dir = Up | Down

record target_position =
  tp_before :: nat
  tp_level :: nat

definition saturating_add_u8 :: "nat \<Rightarrow> nat \<Rightarrow> nat" where
  "saturating_add_u8 a b = min 255 (a + b)"

subsection \<open>Visible items\<close>

fun skip_deeper :: "item_tree \<Rightarrow> nat \<Rightarrow> nat \<Rightarrow> nat" where
  "skip_deeper items this_level next_idx =
     next_idx + length (takeWhile (\<lambda>x. this_level < level x) (drop next_idx items))"

definition next_visible_item :: "item_tree \<Rightarrow> nat \<Rightarrow> nat" where
  "next_visible_item items this_idx =
     (if \<not> unfolded (items ! this_idx) then skip_deeper items (level (items ! this_idx)) (this_idx + 1)
      else this_idx + 1)"

lemma next_visible_later: "this_idx < next_visible_item items this_idx"
  by (simp add: next_visible_item_def)

function visible_from :: "item_tree \<Rightarrow> nat \<Rightarrow> nat list" where
  "visible_from items idx = (if idx < length items then idx # visible_from items (next_visible_item items idx) else [])"
  by pat_completeness auto
termination
  by (relation "measure (\<lambda>(items, idx). length items - idx)")
    (auto simp: next_visible_later diff_less_mono2)

declare visible_from.simps [simp del]

definition visible_indices :: "item_tree \<Rightarrow> nat list" where
  "visible_indices items = visible_from items 0"

definition iter_visible :: "item_tree \<Rightarrow> node list" where
  "iter_visible items = map (nth items) (visible_indices items)"

definition iter_visible_selected :: "item_tree \<Rightarrow> node list" where
  "iter_visible_selected items = filter selected (iter_visible items)"

record info =
  info_node :: node
  info_idx :: nat
  info_vidx :: nat
  info_has_children :: bool
  info_last :: bool

definition iter_visible_extra :: "item_tree \<Rightarrow> info list" where
  "iter_visible_extra items = map (\<lambda>(vidx, idx). \<lparr>info_node = items ! idx, info_idx = idx, info_vidx = vidx,
     info_has_children = (case get items (idx + 1) of Some x \<Rightarrow> level (items ! idx) < level x | None \<Rightarrow> False),
     info_last = (length items \<le> next_visible_item items idx)\<rparr>) (enumerate 0 (visible_indices items))"

definition get_visible :: "item_tree \<Rightarrow> nat \<Rightarrow> node option" where
  "get_visible items vidx = get (iter_visible items) vidx"

definition get_visible_extra :: "item_tree \<Rightarrow> nat \<Rightarrow> info option" where
  "get_visible_extra items vidx = get (iter_visible_extra items) vidx"

definition to_displayed :: "item_tree \<Rightarrow> nat \<Rightarrow> nat option" where
  "to_displayed items vidx = map_option info_idx (get_visible_extra items vidx)"

subsection \<open>Insertion and removal\<close>

text \<open>The range of levels that \<open>check_location\<close> computes from the neighbours of the position.\<close>

definition valid_levels :: "nat option \<Rightarrow> nat option \<Rightarrow> nat \<times> nat" where
  "valid_levels before_level after_level = (case (before_level, after_level) of
     (None, _) \<Rightarrow> (0, 0)
   | (Some b, None) \<Rightarrow> (0, saturating_add_u8 b 1)
   | (Some b, Some a) \<Rightarrow>
       if b < a then (a, a) else if a = b then (b, saturating_add_u8 a 1) else (a, saturating_add_u8 b 1))"

definition check_location :: "item_tree \<Rightarrow> target_position \<Rightarrow> (move_error, unit) outcome" where
  "check_location items pos =
     (if length items < tp_before pos then Err InvalidIndex
      else let before_node = (if tp_before pos = 0 then None else get items (tp_before pos - 1));
               after_node = get items (tp_before pos);
               (lo, hi) = valid_levels (map_option level before_node) (map_option level after_node)
           in if lo \<le> tp_level pos \<and> tp_level pos \<le> hi then Ok () else Err InvalidLevel)"

definition insert_item :: "item_tree \<Rightarrow> nat \<Rightarrow> target_position \<Rightarrow> (move_error, nat \<times> item_tree) outcome" where
  "insert_item items item pos = and_then (check_location items pos) (\<lambda>_.
     Ok (tp_before pos, vec_insert (tp_before pos)
       \<lparr>item_ref = item, level = tp_level pos, unfolded = True, selected = False\<rparr> items))"

definition subtree_end :: "item_tree \<Rightarrow> nat \<Rightarrow> nat" where
  "subtree_end items start_idx = (let l = level (items ! start_idx) in
     case List.find (\<lambda>i. level (items ! i) \<le> l) [start_idx + 1..<length items] of
       Some i \<Rightarrow> i | None \<Rightarrow> length items)"

definition remove_recursive :: "item_tree \<Rightarrow> nat \<Rightarrow> (move_error, nat list \<times> item_tree) outcome" where
  "remove_recursive items item =
     (if item < length items then
        let end = subtree_end items item
        in Ok (map item_ref (slice_range item end items), without item end items)
      else Panic)"

definition remove_dissolve :: "item_tree \<Rightarrow> nat \<Rightarrow> (move_error, nat \<times> item_tree) outcome" where
  "remove_dissolve items item =
     (if item < length items then
        let end = subtree_end items item
        in Ok (item_ref (items ! item), take item items
              @ map (\<lambda>x. x\<lparr>level := level x - 1\<rparr>) (slice_range (item + 1) end items) @ drop end items)
      else Panic)"

lemma subtree_end_bounds:
  assumes "i < length items"
  shows "i < subtree_end items i" "subtree_end items i \<le> length items"
proof -
  have "i < subtree_end items i \<and> subtree_end items i \<le> length items"
  proof (cases "List.find (\<lambda>j. level (items ! j) \<le> level (items ! i)) [i + 1..<length items]")
    case None
    with assms show ?thesis by (simp add: subtree_end_def Let_def)
  next
    case (Some j)
    then have "j \<in> set [i + 1..<length items]" by (metis find_Some_iff nth_mem)
    with Some show ?thesis by (simp add: subtree_end_def Let_def)
  qed
  then show "i < subtree_end items i" "subtree_end items i \<le> length items" by simp_all
qed

text \<open>The draining loop: removed references so far, and the rest of the list at \<open>idx\<close>.\<close>

function drain_from :: "(node \<Rightarrow> bool) \<Rightarrow> item_tree \<Rightarrow> nat \<Rightarrow> nat list \<Rightarrow> nat list \<times> item_tree" where
  "drain_from f items idx removed =
     (if idx < length items then
        if f (items ! idx) then
          let end = subtree_end items idx
          in drain_from f (without idx end items) idx (removed @ map item_ref (slice_range idx end items))
        else drain_from f items (idx + 1) removed
      else (removed, items))"
  by pat_completeness auto
termination
proof (relation "measure (\<lambda>(f, items, idx, removed). length items - idx)")
  fix f items idx removed x
  assume "idx < length items" "x = subtree_end items idx"
  then show "((f, without idx x items, idx, removed @ map item_ref (slice_range idx x items)), f, items, idx, removed)
      \<in> measure (\<lambda>(f, items, idx, removed). length items - idx)"
    using subtree_end_bounds[of idx items] by (simp add: without_def)
qed auto

declare drain_from.simps [simp del]

definition drain_recursive_if :: "(node \<Rightarrow> bool) \<Rightarrow> item_tree \<Rightarrow> nat list \<times> item_tree" where
  "drain_recursive_if f items = drain_from f items 0 []"

subsection \<open>Moves\<close>

fun visible_predecessor_loop :: "item_tree \<Rightarrow> nat \<Rightarrow> nat \<Rightarrow> nat \<Rightarrow> nat \<Rightarrow> nat" where
  "visible_predecessor_loop items start_level 0 candidate limit_level = candidate"
| "visible_predecessor_loop items start_level (Suc i) candidate limit_level =
     (let x = items ! i;
          candidate' = (if level x < limit_level \<and> \<not> unfolded x then i else candidate);
          limit' = (if level x < limit_level then level x else limit_level)
      in if level x \<le> start_level \<or> i = 0 then candidate'
         else visible_predecessor_loop items start_level i candidate' limit')"

definition visible_predecessor :: "item_tree \<Rightarrow> nat \<Rightarrow> nat option" where
  "visible_predecessor items idx =
     (if idx = 0 \<or> length items < idx then None
      else Some (visible_predecessor_loop items (level (items ! idx)) idx (idx - 1) (level (items ! (idx - 1)))))"

text \<open>
  \<open>shift_levels\<close> is the loop of \<^verbatim>\<open>shift_subtree_to_level\<close>: it changes the nodes in place and stops at
  the first level outside \<^verbatim>\<open>u8\<close>, leaving the nodes before it changed.
\<close>

fun shift_levels :: "int \<Rightarrow> node list \<Rightarrow> node list \<times> (move_error, unit) outcome" where
  "shift_levels corr [] = ([], Ok ())"
| "shift_levels corr (x # xs) =
     (let l = int (level x) + corr in
      if 0 \<le> l \<and> l \<le> 255 then (let (xs', r) = shift_levels corr xs in (x\<lparr>level := nat l\<rparr> # xs', r))
      else (x # xs, Err InvalidLevel))"

definition shift_subtree_to_level :: "node list \<Rightarrow> nat \<Rightarrow> node list \<times> (move_error, unit) outcome" where
  "shift_subtree_to_level nodes target_level = (case nodes of
     [] \<Rightarrow> (nodes, Ok ())
   | x # _ \<Rightarrow> shift_levels (int target_level - int (level x)) nodes)"

text \<open>The slice \<open>a..b\<close> of the list changed in place.\<close>

definition shift_range :: "item_tree \<Rightarrow> nat \<Rightarrow> nat \<Rightarrow> nat \<Rightarrow> item_tree \<times> (move_error, unit) outcome" where
  "shift_range items a b target_level =
     (let (xs, r) = shift_subtree_to_level (slice_range a b items) target_level
      in (take a items @ xs @ drop b items, r))"

text \<open>
  The loop of \<^verbatim>\<open>move_items\<close> over the indices from the back: the list without what was extracted, the
  extracted nodes, the target shifted for what was removed before it. Slices out of range panic.
\<close>

fun move_items_loop :: "item_tree \<Rightarrow> nat \<Rightarrow> nat list \<Rightarrow> item_tree \<Rightarrow> node list \<Rightarrow> nat
    \<Rightarrow> (move_error, item_tree \<times> node list \<times> nat) outcome" where
  "move_items_loop items target_level [] result extracted shifted_target = Ok (result, extracted, shifted_target)"
| "move_items_loop items target_level (start # is) result extracted shifted_target =
     (if length items \<le> start then Panic
      else let end = subtree_end items start in
      if start + 1 \<le> shifted_target \<and> shifted_target < end then Err CircularMove
      else let shifted_target' = (if start < shifted_target then shifted_target - (end - start) else shifted_target) in
      if length result < end then Panic
      else case shift_subtree_to_level (slice_range start end result) target_level of
        (nodes, Ok _) \<Rightarrow>
          move_items_loop items target_level is (without start end result) (nodes @ extracted) shifted_target'
      | (_, Err e) \<Rightarrow> Err e
      | (_, Panic) \<Rightarrow> Panic)"

fun dedup :: "nat list \<Rightarrow> nat list" where
  "dedup (a # b # xs) = (if a = b then dedup (b # xs) else a # dedup (b # xs))"
| "dedup xs = xs"

definition move_items :: "item_tree \<Rightarrow> nat list \<Rightarrow> target_position \<Rightarrow> (move_error, item_tree) outcome" where
  "move_items items indices target =
     (if indices \<noteq> [] \<and> length items \<le> last indices then Err InvalidIndex
      else let is = dedup (rev (sort indices)) in
        and_then (move_items_loop items (tp_level target) is items [] (tp_before target))
          (\<lambda>(result, extracted, shifted_target).
             and_then (check_location result \<lparr>tp_before = shifted_target, tp_level = tp_level target\<rparr>)
               (\<lambda>_. let result' = take shifted_target result @ extracted @ drop shifted_target result
                  in if length items = length result' then Ok result' else Panic)))"

text \<open>
  \<open>move_item\<close> returns the tree it leaves, also on an error: an in-place shift that fails has already
  changed some nodes. \<open>this_level + 1\<close> and \<open>level + 1\<close> overflow \<^verbatim>\<open>u8\<close> at 255, which panics.
\<close>

definition in_place :: "item_tree \<times> (move_error, unit) outcome \<Rightarrow> nat \<Rightarrow> item_tree \<times> (move_error, nat) outcome" where
  "in_place r vidx = (fst r, and_then (snd r) (\<lambda>_. Ok vidx))"

definition by_moving :: "item_tree \<Rightarrow> (move_error, item_tree) outcome \<Rightarrow> nat \<Rightarrow> item_tree \<times> (move_error, nat) outcome" where
  "by_moving items r vidx = (case r of Ok items' \<Rightarrow> (items', Ok vidx) | Err e \<Rightarrow> (items, Err e) | Panic \<Rightarrow> (items, Panic))"

definition move_item_down :: "item_tree \<Rightarrow> (node \<Rightarrow> bool) \<Rightarrow> nat \<Rightarrow> nat \<Rightarrow> item_tree \<times> (move_error, nat) outcome" where
  "move_item_down items f idx vidx =
     (let this_level = level (items ! idx); end = subtree_end items idx in
      case get items end of
        None \<Rightarrow> in_place (shift_range items idx end (this_level - 1)) vidx
      | Some nd \<Rightarrow>
          if level nd < this_level then in_place (shift_range items idx end (this_level - 1)) vidx
          else if unfolded nd \<and> f nd then
            (if level nd = 255 then (items, Panic)
             else by_moving items (move_items items [idx] \<lparr>tp_before = end + 1, tp_level = level nd + 1\<rparr>) (vidx + 1))
          else by_moving items (move_items items [idx] \<lparr>tp_before = subtree_end items end, tp_level = this_level\<rparr>)
                 (vidx + 1))"

definition move_item_up :: "item_tree \<Rightarrow> (node \<Rightarrow> bool) \<Rightarrow> nat \<Rightarrow> nat \<Rightarrow> item_tree \<times> (move_error, nat) outcome" where
  "move_item_up items f idx vidx =
     (let this_level = level (items ! idx); end = subtree_end items idx in
      case visible_predecessor items idx of
        None \<Rightarrow> (items, Ok vidx)
      | Some node_idx \<Rightarrow>
          let nd = items ! node_idx in
          if (this_level \<le> level nd \<and> f nd \<and> unfolded nd) \<or> this_level < level nd then
            (if this_level = 255 then (items, Panic)
             else in_place (shift_range items idx end (this_level + 1)) vidx)
          else by_moving items (move_items items [idx] \<lparr>tp_before = node_idx, tp_level = level nd\<rparr>) (vidx - 1))"

definition move_item :: "item_tree \<Rightarrow> nat \<Rightarrow> move_dir \<Rightarrow> (node \<Rightarrow> bool) \<Rightarrow> item_tree \<times> (move_error, nat) outcome" where
  "move_item items vidx direction f = (case to_displayed items vidx of
     None \<Rightarrow> (items, Err InvalidIndex)
   | Some idx \<Rightarrow> (case direction of
       Down \<Rightarrow> move_item_down items f idx vidx
     | Up \<Rightarrow> move_item_up items f idx vidx))"

text \<open>The half-open range of levels for inserting above a visible item.\<close>

definition valid_levels_visible :: "item_tree \<Rightarrow> nat \<Rightarrow> (node \<Rightarrow> bool) \<Rightarrow> nat \<times> nat" where
  "valid_levels_visible items item f =
     (if item = 0 then (0, 1)
      else case take 2 (drop (item - 1) (iter_visible items)) of
        [] \<Rightarrow> (0, 1)
      | [l] \<Rightarrow> (0, saturating_add_u8 (level l) (1 + of_bool (f l \<and> unfolded l)))
      | pre # post # _ \<Rightarrow> (level post, saturating_add_u8 (level pre) (1 + of_bool (f pre \<and> unfolded pre))))"

subsection \<open>Folding and selection\<close>

definition map_range :: "nat \<Rightarrow> nat \<Rightarrow> ('a \<Rightarrow> 'a) \<Rightarrow> 'a list \<Rightarrow> 'a list" where
  "map_range a b g xs = take a xs @ map g (slice_range a b xs) @ drop b xs"

definition xfold :: "item_tree \<Rightarrow> nat \<Rightarrow> bool \<Rightarrow> (move_error, item_tree) outcome" where
  "xfold items item b =
     (if item < length items then
        let items' = items[item := (items ! item)\<lparr>unfolded := b\<rparr>]
        in Ok (if \<not> b then map_range item (subtree_end items' item) (\<lambda>x. x\<lparr>selected := False\<rparr>) items' else items')
      else Panic)"

definition xfold_all :: "item_tree \<Rightarrow> bool \<Rightarrow> item_tree" where
  "xfold_all items b =
     map (\<lambda>x. (x\<lparr>unfolded := b\<rparr>)\<lparr>selected := (if \<not> b \<and> 0 < level x then False else selected x)\<rparr>) items"

definition xfold_recursive :: "item_tree \<Rightarrow> nat \<Rightarrow> bool \<Rightarrow> (move_error, item_tree) outcome" where
  "xfold_recursive items item b =
     (if item < length items then
        let end = subtree_end items item; items' = items[item := (items ! item)\<lparr>unfolded := b\<rparr>]
        in Ok (map_range (item + 1) end
             (\<lambda>x. (x\<lparr>unfolded := b\<rparr>)\<lparr>selected := (if \<not> b then False else selected x)\<rparr>) items')
      else Panic)"

definition set_selected :: "bool \<Rightarrow> item_tree \<Rightarrow> nat \<Rightarrow> item_tree" where
  "set_selected b items idx = items[idx := (items ! idx)\<lparr>selected := b\<rparr>]"

definition xselect :: "item_tree \<Rightarrow> nat \<Rightarrow> bool \<Rightarrow> item_tree" where
  "xselect items vidx b = (case to_displayed items vidx of Some idx \<Rightarrow> set_selected b items idx | None \<Rightarrow> items)"

definition xselect_all_visible :: "item_tree \<Rightarrow> bool \<Rightarrow> item_tree" where
  "xselect_all_visible items b = foldl (set_selected b) items (visible_indices items)"

definition xselect_visible_range :: "item_tree \<Rightarrow> nat \<Rightarrow> nat \<Rightarrow> bool \<Rightarrow> item_tree" where
  "xselect_visible_range items from_v to_v b =
     (let (f, t) = (if from_v < to_v then (from_v, to_v + 1) else (to_v, from_v + 1))
      in foldl (set_selected b) items (take (t - f) (drop f (visible_indices items))))"

definition subtree_contains :: "item_tree \<Rightarrow> nat \<Rightarrow> nat \<Rightarrow> (move_error, bool) outcome" where
  "subtree_contains items root candidate =
     (if candidate < length items
      then Ok (root \<le> candidate \<and> candidate < subtree_end items candidate) else Panic)"

subsection \<open>Well-formed trees\<close>

text \<open>
  The documented invariant of the flat list: from a node to the next the level rises by at most one, and
  the first node is at level 0.
\<close>

fun levels_below :: "nat \<Rightarrow> node list \<Rightarrow> bool" where
  "levels_below b [] = True"
| "levels_below b (x # xs) \<longleftrightarrow> level x \<le> b \<and> levels_below (level x + 1) xs"

definition tree_ok :: "item_tree \<Rightarrow> bool" where
  "tree_ok items \<longleftrightarrow> levels_below 0 items \<and> (\<forall>x \<in> set items. level x \<le> 255)"

definition next_bound :: "nat \<Rightarrow> node list \<Rightarrow> nat" where
  "next_bound b xs = (if xs = [] then b else level (last xs) + 1)"

lemma next_bound_simps [simp]: "next_bound b [] = b" "next_bound b (x # xs) = next_bound (level x + 1) xs"
  "next_bound b (xs @ ys) = next_bound (next_bound b xs) ys"
  by (auto simp: next_bound_def)

lemma levels_below_append: "levels_below b (xs @ ys) \<longleftrightarrow> levels_below b xs \<and> levels_below (next_bound b xs) ys"
  by (induction xs arbitrary: b) auto

lemma levels_below_mono: "levels_below a xs \<Longrightarrow> a \<le> b \<Longrightarrow> levels_below b xs"
  by (cases xs) auto

lemma levels_below_lower: "levels_below b (x # xs) \<Longrightarrow> level x \<le> c \<Longrightarrow> levels_below c (x # xs)"
  by simp

lemma levels_below_shift:
  assumes "list_all2 (\<lambda>x y. int (level y) = int (level x) + c) xs ys" "int b' = int b + c"
  shows "levels_below b' ys \<longleftrightarrow> levels_below b xs"
  using assms
proof (induction xs ys arbitrary: b b' rule: list_all2_induct)
  case (Cons x xs y ys)
  from Cons.IH[of "level y + 1" "level x + 1"] Cons.hyps Cons.prems show ?case by auto
qed simp

subsection \<open>Subtrees\<close>

lemma subtree_end_takeWhile:
  assumes "i < length items"
  shows "subtree_end items i = i + 1 + length (takeWhile (\<lambda>x. level (items ! i) < level x) (drop (i + 1) items))"
proof -
  let ?P = "\<lambda>x. level (items ! i) < level x"
  have gen: "(case List.find (\<lambda>j. level (items ! j) \<le> level (items ! i)) [k..<length items] of Some j \<Rightarrow> j | None \<Rightarrow> length items)
      = k + length (takeWhile ?P (drop k items))" if "k \<le> length items" for k
    using that
  proof (induction "length items - k" arbitrary: k)
    case 0
    then show ?case by simp
  next
    case (Suc n)
    then have k: "k < length items" by simp
    then have d: "drop k items = items ! k # drop (Suc k) items" by (rule Cons_nth_drop_Suc[symmetric])
    from k have r: "[k..<length items] = k # [Suc k..<length items]" by (rule upt_conv_Cons)
    show ?case
    proof (cases "?P (items ! k)")
      case True
      with Suc.hyps(1)[of "Suc k"] Suc.hyps(2) k show ?thesis by (simp add: d r)
    next
      case False
      then show ?thesis by (simp add: d r)
    qed
  qed
  show ?thesis using gen[of "i + 1"] assms by (simp add: subtree_end_def Let_def)
qed

lemma subtree_deeper:
  assumes "i < length items" "i < j" "j < subtree_end items i"
  shows "level (items ! i) < level (items ! j)"
proof -
  let ?ys = "takeWhile (\<lambda>x. level (items ! i) < level x) (drop (i + 1) items)"
  have l: "j - (i + 1) < length ?ys" using assms subtree_end_takeWhile[OF assms(1)] by simp
  have "?ys ! (j - (i + 1)) \<in> set ?ys" by (rule nth_mem[OF l])
  moreover have "?ys ! (j - (i + 1)) = drop (i + 1) items ! (j - (i + 1))" by (rule takeWhile_nth[OF l])
  moreover have "drop (i + 1) items ! (j - (i + 1)) = items ! j" using assms subtree_end_bounds[OF assms(1)] by simp
  ultimately show ?thesis by (metis set_takeWhileD)
qed

lemma subtree_next:
  assumes "i < length items" "subtree_end items i < length items"
  shows "level (items ! subtree_end items i) \<le> level (items ! i)"
proof -
  let ?P = "\<lambda>x. level (items ! i) < level x"
  let ?n = "length (takeWhile ?P (drop (i + 1) items))"
  have "?n < length (drop (i + 1) items)" using assms subtree_end_takeWhile[OF assms(1)] by simp
  then have "\<not> ?P (drop (i + 1) items ! ?n)" by (rule nth_length_takeWhile)
  then show ?thesis using assms subtree_end_takeWhile[OF assms(1)] by (simp add: add.assoc)
qed

text \<open>The list around a subtree: what is before, the root, its descendants, what follows.\<close>

lemma subtree_split:
  assumes "i < length items"
  defines "e \<equiv> subtree_end items i"
  shows "items = take i items @ (items ! i # slice_range (i + 1) e items) @ drop e items"
    and "slice_range i e items = items ! i # slice_range (i + 1) e items"
    and "\<And>x. x \<in> set (slice_range (i + 1) e items) \<Longrightarrow> level (items ! i) < level x"
    and "drop e items \<noteq> [] \<Longrightarrow> level (hd (drop e items)) \<le> level (items ! i)"
proof -
  have e: "i < e" "e \<le> length items" using subtree_end_bounds[OF assms(1)] by (simp_all add: e_def)
  show s: "slice_range i e items = items ! i # slice_range (i + 1) e items"
  proof -
    have "drop i items = items ! i # drop (i + 1) items" using assms(1) by (simp add: Cons_nth_drop_Suc)
    moreover have "e - i = Suc (e - (i + 1))" using e by simp
    ultimately show ?thesis by (simp add: slice_range_def)
  qed
  show "items = take i items @ (items ! i # slice_range (i + 1) e items) @ drop e items"
    using slice_without_split[of i e items] e by (simp add: s)
  show "level (items ! i) < level x" if "x \<in> set (slice_range (i + 1) e items)" for x
    using that e subtree_deeper[OF assms(1)] by (auto simp: set_slice_nth e_def)
  show "drop e items \<noteq> [] \<Longrightarrow> level (hd (drop e items)) \<le> level (items ! i)"
    using subtree_next[OF assms(1)] by (simp add: e_def hd_drop_conv_nth)
qed

lemma subtree_end_unique:
  assumes "items = pre @ (x # sub) @ post" "\<And>y. y \<in> set sub \<Longrightarrow> level x < level y"
    "post \<noteq> [] \<Longrightarrow> level (hd post) \<le> level x"
  shows "subtree_end items (length pre) = length pre + 1 + length sub"
proof -
  have "takeWhile (\<lambda>y. level x < level y) (sub @ post) = sub"
    using assms(2,3) by (cases post) (auto simp: takeWhile_append)
  with assms(1) show ?thesis by (subst subtree_end_takeWhile) (simp_all add: nth_append)
qed

lemma subtree_nested:
  assumes "i < length items" "i < j" "j < subtree_end items i"
  shows "subtree_end items j \<le> subtree_end items i"
proof (rule ccontr)
  let ?e = "subtree_end items i"
  have j: "j < length items" using assms subtree_end_bounds[OF assms(1)] by simp
  assume "\<not> subtree_end items j \<le> ?e"
  then have e: "?e < subtree_end items j" by simp
  then have "?e < length items" using subtree_end_bounds(2)[OF j] by simp
  from subtree_next[OF assms(1) this] subtree_deeper[OF j assms(3) e] subtree_deeper[OF assms]
  show False by simp
qed

subsection \<open>Walks that skip subtrees\<close>

text \<open>
  Iteration over the visible nodes skips below folded nodes, draining skips what it removes; both are
  instances of \<open>prune\<close>, which keeps the nodes that no node with the property covers.
\<close>

function prune :: "bool \<Rightarrow> (node \<Rightarrow> bool) \<Rightarrow> item_tree \<Rightarrow> nat \<Rightarrow> nat list" where
  "prune keep P items idx =
     (if idx < length items then
        if P (items ! idx) then (if keep then [idx] else []) @ prune keep P items (subtree_end items idx)
        else idx # prune keep P items (idx + 1)
      else [])"
  by pat_completeness auto
termination
  by (relation "measure (\<lambda>(keep, P, items, idx). length items - idx)")
    (auto simp: subtree_end_bounds diff_less_mono2)

declare prune.simps [simp del]

definition covered :: "bool \<Rightarrow> (node \<Rightarrow> bool) \<Rightarrow> item_tree \<Rightarrow> nat \<Rightarrow> nat \<Rightarrow> bool" where
  "covered keep P items idx i \<longleftrightarrow>
     (\<exists>j. idx \<le> j \<and> (j < i \<or> j = i \<and> \<not> keep) \<and> P (items ! j) \<and> i < subtree_end items j)"

lemma prune_filter: "prune keep P items idx = filter (\<lambda>i. \<not> covered keep P items idx i) [idx..<length items]"
proof (induction keep P items idx rule: prune.induct)
  case (1 keep P items idx)
  show ?case
  proof (cases "idx < length items")
    case False
    then show ?thesis by (subst prune.simps) simp
  next
    case idx: True
    note e = subtree_end_bounds[OF idx]
    let ?e = "subtree_end items idx"
    show ?thesis
    proof (cases "P (items ! idx)")
      case True
      have split: "[idx..<length items] = idx # [idx + 1..<?e] @ [?e..<length items]"
        using idx e upt_conv_Cons[OF idx] upt_add_eq_append[of "idx + 1" ?e "length items - ?e"] by simp
      have root: "covered keep P items idx idx \<longleftrightarrow> \<not> keep"
        using True e by (auto simp: covered_def)
      have inside: "filter (\<lambda>i. \<not> covered keep P items idx i) [idx + 1..<?e] = []"
        using True by (auto simp: filter_empty_conv covered_def)
      have outside: "filter (\<lambda>i. \<not> covered keep P items idx i) [?e..<length items] =
          filter (\<lambda>i. \<not> covered keep P items ?e i) [?e..<length items]"
      proof (rule filter_cong[OF refl])
        fix i assume i: "i \<in> set [?e..<length items]"
        have "?e \<le> j" if "idx \<le> j" "j \<le> i" "i < subtree_end items j" for j
        proof (rule ccontr)
          assume "\<not> ?e \<le> j"
          then have "j = idx \<or> subtree_end items j \<le> ?e"
            using subtree_nested[OF idx, of j] \<open>idx \<le> j\<close> by (cases "j = idx") auto
          with that i show False by auto
        qed
        note inside = this
        have outer: "?e \<le> j \<Longrightarrow> idx \<le> j" for j using e by simp
        have "covered keep P items idx i \<longleftrightarrow> covered keep P items ?e i"
          unfolding covered_def
        proof (rule ex_cong1)
          show "(idx \<le> j \<and> (j < i \<or> j = i \<and> \<not> keep) \<and> P (items ! j) \<and> i < subtree_end items j) =
              (?e \<le> j \<and> (j < i \<or> j = i \<and> \<not> keep) \<and> P (items ! j) \<and> i < subtree_end items j)" for j
            using inside[of j] outer[of j] by auto
        qed
        then show "(\<not> covered keep P items idx i) = (\<not> covered keep P items ?e i)" by simp
      qed
      have "filter (\<lambda>i. \<not> covered keep P items idx i) [idx..<length items] =
          filter (\<lambda>i. \<not> covered keep P items idx i) [idx]
          @ filter (\<lambda>i. \<not> covered keep P items idx i) [idx + 1..<?e]
          @ filter (\<lambda>i. \<not> covered keep P items idx i) [?e..<length items]"
        unfolding split by simp
      also have "\<dots> = (if keep then [idx] else []) @ filter (\<lambda>i. \<not> covered keep P items ?e i) [?e..<length items]"
        unfolding inside outside using root by simp
      finally show ?thesis using 1(1)[OF idx True] True idx by (subst prune.simps) simp
    next
      case False
      have "filter (\<lambda>i. \<not> covered keep P items idx i) [idx + 1..<length items] =
          filter (\<lambda>i. \<not> covered keep P items (idx + 1) i) [idx + 1..<length items]"
      proof (rule filter_cong[OF refl])
        fix i assume "i \<in> set [idx + 1..<length items]"
        have "covered keep P items idx i \<longleftrightarrow> covered keep P items (idx + 1) i"
          unfolding covered_def using False by (metis Suc_eq_plus1 Suc_leD le_antisym not_less_eq_eq)
        then show "(\<not> covered keep P items idx i) = (\<not> covered keep P items (idx + 1) i)" by simp
      qed
      moreover have "\<not> covered keep P items idx idx" using False by (auto simp: covered_def)
      ultimately show ?thesis using 1(2)[OF idx False] False idx
        by (subst prune.simps) (simp add: upt_conv_Cons)
    qed
  qed
qed

lemma next_visible_folded:
  assumes "i < length items" "\<not> unfolded (items ! i)"
  shows "next_visible_item items i = subtree_end items i"
  using assms subtree_end_takeWhile[OF assms(1)] by (simp add: next_visible_item_def)

lemma visible_from_prune: "visible_from items idx = prune True (\<lambda>x. \<not> unfolded x) items idx"
proof (induction items idx rule: visible_from.induct)
  case (1 items idx)
  show ?case
  proof (cases "idx < length items")
    case True
    then have n: "next_visible_item items idx = (if unfolded (items ! idx) then idx + 1 else subtree_end items idx)"
      using next_visible_folded by (auto simp: next_visible_item_def)
    from True 1 show ?thesis by (subst visible_from.simps, subst prune.simps) (auto simp: n)
  next
    case False
    then show ?thesis by (subst visible_from.simps, subst prune.simps) simp
  qed
qed

lemma subtree_end_suffix:
  assumes "idx < length items"
  shows "subtree_end (pre @ drop idx items) (length pre) = length pre + (subtree_end items idx - idx)"
proof -
  let ?P = "\<lambda>x. level (items ! idx) < level x"
  have "length pre < length (pre @ drop idx items)" using assms by simp
  moreover have "(pre @ drop idx items) ! length pre = items ! idx" using assms by (simp add: nth_append)
  moreover have "drop (length pre + 1) (pre @ drop idx items) = drop (idx + 1) items" by simp
  ultimately show ?thesis
    using subtree_end_takeWhile[of "length pre" "pre @ drop idx items"] subtree_end_takeWhile[OF assms] by simp
qed

lemma drain_from_prune:
  "snd (drain_from f (pre @ drop idx items) (length pre) removed) = pre @ map (nth items) (prune False f items idx)"
proof (induction "False" f items idx arbitrary: pre removed rule: prune.induct)
  case (1 f items idx)
  let ?xs = "pre @ drop idx items"
  show ?case
  proof (cases "idx < length items")
    case False
    then show ?thesis by (subst drain_from.simps, subst prune.simps) simp
  next
    case idx: True
    then have len: "length pre < length ?xs" and at: "?xs ! length pre = items ! idx" by (simp_all add: nth_append)
    note e = subtree_end_bounds[OF idx]
    show ?thesis
    proof (cases "f (items ! idx)")
      case True
      have "without (length pre) (subtree_end ?xs (length pre)) ?xs = pre @ drop (subtree_end items idx) items"
        using e by (simp add: without_def subtree_end_suffix[OF idx])
      with True len at idx show ?thesis
        using "1.hyps"(1)[OF idx True, of pre] by (subst drain_from.simps, subst prune.simps) (simp add: Let_def)
    next
      case False
      have "?xs = (pre @ [items ! idx]) @ drop (idx + 1) items" using idx by (simp add: Cons_nth_drop_Suc)
      with False len at idx show ?thesis
        using "1.hyps"(2)[OF idx False, of "pre @ [items ! idx]"] by (subst drain_from.simps, subst prune.simps) simp
    qed
  qed
qed

lemma drain_from_mset:
  "mset (fst (drain_from f items idx removed)) + mset (map item_ref (snd (drain_from f items idx removed)))
    = mset removed + mset (map item_ref items)"
proof (induction f items idx removed rule: drain_from.induct)
  case (1 f items idx removed)
  show ?case
  proof (cases "idx < length items \<and> f (items ! idx)")
    case True
    let ?e = "subtree_end items idx"
    have "mset (slice_range idx ?e items) + mset (without idx ?e items) = mset items"
      using True subtree_end_bounds[of idx items] by (intro mset_slice_without) auto
    then have "mset (map item_ref (slice_range idx ?e items)) + mset (map item_ref (without idx ?e items))
        = mset (map item_ref items)"
      by (metis image_mset_union mset_map)
    with 1(1) True show ?thesis by (subst (1 2) drain_from.simps) (simp add: Let_def ac_simps)
  next
    case False
    then show ?thesis using 1(2) by (subst (1 2) drain_from.simps) auto
  qed
qed

subsection \<open>Removal and insertion keep the tree well formed\<close>

lemma tree_ok_parts:
  assumes "tree_ok items" "i < length items"
  shows "levels_below 0 (take i items)" "level (items ! i) \<le> next_bound 0 (take i items)"
    and "levels_below (level (items ! i) + 1) (slice_range (i + 1) (subtree_end items i) items)"
    and "levels_below (level (items ! i)) (drop (subtree_end items i) items)"
proof -
  have l: "levels_below 0 (take i items @ (items ! i # slice_range (i + 1) (subtree_end items i) items)
      @ drop (subtree_end items i) items)"
    using assms subtree_split(1)[OF assms(2)] by (simp add: tree_ok_def)
  then show "levels_below 0 (take i items)" "level (items ! i) \<le> next_bound 0 (take i items)"
    "levels_below (level (items ! i) + 1) (slice_range (i + 1) (subtree_end items i) items)"
    by (simp_all add: levels_below_append)
  show "levels_below (level (items ! i)) (drop (subtree_end items i) items)"
    using l subtree_split(4)[OF assms(2)]
    by (cases "drop (subtree_end items i) items") (auto simp: levels_below_append)
qed

lemma tree_ok_without_subtree:
  assumes "tree_ok items" "i < length items"
  shows "tree_ok (take i items @ drop (subtree_end items i) items)"
  using assms(1) tree_ok_parts[OF assms] levels_below_mono
  by (auto simp: tree_ok_def levels_below_append dest: in_set_takeD in_set_dropD)

definition admissible :: "item_tree \<Rightarrow> nat \<Rightarrow> nat \<Rightarrow> bool" where
  "admissible items p l \<longleftrightarrow> p \<le> length items \<and> l \<le> 255 \<and> l \<le> next_bound 0 (take p items)
     \<and> (p < length items \<longrightarrow> level (items ! p) \<le> l)"

lemma next_bound_take: "0 < p \<Longrightarrow> p \<le> length items \<Longrightarrow> next_bound b (take p items) = level (items ! (p - 1)) + 1"
  by (auto simp: next_bound_def last_conv_nth)

lemma tree_ok_step:
  assumes "tree_ok items" "p < length items"
  shows "level (items ! p) \<le> next_bound 0 (take p items)"
  using tree_ok_parts(2)[OF assms] .

lemma check_location_iff:
  assumes "tree_ok items" "tp_before pos \<le> length items"
  shows "check_location items pos =
    (if admissible items (tp_before pos) (tp_level pos) then Ok () else Err InvalidLevel)"
proof -
  let ?p = "tp_before pos"
  have lim: "level x \<le> 255" if "x \<in> set items" for x using assms(1) that by (simp add: tree_ok_def)
  show ?thesis
  proof (cases "?p = 0")
    case True
    have "level (items ! 0) = 0" if "items \<noteq> []"
      using tree_ok_step[OF assms(1), of 0] that by simp
    with True assms(2) show ?thesis
      by (auto simp: check_location_def valid_levels_def admissible_def get_def Let_def)
  next
    case p: False
    then have b: "next_bound 0 (take ?p items) = level (items ! (?p - 1)) + 1" "?p - 1 < length items"
      using assms(2) next_bound_take[of ?p items 0] by simp_all
    show ?thesis
    proof (cases "?p < length items")
      case True
      with b lim[of "items ! ?p"] lim[of "items ! (?p - 1)"] tree_ok_step[OF assms(1) True] p show ?thesis
        by (auto simp: check_location_def valid_levels_def admissible_def get_def Let_def saturating_add_u8_def)
    next
      case False
      with b lim[of "items ! (?p - 1)"] p assms(2) show ?thesis
        by (auto simp: check_location_def valid_levels_def admissible_def get_def Let_def saturating_add_u8_def)
    qed
  qed
qed

text \<open>A block at an admissible place: its first node at the place's level, the others not above it.\<close>

lemma tree_ok_insert_block:
  assumes "tree_ok items" "admissible items p l" "levels_below l b" "\<forall>x \<in> set b. l \<le> level x \<and> level x \<le> 255"
  shows "tree_ok (take p items @ b @ drop p items)"
proof (cases "b = []")
  case True
  with assms(1) show ?thesis by simp
next
  case False
  have l: "levels_below 0 (take p items)" "levels_below (next_bound 0 (take p items)) (drop p items)"
    using assms(1) levels_below_append[of 0 "take p items" "drop p items"] by (simp_all add: tree_ok_def)
  have "levels_below (next_bound 0 (take p items)) b"
    using assms(2,3) levels_below_mono by (auto simp: admissible_def)
  moreover have "levels_below (next_bound (next_bound 0 (take p items)) b) (drop p items)"
  proof (cases "drop p items")
    case (Cons y ys)
    then have "p < length items" "y = items ! p" by (auto simp: nth_via_drop) (metis drop_all leI list.distinct(1))
    with assms(2) have "level y \<le> l" by (simp add: admissible_def)
    moreover have "l \<le> level (last b)" using assms(4) False by simp
    ultimately show ?thesis using l(2) False Cons by (simp add: next_bound_def)
  qed simp
  ultimately show ?thesis
    using assms(1,4) l(1) by (auto simp: tree_ok_def levels_below_append dest: in_set_takeD in_set_dropD)
qed

subsection \<open>Shifting\<close>

definition node_key :: "node \<Rightarrow> nat \<times> bool \<times> bool" where
  "node_key x = (item_ref x, unfolded x, selected x)"

definition shifted :: "int \<Rightarrow> node \<Rightarrow> node" where
  "shifted c x = x\<lparr>level := nat (int (level x) + c)\<rparr>"

lemma node_key_shifted [simp]: "node_key (shifted c x) = node_key x"
  by (simp add: node_key_def shifted_def)

lemma shift_levels_Ok:
  "shift_levels c xs = (ys, Ok ()) \<longleftrightarrow>
     ys = map (shifted c) xs \<and> (\<forall>x \<in> set xs. 0 \<le> int (level x) + c \<and> int (level x) + c \<le> 255)"
proof (induction xs arbitrary: ys)
  case Nil
  then show ?case by auto
next
  case (Cons x xs)
  obtain zs r where r: "shift_levels c xs = (zs, r)" by (cases "shift_levels c xs")
  show ?case
  proof (cases "0 \<le> int (level x) + c \<and> int (level x) + c \<le> 255")
    case True
    then have "shift_levels c (x # xs) = (shifted c x # zs, r)" by (simp add: r shifted_def Let_def)
    with Cons.IH[of zs] Cons.IH[of "map (shifted c) xs"] True show ?thesis by (auto simp: r)
  qed (auto simp: Let_def)
qed

lemma shift_levels_cases: "snd (shift_levels c xs) = Ok () \<or> snd (shift_levels c xs) = Err InvalidLevel"
  by (induction xs) (auto simp: Let_def split: prod.splits)

lemma shift_subtree_Ok:
  assumes "shift_subtree_to_level xs l = (ys, Ok ())"
  shows "map node_key ys = map node_key xs" "length ys = length xs"
    and "xs \<noteq> [] \<Longrightarrow> ys = map (shifted (int l - int (level (hd xs)))) xs"
    and "\<forall>x \<in> set ys. level x \<le> 255"
proof -
  have "ys = map (shifted (int l - int (level (hd xs)))) xs \<and>
      (\<forall>x \<in> set xs. 0 \<le> int (level x) + (int l - int (level (hd xs))) \<and> int (level x) + (int l - int (level (hd xs))) \<le> 255)"
    if "xs \<noteq> []"
  proof -
    have "shift_levels (int l - int (level (hd xs))) xs = (ys, Ok ())"
      using assms that by (cases xs) (simp_all add: shift_subtree_to_level_def del: shift_levels.simps)
    then show ?thesis unfolding shift_levels_Ok .
  qed
  note nonempty = this
  have empty: "ys = []" if "xs = []" using assms that by (simp add: shift_subtree_to_level_def)
  show "map node_key ys = map node_key xs" "length ys = length xs"
    using nonempty empty by (cases "xs = []"; simp add: comp_def)+
  show "xs \<noteq> [] \<Longrightarrow> ys = map (shifted (int l - int (level (hd xs)))) xs" using nonempty by simp
  show "\<forall>x \<in> set ys. level x \<le> 255"
    using nonempty empty by (cases "xs = []") (auto simp: shifted_def)
qed

lemma shift_subtree_succeeds:
  assumes "\<forall>x \<in> set xs. level (hd xs) \<le> level x \<and> int (level x) + (int l - int (level (hd xs))) \<le> 255"
  shows "\<exists>ys. shift_subtree_to_level xs l = (ys, Ok ())"
proof (cases xs)
  case (Cons x xs')
  then have "\<forall>y \<in> set xs. 0 \<le> int (level y) + (int l - int (level x)) \<and> int (level y) + (int l - int (level x)) \<le> 255"
    using assms by auto
  with shift_levels_Ok[of "int l - int (level x)" xs] show ?thesis
    by (auto simp: shift_subtree_to_level_def Cons)
qed (simp add: shift_subtree_to_level_def)

text \<open>A subtree moved to a level is a block for that level.\<close>

lemma shifted_subtree_block:
  assumes "tree_ok items" "i < length items"
    and "shift_subtree_to_level (slice_range i (subtree_end items i) items) l = (ys, Ok ())"
  shows "levels_below l ys" "\<forall>x \<in> set ys. l \<le> level x \<and> level x \<le> 255" "ys \<noteq> []" "level (hd ys) = l"
proof -
  note sp = subtree_split[OF assms(2)]
  let ?xs = "slice_range i (subtree_end items i) items" and ?c = "int l - int (level (items ! i))"
  have ys: "ys = map (shifted ?c) ?xs" using shift_subtree_Ok(3)[OF assms(3)] by (simp add: sp(2))
  have ge: "level (items ! i) \<le> level x" if "x \<in> set ?xs" for x
    using that sp(3) by (fastforce simp: sp(2))
  have sh: "int (level (shifted ?c x)) = int (level x) + ?c" if "x \<in> set ?xs" for x
    using ge[OF that] by (simp add: shifted_def)
  have "list_all2 (\<lambda>x y. int (level y) = int (level x) + ?c) ?xs ys"
    unfolding ys using sh by (auto simp: list_all2_conv_all_nth)
  from levels_below_shift[OF this, of l "level (items ! i)"]
  show "levels_below l ys" using tree_ok_parts(3)[OF assms(1,2)] by (simp add: sp(2))
  show "\<forall>x \<in> set ys. l \<le> level x \<and> level x \<le> 255"
  proof
    fix y assume y: "y \<in> set ys"
    then obtain x where x: "x \<in> set ?xs" "y = shifted ?c x" by (auto simp: ys)
    with sh[OF x(1)] ge[OF x(1)] shift_subtree_Ok(4)[OF assms(3)] y show "l \<le> level y \<and> level y \<le> 255" by auto
  qed
  show "ys \<noteq> []" "level (hd ys) = l" unfolding ys by (simp_all add: sp(2) shifted_def)
qed

lemma levels_below_blocks:
  assumes "levels_below l xs" "levels_below l ys" "\<forall>x \<in> set xs. l \<le> level x"
  shows "levels_below l (xs @ ys)"
proof (cases "xs = []")
  case False
  then have "l \<le> level (last xs) + 1" using assms(3) by (simp add: le_SucI)
  with assms(1) levels_below_mono[OF assms(2)] False show ?thesis
    by (simp add: levels_below_append next_bound_def)
qed (use assms in simp)

subsection \<open>Moving several subtrees\<close>

text \<open>Indices from the back, each subtree ending before the one taken before it.\<close>

fun from_back :: "item_tree \<Rightarrow> nat \<Rightarrow> nat list \<Rightarrow> bool" where
  "from_back items k [] \<longleftrightarrow> True"
| "from_back items k (s # ss) \<longleftrightarrow> s < length items \<and> subtree_end items s \<le> k \<and> from_back items s ss"

definition cut_at :: "item_tree \<Rightarrow> nat \<Rightarrow> item_tree \<Rightarrow> bool" where
  "cut_at items k rest \<longleftrightarrow> k \<le> length items \<and> tree_ok (take k items @ rest) \<and>
     (rest \<noteq> [] \<longrightarrow> k < length items \<and> level (hd rest) \<le> level (items ! k))"

lemma move_items_loop_keeps:
  assumes "tree_ok items" "from_back items k ss" "cut_at items k rest"
    and "levels_below l extracted" "\<forall>x \<in> set extracted. l \<le> level x \<and> level x \<le> 255"
    and "mset (map node_key (take k items @ rest)) + mset (map node_key extracted) = mset (map node_key items)"
    and "move_items_loop items l ss (take k items @ rest) extracted tgt = Ok (result, block, tgt')"
  shows "tree_ok result \<and> levels_below l block \<and> (\<forall>x \<in> set block. l \<le> level x \<and> level x \<le> 255) \<and>
    mset (map node_key result) + mset (map node_key block) = mset (map node_key items)"
  using assms(2-)
proof (induction ss arbitrary: k rest extracted tgt)
  case Nil
  then have "result = take k items @ rest" "block = extracted" by simp_all
  with Nil show ?case by (simp add: cut_at_def)
next
  case (Cons s ss)
  let ?e = "subtree_end items s" and ?r = "take k items @ rest"
  from Cons.prems(1) have s: "s < length items" "?e \<le> k" "from_back items s ss" by simp_all
  from Cons.prems(2) have k: "k \<le> length items" by (simp add: cut_at_def)
  note e = subtree_end_bounds[OF s(1)]
  have slice: "slice_range s ?e ?r = slice_range s ?e items"
    using s k e by (simp add: slice_range_def take_drop min_def)
  have len: "\<not> length ?r < ?e" using s k by simp
  obtain nodes r where nodes: "shift_subtree_to_level (slice_range s ?e items) l = (nodes, r)" by fastforce
  with Cons.prems(6) s len slice have r: "r = Ok ()" and
    loop: "\<exists>tgt2. move_items_loop items l ss (without s ?e ?r) (nodes @ extracted) tgt2 = Ok (result, block, tgt')"
    by (auto simp: Let_def split: if_splits outcome.splits)
  note blk = shifted_subtree_block[OF assms(1) s(1) nodes[unfolded r]]
  have wo: "without s ?e ?r = take s items @ drop ?e (take k items) @ rest"
    using s k e by (simp add: without_def min_def)
  let ?rest' = "drop ?e (take k items) @ rest"
  have hd_rest: "level (hd ?rest') \<le> level (items ! s)" if "?rest' \<noteq> []"
  proof (cases "?e < k")
    case True
    then have "hd ?rest' = items ! ?e" using k by (simp add: hd_append hd_drop_conv_nth)
    with subtree_next[OF s(1)] True k show ?thesis by simp
  next
    case False
    with s have "?e = k" by simp
    with that Cons.prems(2) subtree_next[OF s(1)] show ?thesis by (auto simp: cut_at_def)
  qed
  have split: "?r = take s items @ slice_range s ?e items @ ?rest'"
  proof -
    have "take s ?r = take s items" "drop ?e ?r = ?rest'" using s k e by (simp_all add: min_def)
    with slice_without_split[of s ?e ?r] s k e slice show ?thesis by simp
  qed
  have "tree_ok (take s items @ ?rest')"
  proof -
    have ok: "tree_ok (take s items @ slice_range s ?e items @ ?rest')"
      using Cons.prems(2) unfolding cut_at_def split by simp
    have "levels_below (next_bound 0 (take s items)) ?rest'"
    proof (cases ?rest')
      case (Cons y ys)
      with hd_rest have "level y \<le> level (items ! s)" by simp
      also have "\<dots> \<le> next_bound 0 (take s items)" using tree_ok_step[OF assms(1) s(1)] .
      finally show ?thesis using ok Cons by (auto simp: tree_ok_def levels_below_append)
    qed simp
    with ok show ?thesis by (auto simp: tree_ok_def levels_below_append)
  qed
  with s(1) hd_rest have cut: "cut_at items s ?rest'" by (simp add: cut_at_def)
  have keys: "mset (map node_key (take s items @ ?rest')) + mset (map node_key (nodes @ extracted)) = mset (map node_key items)"
  proof -
    have "map node_key ?r = map node_key (take s items) @ map node_key nodes @ map node_key ?rest'"
      unfolding split shift_subtree_Ok(1)[OF nodes[unfolded r]] by simp
    from arg_cong[OF this, of mset] Cons.prems(5) show ?thesis by (simp only: map_append mset_append ac_simps)
  qed
  from loop obtain tgt2 where
    loop2: "move_items_loop items l ss (take s items @ ?rest') (nodes @ extracted) tgt2 = Ok (result, block, tgt')"
    unfolding wo by blast
  show ?case
    by (rule Cons.IH[OF s(3) cut _ _ keys loop2])
      (use blk(1,2) Cons.prems(3,4) in \<open>auto intro: levels_below_blocks\<close>)
qed

lemma dedup_set [simp]: "set (dedup xs) = set xs"
  by (induction xs rule: dedup.induct) auto

lemma dedup_strict: "sorted_wrt (\<ge>) xs \<Longrightarrow> sorted_wrt (>) (dedup xs)"
proof (induction xs rule: dedup.induct)
  case (1 a b xs)
  show ?case
  proof (cases "a = b")
    case True
    with 1 show ?thesis by simp
  next
    case False
    with 1(3) have "\<forall>y \<in> set (b # xs). y < a" by (auto simp: order.strict_iff_order)
    then show ?thesis using False 1 by simp
  qed
qed simp_all

definition independent :: "item_tree \<Rightarrow> nat list \<Rightarrow> bool" where
  "independent items is \<longleftrightarrow> (\<forall>i \<in> set is. i < length items) \<and>
     (\<forall>i \<in> set is. \<forall>j \<in> set is. i < j \<longrightarrow> subtree_end items i \<le> j)"

lemma from_back_independent:
  assumes "sorted_wrt (>) ss" "\<forall>s \<in> set ss. s < length items" "\<forall>s \<in> set ss. subtree_end items s \<le> k"
    and "\<forall>i \<in> set ss. \<forall>j \<in> set ss. i < j \<longrightarrow> subtree_end items i \<le> j"
  shows "from_back items k ss"
  using assms by (induction ss arbitrary: k) auto

lemma move_order: "independent items is \<Longrightarrow> from_back items (length items) (dedup (rev (sort is)))"
proof (rule from_back_independent)
  show "sorted_wrt (>) (dedup (rev (sort is)))"
    by (rule dedup_strict) (simp add: sorted_wrt_rev)
qed (auto simp: independent_def subtree_end_bounds)

lemma cut_at_end: "tree_ok items \<Longrightarrow> cut_at items (length items) []"
  by (simp add: cut_at_def)

lemma move_items_keeps:
  assumes "tree_ok items" "independent items is" "move_items items is target = Ok items'"
  shows "tree_ok items' \<and> mset (map node_key items') = mset (map node_key items)"
proof -
  obtain result block tgt' where loop: "move_items_loop items (tp_level target) (dedup (rev (sort is))) items [] (tp_before target)
      = Ok (result, block, tgt')"
    and chk: "check_location result \<lparr>tp_before = tgt', tp_level = tp_level target\<rparr> = Ok ()"
    and items': "items' = take tgt' result @ block @ drop tgt' result"
    using assms(3) by (auto simp: move_items_def outcome_simps Let_def split: if_splits)
  have "tree_ok result \<and> levels_below (tp_level target) block \<and>
      (\<forall>x \<in> set block. tp_level target \<le> level x \<and> level x \<le> 255) \<and>
      mset (map node_key result) + mset (map node_key block) = mset (map node_key items)"
    by (rule move_items_loop_keeps[OF assms(1) move_order[OF assms(2)] cut_at_end[OF assms(1)] _ _ _, of _ "[]"])
      (use loop in auto)
  moreover from this have "admissible result tgt' (tp_level target)"
    using chk check_location_iff[of result "\<lparr>tp_before = tgt', tp_level = tp_level target\<rparr>"]
    by (cases "tgt' \<le> length result") (auto simp: check_location_def split: if_splits)
  moreover have "mset (map node_key items') = mset (map node_key result) + mset (map node_key block)"
  proof -
    have "mset (map node_key (take tgt' result)) + mset (map node_key (drop tgt' result)) = mset (map node_key result)"
      by (metis append_take_drop_id map_append mset_append)
    then show ?thesis unfolding items' by (simp only: map_append mset_append ac_simps)
  qed
  ultimately show ?thesis unfolding items' by (simp add: tree_ok_insert_block)
qed

subsection \<open>Where moved subtrees end up\<close>

text \<open>The nodes of a range that are in none of the subtrees, and a subtree shifted so that its root is at a level.\<close>

definition unmoved :: "item_tree \<Rightarrow> nat list \<Rightarrow> nat list \<Rightarrow> node list" where
  "unmoved items is js = map ((!) items) (filter (\<lambda>j. \<not> list_ex (\<lambda>i. i \<le> j \<and> j < subtree_end items i) is) js)"

definition moved_subtree :: "item_tree \<Rightarrow> nat \<Rightarrow> nat \<Rightarrow> node list" where
  "moved_subtree items l i = map (shifted (int l - int (level (items ! i)))) (slice_range i (subtree_end items i) items)"

lemma unmoved_append [simp]: "unmoved items is (js @ ks) = unmoved items is js @ unmoved items is ks"
  by (simp add: unmoved_def)

lemma upt_split: "i \<le> j \<Longrightarrow> j \<le> k \<Longrightarrow> [i..<k] = [i..<j] @ [j..<k]"
  using upt_add_eq_append[of i j "k - j"] by simp

lemma unmoved_none: "n \<le> length items \<Longrightarrow> m \<le> n \<Longrightarrow> unmoved items [] [m..<n] = drop m (take n items)"
  by (rule nth_equalityI) (simp_all add: unmoved_def)

lemma from_back_ends: "from_back items k ss \<Longrightarrow> s \<in> set ss \<Longrightarrow> s < length items \<and> subtree_end items s \<le> k"
proof (induction ss arbitrary: k)
  case (Cons x ss)
  from Cons.prems have x: "x < length items" "subtree_end items x \<le> k" "from_back items x ss" by simp_all
  with Cons.IH[OF x(3)] Cons.prems(2) subtree_end_bounds(1)[OF x(1)] show ?case by auto
qed simp

lemma unmoved_step:
  assumes "from_back items k (s # ss)"
  shows "m \<le> s \<Longrightarrow> unmoved items (s # ss) [0..<m] = unmoved items ss [0..<m]"
    and "subtree_end items s \<le> m \<Longrightarrow> m \<le> length items \<Longrightarrow>
      unmoved items (s # ss) [0..<m] = unmoved items ss [0..<s] @ drop (subtree_end items s) (take m items)"
proof -
  from assms have s: "s < length items" "subtree_end items s \<le> k" "from_back items s ss" by simp_all
  let ?e = "subtree_end items s"
  note e = subtree_end_bounds[OF s(1)]
  show low: "unmoved items (s # ss) [0..<m] = unmoved items ss [0..<m]" if "m \<le> s" for m
  proof -
    have "filter (\<lambda>j. \<not> list_ex (\<lambda>i. i \<le> j \<and> j < subtree_end items i) (s # ss)) [0..<m]
        = filter (\<lambda>j. \<not> list_ex (\<lambda>i. i \<le> j \<and> j < subtree_end items i) ss) [0..<m]"
      using that by (intro filter_cong) auto
    then show ?thesis by (simp only: unmoved_def)
  qed
  assume m: "?e \<le> m" "m \<le> length items"
  have split: "[0..<m] = [0..<s] @ [s..<?e] @ [?e..<m]" using e m(1) upt_split[of 0 s m] upt_split[of s ?e m] by simp
  have mid: "unmoved items (s # ss) [s..<?e] = []" by (auto simp: unmoved_def filter_empty_conv)
  have "filter (\<lambda>j. \<not> list_ex (\<lambda>i. i \<le> j \<and> j < subtree_end items i) (s # ss)) [?e..<m] = [?e..<m]"
  proof (rule filter_True, rule ballI)
    fix j assume "j \<in> set [?e..<m]"
    then have "?e \<le> j" by simp
    then have "\<not> (i \<le> j \<and> j < subtree_end items i)" if "i \<in> set (s # ss)" for i
      using from_back_ends[OF s(3), of i] that e(1) by auto
    then show "\<not> list_ex (\<lambda>i. i \<le> j \<and> j < subtree_end items i) (s # ss)" by (auto simp: list_ex_iff)
  qed
  then have "unmoved items (s # ss) [?e..<m] = drop ?e (take m items)"
    using unmoved_none[OF m(2,1)] by (simp add: unmoved_def)
  then show "unmoved items (s # ss) [0..<m] = unmoved items ss [0..<s] @ drop ?e (take m items)"
    unfolding split unmoved_append mid low[OF order.refl] by simp
qed

lemma move_items_loop_places:
  assumes "from_back items k ss" "k \<le> length items"
    and "move_items_loop items l ss (take k items @ rest) extracted tgt = Ok (result, block, tgt')"
  shows "block = concat (map (moved_subtree items l) (rev ss)) @ extracted
    \<and> result = unmoved items ss [0..<k] @ rest
    \<and> take tgt' result = unmoved items ss [0..<min tgt k] @ take (tgt - k) rest"
  using assms
proof (induction ss arbitrary: k rest extracted tgt)
  case Nil
  then have out: "result = take k items @ rest" "block = extracted" "tgt' = tgt" and k: "k \<le> length items" by simp_all
  from k have "unmoved items [] [0..<k] = take k items" "unmoved items [] [0..<min tgt k] = take (min tgt k) items"
    using unmoved_none[of k items 0] unmoved_none[of "min tgt k" items 0] by simp_all
  with k show ?case unfolding out by (simp add: min_def)
next
  case (Cons s ss)
  let ?e = "subtree_end items s" and ?r = "take k items @ rest"
  from Cons.prems(1) have s: "s < length items" "?e \<le> k" "from_back items s ss" by simp_all
  note e = subtree_end_bounds[OF s(1)] and k = Cons.prems(2)
  have slice: "slice_range s ?e ?r = slice_range s ?e items" using s k e by (simp add: slice_range_def take_drop min_def)
  have ne: "slice_range s ?e items \<noteq> []" "hd (slice_range s ?e items) = items ! s"
    using e by (auto simp: slice_range_def hd_drop_conv_nth)
  obtain nodes r where nodes: "shift_subtree_to_level (slice_range s ?e items) l = (nodes, r)" by fastforce
  define tgt2 where "tgt2 = (if s < tgt then tgt - (?e - s) else tgt)"
  have len: "\<not> length ?r < ?e" using s k by simp
  from Cons.prems(3) s(1) len slice nodes have r: "r = Ok ()" and out: "\<not> (s + 1 \<le> tgt \<and> tgt < ?e)"
    and loop: "move_items_loop items l ss (without s ?e ?r) (nodes @ extracted) tgt2 = Ok (result, block, tgt')"
    by (auto simp: Let_def tgt2_def split: if_splits outcome.splits)
  have blk: "nodes = moved_subtree items l s"
    using shift_subtree_Ok(3)[OF nodes[unfolded r] ne(1)] by (simp add: moved_subtree_def ne(2))
  have wo: "without s ?e ?r = take s items @ drop ?e (take k items) @ rest" using s k e by (simp add: without_def min_def)
  note IH = Cons.IH[OF s(3) less_imp_le[OF s(1)] loop[unfolded wo]]
  have IH: "block = concat (map (moved_subtree items l) (rev ss)) @ nodes @ extracted"
    "result = unmoved items ss [0..<s] @ drop ?e (take k items) @ rest"
    "take tgt' result = unmoved items ss [0..<min tgt2 s] @ take (tgt2 - s) (drop ?e (take k items) @ rest)" using IH by blast+
  have "take tgt' result = unmoved items (s # ss) [0..<min tgt k] @ take (tgt - k) rest"
  proof (cases "tgt \<le> s")
    case True
    then have "tgt2 = tgt" "min tgt s = tgt" "tgt - s = 0" "min tgt k = tgt" "tgt - k = 0" using e(1) s(2) by (simp_all add: tgt2_def)
    then show ?thesis using IH(3) unmoved_step(1)[OF Cons.prems(1) True] by simp
  next
    case False
    with out have t: "?e \<le> tgt" by simp
    have 2: "tgt2 - s = tgt - ?e" "min tgt2 s = s" using t False e(1) by (simp_all add: tgt2_def)
    have "take (tgt - ?e) (drop ?e (take k items) @ rest) = drop ?e (take (min tgt k) items) @ take (tgt - k) rest"
      using t s(2) k by (cases "tgt \<le> k") (simp_all add: take_drop min_def)
    then show ?thesis using IH(3) unmoved_step(2)[OF Cons.prems(1), of "min tgt k"] t s(2) k by (simp add: 2)
  qed
  then show ?case using IH(1,2) unmoved_step(2)[OF Cons.prems(1) s(2) k] blk by simp
qed

lemma dedup_ascending: "rev (dedup (rev (sort is))) = sorted_list_of_set (set is)"
proof -
  have "sorted_wrt (>) (dedup (rev (sort is)))" by (rule dedup_strict) (simp add: sorted_wrt_rev)
  then have "sorted_wrt (<) (rev (dedup (rev (sort is))))" by (simp add: sorted_wrt_rev)
  then have "sorted (rev (dedup (rev (sort is)))) \<and> distinct (rev (dedup (rev (sort is))))" by (simp only: strict_sorted_iff)
  then show ?thesis using sorted_list_of_set.idem_if_sorted_distinct[of "rev (dedup (rev (sort is)))"] by simp
qed

lemma move_items_places:
  assumes "independent items is" "move_items items is target = Ok items'"
  shows "items' = unmoved items is [0..<min (tp_before target) (length items)]
    @ concat (map (moved_subtree items (tp_level target)) (sorted_list_of_set (set is)))
    @ unmoved items is [min (tp_before target) (length items)..<length items]"
proof -
  let ?ss = "dedup (rev (sort is))" and ?t = "tp_before target" and ?n = "length items"
  obtain result block tgt' where loop: "move_items_loop items (tp_level target) ?ss items [] ?t = Ok (result, block, tgt')"
    and items': "items' = take tgt' result @ block @ drop tgt' result"
    using assms(2) by (auto simp: move_items_def outcome_simps Let_def split: if_splits)
  have same: "unmoved items ?ss js = unmoved items is js" for js by (simp add: unmoved_def list_ex_iff)
  have loop': "move_items_loop items (tp_level target) ?ss (take ?n items @ []) [] ?t = Ok (result, block, tgt')" using loop by simp
  note places = move_items_loop_places[OF move_order[OF assms(1)] order.refl loop', unfolded same dedup_ascending append_Nil2]
  then have block: "block = concat (map (moved_subtree items (tp_level target)) (sorted_list_of_set (set is)))" by blast
  from places have result: "result = unmoved items is [0..<?n]" by blast
  from places have "take tgt' result = unmoved items is [0..<min ?t ?n] @ take (?t - ?n) []" by blast
  then have front: "take tgt' result = unmoved items is [0..<min ?t ?n]" by simp
  have "drop tgt' result = unmoved items is [min ?t ?n..<?n]"
  proof -
    have "[0..<?n] = [0..<min ?t ?n] @ [min ?t ?n..<?n]" by (rule upt_split) simp_all
    then have "result = take tgt' result @ unmoved items is [min ?t ?n..<?n]" using result front unmoved_append by metis
    then show ?thesis by (metis append_take_drop_id same_append_eq)
  qed
  then show ?thesis by (simp only: items' block front)
qed

text \<open>One subtree, moved before itself or past its end to an admissible place of what is left.\<close>

lemma move_one:
  assumes "tree_ok items" "i < length items" "tp_before target \<le> i \<or> subtree_end items i \<le> tp_before target"
    and "\<forall>x \<in> set (slice_range i (subtree_end items i) items). level x + tp_level target \<le> level (items ! i) + 255"
    and "admissible (take i items @ drop (subtree_end items i) items)
      (if i < tp_before target then tp_before target - (subtree_end items i - i) else tp_before target) (tp_level target)"
  shows "\<exists>items'. move_items items [i] target = Ok items' \<and> tree_ok items'
    \<and> mset (map node_key items') = mset (map node_key items)"
proof -
  let ?e = "subtree_end items i" and ?l = "tp_level target"
  let ?r = "take i items @ drop ?e items"
  let ?t = "if i < tp_before target then tp_before target - (?e - i) else tp_before target"
  note e = subtree_end_bounds[OF assms(2)] and sp = subtree_split[OF assms(2)]
  have "\<exists>ys. shift_subtree_to_level (slice_range i ?e items) ?l = (ys, Ok ())"
  proof (rule shift_subtree_succeeds, rule ballI)
    fix x assume x: "x \<in> set (slice_range i ?e items)"
    moreover from x have "level (items ! i) \<le> level x" using sp(3) by (fastforce simp: sp(2))
    ultimately show "level (hd (slice_range i ?e items)) \<le> level x \<and>
        int (level x) + (int ?l - int (level (hd (slice_range i ?e items)))) \<le> 255"
      using assms(4) by (auto simp: sp(2))
  qed
  then obtain ys where ys: "shift_subtree_to_level (slice_range i ?e items) ?l = (ys, Ok ())" by blast
  have "\<not> (i + 1 \<le> tp_before target \<and> tp_before target < ?e)" using assms(3) by auto
  with ys e assms(2) have loop: "move_items_loop items ?l [i] items [] (tp_before target) = Ok (?r, ys, ?t)"
    by (simp add: Let_def without_def)
  have r: "tree_ok ?r" using assms(1,2) by (rule tree_ok_without_subtree)
  have t: "?t \<le> length ?r" using assms(5) by (simp add: admissible_def)
  have chk: "check_location ?r \<lparr>tp_before = ?t, tp_level = ?l\<rparr> = Ok ()"
    using check_location_iff[OF r, of "\<lparr>tp_before = ?t, tp_level = ?l\<rparr>"] t assms(5) by simp
  have len: "length items = length (take ?t ?r @ ys @ drop ?t ?r)"
  proof -
    have "length (take n xs @ ys @ drop n xs) = length xs + length ys" for n and xs :: item_tree by simp
    moreover have "length ?r + length ys = length items" using shift_subtree_Ok(2)[OF ys] e by simp
    ultimately show ?thesis by metis
  qed
  have "move_items items [i] target = Ok (take ?t ?r @ ys @ drop ?t ?r)"
  proof -
    have "dedup (rev (sort [i])) = [i]" by simp
    moreover have "\<not> ([i] \<noteq> [] \<and> length items \<le> last [i])" using assms(2) by simp
    ultimately show ?thesis
      unfolding move_items_def Let_def by (simp only: loop chk len[symmetric] if_False if_True and_then.simps prod.case simp_thms)
  qed
  with move_items_keeps[OF assms(1), of "[i]" target] assms(2) show ?thesis by (simp add: independent_def)
qed

lemma shift_in_place:
  assumes "tree_ok items" "i < length items"
    and "\<forall>x \<in> set (slice_range i (subtree_end items i) items). level x + l \<le> level (items ! i) + 255"
    and "admissible (take i items @ drop (subtree_end items i) items) i l"
  shows "\<exists>items'. shift_range items i (subtree_end items i) l = (items', Ok ()) \<and> tree_ok items'
    \<and> map node_key items' = map node_key items"
proof -
  let ?e = "subtree_end items i"
  let ?r = "take i items @ drop ?e items"
  note e = subtree_end_bounds[OF assms(2)] and sp = subtree_split[OF assms(2)]
  have "\<exists>ys. shift_subtree_to_level (slice_range i ?e items) l = (ys, Ok ())"
  proof (rule shift_subtree_succeeds, rule ballI)
    fix x assume x: "x \<in> set (slice_range i ?e items)"
    moreover from x have "level (items ! i) \<le> level x" using sp(3) by (fastforce simp: sp(2))
    ultimately show "level (hd (slice_range i ?e items)) \<le> level x \<and>
        int (level x) + (int l - int (level (hd (slice_range i ?e items)))) \<le> 255"
      using assms(3) by (auto simp: sp(2))
  qed
  then obtain ys where ys: "shift_subtree_to_level (slice_range i ?e items) l = (ys, Ok ())" by blast
  then have "shift_range items i ?e l = (take i items @ ys @ drop ?e items, Ok ())" by (simp add: shift_range_def)
  moreover have "tree_ok (take i ?r @ ys @ drop i ?r)"
    using tree_ok_without_subtree[OF assms(1,2)] assms(4) shifted_subtree_block(1,2)[OF assms(1,2) ys]
    by (rule tree_ok_insert_block)
  moreover have "take i ?r = take i items" "drop i ?r = drop ?e items" using assms(2) by simp_all
  moreover have "map node_key (take i items @ ys @ drop ?e items) = map node_key items"
  proof -
    have "items = take i items @ slice_range i ?e items @ drop ?e items"
      using e by (intro slice_without_split) simp_all
    then have "map node_key items = map node_key (take i items) @ map node_key (slice_range i ?e items) @ map node_key (drop ?e items)"
      by (metis map_append)
    then show ?thesis using shift_subtree_Ok(1)[OF ys] by simp
  qed
  ultimately show ?thesis by auto
qed

lemma admissible_at_gap:
  assumes "tree_ok items" "i < length items" "l \<le> 255" "l \<le> next_bound 0 (take i items)"
    and "subtree_end items i < length items \<Longrightarrow> level (items ! subtree_end items i) \<le> l"
  shows "admissible (take i items @ drop (subtree_end items i) items) i l"
  using assms subtree_end_bounds[OF assms(2)] by (auto simp: admissible_def nth_append)

lemma visible_predecessor_less:
  "candidate \<le> i \<Longrightarrow> 0 < n \<Longrightarrow> n \<le> Suc i \<Longrightarrow> visible_predecessor_loop items sl n candidate ll \<le> i"
  by (induction n arbitrary: candidate ll) (auto simp: Let_def)

lemma visible_predecessor_parent:
  assumes "0 < idx" "level (items ! (idx - 1)) \<le> level (items ! idx)" "idx \<le> length items"
  shows "visible_predecessor items idx = Some (idx - 1)"
  using assms by (cases idx) (auto simp: visible_predecessor_def Let_def)

lemma visible_indices_filter:
  "visible_indices items = filter (\<lambda>i. \<not> covered True (\<lambda>x. \<not> unfolded x) items 0 i) [0..<length items]"
  by (simp add: visible_indices_def visible_from_prune prune_filter)

lemma to_displayed_visible: "to_displayed items vidx = get (visible_indices items) vidx"
  by (simp add: to_displayed_def get_visible_extra_def iter_visible_extra_def get_def nth_enumerate_eq)

lemma to_displayed_range: "to_displayed items vidx = Some idx \<Longrightarrow> idx < length items"
  using nth_mem[of vidx "visible_indices items"] by (auto simp: to_displayed_visible visible_indices_filter)

text \<open>What a move is to keep: the nodes with their flags, in a well-formed tree.\<close>

definition move_ok :: "item_tree \<Rightarrow> item_tree \<times> (move_error, nat) outcome \<Rightarrow> bool" where
  "move_ok items r \<longleftrightarrow> (\<exists>v. snd r = Ok v) \<and> tree_ok (fst r) \<and> mset (map node_key (fst r)) = mset (map node_key items)"

lemma move_ok_in_place:
  assumes "\<exists>items'. r = (items', Ok ()) \<and> tree_ok items' \<and> map node_key items' = map node_key items"
  shows "move_ok items (in_place r v)"
  using assms by (auto simp: move_ok_def in_place_def) (metis mset_map)

lemma move_ok_by_moving:
  assumes "\<exists>items'. r = Ok items' \<and> tree_ok items' \<and> mset (map node_key items') = mset (map node_key items)"
  shows "move_ok items (by_moving items r v)"
  using assms by (auto simp: move_ok_def by_moving_def)

lemma slice_member: "x \<in> set (slice_range a b xs) \<Longrightarrow> x \<in> set xs"
  by (auto simp: slice_range_def dest: in_set_takeD in_set_dropD)

lemma move_item_down_ok:
  assumes "tree_ok items" "\<forall>x \<in> set items. level x < 255" "i < length items"
  shows "move_ok items (move_item_down items f i v)"
proof -
  let ?e = "subtree_end items i" and ?l = "level (items ! i)"
  note e = subtree_end_bounds[OF assms(3)]
  have lim: "level x < 255" if "x \<in> set (slice_range i ?e items)" for x
    using slice_member[OF that] assms(2) by simp
  have bound: "?l \<le> next_bound 0 (take i items)" using tree_ok_step[OF assms(1,3)] .
  have l: "?l < 255" using assms(2,3) by simp
  have out: "move_ok items (in_place (shift_range items i ?e (?l - 1)) v)"
    if "?e < length items \<Longrightarrow> level (items ! ?e) \<le> ?l - 1"
  proof (intro move_ok_in_place shift_in_place assms(1,3) ballI)
    show "level x + (?l - 1) \<le> ?l + 255" if "x \<in> set (slice_range i ?e items)" for x using lim[OF that] by simp
    show "admissible (take i items @ drop ?e items) i (?l - 1)"
      using that l bound by (intro admissible_at_gap assms(1,3)) auto
  qed
  show ?thesis
  proof (cases "get items ?e")
    case None
    from None have "length items \<le> ?e" by simp
    with out show ?thesis unfolding move_item_down_def Let_def None by simp
  next
    case (Some nd)
    then have nd: "?e < length items" "items ! ?e = nd" by simp_all
    have le: "level nd \<le> ?l" using subtree_next[OF assms(3) nd(1)] nd(2) by simp
    show ?thesis
    proof (cases "level nd < ?l")
      case True
      with out nd show ?thesis unfolding move_item_down_def Let_def Some by simp
    next
      case False
      with le have eq: "level nd = ?l" by simp
      let ?r = "take i items @ drop ?e items"
      have len: "length ?r = i + (length items - ?e)" using assms(3) by simp
      show ?thesis
      proof (cases "unfolded nd \<and> f nd")
        case True
        have "\<exists>items'. move_items items [i] \<lparr>tp_before = ?e + 1, tp_level = level nd + 1\<rparr> = Ok items' \<and> tree_ok items'
          \<and> mset (map node_key items') = mset (map node_key items)"
        proof (rule move_one[OF assms(1,3)])
          show "\<forall>x \<in> set (slice_range i ?e items). level x + tp_level \<lparr>tp_before = ?e + 1, tp_level = level nd + 1\<rparr>
              \<le> ?l + 255"
            using lim eq by (fastforce dest: lim)
          have "admissible ?r (i + 1) (?l + 1)"
          proof -
            have tk: "take (i + 1) ?r = take i items @ [items ! ?e]"
            proof -
              have "drop ?e items = items ! ?e # drop (?e + 1) items" using nd(1) by (simp add: Cons_nth_drop_Suc)
              then show ?thesis using assms(3) by simp
            qed
            have "level (items ! (?e + 1)) \<le> ?l + 1" if "?e + 1 < length items"
              using tree_ok_step[OF assms(1) that] next_bound_take[of "?e + 1" items 0] nd eq that by simp
            moreover have "?r ! (i + 1) = items ! (?e + 1)" if "i + 1 < length ?r"
              using that assms(3) nd(1) by (simp add: nth_append)
            moreover have "next_bound 0 (take (i + 1) ?r) = ?l + 1" unfolding tk using nd(2) eq by simp
            moreover have "i + 1 \<le> length ?r" "i + 1 < length ?r \<longleftrightarrow> ?e + 1 < length items"
              using len nd(1) by linarith+
            ultimately show ?thesis using l unfolding admissible_def by simp
          qed
          then show "admissible ?r (if i < tp_before \<lparr>tp_before = ?e + 1, tp_level = level nd + 1\<rparr>
              then tp_before \<lparr>tp_before = ?e + 1, tp_level = level nd + 1\<rparr> - (?e - i)
              else tp_before \<lparr>tp_before = ?e + 1, tp_level = level nd + 1\<rparr>) (tp_level \<lparr>tp_before = ?e + 1, tp_level = level nd + 1\<rparr>)"
            using e eq by simp
        qed simp
        then have "move_ok items (by_moving items (move_items items [i] \<lparr>tp_before = ?e + 1, tp_level = level nd + 1\<rparr>) (v + 1))"
          by (rule move_ok_by_moving)
        with True l eq show ?thesis unfolding move_item_down_def Let_def Some by simp
      next
        case no: False
        let ?e2 = "subtree_end items ?e"
        note e2 = subtree_end_bounds[OF nd(1)]
        have "\<exists>items'. move_items items [i] \<lparr>tp_before = ?e2, tp_level = ?l\<rparr> = Ok items' \<and> tree_ok items'
          \<and> mset (map node_key items') = mset (map node_key items)"
        proof (rule move_one[OF assms(1,3)])
          show "\<forall>x \<in> set (slice_range i ?e items). level x + tp_level \<lparr>tp_before = ?e2, tp_level = ?l\<rparr> \<le> ?l + 255"
            using lim by fastforce
          have "admissible ?r (?e2 - (?e - i)) ?l"
          proof -
            have tk: "take (?e2 - (?e - i)) ?r = take i items @ slice_range ?e ?e2 items"
              using e e2 assms(3) by (simp add: slice_range_def)
            have ne: "slice_range ?e ?e2 items \<noteq> []" using subtree_split(2)[OF nd(1)] by simp
            have "level nd \<le> level (last (slice_range ?e ?e2 items))"
              using subtree_split(2,3)[OF nd(1)] nd(2) by (auto simp: less_imp_le)
            then have "?l \<le> next_bound 0 (take (?e2 - (?e - i)) ?r)" unfolding tk using eq ne by (simp add: next_bound_def)
            moreover have "level (?r ! (?e2 - (?e - i))) \<le> ?l" if "?e2 - (?e - i) < length ?r"
            proof -
              have "?e2 < length items" "?r ! (?e2 - (?e - i)) = items ! ?e2"
                using that e e2 assms(3) len by (auto simp: nth_append)
              with subtree_next[OF nd(1)] nd(2) eq show ?thesis by simp
            qed
            ultimately show ?thesis using l len e e2 by (simp add: admissible_def)
          qed
          then show "admissible ?r (if i < tp_before \<lparr>tp_before = ?e2, tp_level = ?l\<rparr>
              then tp_before \<lparr>tp_before = ?e2, tp_level = ?l\<rparr> - (?e - i) else tp_before \<lparr>tp_before = ?e2, tp_level = ?l\<rparr>)
              (tp_level \<lparr>tp_before = ?e2, tp_level = ?l\<rparr>)"
            using e e2 by simp
        qed (use e2 in simp)
        then have "move_ok items (by_moving items (move_items items [i] \<lparr>tp_before = ?e2, tp_level = ?l\<rparr>) (v + 1))"
          by (rule move_ok_by_moving)
        with no eq show ?thesis unfolding move_item_down_def Let_def Some by auto
      qed
    qed
  qed
qed

lemma move_item_up_ok:
  assumes "tree_ok items" "\<forall>x \<in> set items. level x < 255" "i < length items"
  shows "move_ok items (move_item_up items f i v)"
proof -
  let ?e = "subtree_end items i" and ?l = "level (items ! i)"
  note e = subtree_end_bounds[OF assms(3)]
  have lim: "level x < 255" if "x \<in> set (slice_range i ?e items)" for x
    using slice_member[OF that] assms(2) by simp
  have l: "?l < 255" using assms(2,3) by simp
  show ?thesis
  proof (cases "visible_predecessor items i")
    case None
    then show ?thesis using assms(1) by (simp add: move_item_up_def move_ok_def Let_def)
  next
    case (Some n)
    then have i: "0 < i" by (auto simp: visible_predecessor_def split: if_splits)
    have n: "n < i"
    proof -
      have "n = visible_predecessor_loop items ?l i (i - 1) (level (items ! (i - 1)))"
        using Some by (auto simp: visible_predecessor_def split: if_splits)
      moreover have "visible_predecessor_loop items ?l i (i - 1) (level (items ! (i - 1))) \<le> i - 1"
        by (rule visible_predecessor_less) (use i in auto)
      ultimately show ?thesis using i by linarith
    qed
    show ?thesis
    proof (cases "(?l \<le> level (items ! n) \<and> f (items ! n) \<and> unfolded (items ! n)) \<or> ?l < level (items ! n)")
      case True
      have pred: "?l \<le> level (items ! (i - 1))"
      proof (rule ccontr)
        assume "\<not> ?l \<le> level (items ! (i - 1))"
        moreover from this have "n = i - 1" using visible_predecessor_parent[OF i, of items] Some assms(3) by simp
        ultimately show False using True by auto
      qed
      have "move_ok items (in_place (shift_range items i ?e (?l + 1)) v)"
      proof (intro move_ok_in_place shift_in_place assms(1,3) ballI)
        show "level x + (?l + 1) \<le> ?l + 255" if "x \<in> set (slice_range i ?e items)" for x using lim[OF that] by simp
        show "admissible (take i items @ drop ?e items) i (?l + 1)"
        proof (rule admissible_at_gap[OF assms(1,3)])
          show "?l + 1 \<le> next_bound 0 (take i items)" using pred next_bound_take[OF i, of items 0] assms(3) by simp
          show "level (items ! ?e) \<le> ?l + 1" if "?e < length items" using subtree_next[OF assms(3) that] by simp
        qed (use l in simp)
      qed
      with True l show ?thesis unfolding move_item_up_def Let_def Some by simp
    next
      case False
      then have nl: "level (items ! n) \<le> ?l" by simp
      let ?r = "take i items @ drop ?e items"
      have "\<exists>items'. move_items items [i] \<lparr>tp_before = n, tp_level = level (items ! n)\<rparr> = Ok items' \<and> tree_ok items'
        \<and> mset (map node_key items') = mset (map node_key items)"
      proof (rule move_one[OF assms(1,3)])
        show "\<forall>x \<in> set (slice_range i ?e items). level x + tp_level \<lparr>tp_before = n, tp_level = level (items ! n)\<rparr> \<le> ?l + 255"
          using lim nl by fastforce
        have "n < length items" using n assms(3) by simp
        from tree_ok_step[OF assms(1) this] have "level (items ! n) \<le> next_bound 0 (take n items)" .
        moreover have "take n ?r = take n items" "?r ! n = items ! n" "n < length ?r"
          using n assms(3) by (simp_all add: nth_append)
        moreover have "level (items ! n) \<le> 255" using nl l by simp
        ultimately have "admissible ?r n (level (items ! n))" by (simp add: admissible_def)
        then show "admissible ?r (if i < tp_before \<lparr>tp_before = n, tp_level = level (items ! n)\<rparr>
            then tp_before \<lparr>tp_before = n, tp_level = level (items ! n)\<rparr> - (?e - i)
            else tp_before \<lparr>tp_before = n, tp_level = level (items ! n)\<rparr>) (tp_level \<lparr>tp_before = n, tp_level = level (items ! n)\<rparr>)"
          using n by simp
      qed (use n in simp)
      then have "move_ok items (by_moving items (move_items items [i] \<lparr>tp_before = n, tp_level = level (items ! n)\<rparr>) (v - 1))"
        by (rule move_ok_by_moving)
      with False show ?thesis unfolding move_item_up_def Let_def Some by auto
    qed
  qed
qed

subsection \<open>Parents\<close>

definition is_parent :: "item_tree \<Rightarrow> nat \<Rightarrow> nat \<Rightarrow> bool" where
  "is_parent items j i \<longleftrightarrow> j < i \<and> i < length items \<and> level (items ! j) < level (items ! i)
     \<and> (\<forall>k. j < k \<longrightarrow> k < i \<longrightarrow> level (items ! i) \<le> level (items ! k))"

definition after_insert :: "nat \<Rightarrow> nat \<Rightarrow> nat" where
  "after_insert p i = (if i < p then i else i + 1)"

lemma nth_vec_insert: "p \<le> length xs \<Longrightarrow> vec_insert p x xs ! after_insert p i = xs ! i"
  by (auto simp: vec_insert_def after_insert_def nth_append)

lemma nth_vec_insert_at: "p \<le> length xs \<Longrightarrow> vec_insert p x xs ! p = x"
  by (simp add: vec_insert_def nth_append)

lemma after_insert_cases: "k = p \<or> (\<exists>i. k = after_insert p i)"
proof -
  consider "k < p" | "k = p" | "p < k" by linarith
  then show ?thesis
  proof cases
    case 1
    then have "k = after_insert p k" by (simp add: after_insert_def)
    then show ?thesis by blast
  next
    case 3
    then have "k = after_insert p (k - 1)" by (auto simp: after_insert_def)
    then show ?thesis by blast
  qed simp
qed

lemma after_insert_less [simp]: "after_insert p i < after_insert p j \<longleftrightarrow> i < j"
  by (auto simp: after_insert_def)

text \<open>A node put before one that is no deeper does not come between a node and its parent.\<close>

lemma insert_keeps_parents:
  assumes "p \<le> length items" "p < length items \<Longrightarrow> level (items ! p) \<le> level x"
  shows "is_parent (vec_insert p x items) (after_insert p j) (after_insert p i) \<longleftrightarrow> is_parent items j i"
proof -
  let ?ys = "vec_insert p x items"
  note nth = nth_vec_insert[OF assms(1), of x] and at = nth_vec_insert_at[OF assms(1), of x]
  have len: "after_insert p i < length ?ys \<longleftrightarrow> i < length items" using assms(1) by (auto simp: after_insert_def)
  have "(\<forall>k. after_insert p j < k \<longrightarrow> k < after_insert p i \<longrightarrow> level (items ! i) \<le> level (?ys ! k)) \<longleftrightarrow>
      (\<forall>k. j < k \<longrightarrow> k < i \<longrightarrow> level (items ! i) \<le> level (items ! k))" if "i < length items" "level (items ! j) < level (items ! i)"
  proof
    assume h: "\<forall>k. after_insert p j < k \<longrightarrow> k < after_insert p i \<longrightarrow> level (items ! i) \<le> level (?ys ! k)"
    show "\<forall>k. j < k \<longrightarrow> k < i \<longrightarrow> level (items ! i) \<le> level (items ! k)"
      using h nth after_insert_less by metis
  next
    assume h: "\<forall>k. j < k \<longrightarrow> k < i \<longrightarrow> level (items ! i) \<le> level (items ! k)"
    show "\<forall>k. after_insert p j < k \<longrightarrow> k < after_insert p i \<longrightarrow> level (items ! i) \<le> level (?ys ! k)"
    proof (intro allI impI)
      fix k assume k: "after_insert p j < k" "k < after_insert p i"
      show "level (items ! i) \<le> level (?ys ! k)"
      proof (cases "k = p")
        case True
        with k have pi: "j < p" "p \<le> i" by (auto simp: after_insert_def split: if_splits)
        then have "level (items ! p) \<le> level x" using assms(2) that(1) by simp
        moreover have "level (items ! i) \<le> level (items ! p)" using h pi by (cases "p = i") auto
        ultimately show ?thesis using True at by simp
      next
        case False
        then obtain m where m: "k = after_insert p m" using after_insert_cases by blast
        with k h nth show ?thesis by simp
      qed
    qed
  qed
  then show ?thesis unfolding is_parent_def nth len after_insert_less by blast
qed

lemma drain_from_ok: "tree_ok items \<Longrightarrow> tree_ok (snd (drain_from f items idx removed))"
proof (induction f items idx removed rule: drain_from.induct)
  case (1 f items idx removed)
  show ?case
  proof (cases "idx < length items \<and> f (items ! idx)")
    case True
    with tree_ok_without_subtree[OF 1(3)] have "tree_ok (without idx (subtree_end items idx) items)"
      by (simp add: without_def)
    with 1(1) True show ?thesis by (subst drain_from.simps) (simp add: Let_def)
  next
    case False
    then show ?thesis using 1(2,3) by (subst drain_from.simps) auto
  qed
qed

subsection \<open>Properties\<close>

definition tree_node :: "nat \<Rightarrow> nat \<Rightarrow> node" where
  "tree_node r l = \<lparr>item_ref = r, level = l, unfolded = True, selected = False\<rparr>"

text \<open>
  C13. Insertion is exact: in a well-formed tree an item is accepted at a position and level just when the
  level is one more than the node before at most (0 for the first place) and not above the node after;
  otherwise the error says whether the index or the level is wrong. An accepted item leaves the tree
  well formed and every other node with the parent it had.
\<close>

theorem insert_item_exact:
  assumes "tree_ok items"
  shows "insert_item items item pos =
      (if length items < tp_before pos then Err InvalidIndex
       else if \<not> admissible items (tp_before pos) (tp_level pos) then Err InvalidLevel
       else Ok (tp_before pos, vec_insert (tp_before pos)
         \<lparr>item_ref = item, level = tp_level pos, unfolded = True, selected = False\<rparr> items)) \<and>
    (admissible items (tp_before pos) (tp_level pos) \<longrightarrow>
       tree_ok (vec_insert (tp_before pos) \<lparr>item_ref = item, level = tp_level pos, unfolded = True, selected = False\<rparr> items) \<and>
       (\<forall>i j. is_parent (vec_insert (tp_before pos)
            \<lparr>item_ref = item, level = tp_level pos, unfolded = True, selected = False\<rparr> items)
            (after_insert (tp_before pos) j) (after_insert (tp_before pos) i) \<longleftrightarrow> is_parent items j i))"
proof (intro conjI impI)
  let ?p = "tp_before pos" and ?x = "\<lparr>item_ref = item, level = tp_level pos, unfolded = True, selected = False\<rparr>"
  show "insert_item items item pos = (if length items < ?p then Err InvalidIndex
       else if \<not> admissible items ?p (tp_level pos) then Err InvalidLevel else Ok (?p, vec_insert ?p ?x items))"
    using check_location_iff[OF assms, of pos]
    by (cases "length items < ?p") (auto simp: insert_item_def check_location_def)
  assume adm: "admissible items ?p (tp_level pos)"
  show "tree_ok (vec_insert ?p ?x items)"
    using tree_ok_insert_block[OF assms adm, of "[?x]"] adm by (simp add: vec_insert_def admissible_def)
  show "\<forall>i j. is_parent (vec_insert ?p ?x items) (after_insert ?p j) (after_insert ?p i) \<longleftrightarrow> is_parent items j i"
    using insert_keeps_parents[of ?p items ?x] adm by (simp add: admissible_def)
qed

lemma insert_item_exact_witness:
  "insert_item [tree_node 1 0, tree_node 2 1, tree_node 3 0] 9 \<lparr>tp_before = 2, tp_level = 2\<rparr> =
     Ok (2, [tree_node 1 0, tree_node 2 1, tree_node 9 2, tree_node 3 0]) \<and>
   tree_ok [tree_node 1 0, tree_node 2 1, tree_node 9 2, tree_node 3 0]"
proof -
  have "tree_ok [tree_node 1 0, tree_node 2 1, tree_node 3 0]" by code_simp
  moreover have "admissible [tree_node 1 0, tree_node 2 1, tree_node 3 0] 2 2" by code_simp
  ultimately show ?thesis
    using insert_item_exact[of "[tree_node 1 0, tree_node 2 1, tree_node 3 0]" 9 "\<lparr>tp_before = 2, tp_level = 2\<rparr>"]
    by (simp add: vec_insert_def tree_node_def)
qed

text \<open>
  The visible items are exactly the nodes with no folded node above them: iteration lists, in order,
  every node that lies in no folded node's subtree.
\<close>

theorem iter_visible_exact:
  "visible_indices items = filter (\<lambda>i. \<not> (\<exists>j < i. \<not> unfolded (items ! j) \<and> i < subtree_end items j)) [0..<length items] \<and>
   iter_visible items = map (nth items) (visible_indices items)"
proof -
  have "covered True (\<lambda>x. \<not> unfolded x) items 0 i \<longleftrightarrow> (\<exists>j < i. \<not> unfolded (items ! j) \<and> i < subtree_end items j)" for i
    by (auto simp: covered_def)
  then show ?thesis by (simp add: visible_indices_filter iter_visible_def)
qed

text \<open>
  Removing an item with its subtree, or dissolving it into its children, keeps the tree well formed
  and loses nothing: the removed references and the remaining ones together are those of the tree before,
  and dissolving leaves every other node in place, its children one level up.
\<close>

theorem removal_keeps_tree:
  assumes "tree_ok items" "i < length items"
  shows "\<exists>refs items1 items2. remove_recursive items i = Ok (refs, items1) \<and> tree_ok items1
      \<and> map item_ref (take i items) @ refs @ map item_ref (drop i items1) = map item_ref items
      \<and> remove_dissolve items i = Ok (item_ref (items ! i), items2) \<and> tree_ok items2
      \<and> map item_ref (take i items2) @ item_ref (items ! i) # map item_ref (drop i items2) = map item_ref items"
proof -
  let ?e = "subtree_end items i"
  let ?sub = "slice_range (i + 1) ?e items"
  let ?up = "map (\<lambda>x. x\<lparr>level := level x - 1\<rparr>) ?sub"
  note e = subtree_end_bounds[OF assms(2)] and sp = subtree_split[OF assms(2)] and ok = tree_ok_parts[OF assms]
  have refs: "map item_ref items = map item_ref (take i items) @ item_ref (items ! i) # map item_ref ?sub @ map item_ref (drop ?e items)"
    by (subst sp(1)) simp
  have "tree_ok (without i ?e items)" using tree_ok_without_subtree[OF assms] by (simp add: without_def)
  moreover have "map item_ref (take i items) @ map item_ref (slice_range i ?e items) @ map item_ref (drop i (without i ?e items))
      = map item_ref items"
    using assms(2) refs by (simp add: without_def sp(2))
  moreover have "tree_ok (take i items @ ?up @ drop ?e items)"
  proof -
    have "list_all2 (\<lambda>x y. int (level y) = int (level x) + - 1) ?sub ?up"
      unfolding list_all2_map2
    proof (rule list.rel_refl_strong)
      fix x assume "x \<in> set ?sub"
      with sp(3) have "0 < level x" by fastforce
      then show "int (level (x\<lparr>level := level x - 1\<rparr>)) = int (level x) + - 1" by simp
    qed
    from levels_below_shift[OF this, of "level (items ! i)" "level (items ! i) + 1"] ok(3)
    have up: "levels_below (level (items ! i)) ?up" by simp
    have ge: "level (items ! i) \<le> level y" if "y \<in> set ?up" for y using that sp(3) by fastforce
    have "levels_below (level (items ! i)) (?up @ drop ?e items)"
      using up ok(4) ge by (intro levels_below_blocks) auto
    from levels_below_mono[OF this ok(2)] ok(1)
    have "levels_below 0 (take i items @ ?up @ drop ?e items)" by (simp only: levels_below_append)
    moreover have "level x \<le> 255" if "x \<in> set (take i items @ ?up @ drop ?e items)" for x
    proof -
      from that consider "x \<in> set items" | y where "y \<in> set items" "level x \<le> level y"
        by (fastforce dest: in_set_takeD in_set_dropD slice_member)
      then show ?thesis using assms(1) by cases (force simp: tree_ok_def)+
    qed
    ultimately show ?thesis by (simp add: tree_ok_def)
  qed
  moreover have "map item_ref (take i (take i items @ ?up @ drop ?e items)) @
      item_ref (items ! i) # map item_ref (drop i (take i items @ ?up @ drop ?e items)) = map item_ref items"
    using assms(2) refs by (simp add: comp_def)
  ultimately show ?thesis
    using assms(2) by (simp add: remove_recursive_def remove_dissolve_def Let_def)
qed

lemma removal_keeps_tree_witness:
  "remove_dissolve [tree_node 1 0, tree_node 2 1, tree_node 3 2, tree_node 4 0] 1 =
     Ok (2, [tree_node 1 0, tree_node 3 1, tree_node 4 0]) \<and> tree_ok [tree_node 1 0, tree_node 3 1, tree_node 4 0]"
proof -
  have 1: "tree_ok [tree_node 1 0, tree_node 2 1, tree_node 3 2, tree_node 4 0]" by code_simp
  have 2: "remove_dissolve [tree_node 1 0, tree_node 2 1, tree_node 3 2, tree_node 4 0] 1 =
     Ok (2, [tree_node 1 0, tree_node 3 1, tree_node 4 0])" by code_simp
  show ?thesis using removal_keeps_tree[OF 1, of 1] 2 by auto
qed

text \<open>
  C39. Draining by a predicate removes exactly the nodes that satisfy it and everything below them: what is
  left is, in order, every node that is neither such a node nor in the subtree of one, and the removed
  references are all the others. A well-formed tree stays well formed.
\<close>

theorem drain_exact:
  "snd (drain_recursive_if f items) =
      map (nth items) (filter (\<lambda>i. \<not> (\<exists>j \<le> i. f (items ! j) \<and> i < subtree_end items j)) [0..<length items]) \<and>
   mset (fst (drain_recursive_if f items)) + mset (map item_ref (snd (drain_recursive_if f items)))
      = mset (map item_ref items) \<and>
   (tree_ok items \<longrightarrow> tree_ok (snd (drain_recursive_if f items)))"
proof (intro conjI impI)
  have "covered False f items 0 i \<longleftrightarrow> (\<exists>j \<le> i. f (items ! j) \<and> i < subtree_end items j)" for i
    by (auto simp: covered_def le_less)
  with drain_from_prune[of f "[]" 0 items "[]"]
  show "snd (drain_recursive_if f items) =
      map (nth items) (filter (\<lambda>i. \<not> (\<exists>j \<le> i. f (items ! j) \<and> i < subtree_end items j)) [0..<length items])"
    by (simp add: drain_recursive_if_def prune_filter)
  show "mset (fst (drain_recursive_if f items)) + mset (map item_ref (snd (drain_recursive_if f items)))
      = mset (map item_ref items)"
    using drain_from_mset[of f items 0 "[]"] by (simp add: drain_recursive_if_def)
  show "tree_ok items \<Longrightarrow> tree_ok (snd (drain_recursive_if f items))"
    by (simp add: drain_recursive_if_def drain_from_ok)
qed

lemma drain_exact_witness:
  "tree_ok (snd (drain_recursive_if (\<lambda>x. item_ref x = 2) [tree_node 1 0, tree_node 2 1, tree_node 3 2, tree_node 4 0]))
   \<and> fst (drain_recursive_if (\<lambda>x. item_ref x = 2) [tree_node 1 0, tree_node 2 1, tree_node 3 2, tree_node 4 0]) = [2, 3]"
proof -
  have "tree_ok [tree_node 1 0, tree_node 2 1, tree_node 3 2, tree_node 4 0]" by code_simp
  moreover have "fst (drain_recursive_if (\<lambda>x. item_ref x = 2) [tree_node 1 0, tree_node 2 1, tree_node 3 2, tree_node 4 0]) = [2, 3]"
    by code_simp
  ultimately show ?thesis
    using drain_exact[of "\<lambda>x. item_ref x = 2" "[tree_node 1 0, tree_node 2 1, tree_node 3 2, tree_node 4 0]"] by blast
qed

text \<open>
  C14. Moving a visible item up or down always succeeds in a well-formed tree whose levels leave room for
  one more: no index or level error, no panic. The tree stays well formed and keeps every node with its
  fold and selection state, whatever may have children.
\<close>

theorem move_item_total:
  assumes "tree_ok items" "\<And>x. x \<in> set items \<Longrightarrow> level x < 255" "vidx < length (visible_indices items)"
  shows "\<exists>items' v. move_item items vidx dir f = (items', Ok v) \<and> tree_ok items'
    \<and> mset (map node_key items') = mset (map node_key items)"
proof -
  obtain idx where idx: "to_displayed items vidx = Some idx" using assms(3) by (simp add: to_displayed_visible)
  then have "idx < length items" by (rule to_displayed_range)
  with move_item_up_ok[OF assms(1)] move_item_down_ok[OF assms(1)] assms(2)
  have "move_ok items (move_item items vidx dir f)" by (cases dir) (simp_all add: move_item_def idx)
  then show ?thesis unfolding move_ok_def by (metis prod.collapse)
qed

lemma move_item_total_witness:
  "\<exists>items' v. move_item [tree_node 1 0, tree_node 2 1, tree_node 3 0] 2 Up (\<lambda>x. True) = (items', Ok v) \<and> tree_ok items'
    \<and> mset (map node_key items') = mset (map node_key [tree_node 1 0, tree_node 2 1, tree_node 3 0])"
proof (rule move_item_total)
  show "tree_ok [tree_node 1 0, tree_node 2 1, tree_node 3 0]" by code_simp
  show "2 < length (visible_indices [tree_node 1 0, tree_node 2 1, tree_node 3 0])" by code_simp
qed (auto simp: tree_node_def)

text \<open>
  C12. Moving several items at once, in any order and with repetitions, when none of them lies in the subtree of another:
  the new list is the nodes before the target that stay, the subtrees in the order they had, each shifted so that its
  root is at the target level, and the nodes from the target on that stay. It is a well-formed tree.
\<close>

theorem move_items_independent:
  assumes "tree_ok items" "independent items is" "move_items items is target = Ok items'"
  shows "tree_ok items' \<and> mset (map node_key items') = mset (map node_key items)
    \<and> items' = unmoved items is [0..<min (tp_before target) (length items)]
      @ concat (map (moved_subtree items (tp_level target)) (sorted_list_of_set (set is)))
      @ unmoved items is [min (tp_before target) (length items)..<length items]"
  using move_items_keeps[OF assms] move_items_places[OF assms(2,3)] by simp

lemma move_items_independent_witness:
  "tree_ok [tree_node 3 0, tree_node 1 0, tree_node 2 1, tree_node 4 0] \<and>
   [tree_node 3 0, tree_node 1 0, tree_node 2 1, tree_node 4 0] =
     unmoved [tree_node 1 0, tree_node 2 1, tree_node 3 0, tree_node 4 0] [3, 0, 3] [0..<3]
     @ concat (map (moved_subtree [tree_node 1 0, tree_node 2 1, tree_node 3 0, tree_node 4 0] 0) [0, 3])
     @ unmoved [tree_node 1 0, tree_node 2 1, tree_node 3 0, tree_node 4 0] [3, 0, 3] [3..<4]"
proof -
  let ?items = "[tree_node 1 0, tree_node 2 1, tree_node 3 0, tree_node 4 0]"
  have "tree_ok ?items" by code_simp
  moreover have "independent ?items [3, 0, 3]" by code_simp
  moreover have "move_items ?items [3, 0, 3] \<lparr>tp_before = 3, tp_level = 0\<rparr>
      = Ok [tree_node 3 0, tree_node 1 0, tree_node 2 1, tree_node 4 0]"
    by code_simp
  ultimately have moved: "tree_ok [tree_node 3 0, tree_node 1 0, tree_node 2 1, tree_node 4 0] \<and>
    [tree_node 3 0, tree_node 1 0, tree_node 2 1, tree_node 4 0] =
      unmoved ?items [3, 0, 3] [0..<min (tp_before \<lparr>tp_before = 3, tp_level = 0\<rparr>) (length ?items)]
      @ concat (map (moved_subtree ?items (tp_level \<lparr>tp_before = 3, tp_level = 0\<rparr>)) (sorted_list_of_set (set [3, 0, 3])))
      @ unmoved ?items [3, 0, 3] [min (tp_before \<lparr>tp_before = 3, tp_level = 0\<rparr>) (length ?items)..<length ?items]"
    using move_items_independent by blast
  have at: "tp_before \<lparr>tp_before = 3, tp_level = 0\<rparr> = 3" "tp_level \<lparr>tp_before = 3, tp_level = 0\<rparr> = 0" by simp_all
  have sizes: "length ?items = 4" "min 3 (4 :: nat) = 3" "sorted_list_of_set (set [3, 0, 3 :: nat]) = [0, 3]" by code_simp+
  show ?thesis using moved unfolding at sizes .
qed

text \<open>
  Moving a group and a node inside it takes one node too many along: the length of the group's
  subtree is that of the tree before the inner node was taken out, so the node after the group (\<open>x\<close>,
  which nobody asked to move) goes with it and ends up between the two.
\<close>

theorem move_items_overlap:
  assumes "level g = 0" "level c = 1" "level x = 0"
  shows "move_items (g # c # x # rest) [0, 1] \<lparr>tp_before = length (g # c # x # rest), tp_level = 0\<rparr> =
    Ok (rest @ [g, x, c\<lparr>level := 0\<rparr>])"
proof -
  let ?items = "g # c # x # rest"
  have e0: "subtree_end ?items 0 = 2" using subtree_end_takeWhile[of 0 ?items] assms by simp
  have e1: "subtree_end ?items 1 = 2" using subtree_end_takeWhile[of 1 ?items] assms by simp
  have up: "x\<lparr>level := 0\<rparr> = x" "g\<lparr>level := 0\<rparr> = g" using assms by simp_all
  have "sort [0, 1 :: nat] = [0, 1]" by simp
  then have ord: "dedup (rev (sort [0, 1 :: nat])) = [1, 0]" by simp
  have "move_items_loop ?items 0 [1, 0] ?items [] (length ?items) = Ok (rest, [g, x, c\<lparr>level := 0\<rparr>], length rest)"
    using assms up by (simp add: e0 e1[simplified] Let_def slice_range_def without_def shift_subtree_to_level_def numeral_2_eq_2)
  moreover have "check_location rest \<lparr>tp_before = length rest, tp_level = 0\<rparr> = Ok ()"
    by (auto simp: check_location_def valid_levels_def get_def Let_def split: option.split)
  ultimately show ?thesis by (simp add: move_items_def ord[simplified] ord Let_def)
qed

lemma move_items_overlap_witness:
  "move_items [tree_node 1 0, tree_node 2 1, tree_node 3 0, tree_node 4 0] [0, 1] \<lparr>tp_before = 4, tp_level = 0\<rparr>
    = Ok [tree_node 4 0, tree_node 1 0, tree_node 3 0, tree_node 2 0]"
  using move_items_overlap[of "tree_node 1 0" "tree_node 2 1" "tree_node 3 0" "[tree_node 4 0]"]
  by (simp add: tree_node_def eval_nat_numeral)

text \<open>
  Asking whether a subtree contains a node looks at the node's own subtree instead: the answer is yes
  for every node that does not precede the root, inside the subtree or not.
\<close>

theorem subtree_contains_everything_after:
  assumes "root \<le> candidate" "candidate < length items"
  shows "subtree_contains items root candidate = Ok True"
  using assms subtree_end_bounds[OF assms(2)] by (simp add: subtree_contains_def)

lemma subtree_contains_everything_after_witness:
  "subtree_contains [tree_node 1 0, tree_node 2 1, tree_node 3 0] 0 2 = Ok True \<and>
   \<not> 2 < subtree_end [tree_node 1 0, tree_node 2 1, tree_node 3 0] 0"
proof
  show "subtree_contains [tree_node 1 0, tree_node 2 1, tree_node 3 0] 0 2 = Ok True"
    by (rule subtree_contains_everything_after) simp_all
  show "\<not> 2 < subtree_end [tree_node 1 0, tree_node 2 1, tree_node 3 0] 0" by code_simp
qed

end
