(* ===== verification/Canvas.thy ===== *)
theory Canvas
  imports Displayed_Items Item_Tree
begin

section \<open>The canvas (wave\_data.rs, marker.rs, variable\_name\_type.rs)\<close>

text \<open>
  The part of \<^verbatim>\<open>WaveData\<close> that holds what is displayed: the item tree, the items by reference, the
  markers, the annotations and the focus, with the operations that add, remove and configure items.
  Hash maps are partial functions; where the code iterates over one, the order is an argument. Where
  the code adds 1 to the \<^verbatim>\<open>u8\<close> level 255, which panics in a build with overflow checks, the position gets
  the level 256, which no insertion accepts: the insertion that follows panics. An annotation keeps its id, name,
  flags and the items it is attached to; its geometry and comments are drawing data and left out.
\<close>

subsection \<open>State\<close>

datatype annotation_anchor = AnchorArrow "nat option" | AnchorRect "nat option" "nat option"

record annotation =
  an_id :: nat
  an_visible :: bool
  an_name :: string
  an_show_comments :: bool
  an_anchor :: annotation_anchor

record annotation_group =
  ag_name :: string
  ag_cycle_counter :: nat
  ag_annotations :: "nat list"

record ('v, 's, 't) wave_data =
  items_tree :: item_tree
  displayed_items :: "nat \<Rightarrow> ('v, 's) displayed_item option"
  display_item_ref_counter :: nat
  next_decoder_instance :: nat
  cursor :: "int option"
  markers :: "nat \<Rightarrow> int option"
  selected_annotation :: "nat option"
  annotations :: "annotation list"
  annotation_groups :: "annotation_group list"
  annotation_list_visible :: bool
  annotation_counter :: int
  focused_item :: "nat option"
  focused_transaction :: "nat option \<times> 't option"
  default_name_type :: variable_name_type
  display_variable_indices :: bool

definition modify_item :: "(('v, 's) displayed_item \<Rightarrow> ('v, 's) displayed_item) \<Rightarrow> nat
    \<Rightarrow> ('v, 's, 't) wave_data \<Rightarrow> ('v, 's, 't) wave_data" where
  "modify_item f r w = w\<lparr>displayed_items := (displayed_items w)(r := map_option f (displayed_items w r))\<rparr>"

subsection \<open>Positions\<close>

definition insert_position :: "('v, 's, 't) wave_data \<Rightarrow> nat option \<Rightarrow> target_position option" where
  "insert_position w opt_vidx = (case opt_vidx of None \<Rightarrow> None | Some vidx \<Rightarrow>
     case to_displayed (items_tree w) vidx of None \<Rightarrow> None | Some item_index \<Rightarrow>
     case get (items_tree w) item_index of None \<Rightarrow> None | Some n \<Rightarrow>
     case displayed_items w (item_ref n) of None \<Rightarrow> None | Some item \<Rightarrow>
       Some (if is_group item \<and> unfolded n then
               \<lparr>tp_before = item_index + 1, tp_level = level n + 1\<rparr>
             else if is_group item then
               (case to_displayed (items_tree w) (vidx + 1) of
                  Some idx \<Rightarrow> \<lparr>tp_before = idx, tp_level = level n\<rparr>
                | None \<Rightarrow> \<lparr>tp_before = length (items_tree w), tp_level = level n\<rparr>)
             else \<lparr>tp_before = item_index + 1, tp_level = level n\<rparr>))"

definition end_insert_position :: "('v, 's, 't) wave_data \<Rightarrow> target_position" where
  "end_insert_position w = \<lparr>tp_before = length (items_tree w), tp_level = 0\<rparr>"

definition index_of_ref :: "item_tree \<Rightarrow> nat \<Rightarrow> nat option" where
  "index_of_ref items r = List.find (\<lambda>i. item_ref (items ! i) = r) [0..<length items]"

definition visible_of_ref :: "item_tree \<Rightarrow> nat \<Rightarrow> nat option" where
  "visible_of_ref items r =
     List.find (\<lambda>v. item_ref (iter_visible items ! v) = r) [0..<length (iter_visible items)]"

definition visible_of_index :: "item_tree \<Rightarrow> nat \<Rightarrow> nat option" where
  "visible_of_index items idx = map_option info_vidx (List.find (\<lambda>i. info_idx i = idx) (iter_visible_extra items))"

definition index_for_ref_or_focus :: "('v, 's, 't) wave_data \<Rightarrow> nat option \<Rightarrow> nat option" where
  "index_for_ref_or_focus w opt_ref = (case opt_ref of
     Some r \<Rightarrow> index_of_ref (items_tree w) r
   | None \<Rightarrow> (case focused_item w of
       Some f \<Rightarrow> map_option info_idx (get_visible_extra (items_tree w) f)
     | None \<Rightarrow> None))"

definition focused_ref :: "('v, 's, 't) wave_data \<Rightarrow> nat option" where
  "focused_ref w = (case focused_item w of
     None \<Rightarrow> None | Some v \<Rightarrow> map_option item_ref (get_visible (items_tree w) v))"

subsection \<open>Adding items\<close>

definition target_or_focus :: "('v, 's, 't) wave_data \<Rightarrow> target_position option \<Rightarrow> target_position" where
  "target_or_focus w target = (case target of Some p \<Rightarrow> p
   | None \<Rightarrow> or_else (insert_position w (focused_item w)) (end_insert_position w))"

definition insert_displayed :: "('v, 's) displayed_item \<Rightarrow> target_position option \<Rightarrow> bool
    \<Rightarrow> ('v, 's, 't) wave_data \<Rightarrow> (move_error, nat \<times> ('v, 's, 't) wave_data) outcome" where
  "insert_displayed new_item target move_focus w =
     (let r = display_item_ref_counter w + 1 in
      and_then (expect (insert_item (items_tree w) r (target_or_focus w target))) (\<lambda>(idx, tree).
        Ok (r, w\<lparr>display_item_ref_counter := r,
          items_tree := xselect_all_visible tree False,
          displayed_items := (displayed_items w)(r := Some new_item),
          focused_item := (if move_focus then (case focused_item w of None \<Rightarrow> None | Some _ \<Rightarrow> visible_of_index tree idx)
             else focused_item w)\<rparr>)))"

definition add_divider :: "string option \<Rightarrow> nat option \<Rightarrow> ('v, 's, 't) wave_data
    \<Rightarrow> (move_error, nat \<times> ('v, 's, 't) wave_data) outcome" where
  "add_divider name vidx w = insert_displayed
     (ItemDivider \<lparr>dd_color = None, dd_background = None, dd_name = name\<rparr>) (insert_position w vidx) True w"

definition add_timeline :: "nat option \<Rightarrow> ('v, 's, 't) wave_data
    \<Rightarrow> (move_error, nat \<times> ('v, 's, 't) wave_data) outcome" where
  "add_timeline vidx w = insert_displayed
     (ItemTimeLine \<lparr>dt_color = None, dt_background = None, dt_name = None\<rparr>) (insert_position w vidx) True w"

definition add_group :: "string \<Rightarrow> target_position option \<Rightarrow> ('v, 's, 't) wave_data
    \<Rightarrow> (move_error, nat \<times> ('v, 's, 't) wave_data) outcome" where
  "add_group name target w = insert_displayed
     (ItemGroup \<lparr>dg_name = name, dg_color = None, dg_background = None, dg_content = [], dg_is_open = False\<rparr>)
     target True w"

fun show_protocol :: "protocol \<Rightarrow> string" where
  "show_protocol Spi = ''SPI''"
| "show_protocol I2c = ''I2C''"
| "show_protocol Uart = ''UART''"

text \<open>The rows of a decoder, from the last lane to the first.\<close>

fun add_decoder_rows :: "(nat \<Rightarrow> ('v, 's) displayed_item) \<Rightarrow> target_position option \<Rightarrow> nat
    \<Rightarrow> ('v, 's, 't) wave_data \<Rightarrow> (move_error, ('v, 's, 't) wave_data) outcome" where
  "add_decoder_rows row target 0 w = Ok w"
| "add_decoder_rows row target (Suc lane) w =
     and_then (insert_displayed (row lane) target (lane = 0) w) (\<lambda>(_, w'). add_decoder_rows row target lane w')"

definition decoder_row :: "nat \<Rightarrow> protocol \<Rightarrow> ('v, 's) role_bindings \<Rightarrow> nat \<Rightarrow> ('v, 's) displayed_item" where
  "decoder_row inst p bindings lane = ItemDecoder \<lparr>de_instance = inst, de_settings = for_protocol p,
     de_bindings = bindings, de_lane = lane, de_color = None, de_background = None,
     de_display_name = show_protocol p @ '' '' @ lane_names (for_protocol p) ! lane, de_manual_name = None\<rparr>"

definition add_decoder :: "protocol \<Rightarrow> ('v, 's) variable_ref list \<Rightarrow> target_position option \<Rightarrow> ('v, 's, 't) wave_data
    \<Rightarrow> (move_error, nat \<times> ('v, 's, 't) wave_data) outcome" where
  "add_decoder p sigs target w =
     (let inst = next_decoder_instance w in
      and_then (add_decoder_rows (decoder_row inst p (guess p sigs)) target (length (lane_names (for_protocol p)))
        (w\<lparr>next_decoder_instance := inst + 1\<rparr>)) (\<lambda>w'. Ok (inst, w')))"

fun reconfigure :: "nat \<Rightarrow> decoder_settings \<Rightarrow> ('v, 's) role_bindings \<Rightarrow> ('v, 's) displayed_item \<Rightarrow> ('v, 's) displayed_item" where
  "reconfigure inst settings bindings (ItemDecoder d) =
     (if de_instance d = inst then
        ItemDecoder (d\<lparr>de_settings := settings, de_bindings := bindings,
          de_display_name := (case get (lane_names settings) (de_lane d) of
             Some name \<Rightarrow> show_protocol (protocol_of settings) @ '' '' @ name | None \<Rightarrow> de_display_name d)\<rparr>)
      else ItemDecoder d)"
| "reconfigure inst settings bindings i = i"

definition configure_decoder :: "nat \<Rightarrow> decoder_settings \<Rightarrow> ('v, 's) role_bindings
    \<Rightarrow> ('v, 's, 't) wave_data \<Rightarrow> ('v, 's, 't) wave_data" where
  "configure_decoder inst settings bindings w =
     w\<lparr>displayed_items := \<lambda>r. map_option (reconfigure inst settings bindings) (displayed_items w r)\<rparr>"

text \<open>
  Adding variables: \<open>meta\<close> is the waveform's \<^verbatim>\<open>variable_meta\<close> and \<open>info_for\<close> the \<^verbatim>\<open>variable_info\<close> of the
  translator that \<^verbatim>\<open>variable_translator\<close> picks: it may fail, which the code unwraps. Without \<open>ignore_failures\<close> the first unknown variable ends
  the loop, which the flag in the result tells; the references added so far are returned.
\<close>

definition new_variable :: "variable_name_type \<Rightarrow> variable_info \<Rightarrow> ('v, 's) variable_ref \<Rightarrow> ('v, 's) displayed_item" where
  "new_variable nt info v = ItemVariable \<lparr>dv_ref = v, dv_info = info, dv_color = None, dv_background = None,
     dv_display_name = vr_name v, dv_name_type = nt, dv_manual_name = None, dv_format = None,
     dv_field_formats = [], dv_height = None, dv_analog = None\<rparr>"

fun add_variables_loop :: "(('v, 's) variable_ref \<Rightarrow> 'm option) \<Rightarrow> ('m \<Rightarrow> variable_info option) \<Rightarrow> bool \<Rightarrow> variable_name_type option
    \<Rightarrow> ('v, 's) variable_ref list \<Rightarrow> target_position \<Rightarrow> nat list \<Rightarrow> ('v, 's, 't) wave_data
    \<Rightarrow> (move_error, bool \<times> nat list \<times> ('v, 's, 't) wave_data) outcome" where
  "add_variables_loop meta info_for ignore_failures nt [] pos indices w = Ok (True, indices, w)"
| "add_variables_loop meta info_for ignore_failures nt (v # vs) pos indices w = (case meta v of
     None \<Rightarrow> if ignore_failures then add_variables_loop meta info_for ignore_failures nt vs pos indices w
             else Ok (False, indices, w)
   | Some m \<Rightarrow> (case info_for m of None \<Rightarrow> Panic
     | Some info \<Rightarrow> and_then (insert_displayed (new_variable (or_else nt (default_name_type w)) info v) (Some pos) True w)
         (\<lambda>(r, w'). add_variables_loop meta info_for ignore_failures nt vs
            \<lparr>tp_before = tp_before pos + 1, tp_level = tp_level pos\<rparr> (indices @ [r]) w')))"

subsection \<open>Display names\<close>

definition displayed_variable_refs :: "('v, 's, 't) wave_data \<Rightarrow> ('v, 's) variable_ref list" where
  "displayed_variable_refs w = List.map_filter (\<lambda>n. case displayed_items w (item_ref n) of
     Some (ItemVariable v) \<Rightarrow> Some (dv_ref v) | _ \<Rightarrow> None) (items_tree w)"

text \<open>\<^verbatim>\<open>Itertools::unique\<close>: the first of every class of equal references.\<close>

fun unique_refs :: "('v, 's) variable_ref list \<Rightarrow> ('v, 's) variable_ref list" where
  "unique_refs [] = []"
| "unique_refs (v # vs) = v # filter (\<lambda>u. \<not> var_eq v u) (unique_refs vs)"

definition variable_display_name :: "(string \<Rightarrow> string option) \<Rightarrow> (('v, 's) variable_ref \<Rightarrow> variable_index option) \<Rightarrow> bool
    \<Rightarrow> ('v, 's) displayed_variable \<Rightarrow> string" where
  "variable_display_name minimal_map index_of with_indices v =
     (let name = (case dv_name_type v of
          LocalName \<Rightarrow> vr_name (dv_ref v)
        | GlobalName \<Rightarrow> full_path_string (dv_ref v)
        | UniqueName \<Rightarrow> or_else (minimal_map (full_path_string (dv_ref v))) (vr_name (dv_ref v)))
      in if with_indices then name @ (case index_of (dv_ref v) of Some i \<Rightarrow> '' '' @ show_variable_index i | None \<Rightarrow> '''')
         else name)"

fun rename_variable :: "(('v, 's) displayed_variable \<Rightarrow> string) \<Rightarrow> ('v, 's) displayed_item \<Rightarrow> ('v, 's) displayed_item" where
  "rename_variable name (ItemVariable v) = ItemVariable (v\<lparr>dv_display_name := name v\<rparr>)"
| "rename_variable name i = i"

definition compute_variable_display_names :: "string list \<Rightarrow> (('v, 's) variable_ref \<Rightarrow> variable_index option)
    \<Rightarrow> ('v, 's, 't) wave_data \<Rightarrow> ('v, 's, 't) wave_data" where
  "compute_variable_display_names locals index_of w =
     (let minimal_map = compute_minimal_display_map locals (unique_refs (displayed_variable_refs w))
      in fold (\<lambda>n. modify_item (rename_variable
           (variable_display_name minimal_map index_of (display_variable_indices w))) (item_ref n)) (items_tree w) w)"

fun set_name_type :: "variable_name_type \<Rightarrow> ('v, 's) displayed_item \<Rightarrow> ('v, 's) displayed_item" where
  "set_name_type nt (ItemVariable v) = ItemVariable (v\<lparr>dv_name_type := nt\<rparr>)"
| "set_name_type nt i = i"

definition force_variable_name_type :: "string list \<Rightarrow> (('v, 's) variable_ref \<Rightarrow> variable_index option)
    \<Rightarrow> variable_name_type \<Rightarrow> ('v, 's, 't) wave_data \<Rightarrow> ('v, 's, 't) wave_data" where
  "force_variable_name_type locals index_of nt w =
     compute_variable_display_names locals index_of
       ((fold (\<lambda>n. modify_item (set_name_type nt) (item_ref n)) (items_tree w) w)\<lparr>default_name_type := nt\<rparr>)"

subsection \<open>Removing items\<close>

definition arrow_is_attached :: "nat \<Rightarrow> nat option \<Rightarrow> bool" where
  "arrow_is_attached r to \<longleftrightarrow> to = Some r"

definition rect_is_attached :: "nat \<Rightarrow> nat option \<Rightarrow> nat option \<Rightarrow> bool" where
  "rect_is_attached r from to \<longleftrightarrow> from = Some r \<or> to = Some r"

fun is_attached :: "nat \<Rightarrow> annotation_anchor \<Rightarrow> bool" where
  "is_attached r (AnchorArrow to) \<longleftrightarrow> arrow_is_attached r to"
| "is_attached r (AnchorRect from to) \<longleftrightarrow> rect_is_attached r from to"

definition forget_item :: "nat \<Rightarrow> ('v, 's, 't) wave_data \<Rightarrow> ('v, 's, 't) wave_data" where
  "forget_item r w = w\<lparr>
     displayed_items := (displayed_items w)(r := None),
     markers := (case displayed_items w r of Some i \<Rightarrow>
         (case marker_idx i of Some k \<Rightarrow> (markers w)(k := None) | None \<Rightarrow> markers w) | None \<Rightarrow> markers w),
     annotations := filter (\<lambda>a. \<not> is_attached r (an_anchor a)) (annotations w)\<rparr>"

definition refocus :: "nat option \<Rightarrow> ('v, 's, 't) wave_data \<Rightarrow> nat option" where
  "refocus old_ref w = (case old_ref of None \<Rightarrow> None | Some r \<Rightarrow>
     (case visible_of_ref (items_tree w) r of
        Some vidx \<Rightarrow> Some vidx
      | None \<Rightarrow>
          if (case focused_item w of None \<Rightarrow> False | Some f \<Rightarrow> to_displayed (items_tree w) f \<noteq> None) then focused_item w
          else if iter_visible (items_tree w) = [] then None else Some (length (iter_visible (items_tree w)) - 1)))"

definition remove_displayed_item :: "nat \<Rightarrow> ('v, 's, 't) wave_data \<Rightarrow> (move_error, ('v, 's, 't) wave_data) outcome" where
  "remove_displayed_item r w = (case index_of_ref (items_tree w) r of
     None \<Rightarrow> Ok w
   | Some idx \<Rightarrow> and_then (remove_recursive (items_tree w) idx) (\<lambda>(removed, tree).
       let w' = fold forget_item removed (w\<lparr>items_tree := tree\<rparr>)
       in Ok (w'\<lparr>focused_item := refocus (focused_ref w) w'\<rparr>)))"

definition remove_placeholders :: "('v, 's, 't) wave_data \<Rightarrow> ('v, 's, 't) wave_data" where
  "remove_placeholders w =
     (let (removed, tree) = drain_recursive_if (\<lambda>n. case displayed_items w (item_ref n) of
            Some i \<Rightarrow> is_placeholder i | None \<Rightarrow> False) (items_tree w)
      in w\<lparr>items_tree := tree, displayed_items := fold (\<lambda>r m. m(r := None)) removed (displayed_items w)\<rparr>)"

text \<open>
  Reload of the waveform: every item is updated, the tree loses those that are gone. \<open>order\<close> is the order
  of the hash map; \<open>update_ref\<close>, \<open>meta\<close> and \<open>info_for\<close> are the new waveform and its translators. A translator that
  fails is a panic of the code, and so is the assertion that a removed row has nothing below it.
\<close>

definition updated_item :: "(('v, 's) variable_ref \<Rightarrow> ('v, 's) variable_ref option) \<Rightarrow> (('v, 's) variable_ref \<Rightarrow> 'm option)
    \<Rightarrow> (string option \<Rightarrow> 'm \<Rightarrow> variable_info option) \<Rightarrow> bool \<Rightarrow> ('v, 's) displayed_item
    \<Rightarrow> (move_error, ('v, 's) displayed_item option) outcome" where
  "updated_item update_ref meta info_for keep_unavailable i = (case i of
     ItemVariable v \<Rightarrow> Ok (update_variable update_ref keep_unavailable v)
   | ItemPlaceholder p \<Rightarrow>
       (case update_ref (dp_ref p) of
          None \<Rightarrow> Ok (if keep_unavailable then Some (item_clone i) else None)
        | Some r \<Rightarrow> (case meta r of
            None \<Rightarrow> Ok (Some (item_clone i))
          | Some m \<Rightarrow> (case info_for (dp_format p) m of
              None \<Rightarrow> Panic
            | Some info \<Rightarrow> Ok (Some (ItemVariable (into_variable info r
                (p\<lparr>dp_analog := map_option analog_clone (dp_analog p)\<rparr>)))))))
   | _ \<Rightarrow> Ok (Some i))"

fun update_displayed_items :: "(('v, 's) displayed_item \<Rightarrow> (move_error, ('v, 's) displayed_item option) outcome) \<Rightarrow> nat list
    \<Rightarrow> (nat \<Rightarrow> ('v, 's) displayed_item option) \<Rightarrow> item_tree \<times> (nat \<Rightarrow> ('v, 's) displayed_item option)
    \<Rightarrow> (move_error, item_tree \<times> (nat \<Rightarrow> ('v, 's) displayed_item option)) outcome" where
  "update_displayed_items upd [] items (tree, out) = Ok (tree, out)"
| "update_displayed_items upd (r # order) items (tree, out) = (case items r of
     None \<Rightarrow> update_displayed_items upd order items (tree, out)
   | Some i \<Rightarrow> (case upd i of
       Panic \<Rightarrow> Panic
     | Err e \<Rightarrow> Err e
     | Ok (Some i') \<Rightarrow> update_displayed_items upd order items (tree, out(r := Some i'))
     | Ok None \<Rightarrow> let (removed, tree') = drain_recursive_if (\<lambda>n. item_ref n = r) tree
               in if length removed \<le> 1 then update_displayed_items upd order items (tree', out) else Panic))"

subsection \<open>Markers\<close>

definition resolve_marker_name :: "nat list \<Rightarrow> string \<Rightarrow> ('v, 's, 't) wave_data \<Rightarrow> nat option" where
  "resolve_marker_name order name w = (case strip_prefix ''#'' name of
     Some id_str \<Rightarrow> parse_unsigned 8 10 id_str
   | None \<Rightarrow> (case List.find (\<lambda>r. case displayed_items w r of Some (ItemMarker m) \<Rightarrow> dm_name m = Some name | _ \<Rightarrow> False) order of
       Some r \<Rightarrow> (case displayed_items w r of Some i \<Rightarrow> marker_idx i | None \<Rightarrow> None)
     | None \<Rightarrow> None))"

text \<open>The keys are \<^verbatim>\<open>u8\<close>, so the size of the map is the number of its keys below 256.\<close>

definition can_add_marker :: "('v, 's, 't) wave_data \<Rightarrow> bool" where
  "can_add_marker w \<longleftrightarrow> length (filter (\<lambda>k. markers w k \<noteq> None) [0..<256]) < 255"

definition new_marker :: "string option \<Rightarrow> nat \<Rightarrow> ('v, 's) displayed_item" where
  "new_marker name idx = ItemMarker \<lparr>dm_color = None, dm_background = None, dm_name = name, dm_idx = idx\<rparr>"

definition add_marker :: "int \<Rightarrow> string option \<Rightarrow> bool \<Rightarrow> ('v, 's, 't) wave_data
    \<Rightarrow> (move_error, nat option \<times> ('v, 's, 't) wave_data) outcome" where
  "add_marker location name move_focus w =
     (if \<not> can_add_marker w then Ok (None, w)
      else case List.find (\<lambda>k. markers w k = None) [0..<255] of
        None \<Rightarrow> Ok (None, w)
      | Some idx \<Rightarrow> and_then (insert_displayed (new_marker name idx) None move_focus w)
          (\<lambda>(r, w'). Ok (Some r, w'\<lparr>markers := (markers w')(idx := Some location)\<rparr>)))"

definition remove_marker :: "nat list \<Rightarrow> nat \<Rightarrow> ('v, 's, 't) wave_data \<Rightarrow> (move_error, ('v, 's, 't) wave_data) outcome" where
  "remove_marker order idx w =
     (case List.find (\<lambda>r. case displayed_items w r of Some i \<Rightarrow> marker_idx i = Some idx | None \<Rightarrow> False) order of
        Some r \<Rightarrow> remove_displayed_item r w
      | None \<Rightarrow> Ok w)"

definition set_marker_position :: "nat \<Rightarrow> int \<Rightarrow> ('v, 's, 't) wave_data \<Rightarrow> (move_error, ('v, 's, 't) wave_data) outcome" where
  "set_marker_position idx location w =
     and_then (if markers w idx = None
               then and_then (insert_displayed (new_marker None idx) None True w) (\<lambda>(_, w'). Ok w') else Ok w)
       (\<lambda>w'. Ok (w'\<lparr>markers := (markers w')(idx := Some location)\<rparr>))"

definition move_marker_to_cursor :: "nat \<Rightarrow> ('v, 's, 't) wave_data \<Rightarrow> (move_error, ('v, 's, 't) wave_data) outcome" where
  "move_marker_to_cursor idx w = (case cursor w of
     Some location \<Rightarrow> set_marker_position idx location w | None \<Rightarrow> Ok w)"

subsection \<open>Signals of a decoder\<close>

text \<open>\<^verbatim>\<open>Vec::dedup\<close>: of consecutive equal references the first is kept.\<close>

fun dedup_from :: "('v, 's) variable_ref \<Rightarrow> ('v, 's) variable_ref list \<Rightarrow> ('v, 's) variable_ref list" where
  "dedup_from v [] = [v]"
| "dedup_from v (u # us) = (if var_eq u v then dedup_from v us else v # dedup_from u us)"

definition dedup_refs :: "('v, 's) variable_ref list \<Rightarrow> ('v, 's) variable_ref list" where
  "dedup_refs vs = (case vs of [] \<Rightarrow> [] | v # us \<Rightarrow> dedup_from v us)"

definition signals_of :: "nat list \<Rightarrow> ('v, 's, 't) wave_data \<Rightarrow> ('v, 's) variable_ref list" where
  "signals_of refs w =
     (let tree = items_tree w;
          ref_of = (\<lambda>n. case displayed_items w (item_ref n) of Some (ItemVariable v) \<Rightarrow> Some (dv_ref v) | _ \<Rightarrow> None);
          out = concat (map (\<lambda>idx. let n = tree ! idx in
            if item_ref n \<notin> set refs then []
            else case displayed_items w (item_ref n) of
              Some (ItemVariable v) \<Rightarrow> [dv_ref v]
            | Some (ItemGroup g) \<Rightarrow> List.map_filter ref_of (takeWhile (\<lambda>m. level n < level m) (drop (idx + 1) tree))
            | _ \<Rightarrow> []) [0..<length tree])
      in dedup_refs out)"

end
