(* ===== verification/Decoder_Rows.thy ===== *)
theory Decoder_Rows
  imports Canvas
begin

section \<open>Drawing the rows of decoders\<close>

text \<open>
  The drawing of every decoder row of the canvas (\<^verbatim>\<open>SystemState::decoder_draw_commands\<close> and \<^verbatim>\<open>bit_lane_for\<close> in
  \<^verbatim>\<open>libsurfer/src/drawing_canvas.rs\<close>) with the cache of decodes it keeps from one call to the next. The waveform is a
  parameter: what it says of a reference's signal, whether that signal is loaded, and its changes.
\<close>

text \<open>What is asked of the loaded waveform: \<^verbatim>\<open>signal_id\<close>, \<^verbatim>\<open>is_signal_loaded\<close>, and \<^verbatim>\<open>signal_accessor\<close> with its \<^verbatim>\<open>iter_changes\<close>.\<close>

record ('v, 's, 'i) signal_table =
  st_signal_id :: "('v, 's) variable_ref \<Rightarrow> 'i option"
  st_is_loaded :: "'i \<Rightarrow> bool"
  st_changes :: "'i \<Rightarrow> (nat \<times> variable_value) list option"

text \<open>The parts of \<^verbatim>\<open>WaveData\<close> a drawing reads; \<open>dw_inner\<close> is \<^verbatim>\<open>waves.inner.as_waves()\<close>.\<close>

record ('v, 's, 't, 'i) drawn_waves =
  dw_canvas :: "('v, 's, 't) wave_data"
  dw_generation :: nat
  dw_inner :: "('v, 's, 'i) signal_table option"

definition bit_lane_for :: "('v, 's, 't, 'i) drawn_waves \<Rightarrow> ('v, 's) variable_ref \<Rightarrow> bit_lane option" where
  "bit_lane_for waves v = (case dw_inner waves of None \<Rightarrow> None
     | Some inner \<Rightarrow> (case st_signal_id inner v of None \<Rightarrow> None
       | Some i \<Rightarrow> if \<not> st_is_loaded inner i then None else map_option lane_of_changes (st_changes inner i)))"

definition binding_loaded :: "('v, 's, 't, 'i) drawn_waves \<Rightarrow> ('v, 's) variable_ref option \<Rightarrow> bool" where
  "binding_loaded waves b = (case b of None \<Rightarrow> False
     | Some v \<Rightarrow> (case dw_inner waves of None \<Rightarrow> False
       | Some inner \<Rightarrow> (case st_signal_id inner v of None \<Rightarrow> False | Some i \<Rightarrow> st_is_loaded inner i)))"

text \<open>The visible decoder rows with their references, and those of one decoder instance.\<close>

definition decoder_items :: "('v, 's, 't, 'i) drawn_waves \<Rightarrow> (nat \<times> ('v, 's) displayed_decoder) list" where
  "decoder_items waves = List.map_filter (\<lambda>n. case displayed_items (dw_canvas waves) (item_ref n) of
       Some (ItemDecoder d) \<Rightarrow> Some (item_ref n, d) | _ \<Rightarrow> None) (iter_visible (items_tree (dw_canvas waves)))"

definition per_instance :: "('v, 's, 't, 'i) drawn_waves \<Rightarrow> nat \<Rightarrow> ('v, 's) displayed_decoder list" where
  "per_instance waves i = filter (\<lambda>d. de_instance d = i) (map snd (decoder_items waves))"

definition draw_key :: "('v, 's, 't, 'i) drawn_waves \<Rightarrow> ('v, 's) displayed_decoder \<Rightarrow> ('v, 's) decode_key" where
  "draw_key waves first = \<lparr>dk_generation = dw_generation waves, dk_settings = de_settings first, dk_bindings = de_bindings first,
     dk_loaded = map (binding_loaded waves) (signals (de_bindings first))\<rparr>"

definition fresh_decode :: "('v, 's, 't, 'i) drawn_waves \<Rightarrow> ('v, 's) displayed_decoder \<Rightarrow> ('v, 's) cached_decode" where
  "fresh_decode waves first = \<lparr>cd_key = draw_key waves first, cd_lanes = decode (de_settings first)
     (map (\<lambda>b. Option.bind b (bit_lane_for waves)) (signals (de_bindings first)))\<rparr>"

definition cached_or_decode :: "('v, 's, 't, 'i) drawn_waves \<Rightarrow> ('v, 's) cached_decode option \<Rightarrow> ('v, 's) displayed_decoder
    \<Rightarrow> ('v, 's) cached_decode" where
  "cached_or_decode waves entry first = (case entry of
     Some e \<Rightarrow> if is_valid_for e (draw_key waves first) then e else fresh_decode waves first
   | None \<Rightarrow> fresh_decode waves first)"

text \<open>
  The cache by instance: entries of instances without a visible row are dropped, every other instance is looked up or decoded
  with the settings and bindings of its first row.
\<close>

definition refresh_cache :: "('v, 's, 't, 'i) drawn_waves \<Rightarrow> (nat \<Rightarrow> ('v, 's) cached_decode option)
    \<Rightarrow> nat \<Rightarrow> ('v, 's) cached_decode option" where
  "refresh_cache waves cache i = (case per_instance waves i of [] \<Rightarrow> None
     | first # _ \<Rightarrow> Some (cached_or_decode waves (cache i) first))"

text \<open>
  The commands by row. The code goes instance by instance, in the order of a hash map; its only caller stores
  the commands by row, and no row occurs twice.
\<close>

definition decoder_draw_commands :: "('v, 's, 't, 'i) drawn_waves \<Rightarrow> ('p \<times> nat) list \<Rightarrow> (nat \<Rightarrow> ('v, 's) cached_decode option)
    \<Rightarrow> (nat \<Rightarrow> ('v, 's) cached_decode option) \<times> (nat \<times> ('p \<times> translated_value option) list) list" where
  "decoder_draw_commands waves timestamps cache = (let cache = refresh_cache waves cache
     in (cache, List.map_filter (\<lambda>(r, d). case cache (de_instance d) of None \<Rightarrow> None
          | Some e \<Rightarrow> map_option (\<lambda>lane. (r, lane_draw_commands lane timestamps)) (get (cd_lanes e) (de_lane d)))
        (decoder_items waves)))"

text \<open>A session draws again and again, with the cache of the drawing before.\<close>

fun draw_session :: "(nat \<Rightarrow> ('v, 's) cached_decode option) \<Rightarrow> (('v, 's, 't, 'i) drawn_waves \<times> ('p \<times> nat) list) list
    \<Rightarrow> (nat \<times> ('p \<times> translated_value option) list) list list" where
  "draw_session cache [] = []"
| "draw_session cache ((waves, ts) # rest) =
     (let (cache', cmds) = decoder_draw_commands waves ts cache in cmds # draw_session cache' rest)"

subsection \<open>Rows without a cache\<close>

text \<open>The words of a row, decoded from what is loaded now.\<close>

definition decoded_now :: "('v, 's, 't, 'i) drawn_waves \<Rightarrow> ('v, 's) displayed_decoder \<Rightarrow> decoded_lane list" where
  "decoded_now waves d = decode (de_settings d) (map (\<lambda>b. Option.bind b (bit_lane_for waves)) (signals (de_bindings d)))"

definition rows_now :: "('v, 's, 't, 'i) drawn_waves \<Rightarrow> ('p \<times> nat) list \<Rightarrow> (nat \<times> ('p \<times> translated_value option) list) list" where
  "rows_now waves ts = List.map_filter (\<lambda>(r, d).
     map_option (\<lambda>lane. (r, lane_draw_commands lane ts)) (get (decoded_now waves (hd (per_instance waves (de_instance d)))) (de_lane d)))
     (decoder_items waves)"

definition bound_refs :: "('v, 's, 't, 'i) drawn_waves \<Rightarrow> ('v, 's) variable_ref set" where
  "bound_refs waves = {v. \<exists>d \<in> snd ` set (decoder_items waves). Some v \<in> set (signals (de_bindings d))}"

text \<open>
  Two drawings of one file: under the same generation, a signal that is bound and loaded in both has the same changes in both.
  References that differ only in id and index count as the same signal.
\<close>

definition same_file :: "('v, 's, 't, 'i) drawn_waves \<Rightarrow> ('v, 's, 't, 'i) drawn_waves \<Rightarrow> bool" where
  "same_file a b \<longleftrightarrow> (dw_generation a = dw_generation b \<longrightarrow> (\<forall>v \<in> bound_refs a. \<forall>w \<in> bound_refs b.
     var_eq v w \<and> binding_loaded a (Some v) \<and> binding_loaded b (Some w) \<longrightarrow> bit_lane_for a v = bit_lane_for b w))"

subsection \<open>Lemmas\<close>

lemma not_loaded: "\<not> binding_loaded waves (Some v) \<Longrightarrow> bit_lane_for waves v = None"
  by (auto simp: binding_loaded_def bit_lane_for_def split: option.splits)

lemma fresh_lanes [simp]: "cd_lanes (fresh_decode waves d) = decoded_now waves d" "cd_key (fresh_decode waves d) = draw_key waves d"
  by (simp_all add: fresh_decode_def decoded_now_def)

lemma per_instance_mem: "d \<in> set (per_instance waves i) \<longleftrightarrow> d \<in> snd ` set (decoder_items waves) \<and> de_instance d = i"
  by (auto simp: per_instance_def)

lemma var_eq_sym: "var_eq v w \<Longrightarrow> var_eq w v" and var_eq_trans: "var_eq u v \<Longrightarrow> var_eq v w \<Longrightarrow> var_eq u w"
  by (simp_all add: var_eq_def scope_eq_def)

lemma key_eq_refl [simp]: "key_eq k k"
  by (simp add: key_eq_def bindings_eq_def list.rel_refl option.rel_refl)

lemma key_eq_meet:
  assumes "key_eq e k" "key_eq e l"
  shows "key_eq k l"
proof -
  have "list_all2 (rel_option var_eq) xs ys \<Longrightarrow> list_all2 (rel_option var_eq) xs zs \<Longrightarrow> list_all2 (rel_option var_eq) ys zs" for xs ys zs
  proof (induction arbitrary: zs rule: list_all2_induct)
    case (Cons x xs y ys)
    from Cons.prems obtain z zs' where z: "zs = z # zs'" "rel_option var_eq x z" "list_all2 (rel_option var_eq) xs zs'"
      by (auto simp: list_all2_Cons1)
    from Cons.hyps(1) z(2) have "rel_option var_eq y z"
      by (cases x; cases y; cases z) (auto intro: var_eq_trans var_eq_sym)
    with z Cons.IH show ?case by simp
  qed simp
  with assms show ?thesis by (auto simp: key_eq_def bindings_eq_def)
qed

text \<open>Equal keys under one generation of one file mean the same words.\<close>

lemma key_eq_decoded:
  assumes "same_file a b" "key_eq (draw_key a d) (draw_key b d')"
    and "d \<in> snd ` set (decoder_items a)" "d' \<in> snd ` set (decoder_items b)"
  shows "decoded_now a d = decoded_now b d'"
proof -
  let ?xs = "signals (de_bindings d)" and ?ys = "signals (de_bindings d')"
  from assms(2) have gen: "dw_generation a = dw_generation b" and set: "de_settings d = de_settings d'"
    and eq: "list_all2 (rel_option var_eq) ?xs ?ys" and loaded: "map (binding_loaded a) ?xs = map (binding_loaded b) ?ys"
    by (auto simp: key_eq_def draw_key_def bindings_eq_def)
  have "Option.bind x (bit_lane_for a) = Option.bind y (bit_lane_for b)"
    if "x \<in> set ?xs" "y \<in> set ?ys" "rel_option var_eq x y" "binding_loaded a x = binding_loaded b y" for x y
  proof (cases x)
    case None
    with that(3) show ?thesis by (cases y) simp_all
  next
    case (Some v)
    with that(3) obtain w where w: "y = Some w" "var_eq v w" by (cases y) auto
    show ?thesis
    proof (cases "binding_loaded a x")
      case True
      have "v \<in> bound_refs a" "w \<in> bound_refs b" using that(1,2) Some w(1) assms(3,4) by (auto simp: bound_refs_def)
      with True assms(1) gen Some w that(4) show ?thesis by (auto simp: same_file_def)
    next
      case False
      with that(4) Some w show ?thesis by (simp add: not_loaded)
    qed
  qed
  note same = this
  have len: "length ?xs = length ?ys" using eq by (rule list_all2_lengthD)
  have "map (\<lambda>x. Option.bind x (bit_lane_for a)) ?xs = map (\<lambda>y. Option.bind y (bit_lane_for b)) ?ys"
  proof (rule nth_equalityI)
    fix i assume "i < length (map (\<lambda>x. Option.bind x (bit_lane_for a)) ?xs)"
    then have i: "i < length ?xs" "i < length ?ys" using len by simp_all
    have "binding_loaded a (?xs ! i) = binding_loaded b (?ys ! i)" using arg_cong[OF loaded, of "\<lambda>l. l ! i"] i by simp
    then show "map (\<lambda>x. Option.bind x (bit_lane_for a)) ?xs ! i = map (\<lambda>y. Option.bind y (bit_lane_for b)) ?ys ! i"
      using same[OF nth_mem[OF i(1)] nth_mem[OF i(2)] list_all2_nthD[OF eq i(1)]] i by simp
  qed (simp add: len)
  then show ?thesis by (simp add: decoded_now_def set)
qed

text \<open>A cache is current for a drawing when each entry holds what the first row of its instance decodes to.\<close>

definition current :: "('v, 's, 't, 'i) drawn_waves \<Rightarrow> (nat \<Rightarrow> ('v, 's) cached_decode option) \<Rightarrow> bool" where
  "current waves cache \<longleftrightarrow> (\<forall>i e. cache i = Some e \<longrightarrow> (\<exists>d ds. per_instance waves i = d # ds
     \<and> key_eq (cd_key e) (draw_key waves d) \<and> cd_lanes e = decoded_now waves d))"

lemma refresh_current:
  assumes "current a cache" "same_file a b"
  shows "current b (refresh_cache b cache)"
  unfolding current_def
proof (intro allI impI)
  fix i e
  assume e: "refresh_cache b cache i = Some e"
  then obtain d ds where d: "per_instance b i = d # ds" "e = cached_or_decode b (cache i) d"
    by (auto simp: refresh_cache_def split: list.splits)
  have "key_eq (cd_key e) (draw_key b d) \<and> cd_lanes e = decoded_now b d"
  proof (cases "\<exists>e'. cache i = Some e' \<and> is_valid_for e' (draw_key b d)")
    case True
    then obtain e' where e': "cache i = Some e'" "key_eq (cd_key e') (draw_key b d)" by (auto simp: is_valid_for_def)
    with d(2) have "e = e'" by (simp add: cached_or_decode_def is_valid_for_def)
    from assms(1) e'(1) obtain c cs where c: "per_instance a i = c # cs" "key_eq (cd_key e') (draw_key a c)"
      "cd_lanes e' = decoded_now a c" unfolding current_def by blast
    have "decoded_now a c = decoded_now b d"
      using key_eq_decoded[OF assms(2) key_eq_meet[OF c(2) e'(2)]] per_instance_mem[of c a i] per_instance_mem[of d b i] c(1) d(1) by simp
    with \<open>e = e'\<close> e'(2) c(3) show ?thesis by simp
  next
    case False
    then have "e = fresh_decode b d" using d(2) by (auto simp: cached_or_decode_def split: option.splits)
    then show ?thesis by simp
  qed
  with d(1) show "\<exists>d ds. per_instance b i = d # ds \<and> key_eq (cd_key e) (draw_key b d) \<and> cd_lanes e = decoded_now b d" by blast
qed

lemma refresh_current_empty: "current b (refresh_cache b (\<lambda>i. None))"
  by (auto simp: current_def refresh_cache_def cached_or_decode_def split: list.splits)

lemma map_filter_same: "(\<And>x. x \<in> set xs \<Longrightarrow> f x = g x) \<Longrightarrow> List.map_filter f xs = List.map_filter g xs"
proof (induction xs)
  case (Cons x xs)
  then have "f x = g x" "List.map_filter f xs = List.map_filter g xs" by simp_all
  then show ?case by (simp only: map_filter_simps)
qed simp

lemma drawn_rows:
  assumes "current waves (refresh_cache waves cache)"
  shows "snd (decoder_draw_commands waves ts cache) = rows_now waves ts"
proof -
  have "(case refresh_cache waves cache (de_instance d) of None \<Rightarrow> None
        | Some e \<Rightarrow> map_option (\<lambda>lane. (r, lane_draw_commands lane ts)) (get (cd_lanes e) (de_lane d)))
      = map_option (\<lambda>lane. (r, lane_draw_commands lane ts))
          (get (decoded_now waves (hd (per_instance waves (de_instance d)))) (de_lane d))"
    if "(r, d) \<in> set (decoder_items waves)" for r d
  proof -
    have "d \<in> set (per_instance waves (de_instance d))" using that by (force simp: per_instance_mem)
    then obtain c cs where c: "per_instance waves (de_instance d) = c # cs" by (cases "per_instance waves (de_instance d)") auto
    then obtain e where e: "refresh_cache waves cache (de_instance d) = Some e" by (simp add: refresh_cache_def)
    with assms c have "cd_lanes e = decoded_now waves c" unfolding current_def by fastforce
    with c e show ?thesis by simp
  qed
  then show ?thesis by (auto simp: decoder_draw_commands_def rows_now_def Let_def intro!: map_filter_same)
qed

lemma draw_session_current:
  assumes "successively same_file (waves # map fst frames)" "current waves cache"
  shows "draw_session cache frames = map (\<lambda>(w, ts). rows_now w ts) frames"
  using assms
proof (induction frames arbitrary: waves cache)
  case (Cons f frames)
  obtain w ts where f: "f = (w, ts)" by (cases f)
  with Cons.prems have same: "same_file waves w" and rest: "successively same_file (w # map fst frames)" by simp_all
  have c: "current w (refresh_cache w cache)" using Cons.prems(2) same by (rule refresh_current)
  from Cons.IH[OF rest c] drawn_rows[OF c] show ?case by (simp add: f decoder_draw_commands_def Let_def)
qed simp

subsection \<open>Properties\<close>

text \<open>
  C16. The cache of decodes never changes what is drawn. In a session of drawings that starts without a cache, in which rows,
  settings and bindings change, signals become loaded and files are reloaded, every drawing shows for every visible decoder row
  the words decoded from the signals that are bound and loaded at that moment, provided that from one drawing to the next, as long
  as the generation stays, the changes of a loaded signal stay and equal references name one signal.
\<close>

theorem decoder_cache_transparent:
  assumes "successively same_file (map fst frames)"
  shows "draw_session (\<lambda>i. None) frames = map (\<lambda>(w, ts). rows_now w ts) frames"
proof (cases frames)
  case (Cons f rest)
  obtain w ts where f: "f = (w, ts)" by (cases f)
  have c: "current w (refresh_cache w (\<lambda>i. None))" by (rule refresh_current_empty)
  from assms have s: "successively same_file (w # map fst rest)" by (simp add: Cons f)
  from draw_session_current[OF s c] drawn_rows[OF c] show ?thesis by (simp add: Cons f decoder_draw_commands_def Let_def)
qed simp

definition decoder_row :: "int option \<Rightarrow> (unit, unit) displayed_decoder" where
  "decoder_row i = \<lparr>de_instance = 0, de_settings = UartSettings uart_default, de_bindings = \<lparr>signals = [Some (sample_ref\<lparr>vr_index := i\<rparr>)]\<rparr>,
     de_lane = 0, de_color = None, de_background = None, de_display_name = ''uart'', de_manual_name = None\<rparr>"

definition uart_values :: "(nat \<times> variable_value) list" where
  "uart_values = map (\<lambda>(t, b). (t, BigUint (if is_high b then 1 else 0))) (changes uart_sample_line)"

text \<open>A canvas with one decoder row, the generation, whether the signal is loaded, and the changes of the elements of an array.\<close>

definition decoder_frame :: "int option \<Rightarrow> nat \<Rightarrow> bool \<Rightarrow> (int option \<Rightarrow> (nat \<times> variable_value) list)
    \<Rightarrow> (unit, unit, unit, int option) drawn_waves" where
  "decoder_frame i g l cs = \<lparr>dw_canvas = \<lparr>items_tree = [\<lparr>item_ref = 1, level = 0, unfolded = True, selected = False\<rparr>],
       displayed_items = [1 \<mapsto> ItemDecoder (decoder_row i)], display_item_ref_counter = 1, next_decoder_instance = 1,
       cursor = None, markers = Map.empty, selected_annotation = None, annotations = [], annotation_groups = [],
       annotation_list_visible = False, annotation_counter = 0, focused_item = None, focused_transaction = (None, None),
       default_name_type = LocalName, display_variable_indices = False\<rparr>, dw_generation = g,
     dw_inner = Some \<lparr>st_signal_id = (\<lambda>v. Some (vr_index v)), st_is_loaded = (\<lambda>s. l), st_changes = (\<lambda>s. Some (cs s))\<rparr>\<rparr>"

lemma decoder_frame_items: "decoder_items (decoder_frame i g l cs) = [(1, decoder_row i)]"
proof -
  have "iter_visible [\<lparr>item_ref = 1, level = 0, unfolded = True, selected = False\<rparr>] = [\<lparr>item_ref = 1, level = 0, unfolded = True, selected = False\<rparr>]"
    by code_simp
  then show ?thesis by (simp add: decoder_items_def decoder_frame_def map_filter_simps)
qed

lemma decoder_cache_transparent_witness:
  "draw_session (\<lambda>i. None) [(decoder_frame None 0 False (\<lambda>i. uart_values), [(0 :: nat, 20)]),
     (decoder_frame None 0 True (\<lambda>i. uart_values), [(0, 20)]), (decoder_frame None 1 True (\<lambda>i. []), [(0, 20)])] =
   [rows_now (decoder_frame None 0 False (\<lambda>i. uart_values)) [(0, 20)],
    rows_now (decoder_frame None 0 True (\<lambda>i. uart_values)) [(0, 20)], rows_now (decoder_frame None 1 True (\<lambda>i. [])) [(0, 20)]]"
proof -
  have "same_file (decoder_frame None 0 False (\<lambda>i. uart_values)) (decoder_frame None 0 True (\<lambda>i. uart_values))"
    "same_file (decoder_frame None 0 True (\<lambda>i. uart_values)) (decoder_frame None 1 True (\<lambda>i. []))"
    by (simp_all add: same_file_def decoder_frame_def binding_loaded_def)
  then show ?thesis
    using decoder_cache_transparent[of "[(decoder_frame None 0 False (\<lambda>i. uart_values), [(0 :: nat, 20)]),
     (decoder_frame None 0 True (\<lambda>i. uart_values), [(0, 20)]), (decoder_frame None 1 True (\<lambda>i. []), [(0, 20)])]"] by simp
qed

text \<open>
  References that differ only in their array index count as equal, so rebinding a role from one
  element of an array of variables to another leaves the cached decode valid: the row goes on showing the
  words of the element bound before.
\<close>

theorem cache_ignores_index:
  assumes "de_bindings d = \<lparr>signals = [Some v]\<rparr>"
    and "binding_loaded waves (Some (v\<lparr>vr_index := i\<rparr>)) = binding_loaded waves (Some v)"
  shows "cached_or_decode waves (Some (fresh_decode waves d)) (d\<lparr>de_bindings := \<lparr>signals = [Some (v\<lparr>vr_index := i\<rparr>)]\<rparr>\<rparr>)
    = fresh_decode waves d"
  using assms by (simp add: cached_or_decode_def is_valid_for_def draw_key_def key_eq_def bindings_eq_def var_eq_def scope_eq_def)

definition element_values :: "int option \<Rightarrow> (nat \<times> variable_value) list" where
  "element_values i = (if i = Some 0 then uart_values else [])"

lemma cache_ignores_index_witness:
  "let waves = decoder_frame (Some 0) 0 True element_values in
   cached_or_decode waves (Some (fresh_decode waves (decoder_row (Some 0)))) (decoder_row (Some 1)) = fresh_decode waves (decoder_row (Some 0))
   \<and> decoded_now waves (decoder_row (Some 0)) \<noteq> decoded_now waves (decoder_row (Some 1))"
proof -
  let ?w = "decoder_frame (Some 0) 0 True element_values" and ?v = "sample_ref\<lparr>vr_index := Some 0\<rparr>"
  have d: "decoder_row (Some 1) = decoder_row (Some 0)\<lparr>de_bindings := \<lparr>signals = [Some (?v\<lparr>vr_index := Some 1\<rparr>)]\<rparr>\<rparr>"
    by (simp add: decoder_row_def)
  have "cached_or_decode ?w (Some (fresh_decode ?w (decoder_row (Some 0)))) (decoder_row (Some 1)) = fresh_decode ?w (decoder_row (Some 0))"
    unfolding d by (rule cache_ignores_index) (simp_all add: decoder_row_def decoder_frame_def binding_loaded_def)
  moreover have "decoded_now ?w (decoder_row (Some 0)) \<noteq> decoded_now ?w (decoder_row (Some 1))" by code_simp
  ultimately show ?thesis by (simp add: Let_def)
qed

end
