(* ===== verification/Annotations.thy ===== *)
theory Annotations
  imports Canvas
begin

section \<open>Annotations and their groups (annotation.rs, annotation\_list.rs)\<close>

text \<open>
  The operations on the list of annotations and on the groups that name them by id. Ids are egui's; here
  they are numbers.
\<close>

definition default_group_name :: string where "default_group_name = ''Ungrouped''"

definition new_annotation :: "nat \<Rightarrow> string \<Rightarrow> int \<Rightarrow> annotation_anchor \<Rightarrow> annotation" where
  "new_annotation i default_type num anchor = \<lparr>an_id = i, an_visible = True,
     an_name = default_type @ '' '' @ show_int num, an_show_comments = False, an_anchor = anchor\<rparr>"

definition delete_annotation :: "nat \<Rightarrow> ('v, 's, 't) wave_data \<Rightarrow> ('v, 's, 't) wave_data" where
  "delete_annotation i w = w\<lparr>annotations := filter (\<lambda>a. an_id a \<noteq> i) (annotations w)\<rparr>"

text \<open>\<^verbatim>\<open>iter_mut().find\<close>: the first annotation with the id is changed.\<close>

fun update_first :: "('a \<Rightarrow> bool) \<Rightarrow> ('a \<Rightarrow> 'a) \<Rightarrow> 'a list \<Rightarrow> 'a list" where
  "update_first p f [] = []"
| "update_first p f (x # xs) = (if p x then f x # xs else x # update_first p f xs)"

definition update_annotation :: "nat \<Rightarrow> (annotation \<Rightarrow> annotation) \<Rightarrow> ('v, 's, 't) wave_data \<Rightarrow> ('v, 's, 't) wave_data" where
  "update_annotation i f w = w\<lparr>annotations := update_first (\<lambda>a. an_id a = i) f (annotations w)\<rparr>"

fun remove_from_groups :: "nat \<Rightarrow> annotation_group list \<Rightarrow> nat option \<times> annotation_group list" where
  "remove_from_groups i [] = (None, [])"
| "remove_from_groups i (g # gs) =
     (if i \<in> set (ag_annotations g) then
        (Some i, g\<lparr>ag_cycle_counter := 0, ag_annotations := remove1 i (ag_annotations g)\<rparr> # gs)
      else let (r, gs') = remove_from_groups i gs in (r, g # gs'))"

definition remove_annotation_from_group :: "nat \<Rightarrow> ('v, 's, 't) wave_data \<Rightarrow> nat option \<times> ('v, 's, 't) wave_data" where
  "remove_annotation_from_group i w =
     (let (r, gs) = remove_from_groups i (annotation_groups w) in (r, w\<lparr>annotation_groups := gs\<rparr>))"

fun clear_groups :: "string \<Rightarrow> annotation_group list \<Rightarrow> annotation list \<Rightarrow> annotation_group list \<times> annotation list" where
  "clear_groups name [] as = ([], as)"
| "clear_groups name (g # gs) as =
     (if ag_name g = name then
        let (gs', as') = clear_groups name gs (filter (\<lambda>a. an_id a \<notin> set (ag_annotations g)) as)
        in (g\<lparr>ag_cycle_counter := 0, ag_annotations := []\<rparr> # gs', as')
      else let (gs', as') = clear_groups name gs as in (g # gs', as'))"

definition remove_all_annotations_from_group :: "string \<Rightarrow> ('v, 's, 't) wave_data \<Rightarrow> ('v, 's, 't) wave_data" where
  "remove_all_annotations_from_group name w =
     (let (gs, as) = clear_groups name (annotation_groups w) (annotations w)
      in w\<lparr>annotation_groups := gs, annotations := as\<rparr>)"

fun remove_first :: "('a \<Rightarrow> bool) \<Rightarrow> 'a list \<Rightarrow> 'a list" where
  "remove_first p [] = []"
| "remove_first p (x # xs) = (if p x then xs else x # remove_first p xs)"

definition delete_group :: "string \<Rightarrow> ('v, 's, 't) wave_data \<Rightarrow> ('v, 's, 't) wave_data" where
  "delete_group name w = w\<lparr>annotation_groups := remove_first (\<lambda>g. ag_name g = name) (annotation_groups w)\<rparr>"

definition add_annotation_to_group :: "string \<Rightarrow> nat \<Rightarrow> ('v, 's, 't) wave_data \<Rightarrow> ('v, 's, 't) wave_data" where
  "add_annotation_to_group name i w = w\<lparr>annotation_groups :=
     update_first (\<lambda>g. ag_name g = name) (\<lambda>g. g\<lparr>ag_annotations := ag_annotations g @ [i]\<rparr>) (annotation_groups w)\<rparr>"

definition annotation_is_in_group :: "nat \<Rightarrow> ('v, 's, 't) wave_data \<Rightarrow> bool" where
  "annotation_is_in_group i w \<longleftrightarrow> (\<exists>g \<in> set (annotation_groups w). i \<in> set (ag_annotations g))"

definition get_group_from_annotation :: "nat \<Rightarrow> ('v, 's, 't) wave_data \<Rightarrow> annotation_group option" where
  "get_group_from_annotation i w = List.find (\<lambda>g. i \<in> set (ag_annotations g)) (annotation_groups w)"

subsection \<open>Moving between groups\<close>

lemma remove_from_groups_found: "fst (remove_from_groups i gs) = (if \<exists>g \<in> set gs. i \<in> set (ag_annotations g) then Some i else None)"
  by (induction gs) (auto simp: split_beta)

end
