(* ===== verification/Canvas_Inv.thy ===== *)
theory Canvas_Inv
  imports Canvas
begin

section \<open>Invariants of the canvas\<close>

text \<open>
  What every operation on the canvas keeps: the tree and the items have the same references, each once,
  none above the counter that hands out new ones; the markers are those of the marker items; only groups
  have rows below them. The lemmas are per operation; the handlers of the messages are composed of them.
\<close>

definition tree_refs :: "item_tree \<Rightarrow> nat multiset" where
  "tree_refs t = mset (map item_ref t)"

definition refs_ok :: "item_tree \<Rightarrow> (nat \<Rightarrow> ('v, 's) displayed_item option) \<Rightarrow> nat \<Rightarrow> bool" where
  "refs_ok t items n \<longleftrightarrow> distinct (map item_ref t) \<and> set (map item_ref t) = dom items \<and> (\<forall>r \<in> dom items. r \<le> n)"

definition marks :: "(nat \<Rightarrow> ('v, 's) displayed_item option) \<Rightarrow> nat \<Rightarrow> nat \<Rightarrow> bool" where
  "marks items r k \<longleftrightarrow> (case items r of Some i \<Rightarrow> marker_idx i = Some k | None \<Rightarrow> False)"

definition markers_ok :: "(nat \<Rightarrow> ('v, 's) displayed_item option) \<Rightarrow> (nat \<Rightarrow> int option) \<Rightarrow> bool" where
  "markers_ok items ms \<longleftrightarrow> (\<forall>k. ms k \<noteq> None \<longleftrightarrow> (\<exists>r. marks items r k)) \<and>
     (\<forall>r s k. marks items r k \<longrightarrow> marks items s k \<longrightarrow> r = s)"

definition group_ref :: "(nat \<Rightarrow> ('v, 's) displayed_item option) \<Rightarrow> nat \<Rightarrow> bool" where
  "group_ref items r \<longleftrightarrow> (case items r of Some i \<Rightarrow> is_group i | None \<Rightarrow> False)"

definition parents_ok :: "item_tree \<Rightarrow> (nat \<Rightarrow> bool) \<Rightarrow> bool" where
  "parents_ok t grp \<longleftrightarrow> successively (\<lambda>x y. level x < level y \<longrightarrow> grp (item_ref x)) t"

definition canvas_ok :: "('v, 's, 't) wave_data \<Rightarrow> bool" where
  "canvas_ok w \<longleftrightarrow> refs_ok (items_tree w) (displayed_items w) (display_item_ref_counter w) \<and>
     markers_ok (displayed_items w) (markers w)"

named_theorems tree_refs_simps \<open>tree operations that keep the references\<close>

subsection \<open>References\<close>

lemma refs_ok_mset:
  assumes "tree_refs t' = tree_refs t" "dom items' = dom items"
  shows "refs_ok t' items' n \<longleftrightarrow> refs_ok t items n"
  using mset_eq_imp_distinct_iff[of "map item_ref t'" "map item_ref t"]
    mset_eq_setD[of "map item_ref t'" "map item_ref t"] assms
  by (simp add: refs_ok_def tree_refs_def)

lemma refs_ok_tree: "tree_refs t' = tree_refs t \<Longrightarrow> refs_ok t' items n \<longleftrightarrow> refs_ok t items n"
  by (rule refs_ok_mset) simp_all

lemma refs_ok_items: "dom items' = dom items \<Longrightarrow> refs_ok t items' n \<longleftrightarrow> refs_ok t items n"
  by (simp add: refs_ok_def)

lemma refs_ok_le: "refs_ok t items n \<Longrightarrow> n \<le> m \<Longrightarrow> refs_ok t items m"
  by (force simp: refs_ok_def)

lemma refs_ok_insert:
  assumes "refs_ok t items n" "tree_refs t' = add_mset (n + 1) (tree_refs t)"
  shows "refs_ok t' (items(n + 1 := Some i)) (n + 1)"
proof -
  have m: "mset (map item_ref t') = mset ((n + 1) # map item_ref t)" using assms(2) by (simp add: tree_refs_def)
  have ok: "distinct (map item_ref t)" "set (map item_ref t) = dom items" "\<forall>r \<in> dom items. r \<le> n"
    using assms(1) unfolding refs_ok_def by blast+
  then have "n + 1 \<notin> set (map item_ref t)" by (metis Suc_eq_plus1 not_less_eq_eq order_refl)
  then have "distinct (map item_ref t')" using mset_eq_imp_distinct_iff[OF m] ok(1) by simp
  moreover have "set (map item_ref t') = insert (n + 1) (dom items)" using mset_eq_setD[OF m] ok(2) by simp
  moreover have "\<forall>r \<in> insert (n + 1) (dom items). r \<le> n + 1" using ok(3) by (blast intro: trans_le_add1 order_refl)
  ultimately show ?thesis by (simp add: refs_ok_def)
qed

lemma refs_ok_remove:
  assumes "refs_ok t items n" "mset removed + tree_refs t' = tree_refs t"
    and "dom items' = dom items - set removed"
  shows "refs_ok t' items' n"
proof -
  have m: "mset (removed @ map item_ref t') = mset (map item_ref t)" using assms(2) by (simp add: tree_refs_def)
  have ok: "distinct (map item_ref t)" "set (map item_ref t) = dom items" "\<forall>r \<in> dom items. r \<le> n"
    using assms(1) unfolding refs_ok_def by blast+
  have d: "distinct (removed @ map item_ref t')" using mset_eq_imp_distinct_iff[OF m] ok(1) by simp
  have "set removed \<union> set (map item_ref t') = dom items" using mset_eq_setD[OF m] ok(2) by simp
  with d have "set (map item_ref t') = dom items'" unfolding assms(3) distinct_append by blast
  moreover have "\<forall>r \<in> dom items'. r \<le> n" using ok(3) unfolding assms(3) by blast
  ultimately show ?thesis using d by (simp add: refs_ok_def)
qed

lemma tree_refs_keys: "mset (map node_key t') = mset (map node_key t) \<Longrightarrow> tree_refs t' = tree_refs t"
proof -
  assume "mset (map node_key t') = mset (map node_key t)"
  then have "image_mset fst (mset (map node_key t')) = image_mset fst (mset (map node_key t))" by simp
  moreover have "map fst (map node_key u) = map item_ref u" for u by (simp add: node_key_def)
  ultimately show ?thesis unfolding tree_refs_def by (metis mset_map)
qed

lemma tree_refs_map: "map item_ref t' = map item_ref t \<Longrightarrow> tree_refs t' = tree_refs t"
  by (simp add: tree_refs_def del: mset_map)

lemma map_refs_update: "(item_ref x = item_ref (t ! i)) \<Longrightarrow> map item_ref (t[i := x]) = map item_ref t"
  by (cases "i < length t") (simp_all add: map_update list_update_same_conv list_update_beyond)

lemma tree_refs_set_selected [tree_refs_simps]: "tree_refs (set_selected b t i) = tree_refs t"
  unfolding set_selected_def by (rule tree_refs_map, rule map_refs_update) simp

lemma tree_refs_fold_selected [tree_refs_simps]: "tree_refs (foldl (set_selected b) t is) = tree_refs t"
  by (induction "is" arbitrary: t) (simp_all add: tree_refs_simps)

lemma tree_refs_xselect [tree_refs_simps]:
  "tree_refs (xselect t v b) = tree_refs t" "tree_refs (xselect_all_visible t b) = tree_refs t"
  "tree_refs (xselect_visible_range t u v b) = tree_refs t"
  by (simp_all add: xselect_def xselect_all_visible_def xselect_visible_range_def Let_def tree_refs_simps split: option.split prod.split)

lemma tree_refs_xfold_all [tree_refs_simps]: "tree_refs (xfold_all t b) = tree_refs t"
  by (rule tree_refs_map) (simp add: xfold_all_def comp_def)

lemma map_range_refs:
  assumes "\<And>x. item_ref (g x) = item_ref x" "a \<le> b" "b \<le> length t"
  shows "map item_ref (map_range a b g t) = map item_ref t"
proof -
  have "map item_ref (map_range a b g t) = map item_ref (take a t @ slice_range a b t @ drop b t)"
    by (simp add: map_range_def assms(1) comp_def)
  with slice_without_split[OF assms(2,3)] show ?thesis by simp
qed

lemma xfold_refs: "xfold t i b = Ok t' \<Longrightarrow> map item_ref t' = map item_ref t"
proof -
  let ?u = "t[i := (t ! i)\<lparr>unfolded := b\<rparr>]"
  assume x: "xfold t i b = Ok t'"
  then have i: "i < length t" by (simp add: xfold_def split: if_splits)
  have u: "map item_ref ?u = map item_ref t" by (rule map_refs_update) simp
  have "map item_ref (map_range i (subtree_end ?u i) (\<lambda>x. x\<lparr>selected := False\<rparr>) ?u) = map item_ref ?u"
    by (rule map_range_refs) (use i subtree_end_bounds[of i ?u] in auto)
  with x i u show ?thesis unfolding xfold_def Let_def by (auto split: if_splits)
qed

lemma xfold_recursive_refs: "xfold_recursive t i b = Ok t' \<Longrightarrow> map item_ref t' = map item_ref t"
proof -
  let ?u = "t[i := (t ! i)\<lparr>unfolded := b\<rparr>]"
  assume x: "xfold_recursive t i b = Ok t'"
  then have i: "i < length t" by (simp add: xfold_recursive_def split: if_splits)
  have u: "map item_ref ?u = map item_ref t" by (rule map_refs_update) simp
  have "map item_ref (map_range (i + 1) (subtree_end t i)
      (\<lambda>x. (x\<lparr>unfolded := b\<rparr>)\<lparr>selected := (if \<not> b then False else selected x)\<rparr>) ?u) = map item_ref ?u"
    by (rule map_range_refs) (use i subtree_end_bounds[of i t] in auto)
  with x i u show ?thesis unfolding xfold_recursive_def Let_def by (simp split: if_splits)
qed

subsection \<open>References of moves, insertions and removals\<close>

lemma shift_levels_refs: "shift_levels c xs = (ys, r) \<Longrightarrow> map item_ref ys = map item_ref xs"
  by (induction xs arbitrary: ys r) (auto simp: Let_def split: if_splits prod.splits)

lemma shift_subtree_refs: "shift_subtree_to_level xs l = (ys, r) \<Longrightarrow> map item_ref ys = map item_ref xs"
  by (cases xs) (auto simp: shift_subtree_to_level_def simp del: shift_levels.simps dest: shift_levels_refs)

lemma refs_slice_without:
  "a \<le> b \<Longrightarrow> b \<le> length xs \<Longrightarrow> tree_refs (slice_range a b xs) + tree_refs (without a b xs) = tree_refs xs"
  unfolding tree_refs_def mset_map by (metis image_mset_union mset_slice_without)

lemma tree_refs_append [simp]: "tree_refs (xs @ ys) = tree_refs xs + tree_refs ys"
  by (simp add: tree_refs_def)

lemma move_items_loop_refs:
  "move_items_loop items l is result ext tgt = Ok (result', ext', tgt') \<Longrightarrow>
   tree_refs result' + tree_refs ext' = tree_refs result + tree_refs ext"
proof (induction "is" arbitrary: result ext tgt)
  case (Cons s ss)
  let ?e = "subtree_end items s"
  from Cons.prems have s: "s < length items" "?e \<le> length result" by (auto simp: Let_def split: if_splits)
  obtain nodes r where n: "shift_subtree_to_level (slice_range s ?e result) l = (nodes, r)" by fastforce
  with Cons.prems s obtain tgt2 where
    "move_items_loop items l ss (without s ?e result) (nodes @ ext) tgt2 = Ok (result', ext', tgt')"
    by (auto simp: Let_def split: if_splits outcome.splits)
  then have "tree_refs result' + tree_refs ext' = tree_refs (without s ?e result) + tree_refs (nodes @ ext)" by (rule Cons.IH)
  also have "tree_refs nodes = tree_refs (slice_range s ?e result)"
    using shift_subtree_refs[OF n] by (rule tree_refs_map)
  then have "tree_refs (without s ?e result) + tree_refs (nodes @ ext) =
      (tree_refs (slice_range s ?e result) + tree_refs (without s ?e result)) + tree_refs ext" by simp
  finally show ?case using refs_slice_without[OF less_imp_le s(2)] subtree_end_bounds(1)[OF s(1)] by simp
qed simp

lemma tree_refs_take_drop: "tree_refs (take n xs @ ys @ drop n xs) = tree_refs xs + tree_refs ys"
proof -
  have "tree_refs (take n xs @ drop n xs) = tree_refs xs" by simp
  then show ?thesis by (simp only: tree_refs_append ac_simps)
qed

lemma move_items_refs: "move_items items is target = Ok items' \<Longrightarrow> tree_refs items' = tree_refs items"
proof -
  assume "move_items items is target = Ok items'"
  then obtain result block tgt' where
    loop: "move_items_loop items (tp_level target) (dedup (rev (sort is))) items [] (tp_before target) = Ok (result, block, tgt')"
    and items': "items' = take tgt' result @ block @ drop tgt' result"
    by (auto simp: move_items_def outcome_simps Let_def split: if_splits)
  from move_items_loop_refs[OF loop] show ?thesis unfolding items' tree_refs_take_drop by (simp add: tree_refs_def)
qed

lemma shift_range_refs: "a \<le> b \<Longrightarrow> b \<le> length items \<Longrightarrow> tree_refs (fst (shift_range items a b l)) = tree_refs items"
proof -
  assume ab: "a \<le> b" "b \<le> length items"
  obtain ys r where y: "shift_subtree_to_level (slice_range a b items) l = (ys, r)" by fastforce
  from shift_subtree_refs[OF y] have "map item_ref (fst (shift_range items a b l)) = map item_ref items"
    unfolding shift_range_def y using arg_cong[OF slice_without_split[OF ab], of "map item_ref"] by simp
  then show ?thesis by (rule tree_refs_map)
qed

lemma by_moving_refs: "tree_refs (fst (by_moving items (move_items items is target) v)) = tree_refs items"
  by (cases "move_items items is target") (simp_all add: by_moving_def move_items_refs)

lemma move_item_refs: "tree_refs (fst (move_item items v dir f)) = tree_refs items"
proof (cases "to_displayed items v")
  case None
  then show ?thesis by (simp add: move_item_def)
next
  case (Some i)
  then have i: "i < length items" by (rule to_displayed_range)
  note e = subtree_end_bounds[OF i]
  have sh: "tree_refs (fst (in_place (shift_range items i (subtree_end items i) l) v)) = tree_refs items" for l
    unfolding in_place_def fst_conv by (rule shift_range_refs) (use e in auto)
  note mv = by_moving_refs[of items]
  show ?thesis
    by (cases dir) (auto simp: move_item_def Some move_item_down_def move_item_up_def Let_def sh mv
      split: option.split)
qed

lemma insert_item_refs:
  assumes "insert_item t r pos = Ok (idx, t')"
  shows "tree_refs t' = add_mset r (tree_refs t)" "idx = tp_before pos" "idx \<le> length t"
    and "t' = vec_insert idx \<lparr>item_ref = r, level = tp_level pos, unfolded = True, selected = False\<rparr> t"
proof -
  from assms show t': "t' = vec_insert idx \<lparr>item_ref = r, level = tp_level pos, unfolded = True, selected = False\<rparr> t"
    and "idx = tp_before pos" by (auto simp: insert_item_def outcome_simps)
  from assms show "idx \<le> length t" by (auto simp: insert_item_def outcome_simps check_location_def split: if_splits)
  show "tree_refs t' = add_mset r (tree_refs t)" unfolding t' tree_refs_def by simp
qed

lemma remove_recursive_refs:
  assumes "remove_recursive t i = Ok (removed, t')"
  shows "mset removed + tree_refs t' = tree_refs t"
proof -
  from assms have i: "i < length t" and r: "removed = map item_ref (slice_range i (subtree_end t i) t)"
    and t': "t' = without i (subtree_end t i) t" by (auto simp: remove_recursive_def Let_def split: if_splits)
  from subtree_end_bounds[OF i] refs_slice_without[of i "subtree_end t i" t] show ?thesis
    unfolding r t' by (simp add: tree_refs_def)
qed

lemma remove_dissolve_refs:
  assumes "remove_dissolve t i = Ok (r, t')"
  shows "mset [r] + tree_refs t' = tree_refs t"
proof -
  let ?e = "subtree_end t i"
  from assms have i: "i < length t" and r: "r = item_ref (t ! i)"
    and t': "t' = take i t @ map (\<lambda>x. x\<lparr>level := level x - 1\<rparr>) (slice_range (i + 1) ?e t) @ drop ?e t"
    by (auto simp: remove_dissolve_def Let_def split: if_splits)
  have "map item_ref t = map item_ref (take i t @ t ! i # slice_range (i + 1) ?e t @ drop ?e t)"
    using subtree_split(1)[OF i] by simp
  then have "tree_refs t = tree_refs (take i t @ t ! i # slice_range (i + 1) ?e t @ drop ?e t)" by (rule tree_refs_map)
  then show ?thesis unfolding t' r by (simp add: tree_refs_def comp_def)
qed

lemma drain_refs: "mset (fst (drain_recursive_if f t)) + tree_refs (snd (drain_recursive_if f t)) = tree_refs t"
  using drain_from_mset[of f t 0 "[]"] by (simp add: drain_recursive_if_def tree_refs_def)

subsection \<open>Markers\<close>

lemma marks_upd [simp]: "marks (items(r := Some i)) s k \<longleftrightarrow> (if s = r then marker_idx i = Some k else marks items s k)"
  "marks (items(r := None)) s k \<longleftrightarrow> s \<noteq> r \<and> marks items s k"
  by (simp_all add: marks_def)

lemma marks_none: "items r = None \<Longrightarrow> \<not> marks items r k"
  by (simp add: marks_def)

lemma markers_okD:
  assumes "markers_ok items ms"
  shows "ms k \<noteq> None \<longleftrightarrow> (\<exists>r. marks items r k)" "marks items r k \<Longrightarrow> marks items s k \<Longrightarrow> r = s"
  using assms unfolding markers_ok_def by blast+

lemma markers_okI:
  assumes "\<And>k. ms k \<noteq> None \<longleftrightarrow> (\<exists>r. marks items r k)" "\<And>r s k. marks items r k \<Longrightarrow> marks items s k \<Longrightarrow> r = s"
  shows "markers_ok items ms"
  using assms unfolding markers_ok_def by blast

lemma markers_ok_kinds:
  assumes "\<And>r. map_option marker_idx (items' r) = map_option marker_idx (items r)"
  shows "markers_ok items' ms \<longleftrightarrow> markers_ok items ms"
proof -
  have "marks items' r k = marks items r k" for r k
    using assms[of r] by (cases "items r"; cases "items' r") (simp_all add: marks_def)
  then show ?thesis by (simp add: markers_ok_def)
qed

lemma markers_ok_dom: "(\<And>k. ms' k \<noteq> None \<longleftrightarrow> ms k \<noteq> None) \<Longrightarrow> markers_ok items ms' = markers_ok items ms"
  by (simp add: markers_ok_def)

lemma markers_ok_plain:
  assumes "markers_ok items ms" "items r = None" "marker_idx i = None"
  shows "markers_ok (items(r := Some i)) ms"
proof -
  have "marks (items(r := Some i)) s k = marks items s k" for s k using assms(2,3) by (simp add: marks_none)
  with assms(1) show ?thesis by (simp add: markers_ok_def)
qed

lemma markers_ok_marker:
  assumes "markers_ok items ms" "items r = None" "marker_idx i = Some k" "ms k = None"
  shows "markers_ok (items(r := Some i)) (ms(k := Some t))"
proof (rule markers_okI)
  have none: "\<not> marks items s k" for s using markers_okD(1)[OF assms(1), of k] assms(4) by blast
  show "(ms(k := Some t)) m \<noteq> None \<longleftrightarrow> (\<exists>s. marks (items(r := Some i)) s m)" for m
    using markers_okD(1)[OF assms(1), of m] marks_none[of items r m, OF assms(2)] assms(3) by (cases "m = k") auto
  show "s = s'" if "marks (items(r := Some i)) s m" "marks (items(r := Some i)) s' m" for s s' m
    using that assms(3) none markers_okD(2)[OF assms(1), of s m s'] by (auto split: if_splits)
qed

lemma markers_ok_move: "markers_ok items ms \<Longrightarrow> ms k \<noteq> None \<Longrightarrow> markers_ok items (ms(k := Some t))"
  using markers_ok_dom[of "ms(k := Some t)" ms items] by simp

definition forget_marker :: "('v, 's) displayed_item option \<Rightarrow> (nat \<Rightarrow> int option) \<Rightarrow> nat \<Rightarrow> int option" where
  "forget_marker o_item ms = (case o_item of Some i \<Rightarrow>
     (case marker_idx i of Some k \<Rightarrow> ms(k := None) | None \<Rightarrow> ms) | None \<Rightarrow> ms)"

lemma markers_ok_forget:
  assumes "markers_ok items ms"
  shows "markers_ok (items(r := None)) (forget_marker (items r) ms)"
proof (rule markers_okI)
  show "forget_marker (items r) ms k \<noteq> None \<longleftrightarrow> (\<exists>s. marks (items(r := None)) s k)" for k
  proof (cases "marks items r k")
    case True
    then have "forget_marker (items r) ms k = None" by (auto simp: forget_marker_def marks_def split: option.splits)
    moreover have "\<not> (\<exists>s. marks (items(r := None)) s k)" using markers_okD(2)[OF assms True] by auto
    ultimately show ?thesis by simp
  next
    case False
    then have "forget_marker (items r) ms k = ms k" by (auto simp: forget_marker_def marks_def split: option.splits)
    with False markers_okD(1)[OF assms, of k] show ?thesis by auto
  qed
  show "s = s'" if "marks (items(r := None)) s m" "marks (items(r := None)) s' m" for s s' m
    using that markers_okD(2)[OF assms, of s m s'] by simp
qed

subsection \<open>Operations of the canvas\<close>

lemma insert_displayed_Ok:
  assumes "insert_displayed i target mf w = Ok (r, w')"
  shows "r = display_item_ref_counter w + 1" "display_item_ref_counter w' = r"
    and "displayed_items w' = (displayed_items w)(r := Some i)"
    and "tree_refs (items_tree w') = add_mset r (tree_refs (items_tree w))"
    and "markers w' = markers w" "next_decoder_instance w' = next_decoder_instance w"
  using assms by (auto simp: insert_displayed_def Let_def outcome_simps tree_refs_simps insert_item_refs(1))

lemma canvas_fresh: "canvas_ok w \<Longrightarrow> displayed_items w (display_item_ref_counter w + 1) = None"
proof (rule ccontr)
  assume w: "canvas_ok w" and "displayed_items w (display_item_ref_counter w + 1) \<noteq> None"
  then have "display_item_ref_counter w + 1 \<in> dom (displayed_items w)" by blast
  with w have "display_item_ref_counter w + 1 \<le> display_item_ref_counter w" unfolding canvas_ok_def refs_ok_def by blast
  then show False by simp
qed

lemma canvas_ok_insert:
  assumes "canvas_ok w" "insert_displayed i target mf w = Ok (r, w')" "marker_idx i = None"
  shows "canvas_ok w'"
proof -
  note ins = insert_displayed_Ok[OF assms(2)]
  have ok: "refs_ok (items_tree w) (displayed_items w) (display_item_ref_counter w)" "markers_ok (displayed_items w) (markers w)"
    using assms(1) by (simp_all add: canvas_ok_def)
  have "refs_ok (items_tree w') (displayed_items w') (display_item_ref_counter w')"
    using refs_ok_insert[OF ok(1), of "items_tree w'" i] ins by simp
  moreover have "markers_ok (displayed_items w') (markers w')"
    unfolding ins(3,5) by (rule markers_ok_plain[OF ok(2)]) (use canvas_fresh[OF assms(1)] ins(1) assms(3) in simp_all)
  ultimately show ?thesis by (simp add: canvas_ok_def)
qed

lemma canvas_ok_insert_marker:
  assumes "canvas_ok w" "insert_displayed i target mf w = Ok (r, w')" "marker_idx i = Some k" "markers w k = None"
  shows "canvas_ok (w'\<lparr>markers := (markers w')(k := Some t)\<rparr>)"
proof -
  note ins = insert_displayed_Ok[OF assms(2)]
  have ok: "refs_ok (items_tree w) (displayed_items w) (display_item_ref_counter w)" "markers_ok (displayed_items w) (markers w)"
    using assms(1) by (simp_all add: canvas_ok_def)
  have "refs_ok (items_tree w') (displayed_items w') (display_item_ref_counter w')"
    using refs_ok_insert[OF ok(1), of "items_tree w'" i] ins by simp
  moreover have "markers_ok (displayed_items w') ((markers w')(k := Some t))"
    unfolding ins(3,5) by (rule markers_ok_marker[OF ok(2)]) (use canvas_fresh[OF assms(1)] ins(1) assms(3,4) in simp_all)
  ultimately show ?thesis by (simp add: canvas_ok_def)
qed

lemma canvas_ok_add_marker: "canvas_ok w \<Longrightarrow> add_marker t name mf w = Ok (r, w') \<Longrightarrow> canvas_ok w'"
  by (auto simp: add_marker_def outcome_simps find_Some_iff new_marker_def split: if_splits option.splits
      intro!: canvas_ok_insert_marker)

lemma canvas_ok_set_marker:
  assumes "canvas_ok w" "set_marker_position k t w = Ok w'"
  shows "canvas_ok w'"
proof (cases "markers w k = None")
  case True
  with assms show ?thesis
    by (auto simp: set_marker_position_def outcome_simps new_marker_def intro!: canvas_ok_insert_marker)
next
  case False
  with assms show ?thesis
    by (auto simp: set_marker_position_def outcome_simps canvas_ok_def intro!: markers_ok_move)
qed

lemma canvas_ok_rows: "canvas_ok w \<Longrightarrow> (\<And>l. marker_idx (row l) = None) \<Longrightarrow> add_decoder_rows row target n w = Ok w' \<Longrightarrow> canvas_ok w'"
  by (induction row target n w rule: add_decoder_rows.induct) (auto simp: outcome_simps intro: canvas_ok_insert)

lemma canvas_ok_add_decoder: "canvas_ok w \<Longrightarrow> add_decoder p sigs target w = Ok (n, w') \<Longrightarrow> canvas_ok w'"
proof -
  assume w: "canvas_ok w" and a: "add_decoder p sigs target w = Ok (n, w')"
  have "canvas_ok (w\<lparr>next_decoder_instance := next_decoder_instance w + 1\<rparr>)" using w by (simp add: canvas_ok_def)
  then show "canvas_ok w'"
    by (rule canvas_ok_rows) (use a in \<open>auto simp: add_decoder_def Let_def outcome_simps decoder_row_def\<close>)
qed

lemma canvas_ok_modify: "canvas_ok w \<Longrightarrow> (\<And>i. marker_idx (f i) = marker_idx i) \<Longrightarrow> canvas_ok (modify_item f r w)"
proof -
  assume w: "canvas_ok w" and f: "\<And>i. marker_idx (f i) = marker_idx i"
  let ?items = "(displayed_items w)(r := map_option f (displayed_items w r))"
  have "markers_ok ?items (markers w) = markers_ok (displayed_items w) (markers w)"
    by (rule markers_ok_kinds) (cases "displayed_items w r"; simp add: f)
  moreover have "dom ?items = dom (displayed_items w)" by (auto simp: dom_def)
  ultimately show ?thesis using w refs_ok_items[of ?items "displayed_items w"] by (simp add: canvas_ok_def modify_item_def)
qed

lemma canvas_ok_modify_all: "canvas_ok w \<Longrightarrow> (\<And>i. marker_idx (f i) = marker_idx i) \<Longrightarrow> canvas_ok (fold (\<lambda>x. modify_item f (g x)) xs w)"
  by (induction xs arbitrary: w) (simp_all add: canvas_ok_modify)

lemma canvas_ok_configure: "canvas_ok w \<Longrightarrow> canvas_ok (configure_decoder n s b w)"
proof -
  assume w: "canvas_ok w"
  let ?items = "\<lambda>r. map_option (reconfigure n s b) (displayed_items w r)"
  have k: "marker_idx (reconfigure n s b i) = marker_idx i" for i by (cases i) simp_all
  have "markers_ok ?items (markers w) = markers_ok (displayed_items w) (markers w)"
    by (rule markers_ok_kinds) (simp add: option.map_comp comp_def k)
  moreover have "dom ?items = dom (displayed_items w)" by (auto simp: dom_def)
  ultimately show ?thesis using w refs_ok_items[of ?items "displayed_items w"] by (simp add: canvas_ok_def configure_decoder_def)
qed

lemma canvas_ok_tree:
  assumes "canvas_ok w" "tree_refs t = tree_refs (items_tree w)"
  shows "canvas_ok (w\<lparr>items_tree := t\<rparr>)"
  using assms(1) by (simp add: canvas_ok_def refs_ok_tree[OF assms(2)])

lemma canvas_ok_irrelevant [simp]:
  "canvas_ok (w\<lparr>focused_item := f\<rparr>) = canvas_ok w" "canvas_ok (w\<lparr>default_name_type := nt\<rparr>) = canvas_ok w"
  "canvas_ok (w\<lparr>annotations := a\<rparr>) = canvas_ok w" "canvas_ok (w\<lparr>annotation_groups := g\<rparr>) = canvas_ok w"
  "canvas_ok (w\<lparr>annotation_counter := n\<rparr>) = canvas_ok w" "canvas_ok (w\<lparr>selected_annotation := sa\<rparr>) = canvas_ok w"
  "canvas_ok (w\<lparr>annotation_list_visible := v\<rparr>) = canvas_ok w" "canvas_ok (w\<lparr>focused_transaction := ft\<rparr>) = canvas_ok w"
  by (simp_all add: canvas_ok_def)

subsection \<open>Removal\<close>

lemma index_of_ref_Some: "index_of_ref t r = Some i \<Longrightarrow> i < length t \<and> item_ref (t ! i) = r"
  by (auto simp: index_of_ref_def find_Some_iff)

lemma index_of_ref_None: "index_of_ref t r = None \<longleftrightarrow> r \<notin> set (map item_ref t)"
  unfolding index_of_ref_def find_None_iff by (auto simp: in_set_conv_nth simp del: set_map)

lemma forget_item_frame [simp]:
  "items_tree (forget_item r w) = items_tree w"
  "display_item_ref_counter (forget_item r w) = display_item_ref_counter w"
  "displayed_items (forget_item r w) = (displayed_items w)(r := None)"
  "markers (forget_item r w) = forget_marker (displayed_items w r) (markers w)"
  "focused_item (forget_item r w) = focused_item w"
  by (simp_all add: forget_item_def forget_marker_def)

lemma fold_forget_frame [simp]:
  "items_tree (fold forget_item rs w) = items_tree w"
  "display_item_ref_counter (fold forget_item rs w) = display_item_ref_counter w"
  "focused_item (fold forget_item rs w) = focused_item w"
  by (induction rs arbitrary: w) simp_all

lemma fold_forget_items: "displayed_items (fold forget_item rs w) = (displayed_items w) |` (- set rs)"
proof (induction rs arbitrary: w)
  case Nil
  show ?case by (simp add: restrict_map_def)
next
  case (Cons r rs)
  show ?case by (auto simp: Cons.IH restrict_map_def fun_eq_iff)
qed

lemma fold_forget_markers: "markers_ok (displayed_items w) (markers w) \<Longrightarrow>
  markers_ok (displayed_items (fold forget_item rs w)) (markers (fold forget_item rs w))"
  by (induction rs arbitrary: w) (simp_all add: markers_ok_forget)

lemma remove_total: "\<exists>w'. remove_displayed_item r w = Ok w'"
  by (cases "index_of_ref (items_tree w) r")
    (auto simp: remove_displayed_item_def remove_recursive_def Let_def dest: index_of_ref_Some)

lemma canvas_ok_remove:
  assumes "canvas_ok w" "remove_displayed_item r w = Ok w'"
  shows "canvas_ok w'"
proof (cases "index_of_ref (items_tree w) r")
  case None
  with assms show ?thesis by (simp add: remove_displayed_item_def)
next
  case (Some i)
  with assms(2) obtain rs t where rm: "remove_recursive (items_tree w) i = Ok (rs, t)"
    and w': "w' = (fold forget_item rs (w\<lparr>items_tree := t\<rparr>))\<lparr>focused_item :=
      refocus (focused_ref w) (fold forget_item rs (w\<lparr>items_tree := t\<rparr>))\<rparr>"
    by (auto simp: remove_displayed_item_def Let_def outcome_simps)
  have ok: "refs_ok (items_tree w) (displayed_items w) (display_item_ref_counter w)" "markers_ok (displayed_items w) (markers w)"
    using assms(1) by (simp_all add: canvas_ok_def)
  have "refs_ok t ((displayed_items w) |` (- set rs)) (display_item_ref_counter w)"
    by (rule refs_ok_remove[OF ok(1) remove_recursive_refs[OF rm]]) auto
  moreover have "markers_ok ((displayed_items w) |` (- set rs)) (markers (fold forget_item rs (w\<lparr>items_tree := t\<rparr>)))"
    using fold_forget_markers[of "w\<lparr>items_tree := t\<rparr>" rs] ok(2) by (simp add: fold_forget_items)
  ultimately show ?thesis unfolding w' by (simp add: canvas_ok_def fold_forget_items)
qed

lemma canvas_ok_remove_marker: "canvas_ok w \<Longrightarrow> remove_marker order k w = Ok w' \<Longrightarrow> canvas_ok w'"
  by (auto simp: remove_marker_def split: option.splits intro: canvas_ok_remove)

text \<open>Removing the references \<open>rs\<close>, none of them a marker.\<close>

definition refs_of :: "('v, 's, 't) wave_data \<Rightarrow> bool" where
  "refs_of w \<longleftrightarrow> refs_ok (items_tree w) (displayed_items w) (display_item_ref_counter w)"

lemma fold_unset: "fold (\<lambda>r m. m(r := None)) rs m = m |` (- set rs)"
proof (induction rs arbitrary: m)
  case Nil
  show ?case by (simp add: restrict_map_def)
next
  case (Cons r rs)
  have "fold (\<lambda>r m. m(r := None)) (r # rs) m = (m(r := None)) |` (- set rs)"
    unfolding fold_simps comp_def by (rule Cons.IH)
  also have "\<dots> = m |` (- set (r # rs))" by (auto simp: restrict_map_def fun_eq_iff)
  finally show ?case .
qed

lemma refs_of_remove_placeholders: "refs_of w \<Longrightarrow> refs_of (remove_placeholders w)"
proof -
  let ?d = "drain_recursive_if (\<lambda>n. case displayed_items w (item_ref n) of Some i \<Rightarrow> is_placeholder i | None \<Rightarrow> False) (items_tree w)"
  assume "refs_of w"
  then have "refs_ok (items_tree w) (displayed_items w) (display_item_ref_counter w)" by (simp add: refs_of_def)
  then have "refs_ok (snd ?d) (displayed_items w |` (- set (fst ?d))) (display_item_ref_counter w)"
    by (rule refs_ok_remove[OF _ drain_refs]) auto
  then show ?thesis by (simp add: refs_of_def remove_placeholders_def fold_unset split_beta)
qed

subsection \<open>Reload\<close>

lemma drained_gone: "x \<in> set (snd (drain_recursive_if f t)) \<Longrightarrow> \<not> f x"
proof -
  assume "x \<in> set (snd (drain_recursive_if f t))"
  then obtain i where "i < length t" "x = t ! i" "\<not> (\<exists>j \<le> i. f (t ! j) \<and> i < subtree_end t j)"
    using drain_from_prune[of f "[]" 0 t "[]"]
    by (auto simp: drain_recursive_if_def prune_filter covered_def le_less)
  with subtree_end_bounds(1)[of i t] show "\<not> f x" by blast
qed

text \<open>A drain that the assertion accepts drops the row alone.\<close>

lemma drain_single:
  assumes "drain_recursive_if (\<lambda>n. item_ref n = r) t = (removed, t')" "length removed \<le> 1"
    and "distinct (map item_ref t)" "r \<in> set (map item_ref t)"
  shows "removed = [r]" "distinct (map item_ref t')" "set (map item_ref t') = set (map item_ref t) - {r}"
proof -
  have m: "mset (removed @ map item_ref t') = mset (map item_ref t)"
    using drain_refs[of "\<lambda>n. item_ref n = r" t] assms(1) by (simp add: tree_refs_def)
  have "r \<notin> set (map item_ref t')" using drained_gone[of _ "\<lambda>n. item_ref n = r" t] assms(1) by auto
  with mset_eq_setD[OF m] assms(4) have "r \<in> set removed" by auto
  with assms(2) show removed: "removed = [r]" by (cases removed) auto
  have d: "distinct (removed @ map item_ref t')" using mset_eq_imp_distinct_iff[OF m] assms(3) by simp
  then show "distinct (map item_ref t')" by simp
  show "set (map item_ref t') = set (map item_ref t) - {r}" using mset_eq_setD[OF m] d unfolding removed by auto
qed

lemma update_displayed_items_out:
  assumes "update_displayed_items (\<lambda>i. Ok (upd i)) order items (t, out) = Ok (t', out')" "distinct order"
    and "\<forall>s \<in> set order. items s \<noteq> None \<and> out s = None"
  shows "out' = (\<lambda>s. if s \<in> set order then Option.bind (items s) upd else out s)"
  using assms
proof (induction order arbitrary: t out)
  case (Cons r order)
  from Cons.prems(3) obtain i where i: "items r = Some i" by auto
  show ?case
  proof (cases "upd i")
    case (Some i')
    have run: "update_displayed_items (\<lambda>i. Ok (upd i)) order items (t, out(r := Some i')) = Ok (t', out')"
      using Cons.prems(1) i Some by simp
    have "out' = (\<lambda>s. if s \<in> set order then Option.bind (items s) upd else (out(r := Some i')) s)"
      by (rule Cons.IH[OF run]) (use Cons.prems in auto)
    with i Some Cons.prems(2) show ?thesis by (auto simp: fun_eq_iff)
  next
    case None
    then obtain t2 where run: "update_displayed_items (\<lambda>i. Ok (upd i)) order items (t2, out) = Ok (t', out')"
      using Cons.prems(1) i by (auto simp: Let_def split: prod.splits if_splits)
    have "out' = (\<lambda>s. if s \<in> set order then Option.bind (items s) upd else out s)"
      by (rule Cons.IH[OF run]) (use Cons.prems in auto)
    with i None Cons.prems show ?thesis by (auto simp: fun_eq_iff)
  qed
qed simp

lemma update_displayed_items_tree:
  assumes "update_displayed_items (\<lambda>i. Ok (upd i)) order items (t, out) = Ok (t', out')" "distinct order"
    and "\<forall>s \<in> set order. items s \<noteq> None" "distinct (map item_ref t)" "set order \<subseteq> set (map item_ref t)"
  shows "distinct (map item_ref t') \<and>
    set (map item_ref t') = {s \<in> set (map item_ref t). s \<in> set order \<longrightarrow> Option.bind (items s) upd \<noteq> None}"
  using assms
proof (induction order arbitrary: t out)
  case (Cons r order)
  from Cons.prems(3) obtain i where i: "items r = Some i" by auto
  show ?case
  proof (cases "upd i")
    case (Some i')
    have run: "update_displayed_items (\<lambda>i. Ok (upd i)) order items (t, out(r := Some i')) = Ok (t', out')"
      using Cons.prems(1) i Some by simp
    have "distinct (map item_ref t') \<and>
        set (map item_ref t') = {s \<in> set (map item_ref t). s \<in> set order \<longrightarrow> Option.bind (items s) upd \<noteq> None}"
      by (rule Cons.IH[OF run]) (use Cons.prems in auto)
    with i Some show ?thesis by auto
  next
    case None
    then obtain removed t2 where d: "drain_recursive_if (\<lambda>n. item_ref n = r) t = (removed, t2)" "length removed \<le> 1"
      and run: "update_displayed_items (\<lambda>i. Ok (upd i)) order items (t2, out) = Ok (t', out')"
      using Cons.prems(1) i by (auto simp: Let_def split: prod.splits if_splits)
    note one = drain_single[OF d Cons.prems(4)]
    have r: "r \<in> set (map item_ref t)" using Cons.prems(5) by simp
    have "distinct (map item_ref t') \<and>
        set (map item_ref t') = {s \<in> set (map item_ref t2). s \<in> set order \<longrightarrow> Option.bind (items s) upd \<noteq> None}"
      by (rule Cons.IH[OF run]) (use Cons.prems one r in auto)
    with i None one(3)[OF r] show ?thesis by auto
  qed
qed simp

subsection \<open>Only groups have rows below them\<close>

lemma parents_ok_append: "parents_ok (xs @ ys) grp \<longleftrightarrow> parents_ok xs grp \<and> parents_ok ys grp \<and>
    (xs = [] \<or> ys = [] \<or> (level (last xs) < level (hd ys) \<longrightarrow> grp (item_ref (last xs))))"
  by (auto simp: parents_ok_def successively_append_iff)

lemma parents_ok_cong:
  assumes "\<And>x. x \<in> set t \<Longrightarrow> grp' (item_ref x) = grp (item_ref x)"
  shows "parents_ok t grp' = parents_ok t grp"
  unfolding parents_ok_def by (rule successively_cong) (simp_all add: assms)

lemma parents_ok_parts:
  assumes "parents_ok t grp"
  shows "parents_ok (take n t) grp" "parents_ok (drop n t) grp"
  using assms parents_ok_append[of "take n t" "drop n t" grp] by simp_all

lemma parents_ok_step: "parents_ok t grp \<Longrightarrow> Suc i < length t \<Longrightarrow> level (t ! i) < level (t ! Suc i) \<Longrightarrow> grp (item_ref (t ! i))"
  by (simp add: parents_ok_def successively_conv_nth)

lemma last_take: "0 < i \<Longrightarrow> i \<le> length t \<Longrightarrow> last (take i t) = t ! (i - 1)"
  by (subst last_conv_nth) (auto simp: min_def)

text \<open>A part that is no deeper than the node before it can be cut out.\<close>

lemma parents_ok_cut:
  assumes "parents_ok t grp" "i < length t" "e \<le> length t" "e < length t \<Longrightarrow> level (t ! e) \<le> level (t ! i)"
  shows "parents_ok (take i t @ drop e t) grp"
proof (cases "i = 0 \<or> length t \<le> e")
  case True
  with parents_ok_parts[OF assms(1)] show ?thesis by auto
next
  case False
  then have l: "last (take i t) = t ! (i - 1)" "hd (drop e t) = t ! e" using assms(2)
    by (simp_all add: last_take hd_drop_conv_nth)
  have "level (t ! (i - 1)) < level (t ! e) \<Longrightarrow> grp (item_ref (t ! (i - 1)))"
    using parents_ok_step[OF assms(1), of "i - 1"] assms(2,4) False by simp
  with l parents_ok_parts[OF assms(1)] show ?thesis by (simp add: parents_ok_append)
qed

lemma parents_ok_subtree: "parents_ok t grp \<Longrightarrow> i < length t \<Longrightarrow> parents_ok (without i (subtree_end t i) t) grp"
  unfolding without_def by (rule parents_ok_cut) (use subtree_end_bounds[of i t] subtree_next[of i t] in auto)

lemma parents_ok_remove: "parents_ok t grp \<Longrightarrow> remove_recursive t i = Ok (rs, t') \<Longrightarrow> parents_ok t' grp"
  by (auto simp: remove_recursive_def Let_def parents_ok_subtree split: if_splits)

lemma parents_ok_drain: "parents_ok t grp \<Longrightarrow> parents_ok (snd (drain_from f t i rs)) grp"
proof (induction f t i rs rule: drain_from.induct)
  case (1 f t i rs)
  show ?case
  proof (cases "i < length t \<and> f (t ! i)")
    case True
    with 1(1) parents_ok_subtree[OF 1(3)] show ?thesis by (subst drain_from.simps) (simp add: Let_def)
  next
    case False
    then show ?thesis using 1(2,3) by (subst drain_from.simps) auto
  qed
qed

lemma parents_ok_insert:
  assumes "parents_ok t grp" "p \<le> length t" "p < length t \<Longrightarrow> level (t ! p) \<le> level x"
    and "0 < p \<Longrightarrow> level (t ! (p - 1)) < level x \<Longrightarrow> grp (item_ref (t ! (p - 1)))"
  shows "parents_ok (vec_insert p x t) grp"
proof -
  have "parents_ok (x # drop p t) grp"
    using parents_ok_parts(2)[OF assms(1), of p] parents_ok_append[of "[x]" "drop p t" grp] assms(3)
    by (cases "p < length t") (auto simp: parents_ok_def hd_drop_conv_nth)
  moreover have "take p t = [] \<or> (level (last (take p t)) < level x \<longrightarrow> grp (item_ref (last (take p t))))"
    using assms(2,4) last_take[of p t] by (cases "p = 0") auto
  ultimately show ?thesis
    using parents_ok_parts(1)[OF assms(1), of p] by (auto simp: vec_insert_def parents_ok_append)
qed

text \<open>A row that is not a group has nothing below it.\<close>

lemma parents_ok_leaf:
  assumes "parents_ok t grp" "i < length t" "\<not> grp (item_ref (t ! i))"
  shows "subtree_end t i = i + 1"
proof (rule ccontr)
  note e = subtree_end_bounds[OF assms(2)]
  assume "subtree_end t i \<noteq> i + 1"
  with e have "i + 1 < subtree_end t i" by simp
  with subtree_deeper[OF assms(2), of "i + 1"] e(2) parents_ok_step[OF assms(1), of i] assms(3) show False by simp
qed

subsection \<open>Insertion at a row\<close>

lemma visible_from_next:
  "v < length (visible_from t k) \<Longrightarrow> visible_from t k ! v = i \<Longrightarrow>
   (if v + 1 < length (visible_from t k) then visible_from t k ! (v + 1) = next_visible_item t i
    else length t \<le> next_visible_item t i)"
proof (induction t k arbitrary: v rule: visible_from.induct)
  case (1 t k)
  show ?case
  proof (cases "k < length t")
    case False
    with "1.prems" show ?thesis by (simp add: visible_from.simps[of t k])
  next
    case k: True
    let ?vs = "visible_from t (next_visible_item t k)"
    have vs: "visible_from t k = k # ?vs" using k by (simp add: visible_from.simps[of t k])
    show ?thesis
    proof (cases v)
      case 0
      with "1.prems" have i: "i = k" unfolding vs by simp
      show ?thesis
      proof (cases "next_visible_item t k < length t")
        case True
        then have "?vs = next_visible_item t k # visible_from t (next_visible_item t (next_visible_item t k))"
          by (simp add: visible_from.simps[of t "next_visible_item t k"])
        with 0 i vs show ?thesis by simp
      next
        case False
        then have "?vs = []" by (simp add: visible_from.simps[of t "next_visible_item t k"])
        with 0 i vs False show ?thesis by simp
      qed
    next
      case (Suc u)
      with "1.prems" vs have "u < length ?vs" "?vs ! u = i" by simp_all
      from "1.IH"[OF k this] show ?thesis unfolding vs Suc by (simp split: if_split_asm)
    qed
  qed
qed

lemma next_row_folded:
  assumes "to_displayed t v = Some i" "\<not> unfolded (t ! i)"
  shows "(case to_displayed t (v + 1) of Some j \<Rightarrow> j | None \<Rightarrow> length t) = subtree_end t i"
proof -
  have i: "v < length (visible_indices t)" "visible_indices t ! v = i" "i < length t"
    using assms(1) to_displayed_range[OF assms(1)] by (auto simp: to_displayed_visible)
  have n: "next_visible_item t i = subtree_end t i" using next_visible_folded i(3) assms(2) by blast
  note nx = visible_from_next[of v t 0 i, folded visible_indices_def, OF i(1,2)]
  show ?thesis
  proof (cases "v + 1 < length (visible_indices t)")
    case True
    with nx n show ?thesis by (simp add: to_displayed_visible get_in_range)
  next
    case False
    then have "to_displayed t (v + 1) = None" by (simp add: to_displayed_visible)
    with False nx n subtree_end_bounds(2)[OF i(3)] show ?thesis by simp
  qed
qed

lemma sibling_position:
  assumes "tree_ok t" "i < length t"
  shows "admissible t (subtree_end t i) (level (t ! i))" "level (t ! i) \<le> level (t ! (subtree_end t i - 1))"
proof -
  note e = subtree_end_bounds[OF assms(2)]
  show d: "level (t ! i) \<le> level (t ! (subtree_end t i - 1))"
  proof -
    have "subtree_end t i - 1 = i \<or> i < subtree_end t i - 1" using e by linarith
    with subtree_deeper[OF assms(2), of "subtree_end t i - 1"] e show ?thesis by auto
  qed
  have "level (t ! i) \<le> 255" using assms by (simp add: tree_ok_def)
  with d e next_bound_take[of "subtree_end t i" t 0] subtree_next[OF assms(2)]
  show "admissible t (subtree_end t i) (level (t ! i))" by (simp add: admissible_def)
qed

lemma child_position:
  assumes "tree_ok t" "i < length t" "level (t ! i) < 255"
  shows "admissible t (i + 1) (level (t ! i) + 1)"
  using assms tree_ok_step[OF assms(1), of "i + 1"] next_bound_take[of "i + 1" t 0] by (simp add: admissible_def)

definition rows_ok :: "('v, 's, 't) wave_data \<Rightarrow> bool" where
  "rows_ok w \<longleftrightarrow> canvas_ok w \<and> tree_ok (items_tree w) \<and> parents_ok (items_tree w) (group_ref (displayed_items w))"

text \<open>A place for a new row: one the tree accepts, below a group only.\<close>

definition good_place :: "('v, 's, 't) wave_data \<Rightarrow> target_position \<Rightarrow> bool" where
  "good_place w p \<longleftrightarrow> admissible (items_tree w) (tp_before p) (tp_level p) \<and>
     (0 < tp_before p \<and> level (items_tree w ! (tp_before p - 1)) < tp_level p \<longrightarrow>
        group_ref (displayed_items w) (item_ref (items_tree w ! (tp_before p - 1))))"

definition groups_below :: "nat \<Rightarrow> ('v, 's, 't) wave_data \<Rightarrow> bool" where
  "groups_below l w \<longleftrightarrow> (\<forall>x \<in> set (items_tree w). group_ref (displayed_items w) (item_ref x) \<longrightarrow> level x < l)"

lemma insert_position_good:
  assumes "rows_ok w" "groups_below 255 w" "insert_position w v = Some p"
  shows "good_place w p"
proof -
  let ?t = "items_tree w"
  obtain vidx where vv: "v = Some vidx" using assms(3) by (cases v) (simp_all add: insert_position_def)
  obtain i where v: "to_displayed ?t vidx = Some i" using assms(3)
    by (cases "to_displayed ?t vidx") (simp_all add: insert_position_def vv)
  then have i: "i < length ?t" by (rule to_displayed_range)
  obtain item where item: "displayed_items w (item_ref (?t ! i)) = Some item" using assms(3)
    by (cases "displayed_items w (item_ref (?t ! i))") (simp_all add: insert_position_def vv v get_in_range[OF i])
  have p: "p = (if is_group item \<and> unfolded (?t ! i) then \<lparr>tp_before = i + 1, tp_level = level (?t ! i) + 1\<rparr>
      else if is_group item then (case to_displayed ?t (vidx + 1) of
          Some idx \<Rightarrow> \<lparr>tp_before = idx, tp_level = level (?t ! i)\<rparr> | None \<Rightarrow> \<lparr>tp_before = length ?t, tp_level = level (?t ! i)\<rparr>)
      else \<lparr>tp_before = i + 1, tp_level = level (?t ! i)\<rparr>)"
    using assms(3) by (simp add: insert_position_def vv v item get_in_range[OF i])
  have ok: "tree_ok ?t" "parents_ok ?t (group_ref (displayed_items w))" using assms(1) by (simp_all add: rows_ok_def)
  show ?thesis
  proof (cases "is_group item \<and> unfolded (?t ! i)")
    case True
    with item have g: "group_ref (displayed_items w) (item_ref (?t ! i))" by (simp add: group_ref_def)
    with assms(2) i have "level (?t ! i) < 255" by (simp add: groups_below_def)
    from child_position[OF ok(1) i this] g True show ?thesis unfolding p by (simp add: good_place_def)
  next
    case False
    have "p = \<lparr>tp_before = subtree_end ?t i, tp_level = level (?t ! i)\<rparr>"
    proof (cases "is_group item")
      case True
      with False have "\<not> unfolded (?t ! i)" by simp
      from next_row_folded[OF v this] True False show ?thesis unfolding p by (auto split: option.splits)
    next
      case leaf: False
      with item have "\<not> group_ref (displayed_items w) (item_ref (?t ! i))" by (simp add: group_ref_def)
      from parents_ok_leaf[OF ok(2) i this] leaf show ?thesis unfolding p by simp
    qed
    with sibling_position[OF ok(1) i] show ?thesis by (simp add: good_place_def)
  qed
qed

lemma end_position_good: "rows_ok w \<Longrightarrow> good_place w (end_insert_position w)"
  by (auto simp: good_place_def end_insert_position_def admissible_def)

lemma group_ref_new: "items r = None \<Longrightarrow> s \<in> dom items \<Longrightarrow> group_ref (items(r := Some i)) s = group_ref items s"
  by (auto simp: group_ref_def)

lemma tree_ok_levels: "map level t' = map level t \<Longrightarrow> tree_ok t' = tree_ok t"
proof -
  assume m: "map level t' = map level t"
  have gen: "levels_below b t' = levels_below b t" for b
    using m
  proof (induction t' arbitrary: t b)
    case (Cons x xs)
    then obtain y ys where t: "t = y # ys" "level x = level y" "map level xs = map level ys" by (cases t) auto
    from Cons.IH[OF t(3)] t(1,2) show ?case by simp
  qed simp
  have "(\<forall>l \<in> set (map level t'). l \<le> 255) = (\<forall>l \<in> set (map level t). l \<le> 255)" by (simp only: m)
  then show ?thesis by (simp add: tree_ok_def gen)
qed

subsection \<open>Rows stay well formed\<close>

text \<open>What folding and selection leave as it is.\<close>

definition node_place :: "node \<Rightarrow> nat \<times> nat" where
  "node_place x = (level x, item_ref x)"

lemma places_levels: "map node_place t' = map node_place t \<Longrightarrow> map level t' = map level t"
proof -
  assume "map node_place t' = map node_place t"
  then have "map fst (map node_place t') = map fst (map node_place t)" by simp
  then show ?thesis by (simp add: node_place_def comp_def)
qed

lemma places_refs: "map node_place t' = map node_place t \<Longrightarrow> map item_ref t' = map item_ref t"
proof -
  assume "map node_place t' = map node_place t"
  then have "map snd (map node_place t') = map snd (map node_place t)" by simp
  then show ?thesis by (simp add: node_place_def comp_def)
qed

lemma places_parents: "map node_place t' = map node_place t \<Longrightarrow> parents_ok t' grp = parents_ok t grp"
proof -
  have "parents_ok u grp = successively (\<lambda>x y. fst x < fst y \<longrightarrow> grp (snd x)) (map node_place u)" for u
    by (simp add: parents_ok_def successively_map node_place_def)
  then show "map node_place t' = map node_place t \<Longrightarrow> ?thesis" by simp
qed

lemma places_update: "node_place x = node_place (t ! i) \<Longrightarrow> map node_place (t[i := x]) = map node_place t"
  by (cases "i < length t") (simp_all add: map_update list_update_same_conv list_update_beyond)

lemma places_select [simp]: "map node_place (foldl (set_selected b) t is) = map node_place t"
proof (induction "is" arbitrary: t)
  case (Cons i "is")
  have "map node_place (set_selected b t i) = map node_place t"
    unfolding set_selected_def by (rule places_update) (simp add: node_place_def)
  with Cons.IH[of "set_selected b t i"] show ?case by simp
qed simp

lemma places_select_all [simp]: "map node_place (xselect_all_visible t b) = map node_place t"
  by (simp add: xselect_all_visible_def)

lemma insert_displayed_good:
  assumes "rows_ok w" "good_place w (target_or_focus w target)"
  shows "\<exists>w'. insert_displayed i target mf w = Ok (display_item_ref_counter w + 1, w') \<and>
    tree_ok (items_tree w') \<and> parents_ok (items_tree w') (group_ref (displayed_items w')) \<and>
    map item_ref (items_tree w') = vec_insert (tp_before (target_or_focus w target)) (display_item_ref_counter w + 1)
      (map item_ref (items_tree w))"
proof -
  let ?t = "items_tree w" and ?r = "display_item_ref_counter w + 1" and ?p = "target_or_focus w target"
  let ?x = "\<lparr>item_ref = ?r, level = tp_level ?p, unfolded = True, selected = False\<rparr>"
  let ?items = "(displayed_items w)(?r := Some i)"
  have ok: "tree_ok ?t" "parents_ok ?t (group_ref (displayed_items w))" "canvas_ok w" using assms(1) by (simp_all add: rows_ok_def)
  have adm: "admissible ?t (tp_before ?p) (tp_level ?p)" using assms(2) by (simp add: good_place_def)
  then have le: "tp_before ?p \<le> length ?t" and nx: "tp_before ?p < length ?t \<Longrightarrow> level (?t ! tp_before ?p) \<le> tp_level ?p"
    by (simp_all add: admissible_def)
  have ins: "insert_item ?t ?r ?p = Ok (tp_before ?p, vec_insert (tp_before ?p) ?x ?t)"
    using check_location_iff[OF ok(1) le] adm by (simp add: insert_item_def)
  let ?u = "vec_insert (tp_before ?p) ?x ?t"
  have t: "tree_ok ?u"
    using tree_ok_insert_block[OF ok(1) adm, of "[?x]"] adm by (simp add: vec_insert_def admissible_def)
  have known: "item_ref x \<in> dom (displayed_items w)" if "x \<in> set ?t" for x
    using that ok(3) by (auto simp: canvas_ok_def refs_ok_def)
  have "parents_ok ?u (group_ref ?items)"
  proof (rule parents_ok_insert)
    show "parents_ok ?t (group_ref ?items)"
      using ok(2) parents_ok_cong[of ?t "group_ref ?items" "group_ref (displayed_items w)"]
        group_ref_new[OF canvas_fresh[OF ok(3)] known] by blast
    show "group_ref ?items (item_ref (?t ! (tp_before ?p - 1)))"
      if "0 < tp_before ?p" "level (?t ! (tp_before ?p - 1)) < level ?x"
    proof -
      have "?t ! (tp_before ?p - 1) \<in> set ?t" using that(1) le by simp
      from group_ref_new[OF canvas_fresh[OF ok(3)] known[OF this]] that assms(2) show ?thesis by (simp add: good_place_def)
    qed
  qed (use le nx in simp_all)
  with t have "tree_ok (xselect_all_visible ?u False)" "parents_ok (xselect_all_visible ?u False) (group_ref ?items)"
    using tree_ok_levels[OF places_levels[OF places_select_all]] places_parents[OF places_select_all] by blast+
  moreover have "map item_ref (xselect_all_visible ?u False) = vec_insert (tp_before ?p) ?r (map item_ref ?t)"
    unfolding places_refs[OF places_select_all] by (simp add: vec_insert_def take_map drop_map)
  ultimately show ?thesis using ins by (simp add: insert_displayed_def Let_def)
qed

lemma rows_ok_insert:
  assumes "rows_ok w" "good_place w (target_or_focus w target)" "marker_idx i = None"
  shows "\<exists>w'. insert_displayed i target mf w = Ok (display_item_ref_counter w + 1, w') \<and> rows_ok w' \<and>
    map item_ref (items_tree w') = vec_insert (tp_before (target_or_focus w target)) (display_item_ref_counter w + 1)
      (map item_ref (items_tree w))"
  using insert_displayed_good[OF assms(1,2), of i mf] canvas_ok_insert[OF _ _ assms(3)] assms(1)
  unfolding rows_ok_def by blast

lemma rows_ok_remove:
  assumes "rows_ok w" "remove_displayed_item r w = Ok w'"
  shows "rows_ok w'"
proof (cases "index_of_ref (items_tree w) r")
  case None
  with assms show ?thesis by (simp add: remove_displayed_item_def)
next
  case (Some i)
  with assms(2) obtain rs t where rm: "remove_recursive (items_tree w) i = Ok (rs, t)"
    and w': "items_tree w' = t" "displayed_items w' = displayed_items w |` (- set rs)"
    by (auto simp: remove_displayed_item_def Let_def outcome_simps fold_forget_items)
  have i: "i < length (items_tree w)" using Some by (simp add: index_of_ref_Some)
  have ok: "tree_ok (items_tree w)" "parents_ok (items_tree w) (group_ref (displayed_items w))" using assms(1) by (simp_all add: rows_ok_def)
  have "tree_ok t" using rm tree_ok_without_subtree[OF ok(1) i]
    by (auto simp: remove_recursive_def Let_def without_def split: if_splits)
  moreover have c: "canvas_ok w'" using assms by (auto simp: rows_ok_def intro: canvas_ok_remove)
  moreover have "parents_ok t (group_ref (displayed_items w'))"
  proof -
    have "group_ref (displayed_items w') (item_ref x) = group_ref (displayed_items w) (item_ref x)" if "x \<in> set t" for x
    proof -
      have "item_ref x \<in> dom (displayed_items w')" using c that w'(1) by (auto simp: canvas_ok_def refs_ok_def)
      then show ?thesis by (auto simp: w'(2) group_ref_def restrict_map_def split: if_splits)
    qed
    with parents_ok_cong[of t "group_ref (displayed_items w')"] parents_ok_remove[OF ok(2) rm] show ?thesis by blast
  qed
  ultimately show ?thesis by (simp add: rows_ok_def w'(1))
qed

lemma drain_leaf:
  assumes "distinct (map item_ref t)" "parents_ok t grp" "\<not> grp r"
  shows "length (fst (drain_recursive_if (\<lambda>n. item_ref n = r) t)) \<le> 1"
proof -
  let ?f = "\<lambda>n. item_ref n = r" and ?rs = "fst (drain_recursive_if (\<lambda>n. item_ref n = r) t)"
  let ?t' = "snd (drain_recursive_if (\<lambda>n. item_ref n = r) t)"
  have m: "mset (?rs @ map item_ref ?t') = mset (map item_ref t)" using drain_refs[of ?f t] by (simp add: tree_refs_def)
  then have d: "distinct (?rs @ map item_ref ?t')" using mset_eq_imp_distinct_iff assms(1) by blast
  have kept: "t ! i \<in> set ?t'" if i: "i < length t" "item_ref (t ! i) \<noteq> r" for i
  proof -
    have "\<not> covered False ?f t 0 i"
    proof
      assume "covered False ?f t 0 i"
      then obtain j where j: "item_ref (t ! j) = r" "i < subtree_end t j" "j < i"
        using i(2) by (auto simp: covered_def le_less)
      with i(1) parents_ok_leaf[OF assms(2), of j] assms(3) show False by simp
    qed
    with i(1) show ?thesis using drain_from_prune[of ?f "[]" 0 t "[]"] by (auto simp: drain_recursive_if_def prune_filter)
  qed
  have "set ?rs \<subseteq> {r}"
  proof
    fix s assume s: "s \<in> set ?rs"
    then have "s \<in> set (map item_ref t)" using mset_eq_setD[OF m] by auto
    then obtain i where i: "i < length t" "s = item_ref (t ! i)" by (auto simp: in_set_conv_nth)
    have "s \<notin> set (map item_ref ?t')" using s d by auto
    with kept[OF i(1)] i(2) show "s \<in> {r}" by auto
  qed
  moreover have "distinct ?rs" using d by simp
  ultimately have "card (set ?rs) \<le> 1" "card (set ?rs) = length ?rs"
    using card_mono[of "{r}" "set ?rs"] distinct_card by auto
  then show ?thesis by simp
qed

lemma update_displayed_items_total:
  assumes "distinct (map item_ref t)" "tree_ok t" "parents_ok t grp"
    and "\<And>r i. items r = Some i \<Longrightarrow> upd i = None \<Longrightarrow> \<not> grp r"
  shows "\<exists>t' out'. update_displayed_items (\<lambda>i. Ok (upd i)) order items (t, out) = Ok (t', out') \<and> tree_ok t' \<and> parents_ok t' grp"
  using assms(1-3)
proof (induction order arbitrary: t out)
  case (Cons r order)
  show ?case
  proof (cases "items r")
    case None
    with Cons show ?thesis by simp
  next
    case (Some i)
    show ?thesis
    proof (cases "upd i")
      case up: (Some i')
      from Cons.IH[OF Cons.prems, of "out(r := Some i')"] show ?thesis by (simp add: Some up del: fun_upd_apply)
    next
      case None
      let ?d = "drain_recursive_if (\<lambda>n. item_ref n = r) t"
      have "length (fst ?d) \<le> 1" by (rule drain_leaf[OF Cons.prems(1,3)]) (rule assms(4)[OF Some None])
      moreover have "distinct (map item_ref (snd ?d))"
        using drain_refs[of "\<lambda>n. item_ref n = r" t] mset_eq_imp_distinct_iff[of "fst ?d @ map item_ref (snd ?d)" "map item_ref t"] Cons.prems(1)
        by (simp add: tree_refs_def)
      moreover have "tree_ok (snd ?d)" "parents_ok (snd ?d) grp"
        using Cons.prems by (simp_all add: drain_recursive_if_def drain_from_ok parents_ok_drain)
      ultimately show ?thesis using Cons.IH[of "snd ?d" out] Some None by (simp add: split_beta)
    qed
  qed
qed simp

lemma update_displayed_items_cong:
  "(\<And>r i. r \<in> set order \<Longrightarrow> items r = Some i \<Longrightarrow> upd i = upd' i)
    \<Longrightarrow> update_displayed_items upd order items (t, out) = update_displayed_items upd' order items (t, out)"
proof (induction order arbitrary: t out)
  case (Cons r order)
  have "update_displayed_items upd order items (a, b) = update_displayed_items upd' order items (a, b)" for a b
    by (rule Cons.IH) (rule Cons.prems, simp_all)
  then show ?case using Cons.prems[of r] by (auto simp: Let_def split: option.splits outcome.splits prod.splits)
qed simp

lemma update_displayed_items_panic:
  assumes "\<And>i e. upd i \<noteq> Err e" "r \<in> set order" "items r = Some i" "upd i = Panic"
  shows "update_displayed_items upd order items (t, out) = Panic"
  using assms(2)
proof (induction order arbitrary: t out)
  case (Cons x order)
  then show ?case using assms(1,3,4) by (auto simp: Let_def split: option.splits outcome.splits prod.splits)
qed simp

subsection \<open>Properties\<close>

text \<open>
  C7. Adding a row never fails: on a well-formed canvas whose groups leave room for one more level, the
  position computed from any row, or from the focus, or the end of the list, is one that the tree accepts,
  so the \<^verbatim>\<open>unwrap\<close> of the insertion does not panic. The new row gets the next reference and stands right
  at that position, and the canvas stays well formed.
\<close>

theorem insert_at_row_total:
  assumes "rows_ok w" "groups_below 255 w" "marker_idx i = None"
  shows "\<exists>w' p. insert_displayed i (insert_position w v) mf w = Ok (display_item_ref_counter w + 1, w') \<and> rows_ok w' \<and>
    p \<in> {insert_position w v, insert_position w (focused_item w), Some (end_insert_position w)} \<and>
    (\<exists>q. p = Some q \<and> map item_ref (items_tree w') =
       vec_insert (tp_before q) (display_item_ref_counter w + 1) (map item_ref (items_tree w)))"
proof -
  let ?q = "target_or_focus w (insert_position w v)"
  have q: "Some ?q \<in> {insert_position w v, insert_position w (focused_item w), Some (end_insert_position w)}"
    by (cases "insert_position w v"; cases "insert_position w (focused_item w)")
      (simp_all add: target_or_focus_def or_else_def)
  have "good_place w ?q"
  proof (cases "?q = end_insert_position w")
    case True
    with end_position_good[OF assms(1)] show ?thesis by simp
  next
    case False
    with q obtain u where "insert_position w u = Some ?q" by force
    then show ?thesis by (rule insert_position_good[OF assms(1,2)])
  qed
  from rows_ok_insert[OF assms(1) this assms(3), of mf] obtain w' where
    w': "insert_displayed i (insert_position w v) mf w = Ok (display_item_ref_counter w + 1, w')" "rows_ok w'"
    "map item_ref (items_tree w') = vec_insert (tp_before ?q) (display_item_ref_counter w + 1) (map item_ref (items_tree w))"
    by blast
  show ?thesis by (rule exI[of _ w'], rule exI[of _ "Some ?q"]) (intro conjI w' q exI[of _ ?q] refl)
qed

definition sample_canvas :: "(unit, unit, unit) wave_data" where
  "sample_canvas = \<lparr>
     items_tree = [\<lparr>item_ref = 1, level = 0, unfolded = False, selected = False\<rparr>,
       \<lparr>item_ref = 2, level = 1, unfolded = True, selected = False\<rparr>, \<lparr>item_ref = 3, level = 0, unfolded = True, selected = True\<rparr>],
     displayed_items = [1 \<mapsto> ItemGroup \<lparr>dg_name = ''bus'', dg_color = None, dg_background = None, dg_content = [], dg_is_open = False\<rparr>,
       2 \<mapsto> new_variable LocalName InfoBits sample_ref, 3 \<mapsto> new_marker (Some ''start'') 7],
     display_item_ref_counter = 3, next_decoder_instance = 0, cursor = Some 40, markers = [7 \<mapsto> 12], selected_annotation = None,
     annotations = [], annotation_groups = [], annotation_list_visible = False, annotation_counter = 0,
     focused_item = Some 0, focused_transaction = (None, None), default_name_type = LocalName, display_variable_indices = False\<rparr>"

lemma sample_canvas_items:
  "displayed_items sample_canvas = [1 \<mapsto> ItemGroup \<lparr>dg_name = ''bus'', dg_color = None, dg_background = None, dg_content = [], dg_is_open = False\<rparr>,
     2 \<mapsto> new_variable LocalName InfoBits sample_ref, 3 \<mapsto> new_marker (Some ''start'') 7]"
  by (simp add: sample_canvas_def)

lemma sample_canvas_ok: "rows_ok sample_canvas"
proof -
  have t: "tree_ok (items_tree sample_canvas)" by (simp add: tree_ok_def sample_canvas_def)
  have g: "group_ref (displayed_items sample_canvas) 1" by (simp add: sample_canvas_items group_ref_def)
  have p: "parents_ok (items_tree sample_canvas) (group_ref (displayed_items sample_canvas))"
    using g by (simp add: parents_ok_def sample_canvas_def)
  have "marks (displayed_items sample_canvas) r k \<longleftrightarrow> r = 3 \<and> k = 7" for r k
    by (auto simp: marks_def sample_canvas_items new_variable_def new_marker_def split: if_splits)
  then have m: "markers_ok (displayed_items sample_canvas) (markers sample_canvas)"
    by (auto simp: markers_ok_def sample_canvas_def)
  have "refs_ok (items_tree sample_canvas) (displayed_items sample_canvas) (display_item_ref_counter sample_canvas)"
    by (auto simp: refs_ok_def sample_canvas_def)
  with t p m show ?thesis by (simp add: rows_ok_def canvas_ok_def)
qed

lemma insert_at_row_total_witness:
  "\<exists>w' r. insert_displayed (new_variable LocalName InfoBits sample_ref) (insert_position sample_canvas (Some 0)) True sample_canvas
     = Ok (r, w') \<and> rows_ok w'"
proof -
  have "groups_below 255 sample_canvas" by (simp add: groups_below_def sample_canvas_def)
  from insert_at_row_total[OF sample_canvas_ok this, of "new_variable LocalName InfoBits sample_ref" "Some 0" True]
  show ?thesis by (auto simp: new_variable_def)
qed

text \<open>
  Removing a row, whatever its kind and whether it is displayed or not, always succeeds and keeps the
  canvas well formed: the tree a tree, every row with exactly one item and every item with its row, the
  marker table that of the marker rows, and rows below groups only.
\<close>

theorem remove_row_total:
  assumes "rows_ok w"
  shows "\<exists>w'. remove_displayed_item r w = Ok w' \<and> rows_ok w' \<and> displayed_items w' r = None"
proof -
  obtain w' where w': "remove_displayed_item r w = Ok w'" using remove_total by blast
  have refs: "set (map item_ref (items_tree w)) = dom (displayed_items w)"
    using assms by (simp add: rows_ok_def canvas_ok_def refs_ok_def)
  have "displayed_items w' r = None"
  proof (cases "index_of_ref (items_tree w) r")
    case None
    with w' refs show ?thesis by (auto simp: remove_displayed_item_def index_of_ref_None)
  next
    case (Some i)
    with w' obtain rs t where rm: "remove_recursive (items_tree w) i = Ok (rs, t)" "displayed_items w' = displayed_items w |` (- set rs)"
      by (auto simp: remove_displayed_item_def Let_def outcome_simps fold_forget_items)
    from index_of_ref_Some[OF Some] subtree_split(2)[of i "items_tree w"] rm(1) have "r \<in> set rs"
      by (auto simp: remove_recursive_def Let_def)
    with rm(2) show ?thesis by simp
  qed
  with w' rows_ok_remove[OF assms w'] show ?thesis by blast
qed

lemma remove_row_total_witness:
  "\<exists>w'. remove_displayed_item 1 sample_canvas = Ok w' \<and> rows_ok w' \<and> displayed_items w' 1 = None"
  by (rule remove_row_total[OF sample_canvas_ok])

text \<open>The translator that is asked about a placeholder whose variable is there again fails.\<close>

definition translator_fails :: "(('v, 's) variable_ref \<Rightarrow> ('v, 's) variable_ref option) \<Rightarrow> (('v, 's) variable_ref \<Rightarrow> 'm option)
    \<Rightarrow> (string option \<Rightarrow> 'm \<Rightarrow> variable_info option) \<Rightarrow> ('v, 's) displayed_item \<Rightarrow> bool" where
  "translator_fails update_ref meta info_for i = (case i of
     ItemPlaceholder p \<Rightarrow> (case Option.bind (update_ref (dp_ref p)) meta of Some m \<Rightarrow> info_for (dp_format p) m = None | None \<Rightarrow> False)
   | _ \<Rightarrow> False)"

lemma updated_item_outcome:
  "updated_item update_ref meta info_for keep i \<noteq> Err e"
  "updated_item update_ref meta info_for keep i = Panic \<longleftrightarrow> translator_fails update_ref meta info_for i"
  by (auto simp: updated_item_def translator_fails_def split: displayed_item.splits option.splits)



end
