(* ===== verification/Messages.thy ===== *)
theory Messages
  imports Annotations Canvas_Inv
begin

section \<open>The messages that change the canvas (lib.rs)\<close>

text \<open>
  \<^verbatim>\<open>SystemState::update\<close> for the messages that change what is displayed, with the undo and redo stacks.
  A stack is a list whose last element is on top. The \<^verbatim>\<open>?\<close> of an arm, which ends it, leaves the state as it
  is by then; a failed \<^verbatim>\<open>expect\<close> is a panic. What the handlers ask of code outside the model is in a record
  \<open>env\<close>: the waveform (whether a batch of variables can be loaded, the metadata and index of a variable, the
  information of the translator picked for it), the iteration orders of hash maps, and the texts of ids
  and floating point numbers. Redrawing and loading signals have no effect here.
\<close>

subsection \<open>State\<close>

record ('v, 's, 't) canvas_state =
  cs_message :: string
  cs_focused_item :: "nat option"
  cs_focused_transaction :: "nat option \<times> 't option"
  cs_items_tree :: item_tree
  cs_displayed_items :: "nat \<Rightarrow> ('v, 's) displayed_item option"
  cs_markers :: "nat \<Rightarrow> int option"
  cs_annotations :: "annotation list"
  cs_annotation_groups :: "annotation_group list"
  cs_annotation_list :: bool
  cs_selected_annotation :: "nat option"
  cs_annotation_counter :: int

record ('v, 's, 't) system_state =
  sys_waves :: "('v, 's, 't) wave_data option"
  undo_stack :: "('v, 's, 't) canvas_state list"
  redo_stack :: "('v, 's, 't) canvas_state list"
  undo_stack_size :: nat
  show_decoder_dialog :: "nat option"
  show_annotation_list :: bool
  annotation_id_source :: nat
  drag_started :: bool
  drag_source_idx :: "nat option"
  drag_target_idx :: "target_position option"

record ('v, 's, 'm) env =
  env_load :: "('v, 's) variable_ref list \<Rightarrow> bool"
  env_meta :: "('v, 's) variable_ref \<Rightarrow> 'm option"
  env_info :: "'m \<Rightarrow> variable_info option"
  env_index :: "('v, 's) variable_ref \<Rightarrow> variable_index option"
  env_locals :: "string list"
  env_order :: "nat list"
  env_annotation_id :: "nat \<Rightarrow> nat"
  env_show_id :: "nat \<Rightarrow> string"
  env_debug :: "string \<Rightarrow> string"
  env_show_f32 :: "f32_bits \<Rightarrow> string"
  env_multiplier :: f32_bits

definition current_canvas_state :: "('v, 's, 't) wave_data \<Rightarrow> string \<Rightarrow> ('v, 's, 't) canvas_state" where
  "current_canvas_state w message = \<lparr>cs_message = message, cs_focused_item = focused_item w,
     cs_focused_transaction = focused_transaction w, cs_items_tree = items_tree w,
     cs_displayed_items = (\<lambda>r. map_option item_clone (displayed_items w r)), cs_markers = markers w,
     cs_annotations = annotations w, cs_annotation_groups = annotation_groups w,
     cs_annotation_list = annotation_list_visible w, cs_selected_annotation = selected_annotation w,
     cs_annotation_counter = annotation_counter w\<rparr>"

definition restore_canvas :: "('v, 's, 't) canvas_state \<Rightarrow> ('v, 's, 't) wave_data \<Rightarrow> ('v, 's, 't) wave_data" where
  "restore_canvas c w = w\<lparr>focused_item := cs_focused_item c, focused_transaction := cs_focused_transaction c,
     items_tree := cs_items_tree c, displayed_items := cs_displayed_items c, markers := cs_markers c,
     annotations := cs_annotations c, annotation_groups := cs_annotation_groups c,
     annotation_list_visible := cs_annotation_list c, selected_annotation := cs_selected_annotation c,
     annotation_counter := cs_annotation_counter c\<rparr>"

definition save_current_canvas :: "string \<Rightarrow> ('v, 's, 't) system_state \<Rightarrow> ('v, 's, 't) system_state" where
  "save_current_canvas message s = (case sys_waves s of None \<Rightarrow> s | Some w \<Rightarrow>
     let stack = undo_stack s @ [current_canvas_state w message]
     in s\<lparr>undo_stack := (if undo_stack_size s < length stack then tl stack else stack), redo_stack := []\<rparr>)"

fun undo_times :: "nat \<Rightarrow> ('v, 's, 't) wave_data \<times> ('v, 's, 't) canvas_state list \<times> ('v, 's, 't) canvas_state list
    \<Rightarrow> ('v, 's, 't) wave_data \<times> ('v, 's, 't) canvas_state list \<times> ('v, 's, 't) canvas_state list" where
  "undo_times 0 (w, from, to) = (w, from, to)"
| "undo_times (Suc n) (w, from, to) =
     (if from = [] then (w, from, to)
      else undo_times n (restore_canvas (last from) w, butlast from, to @ [current_canvas_state w (cs_message (last from))]))"

definition undo :: "nat \<Rightarrow> ('v, 's, 't) system_state \<Rightarrow> ('v, 's, 't) system_state" where
  "undo n s = (case sys_waves s of None \<Rightarrow> s | Some w \<Rightarrow>
     let (w', us, rs) = undo_times n (w, undo_stack s, redo_stack s)
     in s\<lparr>sys_waves := Some w', undo_stack := us, redo_stack := rs\<rparr>)"

definition redo :: "nat \<Rightarrow> ('v, 's, 't) system_state \<Rightarrow> ('v, 's, 't) system_state" where
  "redo n s = (case sys_waves s of None \<Rightarrow> s | Some w \<Rightarrow>
     let (w', rs, us) = undo_times n (w, redo_stack s, undo_stack s)
     in s\<lparr>sys_waves := Some w', undo_stack := us, redo_stack := rs\<rparr>)"

definition with_waves :: "(('v, 's, 't) wave_data \<Rightarrow> (move_error, ('v, 's, 't) wave_data) outcome)
    \<Rightarrow> ('v, 's, 't) system_state \<Rightarrow> (move_error, ('v, 's, 't) system_state) outcome" where
  "with_waves f s = (case sys_waves s of None \<Rightarrow> Ok s
     | Some w \<Rightarrow> and_then (f w) (\<lambda>w'. Ok (s\<lparr>sys_waves := Some w'\<rparr>)))"

subsection \<open>Selection and focus\<close>

text \<open>The references are at most the counter, so the size of the map of items is a count below it.\<close>

definition focus_item :: "nat \<Rightarrow> ('v, 's, 't) wave_data \<Rightarrow> ('v, 's, 't) wave_data" where
  "focus_item idx w = (if idx < length (filter (\<lambda>r. displayed_items w r \<noteq> None) [0..<display_item_ref_counter w + 1])
     then w\<lparr>focused_item := Some idx\<rparr> else w)"

definition item_select_range :: "nat \<Rightarrow> ('v, 's, 't) wave_data \<Rightarrow> ('v, 's, 't) wave_data" where
  "item_select_range select_to w = (case focused_item w of None \<Rightarrow> w
     | Some select_from \<Rightarrow> w\<lparr>items_tree := xselect_visible_range (items_tree w) select_from select_to True\<rparr>)"

definition toggle_item_selected :: "nat option \<Rightarrow> ('v, 's, 't) wave_data \<Rightarrow> ('v, 's, 't) wave_data" where
  "toggle_item_selected vidx w =
     (case (case vidx of Some v \<Rightarrow> Some v | None \<Rightarrow> focused_item w) of None \<Rightarrow> w | Some v \<Rightarrow>
      case to_displayed (items_tree w) v of None \<Rightarrow> w | Some i \<Rightarrow>
        w\<lparr>items_tree := (items_tree w)[i := (items_tree w ! i)\<lparr>selected := \<not> selected (items_tree w ! i)\<rparr>]\<rparr>)"

text \<open>\<^verbatim>\<open>usize\<close> is 64 bits: without a focus, moving down counts from the largest index and wraps.\<close>

definition move_focus :: "move_dir \<Rightarrow> nat \<Rightarrow> bool \<Rightarrow> ('v, 's, 't) wave_data \<Rightarrow> ('v, 's, 't) wave_data" where
  "move_focus direction n select w =
     (let visible_item_cnt = length (iter_visible (items_tree w)) in
      if visible_item_cnt = 0 then w
      else let new_focus = (case direction of
             Up \<Rightarrow> (case focused_item w of Some v \<Rightarrow> v | None \<Rightarrow> visible_item_cnt) - n
           | Down \<Rightarrow> min (((case focused_item w of Some v \<Rightarrow> v | None \<Rightarrow> 2 ^ 64 - 1) + n) mod 2 ^ 64) (visible_item_cnt - 1));
             t = (if select then
                    xselect (case focused_item w of Some v \<Rightarrow> xselect (items_tree w) v True | None \<Rightarrow> items_tree w) new_focus True
                  else items_tree w)
           in w\<lparr>items_tree := t, focused_item := Some new_focus\<rparr>)"

subsection \<open>Changing items\<close>

datatype target = Explicit nat | CurrentSelection

definition modify_visible :: "(('v, 's) displayed_item \<Rightarrow> ('v, 's) displayed_item) \<Rightarrow> nat \<Rightarrow> ('v, 's, 't) wave_data
    \<Rightarrow> ('v, 's, 't) wave_data option" where
  "modify_visible f vidx w = (case get_visible (items_tree w) vidx of None \<Rightarrow> None | Some n \<Rightarrow> Some (modify_item f (item_ref n) w))"

definition modify_selected :: "(('v, 's) displayed_item \<Rightarrow> ('v, 's) displayed_item) \<Rightarrow> ('v, 's, 't) wave_data \<Rightarrow> ('v, 's, 't) wave_data" where
  "modify_selected f w = fold (\<lambda>n. modify_item f (item_ref n)) (iter_visible_selected (items_tree w)) w"

text \<open>An explicit row, or the focused row and then the selected ones; a focus on no row ends the handler.\<close>

definition modify_target :: "(('v, 's) displayed_item \<Rightarrow> ('v, 's) displayed_item) \<Rightarrow> target \<Rightarrow> ('v, 's, 't) wave_data \<Rightarrow> ('v, 's, 't) wave_data" where
  "modify_target f t w = (case t of
     Explicit vidx \<Rightarrow> or_else (modify_visible f vidx w) w
   | CurrentSelection \<Rightarrow> (case focused_item w of
       None \<Rightarrow> modify_selected f w
     | Some focused \<Rightarrow> (case modify_visible f focused w of None \<Rightarrow> w | Some w' \<Rightarrow> modify_selected f w')))"

fun set_analog :: "f32_bits \<Rightarrow> analog_settings option \<Rightarrow> ('v, 's) displayed_item \<Rightarrow> ('v, 's) displayed_item" where
  "set_analog multiplier new_settings (ItemVariable v) = ItemVariable (case (dv_analog v, new_settings) of
     (Some a, Some new) \<Rightarrow> v\<lparr>dv_analog := Some (a\<lparr>av_settings := new\<rparr>)\<rparr>
   | (None, Some new) \<Rightarrow> v\<lparr>dv_analog := Some (analog_new new), dv_height := Some multiplier\<rparr>
   | (_, None) \<Rightarrow> v\<lparr>dv_analog := None\<rparr>)"
| "set_analog multiplier new_settings i = i"

definition is_variable :: "('v, 's) displayed_item option \<Rightarrow> bool" where
  "is_variable i \<longleftrightarrow> (case i of Some (ItemVariable v) \<Rightarrow> True | _ \<Rightarrow> False)"

text \<open>The changed canvas and whether a variable was changed, so that the names must be computed anew.\<close>

definition change_variable_name_type :: "target \<Rightarrow> variable_name_type \<Rightarrow> ('v, 's, 't) wave_data \<Rightarrow> ('v, 's, 't) wave_data \<times> bool" where
  "change_variable_name_type t nt w =
     (let refs = (case t of
        Explicit vidx \<Rightarrow> (case get_visible (items_tree w) vidx of Some n \<Rightarrow> [item_ref n] | None \<Rightarrow> [])
      | CurrentSelection \<Rightarrow> map item_ref (iter_visible_selected (items_tree w))
          @ (case focused_ref w of Some r \<Rightarrow> [r] | None \<Rightarrow> []))
      in (fold (modify_item (set_name_type nt)) refs w, list_ex (\<lambda>r. is_variable (displayed_items w r)) refs))"

subsection \<open>Adding and removing\<close>

definition add_variables :: "('v, 's, 'm) env \<Rightarrow> ('v, 's) variable_ref list \<Rightarrow> target_position option \<Rightarrow> bool \<Rightarrow> bool
    \<Rightarrow> variable_name_type option \<Rightarrow> ('v, 's, 't) wave_data \<Rightarrow> (move_error, nat list \<times> ('v, 's, 't) wave_data) outcome" where
  "add_variables e vars target update_display_names ignore_failures nt w =
     (if \<not> env_load e vars then Ok ([], w)
      else and_then (add_variables_loop (env_meta e) (env_info e) ignore_failures nt vars (target_or_focus w target) [] w)
        (\<lambda>(finished, indices, w'). Ok (indices,
           if finished \<and> update_display_names then compute_variable_display_names (env_locals e) (env_index e) w' else w')))"

fun remove_all :: "nat list \<Rightarrow> ('v, 's, 't) wave_data \<Rightarrow> (move_error, ('v, 's, 't) wave_data) outcome" where
  "remove_all [] w = Ok w"
| "remove_all (r # rs) w = and_then (remove_displayed_item r w) (remove_all rs)"

definition remove_selection :: "('v, 's, 't) wave_data \<Rightarrow> (move_error, ('v, 's, 't) wave_data) outcome" where
  "remove_selection w = remove_all (map item_ref (iter_visible_selected (items_tree w))
     @ (case focused_ref w of Some r \<Rightarrow> [r] | None \<Rightarrow> [])) w"

definition named :: "('v, 's, 't) system_state \<Rightarrow> nat option \<Rightarrow> string option" where
  "named s r = (case sys_waves s of None \<Rightarrow> None | Some w \<Rightarrow>
     (case r of None \<Rightarrow> None | Some r \<Rightarrow> map_option item_name (displayed_items w r)))"

definition remove_visible_items :: "('v, 's, 'm) env \<Rightarrow> target \<Rightarrow> ('v, 's, 't) system_state \<Rightarrow> (move_error, ('v, 's, 't) system_state) outcome" where
  "remove_visible_items e t s = (case t of
     Explicit vidx \<Rightarrow>
       (let r = (case sys_waves s of None \<Rightarrow> None | Some w \<Rightarrow> map_option item_ref (get_visible (items_tree w) vidx));
            msg = (case named s r of Some n \<Rightarrow> ''Remove item '' @ n | None \<Rightarrow> ''Remove one item'')
        in with_waves (\<lambda>w. case r of None \<Rightarrow> Ok w | Some r \<Rightarrow> and_then (remove_displayed_item r w)
             (\<lambda>w'. Ok (compute_variable_display_names (env_locals e) (env_index e) w'))) (save_current_canvas msg s))
   | CurrentSelection \<Rightarrow> with_waves (\<lambda>w. and_then (remove_selection w)
       (\<lambda>w'. Ok (compute_variable_display_names (env_locals e) (env_index e) w')))
       (save_current_canvas ''Remove selected items'' s))"

definition remove_items :: "nat list \<Rightarrow> ('v, 's, 't) system_state \<Rightarrow> (move_error, ('v, 's, 't) system_state) outcome" where
  "remove_items items s =
     (let msg = (case sys_waves s of None \<Rightarrow> '''' | Some w \<Rightarrow>
        (case items of
           [r] \<Rightarrow> (case displayed_items w r of Some i \<Rightarrow> ''Remove item '' @ item_name i | None \<Rightarrow> '''')
         | _ \<Rightarrow> ''Remove '' @ show_radix 10 (length items) @ '' items''))
      in with_waves (remove_all (rev (sort items))) (save_current_canvas msg s))"

subsection \<open>Moving\<close>

definition group_node :: "('v, 's, 't) wave_data \<Rightarrow> node \<Rightarrow> bool" where
  "group_node w n \<longleftrightarrow> group_ref (displayed_items w) (item_ref n)"

fun move_times :: "nat \<Rightarrow> move_dir \<Rightarrow> nat \<Rightarrow> ('v, 's, 't) wave_data \<Rightarrow> (move_error, nat \<times> ('v, 's, 't) wave_data) outcome" where
  "move_times 0 dir vidx w = Ok (vidx, w)"
| "move_times (Suc n) dir vidx w = (case move_item (items_tree w) vidx dir (group_node w) of
     (t, r) \<Rightarrow> and_then (expect r) (\<lambda>v. move_times n dir v (w\<lparr>items_tree := t\<rparr>)))"

definition move_focused_item :: "move_dir \<Rightarrow> nat \<Rightarrow> ('v, 's, 't) wave_data \<Rightarrow> (move_error, ('v, 's, 't) wave_data) outcome" where
  "move_focused_item dir n w = (case focused_item w of None \<Rightarrow> Ok w | Some vidx \<Rightarrow>
     and_then (move_times n dir vidx w) (\<lambda>(v, w'). Ok (w'\<lparr>focused_item := Some v\<rparr>)))"

definition drag_items :: "nat \<Rightarrow> target_position \<Rightarrow> ('v, 's, 't) wave_data \<Rightarrow> (move_error, ('v, 's, 't) wave_data) outcome" where
  "drag_items source_vidx target w =
     (let t = items_tree w;
          focused_index = (case focused_item w of Some v \<Rightarrow> to_displayed t v | None \<Rightarrow> None);
          focused_item_ref = map_option (\<lambda>i. item_ref (t ! i)) focused_index;
          to_move = map info_idx (filter (\<lambda>i. selected (info_node i)) (iter_visible_extra t))
            @ (case focused_index of Some i \<Rightarrow> [i] | None \<Rightarrow> [])
            @ (case to_displayed t source_vidx of Some i \<Rightarrow> [i] | None \<Rightarrow> [])
      in case move_items t to_move target of
           Panic \<Rightarrow> Panic
         | moved \<Rightarrow> (let t' = (case moved of Ok t' \<Rightarrow> t' | _ \<Rightarrow> t)
             in Ok (w\<lparr>items_tree := t', focused_item := (case focused_item_ref of Some r \<Rightarrow> visible_of_ref t' r | None \<Rightarrow> None)\<rparr>)))"

definition variable_drag_finished :: "('v, 's, 't) system_state \<Rightarrow> (move_error, ('v, 's, 't) system_state) outcome" where
  "variable_drag_finished s0 =
     (let s = s0\<lparr>drag_started := False\<rparr> in
      case drag_source_idx s of None \<Rightarrow> Ok s | Some source_vidx \<Rightarrow>
      case drag_target_idx s of None \<Rightarrow> Ok (s\<lparr>drag_source_idx := None\<rparr>) | Some target \<Rightarrow>
        with_waves (drag_items source_vidx target)
          (save_current_canvas ''Drag item'' (s\<lparr>drag_source_idx := None, drag_target_idx := None\<rparr>)))"

subsection \<open>Markers by name\<close>

definition show_marker_time :: "int \<Rightarrow> string" where "show_marker_time t = show_int t"

definition add_marker_message :: "int \<Rightarrow> string option \<Rightarrow> bool \<Rightarrow> ('v, 's, 't) system_state \<Rightarrow> (move_error, ('v, 's, 't) system_state) outcome" where
  "add_marker_message t name mf s = with_waves (\<lambda>w. and_then (add_marker t name mf w) (\<lambda>(_, w'). Ok w'))
     (save_current_canvas (case name of Some n \<Rightarrow> ''Add marker '' @ n @ '' at '' @ show_marker_time t
        | None \<Rightarrow> ''Add marker at '' @ show_marker_time t) s)"

definition set_marker_message :: "nat \<Rightarrow> int \<Rightarrow> ('v, 's, 't) system_state \<Rightarrow> (move_error, ('v, 's, 't) system_state) outcome" where
  "set_marker_message i t s = with_waves (set_marker_position i t)
     (save_current_canvas (''Set marker '' @ show_radix 10 i @ '' to '' @ show_marker_time t) s)"

subsection \<open>Decoders and groups\<close>

definition decoder_add :: "protocol \<Rightarrow> nat list option \<Rightarrow> ('v, 's, 't) system_state \<Rightarrow> (move_error, ('v, 's, 't) system_state) outcome" where
  "decoder_add p items s0 =
     (let s = save_current_canvas (''Add '' @ show_protocol p @ '' decoder'') s0 in
      case sys_waves s of None \<Rightarrow> Ok s | Some w \<Rightarrow>
        let item_refs = (case items of Some rs \<Rightarrow> rs | None \<Rightarrow>
              (case map item_ref (iter_visible_selected (items_tree w)) of [] \<Rightarrow> map item_ref (items_tree w) | rs \<Rightarrow> rs));
            sigs = signals_of item_refs w
        in if sigs = [] then Ok s
           else and_then (add_decoder p sigs (insert_position w (focused_item w)) w)
             (\<lambda>(inst, w'). Ok (s\<lparr>sys_waves := Some w', show_decoder_dialog := Some inst\<rparr>)))"

definition move_into_group :: "nat list \<Rightarrow> target_position \<Rightarrow> nat \<Rightarrow> ('v, 's, 't) wave_data \<Rightarrow> (move_error, ('v, 's, 't) wave_data) outcome" where
  "move_into_group item_refs pos g w =
     (let t = items_tree w;
          item_idxs = filter (\<lambda>i. item_ref (t ! i) \<in> set item_refs) [0..<length t]
      in case move_items t item_idxs \<lparr>tp_before = tp_before pos + 1,
             tp_level = saturating_add_u8 (tp_level pos) 1\<rparr> of
           Panic \<Rightarrow> Panic
         | moved \<Rightarrow> (let t' = xselect_all_visible (case moved of Ok t' \<Rightarrow> t' | _ \<Rightarrow> t) False
             in Ok (w\<lparr>items_tree := t', focused_item := visible_of_ref t' g\<rparr>)))"

definition group_new :: "string option \<Rightarrow> nat option \<Rightarrow> nat list option \<Rightarrow> ('v, 's, 't) wave_data
    \<Rightarrow> (move_error, ('v, 's, 't) wave_data) outcome" where
  "group_new name before items w =
     (let passed = (case before of None \<Rightarrow> None | Some b \<Rightarrow>
            map_option (\<lambda>n. \<lparr>tp_before = b, tp_level = level n\<rparr>) (get (items_tree w) b));
          passed_or_focused = (case passed of Some p \<Rightarrow> Some p | None \<Rightarrow> insert_position w (focused_item w));
          final_target = or_else passed_or_focused (end_insert_position w);
          refs = (case items of Some rs \<Rightarrow> rs | None \<Rightarrow> map item_ref (iter_visible_selected (items_tree w)))
      in and_then
        (if before = None \<and> passed_or_focused \<noteq> None then
           (case focused_ref w of Some r \<Rightarrow> Ok (refs @ [r]) | None \<Rightarrow> Panic)
         else Ok refs)
        (\<lambda>item_refs. if item_refs = [] then Ok w else
           and_then (add_group (or_else name ''Group'') (Some final_target) w)
             (\<lambda>(g, w'). move_into_group item_refs final_target g w')))"

definition group_dissolve :: "nat option \<Rightarrow> ('v, 's, 't) wave_data \<Rightarrow> (move_error, ('v, 's, 't) wave_data) outcome" where
  "group_dissolve r w = (case index_for_ref_or_focus w r of None \<Rightarrow> Ok w | Some i \<Rightarrow>
     and_then (remove_dissolve (items_tree w) i) (\<lambda>(removed, t).
       Ok (w\<lparr>items_tree := t, displayed_items := (displayed_items w)(removed := None)\<rparr>)))"

definition group_fold :: "bool \<Rightarrow> bool \<Rightarrow> nat option \<Rightarrow> ('v, 's, 't) wave_data \<Rightarrow> (move_error, ('v, 's, 't) wave_data) outcome" where
  "group_fold unfold recursive r w = (case index_for_ref_or_focus w r of None \<Rightarrow> Ok w | Some i \<Rightarrow>
     and_then (case focused_item w of None \<Rightarrow> Ok None | Some f \<Rightarrow>
         (case get_visible_extra (items_tree w) f of None \<Rightarrow> Panic | Some row \<Rightarrow>
            and_then (subtree_contains (items_tree w) i (info_idx row)) (\<lambda>inside. Ok (if inside then None else Some f))))
       (\<lambda>focus. and_then (if recursive then xfold_recursive (items_tree w) i unfold else xfold (items_tree w) i unfold)
         (\<lambda>t. Ok (w\<lparr>focused_item := focus, items_tree := t\<rparr>))))"

definition group_fold_all :: "bool \<Rightarrow> ('v, 's, 't) wave_data \<Rightarrow> (move_error, ('v, 's, 't) wave_data) outcome" where
  "group_fold_all unfold w = and_then
     (case focused_item w of None \<Rightarrow> Ok None | Some f \<Rightarrow>
        (case get_visible (items_tree w) f of None \<Rightarrow> Panic
         | Some n \<Rightarrow> Ok (if \<not> unfold \<and> 0 < level n then None else Some f)))
     (\<lambda>focus. Ok (w\<lparr>focused_item := focus, items_tree := xfold_all (items_tree w) unfold\<rparr>))"

definition fold_message :: "bool \<Rightarrow> bool \<Rightarrow> string" where
  "fold_message unfold recursive = (if unfold then ''Unfold group'' else ''Fold group'')
     @ (if recursive then '' recursive'' else '''')"

definition fold_all_message :: "bool \<Rightarrow> string" where
  "fold_all_message unfold = (if unfold then ''Fold all groups'' else ''Unfold all groups'')"

subsection \<open>The messages\<close>

text \<open>The arms of \<^verbatim>\<open>update\<close>, one enum and one function per group of messages.\<close>

datatype ('v, 's) row_message =
  AddVariables "('v, 's) variable_ref list"
| AddDivider "string option" "nat option"
| AddTimeLine "nat option"
| AddDraggedVariables "('v, 's) variable_ref list"
| RemoveVisibleItems target
| RemoveItems "nat list"
| RemovePlaceholders

datatype 't select_message =
  FocusItem nat
| ItemSelectRange nat
| ItemSelectAll
| SetItemSelected nat bool
| ToggleItemSelected "nat option"
| UnfocusItem
| MoveFocus move_dir nat bool
| FocusTransaction "nat option" "'t option"
| ItemSelectionClear
| CursorSet int

datatype item_message =
  ItemColorChange target "string option"
| ItemNameChange "nat option" "string option"
| ItemNameReset target
| ItemBackgroundColorChange target "string option"
| ItemHeightScalingFactorChange target f32_bits
| SetAnalogSettings target "analog_settings option"
| ChangeVariableNameType target variable_name_type
| ForceVariableNameTypes variable_name_type

datatype marker_message =
  ResolveMarkerSet string int
| AddMarker int "string option" bool
| SetMarker nat int
| ResolveMarkerRemove string
| RemoveMarker nat
| MoveMarkerToCursor nat

datatype move_message =
  MoveFocusedItem move_dir nat
| VariableDragStarted nat
| VariableDragTargetChanged target_position
| VariableDragFinished

datatype ('v, 's) decoder_message =
  DecoderAdd protocol "nat list option"
| DecoderConfigure nat decoder_settings "('v, 's) role_bindings"
| DecoderOpenDialog "nat option"

datatype group_message =
  GroupNew "string option" "nat option" "nat list option"
| GroupDissolve "nat option"
| GroupFold "nat option"
| GroupUnfold "nat option"
| GroupFoldRecursive "nat option"
| GroupUnfoldRecursive "nat option"
| GroupFoldAll
| GroupUnfoldAll

datatype history_message =
  Undo nat
| Redo nat

definition pure_waves :: "(('v, 's, 't) wave_data \<Rightarrow> ('v, 's, 't) wave_data) \<Rightarrow> ('v, 's, 't) system_state
    \<Rightarrow> (move_error, ('v, 's, 't) system_state) outcome" where
  "pure_waves f s = with_waves (\<lambda>w. Ok (f w)) s"

definition add_variables_message :: "('v, 's, 'm) env \<Rightarrow> ('v, 's) variable_ref list \<Rightarrow> ('v, 's, 't) system_state \<Rightarrow> (move_error, ('v, 's, 't) system_state) outcome" where
  "add_variables_message e vars s =
     (if vars = [] then Ok s
      else with_waves (\<lambda>w. and_then (add_variables e vars None True False None w) (\<lambda>(_, w'). Ok w'))
        (save_current_canvas (if length vars = 1 then ''Add variable '' @ vr_name (hd vars)
           else ''Add '' @ show_radix 10 (length vars) @ '' variables'') s))"

definition add_dragged_variables :: "('v, 's, 'm) env \<Rightarrow> ('v, 's) variable_ref list \<Rightarrow> ('v, 's, 't) system_state \<Rightarrow> (move_error, ('v, 's, 't) system_state) outcome" where
  "add_dragged_variables e vars s =
     (case sys_waves s of None \<Rightarrow> Ok s | Some w \<Rightarrow>
     with_waves (\<lambda>w. and_then (add_variables e vars (drag_target_idx s) True False None (w\<lparr>focused_item := None\<rparr>)) (\<lambda>(_, w'). Ok w'))
       (s\<lparr>drag_source_idx := None, drag_target_idx := None\<rparr>))"

fun update_row :: "('v, 's, 'm) env \<Rightarrow> ('v, 's) row_message \<Rightarrow> ('v, 's, 't) system_state
    \<Rightarrow> (move_error, ('v, 's, 't) system_state) outcome" where
  "update_row e (AddVariables vars) s =
     add_variables_message e vars s"
| "update_row e (AddDivider name vidx) s =
     with_waves (\<lambda>w. and_then (add_divider name vidx w) (\<lambda>(_, w'). Ok w')) (save_current_canvas ''Add divider'' s)"
| "update_row e (AddTimeLine vidx) s =
     with_waves (\<lambda>w. and_then (add_timeline vidx w) (\<lambda>(_, w'). Ok w')) (save_current_canvas ''Add timeline'' s)"
| "update_row e (AddDraggedVariables vars) s = add_dragged_variables e vars s"
| "update_row e (RemoveVisibleItems t) s = remove_visible_items e t s"
| "update_row e (RemoveItems items) s = remove_items items s"
| "update_row e RemovePlaceholders s = pure_waves remove_placeholders s"

definition focus_transaction :: "nat option \<Rightarrow> 't option \<Rightarrow> ('v, 's, 't) system_state \<Rightarrow> (move_error, ('v, 's, 't) system_state) outcome" where
  "focus_transaction tx_ref tx s =
     pure_waves (\<lambda>w. w\<lparr>focused_transaction := (tx_ref, case tx of Some t \<Rightarrow> Some t | None \<Rightarrow> snd (focused_transaction w))\<rparr>)
       (case tx_ref of Some r \<Rightarrow> if tx = None then save_current_canvas (''Focus Transaction id: '' @ show_radix 10 r) s else s
        | None \<Rightarrow> s)"

fun update_select :: "('v, 's, 'm) env \<Rightarrow> 't select_message \<Rightarrow> ('v, 's, 't) system_state
    \<Rightarrow> (move_error, ('v, 's, 't) system_state) outcome" where
  "update_select e (FocusItem idx) s = pure_waves (focus_item idx) s"
| "update_select e (ItemSelectRange select_to) s = pure_waves (item_select_range select_to) s"
| "update_select e ItemSelectAll s = pure_waves (\<lambda>w. w\<lparr>items_tree := xselect_all_visible (items_tree w) True\<rparr>) s"
| "update_select e (SetItemSelected vidx b) s = pure_waves (\<lambda>w. w\<lparr>items_tree := xselect (items_tree w) vidx b\<rparr>) s"
| "update_select e (ToggleItemSelected vidx) s = pure_waves (toggle_item_selected vidx) s"
| "update_select e UnfocusItem s = pure_waves (\<lambda>w. w\<lparr>focused_item := None\<rparr>) s"
| "update_select e (MoveFocus dir n select) s = pure_waves (move_focus dir n select) s"
| "update_select e (FocusTransaction tx_ref tx) s =
     focus_transaction tx_ref tx s"
| "update_select e ItemSelectionClear s = pure_waves (\<lambda>w. w\<lparr>items_tree := xselect_all_visible (items_tree w) False\<rparr>) s"
| "update_select e (CursorSet t) s = pure_waves (\<lambda>w. w\<lparr>cursor := Some t\<rparr>) s"

definition item_color_change :: "target \<Rightarrow> string option \<Rightarrow> ('v, 's, 't) system_state \<Rightarrow> (move_error, ('v, 's, 't) system_state) outcome" where
  "item_color_change t c s =
     pure_waves (modify_target (set_color c) t)
     (save_current_canvas (''Change item color to '' @ or_else c ''default'') s)"

definition item_name_change :: "nat option \<Rightarrow> string option \<Rightarrow> ('v, 's, 't) system_state \<Rightarrow> (move_error, ('v, 's, 't) system_state) outcome" where
  "item_name_change vidx n s =
     pure_waves
     (\<lambda>w. case (case vidx of Some v \<Rightarrow> Some v | None \<Rightarrow> focused_item w) of None \<Rightarrow> w
        | Some v \<Rightarrow> or_else (modify_visible (set_name n) v w) w)
     (save_current_canvas (''Change item name to '' @ or_else n ''default'') s)"

definition item_name_reset_message :: "target \<Rightarrow> ('v, 's, 't) system_state \<Rightarrow> (move_error, ('v, 's, 't) system_state) outcome" where
  "item_name_reset_message t s =
     pure_waves
     (\<lambda>w. case t of Explicit v \<Rightarrow> or_else (modify_visible (set_name None) v w) w | CurrentSelection \<Rightarrow> modify_selected (set_name None) w)
     (save_current_canvas ''Resetting item name(s)'' s)"

definition item_background_change :: "target \<Rightarrow> string option \<Rightarrow> ('v, 's, 't) system_state \<Rightarrow> (move_error, ('v, 's, 't) system_state) outcome" where
  "item_background_change t c s =
     pure_waves (modify_target (set_background c) t)
     (save_current_canvas (''Change item background color to '' @ or_else c ''default'') s)"

definition item_height_change :: "('v, 's, 'm) env \<Rightarrow> target \<Rightarrow> f32_bits \<Rightarrow> ('v, 's, 't) system_state \<Rightarrow> (move_error, ('v, 's, 't) system_state) outcome" where
  "item_height_change e t h s =
     pure_waves (modify_target (set_height_scaling_factor h) t)
     (save_current_canvas (''Change item height scaling factor to '' @ env_show_f32 e h) s)"

definition set_analog_settings :: "('v, 's, 'm) env \<Rightarrow> target \<Rightarrow> analog_settings option \<Rightarrow> ('v, 's, 't) system_state \<Rightarrow> (move_error, ('v, 's, 't) system_state) outcome" where
  "set_analog_settings e t a s =
     pure_waves (modify_target (set_analog (env_multiplier e) a) t)
     (save_current_canvas ''Set analog state'' s)"

definition change_name_type_message :: "('v, 's, 'm) env \<Rightarrow> target \<Rightarrow> variable_name_type \<Rightarrow> ('v, 's, 't) system_state \<Rightarrow> (move_error, ('v, 's, 't) system_state) outcome" where
  "change_name_type_message e t nt s =
     pure_waves (\<lambda>w.
     let (w', recompute) = change_variable_name_type t nt w
     in if recompute then compute_variable_display_names (env_locals e) (env_index e) w' else w') s"

fun update_item :: "('v, 's, 'm) env \<Rightarrow> item_message \<Rightarrow> ('v, 's, 't) system_state
    \<Rightarrow> (move_error, ('v, 's, 't) system_state) outcome" where
  "update_item e (ItemColorChange t c) s = item_color_change t c s"
| "update_item e (ItemNameChange vidx n) s = item_name_change vidx n s"
| "update_item e (ItemNameReset t) s = item_name_reset_message t s"
| "update_item e (ItemBackgroundColorChange t c) s = item_background_change t c s"
| "update_item e (ItemHeightScalingFactorChange t h) s = item_height_change e t h s"
| "update_item e (SetAnalogSettings t a) s = set_analog_settings e t a s"
| "update_item e (ChangeVariableNameType t nt) s = change_name_type_message e t nt s"
| "update_item e (ForceVariableNameTypes nt) s = pure_waves (force_variable_name_type (env_locals e) (env_index e) nt) s"

definition resolve_marker_set :: "('v, 's, 'm) env \<Rightarrow> string \<Rightarrow> int \<Rightarrow> ('v, 's, 't) system_state \<Rightarrow> (move_error, ('v, 's, 't) system_state) outcome" where
  "resolve_marker_set e name t s =
     (case sys_waves s of None \<Rightarrow> Ok s | Some w \<Rightarrow>
     (case resolve_marker_name (env_order e) name w of
        Some i \<Rightarrow> set_marker_message i t s
      | None \<Rightarrow> add_marker_message t (Some name) True s))"

definition resolve_marker_remove :: "('v, 's, 'm) env \<Rightarrow> string \<Rightarrow> ('v, 's, 't) system_state \<Rightarrow> (move_error, ('v, 's, 't) system_state) outcome" where
  "resolve_marker_remove e name s =
     (case sys_waves s of None \<Rightarrow> Ok s | Some w \<Rightarrow>
     (case resolve_marker_name (env_order e) name w of
        Some i \<Rightarrow> with_waves (remove_marker (env_order e) i) s | None \<Rightarrow> Ok s))"

fun update_marker :: "('v, 's, 'm) env \<Rightarrow> marker_message \<Rightarrow> ('v, 's, 't) system_state
    \<Rightarrow> (move_error, ('v, 's, 't) system_state) outcome" where
  "update_marker e (ResolveMarkerSet name t) s = resolve_marker_set e name t s"
| "update_marker e (AddMarker t name mf) s = add_marker_message t name mf s"
| "update_marker e (SetMarker i t) s = set_marker_message i t s"
| "update_marker e (ResolveMarkerRemove name) s = resolve_marker_remove e name s"
| "update_marker e (RemoveMarker i) s = with_waves (remove_marker (env_order e) i) s"
| "update_marker e (MoveMarkerToCursor i) s = with_waves (move_marker_to_cursor i) (save_current_canvas ''Move marker'' s)"

fun update_move :: "('v, 's, 'm) env \<Rightarrow> move_message \<Rightarrow> ('v, 's, 't) system_state
    \<Rightarrow> (move_error, ('v, 's, 't) system_state) outcome" where
  "update_move e (MoveFocusedItem dir n) s = with_waves (move_focused_item dir n)
     (save_current_canvas (''Move item '' @ (case dir of Up \<Rightarrow> ''up'' | Down \<Rightarrow> ''down'') @ '', '' @ show_radix 10 n) s)"
| "update_move e (VariableDragStarted vidx) s = Ok (s\<lparr>drag_started := True, drag_source_idx := Some vidx, drag_target_idx := None\<rparr>)"
| "update_move e (VariableDragTargetChanged p) s = Ok (s\<lparr>drag_target_idx := Some p\<rparr>)"
| "update_move e VariableDragFinished s = variable_drag_finished s"

fun update_decoder :: "('v, 's, 'm) env \<Rightarrow> ('v, 's) decoder_message \<Rightarrow> ('v, 's, 't) system_state
    \<Rightarrow> (move_error, ('v, 's, 't) system_state) outcome" where
  "update_decoder e (DecoderAdd p items) s = decoder_add p items s"
| "update_decoder e (DecoderConfigure inst settings bindings) s = pure_waves (configure_decoder inst settings bindings)
     (save_current_canvas ''Configure decoder'' s)"
| "update_decoder e (DecoderOpenDialog inst) s = Ok (s\<lparr>show_decoder_dialog := inst\<rparr>)"

fun update_group :: "('v, 's, 'm) env \<Rightarrow> group_message \<Rightarrow> ('v, 's, 't) system_state
    \<Rightarrow> (move_error, ('v, 's, 't) system_state) outcome" where
  "update_group e (GroupNew name before items) s = with_waves (group_new name before items)
     (save_current_canvas (''Create group '' @ or_else name '''') s)"
| "update_group e (GroupDissolve r) s = with_waves (group_dissolve r) (save_current_canvas ''Dissolve group'' s)"
| "update_group e (GroupFold r) s = with_waves (group_fold False False r) (save_current_canvas (fold_message False False) s)"
| "update_group e (GroupUnfold r) s = with_waves (group_fold True False r) (save_current_canvas (fold_message True False) s)"
| "update_group e (GroupFoldRecursive r) s = with_waves (group_fold False True r) (save_current_canvas (fold_message False True) s)"
| "update_group e (GroupUnfoldRecursive r) s = with_waves (group_fold True True r) (save_current_canvas (fold_message True True) s)"
| "update_group e GroupFoldAll s = with_waves (group_fold_all False) (save_current_canvas (fold_all_message False) s)"
| "update_group e GroupUnfoldAll s = with_waves (group_fold_all True) (save_current_canvas (fold_all_message True) s)"

fun update_history :: "('v, 's, 'm) env \<Rightarrow> history_message \<Rightarrow> ('v, 's, 't) system_state
    \<Rightarrow> (move_error, ('v, 's, 't) system_state) outcome" where
  "update_history e (Undo n) s = Ok (undo n s)"
| "update_history e (Redo n) s = Ok (redo n s)"

datatype annotation_message =
  RectangleAdded "nat option" "nat option"
| ArrowAdded "nat option"
| RemoveAnnotation nat
| ToggleAnnotationVisibility nat
| ToggleAnnotationListShowComments nat
| ToggleAnnotationlistVisibility
| CreateAnnotationGroup string
| DeleteAnnotationGroup string
| DeleteAllAnnotationInGroup string
| UpdateAnnotationGroup nat "string option"
| UpdateAnnotationName nat string
| SetGroupVisibility annotation_group bool

text \<open>\<^verbatim>\<open>annotation_id\<close> takes a fresh id before the canvas is saved; the counter is an \<^verbatim>\<open>i32\<close> that numbers the names.\<close>

definition annotation_added :: "('v, 's, 'm) env \<Rightarrow> string \<Rightarrow> string \<Rightarrow> annotation_anchor \<Rightarrow> ('v, 's, 't) system_state
    \<Rightarrow> (move_error, ('v, 's, 't) system_state) outcome" where
  "annotation_added e verb default_type anchor s =
     (let i = env_annotation_id e (annotation_id_source s) in
      pure_waves (\<lambda>w. let num = annotation_counter w + 1 in
          add_annotation_to_group default_group_name i
            (w\<lparr>annotation_counter := num, annotations := annotations w @ [new_annotation i default_type num anchor]\<rparr>))
        (save_current_canvas (verb @ env_show_id e i) (s\<lparr>annotation_id_source := annotation_id_source s + 1\<rparr>)))"

definition set_group_visibility :: "annotation_group \<Rightarrow> bool \<Rightarrow> ('v, 's, 't) wave_data \<Rightarrow> ('v, 's, 't) wave_data" where
  "set_group_visibility g visible w = w\<lparr>annotations :=
     map (\<lambda>a. if an_id a \<in> set (ag_annotations g) then a\<lparr>an_visible := visible\<rparr> else a) (annotations w)\<rparr>"

definition update_annotation_group :: "nat \<Rightarrow> string option \<Rightarrow> ('v, 's, 't) wave_data \<Rightarrow> ('v, 's, 't) wave_data" where
  "update_annotation_group i name w = (case remove_annotation_from_group i w of
     (None, w') \<Rightarrow> w'
   | (Some j, w') \<Rightarrow> (case name of Some n \<Rightarrow> add_annotation_to_group n j w' | None \<Rightarrow> w'))"

fun update_annotations :: "('v, 's, 'm) env \<Rightarrow> annotation_message \<Rightarrow> ('v, 's, 't) system_state
    \<Rightarrow> (move_error, ('v, 's, 't) system_state) outcome" where
  "update_annotations e (RectangleAdded from to) s = annotation_added e ''Add rectangle '' ''Rectangle'' (AnchorRect from to) s"
| "update_annotations e (ArrowAdded to) s = annotation_added e ''Add arrow '' ''Arrow'' (AnchorArrow to) s"
| "update_annotations e (RemoveAnnotation i) s = pure_waves (\<lambda>w. snd (remove_annotation_from_group i (delete_annotation i w)))
     (save_current_canvas (''Removed annotation '' @ env_show_id e i) s)"
| "update_annotations e (ToggleAnnotationVisibility i) s =
     pure_waves (update_annotation i (\<lambda>a. a\<lparr>an_visible := \<not> an_visible a\<rparr>))
       (save_current_canvas (''Changed visibility on '' @ env_show_id e i) s)"
| "update_annotations e (ToggleAnnotationListShowComments i) s =
     pure_waves (update_annotation i (\<lambda>a. a\<lparr>an_show_comments := \<not> an_show_comments a\<rparr>)) s"
| "update_annotations e ToggleAnnotationlistVisibility s = (case sys_waves s of None \<Rightarrow> Ok s | Some w \<Rightarrow>
     Ok (s\<lparr>sys_waves := Some (w\<lparr>annotation_list_visible := \<not> annotation_list_visible w\<rparr>),
           show_annotation_list := \<not> annotation_list_visible w\<rparr>))"
| "update_annotations e (CreateAnnotationGroup name) s =
     pure_waves (\<lambda>w. w\<lparr>annotation_groups := annotation_groups w @ [\<lparr>ag_name = name, ag_cycle_counter = 0, ag_annotations = []\<rparr>]\<rparr>)
       (save_current_canvas (''Added annotation group '' @ name) s)"
| "update_annotations e (DeleteAnnotationGroup name) s = pure_waves (delete_group name)
     (save_current_canvas (''Removed annotation group '' @ name) s)"
| "update_annotations e (DeleteAllAnnotationInGroup name) s = pure_waves (remove_all_annotations_from_group name)
     (save_current_canvas (''Removed annotation group '' @ name @ '' and all it'' @ [CHR 0x27] @ ''s annotations'') s)"
| "update_annotations e (UpdateAnnotationGroup i name) s = pure_waves (update_annotation_group i name)
     (save_current_canvas (''Added '' @ env_show_id e i @ '' to ''
        @ (case name of Some n \<Rightarrow> ''Some('' @ env_debug e n @ '')'' | None \<Rightarrow> ''None'')) s)"
| "update_annotations e (UpdateAnnotationName i name) s = pure_waves (update_annotation i (\<lambda>a. a\<lparr>an_name := name\<rparr>))
     (save_current_canvas (''Changed '' @ env_show_id e i @ '' name to '' @ name) s)"
| "update_annotations e (SetGroupVisibility g visible) s = pure_waves (set_group_visibility g visible)
     (save_current_canvas (''Changed group '' @ env_debug e (ag_name g) @ '' visibility'') s)"

datatype ('v, 's, 't) message =
  Rows "('v, 's) row_message"
| Selection "'t select_message"
| Items "item_message"
| Markers "marker_message"
| Moves "move_message"
| Decoding "('v, 's) decoder_message"
| Groups "group_message"
| Annotating annotation_message
| History "history_message"

fun update :: "('v, 's, 'm) env \<Rightarrow> ('v, 's, 't) message \<Rightarrow> ('v, 's, 't) system_state
    \<Rightarrow> (move_error, ('v, 's, 't) system_state) outcome" where
  "update e (Rows m) s = update_row e m s"
| "update e (Selection m) s = update_select e m s"
| "update e (Items m) s = update_item e m s"
| "update e (Markers m) s = update_marker e m s"
| "update e (Moves m) s = update_move e m s"
| "update e (Decoding m) s = update_decoder e m s"
| "update e (Groups m) s = update_group e m s"
| "update e (Annotating m) s = update_annotations e m s"
| "update e (History m) s = update_history e m s"

end
