(* ===== verification/Messages_Inv.thy ===== *)
theory Messages_Inv
  imports Messages
begin

section \<open>What every message keeps\<close>

text \<open>
  A property of the tree, the items, the markers and the counter that a few basic changes keep, stated as a
  locale, is kept by every message for the canvas and for every canvas on the undo and redo stacks. It is
  interpreted for the references alone and for the references with the markers.
\<close>

type_synonym ('v, 's) canvas_property =
  "item_tree \<Rightarrow> (nat \<Rightarrow> ('v, 's) displayed_item option) \<Rightarrow> (nat \<Rightarrow> int option) \<Rightarrow> nat \<Rightarrow> bool"

definition holds :: "('v, 's) canvas_property \<Rightarrow> ('v, 's, 't) wave_data \<Rightarrow> bool" where
  "holds P w \<longleftrightarrow> P (items_tree w) (displayed_items w) (markers w) (display_item_ref_counter w)"

definition holds_saved :: "('v, 's) canvas_property \<Rightarrow> nat \<Rightarrow> ('v, 's, 't) canvas_state \<Rightarrow> bool" where
  "holds_saved P n c \<longleftrightarrow> P (cs_items_tree c) (cs_displayed_items c) (cs_markers c) n"

definition state_holds :: "('v, 's) canvas_property \<Rightarrow> ('v, 's, 't) system_state \<Rightarrow> bool" where
  "state_holds P s \<longleftrightarrow> (\<forall>w. sys_waves s = Some w \<longrightarrow> holds P w \<and>
     (\<forall>c \<in> set (undo_stack s) \<union> set (redo_stack s). holds_saved P (display_item_ref_counter w) c))"

definition keeps :: "('v, 's) canvas_property \<Rightarrow> ('v, 's, 't) wave_data \<Rightarrow> ('v, 's, 't) wave_data \<Rightarrow> bool" where
  "keeps P w w' \<longleftrightarrow> display_item_ref_counter w \<le> display_item_ref_counter w' \<and> (holds P w \<longrightarrow> holds P w')"

definition without_items :: "nat list \<Rightarrow> (nat \<Rightarrow> ('v, 's) displayed_item option) \<Rightarrow> (nat \<Rightarrow> int option) \<Rightarrow> nat \<Rightarrow> int option" where
  "without_items rs items ms = snd (fold (\<lambda>r (it, m). (it(r := None), forget_marker (it r) m)) rs (items, ms))"

lemma keeps_refl [simp, intro]: "keeps P w w" by (simp add: keeps_def)

lemma keeps_trans [trans]: "keeps P u v \<Longrightarrow> keeps P v w \<Longrightarrow> keeps P u w" by (simp add: keeps_def)

named_theorems keeps_intro \<open>operations that keep a canvas property\<close>

text \<open>A change of the parts that no property reads.\<close>

lemma keeps_frame:
  assumes "items_tree w' = items_tree w" "displayed_items w' = displayed_items w" "markers w' = markers w"
    and "display_item_ref_counter w' = display_item_ref_counter w"
  shows "keeps P w w'" "keeps P w' u \<longleftrightarrow> keeps P w u" "keeps P u w' \<longleftrightarrow> keeps P u w"
  using assms by (simp_all add: keeps_def holds_def)

lemma keeps_frame_simps [simp]:
  "keeps P u (w\<lparr>focused_item := f\<rparr>) = keeps P u w" "keeps P u (w\<lparr>default_name_type := nt\<rparr>) = keeps P u w"
  "keeps P u (w\<lparr>annotations := a\<rparr>) = keeps P u w" "keeps P u (w\<lparr>annotation_groups := g\<rparr>) = keeps P u w"
  "keeps P u (w\<lparr>annotation_counter := n\<rparr>) = keeps P u w" "keeps P u (w\<lparr>focused_transaction := ft\<rparr>) = keeps P u w"
  "keeps P u (w\<lparr>annotation_list_visible := v\<rparr>) = keeps P u w" "keeps P u (w\<lparr>cursor := c\<rparr>) = keeps P u w"
  "keeps P u (w\<lparr>next_decoder_instance := di\<rparr>) = keeps P u w"
  "keeps P (w\<lparr>focused_item := f\<rparr>) u = keeps P w u" "keeps P (w\<lparr>next_decoder_instance := di\<rparr>) u = keeps P w u"
  by (simp_all add: keeps_def holds_def)

lemma keeps_fold: "(\<And>x w. keeps P w (f x w)) \<Longrightarrow> keeps P w (fold f xs w)"
  by (induction xs arbitrary: w) (auto intro: keeps_trans)

lemma fold_forget_without:
  "markers (fold forget_item rs w) = without_items rs (displayed_items w) (markers w)"
proof -
  have "(displayed_items (fold forget_item rs w), markers (fold forget_item rs w))
      = fold (\<lambda>r (it, m). (it(r := None), forget_marker (it r) m)) rs (displayed_items w, markers w)"
    by (induction rs arbitrary: w) simp_all
  then show ?thesis unfolding without_items_def by (metis snd_conv)
qed

lemma state_holds_save: "state_holds P s \<Longrightarrow> (\<And>w. sys_waves s = Some w \<Longrightarrow>
    holds_saved P (display_item_ref_counter w) (current_canvas_state w m)) \<Longrightarrow> state_holds P (save_current_canvas m s)"
proof (cases "sys_waves s")
  case (Some w)
  assume s: "state_holds P s" and c: "\<And>w. sys_waves s = Some w \<Longrightarrow> holds_saved P (display_item_ref_counter w) (current_canvas_state w m)"
  let ?st = "undo_stack s @ [current_canvas_state w m]"
  have "set (tl ?st) \<subseteq> set ?st" by (cases ?st) auto
  then have "set (undo_stack (save_current_canvas m s)) \<subseteq> insert (current_canvas_state w m) (set (undo_stack s))"
    by (auto simp: save_current_canvas_def Let_def Some)
  moreover have "redo_stack (save_current_canvas m s) = []" "sys_waves (save_current_canvas m s) = sys_waves s"
    by (simp_all add: save_current_canvas_def Let_def Some)
  ultimately show ?thesis using s c[OF Some] Some by (auto simp: state_holds_def)
qed (simp add: save_current_canvas_def)

lemma state_holds_frame [simp]:
  "state_holds P (s\<lparr>drag_started := d\<rparr>) = state_holds P s" "state_holds P (s\<lparr>drag_source_idx := i\<rparr>) = state_holds P s"
  "state_holds P (s\<lparr>drag_target_idx := t\<rparr>) = state_holds P s" "state_holds P (s\<lparr>show_decoder_dialog := di\<rparr>) = state_holds P s"
  "state_holds P (s\<lparr>annotation_id_source := n\<rparr>) = state_holds P s"
  "state_holds P (s\<lparr>show_annotation_list := b\<rparr>) = state_holds P s"
  by (simp_all add: state_holds_def)

lemma save_waves [simp]: "sys_waves (save_current_canvas m s) = sys_waves s"
  by (simp add: save_current_canvas_def Let_def split: option.splits)

locale kept =
  fixes P :: "('v, 's) canvas_property"
  assumes same_refs: "\<And>t t' items ms n. tree_refs t' = tree_refs t \<Longrightarrow> P t items ms n \<Longrightarrow> P t' items ms n"
    and later: "\<And>t items ms n m. P t items ms n \<Longrightarrow> n \<le> m \<Longrightarrow> P t items ms m"
    and same_kinds: "\<And>t items items' ms n. (\<And>r. map_option marker_idx (items' r) = map_option marker_idx (items r)) \<Longrightarrow>
      P t items ms n \<Longrightarrow> P t items' ms n"
    and new_row: "\<And>t t' items ms n i. P t items ms n \<Longrightarrow> tree_refs t' = add_mset (n + 1) (tree_refs t) \<Longrightarrow>
      marker_idx i = None \<Longrightarrow> P t' (items(n + 1 := Some i)) ms (n + 1)"
    and new_marker: "\<And>t t' items ms n i k x. P t items ms n \<Longrightarrow> tree_refs t' = add_mset (n + 1) (tree_refs t) \<Longrightarrow>
      marker_idx i = Some k \<Longrightarrow> ms k = None \<Longrightarrow> P t' (items(n + 1 := Some i)) (ms(k := Some x)) (n + 1)"
    and moved_marker: "\<And>t items ms n k x. P t items ms n \<Longrightarrow> ms k \<noteq> None \<Longrightarrow> P t items (ms(k := Some x)) n"
    and removed: "\<And>t t' items ms n rs. P t items ms n \<Longrightarrow> mset rs + tree_refs t' = tree_refs t \<Longrightarrow>
      P t' (items |` (- set rs)) (without_items rs items ms) n"
begin

lemma tree [keeps_intro]: "tree_refs t = tree_refs (items_tree w) \<Longrightarrow> keeps P w (w\<lparr>items_tree := t\<rparr>)"
  using same_refs by (simp add: keeps_def holds_def)

lemma insert [keeps_intro]:
  "insert_displayed i target mf w = Ok (r, w') \<Longrightarrow> marker_idx i = None \<Longrightarrow> keeps P w w'"
  using insert_displayed_Ok[of i target mf w r w'] new_row by (simp add: keeps_def holds_def)

lemma insert_marker:
  assumes "insert_displayed i target mf w = Ok (r, w')" "marker_idx i = Some k" "markers w k = None"
  shows "keeps P w (w'\<lparr>markers := (markers w')(k := Some x)\<rparr>)"
  using insert_displayed_Ok[OF assms(1)] new_marker assms(2,3) by (simp add: keeps_def holds_def)

lemma plain_rows [keeps_intro]:
  "add_divider n v w = Ok (r, w') \<Longrightarrow> keeps P w w'" "add_timeline v w = Ok (r, w') \<Longrightarrow> keeps P w w'"
  "add_group g target w = Ok (r, w') \<Longrightarrow> keeps P w w'"
  unfolding add_divider_def add_timeline_def add_group_def by (erule insert, simp)+

lemma modify [keeps_intro]: "(\<And>i. marker_idx (f i) = marker_idx i) \<Longrightarrow> keeps P w (modify_item f r w)"
proof -
  assume f: "\<And>i. marker_idx (f i) = marker_idx i"
  have "map_option marker_idx (((displayed_items w)(r := map_option f (displayed_items w r))) s)
      = map_option marker_idx (displayed_items w s)" for s
    by (cases "displayed_items w r") (simp_all add: f)
  from same_kinds[of "(displayed_items w)(r := map_option f (displayed_items w r))", OF this] show ?thesis
    unfolding keeps_def holds_def modify_item_def by simp
qed

lemma modify_fold [keeps_intro]: "(\<And>i. marker_idx (f i) = marker_idx i) \<Longrightarrow> keeps P w (fold (\<lambda>x. modify_item f (g x)) xs w)"
  by (rule keeps_fold) (rule modify)

lemma configure [keeps_intro]: "keeps P w (configure_decoder n st b w)"
proof -
  have k: "marker_idx (reconfigure n st b i) = marker_idx i" for i :: "('v, 's) displayed_item" by (cases i) simp_all
  have "map_option marker_idx (map_option (reconfigure n st b) (displayed_items w r)) = map_option marker_idx (displayed_items w r)" for r
    by (simp add: option.map_comp comp_def k)
  from same_kinds[OF this] show ?thesis by (simp add: keeps_def holds_def configure_decoder_def)
qed

lemma names [keeps_intro]: "keeps P w (compute_variable_display_names locals index_of w)"
proof -
  have "marker_idx (rename_variable f i) = marker_idx i" for f and i :: "('v, 's) displayed_item" by (cases i) simp_all
  then show ?thesis unfolding compute_variable_display_names_def Let_def by (rule modify_fold)
qed

lemma name_type [simp]: "marker_idx (set_name_type nt i) = marker_idx i" for i :: "('v, 's) displayed_item"
  by (cases i) simp_all

lemma force_names [keeps_intro]: "keeps P w (force_variable_name_type locals index_of nt w)"
  unfolding force_variable_name_type_def by (rule keeps_trans[OF _ names]) (simp add: modify_fold)

lemma modify_target [keeps_intro]: "(\<And>i. marker_idx (f i) = marker_idx i) \<Longrightarrow> keeps P w (modify_target f tg w)"
  by (auto simp: modify_target_def modify_visible_def modify_selected_def or_else_def split: target.split option.split
      intro!: modify modify_fold keeps_trans[OF modify modify_fold])

lemma remove [keeps_intro]: "remove_displayed_item r w = Ok w' \<Longrightarrow> keeps P w w'"
proof (cases "index_of_ref (items_tree w) r")
  case (Some i)
  assume "remove_displayed_item r w = Ok w'"
  with Some obtain rs t f where rm: "remove_recursive (items_tree w) i = Ok (rs, t)"
    "w' = (fold forget_item rs (w\<lparr>items_tree := t\<rparr>))\<lparr>focused_item := f\<rparr>"
    by (auto simp: remove_displayed_item_def Let_def outcome_simps)
  have "holds P w \<Longrightarrow> P t (displayed_items w |` (- set rs)) (without_items rs (displayed_items w) (markers w)) (display_item_ref_counter w)"
    unfolding holds_def by (rule removed[OF _ remove_recursive_refs[OF rm(1)]])
  then show ?thesis by (simp add: keeps_def holds_def rm(2) fold_forget_items fold_forget_without)
qed (simp add: remove_displayed_item_def)

lemma remove_all [keeps_intro]: "remove_all rs w = Ok w' \<Longrightarrow> keeps P w w'"
  by (induction rs arbitrary: w) (auto simp: outcome_simps intro: keeps_trans remove)

lemma remove_marker [keeps_intro]: "remove_marker order k w = Ok w' \<Longrightarrow> keeps P w w'"
  by (auto simp: remove_marker_def intro: remove split: option.splits)

lemma add_marker [keeps_intro]: "add_marker x name mf w = Ok (r, w') \<Longrightarrow> keeps P w w'"
  by (auto simp: add_marker_def outcome_simps find_Some_iff Canvas.new_marker_def split: if_splits option.splits intro!: insert_marker)

lemma set_marker [keeps_intro]: "set_marker_position k x w = Ok w' \<Longrightarrow> keeps P w w'"
proof (cases "markers w k = None")
  case True
  moreover assume "set_marker_position k x w = Ok w'"
  ultimately show ?thesis by (auto simp: set_marker_position_def outcome_simps Canvas.new_marker_def intro!: insert_marker)
next
  case False
  moreover assume "set_marker_position k x w = Ok w'"
  ultimately show ?thesis using moved_marker
    by (auto simp: set_marker_position_def outcome_simps keeps_def holds_def)
qed

lemma marker_to_cursor [keeps_intro]: "move_marker_to_cursor k w = Ok w' \<Longrightarrow> keeps P w w'"
  by (auto simp: move_marker_to_cursor_def intro: set_marker split: option.splits)

lemma rows: "(\<And>l. marker_idx (row l) = None) \<Longrightarrow> add_decoder_rows row target n w = Ok w' \<Longrightarrow> keeps P w w'"
proof (induction n arbitrary: w)
  case (Suc n)
  from Suc.prems(2) obtain r u where "insert_displayed (row n) target (n = 0) w = Ok (r, u)" "add_decoder_rows row target n u = Ok w'"
    by (auto simp: outcome_simps)
  with Suc show ?case by (blast intro: keeps_trans insert)
qed simp

lemma add_decoder [keeps_intro]: "add_decoder p sigs target w = Ok (n, w') \<Longrightarrow> keeps P w w'"
proof -
  assume a: "add_decoder p sigs target w = Ok (n, w')"
  have k: "marker_idx (decoder_row inst p b l) = None" for inst b l by (simp add: decoder_row_def)
  from a have "add_decoder_rows (decoder_row (next_decoder_instance w) p (guess p sigs)) target
      (length (lane_names (for_protocol p))) (w\<lparr>next_decoder_instance := next_decoder_instance w + 1\<rparr>) = Ok w'"
    by (auto simp: add_decoder_def Let_def outcome_simps)
  from rows[OF k this] show ?thesis by simp
qed

lemma variables_loop: "add_variables_loop meta info ign nt vs pos is w = Ok (b, is', w') \<Longrightarrow> keeps P w w'"
proof (induction vs arbitrary: pos "is" w)
  case (Cons v vs)
  show ?case
  proof (cases "meta v")
    case None
    with Cons show ?thesis by (simp split: if_splits)
  next
    case (Some m)
    with Cons.prems obtain r u pos' where u: "add_variables_loop meta info ign nt vs pos' (is @ [r]) u = Ok (b, is', w')"
      and ins: "insert_displayed (new_variable (or_else nt (default_name_type w)) (the (info m)) v) (Some pos) True w = Ok (r, u)"
      by (auto simp: outcome_simps split: option.splits)
    have "keeps P w u" by (rule insert[OF ins]) (simp add: new_variable_def)
    with Cons.IH[OF u] show ?thesis by (rule keeps_trans[rotated])
  qed
qed simp

lemma add_variables [keeps_intro]: "add_variables e vs target upd ign nt w = Ok (is, w') \<Longrightarrow> keeps P w w'"
proof -
  assume "add_variables e vs target upd ign nt w = Ok (is, w')"
  then consider "w' = w" | b u where "add_variables_loop (env_meta e) (env_info e) ign nt vs (target_or_focus w target) [] w = Ok (b, is, u)"
      "w' = u \<or> w' = compute_variable_display_names (env_locals e) (env_index e) u"
    by (auto simp: add_variables_def outcome_simps split: if_splits)
  then show ?thesis by cases (auto dest: variables_loop intro: keeps_trans names)
qed

lemma move_times: "move_times n dir v w = Ok (u, w') \<Longrightarrow> keeps P w w'"
proof (induction n arbitrary: v w)
  case (Suc n)
  obtain t r where m: "move_item (items_tree w) v dir (group_node w) = (t, r)" by fastforce
  from move_item_refs[of "items_tree w" v dir "group_node w"] m have t: "tree_refs t = tree_refs (items_tree w)" by simp
  from Suc.prems m obtain v' where "move_times n dir v' (w\<lparr>items_tree := t\<rparr>) = Ok (u, w')" by (auto simp: outcome_simps)
  with Suc.IH tree[OF t] show ?case by (blast intro: keeps_trans)
qed simp

lemma move_focused [keeps_intro]: "move_focused_item dir n w = Ok w' \<Longrightarrow> keeps P w w'"
  by (auto simp: move_focused_item_def outcome_simps split: option.splits dest: move_times)

lemma select [keeps_intro]:
  "keeps P w (item_select_range v w)" "keeps P w (toggle_item_selected vo w)" "keeps P w (move_focus dir n b w)" "keeps P w (focus_item v w)"
  by (auto simp: item_select_range_def toggle_item_selected_def move_focus_def focus_item_def Let_def tree_refs_simps
      tree_refs_map[OF map_refs_update] split: option.split intro!: tree)

lemma focus_tree: "tree_refs t = tree_refs (items_tree w) \<Longrightarrow> keeps P w (w\<lparr>focused_item := f, items_tree := t\<rparr>)"
  using tree[of t "w\<lparr>focused_item := f\<rparr>"] by simp

lemma fold_group [keeps_intro]: "group_fold b c r w = Ok w' \<Longrightarrow> keeps P w w'"
proof (cases "index_for_ref_or_focus w r")
  case (Some i)
  assume "group_fold b c r w = Ok w'"
  with Some obtain t f where t: "(if c then xfold_recursive (items_tree w) i b else xfold (items_tree w) i b) = Ok t"
    "w' = w\<lparr>focused_item := f, items_tree := t\<rparr>" by (auto simp only: group_fold_def outcome_simps option.case outcome.inject)
  then have "map item_ref t = map item_ref (items_tree w)"
    by (auto split: if_splits dest: xfold_refs xfold_recursive_refs)
  from focus_tree[OF tree_refs_map[OF this]] t(2) show ?thesis by simp
qed (simp add: group_fold_def)

lemma fold_all [keeps_intro]: "group_fold_all b w = Ok w' \<Longrightarrow> keeps P w w'"
proof -
  assume "group_fold_all b w = Ok w'"
  then obtain f where "w' = w\<lparr>focused_item := f, items_tree := xfold_all (items_tree w) b\<rparr>"
    by (auto simp only: group_fold_all_def outcome_simps outcome.inject)
  then show ?thesis by (simp add: focus_tree tree_refs_simps)
qed

lemma into_group: "move_into_group refs pos g w = Ok w' \<Longrightarrow> keeps P w w'"
proof -
  assume m: "move_into_group refs pos g w = Ok w'"
  then obtain t f where w': "w' = w\<lparr>items_tree := t, focused_item := f\<rparr>" "tree_refs t = tree_refs (items_tree w)"
    by (auto simp: move_into_group_def Let_def tree_refs_simps move_items_refs split: outcome.splits)
  show ?thesis unfolding w'(1) keeps_frame_simps by (rule tree[OF w'(2)])
qed

lemma dragged: "drag_items v target w = Ok w' \<Longrightarrow> keeps P w w'"
  using same_refs by (auto simp: drag_items_def Let_def keeps_def holds_def move_items_refs split: outcome.splits)

lemma group_new [keeps_intro]: "group_new name before items w = Ok w' \<Longrightarrow> keeps P w w'"
  by (auto simp: group_new_def Let_def outcome_simps add_group_def split: if_splits
      dest!: into_group insert intro: keeps_trans)

lemma irrelevant [keeps_intro]:
  "keeps P w (delete_annotation i w)" "keeps P w (update_annotation i f w)" "keeps P w (snd (remove_annotation_from_group i w))"
  "keeps P w (delete_group n w)" "keeps P w (add_annotation_to_group n i w)" "keeps P w (remove_all_annotations_from_group n w)"
  "keeps P w (set_group_visibility g b w)"
  by (simp_all add: delete_annotation_def update_annotation_def remove_annotation_from_group_def delete_group_def
      add_annotation_to_group_def remove_all_annotations_from_group_def set_group_visibility_def split: prod.split)

lemma regrouped [keeps_intro]: "keeps P w (update_annotation_group i n w)"
  unfolding update_annotation_group_def remove_annotation_from_group_def Let_def
  by (auto simp: add_annotation_to_group_def split: option.split prod.split)

subsection \<open>States\<close>

lemma saved [intro]: "holds P w \<Longrightarrow> holds_saved P (display_item_ref_counter w) (current_canvas_state w m)"
  using same_kinds[of "\<lambda>r. map_option item_clone (displayed_items w r)" "displayed_items w"]
  by (simp add: holds_def holds_saved_def current_canvas_state_def option.map_comp comp_def)

lemma save [intro]: "state_holds P s \<Longrightarrow> state_holds P (save_current_canvas m s)"
  by (rule state_holds_save) (auto simp: state_holds_def)

lemma waves:
  assumes "state_holds P s" "with_waves f s = Ok s'" "\<And>w w'. f w = Ok w' \<Longrightarrow> keeps P w w'"
  shows "state_holds P s'"
proof (cases "sys_waves s")
  case (Some w)
  with assms(2) obtain w' where w': "f w = Ok w'" "s' = s\<lparr>sys_waves := Some w'\<rparr>" by (auto simp: with_waves_def outcome_simps)
  have k: "keeps P w w'" by (rule assms(3)[OF w'(1)])
  have s: "holds P w" "\<forall>c \<in> set (undo_stack s) \<union> set (redo_stack s). holds_saved P (display_item_ref_counter w) c"
    using assms(1) Some by (simp_all add: state_holds_def)
  have "\<forall>c \<in> set (undo_stack s) \<union> set (redo_stack s). holds_saved P (display_item_ref_counter w') c"
    using s(2) k later unfolding keeps_def holds_saved_def by blast
  with k s(1) w'(2) show ?thesis by (simp add: state_holds_def keeps_def)
qed (use assms in \<open>simp add: with_waves_def\<close>)

lemma pure: "state_holds P s \<Longrightarrow> pure_waves f s = Ok s' \<Longrightarrow> (\<And>w. keeps P w (f w)) \<Longrightarrow> state_holds P s'"
  unfolding pure_waves_def by (erule waves, assumption) auto

lemma undone:
  assumes "undo_times n (w, from, to) = (w', from', to')" "holds P w"
    and "\<forall>c \<in> set from \<union> set to. holds_saved P (display_item_ref_counter w) c"
  shows "holds P w' \<and> display_item_ref_counter w' = display_item_ref_counter w \<and>
    (\<forall>c \<in> set from' \<union> set to'. holds_saved P (display_item_ref_counter w) c)"
  using assms
proof (induction n arbitrary: w "from" to)
  case (Suc n)
  show ?case
  proof (cases "from = []")
    case False
    let ?w = "restore_canvas (last from) w" and ?c = "current_canvas_state w (cs_message (last from))"
    have l: "last from \<in> set from" using False by simp
    have "holds P ?w" using Suc.prems(3) l by (auto simp: holds_def holds_saved_def restore_canvas_def)
    moreover have n: "display_item_ref_counter ?w = display_item_ref_counter w" by (simp add: restore_canvas_def)
    moreover have "\<forall>c \<in> set (butlast from) \<union> set (to @ [?c]). holds_saved P (display_item_ref_counter ?w) c"
      using Suc.prems(2,3) saved unfolding n by (auto dest: in_set_butlastD)
    ultimately show ?thesis using Suc.IH[of ?w "butlast from" "to @ [?c]"] Suc.prems(1) False by simp
  qed (use Suc.prems in simp)
qed simp

lemma undo: "state_holds P s \<Longrightarrow> state_holds P (undo n s)"
proof (cases "sys_waves s")
  case (Some w)
  assume s: "state_holds P s"
  obtain w' us rs where u: "undo_times n (w, undo_stack s, redo_stack s) = (w', us, rs)" by (metis prod_cases3)
  from undone[OF u] s Some show ?thesis by (simp add: state_holds_def undo_def u)
qed (simp add: undo_def)

lemma redo: "state_holds P s \<Longrightarrow> state_holds P (redo n s)"
proof (cases "sys_waves s")
  case (Some w)
  assume s: "state_holds P s"
  obtain w' us rs where u: "undo_times n (w, redo_stack s, undo_stack s) = (w', us, rs)" by (metis prod_cases3)
  from undone[OF u] s Some show ?thesis by (simp add: state_holds_def redo_def u Un_commute)
qed (simp add: redo_def)

subsection \<open>Messages\<close>

lemma rows_kept: "update_row e m s = Ok s' \<Longrightarrow> m \<noteq> RemovePlaceholders \<Longrightarrow> state_holds P s \<Longrightarrow> state_holds P s'"
proof (cases m)
  case (AddVariables vs)
  assume "update_row e m s = Ok s'" "state_holds P s"
  with AddVariables show ?thesis
    by (auto simp: add_variables_message_def split: if_splits elim!: waves[rotated] simp: outcome_simps intro: add_variables)
next
  case (AddDivider n v)
  assume "update_row e m s = Ok s'" "state_holds P s"
  with AddDivider show ?thesis
    by (auto elim!: waves[rotated] simp: outcome_simps intro: plain_rows)
next
  case (AddTimeLine v)
  assume "update_row e m s = Ok s'" "state_holds P s"
  with AddTimeLine show ?thesis
    by (auto elim!: waves[rotated] simp: outcome_simps intro: plain_rows)
next
  case (AddDraggedVariables vs)
  assume "update_row e m s = Ok s'" "state_holds P s"
  with AddDraggedVariables show ?thesis
    by (auto simp: add_dragged_variables_def outcome_simps split: option.splits elim!: waves[rotated] dest!: add_variables)
next
  case (RemoveVisibleItems t)
  assume "update_row e m s = Ok s'" "state_holds P s"
  with RemoveVisibleItems show ?thesis
    by (auto simp: remove_visible_items_def remove_selection_def Let_def outcome_simps split: target.splits option.splits
        elim!: waves[rotated] intro: names keeps_trans[OF remove names] keeps_trans[OF remove_all names])
next
  case (RemoveItems rs)
  assume "update_row e m s = Ok s'" "state_holds P s"
  with RemoveItems show ?thesis by (auto simp: remove_items_def Let_def elim!: waves[rotated] intro: remove_all)
qed simp

lemma selection_kept: "update_select e m s = Ok s' \<Longrightarrow> state_holds P s \<Longrightarrow> state_holds P s'"
  by (cases m) (auto simp: tree_refs_simps focus_transaction_def elim!: pure[rotated] intro: keeps_intro split: option.splits if_splits)

lemma set_analog_kind [simp]: "marker_idx (set_analog h a i) = marker_idx i" for i :: "('v, 's) displayed_item"
  by (cases i) simp_all

lemma items_kept: "update_item e m s = Ok s' \<Longrightarrow> state_holds P s \<Longrightarrow> state_holds P s'"
proof (cases m)
  case (ItemNameChange v n)
  assume "update_item e m s = Ok s'" "state_holds P s"
  with ItemNameChange show ?thesis
    by (auto simp: item_name_change_def modify_visible_def or_else_def elim!: pure[rotated] intro!: modify split: option.splits)
next
  case (ItemNameReset t)
  assume "update_item e m s = Ok s'" "state_holds P s"
  with ItemNameReset show ?thesis
    by (auto simp: item_name_reset_message_def modify_visible_def modify_selected_def or_else_def elim!: pure[rotated]
        intro!: modify modify_fold split: option.splits target.splits)
next
  case (ChangeVariableNameType t nt)
  assume u: "update_item e m s = Ok s'" "state_holds P s"
  have "keeps P w (let (w', recompute) = change_variable_name_type t nt w
     in if recompute then compute_variable_display_names (env_locals e) (env_index e) w' else w')" for w
  proof -
    have "keeps P w (fold (modify_item (set_name_type nt)) rs w)" for rs
      by (rule keeps_fold) (simp add: modify)
    then show ?thesis by (auto simp: change_variable_name_type_def Let_def simp del: fold_append intro: keeps_trans[OF _ names])
  qed
  with u ChangeVariableNameType show ?thesis by (auto simp: change_name_type_message_def elim!: pure[rotated])
qed (auto simp: item_color_change_def item_background_change_def item_height_change_def set_analog_settings_def
      elim!: pure[rotated] intro: modify_target force_names)

lemma markers_kept: "update_marker e m s = Ok s' \<Longrightarrow> state_holds P s \<Longrightarrow> state_holds P s'"
  by (cases m) (auto simp: resolve_marker_set_def resolve_marker_remove_def set_marker_message_def add_marker_message_def outcome_simps
      elim!: waves[rotated] intro: keeps_intro split: option.splits)

lemma drag_kept: "variable_drag_finished s = Ok s' \<Longrightarrow> state_holds P s \<Longrightarrow> state_holds P s'"
  by (auto simp: variable_drag_finished_def Let_def elim!: waves[rotated] split: option.splits intro: dragged)

lemma moves_kept: "update_move e m s = Ok s' \<Longrightarrow> state_holds P s \<Longrightarrow> state_holds P s'"
  by (cases m) (auto elim!: waves[rotated] drag_kept intro: move_focused)

lemma decoder_kept: "decoder_add p items s0 = Ok s' \<Longrightarrow> state_holds P s0 \<Longrightarrow> state_holds P s'"
proof -
  define s where "s = save_current_canvas (''Add '' @ show_protocol p @ '' decoder'') s0"
  assume d: "decoder_add p items s0 = Ok s'" and "state_holds P s0"
  then have s: "state_holds P s" unfolding s_def by (intro save)
  show ?thesis
  proof (cases "sys_waves s")
    case (Some w)
    define sigs where "sigs = signals_of (case items of Some rs \<Rightarrow> rs | None \<Rightarrow>
      (case map item_ref (iter_visible_selected (items_tree w)) of [] \<Rightarrow> map item_ref (items_tree w) | rs \<Rightarrow> rs)) w"
    have "(if sigs = [] then Ok s else and_then (add_decoder p sigs (insert_position w (focused_item w)) w)
        (\<lambda>(inst, w'). Ok (s\<lparr>sys_waves := Some w', show_decoder_dialog := Some inst\<rparr>))) = Ok s'"
      using d[unfolded decoder_add_def Let_def, folded s_def] unfolding sigs_def Some option.case .
    then consider "s' = s" | n w' where "add_decoder p sigs (insert_position w (focused_item w)) w = Ok (n, w')"
        "s' = s\<lparr>sys_waves := Some w', show_decoder_dialog := Some n\<rparr>"
      by (auto simp: outcome_simps split: if_splits)
    then show ?thesis
    proof cases
      case 2
      have "with_waves (\<lambda>u. if u = w then Ok w' else Ok u) s = Ok (s\<lparr>sys_waves := Some w'\<rparr>)" by (simp add: with_waves_def Some)
      then have "state_holds P (s\<lparr>sys_waves := Some w'\<rparr>)"
        by (rule waves[OF s]) (auto split: if_splits intro: add_decoder[OF 2(1)])
      then show ?thesis by (simp add: 2(2))
    qed (use s in simp)
  qed (use d[unfolded decoder_add_def Let_def, folded s_def] s in simp)
qed

lemma decoders_kept: "update_decoder e m s = Ok s' \<Longrightarrow> state_holds P s \<Longrightarrow> state_holds P s'"
  by (cases m) (auto elim!: pure[rotated] intro: configure decoder_kept)

lemma groups_kept: "update_group e m s = Ok s' \<Longrightarrow> (\<And>r. m \<noteq> GroupDissolve r) \<Longrightarrow> state_holds P s \<Longrightarrow> state_holds P s'"
  by (cases m) (auto elim!: waves[rotated] intro: keeps_intro)

lemma added_kept: "annotation_added e verb ty anchor s = Ok s' \<Longrightarrow> state_holds P s \<Longrightarrow> state_holds P s'"
  unfolding annotation_added_def Let_def
  by (erule pure[rotated]) (auto simp: add_annotation_to_group_def)

lemma annotations_kept: "update_annotations e m s = Ok s' \<Longrightarrow> state_holds P s \<Longrightarrow> state_holds P s'"
proof (cases m)
  case (RemoveAnnotation i)
  assume "update_annotations e m s = Ok s'" "state_holds P s"
  with RemoveAnnotation show ?thesis
    by (auto elim!: pure[rotated] intro!: keeps_trans[OF irrelevant(1) irrelevant(3)])
next
  case ToggleAnnotationlistVisibility
  assume "update_annotations e m s = Ok s'" "state_holds P s"
  with ToggleAnnotationlistVisibility show ?thesis
    by (auto simp: state_holds_def holds_def split: option.splits)
qed (auto elim!: pure[rotated] dest: added_kept intro: keeps_intro)

end

subsection \<open>References and markers\<close>

definition refs_property :: "('v, 's) canvas_property" where
  "refs_property t items ms n \<longleftrightarrow> refs_ok t items n"

definition canvas_property :: "('v, 's) canvas_property" where
  "canvas_property t items ms n \<longleftrightarrow> refs_ok t items n \<and> markers_ok items ms"

lemma refs_ok_fresh: "refs_ok t items n \<Longrightarrow> items (n + 1) = None"
  by (cases "items (n + 1)") (auto simp: refs_ok_def dom_def)

lemma same_kinds_dom:
  assumes "\<And>r. map_option marker_idx (items' r) = map_option marker_idx (items r)"
  shows "dom items' = dom items"
proof -
  have "items' r = None \<longleftrightarrow> items r = None" for r using assms[of r] by (metis option.map_disc_iff)
  then show ?thesis by (auto simp: dom_def)
qed

lemma markers_ok_without: "markers_ok items ms \<Longrightarrow> markers_ok (items |` (- set rs)) (without_items rs items ms)"
proof (induction rs arbitrary: items ms)
  case Nil
  then show ?case by (simp add: without_items_def)
next
  case (Cons r rs)
  have "(items(r := None)) |` (- set rs) = items |` (- set (r # rs))" by (auto simp: restrict_map_def fun_eq_iff)
  moreover have "without_items (r # rs) items ms = without_items rs (items(r := None)) (forget_marker (items r) ms)"
    by (simp add: without_items_def)
  moreover have "markers_ok ((items(r := None)) |` (- set rs)) (without_items rs (items(r := None)) (forget_marker (items r) ms))"
    by (rule Cons.IH[OF markers_ok_forget[OF Cons.prems]])
  ultimately show ?case by (simp only:)
qed

interpretation refs: kept refs_property
proof
  fix t t' :: item_tree and items items' :: "nat \<Rightarrow> ('a, 'b) displayed_item option" and ms :: "nat \<Rightarrow> int option" and n m rs i k x
  show "tree_refs t' = tree_refs t \<Longrightarrow> refs_property t items ms n \<Longrightarrow> refs_property t' items ms n"
    using refs_ok_tree[of t' t items n] by (simp add: refs_property_def)
  show "refs_property t items ms n \<Longrightarrow> n \<le> m \<Longrightarrow> refs_property t items ms m"
    unfolding refs_property_def by (rule refs_ok_le)
  show "refs_property t items ms n \<Longrightarrow> refs_property t items' ms n"
    if "\<And>r. map_option marker_idx (items' r) = map_option marker_idx (items r)"
    using refs_ok_items[OF same_kinds_dom[OF that]] by (simp add: refs_property_def)
  show "refs_property t items ms n \<Longrightarrow> tree_refs t' = add_mset (n + 1) (tree_refs t) \<Longrightarrow> marker_idx i = None \<Longrightarrow>
      refs_property t' (items(n + 1 := Some i)) ms (n + 1)"
    unfolding refs_property_def by (rule refs_ok_insert)
  show "refs_property t items ms n \<Longrightarrow> tree_refs t' = add_mset (n + 1) (tree_refs t) \<Longrightarrow> marker_idx i = Some k \<Longrightarrow>
      ms k = None \<Longrightarrow> refs_property t' (items(n + 1 := Some i)) (ms(k := Some x)) (n + 1)"
    unfolding refs_property_def by (rule refs_ok_insert)
  show "refs_property t items ms n \<Longrightarrow> ms k \<noteq> None \<Longrightarrow> refs_property t items (ms(k := Some x)) n"
    by (simp add: refs_property_def)
  show "refs_property t items ms n \<Longrightarrow> mset rs + tree_refs t' = tree_refs t \<Longrightarrow>
      refs_property t' (items |` (- set rs)) (without_items rs items ms) n"
    unfolding refs_property_def by (rule refs_ok_remove) (auto simp: restrict_map_def dom_def)
qed

interpretation canvas: kept canvas_property
proof
  fix t t' :: item_tree and items items' :: "nat \<Rightarrow> ('a, 'b) displayed_item option" and ms :: "nat \<Rightarrow> int option" and n m rs i k x
  show "tree_refs t' = tree_refs t \<Longrightarrow> canvas_property t items ms n \<Longrightarrow> canvas_property t' items ms n"
    using refs_ok_tree[of t' t items n] by (simp add: canvas_property_def)
  show "canvas_property t items ms n \<Longrightarrow> n \<le> m \<Longrightarrow> canvas_property t items ms m"
    using refs_ok_le[of t items n m] by (simp add: canvas_property_def)
  show "canvas_property t items ms n \<Longrightarrow> canvas_property t items' ms n"
    if "\<And>r. map_option marker_idx (items' r) = map_option marker_idx (items r)"
    using refs_ok_items[OF same_kinds_dom[OF that]] markers_ok_kinds[OF that] by (simp add: canvas_property_def)
  show "canvas_property t items ms n \<Longrightarrow> tree_refs t' = add_mset (n + 1) (tree_refs t) \<Longrightarrow> marker_idx i = None \<Longrightarrow>
      canvas_property t' (items(n + 1 := Some i)) ms (n + 1)"
    unfolding canvas_property_def by (blast intro: refs_ok_insert markers_ok_plain refs_ok_fresh)
  show "canvas_property t items ms n \<Longrightarrow> tree_refs t' = add_mset (n + 1) (tree_refs t) \<Longrightarrow> marker_idx i = Some k \<Longrightarrow>
      ms k = None \<Longrightarrow> canvas_property t' (items(n + 1 := Some i)) (ms(k := Some x)) (n + 1)"
    unfolding canvas_property_def by (blast intro: refs_ok_insert markers_ok_marker refs_ok_fresh)
  show "canvas_property t items ms n \<Longrightarrow> ms k \<noteq> None \<Longrightarrow> canvas_property t items (ms(k := Some x)) n"
    unfolding canvas_property_def by (blast intro: markers_ok_move)
  show "canvas_property t items ms n \<Longrightarrow> mset rs + tree_refs t' = tree_refs t \<Longrightarrow>
      canvas_property t' (items |` (- set rs)) (without_items rs items ms) n"
    unfolding canvas_property_def
    by (intro conjI markers_ok_without) (auto elim!: refs_ok_remove simp: restrict_map_def dom_def split: if_splits)
qed

lemma refs_dissolve: "group_dissolve r w = Ok w' \<Longrightarrow> keeps refs_property w w'"
proof (cases "index_for_ref_or_focus w r")
  case (Some i)
  assume "group_dissolve r w = Ok w'"
  with Some obtain x t where d: "remove_dissolve (items_tree w) i = Ok (x, t)"
    "w' = w\<lparr>items_tree := t, displayed_items := (displayed_items w)(x := None)\<rparr>"
    by (auto simp: group_dissolve_def outcome_simps)
  have "refs_ok (items_tree w) (displayed_items w) (display_item_ref_counter w) \<Longrightarrow>
      refs_ok t ((displayed_items w)(x := None)) (display_item_ref_counter w)"
    by (rule refs_ok_remove[OF _ remove_dissolve_refs[OF d(1)]]) auto
  then show ?thesis by (simp add: keeps_def holds_def refs_property_def d(2))
qed (simp add: group_dissolve_def)

lemma refs_placeholders: "keeps refs_property w (remove_placeholders w)"
  using refs_of_remove_placeholders[of w]
  by (simp add: keeps_def holds_def refs_property_def refs_of_def) (simp add: remove_placeholders_def split: prod.split)

lemma update_refs: "update e m s = Ok s' \<Longrightarrow> state_holds refs_property s \<Longrightarrow> state_holds refs_property s'"
proof (cases m)
  case (Rows r)
  assume u: "update e m s = Ok s'" "state_holds refs_property s"
  with Rows show ?thesis
    using refs.rows_kept refs_placeholders by (cases "r = RemovePlaceholders") (auto elim!: refs.pure[rotated])
next
  case (Groups g)
  assume u: "update e m s = Ok s'" "state_holds refs_property s"
  show ?thesis
  proof (cases "\<exists>r. g = GroupDissolve r")
    case True
    with u Groups show ?thesis by (auto elim!: refs.waves[rotated] intro: refs_dissolve)
  qed (use u Groups in \<open>auto intro: refs.groups_kept\<close>)
next
  case (History h)
  assume "update e m s = Ok s'" "state_holds refs_property s"
  with History show ?thesis by (cases h) (auto intro: refs.undo refs.redo)
qed (auto intro: refs.selection_kept refs.items_kept refs.markers_kept refs.moves_kept refs.decoders_kept refs.annotations_kept)

lemma update_markers:
  assumes "update e m s = Ok s'" "state_holds canvas_property s" "m \<noteq> Rows RemovePlaceholders" "\<And>r. m \<noteq> Groups (GroupDissolve r)"
  shows "state_holds canvas_property s'"
proof (cases m)
  case (History h)
  with assms show ?thesis by (cases h) (auto intro: canvas.undo canvas.redo)
qed (use assms in \<open>auto intro: canvas.rows_kept canvas.groups_kept canvas.selection_kept canvas.items_kept canvas.markers_kept
      canvas.moves_kept canvas.decoders_kept canvas.annotations_kept\<close>)

subsection \<open>Reachable states\<close>

text \<open>
  A freshly opened waveform and what any sequence of the messages \<open>M\<close> makes of it, whatever the code outside
  answers at each step; a panic ends the run.
\<close>

definition fresh_state :: "('v, 's, 't) system_state \<Rightarrow> bool" where
  "fresh_state s \<longleftrightarrow> undo_stack s = [] \<and> redo_stack s = [] \<and> (\<forall>w. sys_waves s = Some w \<longrightarrow>
     items_tree w = [] \<and> displayed_items w = Map.empty \<and> markers w = Map.empty)"

inductive reached :: "('v, 's, 't) message set \<Rightarrow> 'm itself \<Rightarrow> ('v, 's, 't) system_state \<Rightarrow> ('v, 's, 't) system_state \<Rightarrow> bool"
  for M m_type s where
  start: "reached M m_type s s"
| step: "reached M m_type s t \<Longrightarrow> m \<in> M \<Longrightarrow> update (e :: ('v, 's, 'm) env) m t = Ok u \<Longrightarrow> reached M m_type s u"

definition marker_safe :: "('v, 's, 't) message set" where
  "marker_safe = - ({Rows RemovePlaceholders} \<union> range (Groups \<circ> GroupDissolve))"

lemma reached_refs: "reached M ty s s' \<Longrightarrow> state_holds refs_property s \<Longrightarrow> state_holds refs_property s'"
  by (induction rule: reached.induct) (auto intro: update_refs)

lemma reached_markers: "reached M ty s s' \<Longrightarrow> M \<subseteq> marker_safe \<Longrightarrow> state_holds canvas_property s \<Longrightarrow> state_holds canvas_property s'"
proof (induction rule: reached.induct)
  case (step t m e u)
  then have "m \<noteq> Rows RemovePlaceholders" "m \<noteq> Groups (GroupDissolve r)" for r by (auto simp: marker_safe_def)
  with update_markers[OF step.hyps(3)] step show ?case by blast
qed

lemma fresh_holds: "fresh_state s \<Longrightarrow> state_holds canvas_property s" "fresh_state s \<Longrightarrow> state_holds refs_property s"
  by (auto simp: fresh_state_def state_holds_def holds_def canvas_property_def refs_property_def refs_ok_def markers_ok_def marks_def)

definition empty_canvas :: "(unit, unit, unit) wave_data" where
  "empty_canvas = \<lparr>items_tree = [], displayed_items = Map.empty, display_item_ref_counter = 0, next_decoder_instance = 0,
     cursor = None, markers = Map.empty, selected_annotation = None, annotations = [],
     annotation_groups = [\<lparr>ag_name = default_group_name, ag_cycle_counter = 0, ag_annotations = []\<rparr>],
     annotation_list_visible = False, annotation_counter = 0, focused_item = None, focused_transaction = (None, None),
     default_name_type = UniqueName, display_variable_indices = False\<rparr>"

definition empty_state :: "(unit, unit, unit) system_state" where
  "empty_state = \<lparr>sys_waves = Some empty_canvas, undo_stack = [], redo_stack = [], undo_stack_size = 50,
     show_decoder_dialog = None, show_annotation_list = False, annotation_id_source = 0, drag_started = False,
     drag_source_idx = None, drag_target_idx = None\<rparr>"

definition empty_env :: "(unit, unit, unit) env" where
  "empty_env = \<lparr>env_load = (\<lambda>vs. True), env_meta = (\<lambda>v. Some ()), env_info = (\<lambda>m. Some InfoBits), env_index = (\<lambda>v. None),
     env_locals = [], env_order = [1, 2, 3], env_annotation_id = (\<lambda>n. n), env_show_id = show_radix 10,
     env_debug = (\<lambda>t. t), env_show_f32 = (\<lambda>b. ''''), env_multiplier = 0x40A00000\<rparr>"

lemma empty_fresh: "fresh_state empty_state"
  by (simp add: fresh_state_def empty_state_def empty_canvas_def)

text \<open>A canvas with a marker row 1 that is focused, reached by one message.\<close>

definition marker_state :: "(unit, unit, unit) system_state" where
  "marker_state = (case update empty_env (Markers (AddMarker 7 (Some ''a'') True)) empty_state of Ok s \<Rightarrow> s | _ \<Rightarrow> empty_state)"

lemma empty_rows: "rows_ok empty_canvas"
  by (simp add: rows_ok_def canvas_ok_def refs_ok_def markers_ok_def marks_def parents_ok_def tree_ok_def empty_canvas_def)

lemma empty_add_marker: "\<exists>w'. add_marker 7 (Some ''a'') True empty_canvas = Ok (Some 1, w') \<and>
    displayed_items w' = [1 \<mapsto> Canvas.new_marker (Some ''a'') 0] \<and> map item_ref (items_tree w') = [1]"
proof -
  have t: "target_or_focus empty_canvas None = end_insert_position empty_canvas"
    by (simp add: target_or_focus_def or_else_def insert_position_def empty_canvas_def)
  have "good_place empty_canvas (target_or_focus empty_canvas None)" unfolding t by (rule end_position_good[OF empty_rows])
  from insert_displayed_good[OF empty_rows this, of "Canvas.new_marker (Some ''a'') 0" True]
  obtain w' where w': "insert_displayed (Canvas.new_marker (Some ''a'') 0) None True empty_canvas = Ok (1, w')"
    "map item_ref (items_tree w') = [1]"
    by (auto simp: t end_insert_position_def empty_canvas_def vec_insert_def)
  have "can_add_marker empty_canvas" by (simp add: can_add_marker_def empty_canvas_def)
  moreover have "List.find (\<lambda>k. markers empty_canvas k = None) [0..<255] = Some 0"
    by (simp add: upt_conv_Cons empty_canvas_def)
  ultimately show ?thesis using w' insert_displayed_Ok(3)[OF w'(1)]
    by (simp add: add_marker_def) (simp add: empty_canvas_def)
qed

lemma marker_step: "update empty_env (Markers (AddMarker 7 (Some ''a'') True)) empty_state = Ok marker_state"
proof -
  from empty_add_marker obtain w' where "add_marker 7 (Some ''a'') True empty_canvas = Ok (Some 1, w')" by blast
  then have "\<exists>s. update empty_env (Markers (AddMarker 7 (Some ''a'') True)) empty_state = Ok s"
    by (simp add: add_marker_message_def with_waves_def) (simp add: empty_state_def)
  then show ?thesis by (auto simp: marker_state_def)
qed

lemma marker_waves: "\<exists>w. sys_waves marker_state = Some w \<and> displayed_items w = [1 \<mapsto> Canvas.new_marker (Some ''a'') 0] \<and>
    map item_ref (items_tree w) = [1]"
proof -
  obtain w' where w': "add_marker 7 (Some ''a'') True empty_canvas = Ok (Some 1, w')"
    "displayed_items w' = [1 \<mapsto> Canvas.new_marker (Some ''a'') 0]" "map item_ref (items_tree w') = [1]"
    using empty_add_marker by (elim exE conjE) (rule that)
  have "sys_waves empty_state = Some empty_canvas" by (simp add: empty_state_def)
  then have "with_waves (\<lambda>w. and_then (add_marker 7 (Some ''a'') True w) (\<lambda>(_, w'). Ok w')) (save_current_canvas m empty_state)
      = Ok ((save_current_canvas m empty_state)\<lparr>sys_waves := Some w'\<rparr>)" for m
    unfolding with_waves_def save_waves by (simp add: w'(1))
  then have "\<exists>m. update empty_env (Markers (AddMarker 7 (Some ''a'') True)) empty_state
      = Ok ((save_current_canvas m empty_state)\<lparr>sys_waves := Some w'\<rparr>)"
    unfolding update.simps update_marker.simps add_marker_message_def by blast
  then obtain m where "marker_state = (save_current_canvas m empty_state)\<lparr>sys_waves := Some w'\<rparr>"
    unfolding marker_step outcome.inject by blast
  then have "sys_waves marker_state = Some w'" by (metis system_state.select_convs(1) system_state.surjective system_state.update_convs(1))
  with w'(2,3) show ?thesis by (intro exI[of _ w'] conjI)
qed

lemma marker_reached: "reached marker_safe TYPE(unit) empty_state marker_state"
  by (rule reached.step[OF reached.start _ marker_step]) (auto simp: marker_safe_def)

text \<open>
  C1. Rows and items. From a freshly opened waveform no sequence of messages (adding, moving, grouping,
  folding, removing, reconfiguring, undoing, redoing) ends in a canvas in which a row has no item, an item no
  row, or two rows the same item; the same holds for every canvas that undo or redo can bring back.
\<close>

theorem reachable_rows:
  assumes "fresh_state s" "reached M ty s s'" "sys_waves s' = Some w"
  shows "refs_ok (items_tree w) (displayed_items w) (display_item_ref_counter w) \<and>
    (\<forall>c \<in> set (undo_stack s') \<union> set (redo_stack s'). refs_ok (cs_items_tree c) (cs_displayed_items c) (display_item_ref_counter w))"
  using reached_refs[OF assms(2) fresh_holds(2)[OF assms(1)]] assms(3)
  by (simp add: state_holds_def holds_def holds_saved_def refs_property_def)

lemma reachable_rows_witness:
  "\<exists>w. sys_waves marker_state = Some w \<and> refs_ok (items_tree w) (displayed_items w) (display_item_ref_counter w)"
  using marker_waves reachable_rows[OF empty_fresh marker_reached] by blast

text \<open>
  C2. Markers. As long as no group is dissolved and no placeholders are removed, the marker table and the
  marker rows agree after every sequence of messages: a marker number is set exactly when exactly one row
  shows it, undo and redo included.
\<close>

theorem reachable_markers:
  assumes "fresh_state s" "reached M ty s s'" "M \<subseteq> marker_safe" "sys_waves s' = Some w"
  shows "markers w k \<noteq> None \<longleftrightarrow> (\<exists>!r. marks (displayed_items w) r k)"
proof -
  have "markers_ok (displayed_items w) (markers w)"
    using reached_markers[OF assms(2,3) fresh_holds(1)[OF assms(1)]] assms(4)
    by (simp add: state_holds_def holds_def canvas_property_def)
  from markers_okD[OF this] show ?thesis by blast
qed

lemma reachable_markers_witness: "\<exists>w. sys_waves marker_state = Some w \<and> markers w 0 \<noteq> None"
proof -
  from marker_waves obtain w where w: "sys_waves marker_state = Some w" "displayed_items w = [1 \<mapsto> Canvas.new_marker (Some ''a'') 0]" by blast
  have "\<exists>!r. marks (displayed_items w) r 0" by (auto simp: w(2) marks_def Canvas.new_marker_def split: if_splits)
  with reachable_markers[OF empty_fresh marker_reached order_refl w(1), of 0] w(1) show ?thesis by blast
qed

text \<open>
  C6. Dissolving a group is the exception: the message dissolves whatever row it is given, and when that is
  a marker's row the item goes but the marker stays set. No row shows it any more, removing the marker does
  nothing, and its number is not used again.
\<close>

theorem dissolve_strands_marker:
  assumes "canvas_ok w" "displayed_items w r = Some (ItemMarker m)"
  shows "\<exists>w'. group_dissolve (Some r) w = Ok w' \<and> markers w' (dm_idx m) \<noteq> None \<and>
    (\<forall>s. \<not> marks (displayed_items w') s (dm_idx m)) \<and> remove_marker order (dm_idx m) w' = Ok w'"
proof -
  have ok: "refs_ok (items_tree w) (displayed_items w) (display_item_ref_counter w)" "markers_ok (displayed_items w) (markers w)"
    using assms(1) by (simp_all add: canvas_ok_def)
  have "r \<in> set (map item_ref (items_tree w))" using ok(1) assms(2) by (auto simp: refs_ok_def dom_def)
  then obtain i where i: "index_of_ref (items_tree w) r = Some i"
    using index_of_ref_None[of "items_tree w" r] by (cases "index_of_ref (items_tree w) r") auto
  note at = index_of_ref_Some[OF i]
  obtain t where t: "remove_dissolve (items_tree w) i = Ok (r, t)" using at by (simp add: remove_dissolve_def Let_def)
  let ?w = "w\<lparr>items_tree := t, displayed_items := (displayed_items w)(r := None)\<rparr>"
  have d: "group_dissolve (Some r) w = Ok ?w" by (simp add: group_dissolve_def index_for_ref_or_focus_def i t)
  have r: "marks (displayed_items w) r (dm_idx m)" by (simp add: marks_def assms(2))
  have gone: "\<not> marks (displayed_items ?w) s (dm_idx m)" for s
  proof
    assume "marks (displayed_items ?w) s (dm_idx m)"
    then have "s \<noteq> r" "marks (displayed_items w) s (dm_idx m)" by simp_all
    with markers_okD(2)[OF ok(2) r] show False by blast
  qed
  then have "List.find (\<lambda>s. case displayed_items ?w s of Some i \<Rightarrow> marker_idx i = Some (dm_idx m) | None \<Rightarrow> False) order = None"
    by (simp add: find_None_iff marks_def)
  then have "remove_marker order (dm_idx m) ?w = Ok ?w" unfolding remove_marker_def by simp
  moreover have "markers ?w (dm_idx m) \<noteq> None" using r markers_okD(1)[OF ok(2), of "dm_idx m"] by (simp, blast)
  ultimately show ?thesis using d gone by (intro exI[of _ ?w] conjI allI)
qed

lemma dissolve_strands_marker_witness:
  "\<exists>w'. group_dissolve (Some 3) sample_canvas = Ok w' \<and> markers w' 7 \<noteq> None"
proof -
  have "canvas_ok sample_canvas" using sample_canvas_ok by (simp add: rows_ok_def)
  from dissolve_strands_marker[OF this, of 3 "\<lparr>dm_color = None, dm_background = None, dm_name = Some ''start'', dm_idx = 7\<rparr>" "[]"]
  show ?thesis by (auto simp: sample_canvas_items Canvas.new_marker_def)
qed

text \<open>
  Focusing a row beyond the visible ones. The focus message compares the row with the number of items,
  not of visible rows, so with a folded group it accepts a focus on no visible row, and the next message that
  folds or unfolds all groups then fails its expectation that the focus is visible.
\<close>

theorem focus_beyond_rows_panics:
  assumes "canvas_ok w" "length (iter_visible (items_tree w)) \<le> idx" "idx < length (items_tree w)"
  shows "focused_item (focus_item idx w) = Some idx \<and> group_fold_all unfold (focus_item idx w) = Panic"
proof -
  let ?ok = "\<lambda>r. displayed_items w r \<noteq> None" and ?n = "display_item_ref_counter w"
  have ok: "distinct (map item_ref (items_tree w))" "set (map item_ref (items_tree w)) = dom (displayed_items w)"
    "\<forall>r \<in> dom (displayed_items w). r \<le> ?n"
    using assms(1) by (simp_all add: canvas_ok_def refs_ok_def)
  have "set (filter ?ok [0..<?n + 1]) = dom (displayed_items w)" using ok(3) unfolding set_filter set_upt by (auto simp: dom_def less_Suc_eq_le)
  then have "length (filter ?ok [0..<?n + 1]) = card (dom (displayed_items w))"
    using distinct_card[of "filter ?ok [0..<?n + 1]"] by simp
  also have "\<dots> = length (items_tree w)" using distinct_card[OF ok(1)] ok(2) by simp
  finally have "focus_item idx w = w\<lparr>focused_item := Some idx\<rparr>" using assms(3) unfolding focus_item_def by simp
  moreover have "get_visible (items_tree w) idx = None" using assms(2) by (simp add: get_visible_def get_def)
  ultimately show ?thesis by (simp add: group_fold_all_def)
qed

lemma focus_beyond_rows_panics_witness: "group_fold_all True (focus_item 2 sample_canvas) = Panic"
proof -
  have "canvas_ok sample_canvas" using sample_canvas_ok by (simp add: rows_ok_def)
  moreover have "length (iter_visible (items_tree sample_canvas)) \<le> 2" by code_simp
  moreover have "2 < length (items_tree sample_canvas)" by code_simp
  ultimately show ?thesis using focus_beyond_rows_panics by blast
qed

end
