(* ===== verification/Undo_History.thy ===== *)
theory Undo_History
  imports Messages_Inv
begin

section \<open>Undo and redo\<close>

text \<open>
  The two stacks together never hold more than the configured number of canvases; undo followed by redo is the
  identity up to the analog caches, which a clone drops; a message that saves is undone by one undo.
\<close>

text \<open>A saved canvas holds clones, so saving it again changes nothing.\<close>

definition cloned :: "('v, 's, 't) canvas_state \<Rightarrow> bool" where
  "cloned c \<longleftrightarrow> (\<forall>r. map_option item_clone (cs_displayed_items c r) = cs_displayed_items c r)"

definition without_caches :: "('v, 's, 't) wave_data \<Rightarrow> ('v, 's, 't) wave_data" where
  "without_caches w = w\<lparr>displayed_items := \<lambda>r. map_option item_clone (displayed_items w r)\<rparr>"

lemma map_clone_idem [simp]: "map_option item_clone (map_option item_clone x) = map_option item_clone x"
  by (cases x) simp_all

lemma cloned_saved [simp, intro]: "cloned (current_canvas_state w m)"
  by (simp add: cloned_def current_canvas_state_def)

lemma save_restored: "cloned c \<Longrightarrow> current_canvas_state (restore_canvas c w) (cs_message c) = c"
  by (cases c) (simp add: cloned_def current_canvas_state_def restore_canvas_def)

lemma restore_restored [simp]: "restore_canvas c (restore_canvas d w) = restore_canvas c w"
  by (simp add: restore_canvas_def)

lemma restore_saved: "restore_canvas (current_canvas_state w m) w = without_caches w"
  by (simp add: restore_canvas_def current_canvas_state_def without_caches_def)

lemma restore_without_caches [simp]: "restore_canvas c (without_caches w) = restore_canvas c w"
  by (simp add: restore_canvas_def without_caches_def)

lemma without_caches_restored: "cloned c \<Longrightarrow> without_caches (restore_canvas c w) = restore_canvas c w"
  by (simp add: restore_canvas_def without_caches_def cloned_def)

lemma saved_without_caches [simp]: "current_canvas_state (without_caches w) m = current_canvas_state w m"
  by (simp add: current_canvas_state_def without_caches_def)

lemma message_saved [simp]: "cs_message (current_canvas_state w m) = m"
  by (simp add: current_canvas_state_def)

lemma undo_times_Suc:
  "undo_times (Suc n) x = (case undo_times n x of (w, from, to) \<Rightarrow> undo_times 1 (w, from, to))"
proof (induction n arbitrary: x)
  case 0
  show ?case by (cases x) simp
next
  case (Suc n)
  obtain w "from" to where x: "x = (w, from, to)" by (cases x)
  show ?case
  proof (cases "from = []")
    case True
    then show ?thesis by (simp add: x)
  next
    case False
    then show ?thesis using Suc.IH[of "(restore_canvas (last from) w, butlast from, to @ [current_canvas_state w (cs_message (last from))])"]
      by (simp add: x)
  qed
qed

text \<open>What undoing takes from one stack it puts on the other.\<close>

lemma undo_times_length:
  "undo_times n (w, from, to) = (w', from', to') \<Longrightarrow> length from' + length to' = length from + length to"
  by (induction n arbitrary: w "from" to) (auto split: if_splits)

lemma undo_times_back:
  assumes "undo_times n (w, from, to) = (w', from', to')" "n \<le> length from" "\<forall>c \<in> set from. cloned c"
  shows "undo_times n (w', to', from') = (if n = 0 then w else without_caches w, to, from)"
  using assms
proof (induction n arbitrary: w "from" to)
  case (Suc n)
  let ?c = "last from" and ?s = "current_canvas_state w (cs_message (last from))"
  have "from \<noteq> []" using Suc.prems(2) by auto
  then have "from": "from \<noteq> []" "from = butlast from @ [?c]" by simp_all
  have c: "cloned ?c" "\<forall>c \<in> set (butlast from). cloned c" using Suc.prems(3) "from"(1) by (auto dest: in_set_butlastD)
  have u: "undo_times n (restore_canvas ?c w, butlast from, to @ [?s]) = (w', from', to')" using Suc.prems(1) "from"(1) by simp
  have "n \<le> length (butlast from)" using Suc.prems(2) by simp
  from Suc.IH[OF u this c(2)] have "undo_times n (w', to', from') = (restore_canvas ?c w, to @ [?s], butlast from)"
    by (simp add: without_caches_restored[OF c(1)])
  then show ?case unfolding undo_times_Suc using "from" by (simp add: save_restored[OF c(1)] restore_saved)
qed simp

text \<open>
  C4. Undo, then redo. Undoing any number of saved changes that are on the stack and redoing as many brings
  back the whole state: the canvas, the focus, the markers and annotations, and both stacks. Only the analog
  caches are dropped, which are recomputed.
\<close>

theorem redo_undo:
  assumes "sys_waves s = Some w" "n \<le> length (undo_stack s)" "\<forall>c \<in> set (undo_stack s). cloned c"
  shows "redo n (undo n s) = s\<lparr>sys_waves := Some (if n = 0 then w else without_caches w)\<rparr>"
proof -
  obtain w' us rs where u: "undo_times n (w, undo_stack s, redo_stack s) = (w', us, rs)" by (metis prod_cases3)
  have "redo n (undo n s) = s\<lparr>sys_waves := Some (if n = 0 then w else without_caches w), undo_stack := undo_stack s, redo_stack := redo_stack s\<rparr>"
    using undo_times_back[OF u assms(2,3)] by (simp add: undo_def redo_def assms(1) u)
  then show ?thesis by simp
qed

subsection \<open>The stacks\<close>

definition history_ok :: "nat \<Rightarrow> ('v, 's, 't) system_state \<Rightarrow> bool" where
  "history_ok N s \<longleftrightarrow> undo_stack_size s = N \<and> length (undo_stack s) + length (redo_stack s) \<le> N \<and>
     (\<forall>c \<in> set (undo_stack s) \<union> set (redo_stack s). cloned c)"

lemma history_frame [simp]:
  "history_ok N (s\<lparr>sys_waves := ws\<rparr>) = history_ok N s"
  "history_ok N (s\<lparr>drag_started := d\<rparr>) = history_ok N s" "history_ok N (s\<lparr>drag_source_idx := i\<rparr>) = history_ok N s"
  "history_ok N (s\<lparr>drag_target_idx := t\<rparr>) = history_ok N s" "history_ok N (s\<lparr>show_decoder_dialog := di\<rparr>) = history_ok N s"
  "history_ok N (s\<lparr>annotation_id_source := n\<rparr>) = history_ok N s" "history_ok N (s\<lparr>show_annotation_list := b\<rparr>) = history_ok N s"
  by (simp_all add: history_ok_def)

lemma history_waves: "with_waves f s = Ok s' \<Longrightarrow> history_ok N s \<Longrightarrow> history_ok N s'"
  by (auto simp: with_waves_def outcome_simps split: option.splits)

lemma history_save [intro]: "history_ok N s \<Longrightarrow> history_ok N (save_current_canvas m s)"
proof (cases "sys_waves s")
  case (Some w)
  let ?st = "undo_stack s @ [current_canvas_state w m]"
  assume "history_ok N s"
  moreover have "set (tl ?st) \<subseteq> set ?st" by (cases ?st) auto
  ultimately show ?thesis by (auto simp: history_ok_def save_current_canvas_def Let_def Some)
qed (simp add: save_current_canvas_def)

lemma undo_times_cloned:
  "undo_times n (w, from, to) = (w', from', to') \<Longrightarrow> \<forall>c \<in> set from \<union> set to. cloned c \<Longrightarrow> \<forall>c \<in> set from' \<union> set to'. cloned c"
proof (induction n arbitrary: w "from" to)
  case (Suc n)
  show ?case
  proof (cases "from = []")
    case False
    then have u: "undo_times n (restore_canvas (last from) w, butlast from, to @ [current_canvas_state w (cs_message (last from))])
        = (w', from', to')" using Suc.prems(1) by simp
    have "\<forall>c \<in> set (butlast from). cloned c" using Suc.prems(2) in_set_butlastD[of _ "from"] by blast
    then have "\<forall>c \<in> set (butlast from) \<union> set (to @ [current_canvas_state w (cs_message (last from))]). cloned c"
      using Suc.prems(2) by (simp, blast)
    from Suc.IH[OF u this] show ?thesis .
  qed (use Suc.prems in simp)
qed simp

lemma history_undo: "history_ok N s \<Longrightarrow> history_ok N (undo n s)" "history_ok N s \<Longrightarrow> history_ok N (redo n s)"
proof -
  assume s: "history_ok N s"
  show "history_ok N (undo n s)"
  proof (cases "sys_waves s")
    case (Some w)
    obtain w' us rs where u: "undo_times n (w, undo_stack s, redo_stack s) = (w', us, rs)" by (metis prod_cases3)
    from undo_times_length[OF u] undo_times_cloned[OF u] s show ?thesis by (simp add: history_ok_def undo_def Some u)
  qed (use s in \<open>simp add: undo_def\<close>)
  show "history_ok N (redo n s)"
  proof (cases "sys_waves s")
    case (Some w)
    obtain w' us rs where u: "undo_times n (w, redo_stack s, undo_stack s) = (w', rs, us)" by (metis prod_cases3)
    from undo_times_length[OF u] undo_times_cloned[OF u] s show ?thesis by (simp add: history_ok_def redo_def Some u Un_commute)
  qed (use s in \<open>simp add: redo_def\<close>)
qed

lemma history_pure: "pure_waves f s = Ok s' \<Longrightarrow> history_ok N s \<Longrightarrow> history_ok N s'"
  unfolding pure_waves_def by (rule history_waves)

lemma history_decoder: "decoder_add p items s0 = Ok s' \<Longrightarrow> history_ok N s0 \<Longrightarrow> history_ok N s'"
proof -
  define s where "s = save_current_canvas (''Add '' @ show_protocol p @ '' decoder'') s0"
  assume d: "decoder_add p items s0 = Ok s'" and "history_ok N s0"
  then have s: "history_ok N s" unfolding s_def by (intro history_save)
  with d[unfolded decoder_add_def Let_def, folded s_def] show ?thesis
    by (cases "sys_waves s") (auto simp: outcome_simps split: if_splits)
qed

lemma update_history_ok: "update e m s = Ok s' \<Longrightarrow> history_ok N s \<Longrightarrow> history_ok N s'"
proof (cases m)
  case (Rows r)
  assume "update e m s = Ok s'" "history_ok N s"
  with Rows show ?thesis
    by (cases r) (auto simp: add_variables_message_def add_dragged_variables_def remove_visible_items_def remove_items_def Let_def
      elim!: history_waves history_pure split: if_splits option.splits target.splits)
next
  case (Selection c)
  assume "update e m s = Ok s'" "history_ok N s"
  with Selection show ?thesis
    by (cases c) (auto simp: focus_transaction_def elim!: history_pure split: option.splits if_splits)
next
  case (Items i)
  assume "update e m s = Ok s'" "history_ok N s"
  with Items show ?thesis
    by (cases i) (auto simp: item_color_change_def item_name_change_def item_name_reset_message_def item_background_change_def
      item_height_change_def set_analog_settings_def change_name_type_message_def elim!: history_pure)
next
  case (Markers k)
  assume "update e m s = Ok s'" "history_ok N s"
  with Markers show ?thesis
    by (cases k) (auto simp: resolve_marker_set_def resolve_marker_remove_def set_marker_message_def add_marker_message_def
      elim!: history_waves split: option.splits)
next
  case (Moves v)
  assume "update e m s = Ok s'" "history_ok N s"
  with Moves show ?thesis by (cases v) (auto simp: variable_drag_finished_def Let_def elim!: history_waves split: option.splits)
next
  case (Decoding d)
  assume "update e m s = Ok s'" "history_ok N s"
  with Decoding show ?thesis by (cases d) (auto elim!: history_pure intro: history_decoder)
next
  case (Groups g)
  assume "update e m s = Ok s'" "history_ok N s"
  with Groups show ?thesis by (cases g) (auto elim!: history_waves)
next
  case (Annotating a)
  assume "update e m s = Ok s'" "history_ok N s"
  with Annotating show ?thesis
    by (cases a) (auto simp: annotation_added_def Let_def elim!: history_pure split: option.splits)
next
  case (History h)
  assume "update e m s = Ok s'" "history_ok N s"
  with History show ?thesis by (cases h) (auto intro: history_undo)
qed

lemma reached_history: "reached M ty s s' \<Longrightarrow> history_ok N s \<Longrightarrow> history_ok N s'"
  by (induction rule: reached.induct) (auto intro: update_history_ok)

subsection \<open>Messages that can be undone\<close>

fun saves :: "('v, 's, 't) message \<Rightarrow> bool" where
  "saves (Rows m) \<longleftrightarrow> (case m of AddVariables vs \<Rightarrow> vs \<noteq> [] | AddDraggedVariables vs \<Rightarrow> False | RemovePlaceholders \<Rightarrow> False | _ \<Rightarrow> True)"
| "saves (Selection m) \<longleftrightarrow> (case m of FocusTransaction r tx \<Rightarrow> r \<noteq> None \<and> tx = None | _ \<Rightarrow> False)"
| "saves (Items m) \<longleftrightarrow> (case m of ChangeVariableNameType tg nt \<Rightarrow> False | ForceVariableNameTypes nt \<Rightarrow> False | _ \<Rightarrow> True)"
| "saves (Markers m) \<longleftrightarrow> (case m of ResolveMarkerRemove n \<Rightarrow> False | RemoveMarker k \<Rightarrow> False | _ \<Rightarrow> True)"
| "saves (Moves m) \<longleftrightarrow> (case m of MoveFocusedItem d n \<Rightarrow> True | _ \<Rightarrow> False)"
| "saves (Decoding m) \<longleftrightarrow> (case m of DecoderOpenDialog d \<Rightarrow> False | _ \<Rightarrow> True)"
| "saves (Groups m) \<longleftrightarrow> True"
| "saves (Annotating m) \<longleftrightarrow> (case m of ToggleAnnotationListShowComments i \<Rightarrow> False | ToggleAnnotationlistVisibility \<Rightarrow> False | _ \<Rightarrow> True)"
| "saves (History m) \<longleftrightarrow> False"

definition saved_first :: "('v, 's, 't) system_state \<Rightarrow> ('v, 's, 't) system_state \<Rightarrow> bool" where
  "saved_first s s' \<longleftrightarrow> sys_waves s' \<noteq> None \<and> (\<exists>m. undo_stack s' = undo_stack (save_current_canvas m s))"

lemma saved_waves: "with_waves f (save_current_canvas m s) = Ok s' \<Longrightarrow> sys_waves s \<noteq> None \<Longrightarrow> saved_first s s'"
  by (auto simp: with_waves_def saved_first_def outcome_simps split: option.splits)

lemma saved_pure: "pure_waves f (save_current_canvas m s) = Ok s' \<Longrightarrow> sys_waves s \<noteq> None \<Longrightarrow> saved_first s s'"
  unfolding pure_waves_def by (rule saved_waves)

lemma saved_decoder: "decoder_add p items s0 = Ok s' \<Longrightarrow> sys_waves s0 \<noteq> None \<Longrightarrow> saved_first s0 s'"
proof -
  define s where "s = save_current_canvas (''Add '' @ show_protocol p @ '' decoder'') s0"
  assume d: "decoder_add p items s0 = Ok s'" and w: "sys_waves s0 \<noteq> None"
  then have "sys_waves s \<noteq> None" unfolding s_def by simp
  with d[unfolded decoder_add_def Let_def, folded s_def] have "undo_stack s' = undo_stack s" "sys_waves s' \<noteq> None"
    by (auto simp: outcome_simps split: if_splits)
  then show ?thesis unfolding saved_first_def s_def by blast
qed

lemma saved_annotation: "annotation_added e verb ty anchor s = Ok s' \<Longrightarrow> sys_waves s \<noteq> None \<Longrightarrow> saved_first s s'"
proof -
  assume a: "annotation_added e verb ty anchor s = Ok s'" and w: "sys_waves s \<noteq> None"
  let ?s = "s\<lparr>annotation_id_source := annotation_id_source s + 1\<rparr>"
  have "saved_first ?s s'" using a w unfolding annotation_added_def Let_def by (elim saved_pure) simp
  moreover have "undo_stack (save_current_canvas m ?s) = undo_stack (save_current_canvas m s)" for m
    by (simp add: save_current_canvas_def Let_def split: option.split)
  ultimately show ?thesis by (simp add: saved_first_def)
qed

lemma update_saves:
  assumes "update e m s = Ok s'" "saves m" "sys_waves s \<noteq> None"
  shows "saved_first s s'"
proof (cases m)
  case (Rows r)
  with assms show ?thesis
    by (cases r) (auto simp: add_variables_message_def remove_visible_items_def remove_items_def Let_def
      elim!: saved_waves split: target.splits if_splits)
next
  case (Selection c)
  with assms show ?thesis by (cases c) (auto simp: focus_transaction_def elim!: saved_pure)
next
  case (Items i)
  with assms show ?thesis
    by (cases i) (auto simp: item_color_change_def item_name_change_def item_name_reset_message_def item_background_change_def
      item_height_change_def set_analog_settings_def elim!: saved_pure)
next
  case (Markers k)
  with assms show ?thesis
    by (cases k) (auto simp: resolve_marker_set_def set_marker_message_def add_marker_message_def elim!: saved_waves split: option.splits)
next
  case (Moves v)
  with assms show ?thesis by (cases v) (auto elim!: saved_waves)
next
  case (Decoding d)
  with assms show ?thesis by (cases d) (auto elim!: saved_pure saved_decoder)
next
  case (Groups g)
  with assms show ?thesis by (cases g) (auto elim!: saved_waves)
next
  case (Annotating a)
  with assms show ?thesis by (cases a) (auto elim!: saved_pure saved_annotation)
qed (use assms in simp)

lemma undo_saved:
  assumes "saved_first s s'" "sys_waves s = Some w" "0 < undo_stack_size s"
  shows "\<exists>w'. sys_waves (undo 1 s') = Some w' \<and> current_canvas_state w' x = current_canvas_state w x"
proof -
  obtain w1 m where w1: "sys_waves s' = Some w1" and u: "undo_stack s' = undo_stack (save_current_canvas m s)"
    using assms(1) by (auto simp: saved_first_def)
  let ?st = "undo_stack s @ [current_canvas_state w m]"
  have "tl ?st \<noteq> []" if "undo_stack_size s < length ?st" using that assms(3) by (cases "undo_stack s") auto
  then have "undo_stack s' \<noteq> []" "last (undo_stack s') = current_canvas_state w m"
    by (auto simp: u save_current_canvas_def assms(2) Let_def last_tl)
  then have "sys_waves (undo 1 s') = Some (restore_canvas (current_canvas_state w m) w1)"
    by (simp add: undo_def w1)
  moreover have "current_canvas_state (restore_canvas (current_canvas_state w m) w1) x = current_canvas_state w x"
    by (simp add: current_canvas_state_def restore_canvas_def)
  ultimately show ?thesis by blast
qed

text \<open>
  C5. Undo depth. After any sequence of messages the undo and redo stacks together hold at most the
  configured number of canvases, so the memory they take does not grow with the session, and every canvas on
  them is in the form in which saving it again gives the same canvas.
\<close>

theorem history_bounded:
  assumes "fresh_state s" "reached M ty s s'"
  shows "length (undo_stack s') + length (redo_stack s') \<le> undo_stack_size s \<and>
    (\<forall>c \<in> set (undo_stack s') \<union> set (redo_stack s'). cloned c)"
proof -
  have "history_ok (undo_stack_size s) s" using assms(1) by (simp add: history_ok_def fresh_state_def)
  from reached_history[OF assms(2) this] show ?thesis by (simp add: history_ok_def)
qed

lemma history_bounded_witness: "length (undo_stack marker_state) + length (redo_stack marker_state) \<le> undo_stack_size empty_state"
  using history_bounded[OF empty_fresh marker_reached] by blast

text \<open>
  C3. One message, one undo. Every message that saves the canvas (all that create, group, fold, configure,
  rename, recolour, move or remove through the menus) is taken back by a single undo: the rows, items,
  markers, focus and annotations are those of before the message.
\<close>

theorem undo_reverts:
  assumes "update e m s = Ok s'" "saves m" "sys_waves s = Some w" "0 < undo_stack_size s"
  shows "\<exists>w'. sys_waves (undo 1 s') = Some w' \<and> current_canvas_state w' x = current_canvas_state w x"
  using undo_saved[OF update_saves[OF assms(1,2)] assms(3,4)] assms(3) by simp

lemma undo_reverts_witness:
  "\<exists>w'. sys_waves (undo 1 marker_state) = Some w' \<and> items_tree w' = [] \<and> markers w' 0 = None"
proof -
  have "saves (Markers (AddMarker 7 (Some ''a'') True))" by simp
  moreover have "sys_waves empty_state = Some empty_canvas" "0 < undo_stack_size empty_state" by (simp_all add: empty_state_def)
  ultimately obtain w' where "sys_waves (undo 1 marker_state) = Some w'" "current_canvas_state w' [] = current_canvas_state empty_canvas []"
    using undo_reverts[OF marker_step] by blast
  then show ?thesis by (simp add: current_canvas_state_def empty_canvas_def)
qed

lemma redo_undo_witness: "sys_waves (redo 1 (undo 1 marker_state)) \<noteq> None"
proof -
  have h: "history_ok (undo_stack_size empty_state) marker_state"
    by (rule reached_history[OF marker_reached]) (use empty_fresh in \<open>simp add: history_ok_def fresh_state_def\<close>)
  from marker_waves obtain w where w: "sys_waves marker_state = Some w" by blast
  have "saved_first empty_state marker_state"
    by (rule update_saves[OF marker_step]) (simp_all add: empty_state_def)
  then have "1 \<le> length (undo_stack marker_state)"
    by (auto simp: saved_first_def save_current_canvas_def empty_state_def)
  from redo_undo[OF w this] h show ?thesis by (simp add: history_ok_def)
qed

end
