(* ===== verification/Basic_Translators.thy ===== *)
theory Basic_Translators
  imports Translation_Types
begin

unbundle bit_operations_syntax

section \<open>Basic translators (basic\_translators.rs)\<close>

text \<open>
  The translators from a value to a text and a kind that know only the number of bits: hexadecimal, octal,
  binary, bit, ASCII, LEB128 and the counters of ones and zeros. A translator that can panic returns an
  outcome. \<open>pb\<close> is \<^verbatim>\<open>BigUint::parse_bytes\<close>, and numbers for analog rendering are built by \<open>to_f64\<close>.
\<close>

text \<open>The operations of \<^verbatim>\<open>f64\<close> that a numeric range is computed with.\<close>

record 'f floats =
  f_zero :: 'f
  f_one :: 'f
  f_sub :: "'f \<Rightarrow> 'f \<Rightarrow> 'f"
  f_neg :: "'f \<Rightarrow> 'f"
  f_pow2 :: "int \<Rightarrow> 'f"
  f_is_finite :: "'f \<Rightarrow> bool"

record 'f numeric_range =
  nr_min :: 'f
  nr_max :: 'f

definition integer_numeric_range :: "'f floats \<Rightarrow> nat \<Rightarrow> bool \<Rightarrow> 'f numeric_range option" where
  "integer_numeric_range fl num_bits is_signed =
     (if num_bits = 0 \<or> 1024 \<le> num_bits then None
      else let (lo, hi) = (if is_signed then
              (let half = f_pow2 fl (int num_bits - 1) in (f_neg fl half, f_sub fl half (f_one fl)))
            else (f_zero fl, f_sub fl (f_pow2 fl (int num_bits)) (f_one fl)))
        in if f_is_finite fl (f_sub fl hi lo) then Some \<lparr>nr_min = lo, nr_max = hi\<rparr> else None)"

subsection \<open>Groups and radixes\<close>

function chunks_of :: "nat \<Rightarrow> 'a list \<Rightarrow> 'a list list" where
  "chunks_of n s = (if s = [] \<or> n = 0 then [] else take n s # chunks_of n (drop n s))"
  by pat_completeness auto
termination by (relation "measure (\<lambda>(n, s). length s)") auto

declare chunks_of.simps [simp del]

text \<open>The first group is shorter when the length is no multiple of \<open>n\<close>, which is not zero.\<close>

definition group_n_chars :: "'a list \<Rightarrow> nat \<Rightarrow> 'a list list" where
  "group_n_chars s n = (let rem = length s mod n in (if 0 < rem then [take rem s] else []) @ chunks_of n (drop rem s))"

text \<open>The text of a group, or \<open>None\<close> when it is no number.\<close>

definition radix_group :: "string \<Rightarrow> string option" where
  "radix_group g =
     (if contains_char (CHR ''x'') g then Some ''x''
      else if contains_char (CHR ''z'') g then Some ''z''
      else if contains_char (CHR ''-'') g then Some ''-''
      else if contains_char (CHR ''u'') g then Some ''u''
      else if contains_char (CHR ''w'') g then Some ''w''
      else if contains_char (CHR ''h'') g then Some ''h''
      else if contains_char (CHR ''l'') g then Some ''l''
      else map_option (show_radix 16) (parse_unsigned 8 2 g))"

definition map_to_radix :: "string \<Rightarrow> nat \<Rightarrow> nat \<Rightarrow> string \<times> value_kind" where
  "map_to_radix s radix num_bits =
     (let groups = map radix_group (group_n_chars (extend_string s num_bits @ s) radix);
          formatted = concat (map (\<lambda>g. case g of Some t \<Rightarrow> t | None \<Rightarrow> ''?'') groups)
      in (formatted, if None \<in> set groups then KindError else kind_for_binary_representation formatted))"

definition check_wordlength :: "nat option \<Rightarrow> (nat \<Rightarrow> bool) \<Rightarrow> translation_preference" where
  "check_wordlength num_bits required = (case num_bits of
     Some n \<Rightarrow> if required n then Yes else No | None \<Rightarrow> No)"

definition ceil_div :: "nat \<Rightarrow> nat \<Rightarrow> nat" where
  "ceil_div n k = (n + k - 1) div k"

definition hex_translate :: "nat \<Rightarrow> variable_value \<Rightarrow> string \<times> value_kind" where
  "hex_translate num_bits value = (case value of
     BigUint v \<Rightarrow> (zero_pad (ceil_div num_bits 4) (show_radix 16 v), Normal)
   | String s \<Rightarrow> map_to_radix s 4 num_bits)"

definition bit_translate :: "nat \<Rightarrow> variable_value \<Rightarrow> string \<times> value_kind" where
  "bit_translate num_bits value = (case value of
     BigUint v \<Rightarrow> (if v = 0 then ''0'' else if v = 1 then ''1'' else ''-'', Normal)
   | String s \<Rightarrow> (s, kind_for_binary_representation s))"

definition bit_translates :: "('v, 's) variable_meta \<Rightarrow> translation_preference" where
  "bit_translates m = (case vm_num_bits m of Some n \<Rightarrow> if n = 1 then Prefer else No | None \<Rightarrow> No)"

definition octal_translate :: "nat \<Rightarrow> variable_value \<Rightarrow> string \<times> value_kind" where
  "octal_translate num_bits value = (case value of
     BigUint v \<Rightarrow> (zero_pad (ceil_div num_bits 3) (show_radix 8 v), Normal)
   | String s \<Rightarrow> map_to_radix s 3 num_bits)"

definition binary_translate :: "nat \<Rightarrow> variable_value \<Rightarrow> string \<times> value_kind" where
  "binary_translate num_bits value = (case value of
     BigUint v \<Rightarrow> (zero_pad num_bits (show_radix 2 v), Normal)
   | String s \<Rightarrow> (extend_string s num_bits @ s, kind_for_binary_representation s))"

definition grouping_binary_translate :: "nat \<Rightarrow> variable_value \<Rightarrow> string \<times> value_kind" where
  "grouping_binary_translate num_bits value =
     (let (val, color) = (case value of
          BigUint v \<Rightarrow> (zero_pad num_bits (show_radix 2 v), Normal)
        | String s \<Rightarrow> (extend_string s num_bits @ s, kind_for_binary_representation s))
      in (join '' '' (group_n_chars val 4), color))"

subsection \<open>Characters and LEB128\<close>

definition hex_range :: "'f floats \<Rightarrow> nat \<Rightarrow> 'f numeric_range option" where
  "hex_range fl num_bits = integer_numeric_range fl num_bits False"

definition octal_range :: "'f floats \<Rightarrow> nat \<Rightarrow> 'f numeric_range option" where
  "octal_range fl num_bits = integer_numeric_range fl num_bits False"

definition grouping_binary_range :: "'f floats \<Rightarrow> nat \<Rightarrow> 'f numeric_range option" where
  "grouping_binary_range fl num_bits = integer_numeric_range fl num_bits False"

definition binary_range :: "'f floats \<Rightarrow> nat \<Rightarrow> 'f numeric_range option" where
  "binary_range fl num_bits = integer_numeric_range fl num_bits False"

text \<open>\<^verbatim>\<open>u8 as char\<close> in UTF-8.\<close>

definition latin1 :: "nat \<Rightarrow> string" where
  "latin1 b = (if b < 128 then [char_of b] else [char_of (192 + b div 64), char_of (128 + b mod 64)])"

text \<open>\<^verbatim>\<open>BigUint::to_bytes_be\<close>: the digits of base 256, one zero for zero.\<close>

definition to_bytes_be :: "nat \<Rightarrow> nat list" where
  "to_bytes_be v = digits_of 256 v"

fun ascii_groups :: "string list \<Rightarrow> ('e, string) outcome" where
  "ascii_groups [] = Ok ''''"
| "ascii_groups (g # gs) = (case parse_unsigned 8 2 g of
     Some b \<Rightarrow> and_then (ascii_groups gs) (\<lambda>t. Ok (latin1 b @ t)) | None \<Rightarrow> Panic)"

definition ascii_translate :: "nat \<Rightarrow> variable_value \<Rightarrow> ('e, string \<times> value_kind) outcome" where
  "ascii_translate num_bits value = (case value of
     BigUint v \<Rightarrow> Ok (concat (map latin1 (to_bytes_be v)), Normal)
   | String s \<Rightarrow> (case check_vector_variable s of
       Some v \<Rightarrow> Ok v
     | None \<Rightarrow> and_then (ascii_groups (group_n_chars s 8)) (\<lambda>t. Ok (t, Normal))))"

fun leb_fold :: "nat \<Rightarrow> nat list \<Rightarrow> string + nat" where
  "leb_fold result [] = Inr result"
| "leb_fold result (b # bs) =
     (if (b AND 0x80 = 0) = (result = 0) then leb_fold (result * 2 ^ 7 + (b AND 0x7f)) bs else Inl ''invalid flag'')"

definition decode_lebxxx :: "nat \<Rightarrow> string + nat" where
  "decode_lebxxx value =
     (let bytes = to_bytes_be value in
      if bytes \<noteq> [] \<and> hd bytes AND 0x80 \<noteq> 0 then Inl ''invalid MSB''
      else leb_fold (case bytes of b # _ \<Rightarrow> b | [] \<Rightarrow> 0) (drop 1 bytes))"

definition leb_translate :: "big_parser \<Rightarrow> nat \<Rightarrow> variable_value \<Rightarrow> string \<times> value_kind" where
  "leb_translate pb num_bits value =
     (let show_decoded = (\<lambda>v. case decode_lebxxx v of
          Inr decoded \<Rightarrow> (show_radix 10 decoded, Normal)
        | Inl s \<Rightarrow> (s @ '': '' @ fst (grouping_binary_translate num_bits value), Warn))
      in case value of
        BigUint v \<Rightarrow> show_decoded v
      | String s \<Rightarrow> (case check_vector_variable s of
          Some v \<Rightarrow> v
        | None \<Rightarrow> (case pb s 2 of Some v \<Rightarrow> show_decoded v | None \<Rightarrow> (''INVALID'', Warn))))"

definition leb_translates :: "('v, 's) variable_meta \<Rightarrow> translation_preference" where
  "leb_translates m = check_wordlength (vm_num_bits m) (\<lambda>n. n mod 8 = 0 \<and> 0 < n)"

subsection \<open>Counting bits\<close>

text \<open>\<^verbatim>\<open>BigUint\<close>'s counters: ones, trailing ones and zeros, and the bits up to the highest one.\<close>

definition count_ones :: "nat \<Rightarrow> nat" where
  "count_ones v = sum_list (digits_of 2 v)"

definition trailing_ones :: "nat \<Rightarrow> nat" where
  "trailing_ones v = length (takeWhile (\<lambda>d. d = 1) (rev (digits_of 2 v)))"

definition trailing_zeros :: "nat \<Rightarrow> nat option" where
  "trailing_zeros v = (if v = 0 then None else Some (length (takeWhile (\<lambda>d. d = 0) (rev (digits_of 2 v)))))"

definition bits :: "nat \<Rightarrow> nat" where
  "bits v = (if v = 0 then 0 else length (digits_of 2 v))"

definition leading_ones :: "nat \<Rightarrow> nat \<Rightarrow> nat" where
  "leading_ones v num_bits =
     (if bits v < num_bits then 0
      else let mask = 2 ^ num_bits - 1 in num_bits - bits (mask XOR v))"

definition leading :: "char \<Rightarrow> string \<Rightarrow> nat" where
  "leading c s = length (takeWhile (\<lambda>b. b = c) s)"

definition number_of_ones_translate :: "nat \<Rightarrow> variable_value \<Rightarrow> string \<times> value_kind" where
  "number_of_ones_translate num_bits value = (case value of
     BigUint v \<Rightarrow> (show_nat (count_ones v), Normal)
   | String s \<Rightarrow> (show_nat (length (filter (\<lambda>b. b = CHR ''1'') s)), kind_for_binary_representation s))"

definition number_of_ones_numeric :: "big_parser \<Rightarrow> (nat \<Rightarrow> 'f) \<Rightarrow> nat \<Rightarrow> variable_value \<Rightarrow> 'f numeric option" where
  "number_of_ones_numeric pb to_f64 num_bits value = Some (parse_value_to_numeric pb value (\<lambda>v. to_f64 (count_ones v)))"

definition trailing_ones_translate :: "nat \<Rightarrow> variable_value \<Rightarrow> string \<times> value_kind" where
  "trailing_ones_translate num_bits value = (case value of
     BigUint v \<Rightarrow> (show_nat (trailing_ones v), Normal)
   | String s \<Rightarrow> (show_nat (leading (CHR ''1'') (rev s)), kind_for_binary_representation s))"

definition trailing_ones_numeric :: "big_parser \<Rightarrow> (nat \<Rightarrow> 'f) \<Rightarrow> nat \<Rightarrow> variable_value \<Rightarrow> 'f numeric option" where
  "trailing_ones_numeric pb to_f64 num_bits value = Some (parse_value_to_numeric pb value (\<lambda>v. to_f64 (trailing_ones v)))"

definition trailing_zeros_translate :: "nat \<Rightarrow> variable_value \<Rightarrow> string \<times> value_kind" where
  "trailing_zeros_translate num_bits value = (case value of
     BigUint v \<Rightarrow> (show_nat (case trailing_zeros v of Some n \<Rightarrow> n | None \<Rightarrow> num_bits), Normal)
   | String s \<Rightarrow> (show_nat (leading (CHR ''0'') (rev (extend_string s num_bits @ s))), kind_for_binary_representation s))"

definition trailing_zeros_numeric :: "big_parser \<Rightarrow> (nat \<Rightarrow> 'f) \<Rightarrow> nat \<Rightarrow> variable_value \<Rightarrow> 'f numeric option" where
  "trailing_zeros_numeric pb to_f64 num_bits value =
     Some (parse_value_to_numeric pb value (\<lambda>v. to_f64 (case trailing_zeros v of Some n \<Rightarrow> n | None \<Rightarrow> num_bits)))"

text \<open>A number is translated as its binary digits, padded to the number of bits.\<close>

definition leading_ones_translate :: "nat \<Rightarrow> variable_value \<Rightarrow> string \<times> value_kind" where
  "leading_ones_translate num_bits value =
     (let s = (case value of BigUint v \<Rightarrow> zero_pad num_bits (show_radix 2 v) | String s \<Rightarrow> s)
      in (if length s = num_bits then show_nat (leading (CHR ''1'') s) else ''0'', kind_for_binary_representation s))"

definition leading_ones_numeric :: "big_parser \<Rightarrow> (nat \<Rightarrow> 'f) \<Rightarrow> nat \<Rightarrow> variable_value \<Rightarrow> 'f numeric option" where
  "leading_ones_numeric pb to_f64 num_bits value =
     Some (parse_value_to_numeric pb value (\<lambda>v. to_f64 (leading_ones v num_bits)))"

definition leading_zeros_translate :: "nat \<Rightarrow> variable_value \<Rightarrow> string \<times> value_kind" where
  "leading_zeros_translate num_bits value =
     (let s = (case value of BigUint v \<Rightarrow> zero_pad num_bits (show_radix 2 v) | String s \<Rightarrow> s)
      in (show_nat (leading (CHR ''0'') (extend_string s num_bits @ s)), kind_for_binary_representation s))"

definition leading_zeros_numeric :: "big_parser \<Rightarrow> (nat \<Rightarrow> 'f) \<Rightarrow> nat \<Rightarrow> variable_value \<Rightarrow> 'f numeric option" where
  "leading_zeros_numeric pb to_f64 num_bits value =
     Some (parse_value_to_numeric pb value (\<lambda>v. to_f64 (num_bits - bits v)))"

definition identical_msbs_translate :: "nat \<Rightarrow> variable_value \<Rightarrow> string \<times> value_kind" where
  "identical_msbs_translate num_bits value =
     (let s = (case value of BigUint v \<Rightarrow> zero_pad num_bits (show_radix 2 v) | String s \<Rightarrow> s);
          extended = extend_string s num_bits @ s
      in (show_nat (max (leading (CHR ''1'') extended) (leading (CHR ''0'') extended)), kind_for_binary_representation s))"

definition identical_msbs_numeric :: "big_parser \<Rightarrow> (nat \<Rightarrow> 'f) \<Rightarrow> nat \<Rightarrow> variable_value \<Rightarrow> 'f numeric option" where
  "identical_msbs_numeric pb to_f64 num_bits value =
     Some (parse_value_to_numeric pb value (\<lambda>v. to_f64 (max (num_bits - bits v) (leading_ones v num_bits))))"

subsection \<open>Bit strings and radixes\<close>

lemma value_of_inj:
  assumes "length xs = length ys" "\<forall>d \<in> set xs. d < r" "\<forall>d \<in> set ys. d < r" "value_of r xs = value_of r ys"
  shows "xs = ys"
  using assms
proof (induction xs ys rule: list_induct2)
  case (Cons x xs y ys)
  have v: "x * r ^ length xs + value_of r xs = y * r ^ length xs + value_of r ys"
    using Cons.prems(3) Cons.hyps by (simp add: value_of_Cons)
  have less: "value_of r xs < r ^ length xs" "value_of r ys < r ^ length xs"
    using value_of_bound[of xs r] value_of_bound[of ys r] Cons.prems(1,2) Cons.hyps by simp_all
  define p where "p = r ^ length xs"
  have p: "x * p + value_of r xs = y * p + value_of r ys" "value_of r xs < p" "value_of r ys < p"
    using v less by (simp_all add: p_def)
  from arg_cong[OF p(1), of "\<lambda>z. z div p"] p(2,3) have "x = y" by simp
  moreover from arg_cong[OF p(1), of "\<lambda>z. z mod p"] p(2,3) have "value_of r xs = value_of r ys" by simp
  ultimately show ?case using Cons by simp
qed simp

lemma padded_digits:
  assumes "2 \<le> r" "r \<le> 36" "\<forall>d \<in> set ds. d < r" "ds \<noteq> []"
  shows "zero_pad (length ds) (show_radix r (value_of r ds)) = map digit_char ds"
proof -
  let ?v = "value_of r ds" let ?z = "replicate (length ds - length (digits_of r ?v)) 0 @ digits_of r ?v"
  have "length (digits_of r ?v) \<le> length ds"
    using digits_of_length[OF assms(1), of "length ds"] value_of_bound[OF assms(3)] assms(4) by simp
  moreover have "\<forall>d \<in> set ?z. d < r" using digits_of_less[OF assms(1)] assms(1) by auto
  ultimately have "?z = ds" using assms(1,3) by (intro value_of_inj[of _ _ r]) (simp_all add: value_of_digits)
  then have "map digit_char ds = map digit_char ?z" by simp
  then show ?thesis by (simp add: zero_pad_def show_radix_def)
qed

lemma digit_char_plain: "d < 16 \<Longrightarrow> digit_char d \<notin> {CHR ''x'', CHR ''z'', CHR ''-'', CHR ''u'', CHR ''w'', CHR ''h'', CHR ''l''}"
proof -
  assume "d < 16"
  then have "d \<in> set [0..<16]" by simp
  moreover have "\<forall>d \<in> set [0..<16]. digit_char d \<notin> {CHR ''x'', CHR ''z'', CHR ''-'', CHR ''u'', CHR ''w'', CHR ''h'', CHR ''l''}"
    by code_simp
  ultimately show ?thesis by blast
qed

lemma kind_digits: "\<forall>d \<in> set ds. d < 16 \<Longrightarrow> kind_for_binary_representation (map digit_char ds) = Normal"
  using digit_char_plain by (fastforce simp: kind_for_binary_representation_def contains_char_def)

lemma chunks_bits:
  assumes "0 < k" "k dvd length s"
  shows "value_of (2 ^ k) (map bits_val (chunks_of k s)) = bits_val s \<and> length (chunks_of k s) = length s div k \<and>
    (\<forall>g \<in> set (chunks_of k s). length g = k) \<and> concat (chunks_of k s) = s"
  using assms
proof (induction k s rule: chunks_of.induct)
  case (1 k s)
  show ?case
  proof (cases "s = []")
    case False
    then have le: "k \<le> length s" using "1.prems" by (simp add: dvd_imp_le)
    have dv: "k dvd length (drop k s)" using "1.prems" by simp
    have "\<not> (s = [] \<or> k = 0)" using False "1.prems" by simp
    from "1.IH"[OF this "1.prems"(1) dv] have ih: "value_of (2 ^ k) (map bits_val (chunks_of k (drop k s))) = bits_val (drop k s)"
      "length (chunks_of k (drop k s)) = length (drop k s) div k" "\<forall>g \<in> set (chunks_of k (drop k s)). length g = k"
      "concat (chunks_of k (drop k s)) = drop k s" by blast+
    have step: "chunks_of k s = take k s # chunks_of k (drop k s)" using False "1.prems" by (simp add: chunks_of.simps[of k s])
    have pw: "(2 ^ k) ^ ((length s - k) div k) = (2 :: nat) ^ (length s - k)"
      using "1.prems" by (simp add: power_mult[symmetric])
    have sp: "bits_val s = bits_val (take k s) * 2 ^ (length s - k) + bits_val (drop k s)"
      using bits_val_append[of "take k s" "drop k s"] by simp
    have "value_of (2 ^ k) (map bits_val (chunks_of k s)) = bits_val s"
      unfolding step list.map value_of_Cons length_map ih(1,2) length_drop pw sp ..
    moreover have "length (chunks_of k s) = length s div k"
      unfolding step list.size ih(2) length_drop using le "1.prems" by (simp add: le_div_geq)
    moreover have "\<forall>g \<in> set (chunks_of k s). length g = k" 
    proof -
      have "length (take k s) = k" using le by simp
      then show ?thesis unfolding step using ih(3) by (metis set_ConsD)
    qed
    moreover have "concat (chunks_of k s) = s" unfolding step concat.simps ih(4) by (rule append_take_drop_id)
    ultimately show ?thesis by blast
  qed (use "1.prems" in \<open>simp add: chunks_of.simps[of k] bits_val_def bits_of_def\<close>)
qed

lemma group_bits:
  assumes "0 < k" "s \<noteq> []"
  shows "value_of (2 ^ k) (map bits_val (group_n_chars s k)) = bits_val s" "length (group_n_chars s k) = ceil_div (length s) k"
    and "g \<in> set (group_n_chars s k) \<Longrightarrow> 0 < length g \<and> length g \<le> k \<and> set g \<subseteq> set s"
proof -
  let ?m = "length s mod k" and ?d = "drop (length s mod k) s"
  have "k dvd length ?d" by (simp add: dvd_minus_mod)
  note ch = chunks_bits[OF assms(1) this]
  have le: "?m \<le> length s" by simp
  have len: "length ?d div k = length s div k" using minus_mod_eq_mult_div[of "length s" k] assms(1) by simp
  have pw: "(2 ^ k) ^ (length ?d div k) = (2 :: nat) ^ length ?d"
    using \<open>k dvd length ?d\<close> by (simp only: power_mult[symmetric] dvd_mult_div_cancel)
  have split: "bits_val s = bits_val (take ?m s) * 2 ^ length ?d + bits_val ?d"
    using bits_val_append[of "take ?m s" ?d] by simp
  define pre where "pre = (if 0 < ?m then [take ?m s] else [])"
  have g: "group_n_chars s k = pre @ chunks_of k ?d" by (simp add: group_n_chars_def pre_def Let_def)
  have "bits_val [] = 0" by (simp add: bits_val_def bits_of_def)
  then have v: "value_of (2 ^ k) (map bits_val pre) = bits_val (take ?m s)" by (simp add: pre_def)
  have l: "length (chunks_of k ?d) = length ?d div k" "value_of (2 ^ k) (map bits_val (chunks_of k ?d)) = bits_val ?d" using ch by blast+
  show "value_of (2 ^ k) (map bits_val (group_n_chars s k)) = bits_val s"
    unfolding g map_append value_of_append length_map v l pw split ..
  have dc: "ceil_div n k = n div k + of_bool (0 < n mod k)" for n
  proof -
    have e: "n + k - 1 = (n mod k + k - 1) + n div k * k" using assms(1) by (simp add: mod_div_mult_eq)
    have "(n mod k + k - 1) div k = of_bool (0 < n mod k)"
      using assms(1) mod_less_divisor[OF assms(1), of n] by (cases "n mod k") (simp_all add: div_nat_eqI)
    then show ?thesis unfolding ceil_div_def by (subst e, subst div_mult_self1) (use assms(1) in simp_all)
  qed
  show "length (group_n_chars s k) = ceil_div (length s) k"
    unfolding dc g length_append l len by (simp add: pre_def)
  show "g \<in> set (group_n_chars s k) \<Longrightarrow> 0 < length g \<and> length g \<le> k \<and> set g \<subseteq> set s"
  proof -
    assume "g \<in> set (group_n_chars s k)"
    then consider "0 < ?m" "g = take ?m s" | "g \<in> set (chunks_of k ?d)"
      unfolding g by (auto simp: pre_def split: if_splits)
    then show ?thesis
    proof cases
      case 1
      then show ?thesis using assms set_take_subset[of ?m s] by (auto intro: less_imp_le)
    next
      case 2
      have "\<forall>g \<in> set (chunks_of k ?d). length g = k" "concat (chunks_of k ?d) = ?d" using ch by blast+
      with 2 have "length g = k" "set g \<subseteq> set ?d" using UN_upper[of g "set (chunks_of k ?d)" set] by (blast, metis set_concat)
      with assms(1) set_drop_subset[of ?m s] show ?thesis by simp
    qed
  qed
qed

lemma show_hex_digit: "d < 16 \<Longrightarrow> show_radix 16 d = [digit_char d]"
  by (simp add: show_radix_def digits_of.simps[of 16 d])

lemma bits_head: "is_bits (c # s) \<Longrightarrow> c \<noteq> CHR ''+''"
  by auto

lemma radix_group_bits:
  assumes "is_bits g" "g \<noteq> []" "length g \<le> 4"
  shows "radix_group g = Some [digit_char (bits_val g)]"
proof -
  have "\<forall>c \<in> set g. c = CHR ''0'' \<or> c = CHR ''1''" using assms(1) by (auto simp: is_bits_def list_all_iff)
  then have plain: "c \<notin> {CHR ''0'', CHR ''1''} \<Longrightarrow> \<not> contains_char c g" for c by (auto simp: contains_char_def)
  obtain c cs where c: "g = c # cs" using assms(2) by (cases g) auto
  have less: "bits_val g < 16" using bits_val_less[of g] power_increasing[of "length g" 4 "2 :: nat"] assms(3) by simp
  have "parse_digits 2 g = Some (bits_val g)"
    using assms(2) by (simp add: parse_digits_def digit_vals_bits[OF assms(1)] bits_val_def)
  moreover have "(case g of c # cs \<Rightarrow> if c = CHR ''+'' then cs else g | [] \<Rightarrow> []) = g" using assms(1) c by auto
  ultimately have "parse_unsigned 8 2 g = Some (bits_val g)" using less unfolding parse_unsigned_def Let_def by simp
  then show ?thesis by (simp add: radix_group_def plain show_hex_digit[OF less])
qed

lemma map_to_radix_bits:
  assumes "is_bits s" "s \<noteq> []" "length s \<le> n" "0 < k" "k \<le> 4" "2 ^ k \<le> (36 :: nat)"
  shows "map_to_radix s k n = (zero_pad (ceil_div n k) (show_radix (2 ^ k) (bits_val s)), Normal)"
proof -
  define t where "t = extend_string s n @ s"
  define gs where "gs = group_n_chars t k"
  have t: "is_bits t" "t \<noteq> []" "length t = n" "bits_val t = bits_val s"
    using assms(1-3) by (simp_all add: t_def extend_bits) (simp add: is_bits_def list_all_iff)
  note g = group_bits[OF assms(4) t(2), folded gs_def]
  have gb: "is_bits g" "g \<noteq> []" "length g \<le> k" if "g \<in> set gs" for g
    using g(3)[OF that] t(1) by (auto simp: is_bits_def list_all_iff)
  have ds: "\<forall>d \<in> set (map bits_val gs). d < 2 ^ k"
    using gb(3) bits_val_less power_increasing[of _ k "2 :: nat"] by (fastforce intro: less_le_trans)
  have k16: "2 ^ k \<le> (16 :: nat)" using power_increasing[of k 4 "2 :: nat"] assms(5) by simp
  have "gs \<noteq> []" using t(2) assms(4) by (auto simp: gs_def group_n_chars_def Let_def chunks_of.simps split: if_splits)
  have "map radix_group gs = map (\<lambda>g. Some [digit_char (bits_val g)]) gs"
    using gb assms(5) by (intro map_cong) (auto intro!: radix_group_bits dest: gb(3))
  then have "concat (map (\<lambda>g. case g of Some t \<Rightarrow> t | None \<Rightarrow> ''?'') (map radix_group gs)) = map digit_char (map bits_val gs)"
    "None \<notin> set (map radix_group gs)" by (simp_all only:) (auto simp: comp_def)
  moreover have "map digit_char (map bits_val gs) = zero_pad (ceil_div n k) (show_radix (2 ^ k) (bits_val s))"
    using padded_digits[OF _ assms(6) ds] \<open>gs \<noteq> []\<close> assms(4) g(1,2) t(3,4) by (simp add: self_le_power)
  moreover have "kind_for_binary_representation (map digit_char (map bits_val gs)) = Normal"
    using ds k16 by (intro kind_digits) (auto intro: less_le_trans)
  ultimately show ?thesis unfolding map_to_radix_def Let_def t_def[symmetric] gs_def[symmetric] by (simp del: map_map)
qed

lemma binary_digits: "is_bits s \<Longrightarrow> s \<noteq> [] \<Longrightarrow> zero_pad (length s) (show_radix 2 (bits_val s)) = s"
proof -
  assume s: "is_bits s" "s \<noteq> []"
  have "\<forall>d \<in> set (bits_of s). d < 2" by (auto simp: bits_of_def)
  from padded_digits[OF _ _ this] s(2) have "zero_pad (length s) (show_radix 2 (bits_val s)) = map digit_char (bits_of s)"
    by (simp add: bits_val_def) (simp add: bits_of_def)
  also have "\<dots> = s" using s(1) by (induction s) (auto simp: bits_of_def)
  finally show ?thesis .
qed

lemma kind_bits: "is_bits s \<Longrightarrow> kind_for_binary_representation s = Normal"
proof -
  assume "is_bits s"
  then have "\<forall>c \<in> set s. c = CHR ''0'' \<or> c = CHR ''1''" by (auto simp: is_bits_def list_all_iff)
  then have "c \<notin> {CHR ''0'', CHR ''1''} \<Longrightarrow> \<not> contains_char c s" for c by (auto simp: contains_char_def)
  then show ?thesis by (simp add: kind_for_binary_representation_def)
qed

lemma binary_agrees:
  assumes "is_bits s" "s \<noteq> []" "length s \<le> n"
  shows "zero_pad n (show_radix 2 (bits_val s)) = extend_string s n @ s"
proof -
  let ?t = "extend_string s n @ s"
  have "is_bits ?t" "?t \<noteq> []" "length ?t = n" using assms by (simp_all add: extend_bits) (simp add: is_bits_def list_all_iff)
  with binary_digits[of ?t] extend_bits_val[OF assms(1,2), of n] show ?thesis by simp
qed

subsection \<open>Counters\<close>

lemma bits_le: "bits x \<le> k \<longleftrightarrow> x < 2 ^ k"
  using digits_of_length[of 2 k x] by (cases "k = 0") (auto simp: bits_def)

lemma leading_zeros_bits: "is_bits s \<Longrightarrow> length s - bits (bits_val s) = leading (CHR ''0'') s"
proof (induction s)
  case (Cons c s)
  have b: "bits (bits_val s) \<le> length s" by (simp add: bits_le bits_val_less)
  show ?case
  proof (cases "c = CHR ''0''")
    case True
    with Cons b show ?thesis by (simp add: bits_val_Cons leading_def Suc_diff_le)
  next
    case False
    with Cons have c: "c = CHR ''1''" by simp
    have "\<not> bits (bits_val (c # s)) \<le> length s" unfolding bits_le by (simp add: bits_val_Cons c)
    with c show ?thesis by (simp add: leading_def)
  qed
qed (simp add: leading_def)

definition flip :: "char \<Rightarrow> char" where
  "flip c = (if c = CHR ''1'' then CHR ''0'' else CHR ''1'')"

lemma flip_bit [simp]: "flip (CHR ''1'') = CHR ''0''" "flip (CHR ''0'') = CHR ''1''"
  by (simp_all add: flip_def)

lemma flip_bits: "is_bits (map flip s)" "is_bits s \<Longrightarrow> leading (CHR ''0'') (map flip s) = leading (CHR ''1'') s"
    "is_bits s \<Longrightarrow> bits_val (map flip s) + bits_val s = 2 ^ length s - 1"
proof -
  show "is_bits (map flip s)" by (induction s) (simp_all add: flip_def)
  show "is_bits s \<Longrightarrow> leading (CHR ''0'') (map flip s) = leading (CHR ''1'') s"
    by (induction s) (auto simp: flip_def leading_def)
  show "is_bits s \<Longrightarrow> bits_val (map flip s) + bits_val s = 2 ^ length s - 1"
  proof (induction s)
    case (Cons c s)
    then have ih: "bits_val (map flip s) + bits_val s = 2 ^ length s - 1" by simp
    have "(1 :: nat) \<le> 2 ^ length s" by simp
    with ih Cons.prems show ?case by (auto simp: bits_val_Cons flip_bit)
  qed (simp add: bits_val_def bits_of_def)
qed

lemma mask_xor: "v < 2 ^ n \<Longrightarrow> (2 ^ n - 1) XOR v = 2 ^ n - 1 - (v :: nat)"
proof -
  assume v: "v < 2 ^ n"
  let ?m = "(2 ^ n - 1 :: nat)"
  have m: "?m = mask n" by (simp add: mask_eq_exp_minus_1)
  have "take_bit n v = v" using v by (rule take_bit_nat_eq_self)
  then have low: "bit v i \<Longrightarrow> i < n" for i using bit_take_bit_iff[of n v i] by simp
  have "v AND (?m XOR v) = 0" unfolding m by (rule bit_eqI) (auto simp: bit_simps dest: low)
  moreover have "v OR (?m XOR v) = ?m" unfolding m by (rule bit_eqI) (auto simp: bit_simps dest: low)
  ultimately have "v + (?m XOR v) = ?m" using disjunctive_add_eq_or[of v "?m XOR v"] by simp
  then show ?thesis by linarith
qed

lemma leading_ones_bits:
  assumes "is_bits s"
  shows "leading_ones (bits_val s) (length s) = leading (CHR ''1'') s"
proof -
  have f: "length s - bits (bits_val (map flip s)) = leading (CHR ''1'') s"
    using leading_zeros_bits[OF flip_bits(1)[of s]] flip_bits(2)[OF assms] by simp
  have e: "2 ^ length s - 1 - bits_val s = bits_val (map flip s)" using flip_bits(3)[OF assms] by linarith
  show ?thesis
  proof (cases "bits (bits_val s) < length s")
    case True
    then have "s \<noteq> []" "bits_val s < 2 ^ (length s - 1)" by (auto simp: bits_le[symmetric])
    then obtain c cs where s: "s = c # cs" and v: "bits_val s < 2 ^ length cs" by (cases s) auto
    then have "c \<noteq> CHR ''1''" by (auto simp: bits_val_Cons)
    with True s show ?thesis by (simp add: leading_ones_def leading_def)
  next
    case False
    then show ?thesis using f e mask_xor[OF bits_val_less[of s]] by (simp add: leading_ones_def Let_def)
  qed
qed

text \<open>
  The two forms of a value. The waveform library gives a value as a number or as its bits; as long as
  the bits are all 0 and 1 and fit the width, hexadecimal, octal, binary and grouped binary give the same
  text and the same kind for both forms.
\<close>

theorem radix_forms_agree:
  assumes "is_bits s" "s \<noteq> []" "length s \<le> n"
  shows "hex_translate n (String s) = hex_translate n (BigUint (bits_val s)) \<and>
    octal_translate n (String s) = octal_translate n (BigUint (bits_val s)) \<and>
    binary_translate n (String s) = binary_translate n (BigUint (bits_val s)) \<and>
    grouping_binary_translate n (String s) = grouping_binary_translate n (BigUint (bits_val s))"
  using map_to_radix_bits[OF assms, of 4] map_to_radix_bits[OF assms, of 3] binary_agrees[OF assms] kind_bits[OF assms(1)]
  by (simp add: hex_translate_def octal_translate_def binary_translate_def grouping_binary_translate_def)

lemma radix_forms_agree_witness: "hex_translate 9 (String ''10110'') = (''016'', Normal)"
proof -
  have "is_bits ''10110''" by simp
  from radix_forms_agree[OF this, of 9] have "hex_translate 9 (String ''10110'') = hex_translate 9 (BigUint (bits_val ''10110''))" by simp
  also have "\<dots> = (''016'', Normal)" by code_simp
  finally show ?thesis .
qed

text \<open>
  Analog values of the bit counters. The number that the analog trace of a leading-ones, leading-zeros
  or identical-MSBs row draws for a value, computed with arithmetic on the number, is the one the row's text
  shows, which counts characters.
\<close>

theorem counters_agree:
  assumes "v < 2 ^ n" "0 < n"
  shows "\<exists>ones zeros. leading_ones_translate n (BigUint v) = (show_nat ones, Normal) \<and>
    leading_ones_numeric pb to_f64 n (BigUint v) = Some (Num (to_f64 ones)) \<and>
    leading_zeros_translate n (BigUint v) = (show_nat zeros, Normal) \<and>
    leading_zeros_numeric pb to_f64 n (BigUint v) = Some (Num (to_f64 zeros)) \<and>
    identical_msbs_translate n (BigUint v) = (show_nat (max ones zeros), Normal) \<and>
    identical_msbs_numeric pb to_f64 n (BigUint v) = Some (Num (to_f64 (max ones zeros)))"
proof -
  define s where "s = zero_pad n (show_radix 2 v)"
  have l: "length (digits_of 2 v) \<le> n" using digits_of_length[of 2 n v] assms by simp
  have s: "is_bits s" "length s = n" "bits_val s = v" "extend_string s n = []"
    using l show_binary_bits[of v] bits_val_show[of n v] 
    by (simp_all add: s_def extend_string_def) (simp add: zero_pad_def is_bits_append, simp add: is_bits_def list_all_iff)
  note counts = leading_ones_bits[OF s(1), unfolded s(2,3)] leading_zeros_bits[OF s(1), unfolded s(2,3)]
  show ?thesis
    by (rule exI[of _ "leading (CHR ''1'') s"], rule exI[of _ "leading (CHR ''0'') s"])
      (simp add: leading_ones_translate_def leading_ones_numeric_def leading_zeros_translate_def leading_zeros_numeric_def
        identical_msbs_translate_def identical_msbs_numeric_def parse_value_to_numeric_def parse_biguint_def
        s_def[symmetric] s(2,4) kind_bits[OF s(1)] counts max.commute)
qed

lemma counters_agree_witness: "leading_ones_numeric plain_parser int 8 (BigUint 0xE5) = Some (Num 3)"
proof -
  from counters_agree[of "0xE5" 8 plain_parser "int :: nat \<Rightarrow> int"] obtain k where
    k: "leading_ones_translate 8 (BigUint 0xE5) = (show_nat k, Normal)" "leading_ones_numeric plain_parser int 8 (BigUint 0xE5) = Some (Num (int k))"
    by auto
  have "leading_ones_translate 8 (BigUint 0xE5) = (show_nat 3, Normal)" by code_simp
  with k(1) have "parse_digits 10 (zero_pad 0 (show_nat k)) = parse_digits 10 (zero_pad 0 (show_nat 3))" by simp
  then have "k = 3" by simp
  with k(2) show ?thesis by simp
qed

subsection \<open>LEB128\<close>

text \<open>The encoding of a number: base 128, least significant byte first in memory, all but the last byte with
  the continuation bit; a waveform value has the last byte on top.\<close>

definition leb_bytes :: "nat \<Rightarrow> nat list" where
  "leb_bytes n = (case digits_of 128 n of [] \<Rightarrow> [] | d # ds \<Rightarrow> d # map (\<lambda>d. d + 128) ds)"

definition leb_value :: "nat \<Rightarrow> nat" where
  "leb_value n = value_of 256 (leb_bytes n)"

lemma digits_head: "2 \<le> r \<Longrightarrow> 0 < n \<Longrightarrow> hd (digits_of r n) \<noteq> 0"
proof (induction r n rule: digits_of.induct)
  case (1 r n)
  show ?case
  proof (cases "n < r")
    case False
    then have "hd (digits_of r (n div r)) \<noteq> 0" using 1 by (simp add: div_greater_zero_iff)
    then show ?thesis using False "1.prems" by (subst digits_of.simps) (simp add: hd_append)
  qed (use "1.prems" in \<open>simp add: digits_of.simps[of r n]\<close>)
qed

lemma digits_of_value:
  assumes "2 \<le> r" "\<forall>d \<in> set ds. d < r" "ds = [d] \<or> ds = e # es \<and> e \<noteq> 0"
  shows "digits_of r (value_of r ds) = ds"
proof -
  let ?v = "value_of r ds"
  have ne: "ds \<noteq> []" using assms(3) by auto
  have le: "length (digits_of r ?v) \<le> length ds"
    using digits_of_length[OF assms(1), of "length ds"] value_of_bound[OF assms(2)] ne by simp
  have "length ds \<le> length (digits_of r ?v)"
  proof (cases "length ds \<le> 1")
    case True
    then show ?thesis by (cases "digits_of r ?v") (use digits_of_nonempty[of r ?v] in auto)
  next
    case False
    then have e: "ds = e # es" "e \<noteq> 0" using assms(3) by auto
    then have "r ^ length es \<le> ?v" by (simp add: value_of_Cons trans_le_add1)
    then have "\<not> length (digits_of r ?v) \<le> length es"
      using digits_of_length[OF assms(1), of "length es" ?v] False e(1) by simp
    then show ?thesis using e(1) by simp
  qed
  with le have "length (digits_of r ?v) = length ds" by simp
  then show ?thesis
    using assms(1,2) digits_of_less[OF assms(1)] by (intro value_of_inj[of _ _ r]) (simp_all add: value_of_digits)
qed

lemma leb_byte:
  fixes d :: nat
  assumes "d < 128"
  shows "d AND 0x80 = 0" "(d + 128) AND 0x80 \<noteq> 0" "(d + 128) AND 0x7f = d"
proof -
  have b: "(x AND 0x80 \<noteq> 0) = bit x 7" for x :: nat
    using bit_iff_and_push_bit_not_eq_0[of x 7] by (simp add: push_bit_eq_mult)
  have m: "x AND 0x7f = x mod 128" for x :: nat
    using take_bit_eq_mask[of 7 x] by (simp add: mask_eq_exp_minus_1 take_bit_eq_mod)
  have "(d + 128) div 128 = 1" using assms by (simp add: div_add_self2)
  then have "\<not> bit d 7" "bit (d + 128) 7" using assms by (simp_all add: bit_iff_odd)
  with b show "d AND 0x80 = 0" "(d + 128) AND 0x80 \<noteq> 0" by blast+
  show "(d + 128) AND 0x7f = d" using assms by (simp add: m)
qed

lemma leb_fold_groups:
  "r \<noteq> 0 \<Longrightarrow> \<forall>d \<in> set ds. d < 128 \<Longrightarrow> leb_fold r (map (\<lambda>d. d + 128) ds) = Inr (r * 128 ^ length ds + value_of 128 ds)"
proof (induction ds arbitrary: r)
  case (Cons d ds)
  note b = leb_byte[of d]
  have "leb_fold r (map (\<lambda>d. d + 128) (d # ds)) = leb_fold (r * 128 + d) (map (\<lambda>d. d + 128) ds)"
    using Cons.prems b by (simp del: One_nat_def)
  also have "\<dots> = Inr ((r * 128 + d) * 128 ^ length ds + value_of 128 ds)" using Cons by simp
  finally show ?case by (simp add: value_of_Cons algebra_simps)
qed simp

text \<open>
  LEB128. The value whose bytes are the LEB128 encoding of a number, in the order in which the
  waveform holds them, is shown as that number, whatever the number of bytes.
\<close>

theorem leb_decodes: "leb_translate pb num_bits (BigUint (leb_value n)) = (show_nat n, Normal)"
proof -
  obtain d ds where dg: "digits_of 128 n = d # ds" by (cases "digits_of 128 n") (use digits_of_nonempty[of 128 n] in auto)
  then have less: "d < 128" "\<forall>d \<in> set ds. d < 128" using digits_of_less[of 128 _ n] by auto
  have n: "n = d * 128 ^ length ds + value_of 128 ds" using value_of_digits[of 128 n] dg by (simp add: value_of_Cons)
  have bytes: "leb_bytes n = d # map (\<lambda>d. d + 128) ds" by (simp add: leb_bytes_def dg)
  have d: "ds = [] \<or> d \<noteq> 0"
  proof (cases "n = 0")
    case True
    then show ?thesis using dg by (simp add: digits_of.simps[of 128 0])
  qed (use digits_head[of 128 n] dg in simp)
  then have "to_bytes_be (leb_value n) = d # map (\<lambda>d. d + 128) ds"
    unfolding to_bytes_be_def leb_value_def bytes using less
    by (intro digits_of_value[where d = d and e = d and es = "map (\<lambda>d. d + 128) ds"]) (auto simp: less_imp_le_nat)
  moreover have "leb_fold d (map (\<lambda>d. d + 128) ds) = Inr n"
    using leb_fold_groups[OF _ less(2)] d n by (cases "ds = []") simp_all
  ultimately have "decode_lebxxx (leb_value n) = Inr n" using leb_byte(1)[OF less(1)] by (simp add: decode_lebxxx_def)
  then show ?thesis by (simp add: leb_translate_def)
qed

lemma value_of_dropWhile: "value_of r (dropWhile (\<lambda>b. b = 0) ds) = value_of r ds"
  by (induction ds) (simp_all add: value_of_Cons)

lemma ascii_groups_bits:
  "\<forall>g \<in> set gs. is_bits g \<and> g \<noteq> [] \<and> length g \<le> 8 \<Longrightarrow> ascii_groups gs = Ok (concat (map (latin1 \<circ> bits_val) gs))"
proof (induction gs)
  case (Cons g gs)
  then have g: "is_bits g" "g \<noteq> []" "length g \<le> 8" by simp_all
  obtain c cs where c: "g = c # cs" using g(2) by (cases g) auto
  have less: "bits_val g < 2 ^ 8" using bits_val_less[of g] power_increasing[of "length g" 8 "2 :: nat"] g(3) by simp
  have "parse_digits 2 g = Some (bits_val g)"
    using g(2) by (simp add: parse_digits_def digit_vals_bits[OF g(1)] bits_val_def)
  moreover have "(case g of c # cs \<Rightarrow> if c = CHR ''+'' then cs else g | [] \<Rightarrow> []) = g" using g(1) c by auto
  ultimately have "parse_unsigned 8 2 g = Some (bits_val g)" using less unfolding parse_unsigned_def Let_def by simp
  with Cons show ?case by simp
qed simp

text \<open>
  ASCII is the exception. Of the two forms of a value that is a whole number of bytes, the bits are shown
  byte for byte, but the number loses its leading NUL characters: a text that does not fill its register
  changes its length with the form in which the waveform happens to give it.
\<close>

theorem ascii_forms:
  assumes "is_bits s" "s \<noteq> []" "8 dvd length s"
  shows "\<exists>bytes. length bytes = length s div 8 \<and> value_of 256 bytes = bits_val s \<and>
    (ascii_translate n (String s) :: (unit, string \<times> value_kind) outcome) = Ok (concat (map latin1 bytes), Normal) \<and>
    (ascii_translate n (BigUint (bits_val s)) :: (unit, string \<times> value_kind) outcome)
      = Ok (concat (map latin1 (let b = dropWhile (\<lambda>b. b = 0) bytes in if b = [] then [0] else b)), Normal)"
proof -
  define gs where "gs = group_n_chars s 8"
  define bytes where "bytes = map bits_val gs"
  have "gs = chunks_of 8 s" using assms(3) by (simp add: gs_def group_n_chars_def Let_def)
  note ch = chunks_bits[OF _ assms(3), folded this]
  have g: "\<forall>g \<in> set gs. is_bits g \<and> g \<noteq> [] \<and> length g \<le> 8"
    using group_bits(3)[of 8 s] assms(1,2) unfolding gs_def by (fastforce simp: is_bits_def list_all_iff)
  have less: "\<forall>b \<in> set bytes. b < 256"
  proof -
    have "bits_val g < 256" if "g \<in> set gs" for g using bits_val_less[of g] ch that by simp
    then show ?thesis by (simp add: bytes_def)
  qed
  let ?b = "dropWhile (\<lambda>b. b = 0) bytes"
  have v: "value_of 256 bytes = bits_val s" "length bytes = length s div 8" using ch by (simp_all add: bytes_def)
  have "to_bytes_be (bits_val s) = (if ?b = [] then [0] else ?b)"
  proof (cases ?b)
    case Nil
    then have "bits_val s = value_of 256 []" using v(1) value_of_dropWhile[of 256 bytes] by metis
    then have "bits_val s = 0" by simp
    then show ?thesis using Nil by (simp add: to_bytes_be_def digits_of.simps[of 256 0])
  next
    case (Cons e es)
    then have "e \<noteq> 0" using hd_dropWhile[of "\<lambda>b. b = 0" bytes] by auto
    moreover have "\<forall>b \<in> set ?b. b < 256" using less set_dropWhileD by metis
    ultimately have "digits_of 256 (value_of 256 ?b) = ?b" using Cons by (intro digits_of_value[where e = e and es = es]) auto
    then have "digits_of 256 (bits_val s) = ?b" using v(1) value_of_dropWhile[of 256 bytes] by metis
    then show ?thesis using Cons by (simp add: to_bytes_be_def)
  qed
  moreover have "check_vector_variable s = None" using assms(1) by (simp add: check_vector_none)
  moreover have "(ascii_groups gs :: (unit, string) outcome) = Ok (concat (map latin1 bytes))"
    using ascii_groups_bits[OF g] by (simp add: bytes_def)
  ultimately show ?thesis using v by (intro exI[of _ bytes]) (simp add: ascii_translate_def gs_def[symmetric] Let_def)
qed

lemma ascii_forms_witness:
  "(ascii_translate 16 (String ''0000000001000001'') :: (unit, string \<times> value_kind) outcome) \<noteq> ascii_translate 16 (BigUint 65)"
proof -
  let ?s = "''0000000001000001''"
  have b: "is_bits ?s" "?s \<noteq> []" "8 dvd length ?s" "length ?s div 8 = 2" by code_simp+
  obtain bytes where b: "length bytes = 2"
    "(ascii_translate 16 (String ?s) :: (unit, string \<times> value_kind) outcome) = Ok (concat (map latin1 bytes), Normal)"
    using ascii_forms[OF b(1-3), of 16] unfolding b(4) by blast
  have l: "1 \<le> length (latin1 x)" for x by (simp add: latin1_def)
  from b(1) obtain x y where "bytes = [x, y]" by (auto simp: length_Suc_conv numeral_2_eq_2)
  then have "2 \<le> length (concat (map latin1 bytes))" using l[of x] l[of y] by simp
  moreover have "(ascii_translate 16 (BigUint 65) :: (unit, string \<times> value_kind) outcome) = Ok (''A'', Normal)" by code_simp
  ultimately show ?thesis using b(2) by auto
qed

end
