(* ===== verification/Numeric_Translators.thy ===== *)
theory Numeric_Translators
  imports Complex_Main Basic_Translators
begin

section \<open>Numeric translators (numeric\_translators.rs, fixed\_point.rs, variable\_meta.rs)\<close>

text \<open>
  Unsigned and signed integers, floating point and posit formats, the two 8-bit floats and fixed point. The
  texts and the \<^verbatim>\<open>f64\<close> values of the binary formats come from the standard library and from the crates
  \<^verbatim>\<open>half\<close>, \<^verbatim>\<open>softposit\<close> and \<^verbatim>\<open>f128\<close>: they are functions of the bit pattern in a record. The 8-bit floats are
  decoded by the program; their values are rationals, all of them exact in \<^verbatim>\<open>f64\<close>.
\<close>

record 'f formats =
  fmt_f32_dec :: "32 word \<Rightarrow> string"
  fmt_f32_exp :: "32 word \<Rightarrow> string"
  fmt_f64_dec :: "64 word \<Rightarrow> string"
  fmt_f64_exp :: "64 word \<Rightarrow> string"
  fmt_f16_dec :: "16 word \<Rightarrow> string"
  fmt_f16_exp :: "16 word \<Rightarrow> string"
  fmt_bf16_dec :: "16 word \<Rightarrow> string"
  fmt_bf16_exp :: "16 word \<Rightarrow> string"
  fmt_f128 :: "128 word \<Rightarrow> string"
  fmt_p32 :: "32 word \<Rightarrow> string"
  fmt_p16 :: "16 word \<Rightarrow> string"
  fmt_p8 :: "8 word \<Rightarrow> string"
  fmt_q8 :: "32 word \<Rightarrow> string"
  fmt_q16 :: "128 word \<Rightarrow> string"
  num_f32 :: "32 word \<Rightarrow> 'f"
  num_f64 :: "64 word \<Rightarrow> 'f"
  num_f16 :: "16 word \<Rightarrow> 'f"
  num_bf16 :: "16 word \<Rightarrow> 'f"
  num_p32 :: "32 word \<Rightarrow> 'f"
  num_p16 :: "16 word \<Rightarrow> 'f"
  num_p8 :: "8 word \<Rightarrow> 'f"
  num_q8 :: "32 word \<Rightarrow> 'f"
  num_q16 :: "128 word \<Rightarrow> 'f"
  f16_range :: "'f numeric_range"
  bf16_range :: "'f numeric_range"

definition shortest_float_representation :: "string \<Rightarrow> string \<Rightarrow> string" where
  "shortest_float_representation plain scientific = (if length scientific < length plain then scientific else plain)"

text \<open>\<^verbatim>\<open>translate_numeric\<close> of this file.\<close>

definition translate_number :: "big_parser \<Rightarrow> (nat \<Rightarrow> string) \<Rightarrow> variable_value \<Rightarrow> string \<times> value_kind" where
  "translate_number pb biguint_translator value = (case parse_biguint pb value of
     Ok v \<Rightarrow> (biguint_translator v, Normal)
   | Err (v, k) \<Rightarrow> (v, k)
   | Panic \<Rightarrow> ('''', KindError))"

subsection \<open>Type names (variable\_meta.rs)\<close>

definition match_variable_type_name :: "string option \<Rightarrow> string list \<Rightarrow> bool" where
  "match_variable_type_name type_name candidates = (case type_name of None \<Rightarrow> False
     | Some t \<Rightarrow> list_ex (\<lambda>c. to_ascii_lowercase t = to_ascii_lowercase c) candidates)"

definition has_signed_integer_type_name :: "('v, 's) variable_meta \<Rightarrow> bool" where
  "has_signed_integer_type_name m = match_variable_type_name (vm_variable_type_name m) [''unresolved_signed'', ''signed'']"

definition has_signed_fixedpoint_type_name :: "('v, 's) variable_meta \<Rightarrow> bool" where
  "has_signed_fixedpoint_type_name m = match_variable_type_name (vm_variable_type_name m) [''unresolved_sfixed'', ''sfixed'']"

definition has_unsigned_integer_type_name :: "('v, 's) variable_meta \<Rightarrow> bool" where
  "has_unsigned_integer_type_name m = match_variable_type_name (vm_variable_type_name m) [''unresolved_unsigned'', ''unsigned'']"

definition has_unsigned_fixedpoint_type_name :: "('v, 's) variable_meta \<Rightarrow> bool" where
  "has_unsigned_fixedpoint_type_name m = match_variable_type_name (vm_variable_type_name m) [''unresolved_ufixed'', ''ufixed'']"

definition check_single_wordlength :: "nat option \<Rightarrow> nat \<Rightarrow> translation_preference" where
  "check_single_wordlength num_bits required = (if num_bits = Some required then Yes else No)"

subsection \<open>Integers\<close>

definition unsigned_translate :: "big_parser \<Rightarrow> nat \<Rightarrow> variable_value \<Rightarrow> string \<times> value_kind" where
  "unsigned_translate pb num_bits v = translate_number pb show_nat v"

definition unsigned_numeric :: "big_parser \<Rightarrow> (nat \<Rightarrow> 'f) \<Rightarrow> nat \<Rightarrow> variable_value \<Rightarrow> 'f numeric option" where
  "unsigned_numeric pb to_f64 num_bits v = Some (parse_value_to_numeric pb v to_f64)"

definition unsigned_translates :: "('v, 's) variable_meta \<Rightarrow> translation_preference" where
  "unsigned_translates m = (if has_unsigned_integer_type_name m then Prefer else translates_all_bit_types m)"

text \<open>
  The subtraction of \<^verbatim>\<open>BigUint\<close> panics below zero and so does \<open>num_bits - 1\<close> for a width of zero.
\<close>

definition compute_signed_value :: "nat \<Rightarrow> nat \<Rightarrow> ('e, string) outcome" where
  "compute_signed_value v num_bits =
     (if num_bits = 0 then Panic
      else let signweight = 2 ^ (num_bits - 1) in
        if v < signweight then Ok (show_nat v)
        else if 2 * signweight < v then Panic
        else Ok (''-'' @ show_nat (2 * signweight - v)))"

definition signed_translate :: "big_parser \<Rightarrow> nat \<Rightarrow> variable_value \<Rightarrow> ('e, string \<times> value_kind) outcome" where
  "signed_translate pb num_bits value = (case parse_biguint pb value of
     Ok v \<Rightarrow> and_then (compute_signed_value v num_bits) (\<lambda>t. Ok (t, Normal))
   | Err (v, k) \<Rightarrow> Ok (v, k)
   | Panic \<Rightarrow> Panic)"

definition signed_numeric :: "big_parser \<Rightarrow> 'f floats \<Rightarrow> (nat \<Rightarrow> 'f) \<Rightarrow> nat \<Rightarrow> variable_value \<Rightarrow> ('e, 'f numeric option) outcome" where
  "signed_numeric pb fl to_f64 num_bits value = (case parse_biguint pb value of
     Ok v \<Rightarrow>
       if num_bits = 0 then Panic
       else let signweight = 2 ^ (num_bits - 1) in
         if v < signweight then Ok (Some (Num (to_f64 v)))
         else if 2 * signweight < v then Panic
         else Ok (Some (Num (f_neg fl (to_f64 (2 * signweight - v)))))
   | _ \<Rightarrow> Ok (Some (parse_value_to_numeric pb value to_f64)))"

definition signed_translates :: "('v, 's) variable_meta \<Rightarrow> translation_preference" where
  "signed_translates m =
     (if is_integer_type m \<or> has_signed_integer_type_name m then Prefer else translates_all_bit_types m)"

definition unsigned_range :: "'f floats \<Rightarrow> nat \<Rightarrow> 'f numeric_range option" where
  "unsigned_range fl num_bits = integer_numeric_range fl num_bits False"

definition signed_range :: "'f floats \<Rightarrow> nat \<Rightarrow> 'f numeric_range option" where
  "signed_range fl num_bits = integer_numeric_range fl num_bits True"

subsection \<open>Floating point and posits\<close>

text \<open>The lowest digits of a number in base \<open>2 ^ 32\<close> and \<open>2 ^ 64\<close>.\<close>

definition low32 :: "nat \<Rightarrow> 32 word" where "low32 v = of_nat v"

definition low64 :: "nat \<Rightarrow> 64 word" where "low64 v = of_nat v"

definition low128 :: "nat \<Rightarrow> 128 word" where
  "low128 v = ucast (low64 v) OR push_bit 64 (ucast (low64 (v div 2 ^ 64)))"

definition single_translate :: "'f formats \<Rightarrow> big_parser \<Rightarrow> nat \<Rightarrow> variable_value \<Rightarrow> string \<times> value_kind" where
  "single_translate fm pb num_bits v = translate_number pb (\<lambda>v. shortest_float_representation (fmt_f32_dec fm (low32 v)) (fmt_f32_exp fm (low32 v))) v"

definition single_numeric :: "'f formats \<Rightarrow> big_parser \<Rightarrow> nat \<Rightarrow> variable_value \<Rightarrow> 'f numeric option" where
  "single_numeric fm pb num_bits v = Some (parse_value_to_numeric pb v (\<lambda>v. num_f32 fm (low32 v)))"

definition single_translates :: "('v, 's) variable_meta \<Rightarrow> translation_preference" where
  "single_translates m = check_single_wordlength (vm_num_bits m) 32"

definition double_translate :: "'f formats \<Rightarrow> big_parser \<Rightarrow> nat \<Rightarrow> variable_value \<Rightarrow> string \<times> value_kind" where
  "double_translate fm pb num_bits v = translate_number pb (\<lambda>v. shortest_float_representation (fmt_f64_dec fm (low64 v)) (fmt_f64_exp fm (low64 v))) v"

definition double_numeric :: "'f formats \<Rightarrow> big_parser \<Rightarrow> nat \<Rightarrow> variable_value \<Rightarrow> 'f numeric option" where
  "double_numeric fm pb num_bits v = Some (parse_value_to_numeric pb v (\<lambda>v. num_f64 fm (low64 v)))"

definition double_translates :: "('v, 's) variable_meta \<Rightarrow> translation_preference" where
  "double_translates m = (if is_real m then Prefer else check_single_wordlength (vm_num_bits m) 64)"

definition quad_translate :: "'f formats \<Rightarrow> big_parser \<Rightarrow> nat \<Rightarrow> variable_value \<Rightarrow> string \<times> value_kind" where
  "quad_translate fm pb num_bits v = translate_number pb (\<lambda>v. fmt_f128 fm (low128 v)) v"

definition quad_translates :: "('v, 's) variable_meta \<Rightarrow> translation_preference" where
  "quad_translates m = check_single_wordlength (vm_num_bits m) 128"

definition half_translate :: "'f formats \<Rightarrow> big_parser \<Rightarrow> nat \<Rightarrow> variable_value \<Rightarrow> string \<times> value_kind" where
  "half_translate fm pb num_bits v = translate_number pb
     (\<lambda>v. shortest_float_representation (fmt_f16_dec fm (ucast (low32 v))) (fmt_f16_exp fm (ucast (low32 v)))) v"

definition half_numeric :: "'f formats \<Rightarrow> big_parser \<Rightarrow> nat \<Rightarrow> variable_value \<Rightarrow> 'f numeric option" where
  "half_numeric fm pb num_bits v = Some (parse_value_to_numeric pb v (\<lambda>v. num_f16 fm (ucast (low32 v))))"

definition half_translates :: "('v, 's) variable_meta \<Rightarrow> translation_preference" where
  "half_translates m = check_single_wordlength (vm_num_bits m) 16"

definition bfloat16_translate :: "'f formats \<Rightarrow> big_parser \<Rightarrow> nat \<Rightarrow> variable_value \<Rightarrow> string \<times> value_kind" where
  "bfloat16_translate fm pb num_bits v = translate_number pb
     (\<lambda>v. shortest_float_representation (fmt_bf16_dec fm (ucast (low32 v))) (fmt_bf16_exp fm (ucast (low32 v)))) v"

definition bfloat16_numeric :: "'f formats \<Rightarrow> big_parser \<Rightarrow> nat \<Rightarrow> variable_value \<Rightarrow> 'f numeric option" where
  "bfloat16_numeric fm pb num_bits v = Some (parse_value_to_numeric pb v (\<lambda>v. num_bf16 fm (ucast (low32 v))))"

definition bfloat16_translates :: "('v, 's) variable_meta \<Rightarrow> translation_preference" where
  "bfloat16_translates m = check_single_wordlength (vm_num_bits m) 16"

definition half_range :: "'f formats \<Rightarrow> nat \<Rightarrow> 'f numeric_range option" where
  "half_range fm num_bits = Some (f16_range fm)"

definition bfloat16_range :: "'f formats \<Rightarrow> nat \<Rightarrow> 'f numeric_range option" where
  "bfloat16_range fm num_bits = Some (bf16_range fm)"

definition posit32_translate :: "'f formats \<Rightarrow> big_parser \<Rightarrow> nat \<Rightarrow> variable_value \<Rightarrow> string \<times> value_kind" where
  "posit32_translate fm pb num_bits v = translate_number pb (\<lambda>v. fmt_p32 fm (low32 v)) v"

definition posit32_numeric :: "'f formats \<Rightarrow> big_parser \<Rightarrow> nat \<Rightarrow> variable_value \<Rightarrow> 'f numeric option" where
  "posit32_numeric fm pb num_bits v = Some (parse_value_to_numeric pb v (\<lambda>v. num_p32 fm (low32 v)))"

definition posit16_translate :: "'f formats \<Rightarrow> big_parser \<Rightarrow> nat \<Rightarrow> variable_value \<Rightarrow> string \<times> value_kind" where
  "posit16_translate fm pb num_bits v = translate_number pb (\<lambda>v. fmt_p16 fm (ucast (low32 v))) v"

definition posit16_numeric :: "'f formats \<Rightarrow> big_parser \<Rightarrow> nat \<Rightarrow> variable_value \<Rightarrow> 'f numeric option" where
  "posit16_numeric fm pb num_bits v = Some (parse_value_to_numeric pb v (\<lambda>v. num_p16 fm (ucast (low32 v))))"

definition posit8_translate :: "'f formats \<Rightarrow> big_parser \<Rightarrow> nat \<Rightarrow> variable_value \<Rightarrow> string \<times> value_kind" where
  "posit8_translate fm pb num_bits v = translate_number pb (\<lambda>v. fmt_p8 fm (ucast (low32 v))) v"

definition posit8_numeric :: "'f formats \<Rightarrow> big_parser \<Rightarrow> nat \<Rightarrow> variable_value \<Rightarrow> 'f numeric option" where
  "posit8_numeric fm pb num_bits v = Some (parse_value_to_numeric pb v (\<lambda>v. num_p8 fm (ucast (low32 v))))"

definition quire8_translate :: "'f formats \<Rightarrow> big_parser \<Rightarrow> nat \<Rightarrow> variable_value \<Rightarrow> string \<times> value_kind" where
  "quire8_translate fm pb num_bits v = translate_number pb (\<lambda>v. fmt_q8 fm (low32 v)) v"

definition quire8_numeric :: "'f formats \<Rightarrow> big_parser \<Rightarrow> nat \<Rightarrow> variable_value \<Rightarrow> 'f numeric option" where
  "quire8_numeric fm pb num_bits v = Some (parse_value_to_numeric pb v (\<lambda>v. num_q8 fm (low32 v)))"

definition quire16_translate :: "'f formats \<Rightarrow> big_parser \<Rightarrow> nat \<Rightarrow> variable_value \<Rightarrow> string \<times> value_kind" where
  "quire16_translate fm pb num_bits v = translate_number pb (\<lambda>v. fmt_q16 fm (low128 v)) v"

definition quire16_numeric :: "'f formats \<Rightarrow> big_parser \<Rightarrow> nat \<Rightarrow> variable_value \<Rightarrow> 'f numeric option" where
  "quire16_numeric fm pb num_bits v = Some (parse_value_to_numeric pb v (\<lambda>v. num_q16 fm (low128 v)))"

definition posit32_translates :: "('v, 's) variable_meta \<Rightarrow> translation_preference" where
  "posit32_translates m = check_single_wordlength (vm_num_bits m) 32"

definition posit16_translates :: "('v, 's) variable_meta \<Rightarrow> translation_preference" where
  "posit16_translates m = check_single_wordlength (vm_num_bits m) 16"

definition posit8_translates :: "('v, 's) variable_meta \<Rightarrow> translation_preference" where
  "posit8_translates m = check_single_wordlength (vm_num_bits m) 8"

definition quire8_translates :: "('v, 's) variable_meta \<Rightarrow> translation_preference" where
  "quire8_translates m = check_single_wordlength (vm_num_bits m) 32"

definition quire16_translates :: "('v, 's) variable_meta \<Rightarrow> translation_preference" where
  "quire16_translates m = check_single_wordlength (vm_num_bits m) 128"

definition eight_bit_translates :: "('v, 's) variable_meta \<Rightarrow> translation_preference" where
  "eight_bit_translates m = check_single_wordlength (vm_num_bits m) 8"

subsection \<open>8-bit floats\<close>

text \<open>A flag tells a negative sign.\<close>

datatype fp8 = FpNan | FpInf bool | FpZero bool | FpNum rat

definition signed_rat :: "bool \<Rightarrow> rat \<Rightarrow> rat" where
  "signed_rat negative x = (if negative then - x else x)"

definition two_to :: "int \<Rightarrow> rat" where
  "two_to k = (if 0 \<le> k then 2 ^ nat k else 1 / 2 ^ nat (- k))"

definition decode_e5m2 :: "8 word \<Rightarrow> fp8" where
  "decode_e5m2 v =
     (let mant = unat (v AND 3); ex = unat (drop_bit 2 v AND 31); negative = drop_bit 7 v \<noteq> 0 in
      if ex = 31 then (if mant = 0 then FpInf negative else FpNan)
      else if ex = 0 then (if mant = 0 then FpZero negative else FpNum (signed_rat negative (of_nat mant * two_to (-16))))
      else FpNum (signed_rat negative (of_nat (4 + mant) * two_to (int ex - 17))))"

definition decode_e4m3 :: "8 word \<Rightarrow> fp8" where
  "decode_e4m3 v =
     (let mant = unat (v AND 7); ex = unat (drop_bit 3 v AND 15); negative = drop_bit 7 v \<noteq> 0 in
      if ex = 15 \<and> mant = 7 then FpNan
      else if ex = 0 then (if mant = 0 then FpZero negative else FpNum (signed_rat negative (of_nat mant * two_to (-9))))
      else FpNum (signed_rat negative (of_nat (8 + mant) * two_to (int ex - 10))))"

text \<open>\<open>show_f32\<close> is the shortest text of a number as \<^verbatim>\<open>f32\<close>; the sign of infinity is the UTF-8 text of the sign \<open>\<infinity>\<close>.\<close>

definition infinity_sign :: string where
  "infinity_sign = [char_of (226 :: nat), char_of (136 :: nat), char_of (158 :: nat)]"

definition format_fp8_value :: "(rat \<Rightarrow> string) \<Rightarrow> fp8 \<Rightarrow> string" where
  "format_fp8_value show_f32 v = (case v of
     FpNan \<Rightarrow> ''NaN''
   | FpInf negative \<Rightarrow> if negative then ''-'' @ infinity_sign else infinity_sign
   | FpZero negative \<Rightarrow> if negative then ''-0'' else ''0''
   | FpNum x \<Rightarrow> show_f32 x)"

definition e5m2_translate :: "(rat \<Rightarrow> string) \<Rightarrow> big_parser \<Rightarrow> nat \<Rightarrow> variable_value \<Rightarrow> string \<times> value_kind" where
  "e5m2_translate show_f32 pb num_bits v =
     translate_number pb (\<lambda>v. format_fp8_value show_f32 (decode_e5m2 (ucast (low32 v)))) v"

definition e5m2_numeric :: "(fp8 \<Rightarrow> 'f) \<Rightarrow> big_parser \<Rightarrow> nat \<Rightarrow> variable_value \<Rightarrow> 'f numeric option" where
  "e5m2_numeric to_f64 pb num_bits v = Some (parse_value_to_numeric pb v (\<lambda>v. to_f64 (decode_e5m2 (ucast (low32 v)))))"

definition e5m2_range :: "rat numeric_range" where
  "e5m2_range = \<lparr>nr_min = -57344, nr_max = 57344\<rparr>"

definition e4m3_translate :: "(rat \<Rightarrow> string) \<Rightarrow> big_parser \<Rightarrow> nat \<Rightarrow> variable_value \<Rightarrow> string \<times> value_kind" where
  "e4m3_translate show_f32 pb num_bits v =
     translate_number pb (\<lambda>v. format_fp8_value show_f32 (decode_e4m3 (ucast (low32 v)))) v"

definition e4m3_numeric :: "(fp8 \<Rightarrow> 'f) \<Rightarrow> big_parser \<Rightarrow> nat \<Rightarrow> variable_value \<Rightarrow> 'f numeric option" where
  "e4m3_numeric to_f64 pb num_bits v = Some (parse_value_to_numeric pb v (\<lambda>v. to_f64 (decode_e4m3 (ucast (low32 v)))))"

definition e4m3_range :: "rat numeric_range" where
  "e4m3_range = \<lparr>nr_min = -448, nr_max = 448\<rparr>"

subsection \<open>Fixed point\<close>

text \<open>The digits after the point: at most \<open>fuel\<close> of them, which is the number of bits after the point.\<close>

fun fraction_digits :: "nat \<Rightarrow> nat \<Rightarrow> nat \<Rightarrow> string" where
  "fraction_digits 0 lg remainder = ''''"
| "fraction_digits (Suc fuel) lg remainder =
     (let scaled = remainder * 10;
          digit = drop_bit lg scaled;
          rest = scaled AND (2 ^ lg - 1)
      in show_nat digit @ (if rest = 0 then '''' else fraction_digits fuel lg rest))"

definition big_uint_to_ufixed :: "nat \<Rightarrow> int \<Rightarrow> string" where
  "big_uint_to_ufixed n lg_scaling_factor =
     (if lg_scaling_factor < 0 then show_nat (push_bit (nat (- lg_scaling_factor)) n)
      else if lg_scaling_factor = 0 then show_nat n
      else let lg = nat lg_scaling_factor;
               integer_part = drop_bit lg n;
               remainder = n AND (2 ^ lg - 1)
        in if remainder = 0 then show_nat integer_part
           else show_nat integer_part @ ''.'' @ fraction_digits lg lg remainder)"

text \<open>\<^verbatim>\<open>BigUint::bit\<close>, and a subtraction that panics below zero.\<close>

definition big_uint_to_sfixed :: "nat \<Rightarrow> nat \<Rightarrow> int \<Rightarrow> ('e, string) outcome" where
  "big_uint_to_sfixed n num_bits lg_scaling_factor =
     (if num_bits = 0 then Ok ''''
      else if bit n (num_bits - 1) then
        (if 2 ^ num_bits < n then Panic
         else Ok (''-'' @ big_uint_to_ufixed (2 ^ num_bits - n) lg_scaling_factor))
      else Ok (big_uint_to_ufixed n lg_scaling_factor))"

definition ufixed_translate :: "big_parser \<Rightarrow> ('v, 's) variable_meta \<Rightarrow> variable_value \<Rightarrow> translation_result" where
  "ufixed_translate pb m value =
     (let (s, kind) = (case vm_index m of
          Some idx \<Rightarrow> translate_number pb (\<lambda>v. big_uint_to_ufixed v (- vi_lsb idx)) value
        | None \<Rightarrow> translate_number pb show_nat value)
      in TranslationResult (ReprString s) [] kind)"

definition ufixed_translates :: "('v, 's) variable_meta \<Rightarrow> translation_preference" where
  "ufixed_translates m = (if has_unsigned_fixedpoint_type_name m then Prefer else translates_all_bit_types m)"

definition sfixed_translate :: "big_parser \<Rightarrow> ('v, 's) variable_meta \<Rightarrow> variable_value \<Rightarrow> ('e, translation_result) outcome" where
  "sfixed_translate pb m value =
     and_then (case (parse_biguint pb value, vm_index m) of
         (Ok v, Some idx) \<Rightarrow> and_then (big_uint_to_sfixed v (case vm_num_bits m of Some k \<Rightarrow> k | None \<Rightarrow> 0) (- vi_lsb idx))
            (\<lambda>t. Ok (t, Normal))
       | _ \<Rightarrow> Ok (translate_number pb show_nat value))
       (\<lambda>(s, kind). Ok (TranslationResult (ReprString s) [] kind))"

definition sfixed_translates :: "('v, 's) variable_meta \<Rightarrow> translation_preference" where
  "sfixed_translates m = (if has_signed_fixedpoint_type_name m then Prefer else translates_all_bit_types m)"

subsection \<open>What the texts denote\<close>

lemma and_mask_mod: "n AND (2 ^ k - 1) = n mod 2 ^ k" for n :: nat
  using take_bit_eq_mask[of k n] by (simp add: mask_eq_exp_minus_1 take_bit_eq_mod)

lemmas and_mask_mods = and_mask_mod and_mask_mod[unfolded One_nat_def]

lemma show_digit: "d < 10 \<Longrightarrow> show_nat d = [digit_char d]"
  by (simp add: show_radix_def digits_of.simps[of 10 d])

lemma fraction_digits_exact:
  assumes "r < 2 ^ lg" "0 < r" "2 ^ lg dvd r * 10 ^ fuel"
  shows "\<exists>ds. fraction_digits fuel lg r = map digit_char ds \<and> ds \<noteq> [] \<and> (\<forall>d \<in> set ds. d < 10) \<and> last ds \<noteq> 0 \<and>
    length ds \<le> fuel \<and> r * 10 ^ length ds = value_of 10 ds * 2 ^ lg"
  using assms
proof (induction fuel arbitrary: r)
  case 0
  then show ?case by (auto dest: dvd_imp_le)
next
  case (Suc fuel)
  define d rest where "d = r * 10 div 2 ^ lg" and "rest = r * 10 mod 2 ^ lg"
  have split: "r * 10 = d * 2 ^ lg + rest" by (simp only: d_def rest_def div_mult_mod_eq)
  have d10: "d < 10" unfolding d_def using Suc.prems(1) by (simp add: less_mult_imp_div_less)
  have step: "fraction_digits (Suc fuel) lg r = digit_char d # (if rest = 0 then '''' else fraction_digits fuel lg rest)"
    by (simp add: Let_def and_mask_mods drop_bit_eq_div d_def[symmetric] rest_def[symmetric] show_digit[OF d10])
  show ?case
  proof (cases "rest = 0")
    case True
    with split Suc.prems(2) have "r * 10 = d * 2 ^ lg" "d \<noteq> 0" by (simp, cases "d = 0") simp_all
    with True d10 show ?thesis unfolding step by (intro exI[of _ "[d]"]) simp
  next
    case False
    have "r * 10 ^ Suc fuel = d * 10 ^ fuel * 2 ^ lg + rest * 10 ^ fuel"
      using arg_cong[OF split, of "\<lambda>x. x * 10 ^ fuel"] by (simp add: algebra_simps)
    with Suc.prems(3) have "2 ^ lg dvd rest * 10 ^ fuel"
      using dvd_add_right_iff[of "2 ^ lg" "d * 10 ^ fuel * 2 ^ lg" "rest * 10 ^ fuel"] by simp
    moreover have "rest < 2 ^ lg" by (simp add: rest_def)
    ultimately obtain ds where ds: "fraction_digits fuel lg rest = map digit_char ds" "ds \<noteq> []" "\<forall>d \<in> set ds. d < 10" "last ds \<noteq> 0"
      "length ds \<le> fuel" "rest * 10 ^ length ds = value_of 10 ds * 2 ^ lg" using Suc.IH[of rest] False by auto
    have "r * 10 ^ length (d # ds) = value_of 10 (d # ds) * 2 ^ lg"
      using arg_cong[OF split, of "\<lambda>x. x * 10 ^ length ds"] ds(6) by (simp add: value_of_Cons algebra_simps)
    with ds False d10 show ?thesis unfolding step by (intro exI[of _ "d # ds"]) simp
  qed
qed

text \<open>
  C40. Fixed point. The text of a fixed-point number is exact: an integer part, and after the point, when
  there is one, at most as many decimal digits as the number has fraction bits, the last of them not 0,
  which together denote the value divided by the power of two with no rounding.
\<close>

theorem ufixed_exact:
  assumes "0 < lg"
  shows "\<exists>ip ds. big_uint_to_ufixed n (int lg) = (if ds = [] then show_nat ip else show_nat ip @ ''.'' @ map digit_char ds) \<and>
    (\<forall>d \<in> set ds. d < 10) \<and> (ds \<noteq> [] \<longrightarrow> last ds \<noteq> 0) \<and> length ds \<le> lg \<and>
    n * 10 ^ length ds = (ip * 10 ^ length ds + value_of 10 ds) * 2 ^ lg"
proof -
  define ip r where "ip = n div 2 ^ lg" and "r = n mod 2 ^ lg"
  have split: "n = ip * 2 ^ lg + r" by (simp only: ip_def r_def div_mult_mod_eq)
  have t: "big_uint_to_ufixed n (int lg) = (if r = 0 then show_nat ip else show_nat ip @ ''.'' @ fraction_digits lg lg r)"
    using assms by (simp add: big_uint_to_ufixed_def Let_def and_mask_mods drop_bit_eq_div ip_def r_def)
  show ?thesis
  proof (cases "r = 0")
    case True
    with split t show ?thesis by (intro exI[of _ ip] exI[of _ "[]"]) simp
  next
    case False
    have "(10 :: nat) ^ lg = 5 ^ lg * 2 ^ lg" by (simp flip: power_mult_distrib)
    then have "2 ^ lg dvd r * 10 ^ lg" by simp
    with fraction_digits_exact[of r lg lg] False obtain ds where ds: "fraction_digits lg lg r = map digit_char ds" "ds \<noteq> []"
      "\<forall>d \<in> set ds. d < 10" "last ds \<noteq> 0" "length ds \<le> lg" "r * 10 ^ length ds = value_of 10 ds * 2 ^ lg"
      by (auto simp: r_def)
    have "n * 10 ^ length ds = (ip * 10 ^ length ds + value_of 10 ds) * 2 ^ lg"
      using arg_cong[OF split, of "\<lambda>x. x * 10 ^ length ds"] ds(6) by (simp add: algebra_simps)
    with ds t False show ?thesis by (intro exI[of _ ip] exI[of _ ds]) simp
  qed
qed

lemma ufixed_exact_witness: "\<exists>ip ds. big_uint_to_ufixed 13 (int 2) = show_nat ip @ ''.'' @ map digit_char ds \<and> 4 * (ip * 10 ^ length ds + value_of 10 ds) = 13 * 10 ^ length ds"
proof -
  from ufixed_exact[of 2 13] obtain ip ds where
    e: "big_uint_to_ufixed 13 (int 2) = (if ds = [] then show_nat ip else show_nat ip @ ''.'' @ map digit_char ds)"
    "13 * 10 ^ length ds = (ip * 10 ^ length ds + value_of 10 ds) * 2 ^ 2" by auto
  have "ip * 4 \<noteq> 13" by presburger
  then have "ds \<noteq> []" using e(2) by auto
  with e show ?thesis by (intro exI[of _ ip] exI[of _ ds]) simp
qed

text \<open>Two's complement.\<close>

definition signed_value :: "nat \<Rightarrow> nat \<Rightarrow> int" where
  "signed_value n v = (if v < 2 ^ (n - 1) then int v else int v - 2 ^ n)"

text \<open>
  Signed integers. A value that fits its width is shown as the decimal text of its two's complement
  value, and that text reads back; the analog trace draws the same number, provided that the negation of the
  code's floating point numbers negates.
\<close>

theorem signed_text_is_value:
  assumes "0 < n" "v < 2 ^ n" "\<And>k. f_neg fl (to_f64 k) = neg_f64 k"
  shows "(signed_translate pb n (BigUint v) :: (unit, string \<times> value_kind) outcome) = Ok (show_int (signed_value n v), Normal) \<and>
    (signed_numeric pb fl to_f64 n (BigUint v) :: (unit, 'f numeric option) outcome) =
      Ok (Some (Num (if signed_value n v < 0 then neg_f64 (nat (- signed_value n v)) else to_f64 (nat (signed_value n v)))))"
proof -
  have p: "2 * 2 ^ (n - 1) = (2 :: nat) ^ n" using assms(1) by (cases n) simp_all
  show ?thesis
  proof (cases "v < 2 ^ (n - 1)")
    case True
    then have "signed_value n v = int v" by (simp add: signed_value_def)
    with True assms(1) show ?thesis
      by (simp add: signed_translate_def signed_numeric_def parse_biguint_def compute_signed_value_def show_int_def)
  next
    case False
    then have s: "signed_value n v = - int (2 ^ n - v)" "0 < 2 ^ n - v" using assms(2) by (simp_all add: signed_value_def of_nat_diff)
    have "signed_value n v < 0" "nat (- signed_value n v) = 2 ^ n - v" using s by (simp, simp only: minus_minus nat_int)
    with False assms show ?thesis
      by (simp add: signed_translate_def signed_numeric_def parse_biguint_def compute_signed_value_def show_int_def Let_def p p[unfolded One_nat_def])
  qed
qed

lemma signed_text_is_value_witness:
  "(signed_translate plain_parser 8 (BigUint 254) :: (unit, string \<times> value_kind) outcome) = Ok (''-2'', Normal)"
proof -
  let ?fl = "\<lparr>f_zero = 0, f_one = 1, f_sub = (-), f_neg = uminus, f_pow2 = (\<lambda>k. 0), f_is_finite = (\<lambda>x. True)\<rparr> :: int floats"
  have "(signed_translate plain_parser 8 (BigUint 254) :: (unit, string \<times> value_kind) outcome) = Ok (show_int (signed_value 8 254), Normal)"
    using signed_text_is_value[of 8 254 ?fl int "\<lambda>k. - int k"] by simp
  also have "show_int (signed_value 8 254) = ''-2''" by code_simp
  finally show ?thesis .
qed

lemma two_to_powi: "two_to k = 2 powi k"
  by (simp add: two_to_def power_int_def divide_simps)

definition fp8_value :: "fp8 \<Rightarrow> rat option" where
  "fp8_value v = (case v of FpNum x \<Rightarrow> Some x | FpZero s \<Rightarrow> Some 0 | _ \<Rightarrow> None)"

lemma abs_signed_rat [simp]: "\<bar>signed_rat s x\<bar> = \<bar>x\<bar>"
  by (simp add: signed_rat_def)

lemma mantissa_bound:
  assumes "m \<le> M" "k \<le> K" "of_nat M * two_to K \<le> b"
  shows "\<bar>signed_rat s (of_nat m * two_to k)\<bar> \<le> b"
proof -
  have "two_to k \<le> two_to K" "0 \<le> two_to k" unfolding two_to_powi using assms(2) by (simp_all add: power_int_increasing)
  moreover have "(of_nat m :: rat) \<le> of_nat M" using assms(1) by simp
  ultimately have "\<bar>of_nat m * two_to k\<bar> \<le> of_nat M * two_to K" by (simp add: abs_mult mult_mono)
  with assms(3) show ?thesis by simp
qed

lemma field_bounds: "unat (v AND 3 :: 8 word) \<le> 3" "unat (v AND 7 :: 8 word) \<le> 7" "unat (v AND 15 :: 8 word) \<le> 15" "unat (v AND 31 :: 8 word) \<le> 31"
  using word_and_le1[of v "3 :: 8 word"] word_and_le1[of v "7 :: 8 word"] word_and_le1[of v "15 :: 8 word"] word_and_le1[of v "31 :: 8 word"]
  by (simp_all add: word_le_nat_alt)

text \<open>
  8-bit floats. Every finite value of the two 8-bit float formats lies in the range to which the analog
  trace of its row is scaled, and the range is no larger than it must be: its ends are values of the format.
\<close>

theorem fp8_in_range:
  "(\<forall>x. fp8_value (decode_e5m2 v) = Some x \<longrightarrow> nr_min e5m2_range \<le> x \<and> x \<le> nr_max e5m2_range) \<and>
   (\<forall>x. fp8_value (decode_e4m3 v) = Some x \<longrightarrow> nr_min e4m3_range \<le> x \<and> x \<le> nr_max e4m3_range) \<and>
   fp8_value (decode_e5m2 0x7B) = Some (nr_max e5m2_range) \<and> fp8_value (decode_e5m2 0xFB) = Some (nr_min e5m2_range) \<and>
   fp8_value (decode_e4m3 0x7E) = Some (nr_max e4m3_range) \<and> fp8_value (decode_e4m3 0xFE) = Some (nr_min e4m3_range)"
proof (intro conjI)
  have lim: "of_nat 7 * two_to 13 \<le> (57344 :: rat)" "of_nat 3 * two_to (-16) \<le> (57344 :: rat)"
    "of_nat 14 * two_to 5 \<le> (448 :: rat)" "of_nat 7 * two_to (-9) \<le> (448 :: rat)"
    "of_nat 15 * two_to 4 \<le> (448 :: rat)" by (simp_all add: two_to_def)
  show "\<forall>x. fp8_value (decode_e5m2 v) = Some x \<longrightarrow> nr_min e5m2_range \<le> x \<and> x \<le> nr_max e5m2_range"
  proof (intro allI impI)
    fix x assume x: "fp8_value (decode_e5m2 v) = Some x"
    let ?m = "unat (v AND 3)" and ?e = "unat (drop_bit 2 v AND 31)" and ?s = "drop_bit 7 v \<noteq> 0"
    have "?e \<le> 31" "?m \<le> 3" by (rule field_bounds)+
    then consider "x = 0" | "x = signed_rat ?s (of_nat ?m * two_to (-16))" | "?e \<le> 30" "x = signed_rat ?s (of_nat (4 + ?m) * two_to (int ?e - 17))"
      using x by (fastforce simp: fp8_value_def decode_e5m2_def Let_def split: if_splits)
    then have "\<bar>x\<bar> \<le> 57344"
    proof cases
      case 2
      then show ?thesis unfolding 2 using \<open>?m \<le> 3\<close> by (intro mantissa_bound[OF _ order_refl lim(2)])
    next
      case 3
      then show ?thesis unfolding 3(2) using \<open>?m \<le> 3\<close> 3(1) by (intro mantissa_bound[OF _ _ lim(1)]) linarith+
    qed simp
    then show "nr_min e5m2_range \<le> x \<and> x \<le> nr_max e5m2_range" by (simp add: e5m2_range_def abs_le_iff)
  qed
  show "\<forall>x. fp8_value (decode_e4m3 v) = Some x \<longrightarrow> nr_min e4m3_range \<le> x \<and> x \<le> nr_max e4m3_range"
  proof (intro allI impI)
    fix x assume x: "fp8_value (decode_e4m3 v) = Some x"
    let ?m = "unat (v AND 7)" and ?e = "unat (drop_bit 3 v AND 15)" and ?s = "drop_bit 7 v \<noteq> 0"
    have b: "?e \<le> 15" "?m \<le> 7" by (rule field_bounds)+
    then consider "x = 0" | "x = signed_rat ?s (of_nat ?m * two_to (-9))"
      | "?e \<le> 14" "x = signed_rat ?s (of_nat (8 + ?m) * two_to (int ?e - 10))"
      | "?e = 15" "?m \<le> 6" "x = signed_rat ?s (of_nat (8 + ?m) * two_to (int ?e - 10))"
      using x by (fastforce simp: fp8_value_def decode_e4m3_def Let_def split: if_splits)
    then have "\<bar>x\<bar> \<le> 448"
    proof cases
      case 2
      then show ?thesis unfolding 2 using b by (intro mantissa_bound[OF _ order_refl lim(4)])
    next
      case 3
      then show ?thesis unfolding 3(2) using b 3(1) by (intro mantissa_bound[OF _ _ lim(5)]) linarith+
    next
      case 4
      then show ?thesis unfolding 4(3) using 4(1,2) by (intro mantissa_bound[OF _ _ lim(3)]) linarith+
    qed simp
    then show "nr_min e4m3_range \<le> x \<and> x \<le> nr_max e4m3_range" by (simp add: e4m3_range_def abs_le_iff)
  qed
qed (code_simp+)

lemma fp8_in_range_witness: "fp8_value (decode_e4m3 0x79) = Some 288 \<and> (288 :: rat) \<le> nr_max e4m3_range"
proof -
  have "fp8_value (decode_e4m3 0x79) = Some 288" by code_simp
  then show ?thesis using fp8_in_range[of "0x79"] by blast
qed

end
