(* ===== verification/Translators.thy ===== *)
theory Translators
  imports Numeric_Translators Displayed_Items "HOL-Library.Char_ord" "HOL-Library.List_Lexorder"
begin

section \<open>Translators and their list (translation/mod.rs)\<close>

text \<open>
  The two traits as records of functions, with the default methods of the traits, the translators that need
  the metadata of a variable (clock, text, enumeration, fixed point, event), the colour translators, the list
  of translators, the choice of the one for a variable (\<^verbatim>\<open>select_preferred_translator\<close> and
  \<^verbatim>\<open>variable_translator\<close> of wave_data.rs) and the formatting of hierarchical values. A translator whose
  \<^verbatim>\<open>translates\<close> or \<^verbatim>\<open>variable_info\<close> fails reports a text.
\<close>

record ('v, 's, 'f) basic_translator =
  bt_name :: string
  bt_translate :: "nat \<Rightarrow> variable_value \<Rightarrow> (string, string \<times> value_kind) outcome"
  bt_translates :: "('v, 's) variable_meta \<Rightarrow> string + translation_preference"
  bt_info :: "('v, 's) variable_meta \<Rightarrow> string + variable_info"
  bt_numeric :: "nat \<Rightarrow> variable_value \<Rightarrow> (string, 'f numeric option) outcome"
  bt_range :: "nat \<Rightarrow> 'f numeric_range option"

datatype true_name = SourceCode nat string string string

record variable_name_info =
  ni_true_name :: "true_name option"
  ni_priority :: "int option"

record ('v, 's, 'f) full_translator =
  ft_name :: string
  ft_translate :: "('v, 's) variable_meta \<Rightarrow> variable_value \<Rightarrow> (string, translation_result) outcome"
  ft_translates :: "('v, 's) variable_meta \<Rightarrow> string + translation_preference"
  ft_info :: "('v, 's) variable_meta \<Rightarrow> string + variable_info"
  ft_name_info :: "('v, 's) variable_meta \<Rightarrow> variable_name_info option"
  ft_numeric :: "('v, 's) variable_meta \<Rightarrow> variable_value \<Rightarrow> (string, 'f numeric option) outcome"
  ft_range :: "('v, 's) variable_meta \<Rightarrow> 'f numeric_range option"

text \<open>What the translators use of other packages and of floating point.\<close>

record 'f numerics =
  nm_parse_big :: big_parser
  nm_to_f64 :: "nat \<Rightarrow> 'f"
  nm_parse_f64 :: "string \<Rightarrow> 'f option"
  nm_floats :: "'f floats"
  nm_formats :: "'f formats"
  nm_show_f32 :: "rat \<Rightarrow> string"
  nm_fp8 :: "fp8 \<Rightarrow> 'f"

text \<open>A basic translator with the default methods of its trait.\<close>

definition basic :: "'f numerics \<Rightarrow> string \<Rightarrow> (nat \<Rightarrow> variable_value \<Rightarrow> (string, string \<times> value_kind) outcome)
    \<Rightarrow> ('v, 's, 'f) basic_translator" where
  "basic nm name translate = \<lparr>bt_name = name, bt_translate = translate,
     bt_translates = (\<lambda>m. Inr (translates_all_bit_types m)), bt_info = (\<lambda>m. Inr InfoBits),
     bt_numeric = (\<lambda>n v. and_then (translate n v) (\<lambda>r. Ok (basic_translate_numeric
        (nm_parse_big nm) (nm_to_f64 nm) (nm_parse_f64 nm) name r))),
     bt_range = (\<lambda>n. None)\<rparr>"

definition infallible :: "(nat \<Rightarrow> variable_value \<Rightarrow> 'a) \<Rightarrow> nat \<Rightarrow> variable_value \<Rightarrow> (string, 'a) outcome" where
  "infallible f n v = Ok (f n v)"

definition full :: "'f numerics \<Rightarrow> string \<Rightarrow> (('v, 's) variable_meta \<Rightarrow> variable_value \<Rightarrow> (string, translation_result) outcome)
    \<Rightarrow> variable_info \<Rightarrow> (('v, 's) variable_meta \<Rightarrow> translation_preference) \<Rightarrow> ('v, 's, 'f) full_translator" where
  "full nm name translate info translates = \<lparr>ft_name = name, ft_translate = translate,
     ft_translates = (\<lambda>m. Inr (translates m)), ft_info = (\<lambda>m. Inr info), ft_name_info = (\<lambda>m. None),
     ft_numeric = (\<lambda>m v. case translate m v of Panic \<Rightarrow> Panic
        | r \<Rightarrow> Ok (translate_numeric (nm_parse_big nm) (nm_to_f64 nm) (nm_parse_f64 nm) name r)),
     ft_range = (\<lambda>m. None)\<rparr>"

definition meta_width :: "('v, 's) variable_meta \<Rightarrow> nat" where
  "meta_width m = (case vm_num_bits m of Some n \<Rightarrow> n | None \<Rightarrow> 0)"

definition translate_with_basic :: "('v, 's, 'f) basic_translator \<Rightarrow> ('v, 's) variable_meta \<Rightarrow> variable_value
    \<Rightarrow> (string, translation_result) outcome" where
  "translate_with_basic t m value = and_then (bt_translate t (meta_width m) value)
     (\<lambda>(val, kind). Ok (TranslationResult (ReprString val) [] kind))"

datatype ('v, 's, 'f) any_translator = Full "('v, 's, 'f) full_translator" | Basic "('v, 's, 'f) basic_translator"

fun is_basic :: "('v, 's, 'f) any_translator \<Rightarrow> bool" where
  "is_basic (Basic _) \<longleftrightarrow> True"
| "is_basic (Full _) \<longleftrightarrow> False"

fun at_name :: "('v, 's, 'f) any_translator \<Rightarrow> string" where
  "at_name (Full t) = ft_name t"
| "at_name (Basic t) = bt_name t"

fun at_translate :: "('v, 's, 'f) any_translator \<Rightarrow> ('v, 's) variable_meta \<Rightarrow> variable_value \<Rightarrow> (string, translation_result) outcome" where
  "at_translate (Full t) m v = ft_translate t m v"
| "at_translate (Basic t) m v = translate_with_basic t m v"

fun at_info :: "('v, 's, 'f) any_translator \<Rightarrow> ('v, 's) variable_meta \<Rightarrow> string + variable_info" where
  "at_info (Full t) m = ft_info t m"
| "at_info (Basic t) m = bt_info t m"

fun at_translates :: "('v, 's, 'f) any_translator \<Rightarrow> ('v, 's) variable_meta \<Rightarrow> string + translation_preference" where
  "at_translates (Full t) m = ft_translates t m"
| "at_translates (Basic t) m = bt_translates t m"

fun at_name_info :: "('v, 's, 'f) any_translator \<Rightarrow> ('v, 's) variable_meta \<Rightarrow> variable_name_info option" where
  "at_name_info (Full t) m = ft_name_info t m"
| "at_name_info (Basic t) m = None"

fun at_numeric :: "('v, 's, 'f) any_translator \<Rightarrow> ('v, 's) variable_meta \<Rightarrow> variable_value \<Rightarrow> (string, 'f numeric option) outcome" where
  "at_numeric (Full t) m v = ft_numeric t m v"
| "at_numeric (Basic t) m v = bt_numeric t (meta_width m) v"

fun at_range :: "('v, 's, 'f) any_translator \<Rightarrow> ('v, 's) variable_meta \<Rightarrow> 'f numeric_range option" where
  "at_range (Full t) m = ft_range t m"
| "at_range (Basic t) m = bt_range t (meta_width m)"

subsection \<open>Translators of the whole variable\<close>

definition clock_translates :: "('v, 's) variable_meta \<Rightarrow> translation_preference" where
  "clock_translates m = (if vm_num_bits m = Some 1 then Yes else No)"

definition string_translate :: "('v, 's) variable_meta \<Rightarrow> variable_value \<Rightarrow> (string, translation_result) outcome" where
  "string_translate m value = (case value of
     BigUint b \<Rightarrow> Ok (TranslationResult (ReprString (''ERROR (0x'' @ show_radix 16 b @ '')'')) [] Warn)
   | String s \<Rightarrow> Ok (TranslationResult (ReprString s) [] Normal))"

definition string_translates :: "('v, 's) variable_meta \<Rightarrow> translation_preference" where
  "string_translates m = (if vm_encoding m = EncString then Prefer else No)"

text \<open>The width of an enumeration must be known to translate a number.\<close>

definition enum_translate :: "('v, 's) variable_meta \<Rightarrow> variable_value \<Rightarrow> (string, translation_result) outcome" where
  "enum_translate m value =
     and_then (case value of
         BigUint v \<Rightarrow> (case vm_num_bits m of Some n \<Rightarrow> Ok (zero_pad n (show_radix 2 v)) | None \<Rightarrow> Panic)
       | String s \<Rightarrow> Ok s)
      (\<lambda>str_value. let (kind, name) = (case map_of (vm_enum_map m) str_value of
           Some s \<Rightarrow> (Normal, s) | None \<Rightarrow> (Warn, ''ERROR ('' @ str_value @ '')''))
        in Ok (TranslationResult (ReprString name) [] kind))"

definition enum_translates :: "('v, 's) variable_meta \<Rightarrow> translation_preference" where
  "enum_translates m = (if vm_enum_map m = [] then No else Prefer)"

definition event_translate :: "('v, 's) variable_meta \<Rightarrow> variable_value \<Rightarrow> (string, translation_result) outcome" where
  "event_translate m value = Ok (TranslationResult ReprEvent [] Event)"

definition event_translates :: "('v, 's) variable_meta \<Rightarrow> translation_preference" where
  "event_translates m = (if vm_num_bits m = Some 0 \<and> is_event m then Prefer else No)"

subsection \<open>Colours (color\_translators.rs)\<close>

text \<open>\<^verbatim>\<open>to_u8().unwrap_or(255)\<close>.\<close>

definition to_u8 :: "nat \<Rightarrow> 8 word" where
  "to_u8 n = (if n < 256 then of_nat n else 255)"

definition hex_byte :: "8 word \<Rightarrow> string" where
  "hex_byte b = zero_pad 2 (show_radix 16 (unat b))"

text \<open>The three channels of a value, the highest bits first, each scaled to a byte.\<close>

definition scale_channel :: "nat \<Rightarrow> nat \<Rightarrow> 8 word" where
  "scale_channel nibble_length c = (if 8 \<le> nibble_length then to_u8 (drop_bit (nibble_length - 8) c)
     else to_u8 (push_bit (8 - nibble_length) c))"

definition channels :: "nat \<Rightarrow> nat \<Rightarrow> 8 word \<times> 8 word \<times> 8 word" where
  "channels num_bits v = (let nibble_length = ceil_div num_bits 3;
       lo = v mod 2 ^ nibble_length;
       mid = drop_bit nibble_length v mod 2 ^ nibble_length;
       hi = drop_bit (2 * nibble_length) v mod 2 ^ nibble_length
     in (scale_channel nibble_length hi, scale_channel nibble_length mid, scale_channel nibble_length lo))"

definition from_rgb :: "8 word \<Rightarrow> 8 word \<Rightarrow> 8 word \<Rightarrow> color32" where
  "from_rgb r g b = (r, g, b, 255)"

definition rgb_translate :: "nat \<Rightarrow> variable_value \<Rightarrow> string \<times> value_kind" where
  "rgb_translate num_bits value = (case value of
     BigUint v \<Rightarrow> (let (r, g, b) = channels num_bits v
       in (''#'' @ hex_byte r @ hex_byte g @ hex_byte b, Custom (from_rgb r g b)))
   | String s \<Rightarrow> (s, kind_for_binary_representation s))"

definition three_channel_translates :: "('v, 's) variable_meta \<Rightarrow> translation_preference" where
  "three_channel_translates m = (case vm_num_bits m of Some n \<Rightarrow> if n mod 3 = 0 then Yes else No | None \<Rightarrow> No)"

text \<open>The operations of \<^verbatim>\<open>f32\<close> that the colour conversion uses; \<open>g_lit\<close> is the literal nearest to a number.\<close>

record 'g f32_ops =
  g_of_int :: "int \<Rightarrow> 'g"
  g_lit :: "rat \<Rightarrow> 'g"
  g_add :: "'g \<Rightarrow> 'g \<Rightarrow> 'g"
  g_sub :: "'g \<Rightarrow> 'g \<Rightarrow> 'g"
  g_mul :: "'g \<Rightarrow> 'g \<Rightarrow> 'g"
  g_round :: "'g \<Rightarrow> int"

definition clamp_u8 :: "int \<Rightarrow> 8 word" where
  "clamp_u8 x = of_int (max 0 (min 255 x))"

definition ycbcr_to_rgb :: "'g f32_ops \<Rightarrow> 8 word \<Rightarrow> 8 word \<Rightarrow> 8 word \<Rightarrow> 8 word \<times> 8 word \<times> 8 word" where
  "ycbcr_to_rgb g y cb cr =
     (let y_f = g_of_int g (uint y);
          cb_i = g_of_int g (uint cb - 128);
          cr_i = g_of_int g (uint cr - 128);
          red = g_round g (g_add g y_f (g_mul g (g_lit g 1.402) cr_i));
          green = g_round g (g_sub g (g_sub g y_f (g_mul g (g_lit g 0.344136) cb_i)) (g_mul g (g_lit g 0.714136) cr_i));
          blue = g_round g (g_add g y_f (g_mul g (g_lit g 1.772) cb_i))
      in (clamp_u8 red, clamp_u8 green, clamp_u8 blue))"

definition ycbcr_translate :: "'g f32_ops \<Rightarrow> nat \<Rightarrow> variable_value \<Rightarrow> string \<times> value_kind" where
  "ycbcr_translate ops num_bits value = (case value of
     BigUint v \<Rightarrow> (let (y, cb, cr) = channels num_bits v; (r, g, b) = ycbcr_to_rgb ops y cb cr
       in (''#'' @ hex_byte y @ hex_byte cb @ hex_byte cr, Custom (from_rgb r g b)))
   | String s \<Rightarrow> (s, kind_for_binary_representation s))"

definition grayscale_translate :: "nat \<Rightarrow> variable_value \<Rightarrow> string \<times> value_kind" where
  "grayscale_translate num_bits value = (case value of
     BigUint v \<Rightarrow> (let g = (if 8 \<le> num_bits then to_u8 (drop_bit (num_bits - 8) v) else to_u8 (push_bit (8 - num_bits) v))
       in (''#'' @ hex_byte g, Custom (from_rgb g g g)))
   | String s \<Rightarrow> (s, kind_for_binary_representation s))"

subsection \<open>Instructions (instruction\_translators.rs)\<close>

text \<open>
  \<open>dec\<close> is the decoder of the crate \<^verbatim>\<open>instruction-decoder\<close>. The digits of a number in base \<open>2 ^ 64\<close> are
  listed from the lowest, so the last one is the highest.
\<close>

definition last_u64_digit :: "nat \<Rightarrow> nat option" where
  "last_u64_digit v = (if v = 0 then None else Some (hd (digits_of (2 ^ 64) v)))"

definition instruction_translate :: "(64 word \<Rightarrow> nat \<Rightarrow> string option) \<Rightarrow> nat \<Rightarrow> variable_value \<Rightarrow> string \<times> value_kind" where
  "instruction_translate dec num_bits value =
     (let finish = (\<lambda>digit :: nat option. let u64_value = (case digit of Some d \<Rightarrow> d | None \<Rightarrow> 0) in
        case dec (of_nat u64_value) num_bits of
          Some iform \<Rightarrow> (iform, Normal)
        | None \<Rightarrow> (''UNKNOWN INSN (0x'' @ zero_pad (ceil_div num_bits 4) (show_radix 16 u64_value) @ '')'', Warn))
      in case value of
        BigUint v \<Rightarrow> finish (last_u64_digit v)
      | String s \<Rightarrow> (case check_vector_variable s of Some v \<Rightarrow> v | None \<Rightarrow> finish (parse_unsigned 64 2 s)))"

subsection \<open>The translators of the program\<close>

definition fp8_bounds :: "(fp8 \<Rightarrow> 'f) \<Rightarrow> rat numeric_range \<Rightarrow> 'f numeric_range" where
  "fp8_bounds to_f64 r = \<lparr>nr_min = to_f64 (FpNum (nr_min r)), nr_max = to_f64 (FpNum (nr_max r))\<rparr>"

definition bit_translator :: "'f numerics \<Rightarrow> ('v, 's, 'f) basic_translator" where
  "bit_translator nm = (basic nm ''Bit'' (infallible bit_translate))
     \<lparr>bt_translates := \<lambda>m. Inr (bit_translates m),
      bt_info := \<lambda>m. Inr InfoBool\<rparr>"

definition hex_translator :: "'f numerics \<Rightarrow> ('v, 's, 'f) basic_translator" where
  "hex_translator nm = (basic nm ''Hexadecimal'' (infallible hex_translate))
     \<lparr>bt_range := hex_range (nm_floats nm)\<rparr>"

definition octal_translator :: "'f numerics \<Rightarrow> ('v, 's, 'f) basic_translator" where
  "octal_translator nm = (basic nm ''Octal'' (infallible octal_translate))
     \<lparr>bt_range := octal_range (nm_floats nm)\<rparr>"

definition grouping_binary_translator :: "'f numerics \<Rightarrow> ('v, 's, 'f) basic_translator" where
  "grouping_binary_translator nm = (basic nm ''Binary (with groups)'' (infallible grouping_binary_translate))
     \<lparr>bt_range := grouping_binary_range (nm_floats nm)\<rparr>"

definition binary_translator :: "'f numerics \<Rightarrow> ('v, 's, 'f) basic_translator" where
  "binary_translator nm = (basic nm ''Binary'' (infallible binary_translate))
     \<lparr>bt_range := binary_range (nm_floats nm)\<rparr>"

definition ascii_translator :: "'f numerics \<Rightarrow> ('v, 's, 'f) basic_translator" where
  "ascii_translator nm = basic nm ''ASCII'' ascii_translate"

definition leb_translator :: "'f numerics \<Rightarrow> ('v, 's, 'f) basic_translator" where
  "leb_translator nm = (basic nm ''LEBxxx'' (infallible (leb_translate (nm_parse_big nm))))
     \<lparr>bt_translates := \<lambda>m. Inr (leb_translates m)\<rparr>"

definition unsigned_translator :: "'f numerics \<Rightarrow> ('v, 's, 'f) basic_translator" where
  "unsigned_translator nm = (basic nm ''Unsigned'' (infallible (unsigned_translate (nm_parse_big nm))))
     \<lparr>bt_translates := \<lambda>m. Inr (unsigned_translates m),
      bt_numeric := infallible (unsigned_numeric (nm_parse_big nm) (nm_to_f64 nm)),
      bt_range := unsigned_range (nm_floats nm)\<rparr>"

definition signed_translator :: "'f numerics \<Rightarrow> ('v, 's, 'f) basic_translator" where
  "signed_translator nm = (basic nm ''Signed'' (signed_translate (nm_parse_big nm)))
     \<lparr>bt_translates := \<lambda>m. Inr (signed_translates m),
      bt_numeric := signed_numeric (nm_parse_big nm) (nm_floats nm) (nm_to_f64 nm),
      bt_range := signed_range (nm_floats nm)\<rparr>"

definition single_translator :: "'f numerics \<Rightarrow> ('v, 's, 'f) basic_translator" where
  "single_translator nm = (basic nm ''FP: 32-bit IEEE 754'' (infallible (single_translate (nm_formats nm) (nm_parse_big nm))))
     \<lparr>bt_translates := \<lambda>m. Inr (single_translates m),
      bt_numeric := infallible (single_numeric (nm_formats nm) (nm_parse_big nm))\<rparr>"

definition double_translator :: "'f numerics \<Rightarrow> ('v, 's, 'f) basic_translator" where
  "double_translator nm = (basic nm ''FP: 64-bit IEEE 754'' (infallible (double_translate (nm_formats nm) (nm_parse_big nm))))
     \<lparr>bt_translates := \<lambda>m. Inr (double_translates m),
      bt_numeric := infallible (double_numeric (nm_formats nm) (nm_parse_big nm))\<rparr>"

definition half_translator :: "'f numerics \<Rightarrow> ('v, 's, 'f) basic_translator" where
  "half_translator nm = (basic nm ''FP: 16-bit IEEE 754'' (infallible (half_translate (nm_formats nm) (nm_parse_big nm))))
     \<lparr>bt_translates := \<lambda>m. Inr (half_translates m),
      bt_numeric := infallible (half_numeric (nm_formats nm) (nm_parse_big nm)),
      bt_range := half_range (nm_formats nm)\<rparr>"

definition bfloat16_translator :: "'f numerics \<Rightarrow> ('v, 's, 'f) basic_translator" where
  "bfloat16_translator nm = (basic nm ''FP: bfloat16'' (infallible (bfloat16_translate (nm_formats nm) (nm_parse_big nm))))
     \<lparr>bt_translates := \<lambda>m. Inr (bfloat16_translates m),
      bt_numeric := infallible (bfloat16_numeric (nm_formats nm) (nm_parse_big nm)),
      bt_range := bfloat16_range (nm_formats nm)\<rparr>"

definition posit32_translator :: "'f numerics \<Rightarrow> ('v, 's, 'f) basic_translator" where
  "posit32_translator nm = (basic nm ''Posit: 32-bit (two exponent bits)'' (infallible (posit32_translate (nm_formats nm) (nm_parse_big nm))))
     \<lparr>bt_translates := \<lambda>m. Inr (posit32_translates m),
      bt_numeric := infallible (posit32_numeric (nm_formats nm) (nm_parse_big nm))\<rparr>"

definition posit16_translator :: "'f numerics \<Rightarrow> ('v, 's, 'f) basic_translator" where
  "posit16_translator nm = (basic nm ''Posit: 16-bit (one exponent bit)'' (infallible (posit16_translate (nm_formats nm) (nm_parse_big nm))))
     \<lparr>bt_translates := \<lambda>m. Inr (posit16_translates m),
      bt_numeric := infallible (posit16_numeric (nm_formats nm) (nm_parse_big nm))\<rparr>"

definition posit8_translator :: "'f numerics \<Rightarrow> ('v, 's, 'f) basic_translator" where
  "posit8_translator nm = (basic nm ''Posit: 8-bit (no exponent bit)'' (infallible (posit8_translate (nm_formats nm) (nm_parse_big nm))))
     \<lparr>bt_translates := \<lambda>m. Inr (posit8_translates m),
      bt_numeric := infallible (posit8_numeric (nm_formats nm) (nm_parse_big nm))\<rparr>"

definition quire8_translator :: "'f numerics \<Rightarrow> ('v, 's, 'f) basic_translator" where
  "quire8_translator nm = (basic nm ''Posit: quire for 8-bit (no exponent bit)'' (infallible (quire8_translate (nm_formats nm) (nm_parse_big nm))))
     \<lparr>bt_translates := \<lambda>m. Inr (quire8_translates m),
      bt_numeric := infallible (quire8_numeric (nm_formats nm) (nm_parse_big nm))\<rparr>"

definition quire16_translator :: "'f numerics \<Rightarrow> ('v, 's, 'f) basic_translator" where
  "quire16_translator nm = (basic nm ''Posit: quire for 16-bit (one exponent bit)'' (infallible (quire16_translate (nm_formats nm) (nm_parse_big nm))))
     \<lparr>bt_translates := \<lambda>m. Inr (quire16_translates m),
      bt_numeric := infallible (quire16_numeric (nm_formats nm) (nm_parse_big nm))\<rparr>"

definition e5m2_translator :: "'f numerics \<Rightarrow> ('v, 's, 'f) basic_translator" where
  "e5m2_translator nm = (basic nm ''FP: 8-bit (E5M2)'' (infallible (e5m2_translate (nm_show_f32 nm) (nm_parse_big nm))))
     \<lparr>bt_translates := \<lambda>m. Inr (eight_bit_translates m),
      bt_numeric := infallible (e5m2_numeric (nm_fp8 nm) (nm_parse_big nm)),
      bt_range := \<lambda>n. Some (fp8_bounds (nm_fp8 nm) e5m2_range)\<rparr>"

definition e4m3_translator :: "'f numerics \<Rightarrow> ('v, 's, 'f) basic_translator" where
  "e4m3_translator nm = (basic nm ''FP: 8-bit (E4M3)'' (infallible (e4m3_translate (nm_show_f32 nm) (nm_parse_big nm))))
     \<lparr>bt_translates := \<lambda>m. Inr (eight_bit_translates m),
      bt_numeric := infallible (e4m3_numeric (nm_fp8 nm) (nm_parse_big nm)),
      bt_range := \<lambda>n. Some (fp8_bounds (nm_fp8 nm) e4m3_range)\<rparr>"

definition number_of_ones_translator :: "'f numerics \<Rightarrow> ('v, 's, 'f) basic_translator" where
  "number_of_ones_translator nm = (basic nm ''Number of ones'' (infallible number_of_ones_translate))
     \<lparr>bt_numeric := infallible (number_of_ones_numeric (nm_parse_big nm) (nm_to_f64 nm))\<rparr>"

definition leading_ones_translator :: "'f numerics \<Rightarrow> ('v, 's, 'f) basic_translator" where
  "leading_ones_translator nm = (basic nm ''Leading ones'' (infallible leading_ones_translate))
     \<lparr>bt_numeric := infallible (leading_ones_numeric (nm_parse_big nm) (nm_to_f64 nm))\<rparr>"

definition trailing_ones_translator :: "'f numerics \<Rightarrow> ('v, 's, 'f) basic_translator" where
  "trailing_ones_translator nm = (basic nm ''Trailing ones'' (infallible trailing_ones_translate))
     \<lparr>bt_numeric := infallible (trailing_ones_numeric (nm_parse_big nm) (nm_to_f64 nm))\<rparr>"

definition leading_zeros_translator :: "'f numerics \<Rightarrow> ('v, 's, 'f) basic_translator" where
  "leading_zeros_translator nm = (basic nm ''Leading zeros'' (infallible leading_zeros_translate))
     \<lparr>bt_numeric := infallible (leading_zeros_numeric (nm_parse_big nm) (nm_to_f64 nm))\<rparr>"

definition trailing_zeros_translator :: "'f numerics \<Rightarrow> ('v, 's, 'f) basic_translator" where
  "trailing_zeros_translator nm = (basic nm ''Trailing zeros'' (infallible trailing_zeros_translate))
     \<lparr>bt_numeric := infallible (trailing_zeros_numeric (nm_parse_big nm) (nm_to_f64 nm))\<rparr>"

definition identical_msbs_translator :: "'f numerics \<Rightarrow> ('v, 's, 'f) basic_translator" where
  "identical_msbs_translator nm = (basic nm ''Identical MSBs'' (infallible identical_msbs_translate))
     \<lparr>bt_numeric := infallible (identical_msbs_numeric (nm_parse_big nm) (nm_to_f64 nm))\<rparr>"

definition quad_translator :: "'f numerics \<Rightarrow> ('v, 's, 'f) basic_translator" where
  "quad_translator nm = (basic nm ''FP: 128-bit IEEE 754'' (infallible (quad_translate (nm_formats nm) (nm_parse_big nm))))
     \<lparr>bt_translates := \<lambda>m. Inr (quad_translates m)\<rparr>"

definition rgb_translator :: "'f numerics \<Rightarrow> ('v, 's, 'f) basic_translator" where
  "rgb_translator nm = (basic nm ''RGB'' (infallible rgb_translate))
     \<lparr>bt_translates := \<lambda>m. Inr (three_channel_translates m)\<rparr>"

definition grayscale_translator :: "'f numerics \<Rightarrow> ('v, 's, 'f) basic_translator" where
  "grayscale_translator nm = basic nm ''Grayscale'' (infallible grayscale_translate)"

definition ycbcr_translator :: "'g f32_ops \<Rightarrow> 'f numerics \<Rightarrow> ('v, 's, 'f) basic_translator" where
  "ycbcr_translator ops nm = (basic nm ''YCbCr'' (infallible (ycbcr_translate ops)))
     \<lparr>bt_translates := \<lambda>m. Inr (three_channel_translates m)\<rparr>"

definition instruction_translator :: "'f numerics \<Rightarrow> string \<Rightarrow> (64 word \<Rightarrow> nat \<Rightarrow> string option) \<Rightarrow> nat
    \<Rightarrow> ('v, 's, 'f) basic_translator" where
  "instruction_translator nm name dec num_bits = (basic nm name (infallible (instruction_translate dec)))
     \<lparr>bt_translates := \<lambda>m. Inr (check_single_wordlength (vm_num_bits m) num_bits)\<rparr>"

definition clock_translator :: "'f numerics \<Rightarrow> ('v, 's, 'f) full_translator" where
  "clock_translator nm = full nm ''Clock'' (\<lambda>m v. translate_with_basic (bit_translator nm) m v) InfoClock clock_translates"

definition string_translator :: "'f numerics \<Rightarrow> ('v, 's, 'f) full_translator" where
  "string_translator nm = full nm ''String'' string_translate InfoString string_translates"

definition enum_translator :: "'f numerics \<Rightarrow> ('v, 's, 'f) full_translator" where
  "enum_translator nm = full nm ''Enum'' enum_translate InfoBits enum_translates"

definition ufixed_translator :: "'f numerics \<Rightarrow> ('v, 's, 'f) full_translator" where
  "ufixed_translator nm = full nm ''Unsigned fixed point'' (\<lambda>m v. Ok (ufixed_translate (nm_parse_big nm) m v)) InfoBits ufixed_translates"

definition sfixed_translator :: "'f numerics \<Rightarrow> ('v, 's, 'f) full_translator" where
  "sfixed_translator nm = full nm ''Signed fixed point'' (sfixed_translate (nm_parse_big nm)) InfoBits sfixed_translates"

definition event_translator :: "'f numerics \<Rightarrow> ('v, 's, 'f) full_translator" where
  "event_translator nm = full nm ''Event'' event_translate InfoEvent event_translates"

definition standard_basic :: "'f numerics \<Rightarrow> 'g f32_ops \<Rightarrow> (string \<Rightarrow> 64 word \<Rightarrow> nat \<Rightarrow> string option) \<Rightarrow> bool
    \<Rightarrow> ('v, 's, 'f) basic_translator list" where
  "standard_basic nm ops decoder f128 =
     map (\<lambda>t. t nm) [bit_translator, hex_translator, octal_translator, grouping_binary_translator, binary_translator, ascii_translator] @
     map (\<lambda>name. instruction_translator nm name (decoder name) 32) [''RV32'', ''RV64'', ''MIPS'', ''LA64''] @
     map (\<lambda>t. t nm) [leb_translator, unsigned_translator, signed_translator, single_translator, double_translator, half_translator, bfloat16_translator, posit32_translator, posit16_translator, posit8_translator, quire8_translator, quire16_translator, e5m2_translator, e4m3_translator, number_of_ones_translator, leading_ones_translator, trailing_ones_translator, leading_zeros_translator, trailing_zeros_translator, identical_msbs_translator] @
     (if f128 then [quad_translator nm] else []) @
     map (\<lambda>t. t nm) [rgb_translator, grayscale_translator, ycbcr_translator ops]"

definition standard_full :: "'f numerics \<Rightarrow> ('v, 's, 'f) full_translator list" where
  "standard_full nm = map (\<lambda>t. t nm)
     [clock_translator, string_translator, enum_translator, ufixed_translator, sfixed_translator, event_translator]"

subsection \<open>The list of translators\<close>

text \<open>
  The hash map from names to translators is an association list in the order in which the map happens to be
  iterated; a new name goes anywhere in that order, here to the end.
\<close>

record ('v, 's, 'f) translator_list =
  tl_inner :: "(string \<times> ('v, 's, 'f) any_translator) list"
  tl_default :: string

definition hash_insert :: "string \<Rightarrow> 'a \<Rightarrow> (string \<times> 'a) list \<Rightarrow> (string \<times> 'a) list" where
  "hash_insert k v xs = (if k \<in> fst ` set xs then map (\<lambda>(k', v'). (k', if k' = k then v else v')) xs else xs @ [(k, v)])"

definition add_or_replace :: "('v, 's, 'f) any_translator \<Rightarrow> ('v, 's, 'f) translator_list \<Rightarrow> ('v, 's, 'f) translator_list" where
  "add_or_replace t ts = ts\<lparr>tl_inner := hash_insert (at_name t) t (tl_inner ts)\<rparr>"

definition new_translators :: "('v, 's, 'f) basic_translator list \<Rightarrow> ('v, 's, 'f) full_translator list \<Rightarrow> ('v, 's, 'f) translator_list" where
  "new_translators basics fulls = \<lparr>tl_inner = fold (\<lambda>t. hash_insert (at_name t) t) (map Basic basics @ map Full fulls) [],
     tl_default = ''Hexadecimal''\<rparr>"

definition all_translator_names :: "('v, 's, 'f) translator_list \<Rightarrow> string list" where
  "all_translator_names ts = map fst (tl_inner ts)"

definition all_translators_of :: "('v, 's, 'f) translator_list \<Rightarrow> ('v, 's, 'f) any_translator list" where
  "all_translators_of ts = map snd (tl_inner ts)"

definition basic_translator_names :: "('v, 's, 'f) translator_list \<Rightarrow> string list" where
  "basic_translator_names ts = map fst (filter (\<lambda>(name, t). is_basic t) (tl_inner ts))"

definition get_translator :: "string \<Rightarrow> ('v, 's, 'f) translator_list \<Rightarrow> (string, ('v, 's, 'f) any_translator) outcome" where
  "get_translator name ts = (case map_of (tl_inner ts) name of Some t \<Rightarrow> Ok t | None \<Rightarrow> Panic)"

definition is_valid_translator :: "('v, 's) variable_meta \<Rightarrow> string \<Rightarrow> ('v, 's, 'f) translator_list \<Rightarrow> (string, bool) outcome" where
  "is_valid_translator m candidate ts = and_then (get_translator candidate ts)
     (\<lambda>t. Ok (case at_translates t m of Inr p \<Rightarrow> p \<noteq> No | Inl _ \<Rightarrow> False))"

text \<open>All translators: the program's, those of the user's instruction decoders and mappings, and the full ones.\<close>

definition all_translators :: "'f numerics \<Rightarrow> 'g f32_ops \<Rightarrow> (string \<Rightarrow> 64 word \<Rightarrow> nat \<Rightarrow> string option) \<Rightarrow> bool
    \<Rightarrow> ('v, 's, 'f) basic_translator list \<Rightarrow> ('v, 's, 'f) basic_translator list \<Rightarrow> ('v, 's, 'f) translator_list" where
  "all_translators nm ops decoder f128 user_decoders user_mappings =
     new_translators (standard_basic nm ops decoder f128 @ user_decoders @ user_mappings) (standard_full nm)"

subsection \<open>The translator of a variable\<close>

definition prefers :: "('v, 's) variable_meta \<Rightarrow> ('v, 's, 'f) any_translator \<Rightarrow> bool" where
  "prefers m t \<longleftrightarrow> at_translates t m = Inr Prefer"

definition drop_name :: "string \<Rightarrow> string list \<Rightarrow> string list" where
  "drop_name n = filter (\<lambda>x. x \<noteq> n)"

text \<open>The last element is taken, after sorting when there are several.\<close>

definition pick_preferred :: "bool \<Rightarrow> string list \<Rightarrow> string option" where
  "pick_preferred single_bit preferred =
     (let preferred = (if 1 < length preferred then
          (let kept = (if single_bit then drop_name ''Bit'' preferred
             else let p = drop_name ''Signed'' preferred in if 1 < length p then drop_name ''Enum'' p else p)
           in if 1 < length kept then sort kept else kept)
        else preferred)
      in if preferred = [] then None else Some (last preferred))"

definition select_preferred_translator :: "('v, 's) variable_meta \<Rightarrow> ('v, 's, 'f) translator_list \<Rightarrow> string" where
  "select_preferred_translator m ts =
     (case pick_preferred (vm_num_bits m = Some 1) (map at_name (filter (prefers m) (all_translators_of ts))) of
        Some name \<Rightarrow> name | None \<Rightarrow> tl_default ts)"

definition variable_translator_name :: "string option \<Rightarrow> string list \<Rightarrow> ('v, 's, 'f) translator_list
    \<Rightarrow> (string, ('v, 's) variable_meta) outcome \<Rightarrow> string" where
  "variable_translator_name translator field ts meta = (case translator of
     Some name \<Rightarrow> name
   | None \<Rightarrow> if field = [] then (case meta of Ok m \<Rightarrow> select_preferred_translator m ts | _ \<Rightarrow> tl_default ts)
       else tl_default ts)"

definition variable_translator :: "string option \<Rightarrow> string list \<Rightarrow> ('v, 's, 'f) translator_list
    \<Rightarrow> (string, ('v, 's) variable_meta) outcome \<Rightarrow> (string, ('v, 's, 'f) any_translator) outcome" where
  "variable_translator translator field ts meta = get_translator (variable_translator_name translator field ts meta) ts"

subsection \<open>Formatting hierarchical values\<close>

text \<open>What a row of a tuple, struct or array shows of a part.\<close>

definition shown :: "hier_format_result \<Rightarrow> string" where
  "shown v = (case hf_this v of Some t \<Rightarrow> tv_value t | None \<Rightarrow> ''-'')"

definition format_with_basic :: "string \<Rightarrow> ('v, 's, 'f) translator_list \<Rightarrow> nat \<Rightarrow> string \<Rightarrow> (string, translated_value option) outcome" where
  "format_with_basic name ts bit_count digits = and_then (get_translator name ts) (\<lambda>t. case t of
     Basic t \<Rightarrow> and_then (bt_translate t bit_count (String digits)) (\<lambda>r. Ok (Some (from_basic_translate r)))
   | Full _ \<Rightarrow> Panic)"

fun format :: "value_repr \<Rightarrow> value_kind \<Rightarrow> string \<Rightarrow> ('v, 's, 'f) translator_list \<Rightarrow> hier_format_result list
    \<Rightarrow> (string, translated_value option) outcome" where
  "format (ReprBit val) kind name ts subs = format_with_basic name ts 1 [val]"
| "format (ReprBits bit_count bs) kind name ts subs = format_with_basic name ts bit_count bs"
| "format (ReprString s) kind name ts subs = Ok (Some \<lparr>tv_value = s, tv_kind = kind\<rparr>)"
| "format ReprTuple kind name ts subs =
     Ok (Some \<lparr>tv_value = ''('' @ join '', '' (map shown subs) @ '')'', tv_kind = kind\<rparr>)"
| "format ReprStruct kind name ts subs =
     Ok (Some \<lparr>tv_value = ''{'' @ join '', '' (map (\<lambda>v. join ''_'' (hf_names v) @ '': '' @ shown v) subs) @ ''}'', tv_kind = kind\<rparr>)"
| "format ReprArray kind name ts subs =
     Ok (Some \<lparr>tv_value = ''['' @ join '', '' (map shown subs) @ '']'', tv_kind = kind\<rparr>)"
| "format NotPresent kind name ts subs = Ok None"
| "format (ReprEnum idx vname) kind name ts subs =
     (if idx < length subs then Ok (Some \<lparr>tv_value = vname @ ''{'' @ shown (subs ! idx) @ ''}'', tv_kind = kind\<rparr>) else Panic)"
| "format ReprEvent kind name ts subs = Ok (Some \<lparr>tv_value = ''Event'', tv_kind = kind\<rparr>)"

fun collect_outcomes :: "('e, 'a) outcome list \<Rightarrow> ('e, 'a list) outcome" where
  "collect_outcomes [] = Ok []"
| "collect_outcomes (r # rs) = and_then r (\<lambda>x. and_then (collect_outcomes rs) (\<lambda>xs. Ok (x # xs)))"

text \<open>The format of a field: the first entry of the user's formats with its path, or the default.\<close>

definition field_translator :: "field_format list \<Rightarrow> ('v, 's, 'f) translator_list \<Rightarrow> string list \<Rightarrow> string" where
  "field_translator formats ts path = (case List.find (\<lambda>e. ff_field e = path) formats of
     Some e \<Rightarrow> ff_format e | None \<Rightarrow> tl_default ts)"

fun sub_format :: "field_format list \<Rightarrow> ('v, 's, 'f) translator_list \<Rightarrow> string list \<Rightarrow> translation_result
    \<Rightarrow> (string, hier_format_result list) outcome" where
  "sub_format formats ts path_so_far (TranslationResult val subfields kind) =
     collect_outcomes (map (\<lambda>(name, result).
       let sub_path = path_so_far @ [name] in
       and_then (sub_format formats ts sub_path result) (\<lambda>sub.
       and_then (format (tr_val result) (tr_kind result) (field_translator formats ts sub_path) ts sub) (\<lambda>formatted.
       Ok (HierFormatResult sub_path formatted sub)))) subfields)"

definition format_flat :: "string option \<Rightarrow> field_format list \<Rightarrow> ('v, 's, 'f) translator_list \<Rightarrow> translation_result
    \<Rightarrow> (string, (string list \<times> translated_value option) list) outcome" where
  "format_flat root_format formats ts res = and_then (sub_format formats ts [] res) (\<lambda>sub.
     and_then (format (tr_val res) (tr_kind res) (case root_format of Some f \<Rightarrow> f | None \<Rightarrow> tl_default ts) ts sub) (\<lambda>formatted.
     Ok (collect_into (HierFormatResult [] formatted sub) [])))"

subsection \<open>Paths into the structure of a variable\<close>

fun has_subpath :: "variable_info \<Rightarrow> string list \<Rightarrow> bool" where
  "has_subpath info [] \<longleftrightarrow> True"
| "has_subpath info (field # rest) \<longleftrightarrow> (case info of
     InfoCompound subfields \<Rightarrow> (case List.find (\<lambda>(f, i). f = field) subfields of
        Some (f, i) \<Rightarrow> has_subpath i rest | None \<Rightarrow> False)
   | _ \<Rightarrow> False)"

fun get_subinfo :: "variable_info \<Rightarrow> string list \<Rightarrow> ('e, variable_info) outcome" where
  "get_subinfo info [] = Ok info"
| "get_subinfo info (field # rest) = (case info of
     InfoCompound subfields \<Rightarrow> (case List.find (\<lambda>(f, i). f = field) subfields of
        Some (f, i) \<Rightarrow> get_subinfo i rest | None \<Rightarrow> Panic)
   | _ \<Rightarrow> Panic)"

subsection \<open>Colours of kinds\<close>

record theme_colors =
  th_highimp :: color32
  th_undef :: color32
  th_dontcare :: color32
  th_weak :: color32
  th_error_background :: color32
  th_event :: color32

fun kind_color :: "value_kind \<Rightarrow> color32 \<Rightarrow> theme_colors \<Rightarrow> color32" where
  "kind_color HighImp user theme = th_highimp theme"
| "kind_color Undef user theme = th_undef theme"
| "kind_color DontCare user theme = th_dontcare theme"
| "kind_color Warn user theme = th_undef theme"
| "kind_color (Custom c) user theme = c"
| "kind_color Weak user theme = th_weak theme"
| "kind_color KindError user theme = th_error_background theme"
| "kind_color Normal user theme = user"
| "kind_color Event user theme = th_event theme"

subsection \<open>The choice does not depend on the hash map\<close>

lemma sort_mset: "mset xs = mset ys \<Longrightarrow> sort xs = sort ys"
  by (metis mset_sort properties_for_sort sorted_sort)

lemma mset_short: "mset xs = mset ys \<Longrightarrow> \<not> 1 < length xs \<Longrightarrow> xs = ys"
proof -
  assume m: "mset xs = mset ys" and "\<not> 1 < length xs"
  then have "length ys \<le> 1" "length xs \<le> 1" using mset_eq_length[OF m] by simp_all
  with m show "xs = ys" by (cases xs; cases ys; auto)
qed

lemma mset_drop_name: "mset xs = mset ys \<Longrightarrow> mset (drop_name n xs) = mset (drop_name n ys)"
  by (simp add: drop_name_def mset_filter)

text \<open>What is left after the names that give way are removed, and how it is put in order.\<close>

definition contenders :: "bool \<Rightarrow> string list \<Rightarrow> string list" where
  "contenders single_bit preferred = (if 1 < length preferred then
     (if single_bit then drop_name ''Bit'' preferred
      else let p = drop_name ''Signed'' preferred in if 1 < length p then drop_name ''Enum'' p else p) else preferred)"

lemma pick_contenders:
  "pick_preferred b ps = (let c = contenders b ps; c = (if 1 < length c then sort c else c) in if c = [] then None else Some (last c))"
  by (auto simp: pick_preferred_def contenders_def Let_def)

lemma mset_contenders: "mset xs = mset ys \<Longrightarrow> mset (contenders b xs) = mset (contenders b ys)"
  using mset_drop_name[of xs ys] mset_drop_name[of "drop_name ''Signed'' xs" "drop_name ''Signed'' ys"]
    mset_eq_length[of xs ys] mset_eq_length[of "drop_name ''Signed'' xs" "drop_name ''Signed'' ys"]
  by (simp add: contenders_def Let_def)

lemma pick_mset:
  assumes "mset xs = mset ys"
  shows "pick_preferred b xs = pick_preferred b ys"
proof -
  note m = mset_contenders[OF assms, of b]
  have "(if 1 < length (contenders b xs) then sort (contenders b xs) else contenders b xs) =
    (if 1 < length (contenders b ys) then sort (contenders b ys) else contenders b ys)"
    using sort_mset[OF m] mset_short[OF m] mset_eq_length[OF m] by simp
  then show ?thesis by (simp add: pick_contenders)
qed

lemma contenders_nonempty:
  assumes "distinct ps" "ps \<noteq> []"
  shows "contenders b ps \<noteq> []"
proof -
  have keep: "drop_name n qs \<noteq> []" if d: "distinct qs" "1 < length qs" for n qs
  proof -
    obtain x y zs where "qs = x # y # zs" using d(2) by (cases qs; cases "tl qs") auto
    with d(1) have "x \<noteq> n \<or> y \<noteq> n" by auto
    then show ?thesis using \<open>qs = x # y # zs\<close> by (auto simp: drop_name_def)
  qed
  have "distinct (drop_name n ps)" for n using assms(1) by (simp add: drop_name_def)
  then show ?thesis using assms keep by (simp add: contenders_def Let_def)
qed

lemma contenders_subset: "set (contenders b ps) \<subseteq> set ps"
  by (auto simp: contenders_def drop_name_def Let_def)

lemma sort_empty [simp]: "sort xs = [] \<longleftrightarrow> xs = []"
  by (metis length_0_conv length_sort)

lemma pick_in: "pick_preferred b ps = Some n \<Longrightarrow> n \<in> set (contenders b ps)"
  by (auto simp: pick_contenders Let_def split: if_splits) (metis last_in_set set_sort sort_empty)+

lemma pick_None: "distinct ps \<Longrightarrow> pick_preferred b ps = None \<longleftrightarrow> ps = []"
  using contenders_nonempty[of ps b]
  by (cases "ps = []") (auto simp: pick_contenders Let_def contenders_def[of b "[]"] split: if_splits)

text \<open>
  Choice of a translator. The translator chosen for a variable does not depend on the order in which the
  hash map of translators is iterated, which differs from run to run.
\<close>

theorem choice_is_stable:
  assumes "mset (tl_inner a) = mset (tl_inner b)" "tl_default a = tl_default b"
  shows "select_preferred_translator m a = select_preferred_translator m b"
proof -
  have "mset (map at_name (filter (prefers m) (all_translators_of a))) = mset (map at_name (filter (prefers m) (all_translators_of b)))"
    using assms(1) by (simp add: all_translators_of_def mset_map mset_filter)
  from pick_mset[OF this] show ?thesis by (simp only: select_preferred_translator_def assms(2))
qed

subsection \<open>A list of translators stays well formed\<close>

definition list_ok :: "('v, 's, 'f) translator_list \<Rightarrow> bool" where
  "list_ok ts \<longleftrightarrow> distinct (map fst (tl_inner ts)) \<and> list_all (\<lambda>(name, t). at_name t = name) (tl_inner ts) \<and>
     tl_default ts \<in> set (map fst (tl_inner ts))"

lemma keys_hash_insert: "fst ` set (hash_insert k v xs) = insert k (fst ` set xs)"
  by (force simp: hash_insert_def)

lemma hash_insert_ok:
  assumes "distinct (map fst xs)" "list_all (\<lambda>(name, t). at_name t = name) xs"
  shows "distinct (map fst (hash_insert (at_name t) t xs)) \<and> list_all (\<lambda>(name, t). at_name t = name) (hash_insert (at_name t) t xs)"
proof (cases "at_name t \<in> fst ` set xs")
  case True
  then have h: "hash_insert (at_name t) t xs = map (\<lambda>(k', v'). (k', if k' = at_name t then t else v')) xs"
    by (simp add: hash_insert_def)
  have "map fst (hash_insert (at_name t) t xs) = map fst xs" by (simp add: h split_def comp_def)
  moreover have "list_all (\<lambda>(name, t). at_name t = name) (hash_insert (at_name t) t xs)"
    using assms(2) unfolding h list_all_iff by auto
  ultimately show ?thesis using assms(1) by simp
next
  case False
  with assms show ?thesis by (auto simp: hash_insert_def list_all_iff)
qed

lemma fold_insert_ok:
  assumes "distinct (map fst xs)" "list_all (\<lambda>(name, t). at_name t = name) xs"
  shows "distinct (map fst (fold (\<lambda>t. hash_insert (at_name t) t) new xs)) \<and>
    list_all (\<lambda>(name, t). at_name t = name) (fold (\<lambda>t. hash_insert (at_name t) t) new xs) \<and>
    fst ` set (fold (\<lambda>t. hash_insert (at_name t) t) new xs) = fst ` set xs \<union> at_name ` set new"
  using assms
proof (induction new arbitrary: xs)
  case (Cons t new)
  from hash_insert_ok[OF Cons.prems, of t] Cons.IH[of "hash_insert (at_name t) t xs"] show ?case
    by (auto simp: keys_hash_insert)
qed simp

lemma new_translators_ok: "''Hexadecimal'' \<in> bt_name ` set basics \<Longrightarrow> list_ok (new_translators basics fulls)"
proof -
  assume "''Hexadecimal'' \<in> bt_name ` set basics"
  moreover have "at_name ` set (map Basic basics @ map Full fulls) = bt_name ` set basics \<union> ft_name ` set fulls"
    by (simp add: image_Un image_image)
  ultimately show ?thesis using fold_insert_ok[of "[]" "map Basic basics @ map Full fulls"]
    by (simp add: list_ok_def new_translators_def)
qed

lemma all_translators_ok: "list_ok (all_translators nm ops dec f128 ud um)"
  unfolding all_translators_def
  by (rule new_translators_ok) (simp add: standard_basic_def hex_translator_def basic_def)

lemma add_or_replace_ok: "list_ok ts \<Longrightarrow> list_ok (add_or_replace t ts)"
  using hash_insert_ok[of "tl_inner ts" t] by (auto simp: list_ok_def add_or_replace_def keys_hash_insert)

lemma default_add_or_replace [simp]: "tl_default (add_or_replace t ts) = tl_default ts"
  by (simp add: add_or_replace_def)

lemma default_all_translators: "tl_default (all_translators nm ops dec f128 ud um) = ''Hexadecimal''"
  by (simp add: all_translators_def new_translators_def)

lemma fold_add_ok: "list_ok ts \<Longrightarrow> list_ok (fold add_or_replace added ts) \<and> tl_default (fold add_or_replace added ts) = tl_default ts"
  by (induction added arbitrary: ts) (simp_all add: add_or_replace_ok)

lemma get_translator_ok:
  assumes "list_ok ts" "name \<in> set (all_translator_names ts)"
  shows "\<exists>t. get_translator name ts = Ok t \<and> at_name t = name \<and> t \<in> set (all_translators_of ts)"
proof -
  obtain t where t: "map_of (tl_inner ts) name = Some t"
    using assms(2) by (metis all_translator_names_def map_of_eq_None_iff not_None_eq set_map)
  then have "(name, t) \<in> set (tl_inner ts)" by (rule map_of_SomeD)
  with t assms(1) show ?thesis by (force simp: get_translator_def list_ok_def list_all_iff all_translators_of_def)
qed

lemma names_of_ok: "list_ok ts \<Longrightarrow> map at_name (all_translators_of ts) = all_translator_names ts"
  by (force simp: list_ok_def list_all_iff all_translators_of_def all_translator_names_def intro: map_cong)

lemma name_determines:
  assumes "list_ok ts" "s \<in> set (all_translators_of ts)" "t \<in> set (all_translators_of ts)" "at_name s = at_name t"
  shows "s = t"
proof -
  have "distinct (map at_name (all_translators_of ts))"
    using names_of_ok[OF assms(1)] assms(1) by (simp add: list_ok_def all_translator_names_def)
  with assms show ?thesis by (simp add: distinct_map inj_on_def)
qed

lemma list_ok_chooses:
  assumes ok: "list_ok ts" and d: "tl_default ts = ''Hexadecimal''"
  shows "\<exists>t. variable_translator None [] ts (Ok m) = Ok t \<and> t \<in> set (all_translators_of ts) \<and>
    (if \<exists>s \<in> set (all_translators_of ts). prefers m s then prefers m t else at_name t = ''Hexadecimal'')"
proof -
  let ?ps = "map at_name (filter (prefers m) (all_translators_of ts))"
  have dist: "distinct ?ps"
    using names_of_ok[OF ok] ok by (simp add: list_ok_def all_translator_names_def distinct_map_filter)
  have name: "variable_translator_name None [] ts (Ok m) = select_preferred_translator m ts"
    by (simp add: variable_translator_name_def)
  show ?thesis 
  proof (cases "pick_preferred (vm_num_bits m = Some 1) ?ps")
    case None
    with dist have "?ps = []" by (simp add: pick_None)
    moreover have "select_preferred_translator m ts = ''Hexadecimal''" using None d by (simp add: select_preferred_translator_def)
    moreover have "''Hexadecimal'' \<in> set (all_translator_names ts)" using ok d by (simp add: list_ok_def all_translator_names_def)
    ultimately show ?thesis using get_translator_ok[OF ok] name by (fastforce simp: variable_translator_def filter_empty_conv)
  next
    case (Some n)
    then have "n \<in> set ?ps" using pick_in contenders_subset by blast
    then obtain s where s: "s \<in> set (all_translators_of ts)" "prefers m s" "at_name s = n" by auto
    then have "n \<in> set (all_translator_names ts)" by (metis names_of_ok[OF ok] image_eqI set_map)
    then obtain t where t: "get_translator n ts = Ok t" "at_name t = n" "t \<in> set (all_translators_of ts)"
      using get_translator_ok[OF ok] by blast
    have "select_preferred_translator m ts = n" using Some by (simp add: select_preferred_translator_def)
    moreover have "t = s" using name_determines[OF ok t(3) s(1)] t s by simp
    ultimately show ?thesis using t s name by (auto simp: variable_translator_def)
  qed
qed

text \<open>
  Choice of a translator. Starting from the program's translators, whatever translators plugins add or
  replace, the lookup of a variable's translator never fails when the user has chosen none: the result
  prefers the variable whenever any translator of the list does, and otherwise it is the default.
\<close>

theorem chosen_translator_prefers:
  "let ts = fold add_or_replace added (all_translators nm ops dec f128 ud um) in
   \<exists>t. variable_translator None [] ts (Ok m) = Ok t \<and> t \<in> set (all_translators_of ts) \<and>
    (if \<exists>s \<in> set (all_translators_of ts). prefers m s then prefers m t else at_name t = ''Hexadecimal'')"
  unfolding Let_def using fold_add_ok[OF all_translators_ok[of nm ops dec f128 ud um], of added]
  by (intro list_ok_chooses) (simp_all add: default_all_translators)

subsection \<open>The rows of a hierarchical value\<close>

text \<open>The paths of a value's parts, in pre-order, and the shape that a variable's static structure gives them.\<close>

fun result_paths :: "string list \<Rightarrow> translation_result \<Rightarrow> string list list" where
  "result_paths path (TranslationResult val subfields kind) =
     path # concat (map (\<lambda>(name, r). result_paths (path @ [name]) r) subfields)"

fun hier_paths :: "hier_format_result \<Rightarrow> string list list" where
  "hier_paths (HierFormatResult names this fs) = names # concat (map hier_paths fs)"

lemma collect_into_append: "map fst (collect_into h acc) = map fst acc @ hier_paths h"
proof (induction h acc rule: collect_into.induct)
  case (1 names this fs acc)
  have "map fst (fold collect_into gs b) = map fst b @ concat (map hier_paths gs)" if "set gs \<subseteq> set fs" for gs b
    using that 1 by (induction gs arbitrary: b) auto
  from this[of fs "acc @ [(names, this)]"] show ?case by simp
qed

lemma collect_outcomes_Ok:
  "collect_outcomes rs = Ok xs \<Longrightarrow> length xs = length rs \<and> (\<forall>i < length rs. rs ! i = Ok (xs ! i))"
proof (induction rs arbitrary: xs)
  case (Cons r rs)
  then obtain x ys where "r = Ok x" "collect_outcomes rs = Ok ys" "xs = x # ys" by (auto simp: outcome_simps)
  with Cons.IH[of ys] show ?case by (auto simp: nth_Cons split: nat.split)
qed simp

lemma concat_map_nth: "length xs = length ys \<Longrightarrow> (\<And>i. i < length xs \<Longrightarrow> f (xs ! i) = g (ys ! i)) \<Longrightarrow> concat (map f xs) = concat (map g ys)"
  by (metis (mono_tags, lifting) length_map nth_equalityI nth_map)

lemma sub_format_paths:
  "sub_format formats ts path res = Ok hs \<Longrightarrow> path # concat (map hier_paths hs) = result_paths path res"
proof (induction formats ts path res arbitrary: hs rule: sub_format.induct)
  case (1 formats ts path val subfields kind)
  let ?f = "\<lambda>(name, result). let sub_path = path @ [name] in
       and_then (sub_format formats ts sub_path result) (\<lambda>sub.
       and_then (format (tr_val result) (tr_kind result) (field_translator formats ts sub_path) ts sub) (\<lambda>formatted.
       Ok (HierFormatResult sub_path formatted sub)))"
  have c: "length hs = length subfields" "\<And>i. i < length subfields \<Longrightarrow> ?f (subfields ! i) = Ok (hs ! i)"
    using collect_outcomes_Ok[of "map ?f subfields" hs] 1(2) by simp_all
  have "concat (map hier_paths hs) = concat (map (\<lambda>(name, r). result_paths (path @ [name]) r) subfields)"
  proof (rule concat_map_nth)
    fix i assume i: "i < length hs"
    obtain name result where e: "subfields ! i = (name, result)" by fastforce
    from c(2)[of i] i c(1) e obtain sub formatted where
      s: "sub_format formats ts (path @ [name]) result = Ok sub" "HierFormatResult (path @ [name]) formatted sub = hs ! i"
      by (auto simp: outcome_simps Let_def)
    have "(name, result) \<in> set subfields" using i c(1) e by (metis nth_mem)
    from 1(1)[OF this refl refl s(1)] s(2)[symmetric] e show "hier_paths (hs ! i) = (\<lambda>(name, r). result_paths (path @ [name]) r) (subfields ! i)" by simp
  qed (use c in simp)
  then show ?case by simp
qed

lemma format_flat_paths: "format_flat root_format formats ts res = Ok rows \<Longrightarrow> map fst rows = result_paths [] res"
proof -
  assume "format_flat root_format formats ts res = Ok rows"
  then obtain sub formatted where s: "sub_format formats ts [] res = Ok sub" "rows = collect_into (HierFormatResult [] formatted sub) []"
    by (auto simp: format_flat_def outcome_simps)
  from sub_format_paths[OF s(1)] s(2) collect_into_append[of "HierFormatResult [] formatted sub" "[]"] show ?thesis by simp
qed

text \<open>A value has the structure that the translator announced for its variable.\<close>

fun structured :: "variable_info \<Rightarrow> translation_result \<Rightarrow> bool" where
  "structured info (TranslationResult val subfields kind) \<longleftrightarrow> (subfields = [] \<or> (case info of
     InfoCompound infos \<Rightarrow> distinct (map fst infos) \<and>
       list_all (\<lambda>(name, r). case map_of infos name of Some i \<Rightarrow> structured i r | None \<Rightarrow> False) subfields
   | _ \<Rightarrow> False))"

lemma find_map_of: "List.find (\<lambda>(f, i). f = field) xs = map_option (\<lambda>i. (field, i)) (map_of xs field)"
  by (induction xs) auto

lemma subinfo_subpath: "has_subpath info path \<longleftrightarrow> (\<exists>i. get_subinfo info path = (Ok i :: ('e, variable_info) outcome))"
  by (induction info path rule: has_subpath.induct) (auto split: variable_info.splits option.splits)

lemma structured_paths: "structured info res \<Longrightarrow> p \<in> set (result_paths path res) \<Longrightarrow> \<exists>q. p = path @ q \<and> has_subpath info q"
proof (induction info res arbitrary: p path rule: structured.induct)
  case (1 info val subfields kind)
  show ?case
  proof (cases "p = path")
    case False
    with 1(3) obtain name r where r: "(name, r) \<in> set subfields" "p \<in> set (result_paths (path @ [name]) r)" by auto
    with 1(2) obtain infos where infos: "info = InfoCompound infos"
      "list_all (\<lambda>(name, r). case map_of infos name of Some i \<Rightarrow> structured i r | None \<Rightarrow> False) subfields"
      by (auto split: variable_info.splits)
    with r(1) obtain i where i: "map_of infos name = Some i" "structured i r" by (fastforce simp: list_all_iff split: option.splits)
    from 1(1)[OF infos(1) r(1) refl i(1) i(2) r(2)] r(1) obtain q where "p = (path @ [name]) @ q" "has_subpath i q" by blast
    with i(1) infos(1) show ?thesis by (intro exI[of _ "name # q"]) (simp add: find_map_of)
  qed simp
qed

text \<open>
  Rows of a hierarchical value. Formatting lists the parts of a value in pre-order, each under its path, and
  when the value has the structure that was announced for its variable, looking up the structure of any of
  those parts, as drawing does, does not panic.
\<close>

theorem rows_have_structure:
  assumes "format_flat root_format formats ts res = Ok rows" "structured info res"
  shows "map fst rows = result_paths [] res \<and>
    (\<forall>(path, t) \<in> set rows. \<exists>i. (get_subinfo info path :: (unit, variable_info) outcome) = Ok i)"
proof -
  note paths = format_flat_paths[OF assms(1)]
  have "\<exists>i. (get_subinfo info path :: (unit, variable_info) outcome) = Ok i" if "(path, t) \<in> set rows" for path t
  proof -
    have "path \<in> set (result_paths [] res)" using that paths by (metis fst_conv image_eqI set_map)
    from structured_paths[OF assms(2) this] have "has_subpath info path" by simp
    then show ?thesis using subinfo_subpath[where ?'e = unit] by blast
  qed
  with paths show ?thesis by auto
qed

lemma octal_in_decimal: "v \<le> value_of 10 (digits_of 8 v) \<and> (value_of 10 (digits_of 8 v) = v \<longleftrightarrow> v < 8)"
proof (induction v rule: less_induct)
  case (less v)
  show ?case
  proof (cases "v < 8")
    case True
    then show ?thesis by (simp add: digits_of.simps[of 8 v])
  next
    case False
    then have "value_of 10 (digits_of 8 v) = value_of 10 (digits_of 8 (v div 8)) * 10 + v mod 8"
      by (simp add: digits_of.simps[of 8 v])
    moreover have "v div 8 \<le> value_of 10 (digits_of 8 (v div 8))" using less[of "v div 8"] False by simp
    moreover have "v = v div 8 * 8 + v mod 8" by simp
    moreover have "1 \<le> v div 8" using False by simp
    ultimately show ?thesis using False by linarith
  qed
qed

lemma graphic_digit_char: "d < 10 \<Longrightarrow> graphic (digit_char d)"
proof -
  assume "d < 10"
  then show ?thesis by (simp add: graphic_def digit_char_def Let_def)
qed

text \<open>
  Octal rows. The number that the analog trace of an octal row draws is the row's octal text read as
  decimal: 10 for the value 8, and so wrong for every value above 7. (\<^verbatim>\<open>f64\<close>'s parser is assumed to read a
  text of decimal digits as its number.)
\<close>

theorem octal_trace_reads_decimal:
  assumes "\<And>ds. ds \<noteq> [] \<Longrightarrow> \<forall>d \<in> set ds. d < 10 \<Longrightarrow> nm_parse_f64 nm (map digit_char ds) = Some (nm_to_f64 nm (value_of 10 ds))"
  shows "bt_numeric (octal_translator nm) n (BigUint v) = Ok (Some (Num (nm_to_f64 nm (value_of 10 (digits_of 8 v))))) \<and>
    (value_of 10 (digits_of 8 v) = v \<longleftrightarrow> v < 8)"
proof -
  define ds where "ds = replicate (ceil_div n 3 - length (digits_of 8 v)) 0 @ digits_of 8 v"
  have t: "zero_pad (ceil_div n 3) (show_radix 8 v) = map digit_char ds"
    by (simp add: zero_pad_def show_radix_def ds_def map_replicate)
  have d: "\<forall>d \<in> set ds. d < 10" using digits_of_less[of 8 _ v] by (fastforce simp: ds_def)
  have "ds \<noteq> []" by (simp add: ds_def)
  have "trim (map digit_char ds) = map digit_char ds" using d graphic_digit_char by simp
  moreover have "\<not> contains_str ''hex'' (to_ascii_lowercase ''Octal'')" "\<not> contains_str ''bin'' (to_ascii_lowercase ''Octal'')"
    by code_simp+
  ultimately have "bt_numeric (octal_translator nm) n (BigUint v) = Ok (Some (Num (nm_to_f64 nm (value_of 10 ds))))"
    using assms[OF \<open>ds \<noteq> []\<close> d]
    by (simp add: octal_translator_def basic_def infallible_def octal_translate_def t basic_translate_numeric_def parse_numeric_string_def)
  with octal_in_decimal[of v] show ?thesis by (simp add: ds_def)
qed

lemma octal_trace_reads_decimal_witness:
  "\<exists>nm :: nat numerics. bt_numeric (octal_translator nm :: (unit, unit, nat) basic_translator) 6 (BigUint 8) = Ok (Some (Num 10))"
proof -
  let ?nm = "undefined\<lparr>nm_to_f64 := \<lambda>k. k, nm_parse_f64 := parse_digits 10\<rparr> :: nat numerics"
  have "nm_parse_f64 ?nm (map digit_char ds) = Some (nm_to_f64 ?nm (value_of 10 ds))" if "ds \<noteq> []" "\<forall>d \<in> set ds. d < 10" for ds
    using that by (simp add: parse_digits_def digit_vals_map)
  from conjunct1[OF octal_trace_reads_decimal[of ?nm 6 8, OF this]]
  have "bt_numeric (octal_translator ?nm :: (unit, unit, nat) basic_translator) 6 (BigUint 8) = Ok (Some (Num (nm_to_f64 ?nm (value_of 10 (digits_of 8 8)))))" .
  also have "nm_to_f64 ?nm (value_of 10 (digits_of 8 8)) = value_of 10 (digits_of 8 8)" by simp
  also have "value_of 10 (digits_of 8 8) = 10" by code_simp
  finally show ?thesis by blast
qed

text \<open>A variable of one structured and one plain field.\<close>

definition sample_result :: translation_result where
  "sample_result = TranslationResult ReprStruct [(''valid'', TranslationResult (ReprString ''1'') [] Normal),
     (''data'', TranslationResult ReprTuple [(''0'', TranslationResult (ReprString ''a'') [] Normal)] Normal)] Normal"

lemma rows_have_structure_witness:
  "\<exists>rows. format_flat None [] (\<lparr>tl_inner = [], tl_default = ''Hexadecimal''\<rparr> :: (unit, unit, unit) translator_list) sample_result = Ok rows \<and>
     map fst rows = [[], [''valid''], [''data''], [''data'', ''0'']]"
proof -
  let ?ts = "\<lparr>tl_inner = [], tl_default = ''Hexadecimal''\<rparr> :: (unit, unit, unit) translator_list"
  let ?rows = "case format_flat None [] ?ts sample_result of Ok rows \<Rightarrow> rows | _ \<Rightarrow> []"
  let ?info = "InfoCompound [(''valid'', InfoBool), (''data'', InfoCompound [(''0'', InfoBits)])]"
  have "format_flat None [] ?ts sample_result = Ok ?rows" by code_simp
  moreover have "structured ?info sample_result" by code_simp
  ultimately have "map fst ?rows = result_paths [] sample_result" using rows_have_structure[of None "[]" ?ts sample_result ?rows ?info] by blast
  moreover have "result_paths [] sample_result = [[], [''valid''], [''data''], [''data'', ''0'']]" by code_simp
  ultimately show ?thesis using \<open>format_flat None [] ?ts sample_result = Ok ?rows\<close> by metis
qed

subsection \<open>The choice among the program's translators\<close>

lemma fold_hash_insert_new:
  assumes "distinct (map at_name new)" "\<forall>t \<in> set new. at_name t \<notin> fst ` set xs"
  shows "fold (\<lambda>t. hash_insert (at_name t) t) new xs = xs @ map (\<lambda>t. (at_name t, t)) new"
  using assms
proof (induction new arbitrary: xs)
  case (Cons t new)
  have "hash_insert (at_name t) t xs = xs @ [(at_name t, t)]" using Cons.prems by (simp add: hash_insert_def)
  moreover have "\<forall>u \<in> set new. at_name u \<notin> fst ` set (xs @ [(at_name t, t)])"
  proof
    fix u assume u: "u \<in> set new"
    then have "at_name u \<noteq> at_name t" using Cons.prems(1) by (metis distinct.simps(2) image_eqI list.simps(9) set_map)
    with u Cons.prems(2) show "at_name u \<notin> fst ` set (xs @ [(at_name t, t)])" by simp
  qed
  ultimately have "fold (\<lambda>t. hash_insert (at_name t) t) new (xs @ [(at_name t, t)]) = (xs @ [(at_name t, t)]) @ map (\<lambda>t. (at_name t, t)) new"
    using Cons.prems(1) by (intro Cons.IH) simp_all
  with \<open>hash_insert (at_name t) t xs = xs @ [(at_name t, t)]\<close> show ?case by simp
qed simp

lemmas translator_defs = bit_translator_def hex_translator_def octal_translator_def grouping_binary_translator_def
  binary_translator_def ascii_translator_def leb_translator_def unsigned_translator_def signed_translator_def
  single_translator_def double_translator_def half_translator_def bfloat16_translator_def posit32_translator_def
  posit16_translator_def posit8_translator_def quire8_translator_def quire16_translator_def e5m2_translator_def
  e4m3_translator_def number_of_ones_translator_def leading_ones_translator_def trailing_ones_translator_def
  leading_zeros_translator_def trailing_zeros_translator_def identical_msbs_translator_def quad_translator_def
  rgb_translator_def grayscale_translator_def ycbcr_translator_def instruction_translator_def clock_translator_def
  string_translator_def enum_translator_def ufixed_translator_def sfixed_translator_def event_translator_def

lemma not_preferring:
  "translates_all_bit_types m \<noteq> Prefer" "check_single_wordlength k n \<noteq> Prefer" "check_wordlength k P \<noteq> Prefer"
  "three_channel_translates m \<noteq> Prefer" "clock_translates m \<noteq> Prefer"
  by (simp_all add: translates_all_bit_types_def check_single_wordlength_def check_wordlength_def
      three_channel_translates_def clock_translates_def split: option.split)

lemmas width_checks = single_translates_def half_translates_def bfloat16_translates_def posit32_translates_def posit16_translates_def
  posit8_translates_def quire8_translates_def quire16_translates_def quad_translates_def eight_bit_translates_def leb_translates_def

lemma preferring_basics: "map bt_name (filter (\<lambda>t. prefers m (Basic t)) (standard_basic nm ops dec f128)) =
  map snd (filter fst [(bit_translates m = Prefer, ''Bit''), (unsigned_translates m = Prefer, ''Unsigned''),
    (signed_translates m = Prefer, ''Signed''), (double_translates m = Prefer, ''FP: 64-bit IEEE 754'')])"
  by (simp add: standard_basic_def translator_defs basic_def prefers_def not_preferring width_checks)

lemma preferring_fulls: "map ft_name (filter (\<lambda>t. prefers m (Full t)) (standard_full nm)) =
  map snd (filter fst [(string_translates m = Prefer, ''String''), (enum_translates m = Prefer, ''Enum''),
    (ufixed_translates m = Prefer, ''Unsigned fixed point''), (sfixed_translates m = Prefer, ''Signed fixed point''),
    (event_translates m = Prefer, ''Event'')])"
  by (simp add: standard_full_def translator_defs full_def prefers_def not_preferring)

lemma pick_sorted: "sorted ps \<Longrightarrow> pick_preferred b ps = (let c = contenders b ps in if c = [] then None else Some (last c))"
proof -
  assume "sorted ps"
  then have "sorted (contenders b ps)" by (simp add: contenders_def drop_name_def Let_def sorted_filter[where f = id, simplified])
  then show ?thesis by (simp add: pick_contenders Let_def sorted_sort_id)
qed

text \<open>The names in order, each with whether its translator prefers the variable.\<close>

definition ordered_names :: "('v, 's) variable_meta \<Rightarrow> (bool \<times> string) list" where
  "ordered_names m = [(vm_num_bits m = Some 1, ''Bit''), (vm_enum_map m \<noteq> [], ''Enum''),
     (vm_num_bits m = Some 0 \<and> is_event m, ''Event''), (is_real m, ''FP: 64-bit IEEE 754''),
     (is_integer_type m \<or> has_signed_integer_type_name m, ''Signed''), (has_signed_fixedpoint_type_name m, ''Signed fixed point''),
     (vm_encoding m = EncString, ''String''), (has_unsigned_integer_type_name m, ''Unsigned''),
     (has_unsigned_fixedpoint_type_name m, ''Unsigned fixed point'')]"

definition standard_choice :: "('v, 's) variable_meta \<Rightarrow> string" where
  "standard_choice m = (let signed = is_integer_type m \<or> has_signed_integer_type_name m; single = (vm_num_bits m = Some 1) in
     if has_unsigned_fixedpoint_type_name m then ''Unsigned fixed point''
     else if has_unsigned_integer_type_name m then ''Unsigned''
     else if vm_encoding m = EncString then ''String''
     else if has_signed_fixedpoint_type_name m then ''Signed fixed point''
     else if single \<and> signed then ''Signed''
     else if is_real m then ''FP: 64-bit IEEE 754''
     else if vm_num_bits m = Some 0 \<and> is_event m then ''Event''
     else if vm_enum_map m \<noteq> [] then ''Enum''
     else if signed then ''Signed''
     else if single then ''Bit''
     else ''Hexadecimal'')"

lemma names_sorted: "sorted (map snd (filter fst (ordered_names m)))"
proof -
  have "sorted (map snd (ordered_names m))" unfolding ordered_names_def by (simp only: list.map snd_conv) code_simp
  then show ?thesis by (rule sorted_filter)
qed

definition last_option :: "'a list \<Rightarrow> 'a option" where
  "last_option xs = (if xs = [] then None else Some (last xs))"

lemma last_option_names: "last_option (map snd (filter fst xs)) = foldl (\<lambda>acc (b, n). if b then Some n else acc) None xs"
  by (induction xs rule: rev_induct) (auto simp: last_option_def)

lemma drop_absent: "n \<notin> set xs \<Longrightarrow> drop_name n xs = xs"
  by (induction xs) (auto simp: drop_name_def)

lemma drop_name_names: "drop_name n (map snd (filter fst xs)) = map snd (filter fst (filter (\<lambda>p. snd p \<noteq> n) xs))"
  by (induction xs) (auto simp: drop_name_def)

lemma contenders_single: "''Bit'' \<notin> set qs \<Longrightarrow> last_option (contenders True (''Bit'' # qs)) = (if qs = [] then Some ''Bit'' else last_option qs)"
proof -
  assume "''Bit'' \<notin> set qs"
  then have "drop_name ''Bit'' (''Bit'' # qs) = qs" using drop_absent by (simp add: drop_name_def)
  then show ?thesis by (cases qs) (simp_all add: contenders_def last_option_def)
qed

lemma contenders_multi:
  assumes "distinct qs" "''Enum'' \<notin> set (tl (drop_name ''Signed'' qs))"
  shows "last_option (contenders False qs) = (if drop_name ''Signed'' qs = [] then last_option qs else last_option (drop_name ''Signed'' qs))"
proof (cases "1 < length qs")
  case False
  then consider "qs = []" | x where "qs = [x]" by (cases qs) auto
  then show ?thesis by cases (simp_all add: contenders_def drop_name_def)
next
  case True
  have "contenders False qs \<noteq> []" using contenders_nonempty[OF assms(1), of False] True by (cases qs) auto
  show ?thesis
  proof (cases "1 < length (drop_name ''Signed'' qs)")
    case True
    then obtain x y r where p: "drop_name ''Signed'' qs = x # y # r"
      by (cases "drop_name ''Signed'' qs"; cases "tl (drop_name ''Signed'' qs)") auto
    have "drop_name ''Enum'' (y # r) = y # r" using assms(2) p by (intro drop_absent) simp
    then have "drop_name ''Enum'' (x # y # r) = (if x = ''Enum'' then y # r else x # y # r)" by (simp add: drop_name_def)
    with True p \<open>1 < length qs\<close> show ?thesis by (simp add: contenders_def Let_def last_option_def)
  next
    case False
    with \<open>1 < length qs\<close> \<open>contenders False qs \<noteq> []\<close> show ?thesis by (simp add: contenders_def Let_def split: if_splits)
  qed
qed

lemma pick_last: "sorted ps \<Longrightarrow> pick_preferred b ps = last_option (contenders b ps)"
  by (simp add: pick_sorted last_option_def Let_def)

lemma names_distinct: "distinct (map snd (filter fst (ordered_names m)))"
proof -
  have "distinct (map snd (ordered_names m))" unfolding ordered_names_def by (simp only: list.map snd_conv) code_simp
  then show ?thesis by (rule distinct_map_filter)
qed

lemma pick_ordered: "(case pick_preferred (vm_num_bits m = Some 1) (map snd (filter fst (ordered_names m))) of
    Some n \<Rightarrow> n | None \<Rightarrow> ''Hexadecimal'') = standard_choice m"
proof (cases "vm_num_bits m = Some 1")
  case True
  define qs where "qs = map snd (filter fst (tl (ordered_names m)))"
  have o: "map snd (filter fst (ordered_names m)) = ''Bit'' # qs" using True by (simp add: ordered_names_def qs_def)
  have b: "''Bit'' \<notin> set qs" using names_distinct[of m] unfolding o by simp
  have "qs = [] \<longleftrightarrow> last_option qs = None" by (simp add: last_option_def)
  moreover have "last_option qs = foldl (\<lambda>acc (b, n). if b then Some n else acc) None (tl (ordered_names m))"
    unfolding qs_def by (rule last_option_names)
  moreover have "pick_preferred (vm_num_bits m = Some 1) (map snd (filter fst (ordered_names m))) = (if qs = [] then Some ''Bit'' else last_option qs)"
    unfolding pick_last[OF names_sorted] unfolding o using True contenders_single[OF b] by simp
  ultimately show ?thesis using True by (simp add: ordered_names_def standard_choice_def Let_def)
next
  case False
  define qs where "qs = map snd (filter fst (ordered_names m))"
  have p: "drop_name ''Signed'' qs = map snd (filter fst (filter (\<lambda>p. snd p \<noteq> ''Signed'') (ordered_names m)))"
    unfolding qs_def by (rule drop_name_names)
  have "''Enum'' \<notin> set (tl (drop_name ''Signed'' qs))" unfolding p using False by (auto simp: ordered_names_def)
  note c = contenders_multi[OF names_distinct[of m, folded qs_def] this]
  have l: "last_option (drop_name ''Signed'' qs) = foldl (\<lambda>acc (b, n). if b then Some n else acc) None (filter (\<lambda>p. snd p \<noteq> ''Signed'') (ordered_names m))"
    unfolding p by (rule last_option_names)
  have "drop_name ''Signed'' qs = [] \<longleftrightarrow> last_option (drop_name ''Signed'' qs) = None" by (simp add: last_option_def)
  moreover have "last_option qs = foldl (\<lambda>acc (b, n). if b then Some n else acc) None (ordered_names m)"
    unfolding qs_def by (rule last_option_names)
  moreover have "pick_preferred (vm_num_bits m = Some 1) (map snd (filter fst (ordered_names m))) =
      (if drop_name ''Signed'' qs = [] then last_option qs else last_option (drop_name ''Signed'' qs))"
    unfolding pick_last[OF names_sorted] unfolding qs_def[symmetric] c[symmetric] using False by simp
  ultimately show ?thesis using False l by (simp add: ordered_names_def standard_choice_def Let_def)
qed

lemma prefer_iffs:
  "bit_translates m = Prefer \<longleftrightarrow> vm_num_bits m = Some 1" "unsigned_translates m = Prefer \<longleftrightarrow> has_unsigned_integer_type_name m"
  "signed_translates m = Prefer \<longleftrightarrow> is_integer_type m \<or> has_signed_integer_type_name m" "double_translates m = Prefer \<longleftrightarrow> is_real m"
  "string_translates m = Prefer \<longleftrightarrow> vm_encoding m = EncString" "enum_translates m = Prefer \<longleftrightarrow> vm_enum_map m \<noteq> []"
  "ufixed_translates m = Prefer \<longleftrightarrow> has_unsigned_fixedpoint_type_name m" "sfixed_translates m = Prefer \<longleftrightarrow> has_signed_fixedpoint_type_name m"
  "event_translates m = Prefer \<longleftrightarrow> vm_num_bits m = Some 0 \<and> is_event m"
  by (simp_all add: bit_translates_def unsigned_translates_def signed_translates_def double_translates_def string_translates_def
      enum_translates_def ufixed_translates_def sfixed_translates_def event_translates_def not_preferring split: option.split)

text \<open>
  Choice of a translator. Which of the program's translators a variable gets, when the user's own
  translators do not prefer it: fixed-point and unsigned type names first, then texts, reals, events and
  enumerations, and an enumeration wins over the integer type that simulators report for it, except that of a
  single bit.
\<close>

theorem standard_translator_choice:
  fixes m :: "('v, 's) variable_meta" and ud um :: "('v, 's, 'f) basic_translator list"
  assumes "\<forall>t \<in> set (ud @ um). \<not> prefers m (Basic t)"
    and "distinct (map bt_name (standard_basic nm ops dec f128 @ ud @ um) @
      map ft_name (standard_full nm :: ('v, 's, 'f) full_translator list))"
  shows "select_preferred_translator m (all_translators nm ops dec f128 ud um) = standard_choice m"
proof -
  let ?new = "map Basic (standard_basic nm ops dec f128 @ ud @ um) @ map Full (standard_full nm)"
  have "distinct (map at_name ?new)" using assms(2) by (simp add: comp_def)
  from fold_hash_insert_new[OF this, of "[]"] have "tl_inner (all_translators nm ops dec f128 ud um) = map (\<lambda>t. (at_name t, t)) ?new"
    by (simp add: all_translators_def new_translators_def)
  then have all: "all_translators_of (all_translators nm ops dec f128 ud um) = ?new" by (simp add: all_translators_of_def comp_def)
  have user: "filter (\<lambda>t. prefers m (Basic t)) (ud @ um) = []" using assms(1) by (simp add: filter_empty_conv)
  have "map at_name (filter (prefers m) ?new) =
    map bt_name (filter (\<lambda>t. prefers m (Basic t)) (standard_basic nm ops dec f128)) @ map ft_name (filter (\<lambda>t. prefers m (Full t)) (standard_full nm))"
    using user by (simp add: filter_map comp_def)
  then have "mset (map at_name (filter (prefers m) ?new)) = mset (map snd (filter fst (ordered_names m)))"
    unfolding preferring_basics preferring_fulls ordered_names_def prefer_iffs
    by (simp only: map_append[symmetric] filter_append[symmetric] append.simps mset_map mset_filter mset.simps add_mset_commute)
  from pick_mset[OF this] show ?thesis
    unfolding select_preferred_translator_def all pick_ordered[symmetric] default_all_translators by simp
qed

lemma standard_names: "map bt_name (standard_basic nm ops dec False) =
  [''Bit'', ''Hexadecimal'', ''Octal'', ''Binary (with groups)'', ''Binary'', ''ASCII'', ''RV32'', ''RV64'', ''MIPS'', ''LA64'', ''LEBxxx'',
   ''Unsigned'', ''Signed'', ''FP: 32-bit IEEE 754'', ''FP: 64-bit IEEE 754'', ''FP: 16-bit IEEE 754'', ''FP: bfloat16'',
   ''Posit: 32-bit (two exponent bits)'', ''Posit: 16-bit (one exponent bit)'', ''Posit: 8-bit (no exponent bit)'',
   ''Posit: quire for 8-bit (no exponent bit)'', ''Posit: quire for 16-bit (one exponent bit)'', ''FP: 8-bit (E5M2)'', ''FP: 8-bit (E4M3)'',
   ''Number of ones'', ''Leading ones'', ''Trailing ones'', ''Leading zeros'', ''Trailing zeros'', ''Identical MSBs'', ''RGB'', ''Grayscale'', ''YCbCr'']"
  "map ft_name (standard_full nm) = [''Clock'', ''String'', ''Enum'', ''Unsigned fixed point'', ''Signed fixed point'', ''Event'']"
  by (simp_all add: standard_basic_def standard_full_def translator_defs basic_def full_def)

definition sample_meta :: "(unit, unit) variable_meta" where
  "sample_meta = \<lparr>vm_var = var_new (scope_from_strs [''top'']) ''state'', vm_num_bits = Some 2, vm_variable_type = Some TypeInt,
     vm_variable_type_name = None, vm_index = None, vm_direction = None, vm_enum_map = [(''00'', ''Idle''), (''01'', ''Busy'')],
     vm_encoding = EncBitVector\<rparr>"

definition sample_numerics :: "nat numerics" where
  "sample_numerics = \<lparr>nm_parse_big = plain_parser, nm_to_f64 = (\<lambda>k. k), nm_parse_f64 = parse_digits 10, nm_floats = undefined,
     nm_formats = undefined, nm_show_f32 = (\<lambda>x. []), nm_fp8 = (\<lambda>x. 0)\<rparr>"

lemma standard_translator_choice_witness:
  "select_preferred_translator sample_meta (all_translators sample_numerics (undefined :: unit f32_ops) (\<lambda>name word n. None) False [] []) = ''Enum''"
proof -
  have "distinct (map bt_name (standard_basic sample_numerics (undefined :: unit f32_ops) (\<lambda>name word n. None) False @ [] @ []) @
      map ft_name (standard_full sample_numerics :: (unit, unit, nat) full_translator list))"
    unfolding append_Nil2 standard_names by code_simp
  from standard_translator_choice[OF _ this, of sample_meta]
  have "select_preferred_translator sample_meta (all_translators sample_numerics (undefined :: unit f32_ops) (\<lambda>name word n. None) False [] []) = standard_choice sample_meta" by simp
  also have "\<dots> = ''Enum''" by code_simp
  finally show ?thesis .
qed

lemma choice_is_stable_witness:
  "let bit_entry = (''Bit'', Basic (bit_translator sample_numerics) :: (unit, unit, nat) any_translator);
       enum_entry = (''Enum'', Full (enum_translator sample_numerics) :: (unit, unit, nat) any_translator)
   in select_preferred_translator sample_meta \<lparr>tl_inner = [bit_entry, enum_entry], tl_default = ''Hexadecimal''\<rparr> =
    select_preferred_translator sample_meta \<lparr>tl_inner = [enum_entry, bit_entry], tl_default = ''Hexadecimal''\<rparr>"
  unfolding Let_def by (rule choice_is_stable) simp_all

end
