(* ===== verification/Mapping_Translators.thy ===== *)
theory Mapping_Translators
  imports Translators
begin

section \<open>Mapping translators (mapping\_translators.rs)\<close>

text \<open>
  Translators that the user describes in a text file: one line per value with its label and perhaps a kind or
  colour. The parser works on the content of a file; reading the file is outside. Strings are their UTF-8
  bytes; taking a slice that begins or ends inside a character panics. \<open>col\<close> gives the constants of
  \<^verbatim>\<open>ecolor::Color32\<close> by name. Letters outside ASCII that Unicode maps to lower case are left as they are:
  none of them becomes a letter of a keyword.
\<close>

datatype mapping_parse_error = InvalidBitsValue string | InvalidHex string | InvalidOctal string
  | UnknownKindColor string | BinaryTooWide string nat nat | StringLengthMismatch string nat nat
  | InvalidStringCharacters string | MissingMapping | EmptyLine | LineError nat string string

fun show_error :: "mapping_parse_error \<Rightarrow> string" where
  "show_error (InvalidBitsValue s) = ''Invalid bits value: '' @ s"
| "show_error (InvalidHex s) = ''Invalid hex number: '' @ s"
| "show_error (InvalidOctal s) = ''Invalid octal number: '' @ s"
| "show_error (UnknownKindColor s) = ''Unknown kind/color: '' @ s"
| "show_error (BinaryTooWide value required specified) = ''Binary string '' @ [CHR 0x27] @ value @ [CHR 0x27] @ '' requires '' @
     show_nat required @ '' bits, but only '' @ show_nat specified @ '' bits specified''"
| "show_error (StringLengthMismatch value value_len expected) = ''String '' @ [CHR 0x27] @ value @ [CHR 0x27] @ '' has '' @
     show_nat value_len @ '' characters, expected '' @ show_nat expected @ '' characters to match bit width''"
| "show_error (InvalidStringCharacters value) = ''String '' @ [CHR 0x27] @ value @ [CHR 0x27] @
     '' contains invalid characters. Only 01zx-hlwu are allowed. Maybe you are missing a 0b prefix for a binary string?''"
| "show_error MissingMapping = ''Missing mapping''"
| "show_error EmptyLine = ''Empty line''"
| "show_error (LineError line content message) = ''Line '' @ show_nat line @ '': '' @ message @ [CHR 0x0A] @ ''  Content: '' @ content"

record mapping_entry =
  me_label :: string
  me_kind :: value_kind

record mapping =
  mp_name :: string
  mp_bits :: nat
  mp_entries :: "(variable_value \<times> mapping_entry) list"

definition kind_color_keywords :: "(string \<Rightarrow> color32) \<Rightarrow> (string \<times> value_kind) list" where
  "kind_color_keywords col = [(''normal'', Normal), (''default'', Normal), (''undef'', Undef), (''highimp'', HighImp),
     (''warn'', Warn), (''dontcare'', DontCare), (''weak'', Weak), (''error'', KindError)] @
     map (\<lambda>(n, c). (n, Custom (col c)))
       [(''black'', ''BLACK''), (''white'', ''WHITE''), (''red'', ''RED''), (''green'', ''GREEN''), (''blue'', ''BLUE''),
        (''yellow'', ''YELLOW''), (''cyan'', ''CYAN''), (''magenta'', ''MAGENTA''), (''gray'', ''GRAY''), (''grey'', ''GRAY''),
        (''light_gray'', ''LIGHT_GRAY''), (''light_grey'', ''LIGHT_GRAY''), (''dark_gray'', ''DARK_GRAY''), (''dark_grey'', ''DARK_GRAY''),
        (''brown'', ''BROWN''), (''dark_red'', ''DARK_RED''), (''light_red'', ''LIGHT_RED''), (''orange'', ''ORANGE''),
        (''light_yellow'', ''LIGHT_YELLOW''), (''khaki'', ''KHAKI''), (''dark_green'', ''DARK_GREEN''), (''light_green'', ''LIGHT_GREEN''),
        (''dark_blue'', ''DARK_BLUE''), (''light_blue'', ''LIGHT_BLUE''), (''purple'', ''PURPLE''), (''gold'', ''GOLD'')]"

subsection \<open>Translating\<close>

definition key_display :: "variable_value \<Rightarrow> nat \<Rightarrow> string" where
  "key_display key bit_width = (case key of String s \<Rightarrow> s | BigUint v \<Rightarrow> zero_pad bit_width (show_radix 2 v))"

definition mapping_translate :: "mapping \<Rightarrow> nat \<Rightarrow> variable_value \<Rightarrow> string \<times> value_kind" where
  "mapping_translate mp num_bits value =
     (let lookup_value = (case value of BigUint v \<Rightarrow> BigUint v | String s \<Rightarrow> String (extend_string s num_bits @ s))
      in case map_of (mp_entries mp) lookup_value of
        Some entry \<Rightarrow> (me_label entry, me_kind entry)
      | None \<Rightarrow> (let var_string = key_display lookup_value num_bits in (var_string, kind_for_binary_representation var_string)))"

definition mapping_translator :: "'f numerics \<Rightarrow> mapping \<Rightarrow> ('v, 's, 'f) basic_translator" where
  "mapping_translator nm mp = (basic nm (mp_name mp) (infallible (mapping_translate mp)))
     \<lparr>bt_translates := \<lambda>m. Inr (check_single_wordlength (vm_num_bits m) (mp_bits mp))\<rparr>"

subsection \<open>Slices of UTF-8 text\<close>

definition char_boundary :: "nat \<Rightarrow> string \<Rightarrow> bool" where
  "char_boundary i s \<longleftrightarrow> i = length s \<or> i < length s \<and> (of_char (s ! i) :: nat) div 64 \<noteq> 2"

definition slice_to :: "nat \<Rightarrow> string \<Rightarrow> ('e, string) outcome" where
  "slice_to i s = (if char_boundary i s then Ok (take i s) else Panic)"

definition slice_from :: "nat \<Rightarrow> string \<Rightarrow> ('e, string) outcome" where
  "slice_from i s = (if char_boundary i s then Ok (drop i s) else Panic)"

definition parse_specifier :: "string \<Rightarrow> string \<Rightarrow> ('e, string option) outcome" where
  "parse_specifier line keyword =
     (if length line < length keyword then Ok None
      else and_then (slice_to (length keyword) line) (\<lambda>start.
        if to_ascii_lowercase start \<noteq> to_ascii_lowercase keyword then Ok None
        else and_then (slice_from (length keyword) line) (\<lambda>after_keyword.
          Ok (map_option trim (strip_prefix ''='' (trim_start after_keyword))))))"

subsection \<open>Keys\<close>

definition is_hex_digit :: "char \<Rightarrow> bool" where
  "is_hex_digit c \<longleftrightarrow> (case digit_val c of Some d \<Rightarrow> d < 16 | None \<Rightarrow> False)"

definition parse_color_kind :: "(string \<Rightarrow> color32) \<Rightarrow> string \<Rightarrow> (mapping_parse_error, value_kind) outcome" where
  "parse_color_kind col token =
     (let hex_str = (case strip_prefix ''#'' token of Some r \<Rightarrow> r | None \<Rightarrow> token) in
      if length hex_str = 6 \<and> list_all is_hex_digit hex_str then
        (case (parse_unsigned 8 16 (take 2 hex_str), parse_unsigned 8 16 (take 2 (drop 2 hex_str)), parse_unsigned 8 16 (drop 4 hex_str)) of
           (Some r, Some g, Some b) \<Rightarrow> Ok (Custom (from_rgb (of_nat r) (of_nat g) (of_nat b)))
         | _ \<Rightarrow> Err (InvalidHex token))
      else (case map_of (kind_color_keywords col) (to_ascii_lowercase token) of
          Some k \<Rightarrow> Ok k | None \<Rightarrow> Err (UnknownKindColor token)))"

text \<open>The string of a value has the digits of the nine-valued logic; a number has as many bits as it needs.\<close>

definition nine_valued :: "char \<Rightarrow> bool" where
  "nine_valued c \<longleftrightarrow> c \<in> {CHR ''0'', CHR ''1'', CHR ''z'', CHR ''x'', CHR ''-'', CHR ''h'', CHR ''l'', CHR ''w'', CHR ''u''}"

definition parse_key_value :: "big_parser \<Rightarrow> string \<Rightarrow> (mapping_parse_error, variable_value \<times> nat) outcome" where
  "parse_key_value pb token =
     (let cleaned = filter (\<lambda>c. c \<noteq> CHR ''_'') token in
      if starts_with ''0b'' cleaned \<or> starts_with ''0B'' cleaned then
        (let bin_str = drop 2 cleaned in
         case pb bin_str 2 of
           Some val \<Rightarrow> Ok (BigUint val, length bin_str)
         | None \<Rightarrow> (let lower = to_ascii_lowercase bin_str in
             if list_all nine_valued lower then Ok (String lower, length lower) else Err (InvalidBitsValue token)))
      else if starts_with ''0o'' cleaned \<or> starts_with ''0O'' cleaned then
        (case pb (drop 2 cleaned) 8 of Some num \<Rightarrow> Ok (BigUint num, bits num) | None \<Rightarrow> Err (InvalidOctal token))
      else if starts_with ''0x'' cleaned \<or> starts_with ''0X'' cleaned then
        (case pb (drop 2 cleaned) 16 of Some num \<Rightarrow> Ok (BigUint num, bits num) | None \<Rightarrow> Err (InvalidHex token))
      else (case pb cleaned 10 of Some num \<Rightarrow> Ok (BigUint num, bits num) | None \<Rightarrow> Err (InvalidStringCharacters token)))"

text \<open>The kind in brackets, when the first closing bracket comes after the first opening one.\<close>

definition find_char :: "char \<Rightarrow> string \<Rightarrow> nat option" where
  "find_char c s = (if c \<in> set s then Some (length (takeWhile (\<lambda>x. x \<noteq> c) s)) else None)"

definition parse_key_with_kind :: "big_parser \<Rightarrow> (string \<Rightarrow> color32) \<Rightarrow> string
    \<Rightarrow> (mapping_parse_error, variable_value \<times> value_kind \<times> nat) outcome" where
  "parse_key_with_kind pb col token =
     (case (find_char (CHR ''['') token, find_char (CHR '']'') token) of
        (Some bracket_pos, Some close_bracket) \<Rightarrow>
          if bracket_pos < close_bracket then
            and_then (parse_key_value pb (take bracket_pos token)) (\<lambda>(value, len).
            and_then (parse_color_kind col (slice_range (bracket_pos + 1) close_bracket token)) (\<lambda>kind.
            Ok (value, kind, len)))
          else and_then (parse_key_value pb token) (\<lambda>(value, len). Ok (value, Normal, len))
      | _ \<Rightarrow> and_then (parse_key_value pb token) (\<lambda>(value, len). Ok (value, Normal, len)))"

text \<open>The characters up to the first white space.\<close>

fun first_word :: "string \<Rightarrow> string" where
  "first_word [] = []"
| "first_word (c # s) = (if 0 < ws_len (map of_char (c # s)) then [] else c # first_word s)"

definition parse_line :: "big_parser \<Rightarrow> (string \<Rightarrow> color32) \<Rightarrow> string
    \<Rightarrow> (mapping_parse_error, variable_value \<times> string \<times> value_kind \<times> nat) outcome" where
  "parse_line pb col line =
     (let rest = trim_start line; first_token = first_word rest; remainder = trim_start (drop (length first_token) rest) in
      if rest = [] then Err EmptyLine
      else and_then (parse_key_with_kind pb col first_token) (\<lambda>(first, kind, first_len).
        if remainder = [] then Err MissingMapping else Ok (first, remainder, kind, first_len)))"

subsection \<open>The file\<close>

definition normalize_first_column :: "big_parser \<Rightarrow> variable_value \<Rightarrow> nat \<Rightarrow> nat \<Rightarrow> (mapping_parse_error, variable_value) outcome" where
  "normalize_first_column pb value value_len bit_width = (case value of
     BigUint v \<Rightarrow> if bit_width < value_len then Err (BinaryTooWide (zero_pad value_len (show_radix 2 v)) value_len bit_width)
       else Ok (BigUint v)
   | String s \<Rightarrow>
       if list_all (\<lambda>c. c = CHR ''0'' \<or> c = CHR ''1'') s then
         (if bit_width < value_len then Err (BinaryTooWide s value_len bit_width)
          else (case pb s 2 of Some v \<Rightarrow> Ok (BigUint v) | None \<Rightarrow> Panic))
       else if bit_width < length s then Err (StringLengthMismatch s (length s) bit_width)
       else Ok (String (extend_string s bit_width @ s)))"

record mapping_file =
  mf_name :: "string option"
  mf_bits :: "nat option"
  mf_entries :: "(variable_value \<times> string \<times> value_kind \<times> nat) list"

definition process_line :: "big_parser \<Rightarrow> (string \<Rightarrow> color32) \<Rightarrow> nat \<Rightarrow> string \<Rightarrow> mapping_file
    \<Rightarrow> (mapping_parse_error, mapping_file) outcome" where
  "process_line pb col line_num line_str mf =
     (let processed = trim line_str in
      if processed = [] \<or> starts_with ''#'' processed then Ok mf
      else and_then (parse_specifier processed ''name'') (\<lambda>name_value. case name_value of
        Some v \<Rightarrow> (if mf_name mf \<noteq> None then Err (LineError (line_num + 1) line_str ''Multiple Name specifiers found'')
          else Ok (mf\<lparr>mf_name := Some v\<rparr>))
      | None \<Rightarrow> and_then (parse_specifier processed ''bits'') (\<lambda>bits_value. case bits_value of
          Some v \<Rightarrow> (if mf_bits mf \<noteq> None then Err (LineError (line_num + 1) line_str ''Multiple Bits specifiers found'')
            else case parse_unsigned 32 10 v of Some n \<Rightarrow> Ok (mf\<lparr>mf_bits := Some n\<rparr>) | None \<Rightarrow> Err (InvalidBitsValue v))
        | None \<Rightarrow> (case parse_line pb col processed of
            Ok entry \<Rightarrow> Ok (mf\<lparr>mf_entries := mf_entries mf @ [entry]\<rparr>)
          | Err e \<Rightarrow> Err (LineError (line_num + 1) line_str (show_error e))
          | Panic \<Rightarrow> Panic))))"

fun process_lines :: "big_parser \<Rightarrow> (string \<Rightarrow> color32) \<Rightarrow> nat \<Rightarrow> string list \<Rightarrow> mapping_file
    \<Rightarrow> (mapping_parse_error, mapping_file) outcome" where
  "process_lines pb col k [] mf = Ok mf"
| "process_lines pb col k (l # ls) mf = and_then (process_line pb col k l mf) (process_lines pb col (k + 1) ls)"

fun build_entries :: "big_parser \<Rightarrow> nat \<Rightarrow> (variable_value \<times> string \<times> value_kind \<times> nat) list
    \<Rightarrow> (variable_value \<times> mapping_entry) list \<Rightarrow> (mapping_parse_error, (variable_value \<times> mapping_entry) list) outcome" where
  "build_entries pb bit_width [] entries = Ok entries"
| "build_entries pb bit_width ((value, label, kind, value_len) # raw) entries =
     and_then (normalize_first_column pb value value_len bit_width) (\<lambda>key.
       build_entries pb bit_width raw (if key \<in> fst ` set entries then entries
         else entries @ [(key, \<lparr>me_label = label, me_kind = kind\<rparr>)]))"

definition parse_content_with_default_name :: "big_parser \<Rightarrow> (string \<Rightarrow> color32) \<Rightarrow> string \<Rightarrow> string option
    \<Rightarrow> (mapping_parse_error, mapping) outcome" where
  "parse_content_with_default_name pb col content default_name =
     and_then (process_lines pb col 0 (lines content) \<lparr>mf_name = None, mf_bits = None, mf_entries = []\<rparr>) (\<lambda>mf.
       let bit_width = (case mf_bits mf of Some b \<Rightarrow> b | None \<Rightarrow> fold max (map (\<lambda>(v, l, k, n). n) (mf_entries mf)) 0) in
       and_then (build_entries pb bit_width (mf_entries mf) []) (\<lambda>entries.
         Ok \<lparr>mp_name = (case mf_name mf of Some n \<Rightarrow> n | None \<Rightarrow> (case default_name of Some n \<Rightarrow> n | None \<Rightarrow> ''Unknown mapping'')),
             mp_bits = bit_width, mp_entries = entries\<rparr>))"

subsection \<open>What a parsed mapping is\<close>

lemma less_two_pow_bits: "v < 2 ^ bits v"
proof (cases "v = 0")
  case False
  have "value_of 2 (digits_of 2 v) < 2 ^ length (digits_of 2 v)" by (intro value_of_bound ballI digits_of_less) auto
  with False show ?thesis by (simp add: bits_def value_of_digits)
qed simp

definition binary_bounded :: "big_parser \<Rightarrow> bool" where
  "binary_bounded pb \<longleftrightarrow> (\<forall>s v. pb s 2 = Some v \<longrightarrow> v < 2 ^ length s)"

lemma plain_parser_bounded: "binary_bounded plain_parser"
  unfolding binary_bounded_def
proof (intro allI impI)
  fix s v assume "plain_parser s 2 = Some v"
  then obtain ds where ds: "digit_vals 2 s = Some ds" "v = value_of 2 ds" by (auto simp: plain_parser_def parse_digits_def split: if_splits)
  have "digit_vals 2 s = Some ds \<Longrightarrow> length ds = length s \<and> (\<forall>d \<in> set ds. d < 2)" for ds
    by (induction s arbitrary: ds) (auto split: option.splits if_splits)
  with ds value_of_bound[of ds 2] show "v < 2 ^ length s" by auto
qed

fun key_fits :: "nat \<Rightarrow> variable_value \<Rightarrow> bool" where
  "key_fits n (BigUint v) \<longleftrightarrow> v < 2 ^ n"
| "key_fits n (String s) \<longleftrightarrow> length s = n \<and> list_all nine_valued s"

text \<open>The keys of a mapping: numbers below the width's limit, and texts of that width that are not all 0 and 1.\<close>

fun key_ok :: "nat \<Rightarrow> variable_value \<Rightarrow> bool" where
  "key_ok n (BigUint v) \<longleftrightarrow> v < 2 ^ n"
| "key_ok n (String s) \<longleftrightarrow> length s = n \<and> list_all nine_valued s \<and> \<not> is_bits s"

definition mapping_ok :: "mapping \<Rightarrow> bool" where
  "mapping_ok mp \<longleftrightarrow> distinct (map fst (mp_entries mp)) \<and> list_all (key_ok (mp_bits mp)) (map fst (mp_entries mp))"

lemma parse_key_value_fits: "binary_bounded pb \<Longrightarrow> parse_key_value pb token = Ok (value, n) \<Longrightarrow> key_fits n value"
  unfolding parse_key_value_def binary_bounded_def
  by (auto simp: Let_def less_two_pow_bits split: if_splits option.splits) (metis length_drop)+

lemma parse_key_with_kind_fits: "binary_bounded pb \<Longrightarrow> parse_key_with_kind pb col token = Ok (value, kind, n) \<Longrightarrow> key_fits n value"
  unfolding parse_key_with_kind_def
  by (auto simp: outcome_simps dest: parse_key_value_fits split: option.splits if_splits)

lemma parse_line_fits: "binary_bounded pb \<Longrightarrow> parse_line pb col line = Ok (value, label, kind, n) \<Longrightarrow> key_fits n value"
  unfolding parse_line_def by (auto simp: Let_def outcome_simps dest: parse_key_with_kind_fits split: if_splits)

lemma is_bits_all: "is_bits s \<longleftrightarrow> list_all (\<lambda>c. c = CHR ''0'' \<or> c = CHR ''1'') s"
  by (auto simp: is_bits_def list_all_iff)

lemma extension_nine: "s \<noteq> [] \<Longrightarrow> list_all nine_valued s \<Longrightarrow> \<exists>c. extension_char s = Some c \<and> nine_valued c"
  by (cases s) (auto simp: extension_char_def nine_valued_def)

lemma two_pow_mono: "n \<le> w \<Longrightarrow> (2 :: nat) ^ n \<le> 2 ^ w"
  by simp

lemma normalize_ok:
  assumes "binary_bounded pb" "key_fits n val" "normalize_first_column pb val n w = Ok key"
  shows "key_ok w key"
proof (cases val)
  case (BigUint v)
  with assms have v: "key = BigUint v" "v < 2 ^ n" "n \<le> w" by (auto simp: normalize_first_column_def split: if_splits)
  have "v < 2 ^ w" using v(2) two_pow_mono[OF v(3)] by (rule less_le_trans)
  with v(1) show ?thesis by simp
next
  case (String s)
  show ?thesis
  proof (cases "is_bits s")
    case True
    with assms String obtain v where v: "key = BigUint v" "pb s 2 = Some v" "n \<le> w" "length s = n"
      by (auto simp: normalize_first_column_def is_bits_all[symmetric] split: if_splits option.splits)
    have "v < 2 ^ n" using assms(1) v by (auto simp: binary_bounded_def)
    then have "v < 2 ^ w" using two_pow_mono[OF v(3)] by (rule less_le_trans)
    with v(1) show ?thesis by simp
  next
    case False
    with assms String have k: "key = String (extend_string s w @ s)" "length s \<le> w" "list_all nine_valued s"
      by (auto simp: normalize_first_column_def is_bits_all[symmetric] split: if_splits)
    have "s \<noteq> []" using False by (auto simp: is_bits_def)
    from extension_nine[OF this k(3)] obtain c where "extension_char s = Some c" "nine_valued c" by blast
    with k False show ?thesis by (auto simp: extend_string_def is_bits_def) (simp add: list_all_iff)
  qed
qed

lemma build_entries_ok:
  assumes "binary_bounded pb" "\<forall>(value, l, k, n) \<in> set raw. key_fits n value" "distinct (map fst entries)"
    "list_all (key_ok w) (map fst entries)" "build_entries pb w raw entries = Ok result"
  shows "distinct (map fst result) \<and> list_all (key_ok w) (map fst result)"
  using assms
proof (induction raw arbitrary: entries)
  case (Cons r raw)
  obtain val l k n where r: "r = (val, l, k, n)" by (cases r) auto
  with Cons.prems(5) obtain key where key: "normalize_first_column pb val n w = Ok key"
    "build_entries pb w raw (if key \<in> fst ` set entries then entries else entries @ [(key, \<lparr>me_label = l, me_kind = k\<rparr>)]) = Ok result"
    by (auto simp: outcome_simps)
  have "key_ok w key" using normalize_ok[OF Cons.prems(1) _ key(1)] Cons.prems(2) r by simp
  with Cons.prems(3,4) show ?case by (intro Cons.IH[OF Cons.prems(1) _ _ _ key(2)]) (use Cons.prems(2) in auto)
qed simp

lemma process_line_entries:
  assumes "process_line pb col i line mf = Ok mf'"
  shows "mf_entries mf' = mf_entries mf \<or> (\<exists>e. parse_line pb col (trim line) = Ok e \<and> mf_entries mf' = mf_entries mf @ [e])"
proof (cases "trim line = [] \<or> starts_with ''#'' (trim line)")
  case True
  with assms show ?thesis by (auto simp: process_line_def)
next
  case False
  define name :: "(mapping_parse_error, string option) outcome" where "name = parse_specifier (trim line) ''name''"
  define bts :: "(mapping_parse_error, string option) outcome" where "bts = parse_specifier (trim line) ''bits''"
  note step = assms[unfolded process_line_def Let_def if_not_P[OF False], folded name_def bts_def]
  from step obtain nv where nv: "name = Ok nv" by (cases name) auto
  show ?thesis
  proof (cases nv)
    case (Some v)
    with step nv show ?thesis by (auto split: if_splits)
  next
    case None
    with step nv obtain bv where bv: "bts = Ok bv" by (cases bts) auto
    show ?thesis
    proof (cases bv)
      case (Some v)
      with step nv bv None show ?thesis by (auto split: if_splits option.splits)
    next
      case None
      with step nv bv \<open>nv = None\<close> show ?thesis by (auto split: outcome.splits)
    qed
  qed
qed

lemma process_line_fits:
  assumes "binary_bounded pb" "\<forall>(value, l, k, n) \<in> set (mf_entries mf). key_fits n value" "process_line pb col i line mf = Ok mf'"
  shows "\<forall>(value, l, k, n) \<in> set (mf_entries mf'). key_fits n value"
  using process_line_entries[OF assms(3)] assms(2) parse_line_fits[OF assms(1), of col "trim line"] by fastforce

lemma process_lines_fits:
  "binary_bounded pb \<Longrightarrow> \<forall>(value, l, k, n) \<in> set (mf_entries mf). key_fits n value \<Longrightarrow> process_lines pb col i ls mf = Ok mf' \<Longrightarrow>
    \<forall>(value, l, k, n) \<in> set (mf_entries mf'). key_fits n value"
proof (induction ls arbitrary: i mf)
  case (Cons l ls)
  then obtain mf1 where "process_line pb col i l mf = Ok mf1" "process_lines pb col (i + 1) ls mf1 = Ok mf'" by (auto simp: outcome_simps)
  with Cons.IH[OF Cons.prems(1)] process_line_fits[OF Cons.prems(1,2)] show ?case by blast
qed simp

lemma parsed_ok:
  assumes "binary_bounded pb" "parse_content_with_default_name pb col content default_name = Ok mp"
  shows "mapping_ok mp"
proof -
  from assms(2) obtain mf w es where mf: "process_lines pb col 0 (lines content) \<lparr>mf_name = None, mf_bits = None, mf_entries = []\<rparr> = Ok mf"
    "build_entries pb w (mf_entries mf) [] = Ok es" "mp_entries mp = es" "mp_bits mp = w"
    by (auto simp: parse_content_with_default_name_def Let_def outcome_simps)
  from process_lines_fits[OF assms(1) _ mf(1)] have "\<forall>(value, l, k, n) \<in> set (mf_entries mf). key_fits n value" by simp
  from build_entries_ok[OF assms(1) this _ _ mf(2)] mf(3,4) show ?thesis by (simp add: mapping_ok_def)
qed

text \<open>
  C24. Mapping files. Every mapping that is read from a file has one entry per key; its numbers fit the width
  and its texts have exactly that width, are made of the nine letters of the logic and are not all 0 and 1.
  (The parser of big numbers is assumed to read a binary text of n characters as a number below 2 ^ n.)
\<close>

theorem parsed_mapping_ok:
  assumes "binary_bounded pb" "parse_content_with_default_name pb col content default_name = Ok mp"
  shows "mapping_ok mp"
  by (rule parsed_ok[OF assms])

lemma mapping_misses:
  assumes "mapping_ok mp" "is_bits s" "s \<noteq> []"
  shows "mapping_translate mp n (String s) = (extend_string s n @ s, Normal)"
proof -
  have b: "is_bits (extend_string s n @ s)"
    using assms(2) by (simp add: extend_bits[OF assms(2,3)]) (simp add: is_bits_def list_all_iff)
  have "String (extend_string s n @ s) \<notin> fst ` set (mp_entries mp)"
    using assms(1) b by (fastforce simp: mapping_ok_def list_all_iff)
  then have "map_of (mp_entries mp) (String (extend_string s n @ s)) = None" by (simp add: map_of_eq_None_iff)
  then show ?thesis using kind_bits[OF b] by (simp add: mapping_translate_def Let_def key_display_def)
qed

text \<open>
  Mapping files. A label is found for a number that a file maps, but never for the same value when it
  arrives as a text of zeros and ones, as the parts of a compound value do: the keys of a file are turned into
  numbers when they are read, and the values that are looked up are not.
\<close>

theorem mapping_misses_binary_text:
  assumes "binary_bounded pb" "parse_content_with_default_name pb col content default_name = Ok mp"
    and "is_bits s" "s \<noteq> []" "map_of (mp_entries mp) (BigUint (bits_val s)) = Some entry"
  shows "mapping_translate mp n (BigUint (bits_val s)) = (me_label entry, me_kind entry) \<and>
    mapping_translate mp n (String s) = (extend_string s n @ s, Normal)"
proof -
  have "mapping_ok mp" by (rule parsed_ok[OF assms(1,2)])
  from mapping_misses[OF this assms(3,4)] assms(5) show ?thesis by (simp add: mapping_translate_def)
qed

definition sample_content :: string where
  "sample_content = ''# states'' @ [CHR 0x0A] @ ''0b10[red] Busy''"

lemma sample_parses: "parse_content_with_default_name plain_parser (\<lambda>c. (255, 0, 0, 255)) sample_content None =
  Ok \<lparr>mp_name = ''Unknown mapping'', mp_bits = 2, mp_entries = [(BigUint 2, \<lparr>me_label = ''Busy'', me_kind = Custom (255, 0, 0, 255)\<rparr>)]\<rparr>"
  by code_simp

lemma parsed_mapping_ok_witness:
  "mapping_ok \<lparr>mp_name = ''Unknown mapping'', mp_bits = 2, mp_entries = [(BigUint 2, \<lparr>me_label = ''Busy'', me_kind = Custom (255, 0, 0, 255)\<rparr>)]\<rparr>"
  by (rule parsed_mapping_ok[OF plain_parser_bounded sample_parses])

lemma mapping_misses_binary_text_witness:
  "mapping_translate \<lparr>mp_name = ''Unknown mapping'', mp_bits = 2, mp_entries = [(BigUint 2, \<lparr>me_label = ''Busy'', me_kind = Custom (255, 0, 0, 255)\<rparr>)]\<rparr>
     2 (String ''10'') = (''10'', Normal)"
proof -
  have b: "is_bits ''10''" "''10'' \<noteq> []" "bits_val ''10'' = 2" by code_simp+
  from mapping_misses_binary_text[OF plain_parser_bounded sample_parses b(1,2), of _ 2, unfolded b(3)]
  show ?thesis by (simp add: extend_string_def)
qed

lemma ws_head: "ws_len (48 # s) = 0" "ws_len (98 # s) = 0" "ws_len (32 # s) = 1"
  by (cases s rule: remdups_adj.cases; simp add: ws1_def ws2_def ws3_def)+

lemma boundary_4: "graphic c \<and> (\<forall>d \<in> set s. graphic d) \<Longrightarrow> char_boundary 4 (''0b '' @ c # s)"
proof -
  assume g: "graphic c \<and> (\<forall>d \<in> set s. graphic d)"
  show ?thesis
  proof (cases s)
    case (Cons d t)
    with g have "graphic d" by simp
    then have "(of_char d :: nat) div 64 \<noteq> 2" by (auto simp: graphic_def Let_def)
    with Cons show ?thesis by (simp add: char_boundary_def)
  qed (simp add: char_boundary_def)
qed

text \<open>
  Mapping files. Two kinds of lines stop the program instead of being reported: a prefix \<open>0b\<close> with no
  digits after it, and a line whose fourth byte is not the last of a character, because the line is cut there to
  look for the keyword \<open>name\<close>; a key of two digits with a label that begins with a letter outside ASCII is
  such a line. (The parser of big numbers is assumed to refuse an empty text.)
\<close>

theorem mapping_parser_panics:
  assumes "pb [] 2 = None" "lines content = [line]" "trim line = line" "line \<noteq> []" "\<not> starts_with ''#'' line"
    and "4 \<le> length line \<and> \<not> char_boundary 4 line \<or> (\<exists>label. line = ''0b '' @ label \<and> label \<noteq> [] \<and> (\<forall>c \<in> set label. graphic c))"
  shows "parse_content_with_default_name pb col content default_name = Panic"
proof -
  let ?mf = "\<lparr>mf_name = None, mf_bits = None, mf_entries = []\<rparr>"
  have four: "length ''name'' = 4" "length ''bits'' = 4" by simp_all
  from assms(6) consider (cut) "4 \<le> length line" "\<not> char_boundary 4 line"
    | (prefix) label where "line = ''0b '' @ label" "label \<noteq> []" "\<forall>c \<in> set label. graphic c" by blast
  then show ?thesis
  proof cases
    case cut
    from cut have "parse_specifier line ''name'' = (Panic :: (mapping_parse_error, string option) outcome)"
      unfolding parse_specifier_def slice_to_def four by simp
    with assms(3,4,5) have "process_line pb col 0 line ?mf = Panic" by (simp add: process_line_def Let_def)
    with assms(2) show ?thesis by (simp add: parse_content_with_default_name_def Let_def)
  next
    case prefix
    obtain c label' where l: "label = c # label'" using prefix(2) by (cases label) auto
    have "graphic c" using prefix(3) l by simp
    have b: "char_boundary 4 line" unfolding prefix(1) l by (rule boundary_4) (use prefix(3) l in simp)
    have none: "parse_specifier line ''name'' = (Ok None :: (mapping_parse_error, string option) outcome)"
      "parse_specifier line ''bits'' = (Ok None :: (mapping_parse_error, string option) outcome)"
      unfolding parse_specifier_def slice_to_def four using b unfolding prefix(1) l
      by (simp_all add: to_ascii_lowercase_def ascii_lower_def)
    have "ws_len (map of_char label) = 0" by (rule ws_len_graphic[OF prefix(3)])
    then have "trim_start (CHR '' '' # label) = label" by (subst trim_start.simps) (simp add: trim_start_id ws_head Let_def)
    moreover have "trim_start line = line" by (rule trim_start_id) (simp add: prefix(1) ws1_def ws2_def ws3_def)
    moreover have "first_word line = ''0b''" by (simp add: prefix(1) ws_head ws1_def ws2_def ws3_def)
    moreover have "parse_key_with_kind pb col ''0b'' = Ok (String [], Normal, 0)"
      using assms(1) by (simp add: parse_key_with_kind_def find_char_def parse_key_value_def starts_with_def to_ascii_lowercase_def)
    ultimately have "parse_line pb col line = Ok (String [], label, Normal, 0)"
      using prefix(1,2) by (simp add: parse_line_def Let_def)
    with assms(3,4,5) none have "process_line pb col 0 line ?mf = Ok (?mf\<lparr>mf_entries := [(String [], label, Normal, 0)]\<rparr>)"
      by (simp add: process_line_def Let_def)
    moreover have "normalize_first_column pb (String []) 0 0 = Panic" using assms(1) by (simp add: normalize_first_column_def)
    ultimately show ?thesis using assms(2) by (simp add: parse_content_with_default_name_def Let_def)
  qed
qed

text \<open>The line \<open>10\<close> with a label that begins with the letter U+00DC.\<close>

lemma mapping_parser_panics_witness:
  "parse_content_with_default_name plain_parser (\<lambda>c. (0, 0, 0, 255)) [CHR ''1'', CHR ''0'', CHR '' '', CHR 0xC3, CHR 0x9C] None = Panic"
  by (rule mapping_parser_panics[of _ _ "[CHR ''1'', CHR ''0'', CHR '' '', CHR 0xC3, CHR 0x9C]", OF _ _ _ _ _ disjI1]) code_simp+

end
