(* ===== verification/Time_Format.thy ===== *)
theory Time_Format
  imports Complex_Main Basic_Translators
begin

section \<open>Times: formatting and reading (time.rs)\<close>

text \<open>
  Time units and scales, the text of a time in a wanted unit and number format, the reading of a time with or
  without a unit, and the state of the time entry field. Menus, drawing and the places of ticks are left out.
  Two things of other packages are parameters: \<open>show_fixed x p\<close> is the text with \<open>p\<close> decimals of the \<^verbatim>\<open>f64\<close>
  nearest to \<open>x\<close>, and a \<open>locale_format\<close> is what the locale data base says of numbers. Strings are UTF-8.
\<close>

datatype time_unit = ZeptoSeconds | AttoSeconds | FemtoSeconds | PicoSeconds | NanoSeconds | MicroSeconds
  | MilliSeconds | Seconds | NoUnit | Auto

record time_scale =
  tsc_unit :: time_unit
  tsc_multiplier :: "nat option"

datatype time_string_formatting = PlainFormat | LocaleFormat | SIFormat

record time_format =
  tf_format :: time_string_formatting
  tf_show_space :: bool
  tf_show_unit :: bool

record locale_format =
  lf_grouping :: "int list"
  lf_thousands_sep :: string
  lf_decimal_point :: string

text \<open>\<^verbatim>\<open>ilog10\<close> of zero panics.\<close>

definition multiplier_digits :: "time_scale \<Rightarrow> ('e, nat) outcome" where
  "multiplier_digits ts = (case tsc_multiplier ts of
     None \<Rightarrow> Ok 0
   | Some k \<Rightarrow> if k = 0 then Panic else Ok (length (show_nat k) - 1))"

fun show_unit :: "time_unit \<Rightarrow> string" where
  "show_unit ZeptoSeconds = ''zs''"
| "show_unit AttoSeconds = ''as''"
| "show_unit FemtoSeconds = ''fs''"
| "show_unit PicoSeconds = ''ps''"
| "show_unit NanoSeconds = ''ns''"
| "show_unit MicroSeconds = [CHR 0xCE, CHR 0xBC, CHR ''s'']"
| "show_unit MilliSeconds = ''ms''"
| "show_unit Seconds = ''s''"
| "show_unit NoUnit = ''No unit''"
| "show_unit Auto = ''Auto''"

fun exponent :: "time_unit \<Rightarrow> int" where
  "exponent ZeptoSeconds = -21"
| "exponent AttoSeconds = -18"
| "exponent FemtoSeconds = -15"
| "exponent PicoSeconds = -12"
| "exponent NanoSeconds = -9"
| "exponent MicroSeconds = -6"
| "exponent MilliSeconds = -3"
| "exponent Seconds = 0"
| "exponent NoUnit = 0"
| "exponent Auto = 0"

definition from_exponent :: "int \<Rightarrow> time_unit option" where
  "from_exponent e =
     (if e = -21 then Some ZeptoSeconds else if e = -18 then Some AttoSeconds else if e = -15 then Some FemtoSeconds
      else if e = -12 then Some PicoSeconds else if e = -9 then Some NanoSeconds else if e = -6 then Some MicroSeconds
      else if e = -3 then Some MilliSeconds else if e = 0 then Some Seconds else None)"

subsection \<open>Groups of digits\<close>

definition thin_space :: string where
  "thin_space = [CHR 0xE2, CHR 0x80, CHR 0x89]"

text \<open>The characters of a text, each with its continuation bytes, and the text with its characters reversed.\<close>

definition is_continuation :: "char \<Rightarrow> bool" where
  "is_continuation c \<longleftrightarrow> (of_char c :: nat) div 64 = 2"

fun utf8_chars :: "string \<Rightarrow> string list" where
  "utf8_chars [] = []"
| "utf8_chars (c # s) = (case utf8_chars s of
     [] \<Rightarrow> [[c]]
   | u # us \<Rightarrow> if is_continuation (hd u) then (c # u) # us else [c] # u # us)"

definition rev_chars :: "string \<Rightarrow> string" where
  "rev_chars s = concat (rev (utf8_chars s))"

definition strip_trailing_zeros_and_period :: "string \<Rightarrow> string" where
  "strip_trailing_zeros_and_period s = (if CHR ''.'' \<notin> set s then s
     else rev (dropWhile (\<lambda>c. c = CHR ''.'') (dropWhile (\<lambda>c. c = CHR ''0'') (rev s))))"

definition group_if_long :: "string \<Rightarrow> string" where
  "group_if_long s = (if 4 < length s then join thin_space (group_n_chars s 3) else s)"

definition format_si :: "string \<Rightarrow> string" where
  "format_si s = (case split_once (CHR ''.'') s of
     Some (integer_part, fractional_part) \<Rightarrow>
       group_if_long integer_part @ ''.'' @
         (if 4 < length fractional_part then rev_chars (join thin_space (group_n_chars (rev_chars fractional_part) 3)) else fractional_part)
   | None \<Rightarrow> group_if_long s)"

definition format_locale :: "string \<Rightarrow> locale_format \<Rightarrow> ('e, string) outcome" where
  "format_locale s lf = (case lf_grouping lf of
     [] \<Rightarrow> Panic
   | g # _ \<Rightarrow> if 0 < g then
       (case split_once (CHR ''.'') s of
          Some (integer_part, fractional_part) \<Rightarrow>
            Ok (join (lf_thousands_sep lf) (group_n_chars integer_part (nat g)) @ lf_decimal_point lf @ fractional_part)
        | None \<Rightarrow> Ok (join (lf_thousands_sep lf) (group_n_chars s (nat g))))
     else Ok s)"

definition split_and_format_number :: "locale_format \<Rightarrow> string \<Rightarrow> time_string_formatting \<Rightarrow> ('e, string) outcome" where
  "split_and_format_number lf s format = (case format of
     PlainFormat \<Rightarrow> Ok s
   | LocaleFormat \<Rightarrow> format_locale s lf
   | SIFormat \<Rightarrow> Ok (format_si s))"

subsection \<open>Formatting\<close>

text \<open>The exponents to try, the largest first; an exponent below the digits of the multiplier overflows.\<close>

fun try_scales :: "int \<Rightarrow> nat \<Rightarrow> nat \<Rightarrow> nat list \<Rightarrow> ('e, time_unit option) outcome" where
  "try_scales t digits start [] = Ok None"
| "try_scales t digits start (e # es) =
     (if e < digits then Panic
      else if t mod 10 ^ (e - digits) = 0 then
        (case from_exponent (int e - int start) of Some u \<Rightarrow> Ok (Some u) | None \<Rightarrow> try_scales t digits start es)
      else try_scales t digits start es)"

definition scales_below :: "nat \<Rightarrow> nat list" where
  "scales_below start = rev (filter (\<lambda>e. e mod 3 = 0) [3 ..< start + 1])"

definition find_auto_scale :: "int \<Rightarrow> time_scale \<Rightarrow> ('e, time_unit) outcome" where
  "find_auto_scale t ts =
     (if tsc_unit ts = Seconds then Ok Seconds
      else and_then (multiplier_digits ts) (\<lambda>digits. let start = nat (- exponent (tsc_unit ts)) in
        and_then (try_scales t digits start (scales_below start)) (\<lambda>u.
          Ok (case u of Some unit \<Rightarrow> unit | None \<Rightarrow> tsc_unit ts))))"

definition multiplier :: "time_scale \<Rightarrow> nat" where
  "multiplier ts = (case tsc_multiplier ts of Some k \<Rightarrow> k | None \<Rightarrow> 1)"

text \<open>The digits of a time in a unit.\<close>

definition scaled_text :: "(rat \<Rightarrow> nat \<Rightarrow> string) \<Rightarrow> int \<Rightarrow> time_scale \<Rightarrow> int \<Rightarrow> string" where
  "scaled_text show_fixed t ts exponent_diff =
     (if 0 \<le> exponent_diff then
        strip_trailing_zeros_and_period (show_fixed (of_int (t * int (multiplier ts)) / 10 ^ nat exponent_diff) (nat exponent_diff))
      else show_int (t * int (multiplier ts) * 10 ^ nat (- exponent_diff)))"

definition time_string :: "(rat \<Rightarrow> nat \<Rightarrow> string) \<Rightarrow> locale_format \<Rightarrow> int \<Rightarrow> time_scale \<Rightarrow> time_unit \<Rightarrow> time_format
    \<Rightarrow> ('e, string) outcome" where
  "time_string show_fixed lf t ts wanted tf =
     (if wanted = NoUnit then split_and_format_number lf (show_int t) (tf_format tf)
      else and_then (if wanted = Auto then find_auto_scale t ts else Ok wanted) (\<lambda>unit.
        let unit_string = (if tf_show_unit tf then show_unit unit else '''') in
        and_then (split_and_format_number lf (scaled_text show_fixed t ts (exponent unit - exponent (tsc_unit ts))) (tf_format tf)) (\<lambda>s.
        Ok (s @ (if unit_string = '''' then '''' else if tf_show_space tf then '' '' else '''') @ unit_string))))"

subsection \<open>Reading\<close>

definition sorted_units :: "(string \<times> time_unit) list" where
  "sorted_units = [(''zs'', ZeptoSeconds), (''as'', AttoSeconds), (''fs'', FemtoSeconds), (''ps'', PicoSeconds), (''ns'', NanoSeconds),
     ([CHR 0xCE, CHR 0xBC, CHR ''s''], MicroSeconds), (''us'', MicroSeconds), (''ms'', MilliSeconds), (''s'', Seconds)]"

fun match_units :: "string \<Rightarrow> (string \<times> time_unit) list \<Rightarrow> string \<times> time_unit option" where
  "match_units trimmed [] = (trimmed, None)"
| "match_units trimmed ((unit_str, unit) # us) =
     (if ends_with unit_str trimmed \<and> 0 < length trimmed - length unit_str then
        (let numeric = trim_end (take (length trimmed - length unit_str) trimmed) in
         if numeric \<noteq> [] \<and> (is_ascii_digit (last numeric) \<or> last numeric = CHR ''.'') then (numeric, Some unit)
         else match_units trimmed us)
      else match_units trimmed us)"

definition parse_time_input :: "string \<Rightarrow> string \<times> time_unit option" where
  "parse_time_input input = match_units (trim input) sorted_units"

definition split_numeric_parts :: "string \<Rightarrow> (string, string \<times> string) outcome" where
  "split_numeric_parts numeric_str =
     (let trimmed = trim numeric_str in
      if trimmed = [] then Err ''Empty input''
      else if starts_with ''-'' trimmed then Err ''Negative numbers not supported''
      else let normalized = (case strip_prefix ''+'' trimmed of Some r \<Rightarrow> r | None \<Rightarrow> trimmed);
               parts = split_on (\<lambda>c. c = CHR ''.'') normalized;
               integer_part = (case parts of p # _ \<Rightarrow> p | [] \<Rightarrow> '''');
               fractional_part = (case parts of _ # p # _ \<Rightarrow> p | _ \<Rightarrow> '''')
        in if 2 < length parts then Err ''Invalid number: multiple decimal points''
           else if \<not> list_all is_ascii_digit (integer_part @ fractional_part)
             then Err (''Failed to parse '' @ [CHR 0x27] @ numeric_str @ [CHR 0x27] @ '' as number'')
           else Ok (if integer_part = [] then ''0'' else integer_part, fractional_part))"

text \<open>\<^verbatim>\<open>BigInt::parse_bytes(..., 10)\<close> of a text of digits.\<close>

definition parse_decimal :: "string \<Rightarrow> int" where
  "parse_decimal s = (case parse_digits 10 s of Some n \<Rightarrow> int n | None \<Rightarrow> 0)"

definition drop_trailing_zeros :: "string \<Rightarrow> string" where
  "drop_trailing_zeros s = rev (dropWhile (\<lambda>c. c = CHR ''0'') (rev s))"

definition normalize_numeric_with_unit :: "string \<Rightarrow> time_unit \<Rightarrow> (string, int \<times> time_unit) outcome" where
  "normalize_numeric_with_unit numeric_str unit =
     and_then (split_numeric_parts numeric_str) (\<lambda>(integer_part, fractional).
       let fractional_part = drop_trailing_zeros fractional; fractional_len = length fractional_part in
       if fractional_part = [] then Ok (parse_decimal integer_part, unit)
       else if 21 < fractional_len then Err ''Too many decimal places (max 21 supported)''
       else let steps = (fractional_len + 2) div 3 in
         case from_exponent (exponent unit - int (steps * 3)) of
           None \<Rightarrow> Err ''Too much precision for available time units''
         | Some new_unit \<Rightarrow> Ok (parse_decimal (integer_part @ fractional_part) * 10 ^ (steps * 3 - fractional_len), new_unit))"

text \<open>Division of \<^verbatim>\<open>BigInt\<close> truncates toward zero.\<close>

definition trunc_div :: "int \<Rightarrow> int \<Rightarrow> int" where
  "trunc_div a b = sgn a * sgn b * (\<bar>a\<bar> div \<bar>b\<bar>)"

definition scale_time :: "int \<Rightarrow> int \<Rightarrow> time_scale \<Rightarrow> ('e, int) outcome" where
  "scale_time v exponent_diff ts = and_then (multiplier_digits ts) (\<lambda>digits.
     let d = exponent_diff - int digits in
     Ok (if 0 < d then v * 10 ^ nat d else if d < 0 then trunc_div v (10 ^ nat (- d)) else v))"

definition parse_time_string_to_ticks :: "string \<Rightarrow> time_scale \<Rightarrow> (string, int option) outcome" where
  "parse_time_string_to_ticks input ts =
     (let (numeric_str, unit_opt) = parse_time_input input in
      case normalize_numeric_with_unit numeric_str (case unit_opt of Some u \<Rightarrow> u | None \<Rightarrow> NoUnit) of
        Ok (v, normalized_unit) \<Rightarrow>
          if normalized_unit = NoUnit then Ok (Some v)
          else and_then (scale_time v (exponent normalized_unit - exponent (tsc_unit ts)) ts) (\<lambda>t. Ok (Some t))
      | Err _ \<Rightarrow> Ok None
      | Panic \<Rightarrow> Panic)"

subsection \<open>The time entry field\<close>

record time_input_state =
  ti_input_text :: string
  ti_parsed_value :: "int option"
  ti_input_unit :: "time_unit option"
  ti_normalized_unit :: "time_unit option"
  ti_selected_unit :: time_unit
  ti_error :: "string option"

definition default_time_input :: time_input_state where
  "default_time_input = \<lparr>ti_input_text = '''', ti_parsed_value = None, ti_input_unit = None, ti_normalized_unit = None,
     ti_selected_unit = NanoSeconds, ti_error = None\<rparr>"

definition update_input :: "string \<Rightarrow> time_input_state \<Rightarrow> time_input_state" where
  "update_input input st =
     (let (numeric_str, unit) = parse_time_input input;
          base_unit = (case unit of Some u \<Rightarrow> u | None \<Rightarrow> ti_selected_unit st);
          st = st\<lparr>ti_input_text := input, ti_input_unit := unit\<rparr>
      in case normalize_numeric_with_unit numeric_str base_unit of
        Ok (v, normalized_unit) \<Rightarrow> st\<lparr>ti_parsed_value := Some v, ti_normalized_unit := Some normalized_unit, ti_error := None\<rparr>
      | Err e \<Rightarrow> st\<lparr>ti_parsed_value := None, ti_normalized_unit := None, ti_error := Some e\<rparr>
      | Panic \<Rightarrow> st)"

definition effective_unit :: "time_input_state \<Rightarrow> time_unit" where
  "effective_unit st = (case ti_normalized_unit st of Some u \<Rightarrow> u
     | None \<Rightarrow> (case ti_input_unit st of Some u \<Rightarrow> u | None \<Rightarrow> ti_selected_unit st))"

definition to_timescale_ticks :: "time_input_state \<Rightarrow> time_scale \<Rightarrow> ('e, int option) outcome" where
  "to_timescale_ticks st ts = (case ti_parsed_value st of
     None \<Rightarrow> Ok None
   | Some v \<Rightarrow>
       let unit = effective_unit st; base_unit = (if unit = NoUnit then tsc_unit ts else unit)
       in and_then (scale_time v (exponent base_unit - exponent (tsc_unit ts)) ts) (\<lambda>t. Ok (Some t)))"

text \<open>The unit menu of the field, shown while the text names no unit.\<close>

definition select_unit :: "time_unit \<Rightarrow> time_input_state \<Rightarrow> time_input_state" where
  "select_unit u st = (if ti_input_unit st = None \<and> u \<noteq> Auto \<and> u \<noteq> NoUnit then st\<lparr>ti_selected_unit := u\<rparr> else st)"

subsection \<open>Texts of digits\<close>

definition dec :: "nat list \<Rightarrow> string" where
  "dec ds = map digit_char ds"

definition digits_ok :: "nat list \<Rightarrow> bool" where
  "digits_ok ds \<longleftrightarrow> (\<forall>d \<in> set ds. d < 10)"

lemma dec_simps [simp]: "dec [] = []" "dec (d # ds) = digit_char d # dec ds" "dec (ds @ es) = dec ds @ dec es" "length (dec ds) = length ds"
  "dec ds = [] \<longleftrightarrow> ds = []" "rev (dec ds) = dec (rev ds)"
  by (simp_all add: dec_def rev_map)

lemma digits_ok_simps [simp]: "digits_ok []" "digits_ok (d # ds) \<longleftrightarrow> d < 10 \<and> digits_ok ds" "digits_ok (ds @ es) \<longleftrightarrow> digits_ok ds \<and> digits_ok es"
  "digits_ok (rev ds) \<longleftrightarrow> digits_ok ds" "digits_ok (replicate k 0)"
  by (auto simp: digits_ok_def)

lemma show_nat_dec: "show_nat n = dec (digits_of 10 n)" "digits_ok (digits_of 10 n)" "value_of 10 (digits_of 10 n) = n"
  using digits_of_less[of 10 _ n] by (auto simp: show_radix_def dec_def digits_ok_def value_of_digits)

lemma digit_code: "d < 10 \<Longrightarrow> of_char (digit_char d) = (48 + d :: nat)"
  by (simp add: digit_char_def)

lemma digit_char_facts: "d < 10 \<Longrightarrow> is_ascii_digit (digit_char d)" "d < 10 \<Longrightarrow> digit_char d = CHR ''0'' \<longleftrightarrow> d = 0"
  "d < 10 \<Longrightarrow> digit_char d \<noteq> CHR ''.''" "d < 10 \<Longrightarrow> digit_char d \<noteq> CHR ''-''" "d < 10 \<Longrightarrow> digit_char d \<noteq> CHR ''+''"
  "d < 10 \<Longrightarrow> graphic (digit_char d)"
  by (auto simp: is_ascii_digit_def graphic_def Let_def digit_code dest: arg_cong[where f = "of_char :: char \<Rightarrow> nat"])

lemma dec_no_point: "digits_ok ds \<Longrightarrow> CHR ''.'' \<notin> set (dec ds)"
  by (induction ds) (auto dest: digit_char_facts(3))

lemma dec_digits: "digits_ok ds \<Longrightarrow> list_all is_ascii_digit (dec ds)"
  by (induction ds) (auto simp: digit_char_facts)

lemma dec_graphic: "digits_ok ds \<Longrightarrow> \<forall>c \<in> set (dec ds). graphic c"
  by (induction ds) (auto simp: digit_char_facts)

lemma parse_dec: "digits_ok ds \<Longrightarrow> ds \<noteq> [] \<Longrightarrow> parse_decimal (dec ds) = int (value_of 10 ds)"
proof -
  assume d: "digits_ok ds" "ds \<noteq> []"
  have "digit_vals 10 (dec ds) = Some ds" unfolding dec_def by (rule digit_vals_map) (use d in \<open>auto simp: digits_ok_def\<close>)
  with d show ?thesis by (simp add: parse_decimal_def parse_digits_def)
qed

lemma drop_zeros_dec: "digits_ok ds \<Longrightarrow> dropWhile (\<lambda>c. c = CHR ''0'') (dec ds) = dec (dropWhile (\<lambda>d. d = 0) ds)"
  by (induction ds) (auto simp: digit_char_facts)

text \<open>A list of digits without its trailing zeros.\<close>

definition trimmed :: "nat list \<Rightarrow> nat list" where
  "trimmed ds = rev (dropWhile (\<lambda>d. d = 0) (rev ds))"

lemma trimmed_split: "ds = trimmed ds @ replicate (length ds - length (trimmed ds)) 0"
proof -
  have "rev ds = takeWhile (\<lambda>d. d = 0) (rev ds) @ rev (trimmed ds)" by (simp add: trimmed_def)
  then have s: "ds = trimmed ds @ rev (takeWhile (\<lambda>d. d = 0) (rev ds))" by (metis rev_append rev_rev_ident)
  have "takeWhile (\<lambda>d. d = 0) (rev ds) = replicate (length (takeWhile (\<lambda>d. d = 0) (rev ds))) 0"
    by (metis (mono_tags, lifting) replicate_length_same set_takeWhileD)
  moreover have "length (takeWhile (\<lambda>d. d = 0) (rev ds)) = length ds - length (trimmed ds)"
    using arg_cong[OF s, of length] by simp
  ultimately show ?thesis using s by (metis rev_replicate)
qed

lemma trimmed_facts: "digits_ok ds \<Longrightarrow> digits_ok (trimmed ds)" "length (trimmed ds) \<le> length ds" "trimmed (trimmed ds) = trimmed ds"
  "trimmed ds \<noteq> [] \<Longrightarrow> last (trimmed ds) \<noteq> 0"
  "value_of 10 ds = value_of 10 (trimmed ds) * 10 ^ (length ds - length (trimmed ds))"
proof -
  show "digits_ok ds \<Longrightarrow> digits_ok (trimmed ds)" using trimmed_split[of ds] by (metis digits_ok_simps(3))
  show "length (trimmed ds) \<le> length ds" using trimmed_split[of ds] by (metis le_add1 length_append)
  show "trimmed (trimmed ds) = trimmed ds" by (simp add: trimmed_def dropWhile_idem)
  show "trimmed ds \<noteq> [] \<Longrightarrow> last (trimmed ds) \<noteq> 0" using hd_dropWhile[of "\<lambda>d. d = 0" "rev ds"] by (simp only: trimmed_def last_rev) simp
  have "value_of 10 (es @ replicate k 0) = value_of 10 es * 10 ^ k" for es k
    by (simp add: value_of_append value_of_zeros[of 10 k "[]", simplified])
  from this[of "trimmed ds" "length ds - length (trimmed ds)"]
  show "value_of 10 ds = value_of 10 (trimmed ds) * 10 ^ (length ds - length (trimmed ds))" using trimmed_split[of ds] by simp
qed

lemma drop_trailing_dec: "digits_ok ds \<Longrightarrow> drop_trailing_zeros (dec ds) = dec (trimmed ds)"
  by (simp add: drop_trailing_zeros_def drop_zeros_dec trimmed_def)

lemma split_on_absent: "\<forall>c \<in> set s. \<not> P c \<Longrightarrow> split_on P s = [s]"
  by (induction s) auto

lemma split_on_once: "\<forall>c \<in> set s. \<not> P c \<Longrightarrow> P x \<Longrightarrow> split_on P (s @ x # t) = s # split_on P t"
  by (induction s) auto

lemma split_dec: "digits_ok ds \<Longrightarrow> split_on (\<lambda>c. c = CHR ''.'') (dec ds) = [dec ds]"
  using dec_no_point by (intro split_on_absent) auto

lemma split_dec_point: "digits_ok ds \<Longrightarrow> digits_ok es \<Longrightarrow> split_on (\<lambda>c. c = CHR ''.'') (dec ds @ CHR ''.'' # dec es) = [dec ds, dec es]"
  using dec_no_point[of ds] split_dec[of es] by (subst split_on_once) auto

text \<open>A number: an integer part and digits after the point, which may be missing.\<close>

definition number_text :: "nat list \<Rightarrow> nat list \<Rightarrow> string" where
  "number_text ip fr = (if fr = [] then dec ip else dec ip @ CHR ''.'' # dec fr)"

lemma split_number:
  assumes "digits_ok ip" "digits_ok fr" "ip \<noteq> []"
  shows "split_numeric_parts (number_text ip fr) = Ok (dec ip, dec fr)"
proof -
  have g: "\<forall>c \<in> set (number_text ip fr). graphic c"
    using dec_graphic[OF assms(1)] dec_graphic[OF assms(2)] by (auto simp: number_text_def graphic_def)
  obtain d ds where ip: "ip = d # ds" using assms(3) by (cases ip) auto
  have "\<not> starts_with ''-'' (number_text ip fr)" "strip_prefix ''+'' (number_text ip fr) = None" "number_text ip fr \<noteq> []"
    using assms(1) by (auto simp: number_text_def ip starts_with_def strip_prefix_def dest: digit_char_facts)
  moreover have "split_on (\<lambda>c. c = CHR ''.'') (number_text ip fr) = (if fr = [] then [dec ip] else [dec ip, dec fr])"
    using split_dec[OF assms(1)] split_dec_point[OF assms(1,2)] by (simp add: number_text_def)
  ultimately show ?thesis using g dec_digits[OF assms(1)] dec_digits[OF assms(2)] assms(3)
    by (simp add: split_numeric_parts_def)
qed

lemma normalize_number:
  assumes "digits_ok ip" "digits_ok fr" "ip \<noteq> []" "trimmed fr = fr" "length fr \<le> 21"
    and "from_exponent (exponent u - int ((length fr + 2) div 3 * 3)) = Some u'"
  shows "normalize_numeric_with_unit (number_text ip fr) u =
    Ok (if fr = [] then (int (value_of 10 ip), u)
        else (int (value_of 10 (ip @ fr)) * 10 ^ ((length fr + 2) div 3 * 3 - length fr), u'))"
  using assms parse_dec[of ip] parse_dec[of "ip @ fr"] drop_trailing_dec[OF assms(2)]
  by (simp add: normalize_numeric_with_unit_def split_number Let_def)

subsection \<open>A text that is formatted is read back\<close>

definition real_unit :: "time_unit \<Rightarrow> bool" where
  "real_unit u \<longleftrightarrow> u \<noteq> NoUnit \<and> u \<noteq> Auto"

lemma from_exponent_exponent: "from_exponent e = Some u \<longleftrightarrow> real_unit u \<and> exponent u = e"
  by (cases u) (auto simp: from_exponent_def real_unit_def)

lemma from_exponent_total: "\<lbrakk>-21 \<le> e; e \<le> 0; e mod 3 = 0\<rbrakk> \<Longrightarrow> \<exists>u. from_exponent e = Some u"
proof -
  assume e: "-21 \<le> e" "e \<le> 0" "e mod 3 = 0"
  have "e \<in> {-21, -18, -15, -12, -9, -6, -3, 0}" using e by simp presburger
  then show ?thesis by (auto simp: from_exponent_def)
qed

lemma exponent_facts: "-21 \<le> exponent u" "exponent u \<le> 0" "exponent u mod 3 = 0"
  by (cases u; simp)+

lemma last_number: "digits_ok ip \<Longrightarrow> digits_ok fr \<Longrightarrow> ip \<noteq> [] \<Longrightarrow> \<exists>d. d < 10 \<and> number_text ip fr \<noteq> [] \<and> last (number_text ip fr) = digit_char d"
  by (cases fr rule: rev_cases; cases ip rule: rev_cases) (auto simp: number_text_def)

lemma hd_number: "digits_ok ip \<Longrightarrow> ip \<noteq> [] \<Longrightarrow> \<exists>d r. d < 10 \<and> number_text ip fr = digit_char d # r"
  by (cases ip) (auto simp: number_text_def)

lemma ws_codes: "48 \<le> k \<Longrightarrow> k \<le> 57 \<Longrightarrow> ws_len (k # ks) = 0" "48 \<le> k \<Longrightarrow> k \<le> 57 \<or> k = 115 \<Longrightarrow> ws_len_rev (k # ks) = 0"
  "ws_len_rev (32 # ks) = 1"
proof -
  show "48 \<le> k \<Longrightarrow> k \<le> 57 \<Longrightarrow> ws_len (k # ks) = 0"
    by (cases "k # ks" rule: ws_len.cases) (auto simp: ws1_def ws2_def ws3_def)
  show "ws_len_rev (32 # ks) = 1"
    by (cases "32 # ks" rule: ws_len_rev.cases) (auto simp: ws1_def)
  assume "48 \<le> k" "k \<le> 57 \<or> k = 115"
  then have "33 \<le> k" "k \<le> 126" by auto
  then have "\<not> ws1 k" "\<And>a. \<not> ws2 a k" "\<And>a b. \<not> ws3 a b k" by (simp_all add: ws1_def ws2_def ws3_def)
  then show "ws_len_rev (k # ks) = 0" by (cases "k # ks" rule: ws_len_rev.cases) simp_all
qed

lemma trim_end_digit: "d < 10 \<Longrightarrow> s \<noteq> [] \<Longrightarrow> last s = digit_char d \<Longrightarrow> trim_end s = s \<and> trim_end (s @ '' '') = s"
proof -
  assume d: "d < 10" and s: "s \<noteq> []" "last s = digit_char d"
  obtain r where r: "s = r @ [digit_char d]" using s by (metis append_butlast_last_id)
  have e: "trim_rev (digit_char d # rev r) = digit_char d # rev r"
    using d by (subst trim_rev.simps) (simp add: Let_def digit_code ws_codes)
  have "trim_rev (CHR '' '' # digit_char d # rev r) = digit_char d # rev r"
    by (subst trim_rev.simps) (simp add: Let_def ws_codes e)
  with e show ?thesis by (simp add: trim_end_def r)
qed

lemma ends_with_rev: "ends_with p s \<longleftrightarrow> take (length p) (rev s) = rev p"
proof -
  have "ends_with p s \<longleftrightarrow> (\<exists>q. s = q @ p)" by (auto simp: ends_with_def) (metis append_take_drop_id)
  also have "\<dots> \<longleftrightarrow> (\<exists>q. rev s = rev p @ q)" by (metis rev_append rev_rev_ident)
  also have "\<dots> \<longleftrightarrow> take (length p) (rev s) = rev p" by (metis append_eq_conv_conj append_take_drop_id length_rev)
  finally show ?thesis .
qed

lemma digit_neq: "d < 10 \<Longrightarrow> \<not> is_ascii_digit c \<Longrightarrow> digit_char d \<noteq> c"
  using digit_char_facts(1) by blast

lemma trim_number:
  assumes "d < 10" "d' < 10" "s = digit_char d # r" "s \<noteq> []" "last s = digit_char d'" "real_unit u" "sp = '''' \<or> sp = '' ''"
  shows "trim (s @ sp @ show_unit u) = s @ sp @ show_unit u"
proof -
  have "last (show_unit u) = CHR ''s''" "show_unit u \<noteq> []" using assms(6) by (cases u; simp add: real_unit_def)+
  then obtain t where t: "show_unit u = t @ ''s''" by (metis append_butlast_last_id)
  have "trim_start (s @ sp @ show_unit u) = s @ sp @ show_unit u"
    using assms(1,3) by (intro trim_start_id) (simp add: digit_code ws_codes)
  moreover have "trim_end (s @ sp @ show_unit u) = s @ sp @ show_unit u"
    by (intro trim_end_id) (simp add: t ws_codes)
  ultimately show ?thesis by (simp add: trim_def)
qed

lemma match_units_number:
  assumes "d < 10" "s = r @ [digit_char d]" "real_unit u" "sp = '''' \<or> sp = '' ''"
  shows "match_units (s @ sp @ show_unit u) sorted_units = (s, Some u)"
proof -
  have s: "s \<noteq> []" "last s = digit_char d" "is_ascii_digit (last s)" using assms(1,2) by (simp_all add: digit_char_facts)
  have te: "trim_end s = s" "trim_end (s @ '' '') = s" using trim_end_digit[OF assms(1) s(1,2)] by simp_all
  have rs: "rev s = digit_char d # rev r" using assms(2) by simp
  have n: "digit_char d \<noteq> c" if "\<not> is_ascii_digit c" for c using digit_neq[OF assms(1) that] .
  have neqs: "digit_char d \<noteq> CHR ''z''" "digit_char d \<noteq> CHR ''a''" "digit_char d \<noteq> CHR ''f''" "digit_char d \<noteq> CHR ''p''"
    "digit_char d \<noteq> CHR ''n''" "digit_char d \<noteq> CHR ''u''" "digit_char d \<noteq> CHR ''m''" "digit_char d \<noteq> CHR 0xBC"
    by (rule n; simp add: is_ascii_digit_def)+
  from assms(4) show ?thesis
  proof
    assume "sp = ''''"
    then show ?thesis using assms(3) s te neqs
      by (cases u) (simp_all add: sorted_units_def real_unit_def ends_with_rev rs)
  next
    assume "sp = '' ''"
    then show ?thesis using assms(3) s te neqs
      by (cases u) (simp_all add: sorted_units_def real_unit_def ends_with_rev rs)
  qed
qed

lemma parse_time_input_number:
  assumes "digits_ok ip" "digits_ok fr" "ip \<noteq> []" "real_unit u" "sp = '''' \<or> sp = '' ''"
  shows "parse_time_input (number_text ip fr @ sp @ show_unit u) = (number_text ip fr, Some u)"
proof -
  obtain d r where h: "d < 10" "number_text ip fr = digit_char d # r" using hd_number[OF assms(1,3)] by blast
  obtain d' where l: "d' < 10" "number_text ip fr \<noteq> []" "last (number_text ip fr) = digit_char d'" using last_number[OF assms(1-3)] by blast
  then have b: "number_text ip fr = butlast (number_text ip fr) @ [digit_char d']" by (metis append_butlast_last_id)
  show ?thesis unfolding parse_time_input_def trim_number[OF h(1) l(1) h(2) l(2,3) assms(4,5)]
    by (rule match_units_number[OF l(1) b assms(4,5)])
qed

text \<open>The exact text of a number of thousandths, millionths and so on, and what is left of it without final zeros.\<close>

definition decimal_text :: "nat \<Rightarrow> nat \<Rightarrow> string" where
  "decimal_text n p = show_nat (n div 10 ^ p) @ (if p = 0 then '''' else ''.'' @ zero_pad p (show_nat (n mod 10 ^ p)))"

lemma padded_decimal:
  assumes "r < 10 ^ p" "0 < p"
  obtains ds where "zero_pad p (show_nat r) = dec ds" "digits_ok ds" "length ds = p" "value_of 10 ds = r"
proof
  let ?ds = "replicate (p - length (digits_of 10 r)) 0 @ digits_of 10 r"
  show "zero_pad p (show_nat r) = dec ?ds" by (simp add: zero_pad_def show_nat_dec(1) dec_def map_replicate)
  show "digits_ok ?ds" by (simp add: show_nat_dec(2))
  show "value_of 10 ?ds = r" by (simp add: show_nat_dec(3))
  have "length (digits_of 10 r) \<le> p" using assms by (simp add: digits_of_length)
  then show "length ?ds = p" by simp
qed

lemma drop_zeros_then: "digits_ok es \<Longrightarrow> x \<noteq> CHR ''0'' \<Longrightarrow>
    dropWhile (\<lambda>c. c = CHR ''0'') (dec es @ x # t) = dec (dropWhile (\<lambda>d. d = 0) es) @ x # t"
  by (induction es) (auto simp: digit_char_facts)

lemma strip_point: "digits_ok ip \<Longrightarrow> digits_ok ds \<Longrightarrow> ip \<noteq> [] \<Longrightarrow>
    strip_trailing_zeros_and_period (dec ip @ CHR ''.'' # dec ds) = number_text ip (trimmed ds)"
proof -
  assume d: "digits_ok ip" "digits_ok ds" "ip \<noteq> []"
  have e: "dropWhile (\<lambda>c. c = CHR ''0'') (rev (dec ip @ CHR ''.'' # dec ds)) = dec (dropWhile (\<lambda>d. d = 0) (rev ds)) @ CHR ''.'' # dec (rev ip)"
    using drop_zeros_then[of "rev ds" "CHR ''.''" "dec (rev ip)"] d(2) by simp
  show ?thesis
  proof (cases "dropWhile (\<lambda>d. d = 0) (rev ds)")
    case Nil
    obtain d' r where ip: "rev ip = d' # r" using d(3) by (cases "rev ip") auto
    then have "d' < 10" using d(1) by (metis digits_ok_simps(2,4))
    then have "dropWhile (\<lambda>c. c = CHR ''.'') (dec (rev ip)) = dec (rev ip)" by (simp add: ip digit_char_facts)
    then have "strip_trailing_zeros_and_period (dec ip @ CHR ''.'' # dec ds) = dec ip"
      unfolding strip_trailing_zeros_and_period_def e Nil by (simp del: dec_simps(6)) (metis dec_simps(6) rev_rev_ident)
    with Nil show ?thesis by (simp add: number_text_def trimmed_def)
  next
    case (Cons x xs)
    have "digits_ok (trimmed ds)" using trimmed_facts(1)[OF d(2)] .
    then have "x < 10" using Cons by (simp add: trimmed_def)
    then have "dropWhile (\<lambda>c. c = CHR ''.'') (dec (x # xs) @ CHR ''.'' # dec (rev ip)) = dec (x # xs) @ CHR ''.'' # dec (rev ip)"
      by (simp add: digit_char_facts)
    then have "strip_trailing_zeros_and_period (dec ip @ CHR ''.'' # dec ds) = rev (dec (x # xs) @ CHR ''.'' # dec (rev ip))"
      unfolding strip_trailing_zeros_and_period_def e Cons by (simp del: dec_simps)
    also have "\<dots> = dec ip @ CHR ''.'' # dec (rev (x # xs))" by (simp add: dec_def rev_map)
    finally have "strip_trailing_zeros_and_period (dec ip @ CHR ''.'' # dec ds) = dec ip @ CHR ''.'' # dec (rev (x # xs))" .
    with Cons show ?thesis by (simp add: number_text_def trimmed_def)
  qed
qed

lemma digits_dec_nonempty: "digits_of 10 n \<noteq> []"
  by (simp add: digits_of_nonempty)

lemma stripped_decimal:
  obtains ip fr where "strip_trailing_zeros_and_period (decimal_text n p) = number_text ip fr" "digits_ok ip" "digits_ok fr" "ip \<noteq> []"
    "trimmed fr = fr" "length fr \<le> p" "n = value_of 10 (ip @ fr) * 10 ^ (p - length fr)"
proof (cases "p = 0")
  case True
  have "strip_trailing_zeros_and_period (decimal_text n p) = number_text (digits_of 10 n) []"
    using dec_no_point[OF show_nat_dec(2)[of n]] True
    by (simp add: decimal_text_def strip_trailing_zeros_and_period_def number_text_def show_nat_dec(1))
  then show ?thesis using True show_nat_dec(2,3)[of n] digits_dec_nonempty[of n]
    by (intro that[of "digits_of 10 n" "[]"]) (simp_all add: trimmed_def)
next
  case False
  then have "n mod 10 ^ p < 10 ^ p" "0 < p" by simp_all
  then obtain ds where ds: "zero_pad p (show_nat (n mod 10 ^ p)) = dec ds" "digits_ok ds" "length ds = p" "value_of 10 ds = n mod 10 ^ p"
    by (rule padded_decimal)
  define ip where "ip = digits_of 10 (n div 10 ^ p)"
  have ip: "digits_ok ip" "ip \<noteq> []" "value_of 10 ip = n div 10 ^ p" "show_nat (n div 10 ^ p) = dec ip"
    using show_nat_dec[of "n div 10 ^ p"] digits_dec_nonempty by (simp_all add: ip_def)
  define k where "k = p - length (trimmed ds)"
  have p: "p = length (trimmed ds) + k" using trimmed_facts(2)[of ds] ds(3) by (simp add: k_def)
  have v: "n mod 10 ^ p = value_of 10 (trimmed ds) * 10 ^ k" using trimmed_facts(5)[of ds] ds(3,4) by (simp add: k_def)
  have "n = n div 10 ^ p * 10 ^ p + n mod 10 ^ p" using div_mult_mod_eq[of n "10 ^ p"] by simp
  also have "\<dots> = (value_of 10 ip * 10 ^ length (trimmed ds) + value_of 10 (trimmed ds)) * 10 ^ k"
    unfolding v ip(3) by (subst (2) p) (simp add: power_add algebra_simps)
  finally have "n = value_of 10 (ip @ trimmed ds) * 10 ^ (p - length (trimmed ds))" by (simp add: value_of_append k_def)
  moreover have "strip_trailing_zeros_and_period (decimal_text n p) = number_text ip (trimmed ds)"
    using False strip_point[OF ip(1) ds(2) ip(2)] by (simp add: decimal_text_def ip(4) ds(1))
  ultimately show ?thesis using trimmed_facts(1-3)[of ds] ds(2,3) ip by (intro that[of ip "trimmed ds"]) simp_all
qed

text \<open>A time scale of a real unit whose multiplier is 1, 10 or 100.\<close>

definition standard_scale :: "time_scale \<Rightarrow> nat \<Rightarrow> bool" where
  "standard_scale ts d \<longleftrightarrow> real_unit (tsc_unit ts) \<and> d \<le> 2 \<and> tsc_multiplier ts \<in> {Some (10 ^ d)} \<union> (if d = 0 then {None} else {})"

lemma show_small: "show_nat 1 = ''1''" "show_nat 10 = ''10''" "show_nat 100 = ''100''"
  by code_simp+

lemma standard_multiplier: "standard_scale ts d \<Longrightarrow> multiplier ts = 10 ^ d \<and> multiplier_digits ts = Ok d"
proof -
  assume s: "standard_scale ts d"
  then have "d = 0 \<or> d = 1 \<or> d = 2" by (auto simp: standard_scale_def)
  then show ?thesis using s show_small
    by (auto simp: standard_scale_def multiplier_def multiplier_digits_def)
qed

lemma scale_back:
  assumes "standard_scale ts d" "v * 10 ^ nat (exponent u' + 21) = int n * 10 ^ (d + nat (exponent (tsc_unit ts) + 21))"
  shows "scale_time v (exponent u' - exponent (tsc_unit ts)) ts = Ok (int n)"
proof -
  define a b where "a = nat (exponent u' + 21)" and "b = d + nat (exponent (tsc_unit ts) + 21)"
  have diff: "exponent u' - exponent (tsc_unit ts) - int d = int a - int b"
    using exponent_facts(1)[of u'] exponent_facts(1)[of "tsc_unit ts"] by (simp add: a_def b_def)
  have e: "v * 10 ^ a = int n * 10 ^ b" using assms(2) by (simp add: a_def b_def)
  note m = standard_multiplier[OF assms(1), THEN conjunct2]
  show ?thesis
  proof (cases "b \<le> a")
    case True
    then have "(10 :: int) ^ a = 10 ^ (a - b) * 10 ^ b" by (simp flip: power_add)
    then have "v * 10 ^ (a - b) * 10 ^ b = int n * 10 ^ b" using e by (simp only: mult.assoc)
    then have "v * 10 ^ (a - b) = int n" by simp
    then show ?thesis using True diff unfolding scale_time_def m by (auto simp: Let_def nat_diff_distrib)
  next
    case False
    then have "(10 :: int) ^ b = 10 ^ (b - a) * 10 ^ a" by (simp flip: power_add)
    then have "v * 10 ^ a = int n * 10 ^ (b - a) * 10 ^ a" using e by (simp only: mult.assoc)
    then have v: "v = int n * 10 ^ (b - a)" by simp
    have "trunc_div v (10 ^ (b - a)) = int n" unfolding v by (cases "n = 0") (simp_all add: trunc_div_def sgn_mult abs_mult)
    then show ?thesis using False diff unfolding scale_time_def m by (auto simp: Let_def nat_diff_distrib)
  qed
qed
text \<open>A time is whole in a unit when it has no digits after the point there.\<close>

definition whole_in :: "time_scale \<Rightarrow> int \<Rightarrow> time_unit \<Rightarrow> bool" where
  "whole_in ts t u \<longleftrightarrow> real_unit u \<and> exponent (tsc_unit ts) \<le> exponent u
     \<and> t * int (multiplier ts) mod 10 ^ nat (exponent u - exponent (tsc_unit ts)) = 0"

lemma whole_shift: "d \<le> e \<Longrightarrow> t * 10 ^ d mod 10 ^ e = (0 :: int) \<longleftrightarrow> t mod 10 ^ (e - d) = 0"
proof -
  assume "d \<le> e"
  then have "(10 :: int) ^ e = 10 ^ (e - d) * 10 ^ d" by (simp flip: power_add)
  then show ?thesis by simp
qed

lemma thirds: "e mod 3 = 0 \<Longrightarrow> s mod 3 = 0 \<Longrightarrow> (int e - int s) mod 3 = 0"
  by presburger

lemma three_apart: "a mod 3 = 0 \<Longrightarrow> b mod 3 = 0 \<Longrightarrow> b < a \<Longrightarrow> 3 \<le> nat (a - b)" for a b :: int
proof -
  assume "a mod 3 = 0" "b mod 3 = 0" "b < a"
  then have "3 \<le> a - b" by presburger
  then show ?thesis by simp
qed

lemma try_scales_spec: "\<lbrakk>\<forall>e \<in> set es. d \<le> e \<and> e mod 3 = 0 \<and> start \<le> 21 \<and> e \<le> start; start mod 3 = 0; sorted_wrt (>) es\<rbrakk> \<Longrightarrow>
   case try_scales t d start es of
     Ok (Some u) \<Rightarrow> \<exists>e \<in> set es. from_exponent (int e - int start) = Some u \<and> t mod 10 ^ (e - d) = 0 \<and> (\<forall>e' \<in> set es. e < e' \<longrightarrow> t mod 10 ^ (e' - d) \<noteq> 0)
   | Ok None \<Rightarrow> \<forall>e \<in> set es. t mod 10 ^ (e - d) \<noteq> 0
   | _ \<Rightarrow> False"
proof (induction es)
  case (Cons e es)
  have "(int e - int start) mod 3 = 0" using Cons.prems thirds by simp
  moreover have "-21 \<le> int e - int start" "int e - int start \<le> 0" using Cons.prems by auto
  ultimately obtain u where u: "from_exponent (int e - int start) = Some u" using from_exponent_total[of "int e - int start"] by auto
  show ?case
  proof (cases "t mod 10 ^ (e - d) = 0")
    case True
    then show ?thesis using u Cons.prems by fastforce
  next
    case False
    then show ?thesis using Cons by (auto split: outcome.splits option.splits)
  qed
qed simp

lemma scales_below_facts: "start mod 3 = 0 \<Longrightarrow> d \<le> 2 \<Longrightarrow> start \<le> 21 \<Longrightarrow>
    (\<forall>e \<in> set (scales_below start). d \<le> e \<and> e mod 3 = 0 \<and> start \<le> 21 \<and> e \<le> start) \<and> sorted_wrt (>) (scales_below start)"
  "e \<in> set (scales_below start) \<longleftrightarrow> 3 \<le> e \<and> e \<le> start \<and> e mod 3 = 0"
proof -
  show "start mod 3 = 0 \<Longrightarrow> d \<le> 2 \<Longrightarrow> start \<le> 21 \<Longrightarrow>
    (\<forall>e \<in> set (scales_below start). d \<le> e \<and> e mod 3 = 0 \<and> start \<le> 21 \<and> e \<le> start) \<and> sorted_wrt (>) (scales_below start)"
    using sorted_wrt_filter[OF sorted_wrt_upt, of "\<lambda>e. e mod 3 = 0" 3 "start + 1"]
    by (auto simp: scales_below_def sorted_wrt_rev simp del: upt_Suc)
  show "e \<in> set (scales_below start) \<longleftrightarrow> 3 \<le> e \<and> e \<le> start \<and> e mod 3 = 0" by (auto simp: scales_below_def)
qed

lemma start_exponent: "int (nat (- exponent u)) = - exponent u" "nat (- exponent u) mod 3 = 0" "nat (- exponent u) \<le> 21"
  by (cases u; simp)+

lemma auto_scale_cases:
  assumes "standard_scale ts d"
  shows "\<exists>u. (find_auto_scale t ts :: ('e, time_unit) outcome) = Ok u \<and> whole_in ts t u \<and> (\<forall>u'. whole_in ts t u' \<longrightarrow> exponent u' \<le> exponent u)"
proof -
  let ?b = "tsc_unit ts"
  note m = standard_multiplier[OF assms, THEN conjunct1] standard_multiplier[OF assms, THEN conjunct2]
  have b: "real_unit ?b" "d \<le> 2" using assms by (simp_all add: standard_scale_def)
  have base: "whole_in ts t ?b" using b by (simp add: whole_in_def)
  show ?thesis
  proof (cases "?b = Seconds")
    case True
    then show ?thesis using base exponent_facts(2) by (auto simp: find_auto_scale_def)
  next
    case False
    let ?s = "nat (- exponent ?b)"
    have whole: "whole_in ts t u \<longleftrightarrow> t mod 10 ^ (nat (exponent u - exponent ?b) - d) = 0"
      if "real_unit u" "exponent ?b < exponent u" for u
    proof -
      have "3 \<le> nat (exponent u - exponent ?b)" using three_apart[OF exponent_facts(3) exponent_facts(3) that(2)] .
      then show ?thesis using that b m by (simp add: whole_in_def whole_shift)
    qed
    have in_scales: "nat (exponent u - exponent ?b) \<in> set (scales_below ?s)" if "exponent ?b < exponent u" for u
      using that exponent_facts(2,3)[of u] exponent_facts(3)[of ?b] unfolding scales_below_facts(2) by (cases u; cases ?b; simp)
    note facts = scales_below_facts(1)[OF start_exponent(2) b(2) start_exponent(3), of ?b]
    have auto_eq: "(find_auto_scale t ts :: ('e, time_unit) outcome) = and_then (try_scales t d ?s (scales_below ?s)) (\<lambda>u. Ok (case u of Some unit \<Rightarrow> unit | None \<Rightarrow> ?b))"
      using False by (simp add: find_auto_scale_def Let_def standard_multiplier[OF assms, THEN conjunct2])
    note spec = try_scales_spec[OF facts[THEN conjunct1] start_exponent(2) facts[THEN conjunct2], of t, where 'a = 'e]
    show ?thesis
    proof (cases "try_scales t d ?s (scales_below ?s) :: ('e, time_unit option) outcome")
      case (Ok r)
      show ?thesis
      proof (cases r)
        case None
        have "exponent u' \<le> exponent ?b" if w: "whole_in ts t u'" for u'
        proof (rule ccontr)
          assume l: "\<not> exponent u' \<le> exponent ?b"
          then have "t mod 10 ^ (nat (exponent u' - exponent ?b) - d) = 0" using w whole[of u'] by (simp add: whole_in_def)
          then show False using l spec Ok None in_scales[of u'] by auto
        qed
        then show ?thesis using base auto_eq Ok None by auto
      next
        case (Some u)
        then obtain e where e: "e \<in> set (scales_below ?s)" "from_exponent (int e - int ?s) = Some u" "t mod 10 ^ (e - d) = 0"
          "\<forall>e' \<in> set (scales_below ?s). e < e' \<longrightarrow> t mod 10 ^ (e' - d) \<noteq> 0" using spec Ok by auto
        then have u: "real_unit u" "exponent u = int e + exponent ?b" "3 \<le> e"
          using from_exponent_exponent[of _ u] start_exponent(1)[of ?b] scales_below_facts(2) by (auto simp del: int_nat_eq)
        have "exponent u' \<le> exponent u" if w: "whole_in ts t u'" for u'
        proof (rule ccontr)
          assume l: "\<not> exponent u' \<le> exponent u"
          then have l': "exponent ?b < exponent u'" "e < nat (exponent u' - exponent ?b)" using u by auto
          then have "t mod 10 ^ (nat (exponent u' - exponent ?b) - d) = 0" using w whole[of u'] by (simp add: whole_in_def)
          then show False using l' e(4) in_scales[of u'] by auto
        qed
        moreover have "whole_in ts t u" using whole[of u] u e(3) by simp
        ultimately show ?thesis using auto_eq Ok Some by auto
      qed
    qed (use spec in auto)
  qed
qed

text \<open>
  Whatever the time, the automatic choice of a unit never panics for the time scales of waveform files (a real unit, a
  multiplier of 1, 10 or 100). It answers the largest unit in which the time has no digits after the point.
\<close>

theorem auto_scale_largest: "standard_scale ts d \<Longrightarrow>
    \<exists>u. find_auto_scale t ts = Ok u \<and> whole_in ts t u \<and> (\<forall>u'. whole_in ts t u' \<longrightarrow> exponent u' \<le> exponent u)"
  by (rule auto_scale_cases)

theorem auto_scale_largest_witness: "\<exists>u. find_auto_scale 1500 \<lparr>tsc_unit = NanoSeconds, tsc_multiplier = Some 10\<rparr> = Ok u
    \<and> whole_in \<lparr>tsc_unit = NanoSeconds, tsc_multiplier = Some 10\<rparr> 1500 u
    \<and> (\<forall>u'. whole_in \<lparr>tsc_unit = NanoSeconds, tsc_multiplier = Some 10\<rparr> 1500 u' \<longrightarrow> exponent u' \<le> exponent u)"
  by (rule auto_scale_largest[where d = 1]) (simp add: standard_scale_def real_unit_def)
lemma scaled_number:
  fixes n :: nat
  assumes s: "standard_scale ts d" "real_unit u"
    and f: "\<And>p. p \<le> 21 \<Longrightarrow> show_fixed (of_nat (n * 10 ^ d) / 10 ^ p) p = decimal_text (n * 10 ^ d) p"
  obtains ip fr where "scaled_text show_fixed (int n) ts (exponent u - exponent (tsc_unit ts)) = number_text ip fr"
    "digits_ok ip" "digits_ok fr" "ip \<noteq> []" "trimmed fr = fr" "int (length fr) \<le> max 0 (exponent u - exponent (tsc_unit ts))"
    "int (value_of 10 (ip @ fr)) * 10 ^ (nat (exponent u + 21) - length fr) = int n * 10 ^ (d + nat (exponent (tsc_unit ts) + 21))"
proof -
  define D where "D = exponent u - exponent (tsc_unit ts)"
  define a b where "a = nat (exponent u + 21)" and "b = nat (exponent (tsc_unit ts) + 21)"
  have ab: "D = int a - int b" using exponent_facts(1)[of u] exponent_facts(1)[of "tsc_unit ts"] by (simp add: D_def a_def b_def)
  have a: "a \<le> 21" using exponent_facts(2)[of u] by (simp add: a_def)
  note m = standard_multiplier[OF s(1), THEN conjunct1]
  show ?thesis
  proof (cases "0 \<le> D")
    case True
    then have p: "nat D = a - b" "b \<le> a" "nat D \<le> 21" using ab a by auto
    have "scaled_text show_fixed (int n) ts D = strip_trailing_zeros_and_period (decimal_text (n * 10 ^ d) (nat D))"
      using True f[OF p(3)] by (simp add: scaled_text_def m)
    moreover obtain ip fr where r: "strip_trailing_zeros_and_period (decimal_text (n * 10 ^ d) (nat D)) = number_text ip fr"
      "digits_ok ip" "digits_ok fr" "ip \<noteq> []" "trimmed fr = fr" "length fr \<le> nat D"
      "n * 10 ^ d = value_of 10 (ip @ fr) * 10 ^ (nat D - length fr)" by (rule stripped_decimal)
    have "a - length fr = (nat D - length fr) + b" using p r(6) by simp
    then have "value_of 10 (ip @ fr) * 10 ^ (a - length fr) = n * 10 ^ d * 10 ^ b" unfolding r(7) by (simp add: power_add)
    then have "int (value_of 10 (ip @ fr)) * 10 ^ (a - length fr) = int n * 10 ^ (d + b)"
      by (metis (mono_tags, lifting) mult.assoc of_nat_mult of_nat_numeral of_nat_power power_add)
    ultimately show ?thesis using r True by (intro that[of ip fr]) (auto simp: D_def a_def b_def)
  next
    case False
    define k where "k = n * 10 ^ d * 10 ^ nat (- D)"
    have "int n * int (multiplier ts) * 10 ^ nat (- D) = int k" by (simp add: k_def m)
    then have "scaled_text show_fixed (int n) ts D = number_text (digits_of 10 k) []"
      using False by (simp add: scaled_text_def show_int_def number_text_def show_nat_dec(1))
    moreover have "nat (- D) + a = b" using False ab by auto
    then have "k * 10 ^ a = n * 10 ^ (d + b)" unfolding k_def by (metis mult.assoc power_add)
    then have "int k * 10 ^ a = int n * 10 ^ (d + b)" by (metis of_nat_mult of_nat_numeral of_nat_power)
    ultimately show ?thesis using show_nat_dec(2,3)[of k] digits_dec_nonempty[of k]
      by (intro that[of "digits_of 10 k" "[]"]) (auto simp: D_def a_def b_def trimmed_def)
  qed
qed

lemma round_up_three: "(int n) \<le> max 0 z \<Longrightarrow> z mod 3 = 0 \<Longrightarrow> int ((n + 2) div 3 * 3) \<le> max 0 z"
  by (simp add: max_def split: if_splits) presburger+

lemma normalized_number:
  assumes s: "standard_scale ts d" "real_unit u" and d: "digits_ok ip" "digits_ok fr" "ip \<noteq> []" "trimmed fr = fr"
    and l: "int (length fr) \<le> max 0 (exponent u - exponent (tsc_unit ts))"
  obtains u' where "real_unit u'" "normalize_numeric_with_unit (number_text ip fr) u =
    Ok (int (value_of 10 (ip @ fr)) * 10 ^ (nat (exponent u + 21) - length fr - nat (exponent u' + 21)), u')"
    "nat (exponent u' + 21) \<le> nat (exponent u + 21) - length fr"
proof -
  define steps where "steps = (length fr + 2) div 3 * 3"
  have "(exponent u - exponent (tsc_unit ts)) mod 3 = 0" using exponent_facts(3)[of u] exponent_facts(3)[of "tsc_unit ts"] by presburger
  then have st: "int steps \<le> max 0 (exponent u - exponent (tsc_unit ts))" using round_up_three[OF l] by (simp only: steps_def)
  have fs: "length fr \<le> steps" unfolding steps_def by presburger
  have e: "-21 \<le> exponent u - int steps" "exponent u - int steps \<le> 0"
    using st exponent_facts(1)[of "tsc_unit ts"] exponent_facts(1,2)[of u] by (auto simp: max_def split: if_splits)
  moreover have "int steps mod 3 = 0" unfolding steps_def by presburger
  then have "(exponent u - int steps) mod 3 = 0" using exponent_facts(3)[of u] by presburger
  ultimately obtain u' where u': "from_exponent (exponent u - int steps) = Some u'" using from_exponent_total[of "exponent u - int steps"] by auto
  then have r: "real_unit u'" "exponent u' = exponent u - int steps" using from_exponent_exponent by auto
  have lf: "length fr \<le> 21" using fs e exponent_facts(2)[of u] by linarith
  note n = normalize_number[OF d lf, of u u', folded steps_def, OF u']
  show ?thesis
  proof (cases "fr = []")
    case True
    then show ?thesis using n s(2) by (intro that[of u]) simp_all
  next
    case False
    have "nat (exponent u + 21) - length fr - nat (exponent u' + 21) = steps - length fr"
      "nat (exponent u' + 21) \<le> nat (exponent u + 21) - length fr" using r(2) e fs by auto
    then show ?thesis using n False r(1) by (intro that[of u']) simp_all
  qed
qed

lemma power_split: "y \<le> x \<Longrightarrow> (10 :: int) ^ (x - y) * 10 ^ y = 10 ^ x"
  by (simp flip: power_add)

lemma shown_time:
  assumes "standard_scale ts d" "wanted \<noteq> NoUnit" "n * 10 ^ d < 2 ^ 52"
    and "\<And>m p. m < 2 ^ 52 \<Longrightarrow> p \<le> 21 \<Longrightarrow> show_fixed (of_nat m / 10 ^ p) p = decimal_text m p"
  shows "\<exists>ip fr u. digits_ok ip \<and> ip \<noteq> [] \<and> digits_ok fr
    \<and> (time_string show_fixed lf (int n) ts wanted \<lparr>tf_format = PlainFormat, tf_show_space = sp, tf_show_unit = True\<rparr>
         :: ('e, string) outcome) = Ok (number_text ip fr @ (if sp then '' '' else '''') @ show_unit u)
    \<and> parse_time_string_to_ticks (number_text ip fr @ (if sp then '' '' else '''') @ show_unit u) ts = Ok (Some (int n))"
proof -
  obtain u :: time_unit where u: "(if wanted = Auto then find_auto_scale (int n) ts else Ok wanted :: ('e, time_unit) outcome) = Ok u" "real_unit u"
    using auto_scale_cases[OF assms(1), of "int n"] assms(2) by (cases "wanted = Auto") (auto simp: whole_in_def real_unit_def)
  obtain ip fr where r: "scaled_text show_fixed (int n) ts (exponent u - exponent (tsc_unit ts)) = number_text ip fr"
    "digits_ok ip" "digits_ok fr" "ip \<noteq> []" "trimmed fr = fr" "int (length fr) \<le> max 0 (exponent u - exponent (tsc_unit ts))"
    "int (value_of 10 (ip @ fr)) * 10 ^ (nat (exponent u + 21) - length fr) = int n * 10 ^ (d + nat (exponent (tsc_unit ts) + 21))"
    using scaled_number[OF assms(1) u(2), of show_fixed n, OF assms(4)[OF assms(3)]] by blast
  obtain u' where u': "real_unit u'" "normalize_numeric_with_unit (number_text ip fr) u =
      Ok (int (value_of 10 (ip @ fr)) * 10 ^ (nat (exponent u + 21) - length fr - nat (exponent u' + 21)), u')"
    "nat (exponent u' + 21) \<le> nat (exponent u + 21) - length fr"
    by (rule normalized_number[OF assms(1) u(2) r(2-6)])
  define s where "s = number_text ip fr @ (if sp then '' '' else '''') @ show_unit u"
  have shown: "show_unit u \<noteq> ''''" "u' \<noteq> NoUnit" using u(2) u'(1) by (cases u; simp add: real_unit_def)+
  have "(time_string show_fixed lf (int n) ts wanted \<lparr>tf_format = PlainFormat, tf_show_space = sp, tf_show_unit = True\<rparr>
    :: ('e, string) outcome) = Ok s"
    unfolding time_string_def u(1) using assms(2) shown by (simp add: split_and_format_number_def r(1) s_def)
  moreover have "(scale_time (int (value_of 10 (ip @ fr)) * 10 ^ (nat (exponent u + 21) - length fr - nat (exponent u' + 21)))
      (exponent u' - exponent (tsc_unit ts)) ts :: (string, int) outcome) = Ok (int n)"
    by (rule scale_back[OF assms(1)]) (simp only: mult.assoc power_split[OF u'(3)] r(7))
  then have "parse_time_string_to_ticks s ts = Ok (Some (int n))"
    using parse_time_input_number[OF r(2-4) u(2), of "if sp then '' '' else ''''"] u'(2) shown(2)
    by (simp add: parse_time_string_to_ticks_def s_def)
  ultimately show ?thesis unfolding s_def using r(2-4) by blast
qed

text \<open>
  C19. A time that is shown is read back. In a wanted unit or with the automatic unit, with the unit and with or without a
  space, the plain text of \<open>n\<close> ticks of a file's time scale is read as \<open>n\<close> ticks. The hypothesis on \<open>show_fixed\<close> is the
  accuracy of \<^verbatim>\<open>f64\<close>: up to \<open>2 ^ 52\<close> its text with at most 21 decimals is the exact one.
\<close>

theorem time_roundtrip:
  assumes "standard_scale ts d" "wanted \<noteq> NoUnit" "n * 10 ^ d < 2 ^ 52"
    and "\<And>m p. m < 2 ^ 52 \<Longrightarrow> p \<le> 21 \<Longrightarrow> show_fixed (of_nat m / 10 ^ p) p = decimal_text m p"
  shows "\<exists>s. (time_string show_fixed lf (int n) ts wanted \<lparr>tf_format = PlainFormat, tf_show_space = sp, tf_show_unit = True\<rparr>
    :: ('e, string) outcome) = Ok s \<and> parse_time_string_to_ticks s ts = Ok (Some (int n))"
  using shown_time[OF assms] by blast

definition exact_fixed :: "rat \<Rightarrow> nat \<Rightarrow> string" where
  "exact_fixed x p = decimal_text (nat \<lfloor>x * 10 ^ p\<rfloor>) p"

theorem time_roundtrip_witness:
  "\<exists>s. time_string exact_fixed \<lparr>lf_grouping = [3], lf_thousands_sep = '','', lf_decimal_point = ''.''\<rparr> (int 12345)
      \<lparr>tsc_unit = PicoSeconds, tsc_multiplier = Some 100\<rparr> MicroSeconds \<lparr>tf_format = PlainFormat, tf_show_space = True, tf_show_unit = True\<rparr> = Ok s
    \<and> parse_time_string_to_ticks s \<lparr>tsc_unit = PicoSeconds, tsc_multiplier = Some 100\<rparr> = Ok (Some (int 12345))"
  by (rule time_roundtrip[where d = 2]) (simp_all add: standard_scale_def real_unit_def exact_fixed_def)
subsection \<open>Texts without a unit, and the unit menu\<close>

lemma match_units_none: "\<lbrakk>s = r @ [digit_char d]; d < 10; \<forall>(p, u) \<in> set us. p \<noteq> '''' \<and> last p = CHR ''s''\<rbrakk> \<Longrightarrow> match_units s us = (s, None)"
proof (induction us)
  case (Cons x us)
  obtain p u where x: "x = (p, u)" by (cases x)
  obtain q where q: "p = q @ ''s''" using Cons.prems(3) by (auto simp: x) (metis append_butlast_last_id)
  have "\<not> ends_with p s" using Cons.prems(1) digit_neq[OF Cons.prems(2), of "CHR ''s''"] by (auto simp: ends_with_rev q is_ascii_digit_def)
  then show ?case using Cons by (simp add: x)
qed simp

lemma parse_plain_number:
  assumes "digits_ok ip" "digits_ok fr" "ip \<noteq> []"
  shows "parse_time_input (number_text ip fr) = (number_text ip fr, None)"
proof -
  have g: "\<forall>c \<in> set (number_text ip fr). graphic c"
    using dec_graphic[OF assms(1)] dec_graphic[OF assms(2)] by (auto simp: number_text_def graphic_def)
  obtain d where d: "d < 10" "number_text ip fr \<noteq> []" "last (number_text ip fr) = digit_char d" using last_number[OF assms] by blast
  then have "number_text ip fr = butlast (number_text ip fr) @ [digit_char d]" by (metis append_butlast_last_id)
  then have "match_units (number_text ip fr) sorted_units = (number_text ip fr, None)"
    using d(1) by (rule match_units_none) (simp add: sorted_units_def)
  then show ?thesis using g by (simp add: parse_time_input_def)
qed

text \<open>
  A whole number without a unit is a number of ticks; a text with digits after the point (not all zero) is read as seconds,
  the same as with the suffix \<open>s\<close>.
\<close>

theorem number_without_unit:
  assumes "digits_ok ip" "digits_ok fr" "ip \<noteq> []"
  shows "parse_time_string_to_ticks (number_text ip fr) ts =
    (if trimmed fr = [] then Ok (Some (int (value_of 10 ip))) else parse_time_string_to_ticks (number_text ip fr @ ''s'') ts)"
proof -
  note n = split_number[OF assms] drop_trailing_dec[OF assms(2)] trimmed_facts(1)[OF assms(2)]
  have s: "parse_time_input (number_text ip fr @ ''s'') = (number_text ip fr, Some Seconds)"
    using parse_time_input_number[OF assms, of Seconds "''''"] by (simp add: real_unit_def)
  have "from_exponent e \<noteq> Some NoUnit" for e by (simp add: from_exponent_def)
  then show ?thesis using n s parse_plain_number[OF assms] parse_dec[OF assms(1,3)]
    by (auto simp: parse_time_string_to_ticks_def normalize_numeric_with_unit_def Let_def split: option.splits)
qed

lemma normalize_total: "normalize_numeric_with_unit s u \<noteq> Panic"
  by (auto simp: normalize_numeric_with_unit_def split_numeric_parts_def Let_def split: option.splits list.splits)

text \<open>
  The unit chosen in the menu after the text was typed changes nothing: what is read uses the unit chosen before.
\<close>

theorem unit_menu_ignored: "to_timescale_ticks (select_unit u (update_input input st)) ts = to_timescale_ticks (update_input input st) ts"
  using normalize_total[of "fst (parse_time_input input)" "case snd (parse_time_input input) of Some u \<Rightarrow> u | None \<Rightarrow> ti_selected_unit st"]
  by (cases "parse_time_input input")
    (auto simp: to_timescale_ticks_def select_unit_def update_input_def effective_unit_def Let_def split: outcome.splits option.splits)

text \<open>A minus sign is grouped like a digit: before a number of digits that the groups divide, a separator follows the sign.\<close>

lemma group_sign: "3 dvd length s \<Longrightarrow> group_n_chars (c # s) 3 = [c] # group_n_chars s 3"
  by (simp add: group_n_chars_def dvd_eq_mod_eq_0 mod_Suc)

lemma sign_groups_nonempty: "s \<noteq> [] \<Longrightarrow> group_n_chars s 3 \<noteq> []"
  by (cases s) (auto simp: group_n_chars_def Let_def chunks_of.simps)

theorem sign_is_grouped: "\<lbrakk>3 dvd length s; 4 < length s; CHR ''.'' \<notin> set s\<rbrakk> \<Longrightarrow> format_si (CHR ''-'' # s) = ''-'' @ thin_space @ format_si s"
proof -
  assume l: "3 dvd length s" "4 < length s" and p: "CHR ''.'' \<notin> set s"
  obtain w ws where w: "group_n_chars s 3 = w # ws" using l(2) sign_groups_nonempty[of s] by (cases "group_n_chars s 3"; cases s) auto
  have "split_once (CHR ''.'') s = None" "split_once (CHR ''.'') (CHR ''-'' # s) = None" using p by (simp_all add: split_once_def)
  then show ?thesis using l(2) group_sign[OF l(1), of "CHR ''-''"] by (simp add: format_si_def group_if_long_def w)
qed

end
