(* ===== verification/File_History.thy ===== *)
theory File_History
  imports Rust_Strings
begin

section \<open>Recent files (file_history.rs)\<close>

text \<open>
  The list of recent files and the labels under which the menu shows them: the last part of a path, with as many of the
  parts before it as tell files of the same name apart. The storage of the list on disk is left out. Paths are UTF-8
  strings; a hash map of groups is given as the list of names that occur, since the groups do not touch each other's labels.
\<close>

record file_history =
  fh_files :: "string list"
  fh_max_entries :: nat

definition is_connection_entry :: "string \<Rightarrow> bool" where
  "is_connection_entry path \<longleftrightarrow> starts_with ''http://'' path \<or> starts_with ''https://'' path \<or> starts_with ''ws://'' path
     \<or> starts_with ''wss://'' path \<or> starts_with ''cxxrtl+tcp://'' path"

definition truncate_to_limit :: "file_history \<Rightarrow> file_history" where
  "truncate_to_limit h = h\<lparr>fh_files := take (fh_max_entries h) (fh_files h)\<rparr>"

text \<open>\<open>stored\<close> is what was read from disk.\<close>

definition load_history :: "string list \<Rightarrow> nat \<Rightarrow> file_history" where
  "load_history stored max_entries = truncate_to_limit \<lparr>fh_files = stored, fh_max_entries = max_entries\<rparr>"

definition add_file :: "string \<Rightarrow> file_history \<Rightarrow> file_history" where
  "add_file file h = (if fh_max_entries h = 0 \<or> is_connection_entry file then h
     else truncate_to_limit (h\<lparr>fh_files := file # filter (\<lambda>path. path \<noteq> file) (fh_files h)\<rparr>))"

subsection \<open>Labels\<close>

definition segments :: "string \<Rightarrow> string list" where
  "segments path = filter (\<lambda>s. s \<noteq> []) (split_on (\<lambda>c. c = CHR ''/'' \<or> c = CHR 0x5C) path)"

definition label_for_depth :: "string list \<Rightarrow> nat \<Rightarrow> string" where
  "label_for_depth parts depth = join ''/'' (drop (length parts - depth) parts)"

definition first_label :: "string list \<Rightarrow> string" where
  "first_label parts = (if parts = [] then ''<unknown>'' else last parts)"

text \<open>The smallest depth, from 2 to the longest path of the group, at which the labels of the group differ.\<close>

definition unique_depth :: "string list list \<Rightarrow> nat option" where
  "unique_depth grp = List.find (\<lambda>depth. distinct (map (\<lambda>parts. label_for_depth parts depth) grp))
     [2 ..< fold max (map length grp) 0 + 1]"

definition group_of :: "string list \<Rightarrow> string \<Rightarrow> string list" where
  "group_of paths name = filter (\<lambda>p. segments p \<noteq> [] \<and> last (segments p) = name) paths"

definition disambiguated_label :: "string list \<Rightarrow> string \<Rightarrow> string" where
  "disambiguated_label paths path =
     (let parts = segments path in
      if parts = [] then first_label parts
      else let grp = group_of paths (last parts) in
        if length grp \<le> 1 then first_label parts
        else (case unique_depth (map segments grp) of Some depth \<Rightarrow> label_for_depth parts depth | None \<Rightarrow> path))"

definition disambiguated_labels :: "string list \<Rightarrow> string list" where
  "disambiguated_labels paths = map (disambiguated_label paths) paths"

definition display_labels :: "file_history \<Rightarrow> string list" where
  "display_labels h = disambiguated_labels (fh_files h)"

subsection \<open>The list\<close>

text \<open>After any additions the list has no file twice and is not longer than allowed, and the last file that was added comes first.\<close>

lemma add_file_ok: "distinct (fh_files h) \<Longrightarrow> length (fh_files h) \<le> fh_max_entries h \<Longrightarrow>
    distinct (fh_files (add_file f h)) \<and> length (fh_files (add_file f h)) \<le> fh_max_entries (add_file f h)
    \<and> (0 < fh_max_entries h \<and> \<not> is_connection_entry f \<longrightarrow> hd (fh_files (add_file f h)) = f)"
  by (auto simp: add_file_def truncate_to_limit_def distinct_take Let_def hd_take take_Cons' dest: in_set_takeD)

subsection \<open>Different files have different labels\<close>

definition is_sep :: "char \<Rightarrow> bool" where
  "is_sep c \<longleftrightarrow> c = CHR ''/'' \<or> c = CHR 0x5C"

lemma split_no_sep: "s \<in> set (split_on P t) \<Longrightarrow> \<forall>c \<in> set s. \<not> P c"
  by (induction t arbitrary: s) (fastforce split: list.splits if_splits)+

lemma segments_clean: "s \<in> set (segments p) \<Longrightarrow> s \<noteq> [] \<and> (\<forall>c \<in> set s. \<not> is_sep c)"
  using split_no_sep[of s _ p] by (auto simp: segments_def is_sep_def)

lemma split_once_at: "\<forall>c \<in> set s. \<not> P c \<Longrightarrow> P x \<Longrightarrow> split_on P (s @ x # t) = s # split_on P t"
  by (induction s) auto

lemma split_none: "\<forall>c \<in> set s. \<not> P c \<Longrightarrow> split_on P s = [s]"
  by (induction s) auto

text \<open>The parts of a label are read back from it.\<close>

lemma segments_join:
  assumes "\<forall>s \<in> set parts. s \<noteq> [] \<and> (\<forall>c \<in> set s. \<not> is_sep c)"
  shows "segments (join ''/'' parts) = parts"
proof -
  have "split_on (\<lambda>c. c = CHR ''/'' \<or> c = CHR 0x5C) (join ''/'' parts) = (if parts = [] then [[]] else parts)" using assms
  proof (induction parts rule: induct_list012)
    case (2 w)
    then show ?case by (auto simp: is_sep_def intro!: split_none)
  next
    case (3 w v ws)
    then show ?case by (auto simp: is_sep_def intro!: split_once_at[where x = "CHR ''/''", THEN trans])
  qed simp
  then show ?thesis using assms by (auto simp: segments_def filter_id_conv)
qed

lemma label_segments: "segments (label_for_depth (segments p) depth) = drop (length (segments p) - depth) (segments p)"
  unfolding label_for_depth_def by (rule segments_join) (use segments_clean in \<open>blast dest: in_set_dropD\<close>)

lemma single_segment: "segments p \<noteq> [] \<Longrightarrow> segments (last (segments p)) = [last (segments p)]"
  using segments_join[of "[last (segments p)]"] segments_clean[of "last (segments p)" p] by simp

lemma find_in: "List.find P xs = Some x \<Longrightarrow> x \<in> set xs \<and> P x"
  by (induction xs) (auto split: if_splits)

text \<open>Every label of a path with a name ends in that name.\<close>

lemma label_name: "segments p \<noteq> [] \<Longrightarrow> segments (disambiguated_label paths p) \<noteq> [] \<and> last (segments (disambiguated_label paths p)) = last (segments p)"
proof -
  assume p: "segments p \<noteq> []"
  have "2 \<le> d \<Longrightarrow> drop (length (segments p) - d) (segments p) \<noteq> [] \<and> last (drop (length (segments p) - d) (segments p)) = last (segments p)" for d
  proof -
    assume "2 \<le> d"
    with p have "length (segments p) - d < length (segments p)" by (intro diff_less) auto
    then show ?thesis by (simp add: last_drop)
  qed
  moreover have "unique_depth g = Some d \<Longrightarrow> 2 \<le> d" for g d using find_in[of _ "[2 ..< fold max (map length g) 0 + 1]" d]
    by (force simp: unique_depth_def)
  ultimately have "unique_depth g = Some d \<Longrightarrow> segments (label_for_depth (segments p) d) \<noteq> [] \<and> last (segments (label_for_depth (segments p) d)) = last (segments p)" for g d
    unfolding label_segments by blast
  then show ?thesis using p by (simp add: disambiguated_label_def Let_def first_label_def single_segment split: option.splits)
qed

text \<open>
  No two files have the same label: the labels of different paths differ, for paths that name a file at all.
\<close>

theorem labels_distinct:
  assumes "distinct paths" "\<forall>p \<in> set paths. segments p \<noteq> []"
  shows "distinct (disambiguated_labels paths)"
proof -
  have "p = q" if pq: "p \<in> set paths" "q \<in> set paths" "disambiguated_label paths p = disambiguated_label paths q" for p q
  proof -
    have n: "last (segments p) = last (segments q)" using label_name[of p paths] label_name[of q paths] pq assms(2) by simp
    define g where "g = group_of paths (last (segments p))"
    have g: "p \<in> set g" "q \<in> set g" "distinct g" using pq assms n by (auto simp: g_def group_of_def)
    have e: "disambiguated_label paths r = (if length g \<le> 1 then last (segments r)
        else case unique_depth (map segments g) of Some d \<Rightarrow> label_for_depth (segments r) d | None \<Rightarrow> r)" if "r \<in> {p, q}" for r
      using that n assms(2) pq by (auto simp: disambiguated_label_def g_def Let_def first_label_def)
    show ?thesis
    proof (cases "length g \<le> 1")
      case True
      then show ?thesis using g by (cases g) auto
    next
      case False
      show ?thesis
      proof (cases "unique_depth (map segments g)")
        case None
        then have "disambiguated_label paths p = p" "disambiguated_label paths q = q" using e[of p] e[of q] False by simp_all
        then show ?thesis using pq(3) by metis
      next
        case (Some d)
        then have "distinct (map (\<lambda>parts. label_for_depth parts d) (map segments g))" using find_in unfolding unique_depth_def by fast
        then have "inj_on (\<lambda>r. label_for_depth (segments r) d) (set g)" by (simp add: distinct_map comp_def)
        moreover have "disambiguated_label paths p = label_for_depth (segments p) d" "disambiguated_label paths q = label_for_depth (segments q) d"
          using e[of p] e[of q] False Some by simp_all
        then have "label_for_depth (segments p) d = label_for_depth (segments q) d" using pq(3) by metis
        ultimately show ?thesis using g(1,2) by (rule inj_onD)
      qed
    qed
  qed
  then show ?thesis using assms(1) by (simp add: disambiguated_labels_def distinct_map inj_on_def)
qed

theorem labels_distinct_witness: "distinct (disambiguated_labels [''/a/top.vcd'', ''/b/top.vcd'', ''/c/other.vcd''])"
  by (rule labels_distinct) (simp_all add: segments_def)

end
