(* ===== verification/Viewports.thy ===== *)
theory Viewports
  imports Complex_Main Prelude
begin

section \<open>Viewports (viewport.rs)\<close>

text \<open>
  The part of the time line that a view shows, as fractions of the last time of the file, its moves, the animation of a
  move, and the messages that move the viewports. The \<^verbatim>\<open>f64\<close> of the code are real numbers here: their rounding and
  their infinities are not modelled. So the lemmas on widths speak of exact arithmetic: in the program a view that is very
  narrow or very far out can collapse when its edges are rounded to the same number. Where the code divides by zero and gets
  an infinity or no number (a file whose last time is zero, a zoom by zero at the mouse), the definitions do not describe it;
  the lemmas exclude it. The drawing that a message invalidates is left out.
\<close>

datatype viewport_strategy = InstantMove | EaseInOut real

record viewport =
  vp_curr_left :: real
  vp_curr_right :: real
  vp_target_left :: real
  vp_target_right :: real
  vp_move_start_left :: real
  vp_move_start_right :: real
  vp_move_duration :: "real option"
  vp_move_strategy :: viewport_strategy
  vp_edge_space :: real
  vp_min_width :: real

definition default_viewport :: viewport where
  "default_viewport = \<lparr>vp_curr_left = 0, vp_curr_right = 1, vp_target_left = 0, vp_target_right = 1, vp_move_start_left = 0,
     vp_move_start_right = 1, vp_move_duration = None, vp_move_strategy = InstantMove, vp_edge_space = 1 / 5, vp_min_width = 1 / 2\<rparr>"

text \<open>\<open>Relative\<close> and \<open>Absolute\<close> times of a file whose last time is \<open>m\<close>.\<close>

definition absolute :: "int \<Rightarrow> real \<Rightarrow> real" where
  "absolute m r = r * of_int m"

definition relative :: "int \<Rightarrow> real \<Rightarrow> real" where
  "relative m a = a / of_int m"

definition vp_width :: "viewport \<Rightarrow> real" where
  "vp_width v = vp_curr_right v - vp_curr_left v"

definition width_absolute :: "int \<Rightarrow> viewport \<Rightarrow> real" where
  "width_absolute m v = absolute m (vp_width v)"

definition midpoint :: "viewport \<Rightarrow> real" where
  "midpoint v = (vp_curr_right v + vp_curr_left v) * (1 / 2)"

definition half_width :: "viewport \<Rightarrow> real" where
  "half_width v = vp_width v * (1 / 2)"

definition half_width_absolute :: "int \<Rightarrow> viewport \<Rightarrow> real" where
  "half_width_absolute m v = absolute m (vp_width v * (1 / 2))"

text \<open>\<^verbatim>\<open>as i64\<close> truncates toward zero and saturates; \<^verbatim>\<open>round\<close> of a rational goes away from zero at the half.\<close>

definition as_i64 :: "real \<Rightarrow> int" where
  "as_i64 x = max (- (2 ^ 63)) (min (2 ^ 63 - 1) (if 0 \<le> x then \<lfloor>x\<rfloor> else \<lceil>x\<rceil>))"

definition round_ratio :: "real \<Rightarrow> int" where
  "round_ratio x = (if 0 \<le> x then \<lfloor>x + 1 / 2\<rfloor> else \<lceil>x - 1 / 2\<rceil>)"

definition left_edge_time :: "int \<Rightarrow> viewport \<Rightarrow> int" where
  "left_edge_time m v = as_i64 (absolute m (vp_curr_left v))"

definition right_edge_time :: "int \<Rightarrow> viewport \<Rightarrow> int" where
  "right_edge_time m v = as_i64 (absolute m (vp_curr_right v))"

definition as_absolute_time :: "real \<Rightarrow> real \<Rightarrow> int \<Rightarrow> viewport \<Rightarrow> real" where
  "as_absolute_time x view_width m v = absolute m (vp_curr_left v) + width_absolute m v / view_width * x"

definition as_time_bigint :: "real \<Rightarrow> real \<Rightarrow> int \<Rightarrow> viewport \<Rightarrow> int" where
  "as_time_bigint x view_width m v =
     (let big_left = absolute m (vp_curr_left v); big_right = absolute m (vp_curr_right v)
      in round_ratio (big_left + (big_right - big_left) / view_width * x))"

definition pixel_from_absolute_time :: "real \<Rightarrow> real \<Rightarrow> int \<Rightarrow> viewport \<Rightarrow> real" where
  "pixel_from_absolute_time time view_width m v = (time - absolute m (vp_curr_left v)) / width_absolute m v * view_width"

definition pixel_from_time :: "int \<Rightarrow> real \<Rightarrow> int \<Rightarrow> viewport \<Rightarrow> real" where
  "pixel_from_time time view_width m v = (of_int time - absolute m (vp_curr_left v)) / width_absolute m v * view_width"

subsection \<open>Setting the view\<close>

definition set_target_left :: "real \<Rightarrow> viewport \<Rightarrow> viewport" where
  "set_target_left l v = (case vp_move_strategy v of
     InstantMove \<Rightarrow> v\<lparr>vp_curr_left := l\<rparr>
   | EaseInOut _ \<Rightarrow> v\<lparr>vp_target_left := l, vp_move_start_left := vp_curr_left v, vp_move_duration := Some 0\<rparr>)"

definition set_target_right :: "real \<Rightarrow> viewport \<Rightarrow> viewport" where
  "set_target_right r v = (case vp_move_strategy v of
     InstantMove \<Rightarrow> v\<lparr>vp_curr_right := r\<rparr>
   | EaseInOut _ \<Rightarrow> v\<lparr>vp_target_right := r, vp_move_start_right := vp_curr_right v, vp_move_duration := Some 0\<rparr>)"

definition set_targets :: "real \<Rightarrow> real \<Rightarrow> viewport \<Rightarrow> viewport" where
  "set_targets l r v = set_target_right r (set_target_left l v)"

text \<open>The view that is set for a wanted one: not wider than the file with its margins, not beyond margins in its own width.\<close>

definition clipped_range :: "real \<Rightarrow> real \<Rightarrow> real \<Rightarrow> real \<times> real" where
  "clipped_range edge_space l r =
     (let width = r - l; abs_min = - edge_space; abs_max = 1 + edge_space;
          max_right = 1 + width * edge_space; min_left = - width * edge_space
      in if abs_max - abs_min < width then (abs_min, abs_max)
         else if l < min_left then (min_left, min_left + width)
         else if max_right < r then (max_right - width, max_right)
         else (l, r))"

definition set_viewport_to_clipped_no_width_check :: "real \<Rightarrow> real \<Rightarrow> viewport \<Rightarrow> viewport" where
  "set_viewport_to_clipped_no_width_check l r v = (let (l, r) = clipped_range (vp_edge_space v) l r in set_targets l r v)"

definition f64_epsilon :: real where
  "f64_epsilon = 1 / 2 ^ 52"

definition set_viewport_to_clipped :: "real \<Rightarrow> real \<Rightarrow> int \<Rightarrow> viewport \<Rightarrow> viewport" where
  "set_viewport_to_clipped l r m v =
     (let rel_min_width = relative m (vp_min_width v) in
      if r - l \<le> rel_min_width + f64_epsilon then
        (let center = (l + r) * (1 / 2) in set_viewport_to_clipped_no_width_check (center - rel_min_width) (center + rel_min_width) v)
      else set_viewport_to_clipped_no_width_check l r v)"

definition clip_to :: "int \<Rightarrow> int \<Rightarrow> viewport \<Rightarrow> viewport" where
  "clip_to old_max new_max v =
     (let left_timestamp = absolute old_max (vp_curr_left v); right_timestamp = absolute old_max (vp_curr_right v);
          absolute_width = right_timestamp - left_timestamp;
          new_absolute_width = of_int new_max * (2 * vp_edge_space v);
          (left, right) = (if new_absolute_width < absolute_width then (- vp_edge_space v, 1 + vp_edge_space v)
            else let unmoved_left = left_timestamp / of_int new_max; unmoved_right = (left_timestamp + absolute_width) / of_int new_max in
              if unmoved_right \<le> 1 + vp_edge_space v then (unmoved_left, unmoved_right)
              else let relative_width = absolute_width / of_int new_max in (1 + vp_edge_space v - relative_width, 1 + vp_edge_space v))
      in \<lparr>vp_curr_left = left, vp_curr_right = right, vp_target_left = left, vp_target_right = right, vp_move_start_left = left,
          vp_move_start_right = right, vp_move_duration = None, vp_move_strategy = vp_move_strategy v,
          vp_edge_space = vp_edge_space v, vp_min_width = vp_min_width v\<rparr>)"

subsection \<open>Moves\<close>

definition go_to_time :: "int \<Rightarrow> int \<Rightarrow> viewport \<Rightarrow> viewport" where
  "go_to_time center m v = (let half = half_width_absolute m v in
     set_viewport_to_clipped (relative m (of_int center - half)) (relative m (of_int center + half)) m v)"

definition go_to_time_f64 :: "real \<Rightarrow> int \<Rightarrow> viewport \<Rightarrow> viewport" where
  "go_to_time_f64 center m v = (let half = (absolute m (vp_curr_right v) - absolute m (vp_curr_left v)) * (1 / 2) in
     set_viewport_to_clipped (relative m (center - half)) (relative m (center + half)) m v)"

definition zoom_to_fit :: "viewport \<Rightarrow> viewport" where
  "zoom_to_fit v = set_targets 0 1 v"

definition go_to_start :: "viewport \<Rightarrow> viewport" where
  "go_to_start v = set_targets 0 (vp_width v) v"

text \<open>The width for the left edge is read before anything is set.\<close>

definition go_to_end :: "viewport \<Rightarrow> viewport" where
  "go_to_end v = set_targets (1 - vp_width v) 1 v"

text \<open>The factor \<open>delta\<close> is not zero.\<close>

definition handle_canvas_zoom :: "int option \<Rightarrow> real \<Rightarrow> int \<Rightarrow> viewport \<Rightarrow> viewport" where
  "handle_canvas_zoom mouse_ptr delta m v =
     (let (l, r) = (case mouse_ptr of
          Some t \<Rightarrow> let mouse = relative m (of_int t)
            in ((vp_curr_left v - mouse) / delta + mouse, (vp_curr_right v - mouse) / delta + mouse)
        | None \<Rightarrow> (midpoint v - half_width v * delta, midpoint v + half_width v * delta))
      in set_viewport_to_clipped l r m v)"

definition zoom_to_time :: "int \<Rightarrow> real \<Rightarrow> int \<Rightarrow> viewport \<Rightarrow> viewport" where
  "zoom_to_time center delta m v =
     (let half = (absolute m (vp_curr_right v) - absolute m (vp_curr_left v)) * delta * (1 / 2)
      in set_viewport_to_clipped (relative m (of_int center - half)) (relative m (of_int center + half)) m v)"

definition handle_canvas_scroll :: "real \<Rightarrow> viewport \<Rightarrow> viewport" where
  "handle_canvas_scroll deltay v = (let scaled = - vp_width v / (50 * 20) * deltay
     in set_viewport_to_clipped_no_width_check (vp_curr_left v + scaled) (vp_curr_right v + scaled) v)"

definition zoom_to_range :: "int \<Rightarrow> int \<Rightarrow> int \<Rightarrow> viewport \<Rightarrow> viewport" where
  "zoom_to_range l r m v = set_viewport_to_clipped (relative m (of_int l)) (relative m (of_int r)) m v"

definition go_to_cursor_if_not_in_view :: "int \<Rightarrow> int \<Rightarrow> viewport \<Rightarrow> viewport \<times> bool" where
  "go_to_cursor_if_not_in_view cursor m v =
     (if of_int cursor \<le> absolute m (vp_curr_left v) \<or> absolute m (vp_curr_right v) \<le> of_int cursor
      then (go_to_time_f64 (of_int cursor) m v, True) else (v, False))"

subsection \<open>The animation\<close>

definition ease_in_out_size :: "real \<Rightarrow> real \<Rightarrow> real \<Rightarrow> real" where
  "ease_in_out_size a b t = a + (b - a) * - (cos (pi * t) - 1) * (1 / 2)"

definition arrive :: "viewport \<Rightarrow> viewport" where
  "arrive v = v\<lparr>vp_curr_left := vp_target_left v, vp_curr_right := vp_target_right v, vp_move_duration := None\<rparr>"

definition move_viewport :: "real \<Rightarrow> viewport \<Rightarrow> viewport" where
  "move_viewport frame_time v = (case vp_move_strategy v of
     InstantMove \<Rightarrow> arrive v
   | EaseInOut duration \<Rightarrow> (case vp_move_duration v of
       None \<Rightarrow> v
     | Some d \<Rightarrow> if duration \<le> d + frame_time then arrive v
         else let d = d + frame_time in v\<lparr>vp_move_duration := Some d,
           vp_curr_left := ease_in_out_size (vp_move_start_left v) (vp_target_left v) (d / duration),
           vp_curr_right := ease_in_out_size (vp_move_start_right v) (vp_target_right v) (d / duration)\<rparr>))"

definition is_moving :: "viewport \<Rightarrow> bool" where
  "is_moving v \<longleftrightarrow> vp_move_duration v \<noteq> None"

text \<open>One frame of the interface: every viewport that moves is moved on.\<close>

definition frame :: "real \<Rightarrow> viewport list \<Rightarrow> viewport list" where
  "frame dt vs = map (\<lambda>v. if is_moving v then move_viewport dt v else v) vs"

subsection \<open>Messages\<close>

record view_state =
  vs_viewports :: "viewport list"
  vs_last_active :: nat
  vs_max_timestamp :: "int option"
  vs_cursor :: "int option"
  vs_markers :: "nat \<Rightarrow> int option"

datatype view_message =
  CanvasScroll real real nat
| CanvasZoom "int option" real nat
| ZoomToCursor real nat
| ZoomToFit nat
| GoToEnd nat
| GoToStart nat
| GoToTime "int option" nat
| ZoomToRange int int nat
| GoToCursorIfNotInView
| GoToMarkerPosition nat nat
| SetViewportStrategy viewport_strategy
| AddViewport
| RemoveViewport
| SetActiveViewport nat

text \<open>The last time before a reload and after it, 1 when the file has none; without an old one nothing is moved.\<close>

definition update_viewports :: "int option \<Rightarrow> int option \<Rightarrow> viewport list \<Rightarrow> viewport list" where
  "update_viewports old_max new_max vs = (case old_max of None \<Rightarrow> vs | Some old \<Rightarrow>
     let new = (case new_max of Some m \<Rightarrow> m | None \<Rightarrow> 1) in if new \<noteq> old then map (clip_to old new) vs else vs)"

definition on_viewport :: "nat \<Rightarrow> (viewport \<Rightarrow> viewport) \<Rightarrow> view_state \<Rightarrow> ('e, view_state) outcome" where
  "on_viewport i f s = (case get (vs_viewports s) i of None \<Rightarrow> Panic
     | Some v \<Rightarrow> Ok (s\<lparr>vs_viewports := (vs_viewports s)[i := f v]\<rparr>))"

definition with_max :: "(int \<Rightarrow> view_state \<Rightarrow> ('e, view_state) outcome) \<Rightarrow> view_state \<Rightarrow> ('e, view_state) outcome" where
  "with_max f s = (case vs_max_timestamp s of Some m \<Rightarrow> f m s | None \<Rightarrow> Ok s)"

text \<open>The last time of the file, 1 when there is none.\<close>

definition safe_max_timestamp :: "view_state \<Rightarrow> int" where
  "safe_max_timestamp s = (case vs_max_timestamp s of Some m \<Rightarrow> m | None \<Rightarrow> 1)"

fun update_view :: "view_message \<Rightarrow> view_state \<Rightarrow> ('e, view_state) outcome" where
  "update_view (CanvasScroll dx dy i) s = on_viewport i (handle_canvas_scroll (dy + dx)) s"
| "update_view (CanvasZoom mouse_ptr delta i) s = with_max (\<lambda>m. on_viewport i (handle_canvas_zoom mouse_ptr delta m)) s"
| "update_view (ZoomToCursor delta i) s = with_max (\<lambda>m s. case vs_cursor s of None \<Rightarrow> Ok s
     | Some c \<Rightarrow> on_viewport i (zoom_to_time c delta m) s) s"
| "update_view (ZoomToFit i) s = on_viewport i zoom_to_fit s"
| "update_view (GoToEnd i) s = on_viewport i go_to_end s"
| "update_view (GoToStart i) s = on_viewport i go_to_start s"
| "update_view (GoToTime time i) s = with_max (\<lambda>m s. case time of None \<Rightarrow> Ok s | Some t \<Rightarrow> on_viewport i (go_to_time t m) s) s"
| "update_view (ZoomToRange l r i) s = with_max (\<lambda>m. on_viewport i (zoom_to_range l r m)) s"
| "update_view GoToCursorIfNotInView s = (case vs_cursor s of None \<Rightarrow> Ok s
     | Some c \<Rightarrow> on_viewport 0 (\<lambda>v. fst (go_to_cursor_if_not_in_view c (safe_max_timestamp s) v)) s)"
| "update_view (GoToMarkerPosition k i) s = with_max (\<lambda>m s. case vs_markers s k of None \<Rightarrow> Ok s
     | Some t \<Rightarrow> on_viewport i (go_to_time t m) s) s"
| "update_view (SetViewportStrategy st) s = Ok (s\<lparr>vs_viewports := map (\<lambda>v. v\<lparr>vp_move_strategy := st\<rparr>) (vs_viewports s)\<rparr>)"
| "update_view AddViewport s = Ok (s\<lparr>vs_viewports := vs_viewports s @ [default_viewport]\<rparr>)"
| "update_view RemoveViewport s = Ok (if 1 < length (vs_viewports s)
     then s\<lparr>vs_viewports := butlast (vs_viewports s), vs_last_active := min (vs_last_active s) (length (vs_viewports s) - 2)\<rparr> else s)"
| "update_view (SetActiveViewport i) s = Ok (if vs_viewports s = [] then s else s\<lparr>vs_last_active := min i (length (vs_viewports s) - 1)\<rparr>)"

subsection \<open>A view is never turned around\<close>

definition range_ok :: "real \<Rightarrow> real \<Rightarrow> bool" where
  "range_ok l r \<longleftrightarrow> 0 < r - l \<and> r - l \<le> 7 / 5"

definition view_ok :: "viewport \<Rightarrow> bool" where
  "view_ok v \<longleftrightarrow> vp_edge_space v = 1 / 5 \<and> vp_min_width v = 1 / 2 \<and> range_ok (vp_curr_left v) (vp_curr_right v)
     \<and> range_ok (vp_target_left v) (vp_target_right v) \<and> range_ok (vp_move_start_left v) (vp_move_start_right v)
     \<and> (\<forall>d. vp_move_duration v = Some d \<longrightarrow> 0 \<le> d)"

lemma default_ok: "view_ok default_viewport"
  by (simp add: view_ok_def default_viewport_def range_ok_def)

lemma set_targets_ok: "view_ok v \<Longrightarrow> range_ok l r \<Longrightarrow> view_ok (set_targets l r v)"
  by (cases "vp_move_strategy v") (simp_all add: view_ok_def set_targets_def set_target_left_def set_target_right_def)

lemma clipped_ok: "0 < r - l \<Longrightarrow> clipped_range (1 / 5) l r = (l', r') \<Longrightarrow> range_ok l' r'"
  by (auto simp: clipped_range_def range_ok_def Let_def split: if_splits)

lemma no_width_check_ok: "view_ok v \<Longrightarrow> 0 < r - l \<Longrightarrow> view_ok (set_viewport_to_clipped_no_width_check l r v)"
proof -
  assume v: "view_ok v" "0 < r - l"
  then have e: "vp_edge_space v = 1 / 5" by (simp add: view_ok_def)
  obtain l' r' where c: "clipped_range (1 / 5) l r = (l', r')" by fastforce
  show ?thesis unfolding set_viewport_to_clipped_no_width_check_def e c using set_targets_ok[OF v(1) clipped_ok[OF v(2) c]] by simp
qed

lemma set_clipped_ok: "view_ok v \<Longrightarrow> 0 < m \<Longrightarrow> view_ok (set_viewport_to_clipped l r m v)"
proof -
  assume v: "view_ok v" "0 < m"
  then have p: "0 < relative m (vp_min_width v)" by (simp add: view_ok_def relative_def)
  then show ?thesis using v(1) by (auto simp: set_viewport_to_clipped_def Let_def f64_epsilon_def intro!: no_width_check_ok)
qed

lemmas move_defs = go_to_time_def go_to_time_f64_def zoom_to_time_def zoom_to_range_def handle_canvas_zoom_def Let_def

lemma moves_ok:
  assumes "view_ok v" "0 < m"
  shows "view_ok (go_to_time t m v)" "view_ok (go_to_time_f64 x m v)" "view_ok (zoom_to_time t x m v)" "view_ok (zoom_to_range t t' m v)"
    "view_ok (handle_canvas_zoom p x m v)" "view_ok (fst (go_to_cursor_if_not_in_view t m v))"
  using set_clipped_ok[OF assms] assms(1) by (auto simp: move_defs go_to_cursor_if_not_in_view_def split: option.splits prod.splits)

lemma simple_moves_ok:
  assumes "view_ok v"
  shows "view_ok (zoom_to_fit v)" "view_ok (go_to_start v)" "view_ok (go_to_end v)" "view_ok (handle_canvas_scroll x v)"
proof -
  have r: "range_ok 0 1" "range_ok 0 (vp_width v)" "range_ok (1 - vp_width v) 1" using assms by (simp_all add: range_ok_def vp_width_def view_ok_def)
  show "view_ok (zoom_to_fit v)" "view_ok (go_to_start v)" "view_ok (go_to_end v)"
    using r set_targets_ok[OF assms] by (simp_all add: zoom_to_fit_def go_to_start_def go_to_end_def)
  show "view_ok (handle_canvas_scroll x v)"
    unfolding handle_canvas_scroll_def Let_def by (rule no_width_check_ok[OF assms]) (use assms in \<open>simp add: view_ok_def range_ok_def\<close>)
qed

lemma clip_to_fields: "vp_target_left (clip_to old new v) = vp_curr_left (clip_to old new v)"
  "vp_target_right (clip_to old new v) = vp_curr_right (clip_to old new v)" "vp_move_start_left (clip_to old new v) = vp_curr_left (clip_to old new v)"
  "vp_move_start_right (clip_to old new v) = vp_curr_right (clip_to old new v)" "vp_move_duration (clip_to old new v) = None"
  "vp_edge_space (clip_to old new v) = vp_edge_space v" "vp_min_width (clip_to old new v) = vp_min_width v"
  by (simp_all add: clip_to_def Let_def case_prod_unfold)

lemma clip_to_ok:
  assumes "view_ok v" "0 < old" "0 < new"
  shows "view_ok (clip_to old new v)"
proof -
  have e: "vp_edge_space v = 1 / 5" "vp_min_width v = 1 / 2" "0 < vp_curr_right v - vp_curr_left v" using assms(1) by (simp_all add: view_ok_def range_ok_def)
  define w where "w = absolute old (vp_curr_right v) - absolute old (vp_curr_left v)"
  have w: "0 < w" using e(3) assms(2) by (simp add: absolute_def w_def)
  have "range_ok (vp_curr_left (clip_to old new v)) (vp_curr_right (clip_to old new v))"
  proof (cases "of_int new * (2 / 5) < w")
    case True
    then show ?thesis by (simp add: clip_to_def e(1) Let_def range_ok_def w_def)
  next
    case False
    have q: "0 < w / of_int new" "w / of_int new \<le> 2 / 5" using False w assms(3) by (simp_all add: field_simps)
    have n: "\<not> of_int new * (2 * vp_edge_space v) < w" using False by (simp add: e(1))
    show ?thesis unfolding clip_to_def Let_def w_def[symmetric] if_not_P[OF n] using q
      by (simp add: range_ok_def add_divide_distrib split: if_splits)
  qed
  then show ?thesis using e by (simp add: view_ok_def clip_to_fields)
qed

text \<open>A point of the animation lies between start and target, by the same share on both sides.\<close>

lemma ease_share: "ease_in_out_size a b t = a + (b - a) * ((1 - cos (pi * t)) / 2)" "0 \<le> (1 - cos (pi * t)) / 2" "(1 - cos (pi * t)) / 2 \<le> 1"
proof -
  show "ease_in_out_size a b t = a + (b - a) * ((1 - cos (pi * t)) / 2)" by (simp add: ease_in_out_size_def field_simps)
  show "0 \<le> (1 - cos (pi * t)) / 2" by simp
  show "(1 - cos (pi * t)) / 2 \<le> 1" using cos_ge_minus_one[of "pi * t"] by simp
qed

lemma ease_ok:
  assumes "range_ok a b" "range_ok a' b'"
  shows "range_ok (ease_in_out_size a a' t) (ease_in_out_size b b' t)"
proof -
  define k where "k = (1 - cos (pi * t)) / 2"
  have k: "0 \<le> k" "k \<le> 1" using ease_share(2,3) by (simp_all add: k_def)
  have w: "ease_in_out_size b b' t - ease_in_out_size a a' t = (1 - k) * (b - a) + k * (b' - a')"
    unfolding ease_share(1) k_def[symmetric] by (simp add: algebra_simps)
  have "0 < (1 - k) * (b - a) + k * (b' - a')"
  proof (cases "k = 0")
    case False
    then have "0 < k * (b' - a')" "0 \<le> (1 - k) * (b - a)" using k assms by (simp_all add: range_ok_def)
    then show ?thesis by simp
  qed (use assms in \<open>simp add: range_ok_def\<close>)
  moreover have "(1 - k) * (b - a) + k * (b' - a') \<le> 7 / 5"
    using assms k convex_bound_le[of "b - a" "7 / 5" "b' - a'" "1 - k" k] by (simp add: range_ok_def)
  ultimately show ?thesis by (simp add: range_ok_def w)
qed

lemma move_ok: "view_ok v \<Longrightarrow> 0 \<le> dt \<Longrightarrow> view_ok (move_viewport dt v)"
  by (auto simp: move_viewport_def arrive_def view_ok_def Let_def ease_ok split: viewport_strategy.splits option.splits)

text \<open>
  Everything that happens to the viewports: messages, frames, and a reload, which gives the file another last time. The
  cursor and the markers may change at any time.
\<close>

inductive view_reachable :: "view_state \<Rightarrow> bool" where
  start: "vs_viewports s = [default_viewport] \<Longrightarrow> \<forall>m. vs_max_timestamp s = Some m \<longrightarrow> 0 < m \<Longrightarrow> view_reachable s"
| message: "view_reachable s \<Longrightarrow> (\<And>p i. msg \<noteq> CanvasZoom p 0 i) \<Longrightarrow> update_view msg s = (Ok s' :: (unit, view_state) outcome) \<Longrightarrow> view_reachable s'"
| frame: "view_reachable s \<Longrightarrow> 0 \<le> dt \<Longrightarrow> view_reachable (s\<lparr>vs_viewports := frame dt (vs_viewports s)\<rparr>)"
| reload: "view_reachable s \<Longrightarrow> \<forall>m. old = Some m \<or> new = Some m \<longrightarrow> 0 < m \<Longrightarrow>
    view_reachable (s\<lparr>vs_viewports := update_viewports old new (vs_viewports s), vs_max_timestamp := new\<rparr>)"
| other: "view_reachable s \<Longrightarrow> view_reachable (s\<lparr>vs_cursor := c, vs_markers := ms\<rparr>)"

definition views_ok :: "view_state \<Rightarrow> bool" where
  "views_ok s \<longleftrightarrow> vs_viewports s \<noteq> [] \<and> (\<forall>v \<in> set (vs_viewports s). view_ok v) \<and> (\<forall>m. vs_max_timestamp s = Some m \<longrightarrow> 0 < m)"

lemma on_viewport_ok: "on_viewport i f s = Ok s' \<Longrightarrow> views_ok s \<Longrightarrow> (\<And>v. view_ok v \<Longrightarrow> view_ok (f v)) \<Longrightarrow> views_ok s'"
  by (auto simp: on_viewport_def views_ok_def split: option.splits dest!: set_update_subset_insert[THEN subsetD])

lemma with_max_ok: "with_max f s = Ok s' \<Longrightarrow> views_ok s \<Longrightarrow> (\<And>m. 0 < m \<Longrightarrow> f m s = Ok s' \<Longrightarrow> views_ok s') \<Longrightarrow> views_ok s'"
  by (auto simp: with_max_def views_ok_def split: option.splits)

lemma update_view_ok: "views_ok s \<Longrightarrow> update_view msg s = Ok s' \<Longrightarrow> views_ok s'"
proof (induction msg s rule: update_view.induct)
  case (9 s)
  then have "0 < safe_max_timestamp s" by (auto simp: safe_max_timestamp_def views_ok_def split: option.splits)
  then show ?case using 9 by (auto split: option.splits intro: moves_ok elim!: on_viewport_ok)
next
  case (11 st s)
  then show ?case by (auto simp: views_ok_def view_ok_def)
next
  case (12 s)
  then show ?case by (auto simp: views_ok_def default_ok)
next
  case (14 i s)
  then show ?case by (auto simp: views_ok_def split: if_splits)
next
  case (13 s)
  then show ?case by (cases "vs_viewports s" rule: rev_cases) (auto simp: views_ok_def split: if_splits)
qed (auto simp: views_ok_def[of "_\<lparr>vs_last_active := _\<rparr>"] default_ok views_ok_def[of "_\<lparr>vs_viewports := _\<rparr>"] split: option.splits if_splits
    intro: moves_ok simple_moves_ok elim!: on_viewport_ok with_max_ok)

text \<open>
  In exact arithmetic, whatever messages, frames and reloads come, in any order, there is a viewport, and every viewport
  has its left edge before its right one and is at most as wide as the file with its two margins, also in the middle of an
  animation. The \<^verbatim>\<open>f64\<close> of the program keep this only up to rounding.
\<close>

theorem views_never_turn: "view_reachable s \<Longrightarrow> vs_viewports s \<noteq> [] \<and> (\<forall>v \<in> set (vs_viewports s). vp_curr_left v < vp_curr_right v
    \<and> vp_curr_right v - vp_curr_left v \<le> 1 + 2 * vp_edge_space v)"
proof -
  assume "view_reachable s"
  then have "views_ok s"
  proof (induction rule: view_reachable.induct)
    case (reload s old new)
    then show ?case by (auto simp: views_ok_def update_viewports_def Let_def clip_to_ok split: option.splits)
  next
    case (message s msg s')
    then show ?case using update_view_ok by blast
  qed (auto simp: views_ok_def default_ok frame_def move_ok)
  then show ?thesis by (auto simp: views_ok_def view_ok_def range_ok_def)
qed

definition sample_view :: view_state where
  "sample_view = \<lparr>vs_viewports = [default_viewport], vs_last_active = 0, vs_max_timestamp = Some 1000, vs_cursor = Some 40, vs_markers = \<lambda>_. None\<rparr>"

theorem views_never_turn_witness: "vp_curr_left default_viewport < vp_curr_right default_viewport
    \<and> vp_curr_right default_viewport - vp_curr_left default_viewport \<le> 1 + 2 * vp_edge_space default_viewport"
proof -
  have "view_reachable sample_view" by (rule view_reachable.start) (simp_all add: sample_view_def)
  from views_never_turn[OF this] show ?thesis by (simp add: sample_view_def)
qed

subsection \<open>An animation arrives\<close>

definition run_frames :: "real list \<Rightarrow> viewport \<Rightarrow> viewport" where
  "run_frames dts v = fold (\<lambda>dt v. if is_moving v then move_viewport dt v else v) dts v"

lemma run_frames_simps: "run_frames [] v = v" "run_frames (dt # dts) v = run_frames dts (if is_moving v then move_viewport dt v else v)"
  by (simp_all add: run_frames_def)

lemma run_still: "\<not> is_moving v \<Longrightarrow> run_frames dts v = v"
  by (induction dts) (simp_all add: run_frames_simps)

lemma move_targets: "vp_target_left (move_viewport dt v) = vp_target_left v" "vp_target_right (move_viewport dt v) = vp_target_right v"
  "vp_move_strategy (move_viewport dt v) = vp_move_strategy v"
  by (simp_all add: move_viewport_def arrive_def Let_def split: viewport_strategy.splits option.splits)

lemma arrives:
  assumes "vp_move_strategy v = EaseInOut duration" "vp_move_duration v = Some d" "duration \<le> d + sum_list dts" "dts \<noteq> []"
  shows "\<not> is_moving (run_frames dts v) \<and> vp_curr_left (run_frames dts v) = vp_target_left v \<and> vp_curr_right (run_frames dts v) = vp_target_right v"
  using assms
proof (induction dts arbitrary: v d)
  case (Cons dt dts)
  have m: "is_moving v" using Cons.prems(2) by (simp add: is_moving_def)
  show ?case
  proof (cases "duration \<le> d + dt")
    case True
    then have "move_viewport dt v = arrive v" using Cons.prems by (simp add: move_viewport_def)
    then show ?thesis using m run_still[of "arrive v" dts] by (simp add: run_frames_simps) (simp add: arrive_def is_moving_def)
  next
    case False
    then have "vp_move_duration (move_viewport dt v) = Some (d + dt)" using Cons.prems by (simp add: move_viewport_def Let_def)
    moreover have "dts \<noteq> []" using False Cons.prems(3) by auto
    ultimately show ?thesis using Cons.IH[of "move_viewport dt v" "d + dt"] Cons.prems m
      by (simp add: run_frames_simps move_targets)
  qed
qed simp

text \<open>
  C23. An animation arrives. With an easing strategy, a view that is set is reached exactly, and the viewport is at rest, after any
  frames that together last as long as the easing; with the instant strategy it is reached at once.
\<close>

theorem view_arrives:
  assumes "case vp_move_strategy v of InstantMove \<Rightarrow> vp_move_duration v = None | EaseInOut duration \<Rightarrow> duration \<le> sum_list dts \<and> dts \<noteq> []"
  shows "\<not> is_moving (run_frames dts (set_targets l r v)) \<and> vp_curr_left (run_frames dts (set_targets l r v)) = l
    \<and> vp_curr_right (run_frames dts (set_targets l r v)) = r"
proof (cases "vp_move_strategy v")
  case InstantMove
  then have "\<not> is_moving (set_targets l r v)" "vp_curr_left (set_targets l r v) = l" "vp_curr_right (set_targets l r v) = r"
    using assms by (simp_all add: set_targets_def set_target_left_def set_target_right_def is_moving_def)
  then show ?thesis using run_still by simp
next
  case (EaseInOut duration)
  have "vp_move_strategy (set_targets l r v) = EaseInOut duration" "vp_move_duration (set_targets l r v) = Some 0"
    "vp_target_left (set_targets l r v) = l" "vp_target_right (set_targets l r v) = r"
    by (simp_all add: EaseInOut set_targets_def set_target_left_def set_target_right_def)
  then show ?thesis using arrives[of "set_targets l r v" duration 0 dts] assms EaseInOut by simp
qed

theorem view_arrives_witness:
  "\<not> is_moving (run_frames [1 / 4, 1 / 2] (set_targets 2 3 (default_viewport\<lparr>vp_move_strategy := EaseInOut (1 / 2)\<rparr>)))
    \<and> vp_curr_left (run_frames [1 / 4, 1 / 2] (set_targets 2 3 (default_viewport\<lparr>vp_move_strategy := EaseInOut (1 / 2)\<rparr>))) = 2
    \<and> vp_curr_right (run_frames [1 / 4, 1 / 2] (set_targets 2 3 (default_viewport\<lparr>vp_move_strategy := EaseInOut (1 / 2)\<rparr>))) = 3"
  by (rule view_arrives) (simp add: default_viewport_def)

text \<open>
  A move that is set while an older animation is under way, after the strategy was changed to the instant one, is lost: the
  next frame goes to the old target.
\<close>

theorem instant_move_lost:
  assumes "vp_move_duration v = Some d"
  shows "run_frames [dt] (set_targets l r (v\<lparr>vp_move_strategy := InstantMove\<rparr>)) =
    v\<lparr>vp_move_strategy := InstantMove, vp_curr_left := vp_target_left v, vp_curr_right := vp_target_right v, vp_move_duration := None\<rparr>"
  using assms by (simp add: run_frames_simps set_targets_def set_target_left_def set_target_right_def is_moving_def move_viewport_def arrive_def)

subsection \<open>Zoom and reload\<close>

text \<open>A zoom around a time keeps that time at its pixel, unless the new view has to be clipped or is too narrow.\<close>

theorem zoom_keeps_time:
  assumes "vp_move_strategy v = InstantMove" "0 < m" "0 < delta" "vp_curr_left v < vp_curr_right v"
    and "l = (vp_curr_left v - relative m (of_int t)) / delta + relative m (of_int t)" "r = (vp_curr_right v - relative m (of_int t)) / delta + relative m (of_int t)"
    and "clipped_range (vp_edge_space v) l r = (l, r)" "relative m (vp_min_width v) + f64_epsilon < r - l"
  shows "pixel_from_time t w m (handle_canvas_zoom (Some t) delta m v) = pixel_from_time t w m v"
proof -
  let ?x = "relative m (of_int t)"
  have z: "handle_canvas_zoom (Some t) delta m v = v\<lparr>vp_curr_left := l, vp_curr_right := r\<rparr>"
    using assms(1,7,8) by (simp add: handle_canvas_zoom_def Let_def assms(5,6)[symmetric] set_viewport_to_clipped_def
        set_viewport_to_clipped_no_width_check_def set_targets_def set_target_left_def set_target_right_def)
  have t: "of_int t - y * of_int m = (?x - y) * of_int m" for y using assms(2) by (simp add: relative_def left_diff_distrib)
  have w: "r - l = (vp_curr_right v - vp_curr_left v) / delta" "?x - l = (?x - vp_curr_left v) / delta" by (simp_all add: assms(5,6) diff_divide_distrib)
  have p: "pixel_from_time t w m u = (?x - vp_curr_left u) / vp_width u * w" for u
    using assms(2) by (simp add: pixel_from_time_def width_absolute_def absolute_def t)
  have "(?x - l) / (r - l) = (?x - vp_curr_left v) / (vp_curr_right v - vp_curr_left v)" unfolding w using assms(3) by simp
  moreover have "vp_curr_left (v\<lparr>vp_curr_left := l, vp_curr_right := r\<rparr>) = l" "vp_curr_right (v\<lparr>vp_curr_left := l, vp_curr_right := r\<rparr>) = r" by simp_all
  ultimately show ?thesis unfolding p z vp_width_def by (simp only:)
qed

text \<open>
  The three cases of a reload, in fractions of the new file: a view wider than two margins (two fifths) becomes the view of the
  whole file, one that would end beyond the margin is moved to the left, any other keeps its place and zoom.
\<close>

theorem reload_view:
  assumes "view_ok v" "0 < old" "0 < new"
  defines "l \<equiv> vp_curr_left v * of_int old / of_int new" and "r \<equiv> vp_curr_right v * of_int old / of_int new"
  shows "(vp_curr_left (clip_to old new v), vp_curr_right (clip_to old new v)) =
    (if 2 * vp_edge_space v < r - l then (- vp_edge_space v, 1 + vp_edge_space v)
     else if r \<le> 1 + vp_edge_space v then (l, r) else (1 + vp_edge_space v - (r - l), 1 + vp_edge_space v))"
proof -
  define w where "w = absolute old (vp_curr_right v) - absolute old (vp_curr_left v)"
  have lr: "absolute old (vp_curr_left v) / of_int new = l" "w / of_int new = r - l" "(absolute old (vp_curr_left v) + w) / of_int new = r"
    by (simp_all add: w_def l_def r_def absolute_def diff_divide_distrib)
  have c: "of_int new * (2 * vp_edge_space v) < w \<longleftrightarrow> 2 * vp_edge_space v < r - l"
    using assms(3) unfolding lr(2)[symmetric] by (simp add: pos_less_divide_eq mult.commute)
  show ?thesis unfolding clip_to_def Let_def w_def[symmetric] c lr by simp
qed

theorem reload_view_witness:
  "(vp_curr_left (clip_to 1000 1001 default_viewport), vp_curr_right (clip_to 1000 1001 default_viewport)) =
    (if 2 * vp_edge_space default_viewport < vp_curr_right default_viewport * of_int 1000 / of_int 1001 - vp_curr_left default_viewport * of_int 1000 / of_int 1001
     then (- vp_edge_space default_viewport, 1 + vp_edge_space default_viewport)
     else if vp_curr_right default_viewport * of_int 1000 / of_int 1001 \<le> 1 + vp_edge_space default_viewport
     then (vp_curr_left default_viewport * of_int 1000 / of_int 1001, vp_curr_right default_viewport * of_int 1000 / of_int 1001)
     else (1 + vp_edge_space default_viewport - (vp_curr_right default_viewport * of_int 1000 / of_int 1001 - vp_curr_left default_viewport * of_int 1000 / of_int 1001),
       1 + vp_edge_space default_viewport))"
  by (rule reload_view[OF default_ok]) simp_all

end
