(* ===== verification/Transactions.thy ===== *)
theory Transactions
  imports Messages Canvas_Inv
begin

section \<open>Transactions (transactions.rs, wave_data.rs)\<close>

text \<open>
  The rows a stream of transactions needs, the messages that add streams and generators of a transaction file to the
  canvas, and the move of the focus to the next or previous transaction. The file itself is read by another package:
  its functions are the fields of \<open>ftr_api\<close>, over a type of files, with \<open>numeric_sort\<close>'s order of names. Transactions
  have natural numbers as ids and times. The detail panel and the drawing are left out.
\<close>

record transaction =
  tx_id :: nat
  tx_start :: nat
  tx_end :: nat

record tx_generator =
  tg_id :: nat
  tg_stream_id :: nat
  tg_name :: string
  tg_transactions :: "transaction list"

record tx_stream =
  st_id :: nat
  st_name :: string
  st_generators :: "nat list"
  st_transactions_loaded :: bool

record 'f ftr_api =
  api_streams :: "'f \<Rightarrow> tx_stream list"
  api_generators :: "'f \<Rightarrow> tx_generator list"
  api_get_stream :: "'f \<Rightarrow> nat \<Rightarrow> tx_stream option"
  api_get_generator :: "'f \<Rightarrow> nat \<Rightarrow> tx_generator option"
  api_stream_from_name :: "'f \<Rightarrow> string \<Rightarrow> tx_stream option"
  api_generator_from_name :: "'f \<Rightarrow> nat option \<Rightarrow> string \<Rightarrow> tx_generator option"
  api_load_stream :: "'f \<Rightarrow> nat \<Rightarrow> 'f option"
  api_name_le :: "string \<Rightarrow> string \<Rightarrow> bool"

datatype stream_scope_ref = RootScope | StreamScope transaction_stream_ref | EmptyScope string

definition new_stream :: "nat \<Rightarrow> string \<Rightarrow> transaction_stream_ref" where
  "new_stream stream_id name = \<lparr>ts_stream_id = stream_id, ts_gen_id = None, ts_name = name\<rparr>"

definition new_gen :: "nat \<Rightarrow> nat \<Rightarrow> string \<Rightarrow> transaction_stream_ref" where
  "new_gen stream_id gen_id name = \<lparr>ts_stream_id = stream_id, ts_gen_id = Some gen_id, ts_name = name\<rparr>"

subsection \<open>Rows\<close>

text \<open>
  The search for the row of a transaction that starts at \<open>start\<close>: the first row whose last transaction has ended, or a new
  one. It is a loop that could run forever, so its value is optional.
\<close>

partial_function (option) find_row :: "nat \<Rightarrow> (nat \<times> nat) list \<Rightarrow> nat \<Rightarrow> (move_error, (nat \<times> nat) list \<times> nat) outcome option" where
  "find_row start rows curr_row = (case get rows curr_row of
     None \<Rightarrow> Some Panic
   | Some (_, last_end) \<Rightarrow>
       if start < last_end
       then find_row start (if length rows \<le> curr_row + 1 then rows @ [(0, 0)] else rows) (curr_row + 1)
       else Some (Ok (rows, curr_row)))"

fun calculate_rows_of_stream :: "transaction list \<Rightarrow> (nat \<times> nat) list \<Rightarrow> (move_error, (nat \<times> nat) list) outcome option" where
  "calculate_rows_of_stream [] rows = Some (Ok rows)"
| "calculate_rows_of_stream (tx # txs) rows = (case find_row (tx_start tx) rows 0 of
     None \<Rightarrow> None
   | Some (Ok (rows, curr_row)) \<Rightarrow> calculate_rows_of_stream txs (rows[curr_row := (tx_start tx, tx_end tx)])
   | Some (Err e) \<Rightarrow> Some (Err e)
   | Some Panic \<Rightarrow> Some Panic)"

subsection \<open>Adding streams and generators\<close>

definition stream_item :: "transaction_stream_ref \<Rightarrow> nat \<Rightarrow> ('v, 's) displayed_item" where
  "stream_item r n = ItemStream \<lparr>ds_ref = r, ds_color = None, ds_background = None, ds_display_name = ts_name r,
     ds_manual_name = None, ds_rows = n\<rparr>"

text \<open>The row is added for the number of rows the transactions need; a loop that does not end adds nothing.\<close>

definition add_stream_item :: "transaction_stream_ref \<Rightarrow> (move_error, (nat \<times> nat) list) outcome option \<Rightarrow> ('v, 's, 't) wave_data
    \<Rightarrow> (move_error, ('v, 's, 't) wave_data) outcome option" where
  "add_stream_item r rows w = map_option (\<lambda>res. and_then res (\<lambda>rows.
     and_then (insert_displayed (stream_item r (length rows)) None True w) (\<lambda>(_, w'). Ok w'))) rows"

definition add_generator :: "'f ftr_api \<Rightarrow> transaction_stream_ref \<Rightarrow> 'f \<times> ('v, 's, 't) wave_data
    \<Rightarrow> (move_error, 'f \<times> ('v, 's, 't) wave_data) outcome option" where
  "add_generator api r = (\<lambda>(f, w). case ts_gen_id r of None \<Rightarrow> Some (Ok (f, w)) | Some gen_id \<Rightarrow>
     (case api_get_generator api f gen_id of None \<Rightarrow> Some (Ok (f, w)) | Some g \<Rightarrow>
     (case (if tg_transactions g = [] then api_load_stream api f (ts_stream_id r) else Some f) of None \<Rightarrow> Some (Ok (f, w)) | Some f \<Rightarrow>
     (case api_get_generator api f gen_id of None \<Rightarrow> Some (Ok (f, w)) | Some g \<Rightarrow>
        map_option (\<lambda>res. and_then res (\<lambda>w'. Ok (f, w'))) (add_stream_item r (calculate_rows_of_stream (tg_transactions g) [(0, 0)]) w)))))"

text \<open>The rows of all generators of a stream, one after the other; a generator that is missing panics.\<close>

fun rows_of_generators :: "'f ftr_api \<Rightarrow> 'f \<Rightarrow> nat list \<Rightarrow> (nat \<times> nat) list \<Rightarrow> (move_error, (nat \<times> nat) list) outcome option" where
  "rows_of_generators api f [] rows = Some (Ok rows)"
| "rows_of_generators api f (g # gs) rows = (case api_get_generator api f g of
     None \<Rightarrow> Some Panic
   | Some gen \<Rightarrow> (case calculate_rows_of_stream (tg_transactions gen) rows of
       None \<Rightarrow> None
     | Some (Ok rows) \<Rightarrow> rows_of_generators api f gs rows
     | Some (Err e) \<Rightarrow> Some (Err e)
     | Some Panic \<Rightarrow> Some Panic))"

definition add_stream :: "'f ftr_api \<Rightarrow> transaction_stream_ref \<Rightarrow> 'f \<times> ('v, 's, 't) wave_data
    \<Rightarrow> (move_error, 'f \<times> ('v, 's, 't) wave_data) outcome option" where
  "add_stream api r = (\<lambda>(f, w). case api_get_stream api f (ts_stream_id r) of None \<Rightarrow> Some Panic | Some s \<Rightarrow>
     (case (if st_transactions_loaded s then Some f else api_load_stream api f (ts_stream_id r)) of None \<Rightarrow> Some (Ok (f, w)) | Some f \<Rightarrow>
     (case api_get_stream api f (ts_stream_id r) of None \<Rightarrow> Some Panic | Some s \<Rightarrow>
        map_option (\<lambda>res. and_then res (\<lambda>w'. Ok (f, w'))) (add_stream_item r (rows_of_generators api f (st_generators s) [(0, 0)]) w))))"

text \<open>One after the other, as far as no run panics.\<close>

fun add_all :: "('r \<Rightarrow> 'x \<Rightarrow> (move_error, 'x) outcome option) \<Rightarrow> 'r list \<Rightarrow> 'x \<Rightarrow> (move_error, 'x) outcome option" where
  "add_all add [] x = Some (Ok x)"
| "add_all add (r # rs) x = (case add r x of Some (Ok x) \<Rightarrow> add_all add rs x | res \<Rightarrow> res)"

definition add_all_streams :: "'f ftr_api \<Rightarrow> 'f \<times> ('v, 's, 't) wave_data \<Rightarrow> (move_error, 'f \<times> ('v, 's, 't) wave_data) outcome option" where
  "add_all_streams api = (\<lambda>(f, w). add_all (\<lambda>(i, name). add_stream api (new_stream i name))
     (sorted_by (\<lambda>a b. api_name_le api (snd a) (snd b)) (map (\<lambda>s. (st_id s, st_name s)) (api_streams api f))) (f, w))"

definition add_all_from_stream_scope :: "'f ftr_api \<Rightarrow> string \<Rightarrow> 'f \<times> ('v, 's, 't) wave_data
    \<Rightarrow> (move_error, 'f \<times> ('v, 's, 't) wave_data) outcome option" where
  "add_all_from_stream_scope api stream_name = (\<lambda>(f, w).
     if stream_name = ''tr'' then add_all_streams api (f, w)
     else (case api_stream_from_name api f stream_name of None \<Rightarrow> Some (Ok (f, w)) | Some s \<Rightarrow>
       let gens = map (api_get_generator api f) (st_generators s)
       in if None \<in> set gens then Some Panic
          else add_all (\<lambda>g. add_generator api (new_gen (tg_stream_id g) (tg_id g) (tg_name g)))
            (sorted_by (\<lambda>a b. api_name_le api (tg_name a) (tg_name b)) (map the gens)) (f, w)))"

definition add_stream_or_generator_from_name :: "'f ftr_api \<Rightarrow> stream_scope_ref option \<Rightarrow> string \<Rightarrow> 'f \<times> ('v, 's, 't) wave_data
    \<Rightarrow> (move_error, 'f \<times> ('v, 's, 't) wave_data) outcome option" where
  "add_stream_or_generator_from_name api scope name = (\<lambda>(f, w).
     let from_generator = (\<lambda>stream_id. case api_generator_from_name api f stream_id name of None \<Rightarrow> Some (Ok (f, w))
           | Some g \<Rightarrow> add_generator api (new_gen (tg_stream_id g) (tg_id g) (tg_name g)) (f, w))
     in (case scope of
       Some RootScope \<Rightarrow> (case api_stream_from_name api f name of None \<Rightarrow> Some (Ok (f, w))
         | Some s \<Rightarrow> add_stream api (new_stream (st_id s) (st_name s)) (f, w))
     | Some (StreamScope r) \<Rightarrow> from_generator (Some (ts_stream_id r))
     | Some (EmptyScope _) \<Rightarrow> Some (Ok (f, w))
     | None \<Rightarrow> from_generator None))"

subsection \<open>The focused transaction\<close>

definition transactions_of_generator :: "'f ftr_api \<Rightarrow> 'f \<Rightarrow> nat \<Rightarrow> ('e, nat list) outcome" where
  "transactions_of_generator api f gen_id = (case api_get_generator api f gen_id of None \<Rightarrow> Panic
     | Some g \<Rightarrow> Ok (map tx_id (tg_transactions g)))"

fun transactions_of_generators :: "'f ftr_api \<Rightarrow> 'f \<Rightarrow> nat list \<Rightarrow> ('e, nat list) outcome" where
  "transactions_of_generators api f [] = Ok []"
| "transactions_of_generators api f (g # gs) = and_then (transactions_of_generator api f g) (\<lambda>xs.
     and_then (transactions_of_generators api f gs) (\<lambda>ys. Ok (xs @ ys)))"

definition transactions_of_stream :: "'f ftr_api \<Rightarrow> 'f \<Rightarrow> nat \<Rightarrow> ('e, nat list) outcome" where
  "transactions_of_stream api f stream_id = (case api_get_stream api f stream_id of None \<Rightarrow> Panic
     | Some s \<Rightarrow> transactions_of_generators api f (st_generators s))"

fun transactions_of_item :: "'f ftr_api \<Rightarrow> 'f \<Rightarrow> ('v, 's) displayed_item \<Rightarrow> ('e, nat list) outcome" where
  "transactions_of_item api f (ItemStream s) = (case ts_gen_id (ds_ref s) of
     Some gen_id \<Rightarrow> transactions_of_generator api f gen_id
   | None \<Rightarrow> transactions_of_stream api f (ts_stream_id (ds_ref s)))"
| "transactions_of_item api f _ = Ok []"

fun transactions_of_refs :: "'f ftr_api \<Rightarrow> 'f \<Rightarrow> (nat \<Rightarrow> ('v, 's) displayed_item option) \<Rightarrow> nat list \<Rightarrow> ('e, nat list) outcome" where
  "transactions_of_refs api f items [] = Ok []"
| "transactions_of_refs api f items (r # rs) = (case items r of None \<Rightarrow> Panic | Some i \<Rightarrow>
     and_then (transactions_of_item api f i) (\<lambda>xs. and_then (transactions_of_refs api f items rs) (\<lambda>ys. Ok (xs @ ys))))"

text \<open>The ids of the transactions of the visible rows, in the order of rows.\<close>

definition shown_transactions :: "'f ftr_api \<Rightarrow> 'f \<Rightarrow> ('v, 's, 't) wave_data \<Rightarrow> ('e, nat list) outcome" where
  "shown_transactions api f w = transactions_of_refs api f (displayed_items w)
     (map (\<lambda>i. item_ref (items_tree w ! i)) (visible_indices (items_tree w)))"

text \<open>The place of the next focus; with nothing shown the last place does not exist and the subtraction panics.\<close>

definition next_focus :: "bool \<Rightarrow> nat list \<Rightarrow> nat \<Rightarrow> ('e, nat) outcome" where
  "next_focus next transactions focused =
     (let vec_idx = length (takeWhile (\<lambda>t. t \<noteq> focused) transactions) in
      if vec_idx < length transactions then
        Ok (if next then (if vec_idx + 1 < length transactions then vec_idx + 1 else length transactions - 1) else vec_idx - 1)
      else if next then (if transactions = [] then Panic else Ok (length transactions - 1)) else Ok 0)"

definition move_to_transaction :: "'f ftr_api \<Rightarrow> 'f \<Rightarrow> bool \<Rightarrow> ('v, 's, 't) wave_data \<Rightarrow> ('e, ('v, 's, 't) wave_data) outcome" where
  "move_to_transaction api f next w = and_then (shown_transactions api f w) (\<lambda>ids.
     let transactions = sort ids in
     (case fst (focused_transaction w) of
       Some focused \<Rightarrow> and_then (next_focus next transactions focused) (\<lambda>next_id.
         Ok (case get transactions next_id of None \<Rightarrow> w
           | Some t \<Rightarrow> w\<lparr>focused_transaction := (Some t, snd (focused_transaction w))\<rparr>))
     | None \<Rightarrow> Ok (w\<lparr>focused_transaction := (get transactions 0, snd (focused_transaction w))\<rparr>)))"

subsection \<open>The messages\<close>

datatype transaction_message =
  AddStreamOrGenerator transaction_stream_ref
| AddStreamOrGeneratorFromName "stream_scope_ref option" string
| AddAllFromStreamScope string
| MoveTransaction bool

text \<open>
  A message on what is loaded and the state. Without waves only the canvas is saved; when a waveform is loaded instead of a
  transaction file (\<open>None\<close>), an operation either does nothing or panics.
\<close>

definition with_file :: "bool \<Rightarrow> ('f \<times> ('v, 's, 't) wave_data \<Rightarrow> (move_error, 'f \<times> ('v, 's, 't) wave_data) outcome option)
    \<Rightarrow> 'f option \<times> ('v, 's, 't) system_state \<Rightarrow> (move_error, 'f option \<times> ('v, 's, 't) system_state) outcome option" where
  "with_file unwraps op = (\<lambda>(file, s). case sys_waves s of None \<Rightarrow> Some (Ok (file, s))
     | Some w \<Rightarrow> (case file of None \<Rightarrow> Some (if unwraps then Panic else Ok (None, s))
       | Some f \<Rightarrow> map_option (\<lambda>res. and_then res (\<lambda>(f, w). Ok (Some f, s\<lparr>sys_waves := Some w\<rparr>))) (op (f, w))))"

fun update_transactions :: "'f ftr_api \<Rightarrow> transaction_message \<Rightarrow> 'f option \<times> ('v, 's, 't) system_state
    \<Rightarrow> (move_error, 'f option \<times> ('v, 's, 't) system_state) outcome option" where
  "update_transactions api (AddStreamOrGenerator r) (f, s) = (case ts_gen_id r of
     Some g \<Rightarrow> with_file False (add_generator api r) (f, save_current_canvas (''Add generator(id: '' @ show_nat g @ '')'') s)
   | None \<Rightarrow> with_file True (add_stream api r) (f, save_current_canvas (''Add stream(id: '' @ show_nat (ts_stream_id r) @ '')'') s))"
| "update_transactions api (AddStreamOrGeneratorFromName scope name) (f, s) =
     with_file False (add_stream_or_generator_from_name api scope name)
       (f, save_current_canvas (''Add Stream/Generator from name: '' @ name) s)"
| "update_transactions api (AddAllFromStreamScope stream_name) (f, s) =
     with_file (stream_name = ''tr'') (add_all_from_stream_scope api stream_name) (f, save_current_canvas (''Add all from scope '' @ stream_name) s)"
| "update_transactions api (MoveTransaction next) (f, s) =
     with_file False (\<lambda>(f, w). Some (and_then (move_to_transaction api f next w) (\<lambda>w. Ok (f, w))))
       (f, save_current_canvas (if next then ''Move to next transaction'' else ''Move to previous transaction'') s)"

subsection \<open>Rows: termination and number\<close>

lemma find_row_eq: "c < length rows \<Longrightarrow> find_row start rows c = Some (Ok
    (let d = length (takeWhile (\<lambda>r. start < snd r) (drop c rows)) in
     if c + d < length rows then (rows, c + d) else (rows @ [(0, 0)], length rows)))"
proof (induction "length rows - c" arbitrary: c)
  case (Suc n)
  obtain a e where r: "rows ! c = (a, e)" by (cases "rows ! c")
  have d: "drop c rows = (a, e) # drop (c + 1) rows" using Suc.prems r by (metis Cons_nth_drop_Suc add.commute plus_1_eq_Suc)
  show ?case
  proof (cases "start < e")
    case False
    then show ?thesis using Suc.prems r by (subst find_row.simps) (simp add: d get_in_range)
  next
    case True
    show ?thesis
    proof (cases "c + 1 < length rows")
      case True
      then have "find_row start rows (c + 1) = Some (Ok (let d = length (takeWhile (\<lambda>r. start < snd r) (drop (c + 1) rows)) in
          if c + 1 + d < length rows then (rows, c + 1 + d) else (rows @ [(0, 0)], length rows)))" using Suc(2) by (intro Suc(1)) auto
      then show ?thesis using True \<open>start < e\<close> Suc.prems r by (subst find_row.simps) (simp add: d get_in_range Let_def)
    next
      case False
      then have c: "length rows = c + 1" using Suc.prems by simp
      have "find_row start (rows @ [(0, 0)]) (c + 1) = Some (Ok (rows @ [(0, 0)], c + 1))"
        by (subst find_row.simps) (simp add: get_def c nth_append)
      then show ?thesis using \<open>start < e\<close> Suc.prems r c by (subst find_row.simps) (simp add: d get_in_range Let_def)
    qed
  qed
qed simp

text \<open>The row found has no transaction that is still open, and it is new only if every row has one.\<close>

lemma find_row_cases [consumes 1, case_names old new]:
  assumes "rows \<noteq> []"
  obtains (old) i where "find_row start rows 0 = Some (Ok (rows, i))" "i < length rows" "snd (rows ! i) \<le> start"
  | (new) "find_row start rows 0 = Some (Ok (rows @ [(0, 0)], length rows))" "\<forall>r \<in> set rows. start < snd r"
proof -
  let ?d = "length (takeWhile (\<lambda>r. start < snd r) rows)"
  have f: "find_row start rows 0 = Some (Ok (if ?d < length rows then (rows, ?d) else (rows @ [(0, 0)], length rows)))"
    using find_row_eq[of 0 rows start] assms by (auto simp: Let_def)
  show thesis
  proof (cases "?d < length rows")
    case True
    then show thesis using f nth_length_takeWhile[OF True] by (intro old) auto
  next
    case False
    then have "takeWhile (\<lambda>r. start < snd r) rows = rows" using length_takeWhile_le[of "\<lambda>r. start < snd r" rows]
      by (metis le_neq_implies_less takeWhile_eq_take take_all_iff not_le)
    then show thesis using f False by (intro new) (auto simp: takeWhile_eq_all_conv)
  qed
qed

lemma rows_exist: "rows \<noteq> [] \<Longrightarrow> \<exists>rows'. calculate_rows_of_stream txs rows = Some (Ok rows')"
proof (induction txs arbitrary: rows)
  case (Cons tx txs)
  from Cons.prems show ?case
    by (cases rule: find_row_cases[where start = "tx_start tx"]) (use Cons.IH Cons.prems in auto)
qed simp

text \<open>
  C22. The assignment of rows ends and does not panic for any transactions, in whatever order, once there is a row to begin
  with, and adds at most one row for each transaction.
\<close>

theorem rows_terminate: "rows \<noteq> [] \<Longrightarrow> \<exists>rows'. calculate_rows_of_stream txs rows = Some (Ok rows')
    \<and> length rows \<le> length rows' \<and> length rows' \<le> length rows + length txs"
proof (induction txs arbitrary: rows)
  case (Cons tx txs)
  from Cons.prems show ?case
  proof (cases rule: find_row_cases[where start = "tx_start tx"])
    case (old i)
    then show ?thesis using Cons.IH[of "rows[i := (tx_start tx, tx_end tx)]"] Cons.prems by auto
  next
    case new
    then show ?thesis using Cons.IH[of "(rows @ [(0, 0)])[length rows := (tx_start tx, tx_end tx)]"] by auto
  qed
qed simp

theorem rows_terminate_witness: "\<exists>rows'. calculate_rows_of_stream [\<lparr>tx_id = 1, tx_start = 4, tx_end = 9\<rparr>, \<lparr>tx_id = 2, tx_start = 2, tx_end = 5\<rparr>] [(0, 0)]
    = Some (Ok rows') \<and> length [(0 :: nat, 0 :: nat)] \<le> length rows'
    \<and> length rows' \<le> length [(0 :: nat, 0 :: nat)] + length [\<lparr>tx_id = 1, tx_start = 4, tx_end = 9\<rparr>, \<lparr>tx_id = 2, tx_start = 2, tx_end = 5\<rparr>]"
  by (rule rows_terminate) simp

text \<open>The rows that are taken at a time are as many as the transactions that are open then.\<close>

definition rows_inv :: "transaction list \<Rightarrow> (nat \<times> nat) list \<Rightarrow> bool" where
  "rows_inv past rows \<longleftrightarrow> rows \<noteq> [] \<and> (\<forall>s. (\<forall>t \<in> set past. tx_start t \<le> s) \<longrightarrow>
     length (filter (\<lambda>r. s < snd r) rows) = length (filter (\<lambda>t. s < tx_end t) past))"

lemma filter_update: "i < length xs \<Longrightarrow> \<not> P (xs ! i) \<Longrightarrow> length (filter P (xs[i := y])) = length (filter P xs) + of_bool (P y)"
  by (induction xs arbitrary: i) (auto split: nat.splits)

lemma row_step:
  assumes "rows_inv past rows" "\<forall>t \<in> set past. tx_start t \<le> tx_start tx"
  obtains rows' i where "find_row (tx_start tx) rows 0 = Some (Ok (rows', i))" "rows_inv (past @ [tx]) (rows'[i := (tx_start tx, tx_end tx)])"
    "length rows' = max (length rows) (Suc (length (filter (\<lambda>t. tx_start tx < tx_end t) past)))"
proof -
  have count: "length (filter (\<lambda>r. tx_start tx < snd r) rows) = length (filter (\<lambda>t. tx_start tx < tx_end t) past)"
    using assms by (simp add: rows_inv_def)
  have "rows \<noteq> []" using assms(1) by (simp add: rows_inv_def)
  from \<open>rows \<noteq> []\<close> show thesis
  proof (cases rule: find_row_cases[where start = "tx_start tx"])
    case (old i)
    have "length (filter (\<lambda>r. s < snd r) (rows[i := (tx_start tx, tx_end tx)])) = length (filter (\<lambda>t. s < tx_end t) (past @ [tx]))"
      if "\<forall>t \<in> set (past @ [tx]). tx_start t \<le> s" for s
      using that assms(1) old filter_update[of i rows "\<lambda>r. s < snd r" "(tx_start tx, tx_end tx)"] by (auto simp: rows_inv_def)
    moreover have "length (filter (\<lambda>r. tx_start tx < snd r) rows) < length rows"
      using old by (intro length_filter_less[of "rows ! i"]) auto
    ultimately show thesis using old count \<open>rows \<noteq> []\<close> by (intro that[of rows i]) (auto simp: rows_inv_def max_def)
  next
    case new
    have "length (filter (\<lambda>r. s < snd r) (rows @ [(tx_start tx, tx_end tx)])) = length (filter (\<lambda>t. s < tx_end t) (past @ [tx]))"
      if "\<forall>t \<in> set (past @ [tx]). tx_start t \<le> s" for s
      using that assms(1) by (simp add: rows_inv_def)
    moreover have "length (filter (\<lambda>r. tx_start tx < snd r) rows) = length rows" using new(2) by (simp add: filter_True)
    ultimately show thesis using new(1) count by (intro that[of "rows @ [(0, 0)]" "length rows"]) (auto simp: rows_inv_def max_def)
  qed
qed

text \<open>The transactions before the \<open>k\<close>-th that are still open when it starts.\<close>

definition open_before :: "transaction list \<Rightarrow> nat \<Rightarrow> nat" where
  "open_before txs k = length (filter (\<lambda>t. tx_start (txs ! k) < tx_end t) (take k txs))"

lemma Max_insert_max: "finite S \<Longrightarrow> Max (insert (max a b) S) = max a (Max (insert b S))" for a b :: nat
  by (cases "S = {}") (simp_all add: max.assoc)

lemma rows_needed:
  assumes "rows_inv past rows" "sorted (map tx_start (past @ txs))"
  shows "\<exists>rows'. calculate_rows_of_stream txs rows = Some (Ok rows')
    \<and> length rows' = Max (insert (length rows) ((\<lambda>k. Suc (open_before (past @ txs) k)) ` {length past ..< length past + length txs}))"
  using assms
proof (induction txs arbitrary: past rows)
  case (Cons tx txs)
  have "\<forall>t \<in> set past. tx_start t \<le> tx_start tx" using Cons.prems(2) by (auto simp: sorted_append)
  with Cons.prems(1) obtain rows' i where r: "find_row (tx_start tx) rows 0 = Some (Ok (rows', i))"
    "rows_inv (past @ [tx]) (rows'[i := (tx_start tx, tx_end tx)])"
    "length rows' = max (length rows) (Suc (length (filter (\<lambda>t. tx_start tx < tx_end t) past)))" by (rule row_step)
  have o: "open_before (past @ tx # txs) (length past) = length (filter (\<lambda>t. tx_start tx < tx_end t) past)" by (simp add: open_before_def)
  have ks: "{length past ..< length past + length (tx # txs)} = insert (length past) {length (past @ [tx]) ..< length (past @ [tx]) + length txs}" by auto
  show ?case using Cons.IH[OF r(2)] Cons.prems(2) r(1) unfolding ks
    by (auto simp: r(3) o Max_insert_max simp flip: o)
qed simp

text \<open>
  C21. A generator whose transactions are in order of their starts gets exactly as many rows as it needs: one more than the
  most earlier transactions that are still open when a transaction starts.
\<close>

theorem rows_minimal: "sorted (map tx_start txs) \<Longrightarrow> \<exists>rows. calculate_rows_of_stream txs [(0, 0)] = Some (Ok rows)
    \<and> length rows = Max (insert 1 ((\<lambda>k. Suc (open_before txs k)) ` {..<length txs}))"
  using rows_needed[of "[]" "[(0, 0)]" txs] by (simp add: rows_inv_def atLeast0LessThan)

theorem rows_minimal_witness: "\<exists>rows. calculate_rows_of_stream [\<lparr>tx_id = 1, tx_start = 2, tx_end = 9\<rparr>, \<lparr>tx_id = 2, tx_start = 4, tx_end = 5\<rparr>] [(0, 0)] = Some (Ok rows)
    \<and> length rows = Max (insert 1 ((\<lambda>k. Suc (open_before [\<lparr>tx_id = 1, tx_start = 2, tx_end = 9\<rparr>, \<lparr>tx_id = 2, tx_start = 4, tx_end = 5\<rparr>] k))
      ` {..<length [\<lparr>tx_id = 1, tx_start = 2, tx_end = 9\<rparr>, \<lparr>tx_id = 2, tx_start = 4, tx_end = 5\<rparr>]}))"
  by (rule rows_minimal) simp

subsection \<open>The next transaction\<close>

definition next_id :: "nat list \<Rightarrow> nat \<Rightarrow> nat" where
  "next_id ids x = (if 2 \<le> count (mset ids) x then x else if \<exists>y \<in> set ids. x < y then Min {y \<in> set ids. x < y} else x)"

definition previous_id :: "nat list \<Rightarrow> nat \<Rightarrow> nat" where
  "previous_id ids x = (if \<exists>y \<in> set ids. y < x then Max {y \<in> set ids. y < x} else x)"

lemma sorted_split:
  assumes "x \<in> set ids"
  obtains as bs where "sort ids = as @ x # bs" "\<forall>y \<in> set as. y < x" "\<forall>y \<in> set bs. x \<le> y" "sorted as" "sorted bs"
    "set ids = set as \<union> {x} \<union> set bs" "count (mset ids) x = Suc (count (mset bs) x)"
proof -
  obtain as bs where s: "sort ids = as @ x # bs" "x \<notin> set as" using split_list_first[of x "sort ids"] assms by auto
  have sorted: "sorted (as @ x # bs)" using sorted_sort[of ids] s(1) by simp
  have ids: "set ids = set as \<union> {x} \<union> set bs" using arg_cong[OF s(1), of set] by auto
  have "count (mset as) x = 0" using s(2) by (simp add: count_eq_zero_iff)
  then have cnt: "count (mset ids) x = Suc (count (mset bs) x)" using arg_cong[OF s(1), of "\<lambda>l. count (mset l) x"] by simp
  have "y < x" if "y \<in> set as" for y
    using sorted s(2) that by (cases "y = x") (auto simp: sorted_append order.strict_iff_order)
  then show thesis using sorted by (intro that[OF s(1) _ _ _ _ ids cnt]) (auto simp: sorted_append)
qed

lemma next_focus_id:
  assumes "x \<in> set ids"
  shows "\<exists>n. next_focus True (sort ids) x = Ok n \<and> get (sort ids) n = Some (next_id ids x)"
    "\<exists>n. next_focus False (sort ids) x = Ok n \<and> get (sort ids) n = Some (previous_id ids x)"
proof -
  obtain as bs where s: "sort ids = as @ x # bs" "\<forall>y \<in> set as. y < x" "\<forall>y \<in> set bs. x \<le> y" "sorted as" "sorted bs"
    "set ids = set as \<union> {x} \<union> set bs" "count (mset ids) x = Suc (count (mset bs) x)" by (rule sorted_split[OF assms])
  have t: "takeWhile (\<lambda>t. t \<noteq> x) (as @ x # bs) = as" using s(2) by (subst takeWhile_append2) auto
  show "\<exists>n. next_focus True (sort ids) x = Ok n \<and> get (sort ids) n = Some (next_id ids x)"
  proof (cases bs)
    case Nil
    then have "next_id ids x = x" using s by (auto simp: next_id_def)
    then show ?thesis using s(1) t Nil by (simp add: next_focus_def get_in_range)
  next
    case (Cons b bs')
    have "next_id ids x = b"
    proof (cases "b = x")
      case True
      then show ?thesis using s(7) Cons by (simp add: next_id_def)
    next
      case False
      then have b: "x < b" "\<forall>y \<in> set bs. b \<le> y" "count (mset bs) x = 0" using s(3,5) Cons by (auto simp: count_eq_zero_iff)
      have "Min {y \<in> set ids. x < y} = b" using s(2) b Cons by (intro Min_eqI) (auto simp: s(6))
      then show ?thesis using b s(6,7) Cons by (auto simp: next_id_def)
    qed
    then show ?thesis using s(1) t Cons by (simp add: next_focus_def get_in_range nth_append)
  qed
  show "\<exists>n. next_focus False (sort ids) x = Ok n \<and> get (sort ids) n = Some (previous_id ids x)"
  proof (cases as rule: rev_cases)
    case Nil
    then have "previous_id ids x = x" using s by (auto simp: previous_id_def)
    then show ?thesis using s(1) t Nil by (simp add: next_focus_def get_in_range)
  next
    case (snoc as' a)
    have "Max {y \<in> set ids. y < x} = a" using s(2-4) snoc by (intro Max_eqI) (auto simp: s(6) sorted_append)
    then have "previous_id ids x = a" using s(2,6) snoc by (auto simp: previous_id_def)
    then show ?thesis using s(1) t snoc by (simp add: next_focus_def get_in_range nth_append)
  qed
qed

text \<open>
  The focus moves to the next greater or next smaller id among the transactions of the visible rows, and stays when there
  is none. But when the focused transaction is shown more than once, by a stream and by one of its generators, the move to
  the next one stays at it for ever, although the move back does not.
\<close>

theorem focus_moves:
  assumes "shown_transactions api f w = (Ok ids :: ('e, nat list) outcome)" "fst (focused_transaction w) = Some x" "x \<in> set ids"
  shows "(move_to_transaction api f True w :: ('e, _) outcome) = Ok (w\<lparr>focused_transaction := (Some (next_id ids x), snd (focused_transaction w))\<rparr>)
    \<and> (move_to_transaction api f False w :: ('e, _) outcome) = Ok (w\<lparr>focused_transaction := (Some (previous_id ids x), snd (focused_transaction w))\<rparr>)"
proof -
  obtain n m where n: "(next_focus True (sort ids) x :: ('e, nat) outcome) = Ok n" "get (sort ids) n = Some (next_id ids x)"
    "(next_focus False (sort ids) x :: ('e, nat) outcome) = Ok m" "get (sort ids) m = Some (previous_id ids x)"
    using next_focus_id[OF assms(3)] by blast
  show ?thesis using assms(1,2) n by (simp add: move_to_transaction_def get_in_range)
qed

definition sample_api :: "unit ftr_api" where
  "sample_api = \<lparr>api_streams = \<lambda>_. [], api_generators = \<lambda>_. [], api_get_stream = \<lambda>_ _. None,
     api_get_generator = \<lambda>_ _. Some \<lparr>tg_id = 0, tg_stream_id = 0, tg_name = ''bus'', tg_transactions =
       [\<lparr>tx_id = 4, tx_start = 1, tx_end = 2\<rparr>, \<lparr>tx_id = 9, tx_start = 3, tx_end = 5\<rparr>]\<rparr>,
     api_stream_from_name = \<lambda>_ _. None, api_generator_from_name = \<lambda>_ _ _. None, api_load_stream = \<lambda>_ _. None, api_name_le = \<lambda>_ _. True\<rparr>"

definition sample_rows :: "(unit, unit, unit) wave_data" where
  "sample_rows = sample_canvas\<lparr>items_tree := [\<lparr>item_ref = 1, level = 0, unfolded = True, selected = False\<rparr>],
     displayed_items := [1 \<mapsto> stream_item (new_gen 0 0 ''bus'') 1], focused_transaction := (Some 4, None)\<rparr>"

lemma sample_shown: "shown_transactions sample_api () sample_rows = Ok [4, 9]"
proof -
  have "visible_indices (items_tree sample_rows) = [0]" by (simp add: sample_rows_def) code_simp
  then show ?thesis by (simp add: shown_transactions_def sample_rows_def stream_item_def new_gen_def transactions_of_generator_def sample_api_def)
qed

theorem focus_moves_witness: "(move_to_transaction sample_api () True sample_rows :: (unit, _) outcome) =
    Ok (sample_rows\<lparr>focused_transaction := (Some (next_id [4, 9] 4), snd (focused_transaction sample_rows))\<rparr>)
    \<and> (move_to_transaction sample_api () False sample_rows :: (unit, _) outcome) =
    Ok (sample_rows\<lparr>focused_transaction := (Some (previous_id [4, 9] 4), snd (focused_transaction sample_rows))\<rparr>)"
  by (rule focus_moves[OF sample_shown]) (simp_all add: sample_rows_def)

text \<open>With nothing to show, the move to the next transaction from a focus panics.\<close>

theorem empty_move_panics: "shown_transactions api f w = (Ok [] :: ('e, nat list) outcome) \<Longrightarrow> fst (focused_transaction w) = Some x
    \<Longrightarrow> (move_to_transaction api f True w :: ('e, _) outcome) = Panic"
  by (simp add: move_to_transaction_def next_focus_def)

text \<open>Adding a generator ends, does not panic and keeps the rows of the canvas.\<close>

theorem add_generator_total:
  assumes "rows_ok w" "groups_below 255 w"
  shows "\<exists>f' w'. add_generator api r (f, w) = Some (Ok (f', w')) \<and> rows_ok w'"
proof -
  have place: "good_place w (target_or_focus w None)"
    using insert_position_good[OF assms] end_position_good[OF assms(1)]
    by (cases "insert_position w (focused_item w)") (simp_all add: target_or_focus_def or_else_def)
  have "\<exists>w'. add_stream_item r (calculate_rows_of_stream txs [(0, 0)]) w = Some (Ok w') \<and> rows_ok w'" for txs
  proof -
    obtain rows where r: "calculate_rows_of_stream txs [(0, 0)] = Some (Ok rows)" using rows_exist[of "[(0, 0)]" txs] by auto
    obtain w' where "insert_displayed (stream_item r (length rows)) None True w = Ok (display_item_ref_counter w + 1, w')" "rows_ok w'"
      using rows_ok_insert[OF assms(1) place, of "stream_item r (length rows)" True] by (auto simp: stream_item_def)
    then show ?thesis by (simp add: add_stream_item_def r)
  qed
  then obtain W where "\<And>txs. add_stream_item r (calculate_rows_of_stream txs [(0, 0)]) w = Some (Ok (W txs))" "\<And>txs. rows_ok (W txs)" by metis
  then show ?thesis using assms(1) by (simp add: add_generator_def split: option.splits)
qed

end
