(* ===== verification/Signal_Cache.thy ===== *)
theory Signal_Cache
  imports Translators
begin

section \<open>The cache of an analog signal (analog_signal_cache.rs)\<close>

text \<open>
  The samples of a signal with a table that answers for the minimum and maximum in a range of times: summaries of
  blocks of samples and, for every power of two, of that many blocks from each block on. The lemmas show that every
  query never panics and answers what going through all samples would. A sample is a number of a linear order
  (the finite \<^verbatim>\<open>f64\<close>, the two zeros taken as equal), an infinity or a NaN; times are natural numbers. The waiting for a
  cache that another thread builds is the state of an entry, empty or set once.
\<close>

datatype 'f extended = NegInfinity | Finite 'f | PosInfinity

text \<open>The order of the values that are not NaN, and \<^verbatim>\<open>f64::min\<close> and \<^verbatim>\<open>f64::max\<close> on them.\<close>

fun ext_le :: "('f :: linorder) extended \<Rightarrow> 'f extended \<Rightarrow> bool" where
  "ext_le NegInfinity _ = True"
| "ext_le _ PosInfinity = True"
| "ext_le (Finite a) (Finite b) = (a \<le> b)"
| "ext_le _ _ = False"

definition ext_min :: "('f :: linorder) extended \<Rightarrow> 'f extended \<Rightarrow> 'f extended" where
  "ext_min a b = (if ext_le a b then a else b)"

definition ext_max :: "('f :: linorder) extended \<Rightarrow> 'f extended \<Rightarrow> 'f extended" where
  "ext_max a b = (if ext_le a b then b else a)"

type_synonym 'f sample = "'f extended numeric"

record 'f min_max =
  mm_min :: "'f extended"
  mm_max :: "'f extended"
  mm_has_non_finite :: bool

definition mm_new :: "'f sample \<Rightarrow> 'f min_max" where
  "mm_new value = (case value of
     Num (Finite x) \<Rightarrow> \<lparr>mm_min = Finite x, mm_max = Finite x, mm_has_non_finite = False\<rparr>
   | _ \<Rightarrow> \<lparr>mm_min = PosInfinity, mm_max = NegInfinity, mm_has_non_finite = True\<rparr>)"

definition mm_combine :: "('f :: linorder) min_max \<Rightarrow> 'f min_max \<Rightarrow> 'f min_max" where
  "mm_combine a b = \<lparr>mm_min = ext_min (mm_min a) (mm_min b), mm_max = ext_max (mm_max a) (mm_max b),
     mm_has_non_finite = (mm_has_non_finite a \<or> mm_has_non_finite b)\<rparr>"

fun mm_from_slice :: "('f :: linorder) sample list \<Rightarrow> ('e, 'f min_max) outcome" where
  "mm_from_slice [] = Panic"
| "mm_from_slice (v # vs) = Ok (foldl (\<lambda>acc v. mm_combine acc (mm_new v)) (mm_new v) (v # vs))"

subsection \<open>The table\<close>

record 'f signal_rmq =
  rmq_timestamps :: "nat list"
  rmq_values :: "'f sample list"
  rmq_block_size :: nat
  rmq_sparse_table :: "'f min_max list list"

text \<open>\<^verbatim>\<open>ilog2\<close> panics at zero.\<close>

fun log2_floor :: "nat \<Rightarrow> nat" where
  "log2_floor n = (if n < 2 then 0 else Suc (log2_floor (n div 2)))"

declare log2_floor.simps [simp del]

definition ilog2 :: "nat \<Rightarrow> ('e, nat) outcome" where
  "ilog2 n = (if n = 0 then Panic else Ok (log2_floor n))"

definition next_level :: "nat \<Rightarrow> ('f :: linorder) min_max list \<Rightarrow> 'f min_max list" where
  "next_level width prev = map (\<lambda>i. case get prev (i + width) of None \<Rightarrow> prev ! i | Some right \<Rightarrow> mm_combine (prev ! i) right)
     [0 ..< length prev]"

fun table_levels :: "nat \<Rightarrow> nat \<Rightarrow> ('f :: linorder) min_max list \<Rightarrow> 'f min_max list list" where
  "table_levels 0 level prev = [prev]"
| "table_levels (Suc k) level prev = prev # table_levels k (level + 1) (next_level (2 ^ level) prev)"

definition build_sparse_table :: "('f :: linorder) min_max list \<Rightarrow> ('e, 'f min_max list list) outcome" where
  "build_sparse_table block_summaries =
     and_then (ilog2 (length block_summaries)) (\<lambda>num_levels. Ok (table_levels num_levels 0 block_summaries))"

definition block_summaries :: "('f :: linorder) sample list \<Rightarrow> nat \<Rightarrow> ('e, 'f min_max list) outcome" where
  "block_summaries values block_size = (if block_size = 0 then Panic
     else collect_outcomes (map (\<lambda>block_idx. let start = block_idx * block_size in
         mm_from_slice (slice_range start (min (start + block_size) (length values)) values))
       [0 ..< ceil_div (length values) block_size]))"

definition rmq_new :: "(nat \<times> ('f :: linorder) sample) list \<Rightarrow> nat \<Rightarrow> ('e, 'f signal_rmq) outcome" where
  "rmq_new data block_size = (if \<not> sorted_wrt (<) (map fst data) then Panic
     else and_then (block_summaries (map snd data) block_size) (\<lambda>summaries.
       and_then (build_sparse_table summaries) (\<lambda>table.
         Ok \<lparr>rmq_timestamps = map fst data, rmq_values = map snd data, rmq_block_size = block_size, rmq_sparse_table = table\<rparr>)))"

subsection \<open>Queries\<close>

text \<open>\<^verbatim>\<open>slice::binary_search\<close> of a sorted slice without duplicates: the place of the element, or where it would go.\<close>

definition binary_search :: "nat list \<Rightarrow> nat \<Rightarrow> nat + nat" where
  "binary_search xs x = (let i = partition_point (\<lambda>y. y < x) xs in if get xs i = Some x then Inl i else Inr i)"

definition table_at :: "'f signal_rmq \<Rightarrow> nat \<Rightarrow> nat \<Rightarrow> ('e, 'f min_max) outcome" where
  "table_at q level block = (case get (rmq_sparse_table q) level of None \<Rightarrow> Panic
     | Some row \<Rightarrow> (case get row block of None \<Rightarrow> Panic | Some m \<Rightarrow> Ok m))"

definition query_blocks :: "('f :: linorder) signal_rmq \<Rightarrow> nat \<Rightarrow> nat \<Rightarrow> ('e, 'f min_max) outcome" where
  "query_blocks q l_block r_block =
     (if r_block < l_block then Panic
      else if l_block = r_block then table_at q 0 l_block
      else and_then (ilog2 (r_block - l_block + 1)) (\<lambda>level. let jump = 2 ^ level in
        and_then (table_at q level l_block) (\<lambda>left.
        if r_block < jump then Panic else
        and_then (table_at q level (r_block - jump + 1)) (\<lambda>right. Ok (mm_combine left right)))))"

text \<open>\<^verbatim>\<open>MinMax::from_slice(&self.values[a..=b])\<close>.\<close>

definition slice_summary :: "('f :: linorder) signal_rmq \<Rightarrow> nat \<Rightarrow> nat \<Rightarrow> ('e, 'f min_max) outcome" where
  "slice_summary q a b = (if b + 1 < a \<or> length (rmq_values q) \<le> b then Panic else mm_from_slice (slice_range a (b + 1) (rmq_values q)))"

definition query_index_range :: "('f :: linorder) signal_rmq \<Rightarrow> nat \<Rightarrow> nat \<Rightarrow> ('e, 'f min_max) outcome" where
  "query_index_range q l r =
     (if r < l \<or> length (rmq_values q) \<le> r \<or> rmq_block_size q = 0 then Panic
      else let l_block = l div rmq_block_size q; r_block = r div rmq_block_size q in
      if l_block = r_block then slice_summary q l r
      else let l_block_end = (l_block + 1) * rmq_block_size q - 1; r_block_start = r_block * rmq_block_size q in
        and_then (slice_summary q l (min l_block_end r)) (\<lambda>result.
        and_then (if l_block < r_block then and_then (slice_summary q r_block_start r) (\<lambda>part. Ok (mm_combine result part)) else Ok result) (\<lambda>result.
        if r_block = 0 then Panic
        else if l_block + 1 \<le> r_block - 1
          then and_then (query_blocks q (l_block + 1) (r_block - 1)) (\<lambda>middle. Ok (mm_combine result middle))
          else Ok result)))"

definition rmq_query_time_range :: "('f :: linorder) signal_rmq \<Rightarrow> nat \<Rightarrow> nat \<Rightarrow> ('e, 'f min_max option) outcome" where
  "rmq_query_time_range q t_start t_end =
     (if t_end < t_start then Ok None
      else let l = (case binary_search (rmq_timestamps q) t_start of Inl i \<Rightarrow> i | Inr i \<Rightarrow> i) in
      case (case binary_search (rmq_timestamps q) t_end of Inl i \<Rightarrow> Some i | Inr i \<Rightarrow> if i = 0 then None else Some (i - 1)) of
        None \<Rightarrow> Ok None
      | Some r \<Rightarrow> if r < l \<or> length (rmq_values q) \<le> l then Ok None
          else and_then (query_index_range q l r) (\<lambda>m. Ok (Some m)))"

definition time_range :: "'f signal_rmq \<Rightarrow> (nat \<times> nat) option" where
  "time_range q = (if rmq_timestamps q = [] then None else Some (hd (rmq_timestamps q), last (rmq_timestamps q)))"

record 'f cache_query_result =
  cq_current :: "(nat \<times> 'f sample) option"
  cq_next :: "nat option"

definition sample_at :: "'f signal_rmq \<Rightarrow> nat \<Rightarrow> ('e, nat \<times> 'f sample) outcome" where
  "sample_at q i = (case (get (rmq_timestamps q) i, get (rmq_values q) i) of (Some t, Some v) \<Rightarrow> Ok (t, v) | _ \<Rightarrow> Panic)"

definition rmq_query_at_time :: "'f signal_rmq \<Rightarrow> nat \<Rightarrow> ('e, 'f cache_query_result) outcome" where
  "rmq_query_at_time q time = (case binary_search (rmq_timestamps q) time of
     Inl idx \<Rightarrow> and_then (sample_at q idx) (\<lambda>c. Ok \<lparr>cq_current = Some c, cq_next = get (rmq_timestamps q) (idx + 1)\<rparr>)
   | Inr idx \<Rightarrow> if idx = 0 then Ok \<lparr>cq_current = None, cq_next = get (rmq_timestamps q) 0\<rparr>
       else and_then (sample_at q (idx - 1)) (\<lambda>c. Ok \<lparr>cq_current = Some c, cq_next = get (rmq_timestamps q) idx\<rparr>))"

subsection \<open>The cache and its entry\<close>

record 'f analog_signal_cache =
  sc_rmq :: "'f signal_rmq"
  sc_global_min :: "'f extended"
  sc_global_max :: "'f extended"
  sc_max_timestamp :: nat

text \<open>\<open>signal\<close> are the accessor's changes and \<open>numeric\<close> is the translator's numeric translation.\<close>

definition cache_samples :: "('v \<Rightarrow> 'f sample option) \<Rightarrow> (nat \<times> 'v) list \<Rightarrow> (nat \<times> 'f sample) list" where
  "cache_samples numeric signal = map (\<lambda>(t, v). (t, case numeric v of Some x \<Rightarrow> x | None \<Rightarrow> NanUndef)) signal"

definition cache_build :: "(nat \<times> 'v) list \<Rightarrow> ('v \<Rightarrow> ('f :: linorder) sample option) \<Rightarrow> nat \<Rightarrow> nat option
    \<Rightarrow> ('e, 'f analog_signal_cache option) outcome" where
  "cache_build signal numeric max_timestamp block_size =
     (let signal_data = cache_samples numeric signal in
      if signal_data = [] then Ok None
      else and_then (rmq_new signal_data (case block_size of Some b \<Rightarrow> b | None \<Rightarrow> 64)) (\<lambda>rmq.
        case time_range rmq of None \<Rightarrow> Ok None
        | Some (first_time, last_time) \<Rightarrow>
            and_then (rmq_query_time_range rmq first_time last_time) (\<lambda>global.
            Ok (case global of None \<Rightarrow> None
              | Some g \<Rightarrow> Some \<lparr>sc_rmq = rmq, sc_global_min = mm_min g, sc_global_max = mm_max g, sc_max_timestamp = max_timestamp\<rparr>))))"

definition cache_query_time_range :: "('f :: linorder) analog_signal_cache \<Rightarrow> nat \<Rightarrow> nat \<Rightarrow> ('e, ('f sample \<times> 'f sample) option) outcome" where
  "cache_query_time_range c t_start t_end = and_then (rmq_query_time_range (sc_rmq c) t_start t_end) (\<lambda>r.
     Ok (map_option (\<lambda>m. if mm_has_non_finite m then (Num (mm_min m), NanUndef) else (Num (mm_min m), Num (mm_max m))) r))"

definition cache_query_at_time :: "'f analog_signal_cache \<Rightarrow> nat \<Rightarrow> ('e, 'f cache_query_result) outcome" where
  "cache_query_at_time c time = rmq_query_at_time (sc_rmq c) time"

record ('k, 'f) analog_cache_entry =
  ce_inner :: "'f analog_signal_cache option"
  ce_cache_key :: 'k
  ce_generation :: nat

definition entry_new :: "'k \<Rightarrow> nat \<Rightarrow> ('k, 'f) analog_cache_entry" where
  "entry_new cache_key generation = \<lparr>ce_inner = None, ce_cache_key = cache_key, ce_generation = generation\<rparr>"

definition is_ready :: "('k, 'f) analog_cache_entry \<Rightarrow> bool" where
  "is_ready e \<longleftrightarrow> ce_inner e \<noteq> None"

definition entry_set :: "'f analog_signal_cache \<Rightarrow> ('k, 'f) analog_cache_entry \<Rightarrow> ('k, 'f) analog_cache_entry" where
  "entry_set cache e = (case ce_inner e of None \<Rightarrow> e\<lparr>ce_inner := Some cache\<rparr> | Some _ \<Rightarrow> e)"

subsection \<open>Summaries of sets of samples\<close>

text \<open>
  What a table entry stands for: the least and greatest finite value of a set of samples and whether some value is not
  finite.
\<close>

definition finite_values :: "'f sample set \<Rightarrow> 'f set" where
  "finite_values V = {x. Num (Finite x) \<in> V}"

definition summary :: "('f :: linorder) sample set \<Rightarrow> 'f min_max" where
  "summary V = (let F = finite_values V in
     \<lparr>mm_min = (if F = {} then PosInfinity else Finite (Min F)), mm_max = (if F = {} then NegInfinity else Finite (Max F)),
      mm_has_non_finite = (\<exists>v \<in> V. \<forall>x. v \<noteq> Num (Finite x))\<rparr>)"

lemma finite_values_simps [simp]: "finite_values {} = {}" "finite_values (A \<union> B) = finite_values A \<union> finite_values B"
  "finite_values {v} = (case v of Num (Finite x) \<Rightarrow> {x} | _ \<Rightarrow> {})"
  by (auto simp: finite_values_def split: numeric.splits extended.splits)

lemma finite_finite_values [simp]: "finite V \<Longrightarrow> finite (finite_values V)"
proof -
  assume "finite V"
  then have "finite ((\<lambda>x. Num (Finite x)) ` finite_values V)" by (rule rev_finite_subset) (auto simp: finite_values_def)
  then show ?thesis by (rule finite_imageD) (simp add: inj_on_def)
qed

lemma summary_single: "summary {v} = mm_new v"
  by (simp add: summary_def mm_new_def Let_def split: numeric.splits extended.splits)

lemma ext_min_simps [simp]: "ext_min PosInfinity a = a" "ext_min a PosInfinity = a" "ext_min (Finite x) (Finite y) = Finite (min x y)"
  "ext_max NegInfinity a = a" "ext_max a NegInfinity = a" "ext_max (Finite x) (Finite y) = Finite (max x y)"
  by (cases a; simp add: ext_min_def ext_max_def min_def max_def)+

lemma summary_union: "finite A \<Longrightarrow> finite B \<Longrightarrow> mm_combine (summary A) (summary B) = summary (A \<union> B)"
  by (auto simp: mm_combine_def summary_def Let_def Min_Un Max_Un)

lemma summary_fold: "foldl (\<lambda>acc v. mm_combine acc (mm_new v)) (summary (set us)) vs = summary (set us \<union> set vs)"
proof (induction vs arbitrary: us)
  case (Cons v vs)
  have "mm_combine (summary (set us)) (mm_new v) = summary (set (v # us))"
    using summary_union[of "set us" "{v}"] by (simp add: summary_single)
  then show ?case using Cons[of "v # us"] by simp
qed simp

lemma from_slice_summary: "vs \<noteq> [] \<Longrightarrow> mm_from_slice vs = Ok (summary (set vs))"
  using summary_fold[of "[hd vs]" vs] by (cases vs) (simp_all add: summary_single insert_absorb)

subsection \<open>The sparse table\<close>

lemma halves: "p \<le> n div 2 \<and> n div 2 < 2 * p \<Longrightarrow> 2 * p \<le> n \<and> n < 4 * p" for n p :: nat
  by (simp add: less_eq_div_iff_mult_less_eq div_less_iff_less_mult)

lemma log2_floor_bounds: "0 < n \<Longrightarrow> 2 ^ log2_floor n \<le> n \<and> n < 2 * 2 ^ log2_floor n"
proof (induction n rule: log2_floor.induct)
  case (1 n)
  show ?case
  proof (cases "n < 2")
    case True
    with 1 show ?thesis by (simp add: log2_floor.simps[of n])
  next
    case False
    then have "2 ^ log2_floor (n div 2) \<le> n div 2 \<and> n div 2 < 2 * 2 ^ log2_floor (n div 2)" using 1 by simp
    then have "2 * 2 ^ log2_floor (n div 2) \<le> n \<and> n < 4 * 2 ^ log2_floor (n div 2)" by (rule halves)
    then show ?thesis using False by (simp add: log2_floor.simps[of n])
  qed
qed

lemma log2_floor_mono: "0 < m \<Longrightarrow> m \<le> n \<Longrightarrow> log2_floor m \<le> log2_floor n"
proof (rule ccontr)
  assume m: "0 < m" "m \<le> n" "\<not> log2_floor m \<le> log2_floor n"
  then have "2 * 2 ^ log2_floor n \<le> (2 :: nat) ^ log2_floor m" by (metis Suc_leI not_le power_Suc power_increasing one_le_numeral)
  then show False using log2_floor_bounds[of m] log2_floor_bounds[of n] m by simp
qed

text \<open>Row \<open>k\<close> of a table holds at \<open>i\<close> the summary of the union of up to \<open>2 ^ k\<close> sets from \<open>i\<close> on.\<close>

definition row_ok :: "('f :: linorder) sample set list \<Rightarrow> nat \<Rightarrow> 'f min_max list \<Rightarrow> bool" where
  "row_ok bs k row \<longleftrightarrow> length row = length bs \<and> (\<forall>i < length bs. row ! i = summary (\<Union> (set (slice_range i (min (i + 2 ^ k) (length bs)) bs))))"

lemma slice_append: "a \<le> b \<Longrightarrow> b \<le> c \<Longrightarrow> c \<le> length xs \<Longrightarrow> slice_range a b xs @ slice_range b c xs = slice_range a c xs"
  using take_add[of "b - a" "c - b" "drop a xs"] by (simp add: slice_range_def)

lemma next_row:
  assumes "row_ok bs k row" "\<forall>b \<in> set bs. finite b"
  shows "row_ok bs (Suc k) (next_level (2 ^ k) row)"
proof -
  have l: "length row = length bs" using assms(1) by (simp add: row_ok_def)
  have fin: "finite (\<Union> (set (slice_range i j bs)))" for i j
    using assms(2) by (auto simp: slice_range_def dest: in_set_takeD in_set_dropD)
  have "next_level (2 ^ k) row ! i = summary (\<Union> (set (slice_range i (min (i + 2 ^ Suc k) (length bs)) bs)))" if i: "i < length bs" for i
  proof (cases "i + 2 ^ k < length bs")
    case True
    let ?m = "i + 2 ^ k" and ?e = "min (i + 2 ^ Suc k) (length bs)"
    have "next_level (2 ^ k) row ! i = mm_combine (row ! i) (row ! ?m)" using True i l by (simp add: next_level_def get_def)
    also have "row ! i = summary (\<Union> (set (slice_range i ?m bs)))" using assms(1) True i by (simp add: row_ok_def)
    also have "row ! ?m = summary (\<Union> (set (slice_range ?m ?e bs)))" using assms(1) True by (simp add: row_ok_def add.assoc mult_2)
    also have "mm_combine (summary (\<Union> (set (slice_range i ?m bs)))) (summary (\<Union> (set (slice_range ?m ?e bs))))
        = summary (\<Union> (set (slice_range i ?m bs @ slice_range ?m ?e bs)))" using fin by (simp add: summary_union)
    also have "slice_range i ?m bs @ slice_range ?m ?e bs = slice_range i ?e bs" using True by (intro slice_append) auto
    finally show ?thesis .
  next
    case False
    then have "next_level (2 ^ k) row ! i = row ! i" using i l by (simp add: next_level_def get_def)
    moreover have "min (i + 2 ^ k) (length bs) = min (i + 2 ^ Suc k) (length bs)" using False by auto
    ultimately show ?thesis using assms(1) i by (simp add: row_ok_def)
  qed
  then show ?thesis by (simp add: row_ok_def next_level_def l)
qed

lemma table_rows: "row_ok bs k row \<Longrightarrow> \<forall>b \<in> set bs. finite b \<Longrightarrow>
    length (table_levels n k row) = Suc n \<and> (\<forall>j \<le> n. row_ok bs (k + j) (table_levels n k row ! j))"
proof (induction n arbitrary: k row)
  case (Suc n)
  then show ?case using Suc.IH[OF next_row[OF Suc.prems] Suc.prems(2)] by (auto simp: nth_Cons split: nat.splits)
qed simp

lemma first_row: "row_ok bs 0 (map summary bs)"
  by (auto simp: row_ok_def slice_range_def min_def take_Suc hd_drop_conv_nth)

subsection \<open>The queries answer from the samples\<close>

definition block_set :: "'f sample list \<Rightarrow> nat \<Rightarrow> nat \<Rightarrow> 'f sample set" where
  "block_set vs b i = set (slice_range (i * b) (min (i * b + b) (length vs)) vs)"

definition block_sets :: "'f sample list \<Rightarrow> nat \<Rightarrow> 'f sample set list" where
  "block_sets vs b = map (block_set vs b) [0 ..< ceil_div (length vs) b]"

definition built :: "(nat \<times> ('f :: linorder) sample) list \<Rightarrow> nat \<Rightarrow> 'f signal_rmq" where
  "built data b = \<lparr>rmq_timestamps = map fst data, rmq_values = map snd data, rmq_block_size = b,
     rmq_sparse_table = table_levels (log2_floor (length (block_sets (map snd data) b))) 0 (map summary (block_sets (map snd data) b))\<rparr>"

lemma block_in_range: "0 < b \<Longrightarrow> i < ceil_div n b \<longleftrightarrow> i * b < n" for n b i :: nat
proof -
  assume b: "0 < b"
  have "i < ceil_div n b \<longleftrightarrow> Suc i * b \<le> n + b - 1" using b unfolding ceil_div_def Suc_le_eq[symmetric] by (subst less_eq_div_iff_mult_less_eq) simp_all
  also have "\<dots> \<longleftrightarrow> i * b < n" using b by auto
  finally show ?thesis .
qed

lemma collect_Ok: "\<forall>x \<in> set xs. f x = Ok (g x) \<Longrightarrow> collect_outcomes (map f xs) = Ok (map g xs)"
  by (induction xs) auto

lemma block_sets_facts: "0 < b \<Longrightarrow> vs \<noteq> [] \<Longrightarrow> 0 < length (block_sets vs b)" "\<forall>B \<in> set (block_sets vs b). finite B"
  "0 < b \<Longrightarrow> i < length (block_sets vs b) \<longleftrightarrow> i * b < length vs"
  using block_in_range[of b 0 "length vs"] by (auto simp: block_sets_def block_set_def block_in_range)

lemma block_summaries_Ok: "0 < b \<Longrightarrow> block_summaries vs b = Ok (map summary (block_sets vs b))"
proof -
  assume b: "0 < b"
  have "mm_from_slice (slice_range (i * b) (min (i * b + b) (length vs)) vs) = Ok (summary (block_set vs b i))"
    if "i < ceil_div (length vs) b" for i
  proof -
    have "length (slice_range (i * b) (min (i * b + b) (length vs)) vs) > 0" using that b block_in_range[OF b] by (subst length_slice) auto
    then show ?thesis by (simp add: from_slice_summary block_set_def del: length_slice)
  qed
  then show ?thesis using b unfolding block_summaries_def block_sets_def map_map by (auto simp: Let_def comp_def intro!: collect_Ok)
qed

lemma rmq_new_Ok: "\<lbrakk>sorted_wrt (<) (map fst data); data \<noteq> []; 0 < b\<rbrakk> \<Longrightarrow> rmq_new data b = Ok (built data b)"
  using block_sets_facts(1)[of b "map snd data"]
  by (simp add: rmq_new_def block_summaries_Ok build_sparse_table_def ilog2_def built_def)

lemma table_at_Ok:
  assumes "0 < b" "j \<le> log2_floor (length (block_sets (map snd data) b))" "i < length (block_sets (map snd data) b)"
  shows "table_at (built data b) j i = Ok (summary (\<Union> (set (slice_range i (min (i + 2 ^ j) (length (block_sets (map snd data) b))) (block_sets (map snd data) b)))))"
proof -
  let ?bs = "block_sets (map snd data) b"
  have "length (table_levels (log2_floor (length ?bs)) 0 (map summary ?bs)) = Suc (log2_floor (length ?bs))"
    "row_ok ?bs j (table_levels (log2_floor (length ?bs)) 0 (map summary ?bs) ! j)"
    using table_rows[OF first_row block_sets_facts(2)] assms(2) by force+
  then show ?thesis using assms(2,3) by (simp add: table_at_def built_def row_ok_def get_in_range)
qed

lemma slice_cover:
  assumes "a \<le> b" "c \<le> b" "a \<le> c" "b \<le> d" "d \<le> length xs"
  shows "set (slice_range a b xs) \<union> set (slice_range c d xs) = set (slice_range a d xs)"
proof -
  have "b \<le> length xs" using assms by simp
  then have e: "set (slice_range a b xs) = {xs ! i |i. a \<le> i \<and> i < b}" "set (slice_range c d xs) = {xs ! i |i. c \<le> i \<and> i < d}"
    "set (slice_range a d xs) = {xs ! i |i. a \<le> i \<and> i < d}" using assms by (simp_all add: set_slice_nth)
  have "a \<le> i \<and> i < d \<longleftrightarrow> a \<le> i \<and> i < b \<or> c \<le> i \<and> i < d" for i using assms by auto
  then show ?thesis unfolding e by blast
qed

lemma query_blocks_Ok:
  assumes "0 < b" "0 < l" "l \<le> r" "r < length (block_sets (map snd data) b)"
  shows "query_blocks (built data b) l r = Ok (summary (\<Union> (set (slice_range l (r + 1) (block_sets (map snd data) b)))))"
proof (cases "l = r")
  case True
  then show ?thesis using assms table_at_Ok[OF assms(1), of 0 data r] by (simp add: query_blocks_def min_def)
next
  case False
  let ?bs = "block_sets (map snd data) b" and ?k = "log2_floor (r - l + 1)"
  have k: "2 ^ ?k \<le> r - l + 1" "r - l + 1 < 2 * 2 ^ ?k" using log2_floor_bounds[of "r - l + 1"] by simp_all
  have kl: "?k \<le> log2_floor (length ?bs)" using assms by (intro log2_floor_mono) auto
  have fin: "finite (\<Union> (set (slice_range i j ?bs)))" for i j
    using block_sets_facts(2)[of "map snd data" b] by (auto simp: slice_range_def dest: in_set_takeD in_set_dropD)
  have left: "table_at (built data b) ?k l = Ok (summary (\<Union> (set (slice_range l (l + 2 ^ ?k) ?bs))))"
    using table_at_Ok[OF assms(1) kl, of l] assms k by (simp add: min_def split: if_splits)
  have right: "table_at (built data b) ?k (r - 2 ^ ?k + 1) = Ok (summary (\<Union> (set (slice_range (r - 2 ^ ?k + 1) (r + 1) ?bs))))"
  proof -
    have "r - 2 ^ ?k + 1 < length ?bs" "min (r - 2 ^ ?k + 1 + 2 ^ ?k) (length ?bs) = r + 1" using assms k by auto
    then show ?thesis using table_at_Ok[OF assms(1) kl, of "r - 2 ^ ?k + 1"] by simp
  qed
  have "set (slice_range l (l + 2 ^ ?k) ?bs) \<union> set (slice_range (r - 2 ^ ?k + 1) (r + 1) ?bs) = set (slice_range l (r + 1) ?bs)"
    using assms k by (intro slice_cover) auto
  then have "mm_combine (summary (\<Union> (set (slice_range l (l + 2 ^ ?k) ?bs)))) (summary (\<Union> (set (slice_range (r - 2 ^ ?k + 1) (r + 1) ?bs))))
      = summary (\<Union> (set (slice_range l (r + 1) ?bs)))" using fin by (simp add: summary_union flip: Union_Un_distrib)
  moreover have "\<not> r < 2 ^ ?k" using assms k by auto
  moreover have "query_blocks (built data b) l r = and_then (table_at (built data b) ?k l) (\<lambda>left. if r < 2 ^ ?k then Panic
      else and_then (table_at (built data b) ?k (r - 2 ^ ?k + 1)) (\<lambda>right. Ok (mm_combine left right)))"
    using False assms by (simp add: query_blocks_def ilog2_def Let_def cong: if_cong)
  ultimately show ?thesis by (simp only: left right and_then.simps if_False)
qed

lemma slice_one: "l < length xs \<Longrightarrow> set (slice_range l (Suc l) xs) = {xs ! l}"
  by (simp add: slice_range_def take_Suc hd_drop_conv_nth)

lemma blocks_union:
  assumes "0 < b" "l \<le> r" "r < length (block_sets vs b)"
  shows "\<Union> (set (slice_range l (r + 1) (block_sets vs b))) = set (slice_range (l * b) (min (r * b + b) (length vs)) vs)"
  using assms(2,3)
proof (induction "r - l" arbitrary: r)
  case 0
  then have r: "r = l" by simp
  have "set (slice_range l (l + 1) (block_sets vs b)) = {block_sets vs b ! l}" using 0 r by (simp add: slice_one)
  then show ?case using 0 r by (simp add: block_sets_def block_set_def)
next
  case (Suc k)
  then obtain r' where r: "r = r' + 1" by (cases r) auto
  have r': "l \<le> r'" "r' < length (block_sets vs b)" "k = r' - l" using Suc r by auto
  have rb: "r * b < length vs" using Suc.prems(2) unfolding block_sets_facts(3)[OF assms(1)] .
  have "set (slice_range l (r + 1) (block_sets vs b)) = set (slice_range l (r' + 1) (block_sets vs b)) \<union> set (slice_range r (r + 1) (block_sets vs b))"
    using Suc.prems r' r by (subst slice_cover) auto
  moreover have "set (slice_range r (r + 1) (block_sets vs b)) = {block_set vs b r}"
    using Suc.prems by (simp add: slice_one) (simp add: block_sets_def)
  ultimately have "\<Union> (set (slice_range l (r + 1) (block_sets vs b))) =
      set (slice_range (l * b) (min (r' * b + b) (length vs)) vs) \<union> block_set vs b r"
    using Suc(1)[OF r'(3,1,2)] by (simp add: Un_commute)
  also have "min (r' * b + b) (length vs) = r * b" using rb r by simp
  also have "set (slice_range (l * b) (r * b) vs) \<union> block_set vs b r = set (slice_range (l * b) (min (r * b + b) (length vs)) vs)"
    unfolding block_set_def using rb Suc.prems by (intro slice_cover) auto
  finally show ?case .
qed

lemma built_simps: "rmq_values (built data b) = map snd data" "rmq_block_size (built data b) = b" "rmq_timestamps (built data b) = map fst data"
  by (simp_all add: built_def)

lemma slice_summary_Ok: "a \<le> e \<Longrightarrow> e < length data \<Longrightarrow> slice_summary (built data b) a e = Ok (summary (set (slice_range a (e + 1) (map snd data))))"
proof -
  assume a: "a \<le> e" "e < length data"
  have "length (slice_range a (e + 1) (map snd data)) > 0" using a by (subst length_slice) auto
  then show ?thesis using a by (simp add: slice_summary_def built_def from_slice_summary del: length_slice)
qed

lemma query_index_Ok:
  assumes b: "0 < b" and l: "l \<le> r" "r < length data"
  shows "query_index_range (built data b) l r = Ok (summary (set (slice_range l (r + 1) (map snd data))))"
proof (cases "l div b = r div b")
  case True
  then show ?thesis using assms slice_summary_Ok[OF l, of b] by (simp add: query_index_range_def built_def)
next
  case False
  let ?vs = "map snd data" and ?lb = "l div b" and ?rb = "r div b"
  have lr: "?lb < ?rb" using False l by (simp add: div_le_mono order_le_neq_trans)
  then have e: "?lb * b + b \<le> ?rb * b" by (metis Suc_leI mult_Suc mult_le_mono1 add.commute)
  have bounds: "?lb * b \<le> l" "l < ?lb * b + b" "?rb * b \<le> r" "r < ?rb * b + b"
    using b dividend_less_div_times[of b l] dividend_less_div_times[of b r] by simp_all
  have first: "slice_summary (built data b) l (min ((?lb + 1) * b - 1) r) = Ok (summary (set (slice_range l (?lb * b + b) ?vs)))"
  proof -
    have "min ((?lb + 1) * b - 1) r = ?lb * b + b - 1" "l \<le> ?lb * b + b - 1" "?lb * b + b - 1 < length data" "?lb * b + b - 1 + 1 = ?lb * b + b"
      using le_trans[OF e bounds(3)] bounds(2) l b by auto
    then show ?thesis using slice_summary_Ok[of l "?lb * b + b - 1" data b] by simp
  qed
  have last: "slice_summary (built data b) (?rb * b) r = Ok (summary (set (slice_range (?rb * b) (r + 1) ?vs)))"
    using bounds l by (intro slice_summary_Ok) auto
  let ?ends = "set (slice_range l (?lb * b + b) ?vs) \<union> set (slice_range (?rb * b) (r + 1) ?vs)"
  have q: "query_index_range (built data b) l r = (if ?lb + 1 \<le> ?rb - 1
      then and_then (query_blocks (built data b) (?lb + 1) (?rb - 1)) (\<lambda>middle. Ok (mm_combine (summary ?ends) middle)) else Ok (summary ?ends))"
    using l b lr by (simp add: query_index_range_def Let_def first last summary_union built_simps del: One_nat_def cong: if_cong)
  show ?thesis
  proof (cases "?lb + 1 \<le> ?rb - 1")
    case True
    have rb: "?rb - 1 < length (block_sets ?vs b)"
    proof -
      have "(?rb - 1) * b < length ?vs" using mult_le_mono1[of "?rb - 1" ?rb b] bounds(3) l(2) by (metis diff_le_self le_trans length_map not_le)
      then show ?thesis using block_sets_facts(3)[OF b] by blast
    qed
    have m: "query_blocks (built data b) (?lb + 1) (?rb - 1) = Ok (summary (set (slice_range (?lb * b + b) (?rb * b) ?vs)))"
    proof -
      have "min ((?rb - 1) * b + b) (length ?vs) = ?rb * b" "(?lb + 1) * b = ?lb * b + b"
        using lr le_less_trans[OF bounds(3) l(2)] by (auto simp: diff_mult_distrib)
      then show ?thesis using query_blocks_Ok[OF b _ True rb] blocks_union[OF b True rb] by (simp add: add.commute)
    qed
    have "?ends \<union> set (slice_range (?lb * b + b) (?rb * b) ?vs) = set (slice_range l (r + 1) ?vs)"
    proof -
      have "set (slice_range l (?lb * b + b) ?vs) \<union> set (slice_range (?lb * b + b) (?rb * b) ?vs) = set (slice_range l (?rb * b) ?vs)"
        using bounds(1,2) e l(1) le_less_trans[OF bounds(3) l(2)] by (intro slice_cover) auto
      moreover have "set (slice_range l (?rb * b) ?vs) \<union> set (slice_range (?rb * b) (r + 1) ?vs) = set (slice_range l (r + 1) ?vs)"
        using bounds(1,2) e l le_SucI[OF bounds(3)] by (intro slice_cover) auto
      ultimately show ?thesis by auto
    qed
    then show ?thesis unfolding q using True by (simp add: m summary_union del: One_nat_def)
  next
    case False
    then have "?rb = ?lb + 1" using lr by simp
    then have "?ends = set (slice_range l (r + 1) ?vs)" using bounds l by (intro slice_cover) auto
    then show ?thesis unfolding q using False by simp
  qed
qed

text \<open>The bisection of the times: everything before the place found is earlier, everything from it on is not.\<close>

lemma partition_sorted:
  assumes "sorted_wrt (<) ts" "i < length ts"
  shows "i < partition_point (\<lambda>y. y < x) ts \<longleftrightarrow> ts ! i < (x :: nat)"
proof
  assume "ts ! i < x"
  show "i < partition_point (\<lambda>y. y < x) ts"
  proof (rule ccontr)
    assume n: "\<not> i < partition_point (\<lambda>y. y < x) ts"
    let ?p = "partition_point (\<lambda>y. y < x) ts"
    have "?p < length ts" using n assms by simp
    then have "x \<le> ts ! ?p" using partition_point_at[of "\<lambda>y. y < x" ts] by simp
    moreover have "ts ! ?p \<le> ts ! i" using assms n by (cases "?p = i") (auto simp: sorted_wrt_iff_nth_less intro: less_imp_le)
    ultimately show False using \<open>ts ! i < x\<close> by simp
  qed
qed (rule partition_point_before)

definition in_range :: "(nat \<times> 'f sample) list \<Rightarrow> nat \<Rightarrow> nat \<Rightarrow> 'f sample set" where
  "in_range data a e = {v. \<exists>t. (t, v) \<in> set data \<and> a \<le> t \<and> t \<le> e}"

text \<open>The places of the first sample not before \<open>a\<close> and of the last one not after \<open>e\<close>.\<close>

lemma last_place:
  assumes "sorted_wrt (<) ts" "i < length ts"
  shows "(case binary_search ts e of Inl k \<Rightarrow> i \<le> k | Inr k \<Rightarrow> i < k) \<longleftrightarrow> ts ! i \<le> e"
proof (cases "get ts (partition_point (\<lambda>y. y < e) ts) = Some e")
  case True
  let ?p = "partition_point (\<lambda>y. y < e) ts"
  have p: "?p < length ts" "ts ! ?p = e" using True by simp_all
  have "i \<le> ?p \<longleftrightarrow> ts ! i \<le> e"
  proof (cases "i = ?p")
    case False
    have "i < ?p \<or> ?p < i" using False by auto
    then have "(i < ?p \<and> ts ! i < e) \<or> (?p < i \<and> e < ts ! i)" using partition_point_before[of i "\<lambda>y. y < e" ts] assms p
        sorted_wrt_nth_less[OF assms(1), of ?p i] by auto
    then show ?thesis by auto
  qed (use p in auto)
  then show ?thesis using True by (simp add: binary_search_def Let_def)
next
  case False
  let ?p = "partition_point (\<lambda>y. y < e) ts"
  have "ts ! i \<noteq> e"
  proof
    assume t: "ts ! i = e"
    then have "\<not> i < ?p" using partition_sorted[OF assms] by simp
    then have p: "?p < length ts" "?p \<le> i" using assms by simp_all
    moreover have "e \<le> ts ! ?p" using p partition_point_at[of "\<lambda>y. y < e" ts] by simp
    moreover have "?p < i \<Longrightarrow> ts ! ?p < ts ! i" using assms by (auto simp: sorted_wrt_iff_nth_less)
    ultimately show False using t False by (cases "?p = i") auto
  qed
  moreover have "binary_search ts e = Inr ?p" using False unfolding binary_search_def Let_def by simp
  ultimately show ?thesis using partition_sorted[OF assms, of e] by auto
qed

lemma range_places:
  assumes s: "sorted_wrt (<) (map fst data)" and "l = partition_point (\<lambda>y. y < a) (map fst data)"
    and r: "\<And>i. i < length data \<Longrightarrow> i < r' \<longleftrightarrow> fst (data ! i) \<le> e" "r' \<le> length data"
  shows "set (slice_range l r' (map snd data)) = in_range data a e"
proof -
  have l: "i < length data \<Longrightarrow> l \<le> i \<longleftrightarrow> a \<le> fst (data ! i)" for i
    using partition_sorted[OF s, of i a] assms(2) by auto
  have "set (slice_range l r' (map snd data)) = {map snd data ! i |i. l \<le> i \<and> i < r'}" using r(2) by (simp add: set_slice_nth)
  also have "\<dots> = in_range data a e"
  proof (intro set_eqI iffI)
    fix v assume "v \<in> {map snd data ! i |i. l \<le> i \<and> i < r'}"
    then obtain i where "v = map snd data ! i" "l \<le> i" "i < r'" by blast
    moreover then have "i < length data" using r(2) by simp
    ultimately show "v \<in> in_range data a e" unfolding in_range_def using l r(1)[of i] nth_mem[of i data]
      by (auto intro!: exI[of _ "fst (data ! i)"])
  next
    fix v assume "v \<in> in_range data a e"
    then obtain i where "i < length data" "snd (data ! i) = v" "a \<le> fst (data ! i)" "fst (data ! i) \<le> e"
      unfolding in_range_def by (auto simp: in_set_conv_nth)
    then show "v \<in> {map snd data ! i |i. l \<le> i \<and> i < r'}" using l[of i] r(1)[of i] by (auto intro!: exI[of _ i])
  qed
  finally show ?thesis .
qed

lemma query_time_range_Ok:
  assumes s: "sorted_wrt (<) (map fst data)" and b: "0 < b"
  shows "rmq_query_time_range (built data b) a e = Ok (if in_range data a e = {} then None else Some (summary (in_range data a e)))"
proof (cases "e < a")
  case True
  then show ?thesis by (auto simp: rmq_query_time_range_def in_range_def)
next
  case False
  let ?ts = "map fst data"
  define l where "l = partition_point (\<lambda>y. y < a) ?ts"
  define r' where "r' = (case binary_search ?ts e of Inl k \<Rightarrow> k + 1 | Inr k \<Rightarrow> k)"
  have rp: "i < length data \<Longrightarrow> i < r' \<longleftrightarrow> fst (data ! i) \<le> e" for i
    using last_place[OF s, of i e] by (auto simp: r'_def less_Suc_eq_le split: sum.splits)
  have rl: "r' \<le> length data"
    using partition_point_le[of "\<lambda>y. y < e" ?ts] by (auto simp: r'_def binary_search_def Let_def)
  note places = range_places[OF s l_def rp rl]
  have bl: "(case binary_search ?ts a of Inl i \<Rightarrow> i | Inr i \<Rightarrow> i) = l" by (simp add: binary_search_def l_def Let_def)
  have br: "(case binary_search ?ts e of Inl i \<Rightarrow> Some i | Inr i \<Rightarrow> if i = 0 then None else Some (i - 1)) = (if r' = 0 then None else Some (r' - 1))"
    by (auto simp: r'_def split: sum.splits)
  have ts: "rmq_timestamps (built data b) = ?ts" "length (rmq_values (built data b)) = length data" by (simp_all add: built_def)
  have q: "rmq_query_time_range (built data b) a e = (if r' = 0 then Ok None
      else if r' - 1 < l \<or> length data \<le> l then Ok None else and_then (query_index_range (built data b) l (r' - 1)) (\<lambda>m. Ok (Some m)))"
    using False unfolding rmq_query_time_range_def ts bl br by simp
  show ?thesis
  proof (cases "l < r'")
    case True
    then have "\<not> (r' - 1 < l \<or> length data \<le> l)" "r' \<noteq> 0" "r' - 1 < length data" "Suc (r' - 1) = r'" using rl by auto
    moreover have "in_range data a e \<noteq> {}" using True rl arg_cong[OF places, of "\<lambda>X. X = {}"]
      by (simp add: slice_range_def)
    ultimately show ?thesis unfolding q using places by (simp add: query_index_Ok[OF b] del: One_nat_def)
  next
    case False
    then have "in_range data a e = {}" using places by (simp add: slice_range_def)
    then show ?thesis unfolding q using False by auto
  qed
qed

text \<open>
  C20. The table refines a search through all samples. From samples in order of time, in blocks of any size but zero, it is built
  without a panic, and every query of it answers with the least and greatest finite value among the samples in the range of
  times and whether some sample there is not finite; nothing when no sample is in the range.
\<close>

theorem range_query_refines:
  assumes "sorted_wrt (<) (map fst data)" "data \<noteq> []" "0 < block_size"
  shows "\<exists>q. rmq_new data block_size = Ok q \<and> (\<forall>a e. rmq_query_time_range q a e =
    Ok (if in_range data a e = {} then None else Some (summary (in_range data a e))))"
  using rmq_new_Ok[OF assms] query_time_range_Ok[OF assms(1,3)] by blast

theorem range_query_refines_witness: "\<exists>q. rmq_new [(1, Num (Finite (5 :: nat))), (4, NanUndef), (9, Num (Finite (2 :: nat)))] 2 = Ok q
    \<and> (\<forall>a e. rmq_query_time_range q a e = Ok (if in_range [(1, Num (Finite (5 :: nat))), (4, NanUndef), (9, Num (Finite (2 :: nat)))] a e = {} then None
        else Some (summary (in_range [(1, Num (Finite (5 :: nat))), (4, NanUndef), (9, Num (Finite (2 :: nat)))] a e))))"
  by (rule range_query_refines) simp_all

text \<open>The value at a time and the next change.\<close>

definition sample_before :: "(nat \<times> 'f sample) list \<Rightarrow> nat \<Rightarrow> (nat \<times> 'f sample) option" where
  "sample_before data t = (let ds = filter (\<lambda>d. fst d \<le> t) data in if ds = [] then None else Some (last ds))"

definition change_after :: "(nat \<times> 'f sample) list \<Rightarrow> nat \<Rightarrow> nat option" where
  "change_after data t = (case filter (\<lambda>d. t < fst d) data of [] \<Rightarrow> None | d # _ \<Rightarrow> Some (fst d))"

lemma filter_split:
  assumes "\<And>i. i < length xs \<Longrightarrow> P (xs ! i) \<longleftrightarrow> i < k" "k \<le> length xs"
  shows "filter P xs = take k xs" "filter (\<lambda>x. \<not> P x) xs = drop k xs"
proof -
  have t: "\<forall>x \<in> set (take k xs). P x" "\<forall>x \<in> set (drop k xs). \<not> P x"
    using assms by (auto simp: in_set_conv_nth)
  have "filter P (take k xs @ drop k xs) = take k xs" "filter (\<lambda>x. \<not> P x) (take k xs @ drop k xs) = drop k xs"
    unfolding filter_append using t by (simp_all add: filter_True filter_False del: append_take_drop_id)
  then show "filter P xs = take k xs" "filter (\<lambda>x. \<not> P x) xs = drop k xs" by simp_all
qed

lemma query_at_time_Ok:
  assumes s: "sorted_wrt (<) (map fst data)"
  shows "rmq_query_at_time (built data b) t = Ok \<lparr>cq_current = sample_before data t, cq_next = change_after data t\<rparr>"
proof -
  let ?ts = "map fst data"
  define k where "k = (case binary_search ?ts t of Inl i \<Rightarrow> i + 1 | Inr i \<Rightarrow> i)"
  have kp: "i < length data \<Longrightarrow> fst (data ! i) \<le> t \<longleftrightarrow> i < k" for i
    using last_place[OF s, of i t] by (auto simp: k_def less_Suc_eq_le split: sum.splits)
  have kl: "k \<le> length data"
    using partition_point_le[of "\<lambda>y. y < t" ?ts] by (auto simp: k_def binary_search_def Let_def)
  note f = filter_split[of data "\<lambda>d. fst d \<le> t" k, OF kp kl]
  have before: "sample_before data t = (if k = 0 then None else Some (data ! (k - 1)))"
    using kl by (auto simp: sample_before_def f(1) last_conv_nth Let_def)
  have after: "change_after data t = get ?ts k"
    using f(2) kl by (cases "drop k data") (auto simp: change_after_def not_le get_def hd_drop_conv_nth simp flip: drop_map hd_conv_nth
        intro: nth_equalityI dest: arg_cong[of _ _ hd])
  have q: "rmq_query_at_time (built data b) t = (if k = 0 then Ok \<lparr>cq_current = None, cq_next = get ?ts k\<rparr>
      else and_then (sample_at (built data b) (k - 1)) (\<lambda>c. Ok \<lparr>cq_current = Some c, cq_next = get ?ts k\<rparr>))"
    by (auto simp: rmq_query_at_time_def k_def built_def split: sum.splits)
  have sample: "k \<noteq> 0 \<Longrightarrow> sample_at (built data b) (k - 1) = Ok (data ! (k - 1))"
    using kl by (simp add: sample_at_def built_def get_in_range)
  show ?thesis unfolding q before after by (cases "k = 0") (simp_all add: sample del: One_nat_def)
qed

text \<open>
  Building the cache of a signal never panics for changes in order of time. It is missing only for a signal without
  changes, its global bounds are those of all values, and at every time it knows the last sample not after it and the time of
  the first one after it.
\<close>

theorem cache_build_complete:
  fixes numeric :: "'v \<Rightarrow> ('f :: linorder) sample option"
  assumes "sorted_wrt (<) (map fst signal)" "block_size \<noteq> Some 0"
  defines "data \<equiv> cache_samples numeric signal"
  shows "if signal = [] then (cache_build signal numeric max_timestamp block_size :: ('e, _) outcome) = Ok None
    else \<exists>c. (cache_build signal numeric max_timestamp block_size :: ('e, _) outcome) = Ok (Some c)
      \<and> sc_global_min c = mm_min (summary (snd ` set data)) \<and> sc_global_max c = mm_max (summary (snd ` set data))
      \<and> (\<forall>t. (cache_query_at_time c t :: ('e, _) outcome) = Ok \<lparr>cq_current = sample_before data t, cq_next = change_after data t\<rparr>)"
proof (cases "signal = []")
  case False
  let ?b = "case block_size of Some b \<Rightarrow> b | None \<Rightarrow> 64"
  have d: "sorted_wrt (<) (map fst data)" "data \<noteq> []" "0 < ?b"
    using assms(1,2) False by (auto simp: data_def cache_samples_def comp_def case_prod_unfold split: option.splits)
  have all: "in_range data (hd (map fst data)) (last (map fst data)) = snd ` set data"
  proof -
    have "fst (data ! 0) \<le> fst (data ! i) \<and> fst (data ! i) \<le> fst (data ! (length data - 1))" if "i < length data" for i
    proof -
      have "data ! 0 = data ! i \<or> fst (data ! 0) < fst (data ! i)" using that sorted_wrt_nth_less[OF d(1), of 0 i] d(2) by (cases "i = 0") auto
      moreover have "i = length data - 1 \<or> fst (data ! i) < fst (data ! (length data - 1))"
        using that sorted_wrt_nth_less[OF d(1), of i "length data - 1"] by (cases "i = length data - 1") auto
      ultimately show ?thesis by auto
    qed
    then have "x \<in> set data \<Longrightarrow> hd (map fst data) \<le> fst x \<and> fst x \<le> last (map fst data)" for x
      using d(2) by (auto simp: hd_conv_nth last_conv_nth in_set_conv_nth)
    then show ?thesis by (force simp: in_range_def)
  qed
  have "time_range (built data ?b) = Some (hd (map fst data), last (map fst data))" using d(2) by (simp add: time_range_def built_def)
  moreover have "in_range data (hd (map fst data)) (last (map fst data)) \<noteq> {}" unfolding all using d(2) by simp
  ultimately have "(cache_build signal numeric max_timestamp block_size :: ('e, _) outcome) = Ok (Some
      \<lparr>sc_rmq = built data ?b, sc_global_min = mm_min (summary (snd ` set data)), sc_global_max = mm_max (summary (snd ` set data)),
       sc_max_timestamp = max_timestamp\<rparr>)"
    using False d(2) unfolding cache_build_def data_def[symmetric] Let_def
    by (simp add: rmq_new_Ok[OF d] query_time_range_Ok[OF d(1,3)] all)
  then show ?thesis using False by (simp add: cache_query_at_time_def query_at_time_Ok[OF d(1)])
qed (simp add: cache_build_def cache_samples_def)

theorem cache_build_complete_witness:
  "if [(0 :: nat, 3 :: nat), (5, 8)] = [] then (cache_build [(0, 3), (5, 8)] (\<lambda>v. Some (Num (Finite (v :: nat)))) 9 None :: (unit, _) outcome) = Ok None
    else \<exists>c. (cache_build [(0, 3), (5, 8)] (\<lambda>v. Some (Num (Finite (v :: nat)))) 9 None :: (unit, _) outcome) = Ok (Some c)
      \<and> sc_global_min c = mm_min (summary (snd ` set (cache_samples (\<lambda>v. Some (Num (Finite (v :: nat)))) [(0 :: nat, 3 :: nat), (5, 8)])))
      \<and> sc_global_max c = mm_max (summary (snd ` set (cache_samples (\<lambda>v. Some (Num (Finite (v :: nat)))) [(0 :: nat, 3 :: nat), (5, 8)])))
      \<and> (\<forall>t. (cache_query_at_time c t :: (unit, _) outcome) =
          Ok \<lparr>cq_current = sample_before (cache_samples (\<lambda>v. Some (Num (Finite (v :: nat)))) [(0 :: nat, 3 :: nat), (5, 8)]) t,
            cq_next = change_after (cache_samples (\<lambda>v. Some (Num (Finite (v :: nat)))) [(0 :: nat, 3 :: nat), (5, 8)]) t\<rparr>)"
  by (rule cache_build_complete) simp_all

end
