(* ===== verification/Wave_Container.thy ===== *)
theory Wave_Container
  imports Translation_Types
begin

section \<open>The container of the waveform (wave\_container.rs)\<close>

text \<open>
  What the program asks of a loaded waveform, as a record of functions: the backends behind it read files and sockets with
  packages. A method that fails gives \<open>None\<close> where its callers only look for success.
\<close>

text \<open>The last change before or at a time with its value, and the time of the next one.\<close>

record query_result =
  qr_current :: "(nat \<times> variable_value) option"
  qr_next :: "nat option"

record ('v, 's) wave_container =
  wc_variable_meta :: "('v, 's) variable_ref \<Rightarrow> ('v, 's) variable_meta option"
  wc_query_variable :: "('v, 's) variable_ref \<Rightarrow> nat \<Rightarrow> query_result option option"
  wc_variables_in_scope :: "'s scope_ref \<Rightarrow> ('v, 's) variable_ref list"
  wc_child_scopes :: "'s scope_ref \<Rightarrow> 's scope_ref list option"
  wc_variables :: "('v, 's) variable_ref list"
  wc_scope_is_variable :: "'s scope_ref \<Rightarrow> bool"
  wc_max_timestamp :: "nat option"

definition child_scopes_or_default :: "('v, 's) wave_container \<Rightarrow> 's scope_ref \<Rightarrow> 's scope_ref list" where
  "child_scopes_or_default wc s = (case wc_child_scopes wc s of Some cs \<Rightarrow> cs | None \<Rightarrow> [])"

end
