(* ===== verification/Frame_Buffer.thy ===== *)
theory Frame_Buffer
  imports Wave_Container Translators Messages
begin

section \<open>The frame buffer view (frame\_buffer.rs)\<close>

text \<open>
  A window that shows the bits of a variable, or of all variables of a (nested) array of scopes, as an image: the choice
  of the variables, their bits, the decoding of the bits into pixels, the two caches, and the messages of lib.rs for it.
  Widgets that the user does not touch
  change nothing, and the painting of the rectangles is left out. \<^verbatim>\<open>i64\<close> indices are only compared, so they are \<open>int\<close>.
\<close>

datatype fb_color_mode = Grayscale | Rgb | YCbCr

record pixel_color_settings =
  color_mode :: fb_color_mode
  grayscale_bits :: "8 word"
  r_bits :: "8 word"
  g_bits :: "8 word"
  b_bits :: "8 word"
  y_bits :: "8 word"
  cb_bits :: "8 word"
  cr_bits :: "8 word"

record frame_buffer_settings =
  pixels_per_row :: nat
  square_pixels :: bool
  color_settings :: pixel_color_settings

definition pixel_color_default :: pixel_color_settings where
  "pixel_color_default = \<lparr>color_mode = Grayscale, grayscale_bits = 1, r_bits = 3, g_bits = 3, b_bits = 2,
     y_bits = 8, cb_bits = 8, cr_bits = 8\<rparr>"

definition frame_buffer_default :: frame_buffer_settings where
  "frame_buffer_default = \<lparr>pixels_per_row = 16, square_pixels = True, color_settings = pixel_color_default\<rparr>"

record array_level =
  min_index :: int
  max_index :: int
  first_index :: int
  last_index :: int

datatype ('v, 's) frame_buffer_content =
  FbArray "'s scope_ref" "array_level list"
| FbVariable "('v, 's) variable_ref"

text \<open>The derived equality rests on that of the references, which ignores their ids.\<close>

fun content_eq :: "('v, 's) frame_buffer_content \<Rightarrow> ('v, 's) frame_buffer_content \<Rightarrow> bool" where
  "content_eq (FbArray s ls) (FbArray s' ls') \<longleftrightarrow> scope_eq s s' \<and> ls = ls'"
| "content_eq (FbVariable v) (FbVariable v') \<longleftrightarrow> var_eq v v'"
| "content_eq _ _ \<longleftrightarrow> False"

record ('v, 's) content_cache_key =
  ck_content :: "('v, 's) frame_buffer_content"
  ck_cursor :: nat

definition content_key_eq :: "('v, 's) content_cache_key \<Rightarrow> ('v, 's) content_cache_key \<Rightarrow> bool" where
  "content_key_eq a b \<longleftrightarrow> content_eq (ck_content a) (ck_content b) \<and> ck_cursor a = ck_cursor b"

record ('v, 's) frame_buffer_array_cache =
  ac_key :: "('v, 's) content_cache_key"
  ac_value :: "bool list option"

record ('v, 's) frame_buffer_pixel_cache =
  pc_array_key :: "('v, 's) content_cache_key"
  pc_settings :: pixel_color_settings
  pc_colors :: "color32 list"

text \<open>The parts of \<^verbatim>\<open>SystemState\<close> that belong to the frame buffer.\<close>

record ('v, 's) frame_buffer_state =
  fb_content :: "('v, 's) frame_buffer_content option"
  fb_array_cache :: "('v, 's) frame_buffer_array_cache option"
  fb_pixel_cache :: "('v, 's) frame_buffer_pixel_cache option"
  fb_settings :: frame_buffer_settings

subsection \<open>Array indices\<close>

definition i64_max :: int where "i64_max = 2 ^ 63 - 1"

definition strip_brackets :: "string \<Rightarrow> string option" where
  "strip_brackets name = (case strip_prefix ''['' name of None \<Rightarrow> None
     | Some s \<Rightarrow> if s \<noteq> [] \<and> last s = CHR '']'' then Some (butlast s) else None)"

definition parse_index_name :: "string \<Rightarrow> int option" where
  "parse_index_name name = (case parse_i64 name of Some i \<Rightarrow> Some i
     | None \<Rightarrow> (case strip_brackets name of Some s \<Rightarrow> parse_i64 s | None \<Rightarrow> None))"

definition scope_array_index :: "'s scope_ref \<Rightarrow> int" where
  "scope_array_index s = (case parse_index_name (scope_name s) of Some i \<Rightarrow> i | None \<Rightarrow> i64_max)"

definition variable_array_index :: "('v, 's) variable_ref \<Rightarrow> int" where
  "variable_array_index v = (case vr_index v of Some i \<Rightarrow> i
     | None \<Rightarrow> (case parse_index_name (vr_name v) of Some i \<Rightarrow> i | None \<Rightarrow> i64_max))"

text \<open>\<^verbatim>\<open>Ord::clamp\<close> asserts that its bounds are in order.\<close>

definition ord_clamp :: "int \<Rightarrow> int \<Rightarrow> int \<Rightarrow> (string, int) outcome" where
  "ord_clamp i lo hi = (if hi < lo then Panic else Ok (if i < lo then lo else if hi < i then hi else i))"

subsection \<open>Variables of an array\<close>

text \<open>One step of the walk down the scopes: the children of every scope whose index is in the range, in index order.\<close>

definition in_index_range :: "int \<Rightarrow> int \<Rightarrow> int \<Rightarrow> bool" where
  "in_index_range lo hi i \<longleftrightarrow> lo \<le> i \<and> i \<le> hi"

definition select_scopes :: "('v, 's) wave_container \<Rightarrow> array_level \<Rightarrow> 's scope_ref list \<Rightarrow> (string, 's scope_ref list) outcome" where
  "select_scopes wc lv scopes =
     and_then (ord_clamp (first_index lv) (min_index lv) (max_index lv)) (\<lambda>lo.
     and_then (ord_clamp (last_index lv) (min_index lv) (max_index lv)) (\<lambda>hi.
     Ok (concat (map (\<lambda>s. sort_key scope_array_index
          (filter (\<lambda>c. in_index_range lo hi (scope_array_index c)) (child_scopes_or_default wc s))) scopes))))"

fun walk_levels :: "('v, 's) wave_container \<Rightarrow> array_level list \<Rightarrow> 's scope_ref list \<Rightarrow> (string, 's scope_ref list) outcome" where
  "walk_levels wc [] scopes = Ok scopes"
| "walk_levels wc (lv # lvs) scopes = and_then (select_scopes wc lv scopes) (walk_levels wc lvs)"

definition resolve_leaf_scopes_and_variables :: "('v, 's) wave_container \<Rightarrow> 's scope_ref \<Rightarrow> array_level list
    \<Rightarrow> (string, ('v, 's) variable_ref list option) outcome" where
  "resolve_leaf_scopes_and_variables wc scope levels =
     (if levels = [] then Panic else let var_lv = last levels in
      and_then (walk_levels wc (butlast levels) [scope]) (\<lambda>current_scopes.
      if current_scopes = [] then Ok None
      else and_then (ord_clamp (first_index var_lv) (min_index var_lv) (max_index var_lv)) (\<lambda>lo.
           and_then (ord_clamp (last_index var_lv) (min_index var_lv) (max_index var_lv)) (\<lambda>hi.
           if hi < lo then Ok None
           else Ok (Some (concat (map (\<lambda>leaf. filter (\<lambda>v. in_index_range lo hi (variable_array_index v))
                  (sort_key variable_array_index (wc_variables_in_scope wc leaf))) current_scopes)))))))"

text \<open>
  The analysis of the scopes below a root. The loop follows the child of least index until there are no children; it
  returns when the scopes are a finite tree, so a result \<open>None\<close> of the partial function is a loop that never returns.
\<close>

partial_function (option) probe_levels :: "('v, 's) wave_container \<Rightarrow> 's scope_ref \<Rightarrow> array_level list
    \<Rightarrow> (array_level list \<times> 's scope_ref) option" where
  "probe_levels wc probe levels =
     (let children = child_scopes_or_default wc probe in
      if children = [] then Some (levels, probe)
      else let indices = map scope_array_index children; lo = Min (set indices); hi = Max (set indices)
           in probe_levels wc (arg_min_list scope_array_index children)
                (levels @ [\<lparr>min_index = lo, max_index = hi, first_index = lo, last_index = hi\<rparr>]))"

definition variable_level :: "int list \<Rightarrow> array_level" where
  "variable_level indices = (let numbered = filter (\<lambda>i. i \<noteq> i64_max) indices;
       (lo, hi) = (if numbered = [] then (0, 0) else (Min (set numbered), Max (set numbered)))
     in \<lparr>min_index = lo, max_index = hi, first_index = lo, last_index = hi\<rparr>)"

definition leaf_scopes :: "('v, 's) wave_container \<Rightarrow> nat \<Rightarrow> 's scope_ref \<Rightarrow> 's scope_ref list" where
  "leaf_scopes wc depth s = ((\<lambda>ss. concat (map (child_scopes_or_default wc) ss)) ^^ depth) [s]"

definition build_frame_buffer_content :: "('v, 's) wave_container \<Rightarrow> 's scope_ref
    \<Rightarrow> (array_level list \<times> ('v, 's) variable_ref list) option" where
  "build_frame_buffer_content wc scope = (case probe_levels wc scope [] of None \<Rightarrow> None
     | Some (scope_levels, leaf) \<Rightarrow>
         let levels = scope_levels @ [variable_level (map variable_array_index (wc_variables_in_scope wc leaf))]
         in Some (levels, concat (map (wc_variables_in_scope wc) (leaf_scopes wc (length levels - 1) scope))))"

subsection \<open>Bits of a value\<close>

definition append_str_lower_bits :: "string \<Rightarrow> nat \<Rightarrow> bool list" where
  "append_str_lower_bits src width = (if width = 0 then [] else
     let suffix = drop (length src - width) src
     in replicate (width - length suffix) False @ map (\<lambda>b. b = CHR ''1'') suffix)"

text \<open>The bit length of a number and one of its bits.\<close>

definition biguint_bits :: "nat \<Rightarrow> nat" where
  "biguint_bits v = (if v = 0 then 0 else length (digits_of 2 v))"

definition biguint_bit :: "nat \<Rightarrow> nat \<Rightarrow> bool" where
  "biguint_bit v i = odd (v div 2 ^ i)"

definition append_biguint_lower_bits :: "nat \<Rightarrow> nat \<Rightarrow> bool list" where
  "append_biguint_lower_bits v width = (if width = 0 then [] else
     if width \<le> biguint_bits v then map (biguint_bit v) (rev [0..<width])
     else replicate (width - biguint_bits v) False @ map (biguint_bit v) (rev [0..<biguint_bits v]))"

definition frame_buffer_bits :: "variable_value \<Rightarrow> nat \<Rightarrow> bool list" where
  "frame_buffer_bits value word_length = (case value of
     BigUint v \<Rightarrow> append_biguint_lower_bits v word_length | String s \<Rightarrow> append_str_lower_bits s word_length)"

text \<open>The bits of one variable of an array: zeros for a value that is missing, nothing for a variable without a width.\<close>

definition array_bits_of :: "('v, 's) wave_container \<Rightarrow> nat \<Rightarrow> ('v, 's) variable_ref \<Rightarrow> bool list" where
  "array_bits_of wc cursor_pos v = (case wc_variable_meta wc v of None \<Rightarrow> [] | Some m \<Rightarrow>
     case vm_num_bits m of None \<Rightarrow> [] | Some n \<Rightarrow>
     case wc_query_variable wc v cursor_pos of
       Some (Some q) \<Rightarrow> (case qr_current q of Some (_, val) \<Rightarrow> frame_buffer_bits val n | None \<Rightarrow> replicate n False)
     | _ \<Rightarrow> replicate n False)"

definition array_capacity :: "('v, 's) wave_container \<Rightarrow> ('v, 's) variable_ref list \<Rightarrow> nat" where
  "array_capacity wc vs = sum_list (map (\<lambda>v. case wc_variable_meta wc v of None \<Rightarrow> 0
     | Some m \<Rightarrow> (case vm_num_bits m of Some n \<Rightarrow> n | None \<Rightarrow> 0)) vs)"

definition build_cached_variable_value :: "('v, 's) wave_container \<Rightarrow> ('v, 's) variable_ref list \<Rightarrow> nat \<Rightarrow> bool list option" where
  "build_cached_variable_value wc vs cursor_pos = (if array_capacity wc vs = 0 then None
     else let concat_bits = concat (map (array_bits_of wc cursor_pos) vs)
          in if concat_bits = [] then None else Some concat_bits)"

definition build_variable_frame_buffer_cache :: "('v, 's) wave_container \<Rightarrow> ('v, 's) variable_ref \<Rightarrow> nat
    \<Rightarrow> ('v, 's) content_cache_key \<Rightarrow> ('v, 's) frame_buffer_array_cache option" where
  "build_variable_frame_buffer_cache wc v cursor_pos key =
     (case wc_variable_meta wc v of None \<Rightarrow> None | Some m \<Rightarrow>
      case vm_num_bits m of None \<Rightarrow> None | Some word_length \<Rightarrow>
      case wc_query_variable wc v cursor_pos of
        Some (Some q) \<Rightarrow> (case qr_current q of None \<Rightarrow> None
          | Some (_, val) \<Rightarrow> Some \<lparr>ac_key = key, ac_value = Some (frame_buffer_bits val word_length)\<rparr>)
      | _ \<Rightarrow> None)"

subsection \<open>Pixels\<close>

text \<open>Bits are read most significant first into a \<^verbatim>\<open>u16\<close>, whose higher bs the shifts drop.\<close>

definition shift_in :: "16 word \<Rightarrow> bool \<Rightarrow> 16 word" where
  "shift_in value b = or (push_bit 1 value) (of_bool b)"

definition bits_to_u16 :: "bool list \<Rightarrow> 16 word" where
  "bits_to_u16 bs = foldl shift_in 0 bs"

definition bits_to_u16_padded :: "bool list \<Rightarrow> nat \<Rightarrow> nat \<Rightarrow> 16 word" where
  "bits_to_u16_padded bs start len = foldl (\<lambda>value off. shift_in value
     (case get bs (start + off) of Some b \<Rightarrow> b | None \<Rightarrow> False)) 0 [0..<len]"

text \<open>A shift of a \<^verbatim>\<open>u16\<close> by 16 or more panics. The arithmetic in \<^verbatim>\<open>u32\<close> cannot overflow.\<close>

definition scale_to_u8 :: "16 word \<Rightarrow> nat \<Rightarrow> (string, 8 word) outcome" where
  "scale_to_u8 value bs = (if bs = 0 then Ok 0 else if 16 \<le> bs then Panic
     else let max_in = push_bit bs 1 - 1 :: 16 word
          in Ok (ucast (((ucast value :: 32 word) * 255) div ucast max_in)))"

definition gray_pixel :: "16 word \<Rightarrow> nat \<Rightarrow> (string, color32) outcome" where
  "gray_pixel value bs = and_then (scale_to_u8 value bs) (\<lambda>gray. Ok (from_rgb gray gray gray))"

definition decode_grayscale_pixels :: "bool list \<Rightarrow> nat \<Rightarrow> (string, color32 list) outcome" where
  "decode_grayscale_pixels bs gray_bits =
     (let step = max gray_bits 1; full = length bs div step; has_tail = (length bs mod step \<noteq> 0);
          fast = (\<lambda>start. gray_pixel (bits_to_u16 (slice_range start (start + step) bs)) step);
          slow = (\<lambda>start. gray_pixel (bits_to_u16_padded bs start step) step)
      in collect_outcomes (map (\<lambda>k. fast (k * step)) [0..<full] @ (if has_tail then [slow (full * step)] else [])))"

definition three_channels :: "(8 word \<Rightarrow> 8 word \<Rightarrow> 8 word \<Rightarrow> 'c) \<Rightarrow> 16 word \<times> nat \<Rightarrow> 16 word \<times> nat \<Rightarrow> 16 word \<times> nat
    \<Rightarrow> (string, 'c) outcome" where
  "three_channels f a b c = and_then (scale_to_u8 (fst a) (snd a)) (\<lambda>x. and_then (scale_to_u8 (fst b) (snd b)) (\<lambda>y.
     and_then (scale_to_u8 (fst c) (snd c)) (\<lambda>z. Ok (f x y z))))"

definition decode_rgb_pixels :: "bool list \<Rightarrow> nat \<Rightarrow> nat \<Rightarrow> nat \<Rightarrow> (string, color32 list) outcome" where
  "decode_rgb_pixels bs rb gb bb =
     (let step = max (rb + gb + bb) 1; full = length bs div step; has_tail = (length bs mod step \<noteq> 0);
          fast = (\<lambda>start. three_channels from_rgb
            (bits_to_u16 (slice_range start (start + rb) bs), rb)
            (bits_to_u16 (slice_range (start + rb) (start + rb + gb) bs), gb)
            (bits_to_u16 (slice_range (start + rb + gb) (start + step) bs), bb));
          slow = (\<lambda>start. three_channels from_rgb
            (bits_to_u16_padded bs start rb, rb)
            (bits_to_u16_padded bs (start + rb) gb, gb)
            (bits_to_u16_padded bs (start + rb + gb) bb, bb))
      in collect_outcomes (map (\<lambda>k. fast (k * step)) [0..<full] @ (if has_tail then [slow (full * step)] else [])))"

definition ycbcr_pixel :: "'g f32_ops \<Rightarrow> 8 word \<Rightarrow> 8 word \<Rightarrow> 8 word \<Rightarrow> color32" where
  "ycbcr_pixel ops y cb cr = (case ycbcr_to_rgb ops y cb cr of (red, green, blue) \<Rightarrow> from_rgb red green blue)"

definition decode_ycbcr_pixels :: "'g f32_ops \<Rightarrow> bool list \<Rightarrow> nat \<Rightarrow> nat \<Rightarrow> nat \<Rightarrow> (string, color32 list) outcome" where
  "decode_ycbcr_pixels ops bs yb cbb crb =
     (let step = max (yb + cbb + crb) 1; full = length bs div step; has_tail = (length bs mod step \<noteq> 0);
          fast = (\<lambda>start. three_channels (ycbcr_pixel ops)
            (bits_to_u16 (slice_range start (start + yb) bs), yb)
            (bits_to_u16 (slice_range (start + yb) (start + yb + cbb) bs), cbb)
            (bits_to_u16 (slice_range (start + yb + cbb) (start + step) bs), crb));
          slow = (\<lambda>start. three_channels (ycbcr_pixel ops)
            (bits_to_u16_padded bs start yb, yb)
            (bits_to_u16_padded bs (start + yb) cbb, cbb)
            (bits_to_u16_padded bs (start + yb + cbb) crb, crb))
      in collect_outcomes (map (\<lambda>k. fast (k * step)) [0..<full] @ (if has_tail then [slow (full * step)] else [])))"

text \<open>An error is the label that the window shows in place of an image.\<close>

definition decode_pixels :: "'g f32_ops \<Rightarrow> pixel_color_settings \<Rightarrow> bool list \<Rightarrow> (string, color32 list) outcome" where
  "decode_pixels ops c bs = (case color_mode c of
     Rgb \<Rightarrow> if unat (r_bits c) + unat (g_bits c) + unat (b_bits c) = 0
            then Err ''Set at least one RGB channel bit count above zero.''
            else decode_rgb_pixels bs (unat (r_bits c)) (unat (g_bits c)) (unat (b_bits c))
   | YCbCr \<Rightarrow> if unat (y_bits c) + unat (cb_bits c) + unat (cr_bits c) = 0
            then Err ''Set at least one YCbCr channel bit count above zero.''
            else decode_ycbcr_pixels ops bs (unat (y_bits c)) (unat (cb_bits c)) (unat (cr_bits c))
   | Grayscale \<Rightarrow> decode_grayscale_pixels bs (unat (grayscale_bits c)))"

subsection \<open>The window\<close>

text \<open>The bits of the selected content, from the array cache when its key is that of the content and the cursor.\<close>

definition fill_array_cache :: "('v, 's) wave_container \<Rightarrow> ('v, 's) frame_buffer_content \<Rightarrow> nat
    \<Rightarrow> (string, ('v, 's) frame_buffer_array_cache option) outcome" where
  "fill_array_cache wc content cursor_pos =
     (let key = \<lparr>ck_content = content, ck_cursor = cursor_pos\<rparr> in case content of
        FbVariable v \<Rightarrow> Ok (build_variable_frame_buffer_cache wc v cursor_pos key)
      | FbArray scope levels \<Rightarrow> if levels = [] then Ok None
          else and_then (resolve_leaf_scopes_and_variables wc scope levels) (\<lambda>r. Ok (case r of None \<Rightarrow> None
            | Some vs \<Rightarrow> Some \<lparr>ac_key = key, ac_value = build_cached_variable_value wc vs cursor_pos\<rparr>)))"

definition content_name :: "('v, 's) frame_buffer_content \<Rightarrow> string" where
  "content_name c = (case c of FbVariable v \<Rightarrow> full_path_string_no_index v | FbArray scope levels \<Rightarrow> scope_full_name scope)"

definition selected_variable_for_frame_buffer :: "int option \<Rightarrow> ('v, 's) wave_container option \<Rightarrow> ('v, 's) frame_buffer_state
    \<Rightarrow> (string, ('v, 's) frame_buffer_state \<times> (bool list \<times> ('v, 's) content_cache_key \<times> string) option) outcome" where
  "selected_variable_for_frame_buffer cursor_opt wc_opt s =
     (case cursor_opt of None \<Rightarrow> Ok (s, None) | Some c \<Rightarrow> if c < 0 then Ok (s, None) else
      case wc_opt of None \<Rightarrow> Ok (s, None) | Some wc \<Rightarrow>
      case fb_content s of None \<Rightarrow> Ok (s, None) | Some content \<Rightarrow>
      let key = \<lparr>ck_content = content, ck_cursor = nat c\<rparr>;
          finish = (\<lambda>s' cached. (s', case ac_value cached of None \<Rightarrow> None
            | Some bs \<Rightarrow> Some (bs, ac_key cached, content_name content)))
      in case (case fb_array_cache s of None \<Rightarrow> None | Some cached \<Rightarrow> if content_key_eq (ac_key cached) key then Some cached else None) of
           Some cached \<Rightarrow> Ok (finish s cached)
         | None \<Rightarrow> and_then (fill_array_cache wc content (nat c)) (\<lambda>filled. case filled of None \<Rightarrow> Ok (s, None)
             | Some cached \<Rightarrow> Ok (finish (s\<lparr>fb_array_cache := Some cached\<rparr>) cached)))"

text \<open>The pixels, from the pixel cache when its key is that of the bits and the colour settings.\<close>

definition window_pixels :: "'g f32_ops \<Rightarrow> bool list \<Rightarrow> ('v, 's) content_cache_key \<Rightarrow> ('v, 's) frame_buffer_state
    \<Rightarrow> (string, ('v, 's) frame_buffer_state \<times> color32 list) outcome" where
  "window_pixels ops bs key s =
     (let colors = color_settings (fb_settings s) in
      case (case fb_pixel_cache s of None \<Rightarrow> None
            | Some c \<Rightarrow> if content_key_eq (pc_array_key c) key \<and> pc_settings c = colors then Some c else None) of
        Some c \<Rightarrow> Ok (s, pc_colors c)
      | None \<Rightarrow> and_then (decode_pixels ops colors bs) (\<lambda>decoded.
          Ok (s\<lparr>fb_pixel_cache := Some \<lparr>pc_array_key = key, pc_settings = colors, pc_colors = decoded\<rparr>\<rparr>, decoded)))"

text \<open>The clamping of the index fields and of the row width that drawing does before the widgets.\<close>

definition settle_level :: "array_level \<Rightarrow> (string, array_level) outcome" where
  "settle_level lv = and_then (ord_clamp (first_index lv) (min_index lv) (max_index lv)) (\<lambda>first.
     and_then (ord_clamp (last_index lv) (min_index lv) (max_index lv)) (\<lambda>lst.
     Ok (lv\<lparr>first_index := first, last_index := (if lst < first then first else lst)\<rparr>)))"

definition draw_array_index_range :: "('v, 's) frame_buffer_state \<Rightarrow> (string, ('v, 's) frame_buffer_state) outcome" where
  "draw_array_index_range s = (case fb_content s of
     Some (FbArray scope levels) \<Rightarrow> and_then (collect_outcomes (map settle_level levels)) (\<lambda>levels'.
       Ok (s\<lparr>fb_content := Some (FbArray scope levels')\<rparr>))
   | _ \<Rightarrow> Ok s)"

record frame_buffer_image =
  im_name :: string
  im_columns :: nat
  im_rows :: nat
  im_pixels :: "color32 list"

definition black :: color32 where "black = (0, 0, 0, 255)"

text \<open>What the copy button copies: the pixels filled up with black to whole rows.\<close>

definition copied_image :: "frame_buffer_image \<Rightarrow> color32 list" where
  "copied_image im = (let total = im_columns im * im_rows im
     in take total (im_pixels im) @ replicate (total - length (im_pixels im)) black)"

definition draw_frame_buffer_window :: "'g f32_ops \<Rightarrow> int option \<Rightarrow> ('v, 's) wave_container option \<Rightarrow> ('v, 's) frame_buffer_state
    \<Rightarrow> (string, ('v, 's) frame_buffer_state \<times> (string + frame_buffer_image)) outcome" where
  "draw_frame_buffer_window ops cursor_opt wc_opt s =
     and_then (selected_variable_for_frame_buffer cursor_opt wc_opt s) (\<lambda>(s1, sel). case sel of
       None \<Rightarrow> Ok (s1, Inl ''Place the cursor.'')
     | Some (bs, key, name) \<Rightarrow> if bs = [] then Ok (s1, Inl ''No bits available'') else
       (case window_pixels ops bs key s1 of Panic \<Rightarrow> Panic | Err label \<Rightarrow> Ok (s1, Inl label) | Ok (s2, colors) \<Rightarrow>
        if colors = [] then Ok (s2, Inl ''No pixels to draw with current bit settings.'') else
        let columns = max (min (pixels_per_row (fb_settings s2)) (length colors)) 1; rows = ceil_div (length colors) columns
        in and_then (draw_array_index_range s2) (\<lambda>s3.
           Ok (s3\<lparr>fb_settings := (fb_settings s3)\<lparr>pixels_per_row := max 1 (min (length colors) (pixels_per_row (fb_settings s3)))\<rparr>\<rparr>,
               Inr \<lparr>im_name = name, im_columns = columns, im_rows = rows, im_pixels = colors\<rparr>))))"

subsection \<open>Messages (lib.rs)\<close>

datatype ('v, 's) frame_buffer_message =
  SetFrameBufferVariable "('v, 's) variable_ref"
| SetFrameBufferVisibleVariable "nat option"
| SetFrameBufferArray "'s scope_ref"
| SetFrameBufferMode fb_color_mode "8 word" "8 word" "8 word"
| SetFrameBufferWidth nat
| SetFrameBufferRange "(int \<times> int) list"

definition set_mode :: "fb_color_mode \<Rightarrow> 8 word \<Rightarrow> 8 word \<Rightarrow> 8 word \<Rightarrow> pixel_color_settings \<Rightarrow> pixel_color_settings" where
  "set_mode mode bits1 bits2 bits3 c = (let c = c\<lparr>color_mode := mode\<rparr> in case mode of
     Grayscale \<Rightarrow> c\<lparr>grayscale_bits := max 1 (min 8 bits1)\<rparr>
   | Rgb \<Rightarrow> c\<lparr>r_bits := min bits1 8, g_bits := min bits2 8, b_bits := min bits3 8\<rparr>
   | YCbCr \<Rightarrow> c\<lparr>y_bits := min bits1 8, cb_bits := min bits2 8, cr_bits := min bits3 8\<rparr>)"

definition set_level_range :: "array_level \<Rightarrow> int \<times> int \<Rightarrow> (string, array_level) outcome" where
  "set_level_range lv r = and_then (ord_clamp (fst r) (min_index lv) (max_index lv)) (\<lambda>first.
     and_then (ord_clamp (snd r) (min_index lv) (max_index lv)) (\<lambda>lst.
     Ok (lv\<lparr>first_index := min first lst, last_index := max first lst\<rparr>)))"

definition visible_variable :: "('v, 's, 't) wave_data \<Rightarrow> nat \<Rightarrow> ('v, 's) frame_buffer_content option" where
  "visible_variable w vidx = (case get_visible (items_tree w) vidx of None \<Rightarrow> None | Some n \<Rightarrow>
     case displayed_items w (item_ref n) of Some (ItemVariable v) \<Rightarrow> Some (FbVariable (dv_ref v)) | _ \<Rightarrow> None)"

text \<open>Nothing is done without a waveform where the arm asks for one. A result \<open>None\<close> is an arm that never returns.\<close>

definition frame_buffer_update :: "('v, 's, 't) wave_data option \<Rightarrow> ('v, 's) wave_container option \<Rightarrow> ('v, 's) frame_buffer_message
    \<Rightarrow> ('v, 's) frame_buffer_state \<Rightarrow> (string, ('v, 's) frame_buffer_state) outcome option" where
  "frame_buffer_update waves wc_opt m s = (case m of
     SetFrameBufferVariable v \<Rightarrow> (if waves = None \<or> wc_opt = None then Some (Ok s)
       else Some (Ok (s\<lparr>fb_content := Some (FbVariable v)\<rparr>)))
   | SetFrameBufferVisibleVariable None \<Rightarrow> Some (Ok (s\<lparr>fb_content := None\<rparr>))
   | SetFrameBufferVisibleVariable (Some vidx) \<Rightarrow> (case waves of None \<Rightarrow> Some (Ok s)
       | Some w \<Rightarrow> Some (Ok (s\<lparr>fb_content := visible_variable w vidx\<rparr>)))
   | SetFrameBufferArray scope \<Rightarrow> (case (waves, wc_opt) of
         (Some w, Some wc) \<Rightarrow> (case build_frame_buffer_content wc scope of None \<Rightarrow> None
           | Some (levels, vs) \<Rightarrow> Some (Ok (s\<lparr>fb_content := Some (FbArray scope levels)\<rparr>)))
       | _ \<Rightarrow> Some (Ok s))
   | SetFrameBufferMode mode bits1 bits2 bits3 \<Rightarrow> Some (Ok (s\<lparr>fb_settings := (fb_settings s)\<lparr>color_settings :=
         set_mode mode bits1 bits2 bits3 (color_settings (fb_settings s))\<rparr>, fb_pixel_cache := None\<rparr>))
   | SetFrameBufferWidth width \<Rightarrow> Some (Ok (s\<lparr>fb_settings := (fb_settings s)\<lparr>pixels_per_row := max width 1\<rparr>\<rparr>))
   | SetFrameBufferRange ranges \<Rightarrow> (case fb_content s of
       Some (FbArray scope levels) \<Rightarrow> Some (and_then (collect_outcomes (map (\<lambda>(lv, r). set_level_range lv r) (zip levels ranges))) (\<lambda>set_levels.
         Ok (s\<lparr>fb_content := Some (FbArray scope (set_levels @ drop (length set_levels) levels))\<rparr>)))
     | _ \<Rightarrow> Some (Ok s)))"

subsection \<open>What the pixels are\<close>

text \<open>
  The reference: the bits are followed by zeros without end, a pixel is made of the next bits for each of its channels,
  and a channel of \<open>n\<close> bits with the number \<open>v\<close> has the level \<open>255 v / (2 ^ n - 1)\<close>, rounded down.
\<close>

definition bit_at :: "bool list \<Rightarrow> nat \<Rightarrow> bool" where
  "bit_at bs i \<longleftrightarrow> i < length bs \<and> bs ! i"

definition channel_value :: "bool list \<Rightarrow> nat \<Rightarrow> nat \<Rightarrow> nat" where
  "channel_value bs start n = value_of 2 (map (\<lambda>off. of_bool (bit_at bs (start + off))) [0..<n])"

definition channel_level :: "bool list \<Rightarrow> nat \<Rightarrow> nat \<Rightarrow> 8 word" where
  "channel_level bs start n = of_nat (channel_value bs start n * 255 div (2 ^ n - 1))"

lemma shift_in_plus: "shift_in value b = 2 * value + of_bool b"
proof -
  have "and (push_bit 1 value) (of_bool b) = (0 :: 16 word)"
    by (rule bit_eqI) (auto simp: bit_and_iff bit_of_bool_iff bit_0)
  then show ?thesis by (simp add: shift_in_def disjunctive_add_eq_or[symmetric] push_bit_eq_mult)
qed

lemma foldl_shift_in: "foldl shift_in w (map f xs) = w * 2 ^ length xs + of_nat (value_of 2 (map (\<lambda>x. of_bool (f x)) xs))"
  by (induction xs arbitrary: w) (simp_all add: shift_in_plus value_of_Cons algebra_simps)

lemma channel_value_bound: "channel_value bs start n < 2 ^ n"
  using value_of_bound[of "map (\<lambda>off. of_bool (bit_at bs (start + off))) [0..<n]" 2] by (simp add: channel_value_def)

lemma padded_read: "bits_to_u16_padded bs start n = of_nat (channel_value bs start n)"
proof -
  have "bits_to_u16_padded bs start n = foldl shift_in 0 (map (\<lambda>off. bit_at bs (start + off)) [0..<n])"
  proof -
    have "(case get bs (start + off) of Some b \<Rightarrow> b | None \<Rightarrow> False) = bit_at bs (start + off)" for off
      by (auto simp: get_def bit_at_def)
    then show ?thesis by (simp add: bits_to_u16_padded_def foldl_map)
  qed
  then show ?thesis by (simp add: foldl_shift_in channel_value_def)
qed

lemma slice_read: "start + n \<le> length bs \<Longrightarrow> bits_to_u16 (slice_range start (start + n) bs) = of_nat (channel_value bs start n)"
proof -
  assume le: "start + n \<le> length bs"
  then have "slice_range start (start + n) bs = map (\<lambda>off. bit_at bs (start + off)) [0..<n]"
    by (intro nth_equalityI) (simp_all add: bit_at_def)
  then show ?thesis by (simp add: bits_to_u16_def foldl_shift_in channel_value_def)
qed

lemma unat_of_nat_small: "k < 2 ^ 16 \<Longrightarrow> unat (of_nat k :: 16 word) = k"
  by (simp add: unat_of_nat take_bit_eq_mod)

lemma scale_level:
  assumes "n < 16"
  shows "scale_to_u8 (of_nat (channel_value bs start n)) n = Ok (channel_level bs start n)"
proof (cases "n = 0")
  case True
  then show ?thesis by (simp add: scale_to_u8_def channel_level_def channel_value_def)
next
  case False
  let ?v = "channel_value bs start n"
  have p: "(2 :: nat) ^ n \<le> 2 ^ 15" using assms by (intro power_increasing) auto
  have p2: "(2 :: nat) \<le> 2 ^ n" using False by (cases n) auto
  have v: "?v < 2 ^ n" by (rule channel_value_bound)
  have uv: "unat (of_nat ?v :: 16 word) = ?v" using v p by (simp add: unat_of_nat take_bit_eq_mod)
  have m: "unat (push_bit n 1 - 1 :: 16 word) = 2 ^ n - 1"
  proof -
    have "push_bit n 1 - 1 = (of_nat (2 ^ n - 1) :: 16 word)" using p2 by (simp add: push_bit_eq_mult of_nat_diff)
    then show ?thesis using p unat_of_nat_small[of "2 ^ n - 1"] by simp
  qed
  have v32: "unat (ucast (of_nat ?v :: 16 word) :: 32 word) = ?v" using uv v p by (simp add: unsigned_ucast_eq take_bit_eq_mod)
  have m32: "unat (ucast (push_bit n 1 - 1 :: 16 word) :: 32 word) = 2 ^ n - 1" using m p by (simp add: unsigned_ucast_eq take_bit_eq_mod)
  have prod: "unat ((ucast (of_nat ?v :: 16 word) :: 32 word) * 255) = ?v * 255" using v32 v p by (simp add: unat_word_ariths)
  have "unat (((ucast (of_nat ?v :: 16 word) :: 32 word) * 255) div ucast (push_bit n 1 - 1 :: 16 word)) = ?v * 255 div (2 ^ n - 1)"
    by (simp only: unat_div prod m32)
  then have "(ucast (((ucast (of_nat ?v :: 16 word) :: 32 word) * 255) div ucast (push_bit n 1 - 1 :: 16 word)) :: 8 word)
      = of_nat (?v * 255 div (2 ^ n - 1))"
    by (metis of_nat_unat)
  then show ?thesis using False assms by (simp add: scale_to_u8_def channel_level_def Let_def)
qed

lemma collect_outcomes_map: "(\<And>x. x \<in> set xs \<Longrightarrow> g x = Ok (f x)) \<Longrightarrow> collect_outcomes (map g xs) = Ok (map f xs)"
  by (induction xs) auto

text \<open>The whole pixels and the one cut off at the end are the pixels at the multiples of the step.\<close>

lemma pixels_upto:
  assumes "0 < step" and "\<And>k. k < n div step \<Longrightarrow> fast (k * step) = Ok (f (k * step))" and "slow (n div step * step) = Ok (f (n div step * step))"
  shows "collect_outcomes (map (\<lambda>k. fast (k * step)) [0..<n div step] @ (if n mod step \<noteq> 0 then [slow (n div step * step)] else []))
    = Ok (map (\<lambda>k. f (k * step)) [0..<ceil_div n step])"
proof -
  let ?all = "\<lambda>k. if k < n div step then fast (k * step) else slow (k * step)"
  have len: "ceil_div n step = n div step + (if n mod step \<noteq> 0 then 1 else 0)"
  proof (cases "n mod step = 0")
    case True
    then obtain q where "n = q * step" by (metis mult.commute mod_0_imp_dvd dvdE)
    then have "n + step - 1 = (step - 1) + q * step" using assms(1) by simp
    then have "(n + step - 1) div step = q + (step - 1) div step" using assms(1) by (metis div_mult_self1 less_not_refl)
    then show ?thesis using assms(1) True \<open>n = q * step\<close> unfolding ceil_div_def by simp
  next
    case False
    have "n + step - 1 = (n mod step - 1) + (n div step + 1) * step"
    proof -
      have "(n div step + 1) * step = n div step * step + step" by simp
      then show ?thesis using False div_mult_mod_eq[of n step] assms(1) by linarith
    qed
    moreover have "(n mod step - 1) div step = 0" using assms(1) mod_less_divisor[of step n] by (intro div_less) linarith
    ultimately have "(n + step - 1) div step = n div step + 1" using assms(1) by (metis add_0_right add.commute div_mult_self1 less_not_refl)
    then show ?thesis using False unfolding ceil_div_def by simp
  qed
  have "map (\<lambda>k. fast (k * step)) [0..<n div step] @ (if n mod step \<noteq> 0 then [slow (n div step * step)] else [])
      = map ?all [0..<ceil_div n step]"
    by (simp add: len)
  moreover have "?all k = Ok (f (k * step))" if "k \<in> set [0..<ceil_div n step]" for k
    using that assms(2,3) by (cases "n mod step = 0") (auto simp: len less_Suc_eq)
  ultimately show ?thesis using collect_outcomes_map[of "[0..<ceil_div n step]" ?all "\<lambda>k. f (k * step)"] by simp
qed

lemma whole_pixel: "k < n div step \<Longrightarrow> k * step + step \<le> (n :: nat)"
proof -
  assume "k < n div step"
  then have "(k + 1) * step \<le> n div step * step" by (intro mult_le_mono1) simp
  also have "\<dots> \<le> n" by simp
  finally show ?thesis by simp
qed

lemma slice_level:
  assumes "n < 16" "start + n \<le> length bs"
  shows "scale_to_u8 (bits_to_u16 (slice_range start (start + n) bs)) n = Ok (channel_level bs start n)"
  using assms by (simp add: slice_read scale_level)

lemma padded_level: "n < 16 \<Longrightarrow> scale_to_u8 (bits_to_u16_padded bs start n) n = Ok (channel_level bs start n)"
  by (simp add: padded_read scale_level)

definition channel_levels :: "(8 word \<Rightarrow> 8 word \<Rightarrow> 8 word \<Rightarrow> 'c) \<Rightarrow> bool list \<Rightarrow> nat \<Rightarrow> nat \<Rightarrow> nat \<Rightarrow> nat \<Rightarrow> 'c" where
  "channel_levels f bs a b c start = f (channel_level bs start a) (channel_level bs (start + a) b) (channel_level bs (start + a + b) c)"

lemma slice_channels:
  assumes "a < 16" "b < 16" "c < 16" "start + (a + b + c) \<le> length bs"
  shows "three_channels f (bits_to_u16 (slice_range start (start + a) bs), a)
      (bits_to_u16 (slice_range (start + a) (start + a + b) bs), b)
      (bits_to_u16 (slice_range (start + a + b) (start + (a + b + c)) bs), c) = Ok (channel_levels f bs a b c start)"
  using assms by (simp add: three_channels_def channel_levels_def slice_level add.assoc[symmetric])

lemma padded_channels:
  assumes "a < 16" "b < 16" "c < 16"
  shows "three_channels f (bits_to_u16_padded bs start a, a) (bits_to_u16_padded bs (start + a) b, b)
      (bits_to_u16_padded bs (start + a + b) c, c) = Ok (channel_levels f bs a b c start)"
  using assms by (simp add: three_channels_def channel_levels_def padded_level)

lemma decode_rgb_exact:
  assumes "a < 16" "b < 16" "c < 16" "0 < a + b + c"
  shows "decode_rgb_pixels bs a b c = Ok (map (\<lambda>k. channel_levels from_rgb bs a b c (k * (a + b + c))) [0..<ceil_div (length bs) (a + b + c)])"
  using assms unfolding decode_rgb_pixels_def Let_def max_absorb1[OF Suc_leI[OF assms(4), unfolded One_nat_def[symmetric]]]
  by (intro pixels_upto) (auto intro!: slice_channels padded_channels dest: whole_pixel)

lemma decode_ycbcr_exact:
  assumes "a < 16" "b < 16" "c < 16" "0 < a + b + c"
  shows "decode_ycbcr_pixels ops bs a b c
    = Ok (map (\<lambda>k. channel_levels (ycbcr_pixel ops) bs a b c (k * (a + b + c))) [0..<ceil_div (length bs) (a + b + c)])"
  using assms unfolding decode_ycbcr_pixels_def Let_def max_absorb1[OF Suc_leI[OF assms(4), unfolded One_nat_def[symmetric]]]
  by (intro pixels_upto) (auto intro!: slice_channels padded_channels dest: whole_pixel)

definition gray_levels :: "bool list \<Rightarrow> nat \<Rightarrow> nat \<Rightarrow> color32" where
  "gray_levels bs n start = from_rgb (channel_level bs start n) (channel_level bs start n) (channel_level bs start n)"

lemma decode_grayscale_exact:
  assumes "0 < n" "n < 16"
  shows "decode_grayscale_pixels bs n = Ok (map (\<lambda>k. gray_levels bs n (k * n)) [0..<ceil_div (length bs) n])"
  using assms unfolding decode_grayscale_pixels_def Let_def max_absorb1[OF Suc_leI[OF assms(1), unfolded One_nat_def[symmetric]]]
  by (intro pixels_upto) (auto simp: gray_pixel_def gray_levels_def slice_level padded_level dest: whole_pixel)

definition settings_ok :: "pixel_color_settings \<Rightarrow> bool" where
  "settings_ok c \<longleftrightarrow> 1 \<le> grayscale_bits c \<and> grayscale_bits c \<le> 8 \<and> r_bits c \<le> 8 \<and> g_bits c \<le> 8 \<and> b_bits c \<le> 8
     \<and> y_bits c \<le> 8 \<and> cb_bits c \<le> 8 \<and> cr_bits c \<le> 8"

definition bits_per_pixel :: "pixel_color_settings \<Rightarrow> nat" where
  "bits_per_pixel c = (case color_mode c of Grayscale \<Rightarrow> unat (grayscale_bits c)
     | Rgb \<Rightarrow> unat (r_bits c) + unat (g_bits c) + unat (b_bits c)
     | YCbCr \<Rightarrow> unat (y_bits c) + unat (cb_bits c) + unat (cr_bits c))"

definition reference_pixel :: "'g f32_ops \<Rightarrow> pixel_color_settings \<Rightarrow> bool list \<Rightarrow> nat \<Rightarrow> color32" where
  "reference_pixel ops c bs start = (case color_mode c of
     Grayscale \<Rightarrow> gray_levels bs (unat (grayscale_bits c)) start
   | Rgb \<Rightarrow> channel_levels from_rgb bs (unat (r_bits c)) (unat (g_bits c)) (unat (b_bits c)) start
   | YCbCr \<Rightarrow> channel_levels (ycbcr_pixel ops) bs (unat (y_bits c)) (unat (cb_bits c)) (unat (cr_bits c)) start)"

lemma small_width: "w \<le> 8 \<Longrightarrow> unat (w :: 8 word) < 16"
  using word_le_nat_alt[of w 8] by simp

lemma frame_buffer_pixels_exact:
  assumes "settings_ok c" and "0 < bits_per_pixel c"
  shows "decode_pixels ops c bs
    = Ok (map (\<lambda>k. reference_pixel ops c bs (k * bits_per_pixel c)) [0..<ceil_div (length bs) (bits_per_pixel c)])"
  using assms
  by (cases "color_mode c")
    (simp_all add: decode_pixels_def bits_per_pixel_def reference_pixel_def settings_ok_def small_width
      decode_grayscale_exact decode_rgb_exact decode_ycbcr_exact)

text \<open>C25. Frame buffer pixels. With channels of at most eight bits, as the messages set them, and at least one bit to a
  pixel, the image has a pixel for every group of bits and one for a rest at the end. Each is the pixel of the reference:
  the bits of its channels, read most significant first with zeros after the end, scaled to the range of a byte. The path
  for whole pixels and the one for the rest agree on it, in all three modes.\<close>

theorem frame_buffer_pixels:
  assumes "settings_ok c" and "0 < bits_per_pixel c"
  shows "decode_pixels ops c bs
    = Ok (map (\<lambda>k. reference_pixel ops c bs (k * bits_per_pixel c)) [0..<ceil_div (length bs) (bits_per_pixel c)])"
  by (rule frame_buffer_pixels_exact[OF assms])

theorem frame_buffer_pixels_witness:
  "\<forall>ops :: nat f32_ops. decode_pixels ops (pixel_color_default\<lparr>color_mode := Rgb, r_bits := 2, g_bits := 2, b_bits := 2\<rparr>)
    [True, False, False, True, True, False, True] = Ok [from_rgb 170 85 170, from_rgb 170 0 0]"
proof
  have ok: "settings_ok (pixel_color_default\<lparr>color_mode := Rgb, r_bits := 2, g_bits := 2, b_bits := 2\<rparr>)"
    "bits_per_pixel (pixel_color_default\<lparr>color_mode := Rgb, r_bits := 2, g_bits := 2, b_bits := 2\<rparr>) = 6"
    by (simp_all add: settings_ok_def pixel_color_default_def bits_per_pixel_def)
  fix ops :: "nat f32_ops"
  show "decode_pixels ops (pixel_color_default\<lparr>color_mode := Rgb, r_bits := 2, g_bits := 2, b_bits := 2\<rparr>)
    [True, False, False, True, True, False, True] = Ok [from_rgb 170 85 170, from_rgb 170 0 0]"
    by (subst frame_buffer_pixels[OF ok(1)]) (simp_all add: ok(2) bits_per_pixel_def ceil_div_def upt_rec reference_pixel_def pixel_color_default_def
        channel_levels_def channel_level_def channel_value_def value_of_def bit_at_def from_rgb_def)
qed

subsection \<open>What the bits are\<close>

lemma bits_above: "biguint_bits v \<le> i \<Longrightarrow> \<not> biguint_bit v i"
proof -
  assume le: "biguint_bits v \<le> i"
  have "v < 2 ^ i"
  proof (cases "v = 0")
    case False
    have "v < 2 ^ length (digits_of 2 v)"
      using value_of_bound[of "digits_of 2 v" 2] value_of_digits[of 2 v] digits_of_less[of 2] by auto
    also have "(2 :: nat) ^ length (digits_of 2 v) \<le> 2 ^ i" using le False by (intro power_increasing) (auto simp: biguint_bits_def)
    finally show ?thesis .
  qed simp
  then show ?thesis by (simp add: biguint_bit_def)
qed

lemma pad_bits: "m \<le> n \<Longrightarrow> (\<And>i. m \<le> i \<Longrightarrow> \<not> f i) \<Longrightarrow> replicate (n - m) False @ map f (rev [0..<m]) = map f (rev [0..<n])"
proof -
  assume "m \<le> n" and f: "\<And>i. m \<le> i \<Longrightarrow> \<not> f i"
  then have "[0..<n] = [0..<m] @ [m..<n]" using upt_add_eq_append[of 0 m "n - m"] by simp
  moreover have "map f (rev [m..<n]) = replicate (n - m) False" using f by (simp add: list_eq_iff_nth_eq rev_nth)
  ultimately show ?thesis by simp
qed

lemma biguint_lower_bits: "append_biguint_lower_bits v n = map (biguint_bit v) (rev [0..<n])"
  using pad_bits[of "biguint_bits v" n "biguint_bit v"] bits_above[of v] by (auto simp: append_biguint_lower_bits_def)

lemma bit_Suc_half: "biguint_bit v (Suc i) = biguint_bit (v div 2) i"
  by (simp add: biguint_bit_def div_mult2_eq)

lemma digit_bits: "map (\<lambda>d. digit_char d = CHR ''1'') (digits_of 2 v) = map (biguint_bit v) (rev [0..<length (digits_of 2 v)])"
proof (induction v rule: less_induct)
  case (less v)
  show ?case
  proof (cases "v < 2")
    case True
    then have "v = 0 \<or> v = 1" by auto
    then show ?thesis by (auto simp: biguint_bit_def digits_of.simps[of 2 0] digits_of.simps[of 2 "Suc 0"])
  next
    case False
    let ?n = "length (digits_of 2 (v div 2))"
    have d: "digits_of 2 v = digits_of 2 (v div 2) @ [v mod 2]" using False by (subst digits_of.simps) simp
    have up: "rev [0..<Suc ?n] = map Suc (rev [0..<?n]) @ [0]"
    proof -
      have "[0..<Suc ?n] = 0 # map Suc [0..<?n]" by (metis map_Suc_upt upt_conv_Cons zero_less_Suc)
      then show ?thesis by (simp only: rev.simps rev_map)
    qed
    have last_digit: "(digit_char (v mod 2) = CHR ''1'') = biguint_bit v 0"
      using mod2_eq_if[of v] by (auto simp: biguint_bit_def)
    show ?thesis using less.IH[of "v div 2"] False
      by (simp add: d up last_digit bit_Suc_half comp_def del: upt_Suc)
  qed
qed

lemma str_lower_bits: "append_str_lower_bits (show_radix 2 v) n = map (biguint_bit v) (rev [0..<n])"
proof -
  let ?L = "length (digits_of 2 v)"
  have all: "map (\<lambda>b. b = CHR ''1'') (show_radix 2 v) = map (biguint_bit v) (rev [0..<?L])"
    using digit_bits[of v] by (simp add: show_radix_def comp_def)
  have suffix: "map (\<lambda>b. b = CHR ''1'') (drop (?L - n) (show_radix 2 v)) = map (biguint_bit v) (rev [0..<min n ?L])"
  proof -
    have "drop (?L - n) (rev [0..<?L]) = rev (take (?L - (?L - n)) [0..<?L])" using rev_take[of "?L - (?L - n)" "[0..<?L]"] by simp
    then have "drop (?L - n) (rev [0..<?L]) = rev [0..<min n ?L]" by (simp add: min_def)
    then show ?thesis unfolding drop_map[symmetric] all by (simp only: drop_map)
  qed
  have "replicate (n - min n ?L) False @ map (biguint_bit v) (rev [0..<min n ?L]) = map (biguint_bit v) (rev [0..<n])"
  proof (cases "n \<le> ?L")
    case False
    then show ?thesis using pad_bits[of ?L n "biguint_bit v"] bits_above[of v] by (auto simp: min_def biguint_bits_def split: if_splits)
  qed (simp add: min_def)
  then show ?thesis using suffix by (simp add: append_str_lower_bits_def Let_def min_def split: if_splits)
qed

text \<open>Frame buffer bits. A value of a variable of \<open>n\<close> bits gives the frame buffer exactly its \<open>n\<close> lowest bits, the
  highest of them first, filled up with zeros in front, and a value that the waveform gives as a text of binary digits
  gives the same bits as the number.\<close>

theorem frame_buffer_bits_exact:
  "frame_buffer_bits (BigUint v) n = map (\<lambda>i. odd (v div 2 ^ i)) (rev [0..<n])
   \<and> frame_buffer_bits (String (show_radix 2 v)) n = frame_buffer_bits (BigUint v) n"
  by (simp add: frame_buffer_bits_def biguint_lower_bits str_lower_bits biguint_bit_def[abs_def])

subsection \<open>No panic\<close>

definition level_ok :: "array_level \<Rightarrow> bool" where
  "level_ok lv \<longleftrightarrow> min_index lv \<le> first_index lv \<and> first_index lv \<le> last_index lv \<and> last_index lv \<le> max_index lv"

definition levels_ok :: "array_level list \<Rightarrow> bool" where
  "levels_ok levels \<longleftrightarrow> levels \<noteq> [] \<and> list_all level_ok levels"

definition frame_buffer_ok :: "('v, 's) frame_buffer_state \<Rightarrow> bool" where
  "frame_buffer_ok s \<longleftrightarrow> settings_ok (color_settings (fb_settings s))
     \<and> (case fb_content s of Some (FbArray scope levels) \<Rightarrow> levels_ok levels | _ \<Rightarrow> True)"

lemma ord_clamp_Ok: "lo \<le> hi \<Longrightarrow> ord_clamp i lo hi = Ok (max lo (min hi i))"
  by (auto simp: ord_clamp_def)

lemma set_level_range_ok:
  assumes "level_ok lv"
  shows "\<exists>lv'. set_level_range lv r = Ok lv' \<and> level_ok lv'"
proof -
  from assms have "min_index lv \<le> max_index lv" by (simp add: level_ok_def)
  then show ?thesis by (auto simp: set_level_range_def ord_clamp_Ok level_ok_def min_def max_def)
qed

lemma settle_level_ok: "level_ok lv \<Longrightarrow> settle_level lv = Ok lv"
  by (cases lv) (auto simp: settle_level_def ord_clamp_def level_ok_def)

lemma collect_outcomes_all:
  assumes "\<And>x. x \<in> set xs \<Longrightarrow> \<exists>y. g x = Ok y \<and> Q y"
  shows "\<exists>ys. collect_outcomes (map g xs) = Ok ys \<and> length ys = length xs \<and> list_all Q ys"
  using assms
proof (induction xs)
  case (Cons x xs)
  then obtain y where "g x = Ok y" "Q y" by auto
  moreover from Cons obtain ys where "collect_outcomes (map g xs) = Ok ys" "length ys = length xs" "list_all Q ys" by auto
  ultimately show ?case by simp
qed simp

lemma list_all_drop: "list_all Q xs \<Longrightarrow> list_all Q (drop n xs)"
  by (meson in_set_dropD list_all_iff)

lemma set_ranges_ok:
  assumes "levels_ok levels"
  shows "\<exists>ys. collect_outcomes (map (\<lambda>(lv, r). set_level_range lv r) (zip levels ranges)) = (Ok ys :: (string, _) outcome)
    \<and> levels_ok (ys @ drop (length ys) levels)"
proof -
  have each: "\<exists>y. (\<lambda>(lv, r). set_level_range lv r) x = Ok y \<and> level_ok y" if "x \<in> set (zip levels ranges)" for x
  proof -
    obtain lv r where x: "x = (lv, r)" by (cases x)
    then have "level_ok lv" using that assms by (auto simp: levels_ok_def list_all_iff dest: set_zip_leftD)
    then show ?thesis using set_level_range_ok[of lv r] by (simp add: x)
  qed
  obtain ys where
    "collect_outcomes (map (\<lambda>(lv, r). set_level_range lv r) (zip levels ranges)) = (Ok ys :: (string, _) outcome)"
    "length ys = min (length levels) (length ranges)" "list_all level_ok ys"
    using collect_outcomes_all[of "zip levels ranges" "\<lambda>(lv, r). set_level_range lv r" level_ok, OF each] by (auto simp del: map_zip_map)
  with assms show ?thesis by (auto simp: levels_ok_def list_all_drop min_def split: if_splits)
qed

lemma collect_settled: "list_all level_ok levels \<Longrightarrow> collect_outcomes (map settle_level levels) = Ok levels"
  by (induction levels) (simp_all add: settle_level_ok)

lemma min_max_8:
  fixes w :: "8 word"
  shows "min w 8 \<le> 8" "max 1 (min 8 w) \<le> 8" "1 \<le> max 1 (min 8 w)"
  by (simp_all add: min_def max_def) (simp add: word_le_nat_alt)

lemma set_mode_ok: "settings_ok c \<Longrightarrow> settings_ok (set_mode m a b d c)"
  by (cases m) (auto simp: set_mode_def settings_ok_def Let_def min_max_8)

lemma Min_set_le_Max: "xs \<noteq> [] \<Longrightarrow> Min (set xs) \<le> Max (set (xs :: int list))"
  by (meson List.finite_set Max_ge Min_in set_empty)

lemma probed_levels_ok:
  assumes "probe_levels wc s levels = Some r" and "list_all level_ok levels"
  shows "list_all level_ok (fst r)"
proof -
  have "list_all level_ok levels \<longrightarrow> list_all level_ok (fst r)"
  proof (rule probe_levels.raw_induct[where P = "\<lambda>wc s levels r. list_all level_ok levels \<longrightarrow> list_all level_ok (fst r)", OF _ assms(1)], goal_cases)
    case (1 f wc s levels r)
    note IH = 1(1) and body = 1(2)
    show ?case
    proof (cases "child_scopes_or_default wc s")
      case Nil
      then show ?thesis using body by auto
    next
      case (Cons c cs)
      let ?is = "map scope_array_index (c # cs)"
      let ?lv = "\<lparr>min_index = Min (set ?is), max_index = Max (set ?is), first_index = Min (set ?is), last_index = Max (set ?is)\<rparr>"
      have lv: "level_ok ?lv" using Min_set_le_Max[of ?is] by (simp add: level_ok_def del: list.set)
      have "f wc (arg_min_list scope_array_index (c # cs)) (levels @ [?lv]) = Some r" using body Cons by (simp only: Let_def list.distinct if_False)
      from IH[OF this] lv show ?thesis by simp
    qed
  qed
  with assms(2) show ?thesis by simp
qed

lemma built_levels_ok: "build_frame_buffer_content wc scope = Some (levels, vs) \<Longrightarrow> levels_ok levels"
proof -
  assume b: "build_frame_buffer_content wc scope = Some (levels, vs)"
  then obtain ls leaf where p: "probe_levels wc scope [] = Some (ls, leaf)"
    and l: "levels = ls @ [variable_level (map variable_array_index (wc_variables_in_scope wc leaf))]"
    by (auto simp: build_frame_buffer_content_def Let_def split: option.splits)
  have "level_ok (variable_level is)" for "is"
    using Min_set_le_Max[of "filter (\<lambda>i. i \<noteq> i64_max) is"] by (simp add: variable_level_def level_ok_def Let_def)
  then show ?thesis using probed_levels_ok[OF p] by (simp add: l levels_ok_def)
qed

text \<open>The order of an array: depth first, the children of each scope and the variables of a leaf in index order.\<close>

definition in_level :: "array_level \<Rightarrow> int \<Rightarrow> bool" where
  "in_level lv i \<longleftrightarrow> first_index lv \<le> i \<and> i \<le> last_index lv"

fun array_members :: "('v, 's) wave_container \<Rightarrow> array_level list \<Rightarrow> array_level \<Rightarrow> 's scope_ref \<Rightarrow> ('v, 's) variable_ref list" where
  "array_members wc [] var_lv s = filter (\<lambda>v. in_level var_lv (variable_array_index v)) (sort_key variable_array_index (wc_variables_in_scope wc s))"
| "array_members wc (lv # lvs) var_lv s = concat (map (array_members wc lvs var_lv)
     (sort_key scope_array_index (filter (\<lambda>c. in_level lv (scope_array_index c)) (child_scopes_or_default wc s))))"

lemma level_clamps:
  assumes "level_ok lv"
  shows "ord_clamp (first_index lv) (min_index lv) (max_index lv) = Ok (first_index lv)"
    "ord_clamp (last_index lv) (min_index lv) (max_index lv) = Ok (last_index lv)"
  using assms by (auto simp: ord_clamp_def level_ok_def)

lemma select_scopes_ok:
  "level_ok lv \<Longrightarrow> select_scopes wc lv scopes = Ok (concat (map (\<lambda>s. sort_key scope_array_index
     (filter (\<lambda>c. in_level lv (scope_array_index c)) (child_scopes_or_default wc s))) scopes))"
  by (simp add: select_scopes_def level_clamps in_level_def in_index_range_def)

lemma walk_members:
  assumes "list_all level_ok lvs"
  shows "\<exists>leaves. walk_levels wc lvs scopes = Ok leaves
    \<and> concat (map (array_members wc [] var_lv) leaves) = concat (map (array_members wc lvs var_lv) scopes)"
  using assms
proof (induction lvs arbitrary: scopes)
  case (Cons lv lvs)
  let ?next = "concat (map (\<lambda>s. sort_key scope_array_index
     (filter (\<lambda>c. in_level lv (scope_array_index c)) (child_scopes_or_default wc s))) scopes)"
  from Cons.prems have "list_all level_ok lvs" by simp
  from Cons.IH[OF this, of ?next] obtain leaves where "walk_levels wc lvs ?next = Ok leaves"
    "concat (map (array_members wc [] var_lv) leaves) = concat (map (array_members wc lvs var_lv) ?next)"
    by blast
  moreover have "concat (map (array_members wc lvs var_lv) ?next) = concat (map (array_members wc (lv # lvs) var_lv) scopes)"
    by (induction scopes) simp_all
  ultimately show ?case using Cons.prems by (simp add: select_scopes_ok del: array_members.simps)
qed simp

lemma resolve_members:
  assumes "levels_ok levels"
  shows "\<exists>r. resolve_leaf_scopes_and_variables wc scope levels = Ok r
    \<and> (case r of None \<Rightarrow> [] | Some vs \<Rightarrow> vs) = array_members wc (butlast levels) (last levels) scope"
proof -
  let ?v = "last levels"
  from assms have ok: "levels \<noteq> []" "list_all level_ok (butlast levels)" "level_ok ?v"
    by (auto simp: levels_ok_def list_all_iff dest: in_set_butlastD)
  from walk_members[OF ok(2), of wc "[scope]" ?v] obtain leaves where w: "walk_levels wc (butlast levels) [scope] = Ok leaves"
    and c: "concat (map (array_members wc [] ?v) leaves) = array_members wc (butlast levels) ?v scope"
    by auto
  have "\<not> last_index ?v < first_index ?v" using ok(3) by (simp add: level_ok_def)
  moreover have "(\<lambda>leaf. filter (\<lambda>v. in_index_range (first_index ?v) (last_index ?v) (variable_array_index v))
      (sort_key variable_array_index (wc_variables_in_scope wc leaf))) = array_members wc [] ?v"
    by (simp add: fun_eq_iff in_index_range_def in_level_def)
  ultimately have "resolve_leaf_scopes_and_variables wc scope levels
      = Ok (if leaves = [] then None else Some (concat (map (array_members wc [] ?v) leaves)))"
    unfolding resolve_leaf_scopes_and_variables_def Let_def w and_then.simps level_clamps[OF ok(3)] by (simp add: ok(1) del: array_members.simps)
  then show ?thesis using c by (cases "leaves = []") (simp_all del: array_members.simps)
qed

lemma fill_array_cache_ok:
  "(case content of FbArray scope levels \<Rightarrow> levels_ok levels | _ \<Rightarrow> True) \<Longrightarrow> \<exists>c. fill_array_cache wc content cur = Ok c"
proof (cases content)
  case (FbArray scope levels)
  moreover assume "case content of FbArray scope levels \<Rightarrow> levels_ok levels | _ \<Rightarrow> True"
  ultimately obtain r where "resolve_leaf_scopes_and_variables wc scope levels = Ok r" using resolve_members[of levels wc scope] by auto
  then show ?thesis using FbArray by (simp add: fill_array_cache_def Let_def)
qed (simp add: fill_array_cache_def Let_def)

lemma selected_ok:
  assumes "frame_buffer_ok s"
  shows "\<exists>c sel. selected_variable_for_frame_buffer cur wc s = Ok (s\<lparr>fb_array_cache := c\<rparr>, sel)"
proof (cases "\<exists>content wc'. cur \<noteq> None \<and> 0 \<le> the cur \<and> wc = Some wc' \<and> fb_content s = Some content")
  case True
  then obtain content wc' where "fb_content s = Some content" "wc = Some wc'" "cur \<noteq> None" "0 \<le> the cur" by blast
  moreover obtain c where "fill_array_cache wc' content (nat (the cur)) = Ok c"
    using fill_array_cache_ok[of content] assms \<open>fb_content s = Some content\<close> unfolding frame_buffer_ok_def by (auto split: frame_buffer_content.splits)
  ultimately show ?thesis
    by (cases c) (auto simp: selected_variable_for_frame_buffer_def Let_def split: option.splits intro: exI[of _ "fb_array_cache s"])
qed (auto simp: selected_variable_for_frame_buffer_def split: option.splits intro!: exI[of _ "fb_array_cache s"])

text \<open>Frame buffer of an array. The variables of a nested array are exactly those whose indices are in the chosen range
  on every level, in the order of the array: scopes by index, level by level, and the variables of a leaf by index. The
  walk that collects the scopes level by level agrees with the recursive enumeration, and finds no variables at all where
  that finds none.\<close>

theorem frame_buffer_array_order:
  assumes "levels_ok levels"
  shows "\<exists>r. resolve_leaf_scopes_and_variables wc scope levels = Ok r
    \<and> (case r of None \<Rightarrow> [] | Some vs \<Rightarrow> vs) = array_members wc (butlast levels) (last levels) scope"
  by (rule resolve_members[OF assms])

text \<open>The states that messages and the drawing of the window can reach, over any canvases and containers.\<close>

inductive frame_buffer_reachable :: "'g f32_ops \<Rightarrow> ('v, 's, 't) wave_data option set \<Rightarrow> ('v, 's) frame_buffer_state \<Rightarrow> bool"
  for ops canvases where
  start: "settings_ok (color_settings st) \<Longrightarrow>
    frame_buffer_reachable ops canvases \<lparr>fb_content = None, fb_array_cache = None, fb_pixel_cache = None, fb_settings = st\<rparr>"
| message: "frame_buffer_reachable ops canvases s \<Longrightarrow> waves \<in> canvases \<Longrightarrow> frame_buffer_update waves wc m s = Some (Ok s')
    \<Longrightarrow> frame_buffer_reachable ops canvases s'"
| drawing: "frame_buffer_reachable ops canvases s \<Longrightarrow> draw_frame_buffer_window ops cur wc s = Ok (s', view)
    \<Longrightarrow> frame_buffer_reachable ops canvases s'"

lemma ok_content: "frame_buffer_ok (s\<lparr>fb_content := c\<rparr>) \<longleftrightarrow> settings_ok (color_settings (fb_settings s))
     \<and> (case c of Some (FbArray scope levels) \<Rightarrow> levels_ok levels | _ \<Rightarrow> True)"
  by (simp add: frame_buffer_ok_def)

lemma visible_variable_ok: "case visible_variable w vidx of Some (FbArray scope levels) \<Rightarrow> levels_ok levels | _ \<Rightarrow> True"
  by (auto simp: visible_variable_def split: option.splits displayed_item.splits)

lemma update_ok:
  assumes "frame_buffer_ok s" and "frame_buffer_update waves wc m s = Some r"
  shows "\<exists>s'. r = Ok s' \<and> frame_buffer_ok s'"
proof (cases m)
  case (SetFrameBufferRange ranges)
  show ?thesis
  proof (cases "\<exists>scope levels. fb_content s = Some (FbArray scope levels)")
    case True
    then obtain scope levels where c: "fb_content s = Some (FbArray scope levels)" by blast
    with assms(1) have "levels_ok levels" by (simp add: frame_buffer_ok_def)
    from set_ranges_ok[OF this, of ranges] obtain ys where
      "collect_outcomes (map (\<lambda>(lv, r). set_level_range lv r) (zip levels ranges)) = (Ok ys :: (string, _) outcome)"
      "levels_ok (ys @ drop (length ys) levels)"
      by blast
    then show ?thesis using assms SetFrameBufferRange c by (auto simp: frame_buffer_update_def frame_buffer_ok_def)
  next
    case False
    then show ?thesis using assms SetFrameBufferRange
      by (auto simp: frame_buffer_update_def split: option.splits frame_buffer_content.splits)
  qed
next
  case (SetFrameBufferVisibleVariable v)
  moreover from assms(1) have "settings_ok (color_settings (fb_settings s))" by (simp add: frame_buffer_ok_def)
  ultimately show ?thesis using assms
    by (cases v; cases waves) (auto simp: frame_buffer_update_def ok_content visible_variable_ok)
next
  case (SetFrameBufferArray scope)
  moreover from assms(1) have "settings_ok (color_settings (fb_settings s))" by (simp add: frame_buffer_ok_def)
  ultimately show ?thesis using assms
    by (auto simp: frame_buffer_update_def ok_content built_levels_ok split: option.splits)
next
  case (SetFrameBufferMode mode a b c)
  then show ?thesis using assms by (auto simp: frame_buffer_update_def frame_buffer_ok_def set_mode_ok)
qed (use assms in \<open>auto simp: frame_buffer_update_def frame_buffer_ok_def split: if_splits\<close>)

lemma window_pixels_ok:
  assumes "frame_buffer_ok s"
  shows "(\<exists>p colors. window_pixels ops bs key s = Ok (s\<lparr>fb_pixel_cache := p\<rparr>, colors)) \<or> (\<exists>label. window_pixels ops bs key s = Err label)"
proof -
  let ?c = "color_settings (fb_settings s)"
  have "decode_pixels ops ?c bs \<noteq> Panic"
  proof (cases "0 < bits_per_pixel ?c")
    case True
    with assms frame_buffer_pixels_exact[of ?c ops bs] show ?thesis by (simp add: frame_buffer_ok_def)
  next
    case False
    with assms show ?thesis
      by (cases "color_mode ?c") (auto simp: decode_pixels_def bits_per_pixel_def frame_buffer_ok_def settings_ok_def word_le_nat_alt)
  qed
  then show ?thesis
    by (cases "decode_pixels ops ?c bs") (auto simp: window_pixels_def Let_def split: option.splits intro: exI[of _ "fb_pixel_cache s"])
qed

lemma draw_ok:
  assumes "frame_buffer_ok s"
  shows "\<exists>s' view. draw_frame_buffer_window ops cur wc s = Ok (s', view) \<and> frame_buffer_ok s'"
proof -
  from selected_ok[OF assms] obtain c sel where sel: "selected_variable_for_frame_buffer cur wc s = Ok (s\<lparr>fb_array_cache := c\<rparr>, sel)" by blast
  let ?s1 = "s\<lparr>fb_array_cache := c\<rparr>"
  have ok1: "frame_buffer_ok ?s1" using assms by (simp add: frame_buffer_ok_def)
  show ?thesis
  proof (cases sel)
    case None
    then show ?thesis using sel ok1 by (simp add: draw_frame_buffer_window_def)
  next
    case (Some t)
    then obtain bs key name where t: "sel = Some (bs, key, name)" by (cases t) auto
    from window_pixels_ok[OF ok1, of ops bs key] show ?thesis
    proof (elim disjE exE)
      fix p colors
      assume w: "window_pixels ops bs key ?s1 = Ok (?s1\<lparr>fb_pixel_cache := p\<rparr>, colors)"
      have "draw_array_index_range (?s1\<lparr>fb_pixel_cache := p\<rparr>) = Ok (?s1\<lparr>fb_pixel_cache := p\<rparr>)"
        using assms by (cases s) (auto simp: draw_array_index_range_def frame_buffer_ok_def levels_ok_def collect_settled
            split: option.splits frame_buffer_content.splits)
      then show ?thesis using sel t w ok1 by (simp add: draw_frame_buffer_window_def frame_buffer_ok_def Let_def)
    next
      fix label
      assume "window_pixels ops bs key ?s1 = Err label"
      then show ?thesis using sel t ok1 by (simp add: draw_frame_buffer_window_def)
    qed
  qed
qed

lemma frame_buffer_reachable_ok: "frame_buffer_reachable ops canvases s \<Longrightarrow> frame_buffer_ok s"
proof (induction rule: frame_buffer_reachable.induct)
  case (message s waves wc m s')
  then show ?case using update_ok by blast
next
  case (drawing s cur wc s' view)
  then show ?case using draw_ok[of s ops cur wc] by auto
qed (simp add: frame_buffer_ok_def)

lemma draw_image:
  assumes "draw_frame_buffer_window ops cur wc s = Ok (s', Inr im)"
  shows "im_columns im \<ge> 1 \<and> im_rows im = ceil_div (length (im_pixels im)) (im_columns im) \<and> im_pixels im \<noteq> []"
proof -
  from assms obtain s1 sel where "selected_variable_for_frame_buffer cur wc s = Ok (s1, sel)"
    by (auto simp: draw_frame_buffer_window_def and_then_Ok)
  moreover from this assms obtain bs key name where "sel = Some (bs, key, name)" "bs \<noteq> []"
    by (cases sel) (auto simp: draw_frame_buffer_window_def split: if_splits)
  moreover from calculation assms obtain s2 colors where "window_pixels ops bs key s1 = Ok (s2, colors)" "colors \<noteq> []"
    by (cases "window_pixels ops bs key s1") (auto simp: draw_frame_buffer_window_def split: if_splits)
  moreover from calculation assms obtain s3 where "draw_array_index_range s2 = Ok s3"
    by (auto simp: draw_frame_buffer_window_def Let_def and_then_Ok)
  ultimately show ?thesis using assms by (auto simp: draw_frame_buffer_window_def Let_def)
qed

lemma rows_fit:
  assumes "0 < columns" "0 < n"
  shows "n \<le> columns * ceil_div n columns \<and> columns * (ceil_div n columns - 1) < n"
proof -
  let ?q = "ceil_div n columns"
  have "columns * ?q \<le> n + columns - 1" unfolding ceil_div_def by (rule times_div_less_eq_dividend)
  moreover have "n + columns - 1 < columns + columns * ?q" using assms unfolding ceil_div_def by (intro dividend_less_times_div)
  moreover have "columns * (?q - 1) = columns * ?q - columns" by (simp add: diff_mult_distrib2)
  ultimately show ?thesis using assms by linarith
qed

text \<open>C26. The frame buffer never panics. From settings of at most eight bits a channel, in every state that messages and
  drawing reach, the next message gives a state whenever it returns, and drawing gives a label or an image: no clamp is asked
  for an empty range, no shift is too wide and an array has at least one level. The image has room for every pixel and no
  row to spare.\<close>

theorem frame_buffer_never_panics:
  assumes "frame_buffer_reachable ops canvases s"
  shows "frame_buffer_update waves wc m s \<noteq> Some Panic
    \<and> (\<exists>s' view. draw_frame_buffer_window ops cur wc s = Ok (s', view)
        \<and> (case view of Inl label \<Rightarrow> True | Inr im \<Rightarrow>
             length (im_pixels im) \<le> im_columns im * im_rows im \<and> im_columns im * (im_rows im - 1) < length (im_pixels im)))"
proof -
  have ok: "frame_buffer_ok s" by (rule frame_buffer_reachable_ok[OF assms])
  from draw_ok[OF ok, of ops cur wc] obtain s' view where d: "draw_frame_buffer_window ops cur wc s = Ok (s', view)" by blast
  have "case view of Inl label \<Rightarrow> True | Inr im \<Rightarrow>
      length (im_pixels im) \<le> im_columns im * im_rows im \<and> im_columns im * (im_rows im - 1) < length (im_pixels im)"
    using draw_image[of ops cur wc s s'] d rows_fit by (cases view) auto
  moreover have "frame_buffer_update waves wc m s \<noteq> Some Panic" using update_ok[OF ok, of waves wc m] by auto
  ultimately show ?thesis using d by blast
qed

theorem frame_buffer_never_panics_witness:
  "frame_buffer_update (None :: (nat, nat, nat) wave_data option) None (SetFrameBufferRange [(3, 1)])
     (\<lparr>fb_content = None, fb_array_cache = None, fb_pixel_cache = None, fb_settings = frame_buffer_default\<rparr> :: (nat, nat) frame_buffer_state)
     \<noteq> Some Panic"
proof -
  have "frame_buffer_reachable (undefined :: nat f32_ops) ({} :: (nat, nat, nat) wave_data option set)
      (\<lparr>fb_content = None, fb_array_cache = None, fb_pixel_cache = None, fb_settings = frame_buffer_default\<rparr> :: (nat, nat) frame_buffer_state)"
    by (rule frame_buffer_reachable.start) (simp add: frame_buffer_default_def pixel_color_default_def settings_ok_def)
  then show ?thesis by (rule frame_buffer_never_panics[THEN conjunct1])
qed

subsection \<open>The analysis returns\<close>

lemma arg_min_list_in: "xs \<noteq> [] \<Longrightarrow> arg_min_list f xs \<in> set xs"
  by (induction f xs rule: arg_min_list.induct) (auto simp: Let_def)

lemma probe_returns:
  assumes tree: "\<And>s c. c \<in> set (child_scopes_or_default wc s) \<Longrightarrow> mu c < (mu s :: nat)"
  shows "probe_levels wc s levels \<noteq> None"
proof (induction "mu s" arbitrary: s levels rule: less_induct)
  case less
  show ?case
  proof (cases "child_scopes_or_default wc s")
    case Nil
    then show ?thesis by (subst probe_levels.simps) simp
  next
    case (Cons c cs)
    have "mu (arg_min_list scope_array_index (c # cs)) < mu s"
      using tree[of "arg_min_list scope_array_index (c # cs)" s] arg_min_list_in[of "c # cs" scope_array_index] Cons by simp
    from less.hyps[OF this] show ?thesis using Cons by (subst probe_levels.simps) (simp add: Let_def del: arg_min_list.simps)
  qed
qed

text \<open>C27. The analysis of an array returns. When every child of a scope is smaller than the scope by some measure (the scopes
  are a finite tree), the loop that follows the first children ends: the message for an array of scopes returns, and the
  frame buffer shows the scope with at least one level, every one with its bounds in order.\<close>

theorem frame_buffer_array_returns:
  assumes "\<And>s c. c \<in> set (child_scopes_or_default wc s) \<Longrightarrow> mu c < (mu s :: nat)"
  shows "\<exists>levels. frame_buffer_update (Some w) (Some wc) (SetFrameBufferArray scope) s
    = Some (Ok (s\<lparr>fb_content := Some (FbArray scope levels)\<rparr>)) \<and> levels_ok levels"
proof -
  have "probe_levels wc scope [] \<noteq> None" by (rule probe_returns[OF assms])
  then obtain levels vs where b: "build_frame_buffer_content wc scope = Some (levels, vs)"
    by (cases "probe_levels wc scope []") (auto simp: build_frame_buffer_content_def Let_def)
  then show ?thesis using built_levels_ok[OF b] by (auto simp: frame_buffer_update_def)
qed

text \<open>An array of two words of two bits, in one scope.\<close>

definition word_ref :: "string \<Rightarrow> (nat, nat) variable_ref" where
  "word_ref name = \<lparr>vr_path = \<lparr>sc_strs = [''mem''], sc_id = None\<rparr>, vr_name = name, vr_id = None, vr_index = None\<rparr>"

definition two_words :: "(string \<Rightarrow> nat option) \<Rightarrow> (nat, nat) wave_container" where
  "two_words val = \<lparr>wc_variable_meta = (\<lambda>v. Some \<lparr>vm_var = v, vm_num_bits = Some 2, vm_variable_type = None,
       vm_variable_type_name = None, vm_index = None, vm_direction = None, vm_enum_map = [], vm_encoding = EncBitVector\<rparr>),
     wc_query_variable = (\<lambda>v t. Some (map_option (\<lambda>n. \<lparr>qr_current = Some (0, BigUint n), qr_next = None\<rparr>) (val (vr_name v)))),
     wc_variables_in_scope = (\<lambda>s. if sc_strs s = [''mem''] then [word_ref ''[1]'', word_ref ''[0]''] else []),
     wc_child_scopes = (\<lambda>s. Some (if sc_strs s = [''top''] then [\<lparr>sc_strs = [''mem''], sc_id = None\<rparr>] else [])),
     wc_variables = [word_ref ''[1]'', word_ref ''[0]''], wc_scope_is_variable = (\<lambda>s. False), wc_max_timestamp = Some 100\<rparr>"

theorem frame_buffer_array_returns_witness:
  "\<forall>(w :: (nat, nat, nat) wave_data) s. \<exists>levels. frame_buffer_update (Some w) (Some (two_words Map.empty)) (SetFrameBufferArray \<lparr>sc_strs = [''top''], sc_id = None\<rparr>) s
    = Some (Ok (s\<lparr>fb_content := Some (FbArray \<lparr>sc_strs = [''top''], sc_id = None\<rparr> levels)\<rparr>)) \<and> levels_ok levels"
  by (intro allI, rule frame_buffer_array_returns[where mu = "\<lambda>s. if sc_strs s = [''top''] then 1 else 0"])
    (auto simp: child_scopes_or_default_def two_words_def split: if_splits)

subsection \<open>The array cache keeps what it saw\<close>

text \<open>
  The key of the array cache is the content and the cursor. A variable of an array whose signal is still loading counts as
  zeros, and the zeros stay: with the cursor and the content unchanged, the window shows them after the signal has
  arrived, where a window that was opened then shows the value.
\<close>

lemma array_cache_ignores_container:
  assumes "fb_content s = Some content" "fb_array_cache s = Some c" "content_key_eq (ac_key c) \<lparr>ck_content = content, ck_cursor = nat cur\<rparr>"
  shows "selected_variable_for_frame_buffer (Some cur) (Some wc) s = selected_variable_for_frame_buffer (Some cur) (Some wc') s"
  using assms by (simp add: selected_variable_for_frame_buffer_def Let_def)

definition shown_bits :: "(string, ('v, 's) frame_buffer_state \<times> (bool list \<times> ('v, 's) content_cache_key \<times> string) option) outcome
    \<Rightarrow> bool list option" where
  "shown_bits r = (case r of Ok (s, Some (bs, key, name)) \<Rightarrow> Some bs | _ \<Rightarrow> None)"

definition after_draw :: "(string, ('v, 's) frame_buffer_state \<times> (bool list \<times> ('v, 's) content_cache_key \<times> string) option) outcome
    \<Rightarrow> ('v, 's) frame_buffer_state \<Rightarrow> ('v, 's) frame_buffer_state" where
  "after_draw r s = (case r of Ok (s', _) \<Rightarrow> s' | _ \<Rightarrow> s)"

definition opened_array :: "(nat, nat) frame_buffer_state" where
  "opened_array = \<lparr>fb_content = Some (FbArray \<lparr>sc_strs = [''mem''], sc_id = None\<rparr>
       [\<lparr>min_index = 0, max_index = 1, first_index = 0, last_index = 1\<rparr>]),
     fb_array_cache = None, fb_pixel_cache = None, fb_settings = frame_buffer_default\<rparr>"

theorem frame_buffer_stale:
  "let loading = two_words Map.empty; loaded = two_words (\<lambda>n. Some 3); drawn = selected_variable_for_frame_buffer (Some 5) (Some loading) opened_array
   in shown_bits drawn = Some [False, False, False, False]
     \<and> shown_bits (selected_variable_for_frame_buffer (Some 5) (Some loaded) (after_draw drawn opened_array)) = Some [False, False, False, False]
     \<and> shown_bits (selected_variable_for_frame_buffer (Some 5) (Some loaded) opened_array) = Some [True, True, True, True]"
proof -
  have i: "variable_array_index (word_ref ''[1]'') = 1" "variable_array_index (word_ref ''[0]'') = 0"
    by (simp_all add: variable_array_index_def word_ref_def parse_index_name_def parse_i64_def parse_digits_def digit_val_def
        strip_brackets_def strip_prefix_def starts_with_def value_of_def)
  have vs: "resolve_leaf_scopes_and_variables (two_words f) \<lparr>sc_strs = [''mem''], sc_id = None\<rparr>
      [\<lparr>min_index = 0, max_index = 1, first_index = 0, last_index = 1\<rparr>] = Ok (Some [word_ref ''[0]'', word_ref ''[1]''])" for f
    by (simp add: resolve_leaf_scopes_and_variables_def ord_clamp_def two_words_def i in_index_range_def)
  have two: "rev [0..<2] = [Suc 0, 0]" by (simp add: upt_rec)
  have zeros: "build_cached_variable_value (two_words Map.empty) [word_ref ''[0]'', word_ref ''[1]''] 5 = Some [False, False, False, False]"
    by (simp add: build_cached_variable_value_def array_capacity_def array_bits_of_def two_words_def numeral_2_eq_2)
  have ones: "build_cached_variable_value (two_words (\<lambda>n. Some 3)) [word_ref ''[0]'', word_ref ''[1]''] 5 = Some [True, True, True, True]"
    by (simp add: build_cached_variable_value_def array_capacity_def array_bits_of_def two_words_def frame_buffer_bits_def
        biguint_lower_bits biguint_bit_def two)
  show ?thesis
    by (simp add: opened_array_def selected_variable_for_frame_buffer_def fill_array_cache_def Let_def vs zeros ones
        shown_bits_def after_draw_def content_key_eq_def scope_eq_def)
qed

end
