(* ===== verification/Variable_Filter.thy ===== *)
theory Variable_Filter
  imports Translators Transactions Frame_Buffer
begin

section \<open>The variable list and its filter (variable\_filter.rs, hierarchy.rs)\<close>

text \<open>
  Which variables the side panel lists and in which order: the filter by name and direction with its cache of the compiled
  expression, the sorting, the cache of the rows of the list of all variables, and what the button that adds all variables
  sends. The packages regex, fuzzy\_matcher and numeric\_sort are parameters; drawing is left out.
\<close>

subsection \<open>Comparisons\<close>

datatype cmp_ordering = CLess | CEqual | CGreater

definition then_with :: "cmp_ordering \<Rightarrow> cmp_ordering \<Rightarrow> cmp_ordering" where
  "then_with a b = (if a = CEqual then b else a)"

definition cmp_int :: "int \<Rightarrow> int \<Rightarrow> cmp_ordering" where
  "cmp_int a b = (if a < b then CLess else if a = b then CEqual else CGreater)"

definition not_greater :: "('a \<Rightarrow> 'a \<Rightarrow> cmp_ordering) \<Rightarrow> 'a \<Rightarrow> 'a \<Rightarrow> bool" where
  "not_greater f a b \<longleftrightarrow> f a b \<noteq> CGreater"

subsection \<open>Packages\<close>

text \<open>
  \<open>rx_build\<close> compiles an expression (the flag makes it ignore case) or gives the text of the error, \<open>rx_escape\<close> is
  \<^verbatim>\<open>regex::escape\<close>, \<open>fuzzy_match\<close> tells whether the fuzzy matcher (the flag makes it ignore case) finds the pattern, its
  third argument, in the name, and \<open>numeric_cmp\<close> is \<^verbatim>\<open>numeric_sort::cmp\<close>.
\<close>

record 'r match_api =
  rx_build :: "string \<Rightarrow> bool \<Rightarrow> string + 'r"
  rx_is_match :: "'r \<Rightarrow> string \<Rightarrow> bool"
  rx_escape :: "string \<Rightarrow> string"
  fuzzy_match :: "bool \<Rightarrow> string \<Rightarrow> string \<Rightarrow> bool"
  numeric_cmp :: "string \<Rightarrow> string \<Rightarrow> cmp_ordering"

subsection \<open>The filter\<close>

datatype name_filter_type = FilterFuzzy | FilterRegex | FilterStart | FilterContain

datatype io_filter_type = IoInput | IoOutput | IoInOut | IoOther

record 'r filter_cache =
  fc_pattern :: "string option"
  fc_case_insensitive :: bool
  fc_regex :: "'r option"
  fc_error :: "string option"

record 'r variable_filter =
  name_filter_type :: name_filter_type
  name_filter_str :: string
  name_filter_case_insensitive :: bool
  include_inputs :: bool
  include_outputs :: bool
  include_inouts :: bool
  include_others :: bool
  group_by_direction :: bool
  filter_cache :: "'r filter_cache"

definition filter_new :: "'r variable_filter" where
  "filter_new = \<lparr>name_filter_type = FilterContain, name_filter_str = [], name_filter_case_insensitive = True,
     include_inputs = True, include_outputs = True, include_inouts = True, include_others = True, group_by_direction = False,
     filter_cache = \<lparr>fc_pattern = None, fc_case_insensitive = False, fc_regex = None, fc_error = None\<rparr>\<rparr>"

definition filter_pattern :: "'r match_api \<Rightarrow> 'r variable_filter \<Rightarrow> string" where
  "filter_pattern api f = (case name_filter_type f of
     FilterStart \<Rightarrow> ''^'' @ rx_escape api (name_filter_str f)
   | FilterContain \<Rightarrow> rx_escape api (name_filter_str f)
   | _ \<Rightarrow> name_filter_str f)"

text \<open>The cached expression, compiled again when the pattern or the flag has changed or there is none.\<close>

definition rebuild_cache :: "'r match_api \<Rightarrow> string \<Rightarrow> bool \<Rightarrow> 'r filter_cache \<Rightarrow> 'r filter_cache" where
  "rebuild_cache api pat ci c =
     (if fc_pattern c \<noteq> Some pat \<or> fc_case_insensitive c \<noteq> ci \<or> fc_regex c = None
      then (case rx_build api pat ci of
          Inr r \<Rightarrow> \<lparr>fc_pattern = Some pat, fc_case_insensitive = ci, fc_regex = Some r, fc_error = None\<rparr>
        | Inl e \<Rightarrow> \<lparr>fc_pattern = Some pat, fc_case_insensitive = ci, fc_regex = None, fc_error = Some e\<rparr>)
      else c)"

definition name_filter_fn :: "'r match_api \<Rightarrow> 'r variable_filter \<Rightarrow> 'r variable_filter \<times> (string \<Rightarrow> bool)" where
  "name_filter_fn api f =
     (if name_filter_str f = [] then
        (if name_filter_type f = FilterRegex
         then f\<lparr>filter_cache := (filter_cache f)\<lparr>fc_pattern := None, fc_regex := None, fc_error := None\<rparr>\<rparr>
         else f, \<lambda>name. True)
      else if name_filter_type f = FilterFuzzy
      then (f, \<lambda>name. fuzzy_match api (name_filter_case_insensitive f) name (name_filter_str f))
      else let c = rebuild_cache api (filter_pattern api f) (name_filter_case_insensitive f) (filter_cache f)
        in (f\<lparr>filter_cache := c\<rparr>, case fc_regex c of Some r \<Rightarrow> rx_is_match api r | None \<Rightarrow> \<lambda>name. False))"

definition get_variable_direction :: "('v, 's) variable_ref \<Rightarrow> ('v, 's) wave_container option \<Rightarrow> variable_direction" where
  "get_variable_direction v wc_opt = (case wc_opt of None \<Rightarrow> DirUnknown | Some wc \<Rightarrow>
     case wc_variable_meta wc v of None \<Rightarrow> DirUnknown | Some m \<Rightarrow>
     case vm_direction m of None \<Rightarrow> DirUnknown | Some d \<Rightarrow> d)"

definition kind_filter :: "'r variable_filter \<Rightarrow> ('v, 's) wave_container option \<Rightarrow> ('v, 's) variable_ref \<Rightarrow> bool" where
  "kind_filter f wc_opt v = (case get_variable_direction v wc_opt of
     DirInput \<Rightarrow> include_inputs f | DirOutput \<Rightarrow> include_outputs f | DirInOut \<Rightarrow> include_inouts f | _ \<Rightarrow> include_others f)"

definition matching_variables :: "'r match_api \<Rightarrow> 'r variable_filter \<Rightarrow> ('v, 's) variable_ref list \<Rightarrow> ('v, 's) wave_container option
    \<Rightarrow> bool \<Rightarrow> 'r variable_filter \<times> ('v, 's) variable_ref list" where
  "matching_variables api f vs wc_opt by_path = (case name_filter_fn api f of (f', name_filter) \<Rightarrow>
     (f', filter (\<lambda>v. name_filter (if by_path then full_path_string v else vr_name v)) (filter (kind_filter f wc_opt) vs)))"

definition is_regex_and_invalid :: "'r variable_filter \<Rightarrow> bool" where
  "is_regex_and_invalid f \<longleftrightarrow> name_filter_type f = FilterRegex \<and> fc_error (filter_cache f) \<noteq> None"

definition regex_error :: "'r variable_filter \<Rightarrow> string option" where
  "regex_error f = (if name_filter_type f = FilterRegex then fc_error (filter_cache f) else None)"

subsection \<open>Order\<close>

text \<open>The derived order of the directions is the order of the variants.\<close>

fun direction_rank :: "variable_direction \<Rightarrow> nat" where
  "direction_rank DirInput = 0"
| "direction_rank DirOutput = 1"
| "direction_rank DirInOut = 2"
| "direction_rank DirBuffer = 3"
| "direction_rank DirLinkage = 4"
| "direction_rank DirImplicit = 5"
| "direction_rank DirUnknown = 6"

definition variable_cmp :: "'r match_api \<Rightarrow> 'r variable_filter \<Rightarrow> ('v, 's) wave_container option
    \<Rightarrow> ('v, 's) variable_ref \<Rightarrow> ('v, 's) variable_ref \<Rightarrow> cmp_ordering" where
  "variable_cmp api f wc_opt a b =
     (if \<not> group_by_direction f then numeric_cmp api (vr_name a) (vr_name b)
      else let da = get_variable_direction a wc_opt; db = get_variable_direction b wc_opt
        in if da = db then numeric_cmp api (vr_name a) (vr_name b)
           else if direction_rank da < direction_rank db then CLess else CGreater)"

definition filtered_variables :: "'r match_api \<Rightarrow> 'r variable_filter \<Rightarrow> ('v, 's) wave_container option \<Rightarrow> ('v, 's) variable_ref list
    \<Rightarrow> bool \<Rightarrow> 'r variable_filter \<times> ('v, 's) variable_ref list" where
  "filtered_variables api f wc_opt vs by_path = (case matching_variables api f vs wc_opt by_path of (f', ms) \<Rightarrow>
     (f', sorted_by (not_greater (variable_cmp api f wc_opt)) ms))"

definition filtered_variables_unsorted :: "'r match_api \<Rightarrow> 'r variable_filter \<Rightarrow> ('v, 's) wave_container option
    \<Rightarrow> ('v, 's) variable_ref list \<Rightarrow> bool \<Rightarrow> 'r variable_filter \<times> ('v, 's) variable_ref list" where
  "filtered_variables_unsorted api f wc_opt vs by_path = matching_variables api f vs wc_opt by_path"

subsection \<open>Rows of the list\<close>

record ('v, 's) variable_list_row =
  row_variable :: "('v, 's) variable_ref"
  row_meta :: "('v, 's) variable_meta option"
  row_name_info :: "variable_name_info option"

text \<open>The cache of name infos, by what the equality of variables looks at.\<close>

type_synonym name_info_cache = "string list \<times> string \<Rightarrow> variable_name_info option option"

definition name_key :: "('v, 's) variable_ref \<Rightarrow> string list \<times> string" where
  "name_key v = (sc_strs (vr_path v), vr_name v)"

definition find_name_info :: "('v, 's, 'f) translator_list \<Rightarrow> ('v, 's) variable_meta option \<Rightarrow> variable_name_info option" where
  "find_name_info ts meta = (case meta of None \<Rightarrow> None
     | Some m \<Rightarrow> (case List.find (\<lambda>t. at_name_info t m \<noteq> None) (all_translators_of ts) of Some t \<Rightarrow> at_name_info t m | None \<Rightarrow> None))"

definition get_variable_name_info :: "('v, 's, 'f) translator_list \<Rightarrow> ('v, 's) variable_ref \<Rightarrow> ('v, 's) variable_meta option
    \<Rightarrow> name_info_cache \<Rightarrow> name_info_cache \<times> variable_name_info option" where
  "get_variable_name_info ts v meta c = (case c (name_key v) of Some i \<Rightarrow> (c, i)
     | None \<Rightarrow> (c(name_key v \<mapsto> find_name_info ts meta), find_name_info ts meta))"

fun variable_rows :: "('v, 's, 'f) translator_list \<Rightarrow> ('v, 's) wave_container \<Rightarrow> ('v, 's) variable_ref list \<Rightarrow> name_info_cache
    \<Rightarrow> name_info_cache \<times> ('v, 's) variable_list_row list" where
  "variable_rows ts wc [] c = (c, [])"
| "variable_rows ts wc (v # vs) c = (let meta = wc_variable_meta wc v; (c1, info) = get_variable_name_info ts v meta c;
       (c2, rows) = variable_rows ts wc vs c1
     in (c2, \<lparr>row_variable = v, row_meta = meta, row_name_info = info\<rparr> # rows))"

definition row_priority :: "('v, 's) variable_list_row \<Rightarrow> int" where
  "row_priority r = (case row_name_info r of None \<Rightarrow> 0 | Some i \<Rightarrow> (case ni_priority i of None \<Rightarrow> 0 | Some p \<Rightarrow> p))"

definition row_cmp :: "'r match_api \<Rightarrow> 'r variable_filter \<Rightarrow> ('v, 's) wave_container
    \<Rightarrow> ('v, 's) variable_list_row \<Rightarrow> ('v, 's) variable_list_row \<Rightarrow> cmp_ordering" where
  "row_cmp api f wc a b = then_with (cmp_int (row_priority b) (row_priority a))
     (variable_cmp api f (Some wc) (row_variable a) (row_variable b))"

definition build_variable_rows :: "'r match_api \<Rightarrow> 'r variable_filter \<Rightarrow> ('v, 's, 'f) translator_list \<Rightarrow> ('v, 's) wave_container
    \<Rightarrow> ('v, 's) variable_ref list \<Rightarrow> name_info_cache \<Rightarrow> name_info_cache \<times> ('v, 's) variable_list_row list" where
  "build_variable_rows api f ts wc vs c = (case variable_rows ts wc vs c of (c', rows) \<Rightarrow>
     (c', sorted_by (not_greater (row_cmp api f wc)) rows))"

subsection \<open>The list of all variables\<close>

text \<open>\<open>wave_source\<close> stands for the source of the waveform, of which only equality is asked.\<close>

record 'w all_variable_cache_key =
  ak_cache_generation :: nat
  ak_translator_generation :: nat
  ak_wave_source :: 'w
  ak_filter_str :: string
  ak_filter_type :: name_filter_type
  ak_case_insensitive :: bool
  ak_include_inputs :: bool
  ak_include_outputs :: bool
  ak_include_inouts :: bool
  ak_include_others :: bool
  ak_group_by_direction :: bool

definition make_all_variable_cache_key :: "'r variable_filter \<Rightarrow> nat \<Rightarrow> nat \<Rightarrow> 'w \<Rightarrow> 'w all_variable_cache_key" where
  "make_all_variable_cache_key f translator_generation cache_generation source =
     \<lparr>ak_cache_generation = cache_generation, ak_translator_generation = translator_generation, ak_wave_source = source,
      ak_filter_str = name_filter_str f, ak_filter_type = name_filter_type f, ak_case_insensitive = name_filter_case_insensitive f,
      ak_include_inputs = include_inputs f, ak_include_outputs = include_outputs f, ak_include_inouts = include_inouts f,
      ak_include_others = include_others f, ak_group_by_direction = group_by_direction f\<rparr>"

text \<open>What the list depends on: the waveform with its generation and source, the translators with theirs, and the filter.\<close>

datatype ('v, 's, 'x) data_container = InWaves "('v, 's) wave_container" | InTransactions 'x | InEmpty

definition as_waves :: "('v, 's, 'x) data_container \<Rightarrow> ('v, 's) wave_container option" where
  "as_waves d = (case d of InWaves wc \<Rightarrow> Some wc | _ \<Rightarrow> None)"

record ('v, 's, 'f, 'r, 'w) list_state =
  ls_container :: "('v, 's) wave_container"
  ls_cache_generation :: nat
  ls_source :: 'w
  ls_translators :: "('v, 's, 'f) translator_list"
  ls_translator_generation :: nat
  ls_filter :: "'r variable_filter"
  ls_name_infos :: name_info_cache
  ls_rows :: "('w all_variable_cache_key \<times> ('v, 's) variable_list_row list) option"

definition list_key :: "('v, 's, 'f, 'r, 'w) list_state \<Rightarrow> 'w all_variable_cache_key" where
  "list_key s = make_all_variable_cache_key (ls_filter s) (ls_translator_generation s) (ls_cache_generation s) (ls_source s)"

text \<open>The rows that are shown: those of the cache, which is filled anew when its key is not the current one.\<close>

definition draw_all_variables :: "'r match_api \<Rightarrow> ('v, 's, 'f, 'r, 'w) list_state
    \<Rightarrow> ('v, 's, 'f, 'r, 'w) list_state \<times> ('v, 's) variable_list_row list" where
  "draw_all_variables api s =
     (let key = list_key s;
          is_stale = (case ls_rows s of None \<Rightarrow> True | Some (k, _) \<Rightarrow> k \<noteq> key);
          s' = (if is_stale then
              (let (f, vs) = filtered_variables_unsorted api (ls_filter s) (Some (ls_container s)) (wc_variables (ls_container s)) True;
                   (c, rows) = build_variable_rows api f (ls_translators s) (ls_container s) vs (ls_name_infos s)
               in s\<lparr>ls_filter := f, ls_name_infos := c, ls_rows := Some (key, rows)\<rparr>)
            else s)
      in (s', case ls_rows s' of None \<Rightarrow> [] | Some (_, rows) \<Rightarrow> rows))"

subsection \<open>Adding what the list shows\<close>

datatype 's scope_type = WaveScopeT "'s scope_ref" | StreamScopeT stream_scope_ref

datatype ('v, 's) list_message = MsgAddVariables "('v, 's) variable_ref list" | MsgAddStreamOrGenerator transaction_stream_ref

text \<open>
  The messages of the button that adds all variables, with the filter whose cache it may have filled. A failed
  \<^verbatim>\<open>unwrap\<close> is a panic. The functions of the package of transactions are those of \<open>ftr_api\<close>.
\<close>

definition add_filtered_variables :: "'r match_api \<Rightarrow> 'x ftr_api \<Rightarrow> 'r variable_filter \<Rightarrow> ('v, 's, 'x) data_container option
    \<Rightarrow> 's scope_type option \<Rightarrow> bool \<Rightarrow> (string, 'r variable_filter \<times> ('v, 's) list_message list) outcome" where
  "add_filtered_variables api ftr f inner_opt active_scope by_path = (case inner_opt of None \<Rightarrow> Ok (f, []) | Some inner \<Rightarrow>
     if by_path then (case as_waves inner of None \<Rightarrow> Panic
       | Some wc \<Rightarrow> (case filtered_variables api f (Some wc) (wc_variables wc) False of (f', vs) \<Rightarrow> Ok (f', [MsgAddVariables vs])))
     else (case active_scope of None \<Rightarrow> Ok (f, [])
       | Some (WaveScopeT scope) \<Rightarrow> (case as_waves inner of None \<Rightarrow> Panic
           | Some wc \<Rightarrow> (case filtered_variables api f (Some wc) (wc_variables_in_scope wc scope) False of
               (f', vs) \<Rightarrow> Ok (f', [MsgAddVariables vs])))
       | Some (StreamScopeT stream_scope) \<Rightarrow> (case inner of
           InTransactions x \<Rightarrow> (case stream_scope of
             RootScope \<Rightarrow> Ok (f, map (\<lambda>st. MsgAddStreamOrGenerator (new_stream (st_id st) (st_name st))) (api_streams ftr x))
           | StreamScope r \<Rightarrow> (case api_get_stream ftr x (ts_stream_id r) of None \<Rightarrow> Panic
               | Some st \<Rightarrow> (let gens = map (api_get_generator ftr x) (st_generators st)
                   in if None \<in> set gens then Panic
                      else Ok (f, map (\<lambda>g. MsgAddStreamOrGenerator (new_gen (tg_stream_id (the g)) (tg_id (the g)) (tg_name (the g)))) gens)))
           | EmptyScope _ \<Rightarrow> Ok (f, []))
         | _ \<Rightarrow> Ok (f, []))))"

subsection \<open>Messages (lib.rs)\<close>

datatype filter_message =
  SetVariableNameFilterType name_filter_type
| SetVariableNameFilterCaseInsensitive bool
| SetVariableIOFilter io_filter_type bool
| SetVariableGroupByDirection bool

definition update_filter :: "filter_message \<Rightarrow> 'r variable_filter \<Rightarrow> 'r variable_filter" where
  "update_filter m f = (case m of
     SetVariableNameFilterType t \<Rightarrow> f\<lparr>name_filter_type := t\<rparr>
   | SetVariableNameFilterCaseInsensitive b \<Rightarrow> f\<lparr>name_filter_case_insensitive := b\<rparr>
   | SetVariableIOFilter t b \<Rightarrow> (case t of IoOutput \<Rightarrow> f\<lparr>include_outputs := b\<rparr> | IoInput \<Rightarrow> f\<lparr>include_inputs := b\<rparr>
       | IoInOut \<Rightarrow> f\<lparr>include_inouts := b\<rparr> | IoOther \<Rightarrow> f\<lparr>include_others := b\<rparr>)
   | SetVariableGroupByDirection b \<Rightarrow> f\<lparr>group_by_direction := b\<rparr>)"

subsection \<open>Opening the headers of scopes\<close>

datatype 's scope_expand_type = ExpandSpecific "'s scope_ref" | ExpandAll | CollapseAll

text \<open>Whether to open or close the header of a scope, and whether to scroll to it; the subtraction panics at zero.\<close>

definition should_open_header_and_scroll_to :: "'s scope_ref \<Rightarrow> 's scope_expand_type option
    \<Rightarrow> (string, 's scope_expand_type option \<times> (bool \<times> bool) option) outcome" where
  "should_open_header_and_scroll_to scope cell = (case cell of
     None \<Rightarrow> Ok (None, None)
   | Some ExpandAll \<Rightarrow> Ok (cell, Some (True, False))
   | Some CollapseAll \<Rightarrow> Ok (cell, Some (False, False))
   | Some (ExpandSpecific target) \<Rightarrow>
       if take (length (sc_strs scope)) (sc_strs target) = sc_strs scope
       then (if sc_strs target = [] then Panic
             else Ok (if length (sc_strs target) - 1 = length (sc_strs scope) then None else cell, Some (True, True)))
       else Ok (cell, None))"

subsection \<open>The cache of the filter is transparent\<close>

text \<open>The reference: what the settings ask for, with nothing cached.\<close>

definition name_matches :: "'r match_api \<Rightarrow> 'r variable_filter \<Rightarrow> string \<Rightarrow> bool" where
  "name_matches api f name = (if name_filter_str f = [] then True
     else if name_filter_type f = FilterFuzzy then fuzzy_match api (name_filter_case_insensitive f) name (name_filter_str f)
     else case rx_build api (filter_pattern api f) (name_filter_case_insensitive f) of
       Inr r \<Rightarrow> rx_is_match api r name | Inl e \<Rightarrow> False)"

definition invalid_regex :: "'r match_api \<Rightarrow> 'r variable_filter \<Rightarrow> bool" where
  "invalid_regex api f \<longleftrightarrow> name_filter_type f = FilterRegex \<and> name_filter_str f \<noteq> []
     \<and> (\<exists>e. rx_build api (name_filter_str f) (name_filter_case_insensitive f) = Inl e)"

text \<open>The filters that the messages, the text field and the use of the filter reach; a filter that was read from a state
  file has an empty cache.\<close>

inductive filter_reachable :: "'r match_api \<Rightarrow> 'r variable_filter \<Rightarrow> bool" for api where
  start: "filter_cache f = filter_cache filter_new \<Longrightarrow> filter_reachable api f"
| message: "filter_reachable api f \<Longrightarrow> filter_reachable api (update_filter m f)"
| edit: "filter_reachable api f \<Longrightarrow> filter_reachable api (f\<lparr>name_filter_str := s\<rparr>)"
| usage: "filter_reachable api f \<Longrightarrow> filter_reachable api (fst (name_filter_fn api f))"

definition filter_cache_ok :: "'r match_api \<Rightarrow> 'r filter_cache \<Rightarrow> bool" where
  "filter_cache_ok api c \<longleftrightarrow> (case fc_regex c of None \<Rightarrow> True
     | Some r \<Rightarrow> fc_error c = None \<and> (case fc_pattern c of None \<Rightarrow> False
         | Some pat \<Rightarrow> rx_build api pat (fc_case_insensitive c) = Inr r))"

lemma rebuild_cache_ok:
  assumes "filter_cache_ok api c"
  shows "filter_cache_ok api (rebuild_cache api pat ci c)
    \<and> fc_regex (rebuild_cache api pat ci c) = (case rx_build api pat ci of Inr r \<Rightarrow> Some r | Inl e \<Rightarrow> None)
    \<and> fc_error (rebuild_cache api pat ci c) = (case rx_build api pat ci of Inr r \<Rightarrow> None | Inl e \<Rightarrow> Some e)"
  using assms by (cases ci; cases "fc_case_insensitive c"; auto simp: rebuild_cache_def filter_cache_ok_def Let_def split: sum.splits option.splits)

lemma name_filter_fn_ok:
  assumes "filter_cache_ok api (filter_cache f)"
  shows "filter_cache_ok api (filter_cache (fst (name_filter_fn api f)))" "snd (name_filter_fn api f) = name_matches api f"
    "is_regex_and_invalid (fst (name_filter_fn api f)) \<longleftrightarrow> invalid_regex api f"
proof -
  note r = rebuild_cache_ok[OF assms, of "filter_pattern api f" "name_filter_case_insensitive f"]
  have cleared: "filter_cache_ok api ((filter_cache f)\<lparr>fc_pattern := None, fc_regex := None, fc_error := None\<rparr>)"
    by (simp add: filter_cache_ok_def)
  show "filter_cache_ok api (filter_cache (fst (name_filter_fn api f)))"
    unfolding name_filter_fn_def Let_def using assms r cleared by simp
  show "snd (name_filter_fn api f) = name_matches api f"
    using r by (auto simp: name_filter_fn_def name_matches_def Let_def fun_eq_iff split: sum.splits)
  show "is_regex_and_invalid (fst (name_filter_fn api f)) \<longleftrightarrow> invalid_regex api f"
    using r by (auto simp: name_filter_fn_def is_regex_and_invalid_def invalid_regex_def Let_def filter_pattern_def split: sum.splits)
qed

lemma update_filter_cache [simp]: "filter_cache (update_filter m f) = filter_cache f"
  by (auto simp: update_filter_def split: filter_message.splits io_filter_type.splits)

lemma filter_reachable_ok: "filter_reachable api f \<Longrightarrow> filter_cache_ok api (filter_cache f)"
  by (induction rule: filter_reachable.induct) (auto simp: filter_new_def filter_cache_ok_def[of _ "filter_cache.make _ _ _ _"]
      filter_cache_ok_def[of api "\<lparr>fc_pattern = None, fc_case_insensitive = False, fc_regex = None, fc_error = None\<rparr>"]
      name_filter_fn_ok(1))

text \<open>C28. The cache of the filter is transparent. After any changes of the settings by messages and by typing, and any uses,
  the filter accepts exactly the names that the current settings ask for: the cached expression is never that of an older
  pattern or an older case setting. After a use the field is marked as invalid exactly when the expression does not compile.\<close>

theorem filter_cache_transparent:
  assumes "filter_reachable api f"
  shows "snd (name_filter_fn api f) = name_matches api f
    \<and> (is_regex_and_invalid (fst (name_filter_fn api f)) \<longleftrightarrow> invalid_regex api f)"
  using name_filter_fn_ok[OF filter_reachable_ok[OF assms]] by blast

subsection \<open>The order of the list\<close>

text \<open>What \<^verbatim>\<open>numeric_sort::cmp\<close> has to be for a sort to be defined: a total order of the names up to equal ones.\<close>

definition total_cmp :: "('a \<Rightarrow> 'a \<Rightarrow> cmp_ordering) \<Rightarrow> bool" where
  "total_cmp f \<longleftrightarrow> (\<forall>a b. f a b = CGreater \<longrightarrow> f b a = CLess) \<and> (\<forall>a b c. f a b \<noteq> CGreater \<longrightarrow> f b c \<noteq> CGreater \<longrightarrow> f a c \<noteq> CGreater)"

definition shown_variable :: "'r match_api \<Rightarrow> 'r variable_filter \<Rightarrow> ('v, 's) wave_container option \<Rightarrow> bool \<Rightarrow> ('v, 's) variable_ref \<Rightarrow> bool" where
  "shown_variable api f wc_opt by_path v \<longleftrightarrow> kind_filter f wc_opt v \<and> name_matches api f (if by_path then full_path_string v else vr_name v)"

lemma matching_shown:
  assumes "filter_cache_ok api (filter_cache f)"
  shows "snd (matching_variables api f vs wc_opt by_path) = filter (shown_variable api f wc_opt by_path) vs"
  using name_filter_fn_ok(2)[OF assms]
  by (cases "name_filter_fn api f") (auto simp: matching_variables_def shown_variable_def intro!: filter_cong)

lemma total_not_greater:
  assumes "total_cmp f"
  shows "not_greater f a b \<or> not_greater f b a" "not_greater f a b \<Longrightarrow> not_greater f b c \<Longrightarrow> not_greater f a c"
  using assms unfolding total_cmp_def not_greater_def by (metis cmp_ordering.distinct(3), blast)

lemma direction_rank_eq [simp]: "direction_rank a = direction_rank b \<longleftrightarrow> a = b"
  by (cases a; cases b) simp_all

lemma variable_cmp_total:
  assumes "total_cmp (numeric_cmp api)"
  shows "total_cmp (variable_cmp api f wc)"
proof -
  let ?d = "\<lambda>v. direction_rank (get_variable_direction v wc)"
  have "variable_cmp api f wc a b = (if group_by_direction f \<and> ?d a \<noteq> ?d b then if ?d a < ?d b then CLess else CGreater
      else numeric_cmp api (vr_name a) (vr_name b))" for a b
    by (auto simp: variable_cmp_def Let_def)
  note eq = this
  have n1: "numeric_cmp api x y = CGreater \<Longrightarrow> numeric_cmp api y x = CLess" for x y
    using assms unfolding total_cmp_def by blast
  have n2: "numeric_cmp api x y \<noteq> CGreater \<Longrightarrow> numeric_cmp api y z \<noteq> CGreater \<Longrightarrow> numeric_cmp api x z \<noteq> CGreater" for x y z
    using assms unfolding total_cmp_def by blast
  show ?thesis unfolding total_cmp_def
  proof (intro conjI allI impI)
    fix a b assume "variable_cmp api f wc a b = CGreater"
    then show "variable_cmp api f wc b a = CLess" unfolding eq using n1 linorder_neqE_nat[of "?d a" "?d b"] by (auto split: if_splits)
  next
    fix a b c assume ab: "variable_cmp api f wc a b \<noteq> CGreater" and bc: "variable_cmp api f wc b c \<noteq> CGreater"
    show "variable_cmp api f wc a c \<noteq> CGreater"
    proof (cases "group_by_direction f")
      case True
      with ab bc have "?d a \<le> ?d b" "?d b \<le> ?d c" "?d a = ?d b \<Longrightarrow> numeric_cmp api (vr_name a) (vr_name b) \<noteq> CGreater"
        "?d b = ?d c \<Longrightarrow> numeric_cmp api (vr_name b) (vr_name c) \<noteq> CGreater"
        unfolding eq by (auto split: if_splits)
      then show ?thesis using True n2[of "vr_name a" "vr_name b" "vr_name c"] unfolding eq by (cases "?d a = ?d c") (simp_all del: direction_rank_eq)
    next
      case False
      with ab bc n2 show ?thesis unfolding eq by simp
    qed
  qed
qed

text \<open>The variables that are added are those the filter shows, each as often as before, sorted: with grouping, all inputs
  before all outputs, then the other directions in their order, and within a group (or without grouping) by name.\<close>

theorem filtered_variables_sorted:
  assumes "filter_reachable api f" and "total_cmp (numeric_cmp api)"
  shows "mset (snd (filtered_variables api f wc vs by_path)) = mset (filter (shown_variable api f wc by_path) vs)
    \<and> sorted_wrt (\<lambda>a b. let da = get_variable_direction a wc; db = get_variable_direction b wc
        in if group_by_direction f \<and> da \<noteq> db then direction_rank da < direction_rank db
           else numeric_cmp api (vr_name a) (vr_name b) \<noteq> CGreater) (snd (filtered_variables api f wc vs by_path))"
proof -
  let ?ms = "filter (shown_variable api f wc by_path) vs"
  have r: "snd (filtered_variables api f wc vs by_path) = sorted_by (not_greater (variable_cmp api f wc)) ?ms"
    using matching_shown[OF filter_reachable_ok[OF assms(1)], of vs wc by_path]
    by (cases "matching_variables api f vs wc by_path") (simp add: filtered_variables_def)
  have "sorted_wrt (not_greater (variable_cmp api f wc)) (sorted_by (not_greater (variable_cmp api f wc)) ?ms)"
    by (rule sorted_sorted_by) (use total_not_greater[OF variable_cmp_total[OF assms(2)]] in blast)+
  moreover have "not_greater (variable_cmp api f wc) = (\<lambda>a b. let da = get_variable_direction a wc; db = get_variable_direction b wc
        in if group_by_direction f \<and> da \<noteq> db then direction_rank da < direction_rank db
           else numeric_cmp api (vr_name a) (vr_name b) \<noteq> CGreater)"
    by (intro ext) (simp add: not_greater_def variable_cmp_def Let_def)
  ultimately show ?thesis unfolding r by simp
qed

subsection \<open>The cached rows\<close>

text \<open>The reference: the rows of the shown variables, each with its metadata and the name info of the translators, sorted.\<close>

definition fresh_rows :: "'r match_api \<Rightarrow> 'r variable_filter \<Rightarrow> ('v, 's, 'f) translator_list \<Rightarrow> ('v, 's) wave_container
    \<Rightarrow> ('v, 's) variable_list_row list" where
  "fresh_rows api f ts wc = sorted_by (not_greater (row_cmp api f wc))
     (map (\<lambda>v. \<lparr>row_variable = v, row_meta = wc_variable_meta wc v, row_name_info = find_name_info ts (wc_variable_meta wc v)\<rparr>)
       (filter (shown_variable api f (Some wc) True) (wc_variables wc)))"

text \<open>A cache of name infos that holds those of \<open>info\<close>.\<close>

definition infos_ok :: "(string list \<times> string \<Rightarrow> variable_name_info option) \<Rightarrow> name_info_cache \<Rightarrow> bool" where
  "infos_ok info c \<longleftrightarrow> (\<forall>k i. c k = Some i \<longrightarrow> i = info k)"

lemma variable_rows_fresh:
  assumes "\<And>v. v \<in> set vs \<Longrightarrow> find_name_info ts (wc_variable_meta wc v) = info (name_key v)" "infos_ok info c"
  shows "infos_ok info (fst (variable_rows ts wc vs c)) \<and> snd (variable_rows ts wc vs c) =
    map (\<lambda>v. \<lparr>row_variable = v, row_meta = wc_variable_meta wc v, row_name_info = find_name_info ts (wc_variable_meta wc v)\<rparr>) vs"
  using assms
proof (induction vs arbitrary: c)
  case (Cons v vs)
  obtain c1 i where g: "get_variable_name_info ts v (wc_variable_meta wc v) c = (c1, i)" by fastforce
  have v: "find_name_info ts (wc_variable_meta wc v) = info (name_key v)" using Cons.prems(1) by simp
  have "i = info (name_key v) \<and> infos_ok info c1"
  proof (cases "c (name_key v)")
    case None
    then have "c1 = c(name_key v \<mapsto> info (name_key v))" "i = info (name_key v)" using g v by (auto simp: get_variable_name_info_def)
    then show ?thesis using Cons.prems(2) by (auto simp: infos_ok_def)
  next
    case (Some j)
    then have "c1 = c" "i = j" using g by (simp_all add: get_variable_name_info_def)
    then show ?thesis using Cons.prems(2) Some unfolding infos_ok_def by blast
  qed
  then show ?case using Cons.IH[of c1] Cons.prems(1) g v by (cases "variable_rows ts wc vs c1") (simp add: Let_def)
qed simp

lemma same_settings:
  assumes "make_all_variable_cache_key f g h w = make_all_variable_cache_key f' g' h' w'"
  shows "fresh_rows api f ts wc = fresh_rows api f' ts wc"
proof -
  from assms have eq: "name_filter_str f = name_filter_str f'" "name_filter_type f = name_filter_type f'"
    "name_filter_case_insensitive f = name_filter_case_insensitive f'" "include_inputs f = include_inputs f'"
    "include_outputs f = include_outputs f'" "include_inouts f = include_inouts f'" "include_others f = include_others f'"
    "group_by_direction f = group_by_direction f'"
    by (simp_all add: make_all_variable_cache_key_def)
  have "row_cmp api f wc = row_cmp api f' wc" by (intro ext) (simp add: row_cmp_def variable_cmp_def eq)
  moreover have "shown_variable api f (Some wc) True = shown_variable api f' (Some wc) True"
    by (intro ext) (simp only: shown_variable_def kind_filter_def name_matches_def filter_pattern_def eq)
  ultimately show ?thesis by (simp add: fresh_rows_def)
qed

lemma name_filter_fn_settings: "make_all_variable_cache_key (fst (name_filter_fn api f)) g h w = make_all_variable_cache_key f g h w"
  by (auto simp: name_filter_fn_def make_all_variable_cache_key_def Let_def)

text \<open>
  The states of the list in a session. \<open>content g w\<close> is the waveform of generation \<open>g\<close> and source \<open>w\<close>, \<open>tls h\<close> the
  translators of their generation \<open>h\<close>. Loading a waveform anew starts at generation zero with another source, updating the
  displayed one counts its generation up; both are a step to some generation and source. Reloading the waveform also reloads the
  translators, clears the name infos and counts the generation of the translators up.
\<close>

inductive list_reachable :: "'r match_api \<Rightarrow> (nat \<Rightarrow> 'w \<Rightarrow> ('v, 's) wave_container) \<Rightarrow> (nat \<Rightarrow> ('v, 's, 'f) translator_list)
    \<Rightarrow> ('v, 's, 'f, 'r, 'w) list_state \<Rightarrow> bool" for api content tls where
  start: "filter_reachable api (ls_filter s) \<Longrightarrow> ls_container s = content (ls_cache_generation s) (ls_source s)
    \<Longrightarrow> ls_translators s = tls (ls_translator_generation s) \<Longrightarrow> ls_name_infos s = Map.empty \<Longrightarrow> ls_rows s = None
    \<Longrightarrow> list_reachable api content tls s"
| drawing: "list_reachable api content tls s \<Longrightarrow> list_reachable api content tls (fst (draw_all_variables api s))"
| filtering: "list_reachable api content tls s \<Longrightarrow> filter_reachable api f \<Longrightarrow> list_reachable api content tls (s\<lparr>ls_filter := f\<rparr>)"
| loading: "list_reachable api content tls s \<Longrightarrow> list_reachable api content tls
    (s\<lparr>ls_container := content g w, ls_source := w, ls_cache_generation := g\<rparr>)"
| translators: "list_reachable api content tls s \<Longrightarrow> list_reachable api content tls
    (s\<lparr>ls_translators := tls (ls_translator_generation s + 1), ls_name_infos := Map.empty,
       ls_translator_generation := ls_translator_generation s + 1\<rparr>)"

definition list_state_ok :: "'r match_api \<Rightarrow> (nat \<Rightarrow> 'w \<Rightarrow> ('v, 's) wave_container) \<Rightarrow> (nat \<Rightarrow> ('v, 's, 'f) translator_list)
    \<Rightarrow> (nat \<Rightarrow> string list \<times> string \<Rightarrow> variable_name_info option) \<Rightarrow> ('v, 's, 'f, 'r, 'w) list_state \<Rightarrow> bool" where
  "list_state_ok api content tls info s \<longleftrightarrow> filter_reachable api (ls_filter s)
     \<and> ls_container s = content (ls_cache_generation s) (ls_source s) \<and> ls_translators s = tls (ls_translator_generation s)
     \<and> infos_ok (info (ls_translator_generation s)) (ls_name_infos s)
     \<and> (case ls_rows s of None \<Rightarrow> True | Some (k, rows) \<Rightarrow>
         \<forall>f h g w. k = make_all_variable_cache_key f h g w \<longrightarrow> rows = fresh_rows api f (tls h) (content g w))"

lemma key_parts: "make_all_variable_cache_key f h g w = make_all_variable_cache_key f' h' g' w' \<Longrightarrow> h = h' \<and> g = g' \<and> w = w'"
  by (simp add: make_all_variable_cache_key_def)

lemma draw_rows:
  assumes named: "\<And>g w h v. v \<in> set (wc_variables (content g w))
      \<Longrightarrow> find_name_info (tls h) (wc_variable_meta (content g w) v) = info h (name_key v)"
    and ok: "list_state_ok api content tls info s"
  shows "list_state_ok api content tls info (fst (draw_all_variables api s))
    \<and> snd (draw_all_variables api s) = fresh_rows api (ls_filter s) (ls_translators s) (ls_container s)"
proof (cases "case ls_rows s of None \<Rightarrow> True | Some (k, _) \<Rightarrow> k \<noteq> list_key s")
  case False
  then obtain rows where r: "ls_rows s = Some (list_key s, rows)" by (auto split: option.splits)
  with ok have "rows = fresh_rows api (ls_filter s) (ls_translators s) (ls_container s)"
    by (auto simp: list_state_ok_def list_key_def)
  then show ?thesis using r ok by (simp add: draw_all_variables_def Let_def)
next
  case True
  let ?wc = "ls_container s" and ?ts = "ls_translators s"
  from ok have f: "filter_reachable api (ls_filter s)" and wc: "?wc = content (ls_cache_generation s) (ls_source s)"
    and ts: "?ts = tls (ls_translator_generation s)" and n: "infos_ok (info (ls_translator_generation s)) (ls_name_infos s)"
    by (simp_all add: list_state_ok_def)
  obtain f' vs where m: "matching_variables api (ls_filter s) (wc_variables ?wc) (Some ?wc) True = (f', vs)" by fastforce
  have vs: "vs = filter (shown_variable api (ls_filter s) (Some ?wc) True) (wc_variables ?wc)"
    using matching_shown[OF filter_reachable_ok[OF f], of "wc_variables ?wc" "Some ?wc" True] m by simp
  have f': "f' = fst (name_filter_fn api (ls_filter s))" using m by (cases "name_filter_fn api (ls_filter s)") (simp add: matching_variables_def)
  obtain c rows where b: "build_variable_rows api f' ?ts ?wc vs (ls_name_infos s) = (c, rows)" by fastforce
  have settings: "make_all_variable_cache_key f' g h w = make_all_variable_cache_key (ls_filter s) g h w" for g h w
    unfolding f' by (rule name_filter_fn_settings)
  have rc: "row_cmp api f' ?wc = row_cmp api (ls_filter s) ?wc"
    using settings by (intro ext) (simp add: row_cmp_def variable_cmp_def make_all_variable_cache_key_def)
  have infos: "find_name_info ?ts (wc_variable_meta ?wc v) = info (ls_translator_generation s) (name_key v)" if "v \<in> set vs" for v
    using that named[of v "ls_cache_generation s" "ls_source s" "ls_translator_generation s"] by (simp add: vs wc ts)
  have c: "infos_ok (info (ls_translator_generation s)) c" and rows: "rows = fresh_rows api (ls_filter s) ?ts ?wc"
    using variable_rows_fresh[of vs ?ts ?wc "info (ls_translator_generation s)", OF infos n] b rc
    by (auto simp: build_variable_rows_def fresh_rows_def vs split: prod.splits)
  have d: "draw_all_variables api s = (s\<lparr>ls_filter := f', ls_name_infos := c, ls_rows := Some (list_key s, rows)\<rparr>, rows)"
    using True m b by (simp add: draw_all_variables_def filtered_variables_unsorted_def Let_def)
  have "filter_reachable api f'" unfolding f' by (rule filter_reachable.usage[OF f])
  moreover have "rows = fresh_rows api f (tls h) (content g w)" if "list_key s = make_all_variable_cache_key f h g w" for f h g w
    using key_parts[OF that[unfolded list_key_def]] same_settings[OF that[unfolded list_key_def]] by (simp add: rows wc ts)
  ultimately have "list_state_ok api content tls info (s\<lparr>ls_filter := f', ls_name_infos := c, ls_rows := Some (list_key s, rows)\<rparr>)"
    using wc ts c unfolding list_state_ok_def by simp
  then show ?thesis using rows by (simp add: d)
qed

lemma list_reachable_ok:
  assumes named: "\<And>g w h v. v \<in> set (wc_variables (content g w))
      \<Longrightarrow> find_name_info (tls h) (wc_variable_meta (content g w) v) = info h (name_key v)"
  shows "list_reachable api content tls s \<Longrightarrow> list_state_ok api content tls info s"
proof (induction rule: list_reachable.induct)
  case (start s)
  then show ?case by (simp add: list_state_ok_def infos_ok_def)
next
  case (drawing s)
  show ?case using draw_rows[where content = content and tls = tls and info = info, OF named drawing.IH] by blast
next
  case (filtering s f)
  then show ?case by (simp add: list_state_ok_def)
next
  case (loading s g w)
  then show ?case by (simp add: list_state_ok_def)
next
  case (translators s)
  then show ?case by (simp add: list_state_ok_def infos_ok_def)
qed


subsection \<open>Where the list is not the waveform's\<close>

text \<open>
  Opening a waveform anew starts its generation at zero again, and the key of the rows knows a waveform only by generation
  and source. When a file is opened again after it has changed, or data is loaded a second time (its source is always the
  same), the list keeps showing the rows of the first waveform.
\<close>

definition load_clear :: "('v, 's) wave_container \<Rightarrow> 'w \<Rightarrow> ('v, 's, 'f, 'r, 'w) list_state \<Rightarrow> ('v, 's, 'f, 'r, 'w) list_state" where
  "load_clear wc source s = s\<lparr>ls_container := wc, ls_source := source, ls_cache_generation := 0\<rparr>"

lemma draw_cached: "ls_rows s = Some (list_key s, rows) \<Longrightarrow> snd (draw_all_variables api s) = rows"
  by (simp add: draw_all_variables_def Let_def)

theorem reopened_file_shows_old_rows:
  assumes "ls_cache_generation s = 0"
  shows "snd (draw_all_variables api (load_clear wc (ls_source s) (fst (draw_all_variables api s)))) = snd (draw_all_variables api s)"
proof -
  obtain s' rows where d: "draw_all_variables api s = (s', rows)" by fastforce
  have "ls_rows s' = Some (list_key s, rows) \<and> list_key s' = list_key s \<and> ls_cache_generation s' = 0 \<and> ls_source s' = ls_source s
      \<and> ls_translator_generation s' = ls_translator_generation s"
  proof (cases "case ls_rows s of None \<Rightarrow> True | Some (k, _) \<Rightarrow> k \<noteq> list_key s")
    case False
    then show ?thesis using d assms by (auto simp: draw_all_variables_def Let_def split: option.splits)
  next
    case True
    obtain f vs where m: "matching_variables api (ls_filter s) (wc_variables (ls_container s)) (Some (ls_container s)) True = (f, vs)" by fastforce
    then have f: "f = fst (name_filter_fn api (ls_filter s))" by (cases "name_filter_fn api (ls_filter s)") (simp add: matching_variables_def)
    obtain c rs where "build_variable_rows api f (ls_translators s) (ls_container s) vs (ls_name_infos s) = (c, rs)" by fastforce
    then have "s' = s\<lparr>ls_filter := f, ls_name_infos := c, ls_rows := Some (list_key s, rows)\<rparr>"
      using True m d by (auto simp: draw_all_variables_def filtered_variables_unsorted_def Let_def)
    then show ?thesis using assms f by (simp add: list_key_def name_filter_fn_settings)
  qed
  then have "ls_rows (load_clear wc (ls_source s) s') = Some (list_key (load_clear wc (ls_source s) s'), rows)"
    by (simp add: load_clear_def list_key_def) metis
  from draw_cached[OF this] show ?thesis by (simp add: d)
qed

text \<open>The list of all variables filters full paths, the button that adds what it lists filters the bare names.\<close>

theorem add_all_uses_bare_names:
  assumes "filter_reachable api f"
  shows "\<exists>f' vs. add_filtered_variables api ftr f (Some (InWaves wc)) scope True = Ok (f', [MsgAddVariables vs])
    \<and> mset vs = mset (filter (shown_variable api f (Some wc) False) (wc_variables wc))"
proof -
  obtain f' vs where r: "filtered_variables api f (Some wc) (wc_variables wc) False = (f', vs)" by fastforce
  then have "mset vs = mset (snd (matching_variables api f (wc_variables wc) (Some wc) False))"
    by (cases "matching_variables api f (wc_variables wc) (Some wc) False") (auto simp: filtered_variables_def)
  then show ?thesis using r by (simp add: add_filtered_variables_def as_waves_def matching_shown[OF filter_reachable_ok[OF assms]])
qed

text \<open>In the style that lists all variables the button is there for transactions too, and panics.\<close>

theorem add_all_panics_for_transactions:
  "add_filtered_variables api ftr f (Some (InTransactions x)) scope True = Panic"
  by (simp add: add_filtered_variables_def as_waves_def)

subsection \<open>Witnesses\<close>

text \<open>A matcher of literal texts, for which a text that starts with a bracket does not compile.\<close>

definition literal_api :: "string match_api" where
  "literal_api = \<lparr>rx_build = (\<lambda>p ci. if take 1 p = ''['' then Inl ''unclosed'' else Inr p), rx_is_match = contains_str,
     rx_escape = (\<lambda>s. s), fuzzy_match = (\<lambda>ci name pat. set pat \<subseteq> set name),
     numeric_cmp = (\<lambda>a b. cmp_int (int (length a)) (int (length b)))\<rparr>"

lemma literal_total: "total_cmp (numeric_cmp literal_api)"
  by (auto simp: total_cmp_def literal_api_def cmp_int_def split: if_splits)

lemma reachable_text: "filter_reachable api (filter_new\<lparr>name_filter_str := s\<rparr>)"
  by (intro filter_reachable.edit filter_reachable.start) simp

theorem filter_cache_transparent_witness:
  "snd (name_filter_fn literal_api (filter_new\<lparr>name_filter_str := ''ck''\<rparr>)) ''a_ck''
   \<and> \<not> snd (name_filter_fn literal_api (filter_new\<lparr>name_filter_str := ''ck''\<rparr>)) ''data''"
  unfolding filter_cache_transparent[OF reachable_text, THEN conjunct1]
  by (simp add: name_matches_def filter_new_def filter_pattern_def
      literal_api_def starts_with_def)

theorem filtered_variables_sorted_witness:
  "mset (map vr_name (snd (filtered_variables literal_api (filter_new\<lparr>name_filter_str := ''d''\<rparr>) None [word_ref ''dd'', word_ref ''a'', word_ref ''d''] False)))
   = {#''dd'', ''d''#}"
proof -
  note s = filtered_variables_sorted[OF reachable_text[of literal_api "''d''"] literal_total, THEN conjunct1]
  show ?thesis unfolding mset_map s
    by (simp add: shown_variable_def kind_filter_def get_variable_direction_def name_matches_def filter_new_def filter_pattern_def
        literal_api_def starts_with_def word_ref_def)
qed

definition plain_translators :: "(nat, nat, nat) translator_list" where
  "plain_translators = \<lparr>tl_inner = [], tl_default = []\<rparr>"

definition list_session :: "nat \<Rightarrow> (nat, nat, nat, string, nat) list_state" where
  "list_session source = \<lparr>ls_container = two_words Map.empty, ls_cache_generation = 0, ls_source = source, ls_translators = plain_translators,
     ls_translator_generation = 0, ls_filter = filter_new\<lparr>name_filter_str := ''1''\<rparr>, ls_name_infos = Map.empty, ls_rows = None\<rparr>"


end
