(* ===== verification/Scope_Messages.thy ===== *)
theory Scope_Messages
  imports Variable_Filter Messages_Inv
begin

section \<open>Scopes, formats and transitions (lib.rs, state.rs, wave\_data.rs)\<close>

text \<open>
  The messages that add all variables of a scope, flat or as a group with the groups of its child scopes inside, the ones
  that change and reset the format of a variable or of one of its fields, and the move of the cursor to a transition.
  The hierarchy of scopes comes from the container of the waveform, so the recursion over it has fuel; \<open>None\<close> is fuel
  that ran out. That the depth of the hierarchy is enough fuel is part of the theorems.
\<close>

subsection \<open>Adding the variables of a scope\<close>

definition sorted_variables :: "'r match_api \<Rightarrow> ('v, 's) wave_container \<Rightarrow> 's scope_ref \<Rightarrow> ('v, 's) variable_ref list" where
  "sorted_variables api wc scope = sorted_by (not_greater (\<lambda>a b. numeric_cmp api (vr_name a) (vr_name b))) (wc_variables_in_scope wc scope)"

fun collect_scopes :: "('c \<Rightarrow> 'a list option) \<Rightarrow> 'c list \<Rightarrow> 'a list option" where
  "collect_scopes f [] = Some []"
| "collect_scopes f (c # cs) = (case f c of None \<Rightarrow> None | Some xs \<Rightarrow>
     (case collect_scopes f cs of None \<Rightarrow> None | Some ys \<Rightarrow> Some (xs @ ys)))"

fun get_scope :: "nat \<Rightarrow> 'r match_api \<Rightarrow> ('v, 's) wave_container \<Rightarrow> 's scope_ref \<Rightarrow> bool \<Rightarrow> ('v, 's) variable_ref list option" where
  "get_scope 0 api wc scope recursive = None"
| "get_scope (Suc fuel) api wc scope recursive =
     (case (if recursive then collect_scopes (\<lambda>c. get_scope fuel api wc c True) (child_scopes_or_default wc scope) else Some []) of
        None \<Rightarrow> None
      | Some below \<Rightarrow> Some (sorted_variables api wc scope @ below))"

text \<open>Without a waveform there is nothing to add; with transactions the \<^verbatim>\<open>unwrap\<close> panics.\<close>

definition add_scope :: "nat \<Rightarrow> 'r match_api \<Rightarrow> ('v, 's, 'm) env \<Rightarrow> ('v, 's) wave_container option \<Rightarrow> 's scope_ref \<Rightarrow> bool
    \<Rightarrow> ('v, 's, 't) system_state \<Rightarrow> (move_error, ('v, 's, 't) system_state) outcome option" where
  "add_scope fuel api e wc_opt scope recursive s =
     (let s1 = save_current_canvas (''Add scope '' @ scope_name scope) s in
      case sys_waves s1 of None \<Rightarrow> Some (Ok s1) | Some w \<Rightarrow>
      case wc_opt of None \<Rightarrow> Some Panic | Some wc \<Rightarrow>
      case get_scope fuel api wc scope recursive of None \<Rightarrow> None | Some vars \<Rightarrow>
      Some (with_waves (\<lambda>w. and_then (add_variables e vars None True False None w) (\<lambda>(_, w'). Ok w')) s1))"

subsection \<open>Adding a scope as a group\<close>

text \<open>Levels are bytes: the addition panics past 255.\<close>

definition deeper :: "target_position \<Rightarrow> (move_error, nat) outcome" where
  "deeper pos = (if tp_level pos < 255 then Ok (tp_level pos + 1) else Panic)"

fun each_child :: "('c \<Rightarrow> target_position \<Rightarrow> 'w \<Rightarrow> (move_error, target_position \<times> 'w) outcome option) \<Rightarrow> nat \<Rightarrow> 'c list
    \<Rightarrow> target_position \<Rightarrow> 'w \<Rightarrow> (move_error, target_position \<times> 'w) outcome option" where
  "each_child add l [] pos w = Some (Ok (pos, w))"
| "each_child add l (c # cs) pos w = (case add c pos w of
     Some (Ok (pos', w')) \<Rightarrow> each_child add l cs (pos'\<lparr>tp_level := l\<rparr>) w'
   | Some (Err e) \<Rightarrow> Some (Err e) | Some Panic \<Rightarrow> Some Panic | None \<Rightarrow> None)"

fun add_scope_as_group :: "nat \<Rightarrow> 'r match_api \<Rightarrow> ('v, 's, 'm) env \<Rightarrow> ('v, 's) wave_container \<Rightarrow> bool \<Rightarrow> variable_name_type option
    \<Rightarrow> 's scope_ref \<Rightarrow> target_position \<Rightarrow> ('v, 's, 't) wave_data \<Rightarrow> (move_error, target_position \<times> ('v, 's, 't) wave_data) outcome option" where
  "add_scope_as_group 0 api e wc recursive nt_opt scope pos w = None"
| "add_scope_as_group (Suc fuel) api e wc recursive nt_opt scope pos w =
     (let vars = sorted_variables api wc scope;
          nt = (case nt_opt of Some nt \<Rightarrow> Some nt | None \<Rightarrow> if wc_scope_is_variable wc scope then Some LocalName else None)
      in case and_then (add_group (scope_name scope) (Some pos) w) (\<lambda>(_, w1).
           and_then (deeper pos) (\<lambda>inner.
           and_then (add_variables e vars (Some \<lparr>tp_before = tp_before pos + 1, tp_level = inner\<rparr>) False False nt w1) (\<lambda>(refs, w2).
           Ok (inner, \<lparr>tp_before = tp_before pos + 1 + length refs, tp_level = inner\<rparr>, w2)))) of
         Panic \<Rightarrow> Some Panic
       | Err er \<Rightarrow> Some (Err er)
       | Ok (inner, into, w2) \<Rightarrow>
           if recursive
           then each_child (add_scope_as_group fuel api e wc recursive nt) inner (child_scopes_or_default wc scope) into w2
           else Some (Ok (into, w2)))"

text \<open>Without a container of signals the group is not added.\<close>

definition add_scope_as_group_message :: "nat \<Rightarrow> 'r match_api \<Rightarrow> ('v, 's, 'm) env \<Rightarrow> ('v, 's) wave_container option \<Rightarrow> 's scope_ref \<Rightarrow> bool
    \<Rightarrow> ('v, 's, 't) system_state \<Rightarrow> (move_error, ('v, 's, 't) system_state) outcome option" where
  "add_scope_as_group_message fuel api e wc_opt scope recursive s =
     (let s1 = save_current_canvas (''Add scope '' @ scope_name scope @ '' as group'') s in
      case sys_waves s1 of None \<Rightarrow> Some (Ok s1) | Some w \<Rightarrow>
      (let target = or_else (insert_position w (focused_item w)) (end_insert_position w) in
       map_option (\<lambda>r. and_then r (\<lambda>(_, w'). Ok (s1\<lparr>sys_waves := Some (compute_variable_display_names (env_locals e) (env_index e) w')\<rparr>)))
         (case wc_opt of None \<Rightarrow> Some (Ok (target, w)) | Some wc \<Rightarrow> add_scope_as_group fuel api e wc recursive None scope target w)))"

subsection \<open>Formats\<close>

record displayed_field_ref =
  df_item :: nat
  df_field :: "string list"

datatype field_target = ExplicitField displayed_field_ref | SelectedFields

definition downgrade_type_limits_if_unsupported :: "('v, 's, 'f) any_translator \<Rightarrow> ('v, 's) variable_meta
    \<Rightarrow> ('v, 's) displayed_variable \<Rightarrow> ('v, 's) displayed_variable" where
  "downgrade_type_limits_if_unsupported t m v = (case dv_analog v of
     Some a \<Rightarrow> if at_range t m = None then v\<lparr>dv_analog := Some (a\<lparr>av_settings := downgrade_type_limits (av_settings a)\<rparr>)\<rparr> else v
   | None \<Rightarrow> v)"

text \<open>The \<^verbatim>\<open>unwrap\<close>s of the container and of the information of the translator are panics.\<close>

definition update_format :: "('v, 's, 'f) translator_list \<Rightarrow> ('v, 's) wave_container option \<Rightarrow> string \<Rightarrow> string list
    \<Rightarrow> ('v, 's) displayed_variable \<Rightarrow> (string, ('v, 's) displayed_variable) outcome" where
  "update_format ts wc_opt fmt path v =
     (if path = [] then (case wc_opt of None \<Rightarrow> Panic | Some wc \<Rightarrow>
        case wc_variable_meta wc (dv_ref v) of None \<Rightarrow> Ok v | Some m \<Rightarrow>
        and_then (get_translator fmt ts) (\<lambda>t. case at_info t m of Inl e \<Rightarrow> Panic
          | Inr i \<Rightarrow> Ok (downgrade_type_limits_if_unsupported t m (v\<lparr>dv_format := Some fmt, dv_info := i\<rparr>))))
      else Ok (v\<lparr>dv_field_formats := filter (\<lambda>ff. ff_field ff \<noteq> path) (dv_field_formats v) @ [\<lparr>ff_field = path, ff_format = fmt\<rparr>]\<rparr>))"

definition update_format_at :: "('v, 's, 'f) translator_list \<Rightarrow> ('v, 's) wave_container option \<Rightarrow> string \<Rightarrow> displayed_field_ref
    \<Rightarrow> ('v, 's, 't) wave_data \<Rightarrow> (string, ('v, 's, 't) wave_data) outcome" where
  "update_format_at ts wc_opt fmt f w = (case displayed_items w (df_item f) of
     Some (ItemVariable v) \<Rightarrow> and_then (update_format ts wc_opt fmt (df_field f) v) (\<lambda>v'.
       Ok (w\<lparr>displayed_items := (displayed_items w)(df_item f \<mapsto> ItemVariable v')\<rparr>))
   | _ \<Rightarrow> Ok w)"

fun update_formats :: "('v, 's, 'f) translator_list \<Rightarrow> ('v, 's) wave_container option \<Rightarrow> string \<Rightarrow> nat list
    \<Rightarrow> ('v, 's, 't) wave_data \<Rightarrow> (string, ('v, 's, 't) wave_data) outcome" where
  "update_formats ts wc_opt fmt [] w = Ok w"
| "update_formats ts wc_opt fmt (r # rs) w =
     and_then (update_format_at ts wc_opt fmt \<lparr>df_item = r, df_field = []\<rparr> w) (update_formats ts wc_opt fmt rs)"

definition variable_format_change :: "('v, 's, 'f) translator_list \<Rightarrow> ('v, 's) wave_container option \<Rightarrow> field_target \<Rightarrow> string
    \<Rightarrow> ('v, 's, 't) wave_data \<Rightarrow> (string, ('v, 's, 't) wave_data) outcome" where
  "variable_format_change ts wc_opt target fmt w =
     (if fmt \<notin> set (all_translator_names ts) then Ok w
      else case target of
        ExplicitField f \<Rightarrow> update_format_at ts wc_opt fmt f w
      | SelectedFields \<Rightarrow> update_formats ts wc_opt fmt
          ((case focused_ref w of Some r \<Rightarrow> [r] | None \<Rightarrow> []) @ map item_ref (iter_visible_selected (items_tree w))) w)"

definition reset_variable_format :: "displayed_field_ref \<Rightarrow> ('v, 's, 't) wave_data \<Rightarrow> ('v, 's, 't) wave_data" where
  "reset_variable_format f w = (case displayed_items w (df_item f) of
     Some (ItemVariable v) \<Rightarrow> w\<lparr>displayed_items := (displayed_items w)(df_item f \<mapsto> ItemVariable
       (if df_field f = [] then v\<lparr>dv_format := None\<rparr>
        else v\<lparr>dv_field_formats := filter (\<lambda>ff. ff_field ff \<noteq> df_field f) (dv_field_formats v)\<rparr>))\<rparr>
   | _ \<Rightarrow> w)"

subsection \<open>The cursor at a transition\<close>

text \<open>A cursor before time zero reads as zero. The \<^verbatim>\<open>unwrap\<close> of a result without a current value panics.\<close>

definition cursor_time :: "int \<Rightarrow> nat" where "cursor_time c = nat c"

definition query_at :: "('v, 's) wave_container \<Rightarrow> ('v, 's) variable_ref \<Rightarrow> nat \<Rightarrow> query_result option" where
  "query_at wc v t = (case wc_query_variable wc v t of Some (Some q) \<Rightarrow> Some q | _ \<Rightarrow> None)"

text \<open>The end of the waveform, which does not count when it is zero.\<close>

definition nonzero_time :: "nat option \<Rightarrow> nat option" where
  "nonzero_time end_time = (case end_time of Some t \<Rightarrow> if t = 0 then None else Some t | None \<Rightarrow> None)"

definition max_timestamp :: "('v, 's) wave_container \<Rightarrow> nat option" where
  "max_timestamp wc = nonzero_time (wc_max_timestamp wc)"

definition step_transition :: "('v, 's) wave_container \<Rightarrow> bool \<Rightarrow> ('v, 's) variable_ref \<Rightarrow> query_result \<Rightarrow> int \<Rightarrow> (string, int) outcome" where
  "step_transition wc next v q c =
     (if next then Ok (case qr_next q of Some t \<Rightarrow> int t | None \<Rightarrow> (case max_timestamp wc of Some t \<Rightarrow> int t | None \<Rightarrow> c))
      else case qr_current q of None \<Rightarrow> Panic | Some (t, _) \<Rightarrow>
        if int t = c \<and> 1 \<le> c
        then Ok (case query_at wc v (cursor_time (c - 1)) of
          Some q' \<Rightarrow> (case qr_current q' of Some (t', _) \<Rightarrow> int t' | None \<Rightarrow> c) | None \<Rightarrow> c)
        else Ok (int t))"

definition is_zero_at :: "('v, 's) wave_container \<Rightarrow> ('v, 's) variable_ref \<Rightarrow> int \<Rightarrow> bool" where
  "is_zero_at wc v c = (case query_at wc v (cursor_time c) of
     Some q \<Rightarrow> (case qr_current q of Some (_, BigUint n) \<Rightarrow> n = 0 | _ \<Rightarrow> False) | None \<Rightarrow> False)"

definition move_to_transition :: "('v, 's) wave_container \<Rightarrow> bool \<Rightarrow> ('v, 's) variable_ref \<Rightarrow> bool \<Rightarrow> int \<Rightarrow> (string, int) outcome" where
  "move_to_transition wc next v skip_zero c = (case query_at wc v (cursor_time c) of None \<Rightarrow> Ok c | Some q \<Rightarrow>
     and_then (step_transition wc next v q c) (\<lambda>c1.
       if skip_zero \<and> is_zero_at wc v c1
       then (case query_at wc v (cursor_time c1) of None \<Rightarrow> Ok c1 | Some q1 \<Rightarrow> step_transition wc next v q1 c1)
       else Ok c1))"

definition set_cursor_at_transition :: "('v, 's) wave_container option \<Rightarrow> bool \<Rightarrow> nat option \<Rightarrow> bool
    \<Rightarrow> ('v, 's, 't) wave_data \<Rightarrow> (string, ('v, 's, 't) wave_data) outcome" where
  "set_cursor_at_transition wc_opt next vidx_opt skip_zero w =
     (case or_else (map_option Some vidx_opt) (focused_item w) of None \<Rightarrow> Ok w | Some vidx \<Rightarrow>
      case cursor w of None \<Rightarrow> Ok w | Some c \<Rightarrow>
      case (case get_visible (items_tree w) vidx of None \<Rightarrow> None | Some n \<Rightarrow> displayed_items w (item_ref n)) of
        Some (ItemVariable v) \<Rightarrow> (case wc_opt of None \<Rightarrow> Panic | Some wc \<Rightarrow>
          and_then (move_to_transition wc next (dv_ref v) skip_zero c) (\<lambda>c'. Ok (w\<lparr>cursor := Some c'\<rparr>)))
      | _ \<Rightarrow> Ok w)"

text \<open>
  Without a cursor the move starts at the edge of the first view, \<open>edges\<close>, when a row has the focus. \<open>end_time\<close> is the end
  of what is loaded: signals, whose container is then \<open>wc_opt\<close>, or transactions. The move of the view to the cursor that
  follows is a message of the viewports.
\<close>

definition move_cursor_to_transition :: "nat option \<Rightarrow> ('v, 's) wave_container option \<Rightarrow> (int \<times> int) option \<Rightarrow> bool \<Rightarrow> nat option \<Rightarrow> bool
    \<Rightarrow> ('v, 's, 't) wave_data \<Rightarrow> (string, ('v, 's, 't) wave_data) outcome" where
  "move_cursor_to_transition end_time wc_opt edges next vidx_opt skip_zero w =
     (case nonzero_time end_time of None \<Rightarrow> Ok w | Some _ \<Rightarrow>
      let w = (case edges of Some (left, right) \<Rightarrow>
            if cursor w = None \<and> focused_item w \<noteq> None then w\<lparr>cursor := Some (if next then left else right)\<rparr> else w
          | None \<Rightarrow> w)
      in set_cursor_at_transition wc_opt next vidx_opt skip_zero w)"

subsection \<open>A scope becomes a subtree\<close>

text \<open>
  The reference: the rows of a scope, each with its level. A group with the name of the scope at the given level, below it
  the variables that can be added, in name order, and then, when asked for, the rows of the child scopes one level deeper.
\<close>

datatype ('v, 's) scope_row = GroupRow string | VariableRow "variable_name_type option" "('v, 's) variable_ref"

definition addable :: "('v, 's, 'm) env \<Rightarrow> ('v, 's) variable_ref list \<Rightarrow> ('v, 's) variable_ref list" where
  "addable e vs = (if env_load e vs then takeWhile (\<lambda>v. env_meta e v \<noteq> None) vs else [])"

fun scope_rows :: "nat \<Rightarrow> 'r match_api \<Rightarrow> ('v, 's, 'm) env \<Rightarrow> ('v, 's) wave_container \<Rightarrow> bool \<Rightarrow> variable_name_type option
    \<Rightarrow> nat \<Rightarrow> 's scope_ref \<Rightarrow> (nat \<times> ('v, 's) scope_row) list" where
  "scope_rows 0 api e wc recursive nt_opt l scope = []"
| "scope_rows (Suc depth) api e wc recursive nt_opt l scope =
     (let nt = (case nt_opt of Some nt \<Rightarrow> Some nt | None \<Rightarrow> if wc_scope_is_variable wc scope then Some LocalName else None)
      in (l, GroupRow (scope_name scope)) # map (\<lambda>v. (l + 1, VariableRow nt v)) (addable e (sorted_variables api wc scope))
         @ (if recursive then concat (map (scope_rows depth api e wc recursive nt (l + 1)) (child_scopes_or_default wc scope)) else []))"

fun row_item :: "('v, 's, 'm) env \<Rightarrow> variable_name_type \<Rightarrow> ('v, 's) scope_row \<Rightarrow> ('v, 's) displayed_item" where
  "row_item e d (GroupRow name) = ItemGroup \<lparr>dg_name = name, dg_color = None, dg_background = None, dg_content = [], dg_is_open = False\<rparr>"
| "row_item e d (VariableRow nt v) = new_variable (or_else nt d) (the (env_info e (the (env_meta e v)))) v"

definition new_refs :: "nat \<Rightarrow> nat \<Rightarrow> nat list" where
  "new_refs c n = map (\<lambda>i. c + 1 + i) [0..<n]"

lemma length_new_refs [simp]: "length (new_refs c n) = n"
  by (simp add: new_refs_def)

lemma new_refs_0 [simp]: "new_refs c 0 = []"
  by (simp add: new_refs_def)

lemma new_refs_1 [simp]: "new_refs c (Suc 0) = [c + 1]"
  by (simp add: new_refs_def)

lemma new_refs_add: "new_refs c (m + n) = new_refs c m @ new_refs (c + m) n"
  by (intro nth_equalityI) (auto simp: new_refs_def nth_append)

text \<open>The rows \<open>block\<close> stand at position \<open>b\<close> with the next free references, and everything else is as it was.\<close>

definition placed :: "('v, 's, 'm) env \<Rightarrow> ('v, 's, 't) wave_data \<Rightarrow> nat \<Rightarrow> (nat \<times> ('v, 's) scope_row) list \<Rightarrow> ('v, 's, 't) wave_data \<Rightarrow> bool" where
  "placed e w0 b block w \<longleftrightarrow> rows_ok w \<and> b \<le> length (items_tree w0)
     \<and> map node_place (items_tree w) = take b (map node_place (items_tree w0))
         @ zip (map fst block) (new_refs (display_item_ref_counter w0) (length block))
         @ drop b (map node_place (items_tree w0))
     \<and> display_item_ref_counter w = display_item_ref_counter w0 + length block
     \<and> default_name_type w = default_name_type w0
     \<and> (\<forall>i < length block. displayed_items w (display_item_ref_counter w0 + 1 + i) = Some (row_item e (default_name_type w0) (snd (block ! i))))
     \<and> (\<forall>r \<le> display_item_ref_counter w0. displayed_items w r = displayed_items w0 r)"

lemma placed_nil: "rows_ok w \<Longrightarrow> b \<le> length (items_tree w) \<Longrightarrow> placed e w b [] w"
  by (simp add: placed_def)

lemma placed_length: "placed e w0 b block w \<Longrightarrow> length (items_tree w) = length (items_tree w0) + length block"
proof -
  assume "placed e w0 b block w"
  then have "length (map node_place (items_tree w)) = length (items_tree w0) + length block" unfolding placed_def by simp
  then show ?thesis by simp
qed

lemma placed_append:
  assumes p: "placed e w0 b xs w1" and q: "placed e w1 (b + length xs) ys w2"
  shows "placed e w0 b (xs @ ys) w2"
proof -
  let ?c = "display_item_ref_counter w0"
  have b: "b \<le> length (items_tree w0)" and c: "display_item_ref_counter w1 = ?c + length xs" using p by (simp_all add: placed_def)
  have n1: "map node_place (items_tree w1) = take b (map node_place (items_tree w0))
      @ zip (map fst xs) (new_refs ?c (length xs)) @ drop b (map node_place (items_tree w0))"
    using p by (simp add: placed_def)
  have t: "take (b + length xs) (map node_place (items_tree w1)) = take b (map node_place (items_tree w0)) @ zip (map fst xs) (new_refs ?c (length xs))"
    and d: "drop (b + length xs) (map node_place (items_tree w1)) = drop b (map node_place (items_tree w0))"
    unfolding n1 using b by simp_all
  have "map node_place (items_tree w2) = take b (map node_place (items_tree w0))
      @ zip (map fst (xs @ ys)) (new_refs ?c (length (xs @ ys))) @ drop b (map node_place (items_tree w0))"
  proof -
    have "new_refs ?c (length (xs @ ys)) = new_refs ?c (length xs) @ new_refs (?c + length xs) (length ys)"
      by (simp add: new_refs_add)
    then show ?thesis using q t d by (simp add: placed_def c)
  qed
  moreover have "displayed_items w2 (?c + 1 + i) = Some (row_item e (default_name_type w0) (snd ((xs @ ys) ! i)))" if "i < length (xs @ ys)" for i
  proof (cases "i < length xs")
    case True
    then show ?thesis using p q c by (simp add: placed_def nth_append)
  next
    case False
    then have "i = length xs + (i - length xs)" "i - length xs < length ys" using that by auto
    then obtain j where "i = length xs + j" "j < length ys" by blast
    moreover have "displayed_items w2 (?c + length xs + 1 + j) = Some (row_item e (default_name_type w1) (snd (ys ! j)))"
      using q \<open>j < length ys\<close> unfolding placed_def c by blast
    moreover have "default_name_type w1 = default_name_type w0" using p by (simp add: placed_def)
    moreover have "?c + 1 + i = ?c + length xs + 1 + j" using \<open>i = length xs + j\<close> by simp
    ultimately show ?thesis by (simp only: nth_append_length_plus)
  qed
  moreover have "displayed_items w2 r = displayed_items w0 r" if "r \<le> ?c" for r
    using p q c that by (simp add: placed_def)
  moreover have "rows_ok w2" "default_name_type w2 = default_name_type w0"
    "display_item_ref_counter w2 = ?c + length (xs @ ys)"
    using p q c by (simp_all add: placed_def)
  ultimately show ?thesis using b unfolding placed_def by blast
qed

text \<open>One row.\<close>

lemma insert_placed:
  assumes ok: "rows_ok w" and good: "good_place w pos" and i: "i = row_item e (default_name_type w) x"
  shows "\<exists>w'. insert_displayed i (Some pos) True w = Ok (display_item_ref_counter w + 1, w') \<and> placed e w (tp_before pos) [(tp_level pos, x)] w'"
proof -
  let ?t = "items_tree w" and ?r = "display_item_ref_counter w + 1" and ?b = "tp_before pos"
  let ?x = "\<lparr>item_ref = ?r, level = tp_level pos, unfolded = True, selected = False\<rparr>"
  have target: "target_or_focus w (Some pos) = pos" by (simp add: target_or_focus_def)
  have m: "marker_idx i = None" by (cases x) (simp_all add: i new_variable_def)
  from rows_ok_insert[OF ok, of "Some pos" i True] good m obtain w' where
    ins: "insert_displayed i (Some pos) True w = Ok (?r, w')" and ok': "rows_ok w'" by (auto simp: target)
  have adm: "admissible ?t ?b (tp_level pos)" using good by (simp add: good_place_def)
  then have le: "?b \<le> length ?t" by (simp add: admissible_def)
  have tree: "tree_ok ?t" using ok by (simp add: rows_ok_def)
  have "insert_item ?t ?r pos = Ok (?b, vec_insert ?b ?x ?t)"
    using check_location_iff[OF tree le] adm by (simp add: insert_item_def)
  then have w': "w' = w\<lparr>display_item_ref_counter := ?r, items_tree := xselect_all_visible (vec_insert ?b ?x ?t) False,
      displayed_items := (displayed_items w)(?r := Some i), focused_item := focused_item w'\<rparr>"
    using ins by (auto simp: insert_displayed_def target Let_def)
  have "map node_place (items_tree w') = map node_place (vec_insert ?b ?x ?t)" by (subst w') simp
  also have "\<dots> = take ?b (map node_place ?t) @ [(tp_level pos, ?r)] @ drop ?b (map node_place ?t)"
    by (simp add: vec_insert_def take_map drop_map node_place_def)
  finally have n: "map node_place (items_tree w') = take ?b (map node_place ?t) @ [(tp_level pos, ?r)] @ drop ?b (map node_place ?t)" .
  have "default_name_type w' = default_name_type w" "display_item_ref_counter w' = ?r" "displayed_items w' = (displayed_items w)(?r := Some i)"
    by (subst w', simp)+
  then show ?thesis using ins ok' le n i by (auto simp: placed_def)
qed

text \<open>After a block the next row may stand at any level that the last row of the block allows.\<close>

lemma good_after:
  assumes p: "placed e w0 b block w" and ne: "block \<noteq> []" and good: "good_place w0 \<lparr>tp_before = b, tp_level = l\<rparr>"
    and l: "l \<le> l'" "l' \<le> 255" "l' \<le> fst (last block) + 1" and group: "fst (last block) < l' \<Longrightarrow> \<exists>name. snd (last block) = GroupRow name"
  shows "good_place w \<lparr>tp_before = b + length block, tp_level = l'\<rparr>"
proof -
  let ?t = "items_tree w" and ?c = "display_item_ref_counter w0" and ?p = "b + length block"
  have b: "b \<le> length (items_tree w0)" using p by (simp add: placed_def)
  have len: "length ?t = length (items_tree w0) + length block" by (rule placed_length[OF p])
  have n: "map node_place ?t = take b (map node_place (items_tree w0)) @ zip (map fst block) (new_refs ?c (length block)) @ drop b (map node_place (items_tree w0))"
    using p by (simp add: placed_def)
  have pos: "0 < length block" using ne by simp
  have "?p - 1 < length ?t" using len b pos by linarith
  then have "node_place (?t ! (?p - 1)) = map node_place ?t ! (?p - 1)" by simp
  also have "\<dots> = zip (map fst block) (new_refs ?c (length block)) ! (length block - 1)"
  proof -
    have "\<not> ?p - 1 < b" "?p - 1 - b = length block - 1" "length block - 1 < length block" using pos by linarith+
    then show ?thesis unfolding n using b by (simp add: nth_append min_def)
  qed
  also have "\<dots> = (fst (last block), ?c + length block)"
    using pos by (simp add: last_conv_nth[OF ne] new_refs_def)
  finally have last_row: "level (?t ! (?p - 1)) = fst (last block)" "item_ref (?t ! (?p - 1)) = ?c + length block"
    by (simp_all add: node_place_def)
  have "level (?t ! ?p) \<le> l'" if "?p < length ?t"
  proof -
    have "node_place (?t ! ?p) = map node_place ?t ! ?p" using that by simp
    also have "\<dots> = drop b (map node_place (items_tree w0)) ! 0" unfolding n using b by (simp add: nth_append min_def)
    also have "\<dots> = node_place (items_tree w0 ! b)" using that len by simp
    finally have "level (?t ! ?p) = level (items_tree w0 ! b)" by (simp add: node_place_def)
    moreover have "level (items_tree w0 ! b) \<le> l" using good that len by (simp add: good_place_def admissible_def)
    ultimately show ?thesis using l by simp
  qed
  moreover have "l' \<le> next_bound 0 (take ?p ?t)" using next_bound_take[of ?p ?t 0] last_row l len b pos by simp
  moreover have "group_ref (displayed_items w) (item_ref (?t ! (?p - 1)))" if "level (?t ! (?p - 1)) < l'"
  proof -
    from group that last_row obtain name where "snd (block ! (length block - 1)) = GroupRow name" by (auto simp: last_conv_nth[OF ne])
    moreover have "displayed_items w (?c + 1 + (length block - 1)) = Some (row_item e (default_name_type w0) (snd (block ! (length block - 1))))"
      using p pos by (simp add: placed_def)
    ultimately show ?thesis unfolding last_row(2) using pos by (simp add: group_ref_def)
  qed
  ultimately show ?thesis using l len b by (simp add: good_place_def admissible_def)
qed

lemma addable_Cons: "addable e [] = []"
  "env_load e (v # vs) = env_load e vs \<Longrightarrow> addable e (v # vs) = (if env_load e vs \<and> env_meta e v \<noteq> None then v # addable e vs else [])"
  by (auto simp: addable_def)

text \<open>The variables of one scope, after its group.\<close>

lemma variables_placed:
  assumes info: "\<And>m. env_info e m \<noteq> None" and "rows_ok w" "good_place w \<lparr>tp_before = p, tp_level = l\<rparr>"
  shows "\<exists>w' finished. add_variables_loop (env_meta e) (env_info e) False nt vs \<lparr>tp_before = p, tp_level = l\<rparr> refs w
      = Ok (finished, refs @ new_refs (display_item_ref_counter w) (length (takeWhile (\<lambda>v. env_meta e v \<noteq> None) vs)), w')
    \<and> placed e w p (map (\<lambda>v. (l, VariableRow nt v)) (takeWhile (\<lambda>v. env_meta e v \<noteq> None) vs)) w'"
  using assms(2,3)
proof (induction vs arbitrary: p refs w)
  case Nil
  then show ?case by (simp add: placed_nil good_place_def admissible_def ex_bool_eq)
next
  case (Cons v vs)
  show ?case
  proof (cases "env_meta e v")
    case None
    then have "add_variables_loop (env_meta e) (env_info e) False nt (v # vs) \<lparr>tp_before = p, tp_level = l\<rparr> refs w = Ok (False, refs, w)" by simp
    moreover have "p \<le> length (items_tree w)" using Cons.prems(2) by (simp add: good_place_def admissible_def)
    ultimately show ?thesis using None Cons.prems(1) by (intro exI[of _ w] exI[of _ False]) (simp add: placed_nil)
  next
    case (Some m)
    let ?r = "display_item_ref_counter w + 1"
    obtain info where i: "env_info e m = Some info" using info[of m] by auto
    have "new_variable (or_else nt (default_name_type w)) info v = row_item e (default_name_type w) (VariableRow nt v)" by (simp add: Some i)
    from insert_placed[OF Cons.prems this] obtain w1 where
      ins: "insert_displayed (new_variable (or_else nt (default_name_type w)) info v) (Some \<lparr>tp_before = p, tp_level = l\<rparr>) True w = Ok (?r, w1)"
      and p1: "placed e w p [(l, VariableRow nt v)] w1" by auto
    have ok1: "rows_ok w1" and c1: "display_item_ref_counter w1 = ?r" using p1 by (simp_all add: placed_def)
    have l: "l \<le> 255" using Cons.prems(2) by (simp add: good_place_def admissible_def)
    have good1: "good_place w1 \<lparr>tp_before = p + 1, tp_level = l\<rparr>" using good_after[OF p1 _ Cons.prems(2), of l] l by simp
    from Cons.IH[OF ok1 good1, of "refs @ [?r]"] obtain w2 finished where
      loop: "add_variables_loop (env_meta e) (env_info e) False nt vs \<lparr>tp_before = p + 1, tp_level = l\<rparr> (refs @ [?r]) w1
        = Ok (finished, (refs @ [?r]) @ new_refs ?r (length (takeWhile (\<lambda>v. env_meta e v \<noteq> None) vs)), w2)"
      and p2: "placed e w1 (p + 1) (map (\<lambda>v. (l, VariableRow nt v)) (takeWhile (\<lambda>v. env_meta e v \<noteq> None) vs)) w2"
      unfolding c1 by blast
    have "placed e w p ([(l, VariableRow nt v)] @ map (\<lambda>v. (l, VariableRow nt v)) (takeWhile (\<lambda>v. env_meta e v \<noteq> None) vs)) w2"
      by (rule placed_append[OF p1]) (use p2 in simp)
    moreover have "new_refs (display_item_ref_counter w) (Suc n) = ?r # new_refs ?r n" for n
      using new_refs_add[of "display_item_ref_counter w" 1 n] by simp
    ultimately show ?thesis using ins loop by (auto simp: Some i)
  qed
qed

lemma scope_rows_levels: "x \<in> set (scope_rows n api e wc recursive nt l scope) \<Longrightarrow> l \<le> fst x"
proof (induction n arbitrary: nt l scope)
  case (Suc n)
  then show ?case by (fastforce simp: Let_def split: if_splits dest: Suc_leD)
qed simp

lemma scope_rows_nonempty: "scope_rows (Suc n) api e wc recursive nt l scope \<noteq> []"
  by (simp add: Let_def)

lemma children_placed:
  assumes add: "\<And>c pos w. c \<in> set cs \<Longrightarrow> rows_ok w \<Longrightarrow> good_place w pos \<Longrightarrow> tp_level pos = l \<Longrightarrow>
      \<exists>w'. add c pos w = Some (Ok (\<lparr>tp_before = tp_before pos + length (blk c), tp_level = l + 1\<rparr>, w')) \<and> placed e w (tp_before pos) (blk c) w'"
    and blk: "\<And>c. c \<in> set cs \<Longrightarrow> blk c \<noteq> [] \<and> list_all (\<lambda>x. l \<le> fst x) (blk c)"
    and w: "rows_ok w" "good_place w \<lparr>tp_before = p, tp_level = l\<rparr>"
  shows "\<exists>w'. each_child add l cs \<lparr>tp_before = p, tp_level = l\<rparr> w = Some (Ok (\<lparr>tp_before = p + length (concat (map blk cs)), tp_level = l\<rparr>, w'))
    \<and> placed e w p (concat (map blk cs)) w'"
  using assms
proof (induction cs arbitrary: p w)
  case Nil
  then show ?case by (simp add: placed_nil good_place_def admissible_def)
next
  case (Cons c cs)
  from Cons.prems(1)[of c w "\<lparr>tp_before = p, tp_level = l\<rparr>"] Cons.prems(3,4) obtain w1 where
    a: "add c \<lparr>tp_before = p, tp_level = l\<rparr> w = Some (Ok (\<lparr>tp_before = p + length (blk c), tp_level = l + 1\<rparr>, w1))"
    and p1: "placed e w p (blk c) w1" by auto
  have b: "blk c \<noteq> []" "l \<le> fst (last (blk c))" using Cons.prems(2)[of c] by (auto simp: list_all_iff)
  have l: "l \<le> 255" using Cons.prems(4) by (simp add: good_place_def admissible_def)
  have good: "good_place w1 \<lparr>tp_before = p + length (blk c), tp_level = l\<rparr>" using good_after[OF p1 b(1) Cons.prems(4), of l] b l by simp
  have ok1: "rows_ok w1" using p1 by (simp add: placed_def)
  have "\<exists>w2. each_child add l cs \<lparr>tp_before = p + length (blk c), tp_level = l\<rparr> w1
      = Some (Ok (\<lparr>tp_before = p + length (blk c) + length (concat (map blk cs)), tp_level = l\<rparr>, w2))
    \<and> placed e w1 (p + length (blk c)) (concat (map blk cs)) w2"
  proof (rule Cons.IH, goal_cases)
    case (1 c' pos w')
    then show ?case by (intro Cons.prems(1)) simp_all
  qed (use Cons.prems(2) ok1 good in simp_all)
  then obtain w2 where
    r: "each_child add l cs \<lparr>tp_before = p + length (blk c), tp_level = l\<rparr> w1
      = Some (Ok (\<lparr>tp_before = p + length (blk c) + length (concat (map blk cs)), tp_level = l\<rparr>, w2))"
    and p2: "placed e w1 (p + length (blk c)) (concat (map blk cs)) w2" by blast
  show ?case using a r placed_append[OF p1 p2] by (simp add: add.assoc)
qed

lemma scope_placed:
  assumes tree: "\<And>s c. c \<in> set (child_scopes_or_default wc s) \<Longrightarrow> mu c < (mu s :: nat)"
    and info: "\<And>m. env_info e m \<noteq> None"
    and "mu scope < fuel" "tp_level pos + mu scope < 255" "rows_ok w" "good_place w pos"
  shows "\<exists>w'. add_scope_as_group fuel api e wc recursive nt_opt scope pos w
      = Some (Ok (\<lparr>tp_before = tp_before pos + length (scope_rows fuel api e wc recursive nt_opt (tp_level pos) scope), tp_level = tp_level pos + 1\<rparr>, w'))
    \<and> placed e w (tp_before pos) (scope_rows fuel api e wc recursive nt_opt (tp_level pos) scope) w'"
  using assms(3-)
proof (induction fuel arbitrary: scope pos w nt_opt)
  case (Suc fuel)
  let ?b = "tp_before pos" and ?l = "tp_level pos"
  define nt where "nt = (case nt_opt of Some nt \<Rightarrow> Some nt | None \<Rightarrow> if wc_scope_is_variable wc scope then Some LocalName else None)"
  define vars where "vars = sorted_variables api wc scope"
  let ?vblk = "map (\<lambda>v. (?l + 1, VariableRow nt v)) (addable e vars)"
  let ?cblk = "concat (map (scope_rows fuel api e wc recursive nt (?l + 1)) (child_scopes_or_default wc scope))"
  have l: "?l < 255" "?l + 1 \<le> 255" using Suc.prems(2) by simp_all
  from insert_placed[OF Suc.prems(3,4), of _ e "GroupRow (scope_name scope)"] obtain w1 where
    g: "add_group (scope_name scope) (Some pos) w = Ok (display_item_ref_counter w + 1, w1)"
    and p1: "placed e w ?b [(?l, GroupRow (scope_name scope))] w1" by (auto simp: add_group_def)
  have good0: "good_place w \<lparr>tp_before = ?b, tp_level = ?l\<rparr>" using Suc.prems(4) by (cases pos) simp
  have ok1: "rows_ok w1" using p1 by (simp add: placed_def)
  have good1: "good_place w1 \<lparr>tp_before = ?b + 1, tp_level = ?l + 1\<rparr>"
    using good_after[OF p1 _ good0, of "?l + 1"] l by simp
  obtain w2 where v: "add_variables e vars (Some \<lparr>tp_before = ?b + 1, tp_level = ?l + 1\<rparr>) False False nt w1
      = Ok (new_refs (display_item_ref_counter w1) (length (addable e vars)), w2)"
    and p2: "placed e w1 (?b + 1) ?vblk w2"
  proof (cases "env_load e vars")
    case False
    then show ?thesis using that[of w1] good1 ok1 by (simp add: add_variables_def addable_def placed_nil good_place_def admissible_def)
  next
    case True
    then show ?thesis using that variables_placed[OF info ok1 good1, of nt vars "[]"]
      by (auto simp: add_variables_def addable_def target_or_focus_def)
  qed
  have p12: "placed e w ?b ((?l, GroupRow (scope_name scope)) # ?vblk) w2" using placed_append[OF p1, of ?vblk w2] p2 by simp
  have ok2: "rows_ok w2" using p12 by (simp add: placed_def)
  let ?into = "\<lparr>tp_before = ?b + 1 + length (addable e vars), tp_level = ?l + 1\<rparr>"
  have good2: "good_place w2 ?into"
    using good_after[OF p12 _ good0, of "?l + 1"] l by (cases "addable e vars = []") (auto simp: last_map)
  have head: "and_then (add_group (scope_name scope) (Some pos) w) (\<lambda>(_, w1).
           and_then (deeper pos) (\<lambda>inner.
           and_then (add_variables e vars (Some \<lparr>tp_before = ?b + 1, tp_level = inner\<rparr>) False False nt w1) (\<lambda>(refs, w2).
           Ok (inner, \<lparr>tp_before = ?b + 1 + length refs, tp_level = inner\<rparr>, w2)))) = Ok (?l + 1, ?into, w2)"
    using g v l by (simp add: deeper_def)
  have rows: "scope_rows (Suc fuel) api e wc recursive nt_opt ?l scope
      = ((?l, GroupRow (scope_name scope)) # ?vblk) @ (if recursive then ?cblk else [])"
    by (simp add: nt_def vars_def Let_def)
  show ?case
  proof (cases recursive)
    case False
    then show ?thesis using head p12 rows by (simp add: nt_def[symmetric] vars_def[symmetric] Let_def)
  next
    case True
    have "\<exists>w'. each_child (add_scope_as_group fuel api e wc recursive nt) (?l + 1) (child_scopes_or_default wc scope) ?into w2
        = Some (Ok (\<lparr>tp_before = ?b + 1 + length (addable e vars) + length ?cblk, tp_level = ?l + 1\<rparr>, w'))
      \<and> placed e w2 (?b + 1 + length (addable e vars)) ?cblk w'"
    proof (rule children_placed, goal_cases)
      case (1 c pos' w')
      then show ?case using Suc.IH[of c pos' w' nt] tree[OF 1(1)] Suc.prems(1,2) by simp
    next
      case (2 c)
      then have "fuel \<noteq> 0" using tree[OF 2] Suc.prems(1) by auto
      then show ?case
        by (cases fuel) (auto simp: list_all_iff scope_rows_nonempty dest: scope_rows_levels simp del: scope_rows.simps)
    qed (use ok2 good2 in simp_all)
    then obtain w3 where ch: "each_child (add_scope_as_group fuel api e wc recursive nt) (?l + 1) (child_scopes_or_default wc scope) ?into w2
        = Some (Ok (\<lparr>tp_before = ?b + 1 + length (addable e vars) + length ?cblk, tp_level = ?l + 1\<rparr>, w3))"
      and p3: "placed e w2 (?b + 1 + length (addable e vars)) ?cblk w3" by blast
    have "placed e w ?b (((?l, GroupRow (scope_name scope)) # ?vblk) @ ?cblk) w3" by (rule placed_append[OF p12]) (use p3 in simp)
    then show ?thesis using head ch True rows by (simp add: nt_def[symmetric] vars_def[symmetric] Let_def)
  qed
qed simp

text \<open>C30. A scope becomes a subtree. With enough fuel for the depth of the hierarchy, room for its levels and translators that do not fail, adding a scope as
  a group at an accepted place succeeds. The new rows stand together at that place: a group named after the scope, the
  variables below it in name order, the groups of the child scopes one level deeper. They have the next free references
  and show what they should, all other rows keep their places, and the canvas stays well formed.\<close>

theorem scope_becomes_subtree:
  assumes "\<And>s c. c \<in> set (child_scopes_or_default wc s) \<Longrightarrow> mu c < (mu s :: nat)"
    and "\<And>m. env_info e m \<noteq> None" and "mu scope < fuel" and "tp_level pos + mu scope < 255" and "rows_ok w" and "good_place w pos"
  shows "let rows = scope_rows fuel api e wc recursive nt (tp_level pos) scope; c = display_item_ref_counter w
    in \<exists>w'. add_scope_as_group fuel api e wc recursive nt scope pos w
        = Some (Ok (\<lparr>tp_before = tp_before pos + length rows, tp_level = tp_level pos + 1\<rparr>, w'))
      \<and> rows_ok w' \<and> display_item_ref_counter w' = c + length rows
      \<and> map node_place (items_tree w') = take (tp_before pos) (map node_place (items_tree w))
          @ zip (map fst rows) (new_refs c (length rows)) @ drop (tp_before pos) (map node_place (items_tree w))
      \<and> (\<forall>i < length rows. displayed_items w' (c + 1 + i) = Some (row_item e (default_name_type w) (snd (rows ! i))))
      \<and> (\<forall>r \<le> c. displayed_items w' r = displayed_items w r)"
  using scope_placed[where mu = mu and wc = wc, OF assms] unfolding placed_def Let_def by blast

subsection \<open>Formats are set and reset\<close>

lemma get_format_set:
  assumes "path \<noteq> []"
  shows "get_format p (v\<lparr>dv_field_formats := filter (\<lambda>ff. ff_field ff \<noteq> path) (dv_field_formats v) @ [\<lparr>ff_field = path, ff_format = fmt\<rparr>]\<rparr>)
    = (if p = path then Some fmt else get_format p v)"
proof -
  have "List.find (\<lambda>ff. ff_field ff = p) (filter (\<lambda>ff. ff_field ff \<noteq> path) ffs @ [\<lparr>ff_field = path, ff_format = fmt\<rparr>])
      = (if p = path then Some \<lparr>ff_field = path, ff_format = fmt\<rparr> else List.find (\<lambda>ff. ff_field ff = p) ffs)" for ffs
    by (induction ffs) auto
  from this[of "dv_field_formats v"] show ?thesis using assms by (cases "p = path") (auto simp: get_format_def)
qed

lemma get_format_unset:
  assumes "path \<noteq> []"
  shows "get_format p (v\<lparr>dv_field_formats := filter (\<lambda>ff. ff_field ff \<noteq> path) (dv_field_formats v)\<rparr>)
    = (if p = path then None else get_format p v)"
proof -
  have "List.find (\<lambda>ff. ff_field ff = p) (filter (\<lambda>ff. ff_field ff \<noteq> path) ffs) = (if p = path then None else List.find (\<lambda>ff. ff_field ff = p) ffs)" for ffs
    by (induction ffs) auto
  from this[of "dv_field_formats v"] show ?thesis using assms by (cases "p = path") (auto simp: get_format_def)
qed

lemma get_format_downgrade [simp]: "get_format p (downgrade_type_limits_if_unsupported t m v) = get_format p v"
  by (simp add: downgrade_type_limits_if_unsupported_def get_format_def split: option.splits)

lemma get_format_whole: "get_format p (v\<lparr>dv_format := f, dv_info := i\<rparr>) = (if p = [] then f else get_format p v)"
  "get_format p (v\<lparr>dv_format := f\<rparr>) = (if p = [] then f else get_format p v)"
  by (simp_all add: get_format_def)

definition format_at :: "('v, 's, 't) wave_data \<Rightarrow> nat \<Rightarrow> string list \<Rightarrow> string option" where
  "format_at w r p = (case displayed_items w r of Some (ItemVariable v) \<Rightarrow> get_format p v | _ \<Rightarrow> None)"

lemma format_at_set:
  assumes "displayed_items w r = Some (ItemVariable v)"
    and "path = [] \<Longrightarrow> \<exists>wc m. wc_opt = Some wc \<and> wc_variable_meta wc (dv_ref v) = Some m"
    and "variable_format_change ts wc_opt (ExplicitField \<lparr>df_item = r, df_field = path\<rparr>) fmt w = Ok w'" and "fmt \<in> set (all_translator_names ts)"
  shows "(\<exists>v'. displayed_items w' r = Some (ItemVariable v')) \<and> (\<forall>x p. format_at w' x p = (if x = r \<and> p = path then Some fmt else format_at w x p))"
proof -
  from assms(3,4) obtain v' where u: "update_format ts wc_opt fmt path v = Ok v'"
    and w': "w' = w\<lparr>displayed_items := (displayed_items w)(r \<mapsto> ItemVariable v')\<rparr>"
    by (auto simp: variable_format_change_def update_format_at_def assms(1) and_then_Ok)
  have "get_format p v' = (if p = path then Some fmt else get_format p v)" for p
  proof (cases "path = []")
    case True
    from assms(2)[OF True] obtain wc m where "wc_opt = Some wc" "wc_variable_meta wc (dv_ref v) = Some m" by blast
    with u True obtain t where t: "get_translator fmt ts = Ok t" by (auto simp: update_format_def and_then_Ok)
    have "\<exists>i. v' = downgrade_type_limits_if_unsupported t m (v\<lparr>dv_format := Some fmt, dv_info := i\<rparr>)"
      using u t True \<open>wc_opt = _\<close> \<open>wc_variable_meta wc _ = _\<close> by (cases "at_info t m") (auto simp: update_format_def)
    then show ?thesis using True by (auto simp: get_format_whole)
  next
    case False
    with u have "v' = v\<lparr>dv_field_formats := filter (\<lambda>ff. ff_field ff \<noteq> path) (dv_field_formats v) @ [\<lparr>ff_field = path, ff_format = fmt\<rparr>]\<rparr>"
      by (simp add: update_format_def)
    then show ?thesis using get_format_set[OF False] by blast
  qed
  then show ?thesis using assms(1) by (simp add: w' format_at_def)
qed

lemma format_at_reset:
  assumes "displayed_items w r = Some (ItemVariable v)"
  shows "format_at (reset_variable_format \<lparr>df_item = r, df_field = path\<rparr> w) x p = (if x = r \<and> p = path then None else format_at w x p)"
  using assms by (cases "path = []") (auto simp: reset_variable_format_def format_at_def get_format_whole get_format_unset)

text \<open>A format that is set is the one that is shown. Setting the format of a variable, or of one of its fields, to a known
  translator makes that the format of exactly this variable or field, and leaves the format of every other row and field;
  resetting it leaves the default there, and again everything else.\<close>

theorem format_set_and_reset:
  assumes "displayed_items w r = Some (ItemVariable v)"
    and "path = [] \<Longrightarrow> \<exists>wc m. wc_opt = Some wc \<and> wc_variable_meta wc (dv_ref v) = Some m"
    and "variable_format_change ts wc_opt (ExplicitField \<lparr>df_item = r, df_field = path\<rparr>) fmt w = Ok w'" and "fmt \<in> set (all_translator_names ts)"
  shows "format_at w' x p = (if x = r \<and> p = path then Some fmt else format_at w x p)
    \<and> format_at (reset_variable_format \<lparr>df_item = r, df_field = path\<rparr> w') x p = (if x = r \<and> p = path then None else format_at w x p)"
  using format_at_set[OF assms] format_at_reset[of w' r _ path x p] by auto

text \<open>The information of the translator is not reset with the format.\<close>

theorem reset_keeps_info:
  assumes "displayed_items w r = Some (ItemVariable v)"
  shows "displayed_items (reset_variable_format \<lparr>df_item = r, df_field = []\<rparr> w) r = Some (ItemVariable (v\<lparr>dv_format := None\<rparr>))
    \<and> dv_info (v\<lparr>dv_format := None\<rparr>) = dv_info v"
  using assms by (simp add: reset_variable_format_def)

subsection \<open>Moves between transitions\<close>

text \<open>What a container answers for a signal with these changes, in order of time: the last change at or before the time, and
  the first one after it.\<close>

definition answers :: "('v, 's) wave_container \<Rightarrow> ('v, 's) variable_ref \<Rightarrow> (nat \<times> variable_value) list \<Rightarrow> bool" where
  "answers wc v chs \<longleftrightarrow> (\<forall>t. query_at wc v t = Some \<lparr>
     qr_current = (let past = filter (\<lambda>ch. fst ch \<le> t) chs in if past = [] then None else Some (last past)),
     qr_next = map_option fst (List.find (\<lambda>ch. t < fst ch) chs)\<rparr>)"

lemma last_at:
  assumes "sorted_wrt (\<lambda>a b. fst a < fst b) chs" "ch \<in> set chs"
  shows "last (filter (\<lambda>x. fst x \<le> fst ch) chs) = (ch :: nat \<times> 'b)"
proof -
  from assms(2) obtain xs ys where c: "chs = xs @ ch # ys" by (meson split_list)
  then have "filter (\<lambda>x. fst x \<le> fst ch) ys = []" using assms(1) by (auto simp: sorted_wrt_append filter_empty_conv)
  then show ?thesis by (simp add: c)
qed

text \<open>C31. Moves between transitions. For a signal with these changes, the next transition is the first change after the cursor,
  or the end of the waveform. The previous one is the last change before the cursor; a cursor on the first change stays, and
  a cursor before the first change panics.\<close>

theorem transition_moves:
  assumes "answers wc v chs" and "sorted_wrt (\<lambda>a b. fst a < fst b) chs" and "0 \<le> c"
  shows "move_to_transition wc True v False c = Ok (case List.find (\<lambda>ch. c < int (fst ch)) chs of Some ch \<Rightarrow> int (fst ch)
      | None \<Rightarrow> (case max_timestamp wc of Some t \<Rightarrow> int t | None \<Rightarrow> c))
    \<and> move_to_transition wc False v False c =
      (let before = filter (\<lambda>ch. int (fst ch) < c) chs
       in if before \<noteq> [] then Ok (int (fst (last before)))
          else if c \<in> (int \<circ> fst) ` set chs then Ok c else Panic)"
proof
  have q: "query_at wc v t = Some \<lparr>qr_current = (let past = filter (\<lambda>ch. fst ch \<le> t) chs in if past = [] then None else Some (last past)),
     qr_next = map_option fst (List.find (\<lambda>ch. t < fst ch) chs)\<rparr>" for t
    using assms(1) by (simp add: answers_def)
  obtain n where n: "c = int n" using assms(3) by (metis nonneg_int_cases)
  show "move_to_transition wc True v False c = Ok (case List.find (\<lambda>ch. c < int (fst ch)) chs of Some ch \<Rightarrow> int (fst ch)
      | None \<Rightarrow> (case max_timestamp wc of Some t \<Rightarrow> int t | None \<Rightarrow> c))"
    by (simp add: move_to_transition_def q step_transition_def cursor_time_def n split: option.splits)
  show "move_to_transition wc False v False c =
      (let before = filter (\<lambda>ch. int (fst ch) < c) chs
       in if before \<noteq> [] then Ok (int (fst (last before)))
          else if c \<in> (int \<circ> fst) ` set chs then Ok c else Panic)"
  proof (cases "c \<in> (int \<circ> fst) ` set chs")
    case True
    then obtain ch where ch: "ch \<in> set chs" "n = fst ch" by (auto simp: n)
    have l: "last (filter (\<lambda>x. fst x \<le> n) chs) = ch" and ne: "filter (\<lambda>x. fst x \<le> n) chs \<noteq> []"
      using last_at[OF assms(2) ch(1)] ch by (auto simp: filter_empty_conv)
    show ?thesis
    proof (cases "n = 0")
      case True
      then show ?thesis using l ne ch \<open>c \<in> _\<close>
        by (simp add: move_to_transition_def q step_transition_def cursor_time_def n Let_def case_prod_beta)
    next
      case False
      then have "(\<lambda>x. fst x \<le> n - 1) = (\<lambda>x. fst (x :: nat \<times> variable_value) < n)" by (auto simp: fun_eq_iff)
      moreover have "nat (int n - 1) = n - 1" by simp
      ultimately show ?thesis using l ne ch False \<open>c \<in> _\<close>
        by (simp add: move_to_transition_def q step_transition_def cursor_time_def n Let_def case_prod_beta)
    qed
  next
    case False
    then have "filter (\<lambda>x. fst x \<le> n) chs = filter (\<lambda>x. fst x < n) chs"
      by (intro filter_cong) (auto simp: n le_less image_iff)
    moreover have "fst (last (filter (\<lambda>x. fst x < n) chs)) \<noteq> n" if "filter (\<lambda>x. fst x < n) chs \<noteq> []"
      using last_in_set[OF that] by auto
    ultimately show ?thesis using False
      by (cases "last (filter (\<lambda>x. fst x < n) chs)") (auto simp: move_to_transition_def q step_transition_def cursor_time_def n Let_def)
  qed
qed

subsection \<open>The theorems at concrete inputs\<close>

text \<open>A file with a scope \<open>top\<close>, a scope \<open>cpu\<close> inside it, a signal in each, and the changes of every signal at 5 and 9.\<close>

definition named_scope :: "string list \<Rightarrow> unit scope_ref" where
  "named_scope path = \<lparr>sc_strs = path, sc_id = None\<rparr>"

definition signal_in :: "string list \<Rightarrow> string \<Rightarrow> (unit, unit) variable_ref" where
  "signal_in path name = \<lparr>vr_path = named_scope path, vr_name = name, vr_id = None, vr_index = None\<rparr>"

definition bit_meta :: "(unit, unit) variable_ref \<Rightarrow> (unit, unit) variable_meta" where
  "bit_meta v = \<lparr>vm_var = v, vm_num_bits = Some 1, vm_variable_type = None, vm_variable_type_name = None, vm_index = None,
     vm_direction = None, vm_enum_map = [], vm_encoding = EncBitVector\<rparr>"

definition sample_changes :: "(nat \<times> variable_value) list" where
  "sample_changes = [(5, BigUint 1), (9, BigUint 0)]"

definition two_scopes :: "(unit, unit) wave_container" where
  "two_scopes = \<lparr>wc_variable_meta = (\<lambda>v. Some (bit_meta v)),
     wc_query_variable = (\<lambda>v t. Some (Some \<lparr>
       qr_current = (let past = filter (\<lambda>ch. fst ch \<le> t) sample_changes in if past = [] then None else Some (last past)),
       qr_next = map_option fst (List.find (\<lambda>ch. t < fst ch) sample_changes)\<rparr>)),
     wc_variables_in_scope = (\<lambda>s. if sc_strs s = [''top''] then [signal_in [''top''] ''clock'', signal_in [''top''] ''en'']
       else [signal_in [''top'', ''cpu''] ''pc'']),
     wc_child_scopes = (\<lambda>s. Some (if sc_strs s = [''top''] then [named_scope [''top'', ''cpu'']] else [])),
     wc_variables = [], wc_scope_is_variable = (\<lambda>s. False), wc_max_timestamp = Some 20\<rparr>"

definition sample_env :: "(unit, unit, unit) env" where
  "sample_env = \<lparr>env_load = (\<lambda>vs. True), env_meta = (\<lambda>v. Some ()), env_info = (\<lambda>m. Some InfoBits), env_index = (\<lambda>v. None), env_locals = [],
     env_order = [], env_annotation_id = (\<lambda>n. n), env_show_id = (\<lambda>n. []), env_debug = (\<lambda>s. s), env_show_f32 = (\<lambda>x. []), env_multiplier = 0\<rparr>"

definition sample_translators :: "(unit, unit, nat) translator_list" where
  "sample_translators = \<lparr>tl_inner = [(''Hex'', Basic \<lparr>bt_name = ''Hex'', bt_translate = (\<lambda>n v. Ok ([], Normal)), bt_translates = (\<lambda>m. Inr Yes),
     bt_info = (\<lambda>m. Inr InfoBits), bt_numeric = (\<lambda>n v. Ok None), bt_range = (\<lambda>n. None)\<rparr>)], tl_default = ''Hex''\<rparr>"

theorem scope_becomes_subtree_witness:
  "\<exists>w'. add_scope_as_group 2 literal_api sample_env two_scopes True None (named_scope [''top'']) \<lparr>tp_before = 3, tp_level = 0\<rparr> sample_canvas
      = Some (Ok (\<lparr>tp_before = 8, tp_level = 1\<rparr>, w'))
    \<and> map node_place (items_tree w') = [(0, 1), (1, 2), (0, 3), (0, 4), (1, 5), (1, 6), (1, 7), (2, 8)]
    \<and> displayed_items w' 5 = Some (new_variable LocalName InfoBits (signal_in [''top''] ''en''))"
proof -
  let ?mu = "\<lambda>s :: unit scope_ref. if sc_strs s = [''top''] then 1 else (0 :: nat)" and ?pos = "\<lparr>tp_before = 3, tp_level = 0\<rparr>"
  have "good_place sample_canvas ?pos" by (simp add: good_place_def admissible_def sample_canvas_def)
  from scope_becomes_subtree[where mu = ?mu and wc = two_scopes and scope = "named_scope [''top'']" and fuel = 2 and pos = ?pos
      and w = sample_canvas and api = literal_api and e = sample_env and recursive = True and nt = None, OF _ _ _ _ sample_canvas_ok this]
  obtain w' where w': "let rows = scope_rows 2 literal_api sample_env two_scopes True None 0 (named_scope [''top'']) in
    add_scope_as_group 2 literal_api sample_env two_scopes True None (named_scope [''top'']) ?pos sample_canvas
        = Some (Ok (\<lparr>tp_before = 3 + length rows, tp_level = 1\<rparr>, w'))
      \<and> map node_place (items_tree w') = take 3 (map node_place (items_tree sample_canvas))
          @ zip (map fst rows) (new_refs 3 (length rows)) @ drop 3 (map node_place (items_tree sample_canvas))
      \<and> (\<forall>i < length rows. displayed_items w' (3 + 1 + i) = Some (row_item sample_env LocalName (snd (rows ! i))))"
    by (auto simp: Let_def two_scopes_def child_scopes_or_default_def named_scope_def sample_canvas_def sample_env_def)
  have rows: "scope_rows 2 literal_api sample_env two_scopes True None 0 (named_scope [''top'']) =
    [(0, GroupRow ''top''), (1, VariableRow None (signal_in [''top''] ''en'')), (1, VariableRow None (signal_in [''top''] ''clock'')),
     (1, GroupRow ''cpu''), (2, VariableRow None (signal_in [''top'', ''cpu''] ''pc''))]"
    by (simp add: numeral_2_eq_2 Let_def two_scopes_def named_scope_def signal_in_def child_scopes_or_default_def addable_def sample_env_def
        sorted_variables_def sorted_by_def not_greater_def literal_api_def cmp_int_def scope_name_def)
  show ?thesis using w' unfolding rows Let_def
    by (auto simp: sample_canvas_def node_place_def new_refs_def sample_env_def or_else_def dest!: spec[of _ "1 :: nat"])
qed

theorem format_set_and_reset_witness:
  "\<exists>w'. variable_format_change sample_translators (Some two_scopes) (ExplicitField \<lparr>df_item = 2, df_field = []\<rparr>) ''Hex'' sample_canvas = Ok w'
    \<and> format_at w' 2 [] = Some ''Hex'' \<and> format_at (reset_variable_format \<lparr>df_item = 2, df_field = []\<rparr> w') 2 [] = None"
proof -
  have v: "displayed_items sample_canvas 2 = Some (new_variable LocalName InfoBits sample_ref)" by (simp add: sample_canvas_items)
  have n: "''Hex'' \<in> set (all_translator_names sample_translators)" by (simp add: all_translator_names_def sample_translators_def)
  have "\<exists>w'. variable_format_change sample_translators (Some two_scopes) (ExplicitField \<lparr>df_item = 2, df_field = []\<rparr>) ''Hex'' sample_canvas = Ok w'"
    using v n by (simp add: variable_format_change_def update_format_at_def new_variable_def update_format_def two_scopes_def
        get_translator_def sample_translators_def)
  then obtain w' where w': "variable_format_change sample_translators (Some two_scopes) (ExplicitField \<lparr>df_item = 2, df_field = []\<rparr>) ''Hex'' sample_canvas = Ok w'" ..
  obtain u where u: "displayed_items sample_canvas 2 = Some (ItemVariable u)" using v by (simp add: new_variable_def)
  have "[] = [] \<Longrightarrow> \<exists>wc m. Some two_scopes = Some wc \<and> wc_variable_meta wc (dv_ref u) = Some m" by (simp add: two_scopes_def)
  from format_set_and_reset[OF u this w' n, of 2 "[]"] w' show ?thesis by auto
qed

theorem transition_moves_witness:
  "move_to_transition two_scopes True (signal_in [''top''] ''en'') False 6 = Ok 9
    \<and> move_to_transition two_scopes False (signal_in [''top''] ''en'') False 9 = Ok 5
    \<and> move_to_transition two_scopes False (signal_in [''top''] ''en'') False 3 = Panic"
proof -
  have "answers two_scopes (signal_in [''top''] ''en'') sample_changes" by (simp add: answers_def query_at_def two_scopes_def)
  moreover have "sorted_wrt (\<lambda>a b. fst a < fst b) sample_changes" by (simp add: sample_changes_def)
  ultimately show ?thesis
    using transition_moves[of two_scopes "signal_in [''top''] ''en''" sample_changes 6] transition_moves[of two_scopes "signal_in [''top''] ''en''" sample_changes 9]
      transition_moves[of two_scopes "signal_in [''top''] ''en''" sample_changes 3]
    by (simp add: sample_changes_def)
qed

end
