(* ===== verification/Fuzzy_Commands.thy ===== *)
theory Fuzzy_Commands
  imports Time_Format Translators
begin

section \<open>Commands, their fuzzy expansion and the prompt (fzcmd.rs, command\_prompt.rs)\<close>

text \<open>
  A command is a tree: a leaf holds a message, an inner node says how much of the text its parameter takes, which
  parameters to suggest, and what comes after a parameter. A text is parsed along the tree, or expanded by the suggestions
  that match best. The recursion is on the tree, so both always end. The packages regex and fuzzy\_matcher are parameters.
\<close>

subsection \<open>Characters\<close>

text \<open>
  \<open>is_word_char\<close> tells whether the expression \<^verbatim>\<open>\w\<close> matches a character, given by its bytes. \<open>fuzzy_indices\<close> is the score of a
  line for a query with the places that match.
\<close>

record text_api =
  is_word_char :: "string \<Rightarrow> bool"
  fuzzy_indices :: "string \<Rightarrow> string \<Rightarrow> (int \<times> nat list) option"

text \<open>\<^verbatim>\<open>char::is_whitespace\<close> and \<^verbatim>\<open>\s\<close>: the characters of the Unicode property \<^verbatim>\<open>White_Space\<close>.\<close>

definition is_space :: "string \<Rightarrow> bool" where
  "is_space u \<longleftrightarrow> ws_len (map of_char u) \<noteq> 0"

definition is_newline :: "string \<Rightarrow> bool" where
  "is_newline u \<longleftrightarrow> u = [char_of (10 :: nat)]"

lemma newline_char [simp]: "char_of (10 :: nat) = CHR 0x0A"
  by code_simp

fun pieces_between :: "('a \<Rightarrow> bool) \<Rightarrow> 'a list \<Rightarrow> 'a list list" where
  "pieces_between P [] = [[]]"
| "pieces_between P (x # xs) = (if P x then [] # pieces_between P xs
     else (case pieces_between P xs of [] \<Rightarrow> [[x]] | w # ws \<Rightarrow> (x # w) # ws))"

text \<open>\<^verbatim>\<open>str::split_whitespace\<close> and \<^verbatim>\<open>str::split_ascii_whitespace\<close>.\<close>

definition split_whitespace :: "string \<Rightarrow> string list" where
  "split_whitespace s = map concat (filter (\<lambda>w. w \<noteq> []) (pieces_between is_space (utf8_chars s)))"

definition is_ascii_space :: "char \<Rightarrow> bool" where
  "is_ascii_space c \<longleftrightarrow> (let k = of_char c :: nat in k = 9 \<or> k = 10 \<or> k = 12 \<or> k = 13 \<or> k = 32)"

definition split_ascii_whitespace :: "string \<Rightarrow> string list" where
  "split_ascii_whitespace s = filter (\<lambda>w. w \<noteq> []) (pieces_between is_ascii_space s)"

subsection \<open>Splitting off a parameter\<close>

text \<open>
  What is before a parameter, the parameter, the delimiter and the rest. In the expressions \<^verbatim>\<open>(a*)(b*)(c?)(.*)\<close> every
  group may be empty, so the match starts at the beginning and every group takes as much as it can.
\<close>

type_synonym query_pieces = "string \<times> string \<times> string \<times> string"

definition match_pieces :: "(string \<Rightarrow> bool) \<Rightarrow> (string \<Rightarrow> bool) \<Rightarrow> (string \<Rightarrow> bool) \<Rightarrow> string \<Rightarrow> query_pieces" where
  "match_pieces a b c query =
     (let cs = utf8_chars query; after_a = dropWhile a cs; after_b = dropWhile b after_a;
          n = (case after_b of [] \<Rightarrow> 0 | x # _ \<Rightarrow> if c x then 1 else 0)
      in (concat (takeWhile a cs), concat (takeWhile b after_a), concat (take n after_b),
          concat (takeWhile (\<lambda>x. \<not> is_newline x) (drop n after_b))))"

definition separate_first_word :: "text_api \<Rightarrow> string \<Rightarrow> query_pieces" where
  "separate_first_word api = match_pieces (\<lambda>x. \<not> is_word_char api x) (is_word_char api) (\<lambda>x. \<not> is_word_char api x)"

definition separate_optional_word :: "text_api \<Rightarrow> string \<Rightarrow> query_pieces" where
  "separate_optional_word api query = (if list_all is_space (utf8_chars query) then ([], '' '', [], [])
     else separate_first_word api query)"

definition separate_until_comma :: "text_api \<Rightarrow> string \<Rightarrow> query_pieces" where
  "separate_until_comma api = match_pieces (\<lambda>x. \<not> is_word_char api x) (\<lambda>x. x \<noteq> '','') (\<lambda>x. x = '','')"

datatype param_greed = WordGreed | OptionalWordGreed | ToCommaGreed | RestGreed | CustomGreed "string \<Rightarrow> query_pieces"

definition split_query :: "text_api \<Rightarrow> string \<Rightarrow> param_greed \<Rightarrow> query_pieces" where
  "split_query api query greed = (case greed of
     WordGreed \<Rightarrow> separate_first_word api query
   | OptionalWordGreed \<Rightarrow> separate_optional_word api query
   | ToCommaGreed \<Rightarrow> separate_until_comma api query
   | RestGreed \<Rightarrow> ([], trim_start query, [], [])
   | CustomGreed matcher \<Rightarrow> matcher query)"

subsection \<open>Commands and their parsing\<close>

datatype rest_query = SomeRest string | EmptyRest

definition rest_query_of :: "string \<Rightarrow> rest_query" where
  "rest_query_of s = (if s = [] then EmptyRest else SomeRest s)"

text \<open>What a node's parser says about a parameter; a parser of a parameter may panic.\<close>

datatype 'c parsed = Continue 'c | Reject | ParserPanic

datatype 'a command = Terminal 'a | NonTerminal param_greed "string list" "string \<Rightarrow> rest_query \<Rightarrow> 'a command parsed"

datatype parse_error = InvalidParameter string | MissingParameters | ExtraParameters string

primrec parse_command :: "text_api \<Rightarrow> 'a command \<Rightarrow> string \<Rightarrow> (parse_error, 'a) outcome" where
  "parse_command api (Terminal v) = (\<lambda>query. if query = [] then Ok v else Err (ExtraParameters query))"
| "parse_command api (NonTerminal greed ss parser) = (\<lambda>query. case split_query api query greed of (_, param, _, rest) \<Rightarrow>
     if param = [] then Err MissingParameters
     else (case map_parsed (parse_command api) (parser param (rest_query_of rest)) of
         Continue next \<Rightarrow> next rest
       | Reject \<Rightarrow> Err (InvalidParameter param)
       | ParserPanic \<Rightarrow> Panic))"

subsection \<open>Fuzzy matching\<close>

text \<open>The marks of a suggestion are indexed by the places that match; a place out of range panics.\<close>

definition fuzzy_score :: "text_api \<Rightarrow> string \<Rightarrow> string \<Rightarrow> (string, int \<times> bool list) outcome" where
  "fuzzy_score api line query =
     (let (score, indices) = (case fuzzy_indices api line query of Some r \<Rightarrow> r | None \<Rightarrow> (0, []))
      in if list_all (\<lambda>i. i < length line) indices
         then Ok (score, map (\<lambda>i. i \<in> set indices) [0..<length line]) else Panic)"

text \<open>The order of the key \<^verbatim>\<open>(-score, length)\<close>.\<close>

definition better_match :: "string \<times> int \<times> bool list \<Rightarrow> string \<times> int \<times> bool list \<Rightarrow> bool" where
  "better_match a b \<longleftrightarrow> fst (snd b) < fst (snd a) \<or> fst (snd a) = fst (snd b) \<and> length (fst a) \<le> length (fst b)"

definition fuzzy_alternatives :: "text_api \<Rightarrow> string list \<Rightarrow> string \<Rightarrow> (string, (string \<times> bool list) list) outcome" where
  "fuzzy_alternatives api alternatives query =
     and_then (collect_outcomes (map (\<lambda>a. and_then (fuzzy_score api a query) (\<lambda>s. Ok (a, s))) alternatives)) (\<lambda>scored.
     Ok (map (\<lambda>(a, _, marks). (a, marks)) (sorted_by better_match scored)))"

subsection \<open>Fuzzy expansion\<close>

datatype fuzzy_error = ReachedTerminal | MalformedCommand "string list" string | NoMoreInput

record fuzzy_output =
  fo_expanded :: string
  fo_suggestions :: "fuzzy_error + (string \<times> bool list) list"

definition all_unmarked :: "string list \<Rightarrow> (string \<times> bool list) list" where
  "all_unmarked ss = map (\<lambda>s. (s, replicate (length s) False)) ss"

definition ends_with_space :: "string \<Rightarrow> bool" where
  "ends_with_space s \<longleftrightarrow> (let cs = utf8_chars s in cs \<noteq> [] \<and> is_space (last cs))"

text \<open>What an inner node makes of a query after the text that is already expanded. A leaf has nothing more to expand.\<close>

primrec handle_non_terminal_fuzz :: "text_api \<Rightarrow> 'a command \<Rightarrow> string \<Rightarrow> string \<Rightarrow> (string, fuzzy_output option) outcome" where
  "handle_non_terminal_fuzz api (Terminal v) = (\<lambda>previous query. Ok None)"
| "handle_non_terminal_fuzz api (NonTerminal greed ss parser) = (\<lambda>previous query.
     case split_query api query greed of (lead, section, delim, rest) \<Rightarrow>
     let rest_query = delim @ rest in
     if lead = [] \<and> section = [] then
       Ok (Some \<lparr>fo_expanded = previous, fo_suggestions = (if ends_with_space previous then Inr (all_unmarked ss) else Inl NoMoreInput)\<rparr>)
     else and_then (fuzzy_alternatives api ss section) (\<lambda>matches.
       let expansion = (case matches of [] \<Rightarrow> section | m # _ \<Rightarrow> fst m); current = previous @ expansion @ delim in
       case map_parsed (handle_non_terminal_fuzz api) (parser expansion (rest_query_of rest_query)) of
         ParserPanic \<Rightarrow> Panic
       | Reject \<Rightarrow> Ok (Some \<lparr>fo_expanded = previous, fo_suggestions = Inl (MalformedCommand ss query)\<rparr>)
       | Continue next \<Rightarrow> and_then (next current rest_query) (\<lambda>result. Ok (Some (case result of
             None \<Rightarrow> \<lparr>fo_expanded = current, fo_suggestions = Inr matches\<rparr>
           | Some out \<Rightarrow> (if fo_suggestions out = Inl NoMoreInput then \<lparr>fo_expanded = current, fo_suggestions = Inr matches\<rparr> else out))))))"

definition expand_command :: "text_api \<Rightarrow> string \<Rightarrow> 'a command \<Rightarrow> (string, fuzzy_output) outcome" where
  "expand_command api query command = (case command of
     Terminal v \<Rightarrow> Ok \<lparr>fo_expanded = [], fo_suggestions = Inl ReachedTerminal\<rparr>
   | NonTerminal greed ss parser \<Rightarrow> and_then (handle_non_terminal_fuzz api command [] query) (\<lambda>result. Ok (case result of
       None \<Rightarrow> \<lparr>fo_expanded = [], fo_suggestions = Inl ReachedTerminal\<rparr>
     | Some out \<Rightarrow> (if fo_suggestions out = Inl NoMoreInput then \<lparr>fo_expanded = fo_expanded out, fo_suggestions = Inr (all_unmarked ss)\<rparr>
         else out))))"

subsection \<open>Characters of a text\<close>

text \<open>A text begins with a character. Every text of Rust does; the definition excludes a continuation byte in front.\<close>

definition starts_char :: "string \<Rightarrow> bool" where
  "starts_char s \<longleftrightarrow> s = [] \<or> \<not> is_continuation (hd s)"

lemma starts_char_simps [simp]: "starts_char []" "starts_char (c # s) \<longleftrightarrow> \<not> is_continuation c"
  by (simp_all add: starts_char_def)

lemma concat_utf8_chars [simp]: "concat (utf8_chars s) = s"
  by (induction s) (auto split: list.splits)

lemma utf8_chars_Nil [simp]: "utf8_chars s = [] \<longleftrightarrow> s = []"
  by (cases s) (auto split: list.splits)

lemma utf8_chars_append: "starts_char t \<Longrightarrow> utf8_chars (s @ t) = utf8_chars s @ utf8_chars t"
proof (induction s)
  case (Cons c s)
  have hd: "hd (hd (utf8_chars t)) = hd t" if "t \<noteq> []" using that by (cases t) (auto split: list.splits)
  show ?case
  proof (cases s)
    case Nil
    then show ?thesis using Cons hd by (cases t) (auto split: list.splits)
  qed (use Cons in \<open>auto split: list.splits\<close>)
qed simp

lemma utf8_chars_plain: "\<forall>c \<in> set s. \<not> is_continuation c \<Longrightarrow> utf8_chars s = map (\<lambda>c. [c]) s"
proof (induction s)
  case (Cons c s)
  then show ?case by (cases s) auto
qed simp

lemma in_utf8_chars: "u \<in> set (utf8_chars s) \<Longrightarrow> set u \<subseteq> set s"
  using concat_utf8_chars[of s] by (metis UN_upper set_concat)

lemma no_newline_chars: "char_of (10 :: nat) \<notin> set s \<Longrightarrow> takeWhile (\<lambda>x. \<not> is_newline x) (utf8_chars s) = utf8_chars s"
  by (auto simp: takeWhile_eq_all_conv is_newline_def dest: in_utf8_chars)

subsection \<open>Words\<close>

text \<open>What \<^verbatim>\<open>\w\<close> means for ASCII: letters, digits and the underscore.\<close>

definition ascii_word_char :: "char \<Rightarrow> bool" where
  "ascii_word_char c \<longleftrightarrow> (let k = of_char c :: nat in 48 \<le> k \<and> k \<le> 57 \<or> 65 \<le> k \<and> k \<le> 90 \<or> k = 95 \<or> 97 \<le> k \<and> k \<le> 122)"

definition ascii_words :: "text_api \<Rightarrow> bool" where
  "ascii_words api \<longleftrightarrow> (\<forall>c. (of_char c :: nat) < 128 \<longrightarrow> is_word_char api [c] = ascii_word_char c)"

lemma ascii_word_char_plain: "ascii_word_char c \<Longrightarrow> \<not> is_continuation c"
  by (auto simp: ascii_word_char_def is_continuation_def Let_def)

lemma ascii_words_word: "ascii_words api \<Longrightarrow> ascii_word_char c \<Longrightarrow> is_word_char api [c]"
  by (auto simp: ascii_words_def ascii_word_char_def Let_def)

lemma ascii_words_space: "ascii_words api \<Longrightarrow> \<not> is_word_char api '' ''"
  by (auto simp: ascii_words_def ascii_word_char_def Let_def)

text \<open>The pieces of a text that is made of them.\<close>

lemma match_pieces_of:
  assumes "list_all a lead" "list_all (\<lambda>x. \<not> a x \<and> b x) word" "word \<noteq> []" "\<not> b u" "c u"
  shows "dropWhile a (lead @ word @ u # rest) = word @ u # rest" "takeWhile a (lead @ word @ u # rest) = lead"
    "dropWhile b (word @ u # rest) = u # rest" "takeWhile b (word @ u # rest) = word"
proof -
  obtain x xs where w: "word = x # xs" using assms(3) by (cases word) auto
  show "dropWhile a (lead @ word @ u # rest) = word @ u # rest" "takeWhile a (lead @ word @ u # rest) = lead"
    "dropWhile b (word @ u # rest) = u # rest" "takeWhile b (word @ u # rest) = word"
    using assms(1,2,4) by (auto simp: w list_all_iff dropWhile_append takeWhile_append)
qed

text \<open>A command word, a space, and its parameters.\<close>

lemma split_word_line:
  assumes "ascii_words api" "list_all ascii_word_char w" "w \<noteq> []" "starts_char rest"
  shows "split_query api (w @ '' '' @ rest) WordGreed = ([], w, '' '', concat (takeWhile (\<lambda>x. \<not> is_newline x) (utf8_chars rest)))"
proof -
  have plain: "utf8_chars w = map (\<lambda>c. [c]) w" using assms(2) by (intro utf8_chars_plain) (auto simp: list_all_iff ascii_word_char_plain)
  have chars: "utf8_chars (w @ '' '' @ rest) = map (\<lambda>c. [c]) w @ '' '' # utf8_chars rest"
  proof -
    have sp: "\<not> is_continuation (CHR '' '')" by (simp add: is_continuation_def)
    then have "utf8_chars (w @ '' '' @ rest) = utf8_chars w @ utf8_chars ('' '' @ rest)" by (intro utf8_chars_append) simp
    moreover have "utf8_chars ('' '' @ rest) = utf8_chars '' '' @ utf8_chars rest" by (rule utf8_chars_append[OF assms(4)])
    ultimately show ?thesis by (simp add: plain)
  qed
  let ?W = "is_word_char api"
  have words: "list_all (\<lambda>x. \<not> \<not> ?W x \<and> ?W x) (map (\<lambda>c. [c]) w)"
    using assms(1,2) by (auto simp: list_all_iff ascii_words_word)
  note m = match_pieces_of[where lead = "[]" and a = "\<lambda>x. \<not> ?W x" and b = ?W and c = "\<lambda>x. \<not> ?W x" and u = "'' ''" and rest = "utf8_chars rest", OF _ words]
  have ne: "map (\<lambda>c. [c]) w \<noteq> []" using assms(3) by simp
  have m': "dropWhile (\<lambda>x. \<not> ?W x) (map (\<lambda>c. [c]) w @ '' '' # utf8_chars rest) = map (\<lambda>c. [c]) w @ '' '' # utf8_chars rest"
    "takeWhile (\<lambda>x. \<not> ?W x) (map (\<lambda>c. [c]) w @ '' '' # utf8_chars rest) = []"
    "dropWhile ?W (map (\<lambda>c. [c]) w @ '' '' # utf8_chars rest) = '' '' # utf8_chars rest"
    "takeWhile ?W (map (\<lambda>c. [c]) w @ '' '' # utf8_chars rest) = map (\<lambda>c. [c]) w"
    using m[OF _ ne] ascii_words_space[OF assms(1)] by simp_all
  have cc: "concat (map (\<lambda>c. [c]) w) = w" by (metis concat_utf8_chars plain)
  show ?thesis unfolding split_query_def separate_first_word_def match_pieces_def param_greed.case Let_def chars m'
    using ascii_words_space[OF assms(1)] by (simp add: cc)
qed

lemma split_word:
  assumes "ascii_words api" "list_all ascii_word_char w" "w \<noteq> []" "starts_char rest" "char_of (10 :: nat) \<notin> set rest"
  shows "split_query api (w @ '' '' @ rest) WordGreed = ([], w, '' '', rest)"
  using split_word_line[OF assms(1-4)] by (simp add: no_newline_chars[OF assms(5)])

lemma split_last_word:
  assumes "ascii_words api" "list_all ascii_word_char w"
  shows "split_query api w WordGreed = ([], w, [], [])"
proof -
  have plain: "utf8_chars w = map (\<lambda>c. [c]) w" using assms(2) by (intro utf8_chars_plain) (auto simp: list_all_iff ascii_word_char_plain)
  let ?W = "is_word_char api"
  have all: "?W x" if "x \<in> set (map (\<lambda>c. [c]) w)" for x using that assms by (auto simp: list_all_iff ascii_words_word)
  have m: "dropWhile (\<lambda>x. \<not> ?W x) (map (\<lambda>c. [c]) w) = map (\<lambda>c. [c]) w" "takeWhile (\<lambda>x. \<not> ?W x) (map (\<lambda>c. [c]) w) = []"
    using all by (cases w; simp)+
  have d: "dropWhile ?W (map (\<lambda>c. [c]) w) = []" "takeWhile ?W (map (\<lambda>c. [c]) w) = map (\<lambda>c. [c]) w"
    using all by (auto simp: dropWhile_eq_Nil_conv takeWhile_eq_all_conv)
  have cc: "concat (map (\<lambda>c. [c]) w) = w" by (metis concat_utf8_chars plain)
  show ?thesis unfolding split_query_def separate_first_word_def match_pieces_def param_greed.case Let_def plain m d by (simp add: cc)
qed

text \<open>Whatever is not a word is dropped in front of a word parameter.\<close>

lemma word_drops_front:
  assumes "list_all (\<lambda>u. \<not> is_word_char api u) (utf8_chars front)" "starts_char q"
  shows "split_query api (front @ q) WordGreed = (case split_query api q WordGreed of (lead, w, d, r) \<Rightarrow> (front @ lead, w, d, r))"
proof -
  let ?W = "is_word_char api"
  have chars: "utf8_chars (front @ q) = utf8_chars front @ utf8_chars q" by (rule utf8_chars_append[OF assms(2)])
  have all: "\<forall>x \<in> set (utf8_chars front). \<not> ?W x" using assms(1) by (simp add: list_all_iff)
  then have "dropWhile (\<lambda>x. \<not> ?W x) (utf8_chars front @ utf8_chars q) = dropWhile (\<lambda>x. \<not> ?W x) (utf8_chars q)"
    "takeWhile (\<lambda>x. \<not> ?W x) (utf8_chars front @ utf8_chars q) = utf8_chars front @ takeWhile (\<lambda>x. \<not> ?W x) (utf8_chars q)"
    by (simp_all add: dropWhile_append takeWhile_append)
  then show ?thesis by (simp add: split_query_def separate_first_word_def match_pieces_def Let_def chars)
qed

lemma parse_drops_front:
  assumes "list_all (\<lambda>u. \<not> is_word_char api u) (utf8_chars front)" "starts_char q"
  shows "parse_command api (NonTerminal WordGreed ss p) (front @ q) = parse_command api (NonTerminal WordGreed ss p) q"
  by (simp add: word_drops_front[OF assms] split: prod.splits)

text \<open>The rest of a text is read without the white space in front of it.\<close>

lemma parse_rest:
  "parse_command api (NonTerminal RestGreed ss p) query = (if trim_start query = [] then Err MissingParameters
     else (case p (trim_start query) EmptyRest of Continue next \<Rightarrow> parse_command api next [] | Reject \<Rightarrow> Err (InvalidParameter (trim_start query))
       | ParserPanic \<Rightarrow> Panic))"
  by (cases "p (trim_start query) EmptyRest") (simp_all add: split_query_def rest_query_of_def)

text \<open>White space between visible words.\<close>

lemma graphic_not_space: "graphic c \<Longrightarrow> \<not> is_space [c]"
  using ws_len_graphic[of "[c]"] by (simp add: is_space_def)

lemma graphic_plain: "graphic c \<Longrightarrow> \<not> is_continuation c"
  by (auto simp: graphic_def is_continuation_def Let_def)

lemma pieces_between_word: "\<forall>x \<in> set w. \<not> P x \<Longrightarrow> w \<noteq> [] \<Longrightarrow> pieces_between P w = [w]"
proof (induction w)
  case (Cons x w)
  then show ?case by (cases w) auto
qed simp

lemma pieces_between_nonempty [simp]: "pieces_between P xs \<noteq> []"
  by (induction xs) (auto split: list.splits)

lemma pieces_between_append: "\<forall>x \<in> set w. \<not> P x \<Longrightarrow> P u \<Longrightarrow> pieces_between P (w @ u # xs) = w # pieces_between P xs"
  by (induction w) auto

lemma utf8_chars_graphic: "\<forall>c \<in> set s. graphic c \<or> c = CHR '' '' \<Longrightarrow> utf8_chars s = map (\<lambda>c. [c]) s"
  by (rule utf8_chars_plain) (use graphic_plain in \<open>auto simp: is_continuation_def[of "CHR '' ''"]\<close>)

lemma split_join_words:
  "list_all (\<lambda>w. w \<noteq> [] \<and> list_all graphic w) ws \<Longrightarrow> split_whitespace (join '' '' ws) = ws"
proof (induction ws)
  case Nil
  then show ?case by (simp add: split_whitespace_def)
next
  case (Cons w ws)
  have sp: "is_space '' ''" by (simp add: is_space_def ws1_def)
  have w: "\<forall>x \<in> set (map (\<lambda>c. [c]) w). \<not> is_space x" "w \<noteq> []" "\<forall>c \<in> set w. graphic c \<or> c = CHR '' ''"
    using Cons.prems by (auto simp: list_all_iff graphic_not_space)
  have cc: "concat (map (\<lambda>c. [c]) w) = w" by (induction w) auto
  show ?case
  proof (cases ws)
    case Nil
    have "pieces_between is_space (map (\<lambda>c. [c]) w) = [map (\<lambda>c. [c]) w]" by (rule pieces_between_word) (use w in auto)
    then show ?thesis using w by (simp add: Nil split_whitespace_def utf8_chars_graphic[OF w(3)] cc)
  next
    case (Cons v vs)
    have g: "\<forall>c \<in> set (join '' '' ws). graphic c \<or> c = CHR '' ''"
    proof -
      have "\<forall>c \<in> set (join '' '' us). graphic c \<or> c = CHR '' ''" if "list_all (\<lambda>w. w \<noteq> [] \<and> list_all graphic w) us" for us
        using that by (induction us rule: induct_list012) (auto simp: list_all_iff)
      from this[of ws] show ?thesis using \<open>list_all _ (w # ws)\<close> by simp
    qed
    have "join '' '' (w # ws) = w @ '' '' @ join '' '' ws" by (simp add: Cons)
    moreover have "utf8_chars (w @ '' '' @ join '' '' ws) = map (\<lambda>c. [c]) w @ '' '' # map (\<lambda>c. [c]) (join '' '' ws)"
      using g w(3) by (subst utf8_chars_graphic) auto
    moreover have "utf8_chars (join '' '' ws) = map (\<lambda>c. [c]) (join '' '' ws)" by (rule utf8_chars_graphic[OF g])
    moreover have "split_whitespace (join '' '' ws) = ws" using Cons.IH Cons.prems by simp
    ultimately show ?thesis using w sp pieces_between_append[OF w(1) sp] by (simp add: split_whitespace_def cc)
  qed
qed

text \<open>An example of the parameters: words are those of ASCII, and a line matches best when it is the query.\<close>

definition sample_text_api :: text_api where
  "sample_text_api = \<lparr>is_word_char = (\<lambda>u. case u of [c] \<Rightarrow> ascii_word_char c | _ \<Rightarrow> False), fuzzy_indices = (\<lambda>line query. Some (if line = query then 1 else 0, []))\<rparr>"

lemma sample_text_api_ascii: "ascii_words sample_text_api"
  by (simp add: ascii_words_def sample_text_api_def)

end
