(* ===== verification/Command_Table.thy ===== *)
theory Command_Table
  imports Fuzzy_Commands Scope_Messages Viewports Decoders
begin

section \<open>The commands of the program (command\_parser.rs, util.rs)\<close>

text \<open>
  The tree of commands: which words are commands, which parameters they suggest and read, and the message each of them
  becomes. The match over the command word is a list of entries, of which the first with the word counts. The native build
  with its default features is modelled.
\<close>

subsection \<open>Ids of rows (util.rs)\<close>

definition hex_to_alpha :: "char \<Rightarrow> char" where
  "hex_to_alpha c = (case map_of (zip ''0123456789abcdef'' ''abcdefghijklmnop'') c of Some a \<Rightarrow> a | None \<Rightarrow> CHR ''?'')"

definition alpha_to_hex :: "char \<Rightarrow> char" where
  "alpha_to_hex c = (case map_of (zip ''abcdefghijklmnop'' ''0123456789abcdef'') c of Some a \<Rightarrow> a | None \<Rightarrow> CHR ''?'')"

text \<open>As many letters as the number of rows needs; the logarithm of no rows panics.\<close>

definition uint_idx_to_alpha_idx :: "nat \<Rightarrow> nat \<Rightarrow> ('e, string) outcome" where
  "uint_idx_to_alpha_idx idx nvariables = (if nvariables = 0 then Panic
     else Ok (map hex_to_alpha (zero_pad (length (digits_of 16 nvariables)) (show_radix 16 idx))))"

definition alpha_idx_to_uint_idx :: "string \<Rightarrow> nat option" where
  "alpha_idx_to_uint_idx idx = parse_unsigned 64 16 (map (\<lambda>u. case u of [c] \<Rightarrow> alpha_to_hex c | _ \<Rightarrow> CHR ''?'') (utf8_chars idx))"

subsection \<open>Messages\<close>

datatype load_options = LoadClear | KeepAvailable | KeepAll

datatype clock_highlight_type = HighlightLine | HighlightCycle | HighlightNone

datatype hierarchy_style = SeparateStyle | TreeStyle | VariablesStyle

datatype arrow_key_bindings = EdgeBinding | ScrollBinding

text \<open>The messages that commands become, in the groups in which the other theories model their arms.\<close>

datatype file_message =
  LoadFile string load_options
| LoadWaveformFileFromUrl string load_options
| LoadSurverFileByName string load_options
| LoadCommandFile string
| LoadCommandFileFromUrl string
| LoadStateFile "string option"
| SaveStateFile "string option"
| ReloadWaveform bool
| ReloadConfig
| DownloadDefaultConfig
| SelectTheme "string option"

datatype setting_message =
  SetMenuVisible bool
| SetSidePanelVisible bool
| ToggleFullscreen
| SetTickLines bool
| SetToolbarGroupEnabled string bool
| SetToolbarGroupRow string nat
| SetClockHighlightType clock_highlight_type
| SetHierarchyStyle hierarchy_style
| SetArrowKeyBindings arrow_key_bindings

datatype window_message =
  DumpTree
| SetKeyHelpVisible bool
| SetGestureHelpVisible bool
| SetQuickStartVisible bool
| SetPerformanceVisible bool
| SetContinuousRedraw bool
| SetCursorWindowVisible bool
| SetLogsVisible bool
| PauseSimulation
| UnpauseSimulation
| StartWcpServer "string option" bool
| StopWcpServer
| ExitProgram

datatype ('v, 's, 't) command_message =
  CanvasMsg "('v, 's, 't) message"
| ViewMsg view_message
| TransactionMsg transaction_message
| FrameBufferMsg "('v, 's) frame_buffer_message"
| AddScope "'s scope_ref" bool
| AddScopeAsGroup "'s scope_ref" bool
| SetActiveScope "'s scope_type option"
| VariableFormatChange field_target string
| MoveCursorToTransition bool "nat option" bool
| VariableValueToClipboard target
| OpenMemoryViewer "'s scope_ref" "string option"
| FileMsg file_message
| SettingMsg setting_message
| WindowMsg window_message
| Batch "('v, 's, 't) command_message list"

subsection \<open>What the commands depend on\<close>

text \<open>
  The parts of the state that \<^verbatim>\<open>get_parser\<close> reads, most of them names to suggest. The functions at the end are those of other
  packages: \<^verbatim>\<open>BigInt\<close> and \<^verbatim>\<open>f32\<close> from text, the derived \<^verbatim>\<open>FromStr\<close> of the enums, and \<^verbatim>\<open>char::is_numeric\<close>.
\<close>

record 's command_context =
  cx_has_waves :: bool
  cx_scopes :: "string list"
  cx_variables :: "string list"
  cx_arrays :: "string list"
  cx_surver_files :: "string list"
  cx_displayed :: "string list"
  cx_variables_in_scope :: "string list"
  cx_colors :: "string list"
  cx_formats :: "string list"
  cx_heights :: "string list"
  cx_active_scope :: "'s scope_type option"
  cx_is_transactions :: bool
  cx_wave_files :: "string list"
  cx_command_files :: "string list"
  cx_timescale :: "time_scale option"
  cx_viewport_idx :: nat
  cx_viewport_indices :: "string list"
  cx_markers :: "(string option \<times> nat) list"
  cx_wcp_running :: bool
  cx_keep_during_reload :: bool
  cx_toolbar_groups :: "string list"
  cx_themes :: "string list"
  cx_state_file :: "string option"
  cx_show_hierarchy :: bool
  cx_show_menu :: bool
  cx_show_ticks :: bool
  cx_parse_bigint :: "string \<Rightarrow> int option"
  cx_parse_f32 :: "string \<Rightarrow> f32_bits option"
  cx_name_type :: "string \<Rightarrow> variable_name_type option"
  cx_clock_highlight :: "string \<Rightarrow> clock_highlight_type option"
  cx_hierarchy_style :: "string \<Rightarrow> hierarchy_style option"
  cx_arrow_keys :: "string \<Rightarrow> arrow_key_bindings option"
  cx_is_numeric :: "string \<Rightarrow> bool"

definition toolbar_group_ids :: "string list" where
  "toolbar_group_ids = [''menu'', ''files'', ''copy'', ''zoom'', ''navigation'', ''transitions'', ''add_items'', ''viewports'',
     ''undo'', ''cxxrtl'', ''time'', ''annotations'']"

definition suggested_name :: "('v, 's) displayed_item \<Rightarrow> string" where
  "suggested_name item = (case item of ItemVariable v \<Rightarrow> full_path_string (dv_ref v) | _ \<Rightarrow> item_name item)"

text \<open>The rows to suggest, each with its id; an index of a row that has no item panics.\<close>

definition suggested_row :: "('v, 's, 't) wave_data \<Rightarrow> nat \<times> node \<Rightarrow> (string, string) outcome" where
  "suggested_row w row = (case displayed_items w (item_ref (snd row)) of None \<Rightarrow> Panic
     | Some item \<Rightarrow> and_then (uint_idx_to_alpha_idx (fst row) (length (filter (\<lambda>r. displayed_items w r \<noteq> None) [0..<display_item_ref_counter w + 1])))
         (\<lambda>alpha. Ok (alpha @ ''_'' @ suggested_name item)))"

definition displayed_suggestions :: "('v, 's, 't) wave_data \<Rightarrow> (string, string list) outcome" where
  "displayed_suggestions w = collect_outcomes (map (suggested_row w) (List.enumerate 0 (iter_visible (items_tree w))))"

definition displayed_markers :: "('v, 's, 't) wave_data \<Rightarrow> (string option \<times> nat) list" where
  "displayed_markers w = List.map_filter (\<lambda>node. case displayed_items w (item_ref node) of
     Some (ItemMarker m) \<Rightarrow> Some (dm_name m, dm_idx m) | _ \<Rightarrow> None) (items_tree w)"

definition parse_marker :: "string \<Rightarrow> (string option \<times> nat) list \<Rightarrow> nat option" where
  "parse_marker query ms = (case strip_prefix ''#'' query of
     Some id_str \<Rightarrow> parse_unsigned 8 10 id_str
   | None \<Rightarrow> map_option snd (List.find (\<lambda>m. fst m = Some query) ms))"

definition marker_suggestions :: "(string option \<times> nat) list \<Rightarrow> string list" where
  "marker_suggestions ms = concat (map (\<lambda>(name, idx). (case name of Some n \<Rightarrow> [n] | None \<Rightarrow> []) @ [''#'' @ show_radix 10 idx]) ms)"

subsection \<open>Parameters\<close>

text \<open>A parameter up to the next white space.\<close>

definition separate_at_space :: "string \<Rightarrow> query_pieces" where
  "separate_at_space = match_pieces is_space (\<lambda>x. \<not> is_space x) is_space"

definition leaf :: "'m \<Rightarrow> 'm command parsed" where
  "leaf m = Continue (Terminal m)"

fun of_option :: "'a option \<Rightarrow> 'a parsed" where
  "of_option (Some x) = Continue x"
| "of_option None = Reject"

fun bind_parsed :: "'a parsed \<Rightarrow> ('a \<Rightarrow> 'b parsed) \<Rightarrow> 'b parsed" where
  "bind_parsed (Continue x) f = f x"
| "bind_parsed Reject f = Reject"
| "bind_parsed ParserPanic f = ParserPanic"

definition single_word :: "string list \<Rightarrow> (string \<Rightarrow> 'm command parsed) \<Rightarrow> 'm command parsed" where
  "single_word ss rest_command = Continue (NonTerminal RestGreed ss (\<lambda>query _. rest_command query))"

definition optional_single_word :: "string list \<Rightarrow> (string \<Rightarrow> 'm command parsed) \<Rightarrow> 'm command parsed" where
  "optional_single_word ss rest_command = Continue (NonTerminal OptionalWordGreed ss (\<lambda>query _. rest_command query))"

definition word_param :: "string list \<Rightarrow> (string \<Rightarrow> 'm command parsed) \<Rightarrow> 'm command parsed" where
  "word_param ss rest_command = Continue (NonTerminal WordGreed ss (\<lambda>query _. rest_command query))"

definition time_param :: "'s command_context \<Rightarrow> string \<Rightarrow> int parsed" where
  "time_param cx s = (case cx_timescale cx of
     Some ts \<Rightarrow> (case parse_time_string_to_ticks s ts of Ok (Some t) \<Rightarrow> Continue t | Ok None \<Rightarrow> Reject | _ \<Rightarrow> ParserPanic)
   | None \<Rightarrow> of_option (cx_parse_bigint cx s))"

text \<open>The id in front of a suggested row, up to the underscore.\<close>

definition row_param :: "(nat \<Rightarrow> 'm) \<Rightarrow> string \<Rightarrow> 'm command parsed" where
  "row_param f word = of_option (map_option (\<lambda>idx. Terminal (f idx)) (alpha_idx_to_uint_idx (takeWhile (\<lambda>c. c \<noteq> CHR ''_'') word)))"

text \<open>The times of \<^verbatim>\<open>zoom_to\<close>: a part that begins like a number, with the next one when that does not begin with a digit.\<close>

fun time_strings :: "(string \<Rightarrow> bool) \<Rightarrow> nat \<Rightarrow> string list \<Rightarrow> string list" where
  "time_strings is_numeric 0 parts = []"
| "time_strings is_numeric (Suc n) [] = []"
| "time_strings is_numeric (Suc n) [part] =
     (case utf8_chars part of u # _ \<Rightarrow> if is_numeric u \<or> u = ''-'' then [part] else [] | [] \<Rightarrow> [])"
| "time_strings is_numeric (Suc n) (part # unit # parts) =
     (if (case utf8_chars part of u # _ \<Rightarrow> is_numeric u \<or> u = ''-'' | [] \<Rightarrow> False) then
        (if (case utf8_chars unit of u # _ \<Rightarrow> is_numeric u | [] \<Rightarrow> is_numeric ''0'')
         then part # time_strings is_numeric n (unit # parts)
         else (part @ unit) # time_strings is_numeric n parts)
      else time_strings is_numeric (Suc n) (unit # parts))"

definition zoom_to_command :: "'s command_context \<Rightarrow> string \<Rightarrow> ('v, 's, 't) command_message command parsed" where
  "zoom_to_command cx params =
     (let parts = split_whitespace params in
      if length parts < 2 then Reject else
      case time_strings (cx_is_numeric cx) 2 parts of
        [a, b] \<Rightarrow> bind_parsed (time_param cx a) (\<lambda>start. bind_parsed (time_param cx b) (\<lambda>end_time.
          leaf (ViewMsg (ZoomToRange start end_time (cx_viewport_idx cx)))))
      | _ \<Rightarrow> Reject)"

definition color_mode_of :: "string \<Rightarrow> fb_color_mode option" where
  "color_mode_of word = (if word = ''grayscale'' then Some Grayscale else if word = ''rgb'' then Some Rgb
     else if word = ''ycbcr'' then Some YCbCr else None)"

definition parse_u8 :: "string \<Rightarrow> nat option" where
  "parse_u8 s = parse_unsigned 8 10 s"

definition frame_buffer_mode_command :: "fb_color_mode \<Rightarrow> string \<Rightarrow> ('v, 's, 't) command_message command parsed" where
  "frame_buffer_mode_command mode rest = (case (mode = Grayscale, split_whitespace rest) of
     (True, [a]) \<Rightarrow> bind_parsed (of_option (parse_u8 a)) (\<lambda>n. if 1 \<le> n \<and> n \<le> 8
        then leaf (FrameBufferMsg (SetFrameBufferMode mode (of_nat n) 0 0)) else Reject)
   | (False, [a, b, c]) \<Rightarrow> bind_parsed (of_option (parse_u8 a)) (\<lambda>n1. bind_parsed (of_option (parse_u8 b)) (\<lambda>n2.
        bind_parsed (of_option (parse_u8 c)) (\<lambda>n3. if 8 < n1 \<or> 8 < n2 \<or> 8 < n3 then Reject
          else leaf (FrameBufferMsg (SetFrameBufferMode mode (of_nat n1) (of_nat n2) (of_nat n3))))))
   | _ \<Rightarrow> Reject)"

fun all_parsed :: "(string \<Rightarrow> 'a option) \<Rightarrow> string list \<Rightarrow> 'a list option" where
  "all_parsed p [] = Some []"
| "all_parsed p (s # ss) = (case p s of None \<Rightarrow> None | Some x \<Rightarrow> map_option ((#) x) (all_parsed p ss))"

fun pairs_of :: "'a list \<Rightarrow> ('a \<times> 'a) list" where
  "pairs_of (a # b # xs) = (a, b) # pairs_of xs"
| "pairs_of _ = []"

definition frame_buffer_range_command :: "string \<Rightarrow> ('v, 's, 't) command_message command parsed" where
  "frame_buffer_range_command rest = (case all_parsed parse_i64 (split_whitespace rest) of
     None \<Rightarrow> Reject
   | Some values \<Rightarrow> if values = [] \<or> odd (length values) then Reject
       else leaf (FrameBufferMsg (SetFrameBufferRange (pairs_of values))))"

text \<open>Two leading parts that together are a time are one.\<close>

definition marker_set_at_command :: "'s command_context \<Rightarrow> string \<Rightarrow> ('v, 's, 't) command_message command parsed" where
  "marker_set_at_command cx query = (case split_whitespace query of
     a # b # ms \<Rightarrow>
       (let combined = (if ms = [] then Continue False else (case cx_timescale cx of None \<Rightarrow> Continue False
            | Some ts \<Rightarrow> (case parse_time_string_to_ticks (a @ b) ts of Ok (Some _) \<Rightarrow> Continue True | Ok None \<Rightarrow> Continue False | _ \<Rightarrow> ParserPanic)))
        in bind_parsed combined (\<lambda>both.
          let (time_str, marker_ref) = (if both then (a @ b, join '' '' ms) else (a, join '' '' (b # ms)))
          in bind_parsed (time_param cx time_str) (\<lambda>t.
             leaf (CanvasMsg (Markers (case parse_marker marker_ref (cx_markers cx) of
               Some i \<Rightarrow> SetMarker i t | None \<Rightarrow> AddMarker t (Some marker_ref) True))))))
   | _ \<Rightarrow> Reject)"

subsection \<open>The table\<close>

type_synonym ('v, 's, 't) command_entry = "string \<times> ('v, 's, 't) command_message command parsed"

definition file_commands :: "'s command_context \<Rightarrow> ('v, 's, 't) command_entry list" where
  "file_commands cx = [
     (''load_file'', single_word (cx_wave_files cx) (\<lambda>w. leaf (FileMsg (LoadFile w LoadClear)))),
     (''create_default_config'', leaf (FileMsg DownloadDefaultConfig)),
     (''switch_file'', single_word (cx_wave_files cx) (\<lambda>w. leaf (FileMsg (LoadFile w KeepAll)))),
     (''load_url'', single_word [] (\<lambda>w. leaf (FileMsg (LoadWaveformFileFromUrl w LoadClear)))),
     (''run_command_file'', single_word (cx_command_files cx) (\<lambda>w. leaf (FileMsg (LoadCommandFile w)))),
     (''run_command_file_from_url'', single_word [] (\<lambda>w. leaf (FileMsg (LoadCommandFileFromUrl w)))),
     (''config_reload'', leaf (FileMsg ReloadConfig)),
     (''theme_select'', single_word (cx_themes cx) (\<lambda>w. leaf (FileMsg (SelectTheme (Some w)))))]"

definition view_commands :: "'s command_context \<Rightarrow> ('v, 's, 't) command_entry list" where
  "view_commands cx = (let v = cx_viewport_idx cx in [
     (''scroll_to_start'', leaf (ViewMsg (GoToStart v))), (''goto_start'', leaf (ViewMsg (GoToStart v))),
     (''scroll_to_end'', leaf (ViewMsg (GoToEnd v))), (''goto_end'', leaf (ViewMsg (GoToEnd v))),
     (''zoom_in'', leaf (ViewMsg (CanvasZoom None (1 / 2) v))),
     (''zoom_out'', leaf (ViewMsg (CanvasZoom None 2 v))),
     (''zoom_fit'', leaf (ViewMsg (ZoomToFit v))),
     (''zoom_to'', single_word [] (zoom_to_command cx)),
     (''toggle_menu'', leaf (SettingMsg (SetMenuVisible (\<not> cx_show_menu cx)))),
     (''toggle_side_panel'', leaf (SettingMsg (SetSidePanelVisible (\<not> cx_show_hierarchy cx)))),
     (''toggle_fullscreen'', leaf (SettingMsg ToggleFullscreen)),
     (''toggle_tick_lines'', leaf (SettingMsg (SetTickLines (\<not> cx_show_ticks cx))))])"

definition toolbar_commands :: "'s command_context \<Rightarrow> ('v, 's, 't) command_entry list" where
  "toolbar_commands cx = [
     (''toolbar_set_visible'', word_param (cx_toolbar_groups cx) (\<lambda>group_id. if group_id \<notin> set (cx_toolbar_groups cx) then Reject
        else word_param [''true'', ''false''] (\<lambda>value. if value = ''true'' then leaf (SettingMsg (SetToolbarGroupEnabled group_id True))
          else if value = ''false'' then leaf (SettingMsg (SetToolbarGroupEnabled group_id False)) else Reject))),
     (''toolbar_set_row'', word_param (cx_toolbar_groups cx) (\<lambda>group_id. if group_id \<notin> set (cx_toolbar_groups cx) then Reject
        else word_param [] (\<lambda>value. bind_parsed (of_option (parse_u8 value)) (\<lambda>row. leaf (SettingMsg (SetToolbarGroupRow group_id row))))))]"

definition add_scope_command :: "'s command_context \<Rightarrow> bool \<Rightarrow> ('v, 's, 't) command_message command parsed" where
  "add_scope_command cx recursive =
     (if cx_is_transactions cx then single_word (cx_scopes cx) (\<lambda>w. leaf (TransactionMsg (AddAllFromStreamScope w)))
      else single_word (cx_scopes cx) (\<lambda>w. leaf (AddScope (scope_from_hierarchy_string w) recursive)))"

definition add_scope_as_group_command :: "'s command_context \<Rightarrow> bool \<Rightarrow> ('v, 's, 't) command_message command parsed" where
  "add_scope_as_group_command cx recursive =
     (if cx_is_transactions cx then Reject
      else single_word (cx_scopes cx) (\<lambda>w. leaf (AddScopeAsGroup (scope_from_hierarchy_string w) recursive)))"

definition select_scope_command :: "'s command_context \<Rightarrow> ('v, 's, 't) command_message command parsed" where
  "select_scope_command cx =
     (if cx_is_transactions cx
      then single_word (cx_scopes cx) (\<lambda>w. leaf (SetActiveScope (Some (StreamScopeT (if w = ''tr'' then RootScope else EmptyScope w)))))
      else single_word (cx_scopes cx) (\<lambda>w. leaf (SetActiveScope (Some (WaveScopeT (scope_from_hierarchy_string w))))))"

definition scope_commands :: "'s command_context \<Rightarrow> ('v, 's, 't) command_entry list" where
  "scope_commands cx = [
     (''scope_add'', add_scope_command cx False), (''module_add'', add_scope_command cx False),
     (''stream_add'', add_scope_command cx False), (''scope_add_recursive'', add_scope_command cx True),
     (''scope_add_as_group'', add_scope_as_group_command cx False),
     (''scope_add_as_group_recursive'', add_scope_as_group_command cx True),
     (''scope_select'', select_scope_command cx), (''stream_select'', select_scope_command cx),
     (''scope_select_root'', leaf (SetActiveScope None)), (''stream_select_root'', leaf (SetActiveScope None)),
     (''reload'', leaf (FileMsg (ReloadWaveform (cx_keep_during_reload cx)))),
     (''remove_unavailable'', leaf (CanvasMsg (Rows RemovePlaceholders))),
     (''surver_select_file'', single_word (cx_surver_files cx) (\<lambda>w. leaf (FileMsg (LoadSurverFileByName w LoadClear)))),
     (''surver_switch_file'', single_word (cx_surver_files cx) (\<lambda>w. leaf (FileMsg (LoadSurverFileByName w KeepAll))))]"

definition add_variable_command :: "'s command_context \<Rightarrow> ('v, 's, 't) command_message command parsed" where
  "add_variable_command cx =
     (if cx_is_transactions cx then single_word (cx_variables cx) (\<lambda>w. leaf (TransactionMsg (AddStreamOrGeneratorFromName None w)))
      else single_word (cx_variables cx) (\<lambda>w. leaf (CanvasMsg (Rows (AddVariables [var_from_hierarchy_string w])))))"

definition add_from_scope_command :: "'s command_context \<Rightarrow> ('v, 's, 't) command_message command parsed" where
  "add_from_scope_command cx = single_word (cx_variables_in_scope cx) (\<lambda>name. case cx_active_scope cx of
     None \<Rightarrow> Reject
   | Some (WaveScopeT w) \<Rightarrow> leaf (CanvasMsg (Rows (AddVariables [var_new w name])))
   | Some (StreamScopeT stream_scope) \<Rightarrow> leaf (TransactionMsg (AddStreamOrGeneratorFromName (Some stream_scope) name)))"

definition analog_settings_of :: "string \<Rightarrow> analog_settings option option" where
  "analog_settings_of word =
     (if word = ''off'' then Some None
      else if word = ''step'' then Some (Some \<lparr>as_render_style = StepStyle, as_y_axis_scale = ViewportScale\<rparr>)
      else if word = ''interpolated'' then Some (Some \<lparr>as_render_style = Interpolated, as_y_axis_scale = ViewportScale\<rparr>)
      else None)"

definition item_commands :: "'s command_context \<Rightarrow> ('v, 's, 't) command_entry list" where
  "item_commands cx = [
     (''variable_add'', add_variable_command cx), (''generator_add'', add_variable_command cx),
     (''variable_add_from_scope'', add_from_scope_command cx), (''generator_add_from_stream'', add_from_scope_command cx),
     (''item_set_color'', single_word (cx_colors cx) (\<lambda>w. leaf (CanvasMsg (Items (ItemColorChange CurrentSelection (Some w)))))),
     (''item_set_background_color'', single_word (cx_colors cx)
        (\<lambda>w. leaf (CanvasMsg (Items (ItemBackgroundColorChange CurrentSelection (Some w)))))),
     (''item_set_format'', single_word (cx_formats cx) (\<lambda>w. leaf (VariableFormatChange SelectedFields w))),
     (''item_set_height'', single_word (cx_heights cx) (\<lambda>w. bind_parsed (of_option (cx_parse_f32 cx w))
        (\<lambda>h. leaf (CanvasMsg (Items (ItemHeightScalingFactorChange CurrentSelection h)))))),
     (''item_set_analog'', single_word [''off'', ''step'', ''interpolated''] (\<lambda>w. bind_parsed (of_option (analog_settings_of w))
        (\<lambda>settings. leaf (CanvasMsg (Items (SetAnalogSettings CurrentSelection settings)))))),
     (''item_unset_color'', leaf (CanvasMsg (Items (ItemColorChange CurrentSelection None)))),
     (''item_unset_background_color'', leaf (CanvasMsg (Items (ItemBackgroundColorChange CurrentSelection None)))),
     (''item_rename'', single_word [] (\<lambda>q. leaf (CanvasMsg (Items (ItemNameChange None (Some q)))))),
     (''variable_set_name_type'', single_word [''Local'', ''Unique'', ''Global''] (\<lambda>w. leaf (CanvasMsg (Items
        (ChangeVariableNameType CurrentSelection (case cx_name_type cx w of Some t \<Rightarrow> t | None \<Rightarrow> LocalName)))))),
     (''variable_force_name_type'', single_word [''Local'', ''Unique'', ''Global''] (\<lambda>w. leaf (CanvasMsg (Items
        (ForceVariableNameTypes (case cx_name_type cx w of Some t \<Rightarrow> t | None \<Rightarrow> LocalName))))))]"

definition row_commands :: "'s command_context \<Rightarrow> ('v, 's, 't) command_entry list" where
  "row_commands cx = [
     (''item_focus'', single_word (cx_displayed cx) (row_param (\<lambda>idx. CanvasMsg (Selection (FocusItem idx))))),
     (''transition_next'', single_word (cx_displayed cx) (row_param (\<lambda>idx. MoveCursorToTransition True (Some idx) False))),
     (''transition_previous'', single_word (cx_displayed cx) (row_param (\<lambda>idx. MoveCursorToTransition False (Some idx) False))),
     (''transaction_next'', leaf (TransactionMsg (MoveTransaction True))),
     (''transaction_prev'', leaf (TransactionMsg (MoveTransaction False))),
     (''copy_value'', single_word (cx_displayed cx) (row_param (\<lambda>idx. VariableValueToClipboard (Explicit idx)))),
     (''preference_set_clock_highlight'', single_word [''Line'', ''Cycle'', ''None''] (\<lambda>w. leaf (SettingMsg (SetClockHighlightType
        (case cx_clock_highlight cx w of Some t \<Rightarrow> t | None \<Rightarrow> HighlightLine))))),
     (''preference_set_hierarchy_style'', single_word [''Separate'', ''Tree'', ''Variables''] (\<lambda>w. leaf (SettingMsg (SetHierarchyStyle
        (case cx_hierarchy_style cx w of Some t \<Rightarrow> t | None \<Rightarrow> SeparateStyle))))),
     (''preference_set_arrow_key_bindings'', single_word [''Edge'', ''Scroll''] (\<lambda>w. leaf (SettingMsg (SetArrowKeyBindings
        (case cx_arrow_keys cx w of Some t \<Rightarrow> t | None \<Rightarrow> EdgeBinding))))),
     (''item_unfocus'', leaf (CanvasMsg (Selection UnfocusItem))),
     (''divider_add'', optional_single_word [] (\<lambda>w. leaf (CanvasMsg (Rows (AddDivider (Some w) None))))),
     (''timeline_add'', leaf (CanvasMsg (Rows (AddTimeLine None)))),
     (''goto_cursor'', leaf (ViewMsg GoToCursorIfNotInView)),
     (''goto_marker'', single_word (marker_suggestions (cx_markers cx)) (\<lambda>name. of_option (map_option
        (\<lambda>idx. Terminal (ViewMsg (GoToMarkerPosition idx 0))) (parse_marker name (cx_markers cx)))))]"

definition frame_buffer_commands :: "'s command_context \<Rightarrow> ('v, 's, 't) command_entry list" where
  "frame_buffer_commands cx = [
     (''frame_buffer_set_array'', single_word (cx_arrays cx) (\<lambda>w. leaf (FrameBufferMsg (SetFrameBufferArray (scope_from_hierarchy_string w))))),
     (''frame_buffer_set_variable'', single_word (cx_variables cx) (\<lambda>w. leaf (FrameBufferMsg (SetFrameBufferVariable (var_from_hierarchy_string w))))),
     (''frame_buffer_set_mode'', word_param [''grayscale'', ''rgb'', ''ycbcr''] (\<lambda>w. bind_parsed (of_option (color_mode_of w))
        (\<lambda>mode. single_word [] (frame_buffer_mode_command mode)))),
     (''frame_buffer_set_width'', single_word [] (\<lambda>w. bind_parsed (of_option (parse_unsigned 64 10 w))
        (\<lambda>width. leaf (FrameBufferMsg (SetFrameBufferWidth (max width 1)))))),
     (''frame_buffer_set_range'', single_word [] frame_buffer_range_command),
     (''memory_viewer_open'', single_word (cx_arrays cx) (\<lambda>w. leaf (OpenMemoryViewer (scope_from_hierarchy_string w) (Some w)))),
     (''dump_tree'', leaf (WindowMsg DumpTree))]"

definition group_commands :: "('v, 's, 't) command_entry list" where
  "group_commands = [
     (''group_marked'', optional_single_word [] (\<lambda>name. leaf (CanvasMsg (Groups (GroupNew
        (if trim name = [] then None else Some (trim name)) None None))))),
     (''decoder_add'', word_param (map show_protocol [Spi, I2c, Uart]) (\<lambda>name. of_option (map_option
        (\<lambda>p. Terminal (CanvasMsg (Decoding (DecoderAdd p None))))
        (List.find (\<lambda>p. to_ascii_lowercase (show_protocol p) = to_ascii_lowercase name) [Spi, I2c, Uart])))),
     (''group_dissolve'', leaf (CanvasMsg (Groups (GroupDissolve None)))),
     (''group_fold_recursive'', leaf (CanvasMsg (Groups (GroupFoldRecursive None)))),
     (''group_unfold_recursive'', leaf (CanvasMsg (Groups (GroupUnfoldRecursive None)))),
     (''group_fold_all'', leaf (CanvasMsg (Groups GroupFoldAll))),
     (''group_unfold_all'', leaf (CanvasMsg (Groups GroupUnfoldAll))),
     (''show_controls'', leaf (WindowMsg (SetKeyHelpVisible True))),
     (''show_mouse_gestures'', leaf (WindowMsg (SetGestureHelpVisible True))),
     (''show_quick_start'', leaf (WindowMsg (SetQuickStartVisible True))),
     (''show_performance'', optional_single_word [] (\<lambda>w. if w = ''redraw''
        then leaf (Batch [WindowMsg (SetPerformanceVisible True), WindowMsg (SetContinuousRedraw True)]) else leaf (WindowMsg (SetPerformanceVisible True))))]"

definition time_commands :: "'s command_context \<Rightarrow> ('v, 's, 't) command_entry list" where
  "time_commands cx = [
     (''cursor_set'', single_word [] (\<lambda>s. bind_parsed (time_param cx s)
        (\<lambda>t. leaf (Batch [CanvasMsg (Selection (CursorSet t)), ViewMsg GoToCursorIfNotInView])))),
     (''goto_time'', single_word [] (\<lambda>s. bind_parsed (time_param cx s) (\<lambda>t. leaf (ViewMsg (GoToTime (Some t) 0))))),
     (''marker_set'', Continue (NonTerminal (CustomGreed separate_at_space) [] (\<lambda>name _. word_param [] (\<lambda>time_str.
        bind_parsed (of_option (cx_parse_bigint cx time_str)) (\<lambda>t. leaf (CanvasMsg (Markers (ResolveMarkerSet name t)))))))),
     (''marker_set_at'', single_word [] (marker_set_at_command cx)),
     (''marker_remove'', single_word (marker_suggestions (cx_markers cx)) (\<lambda>name. leaf (CanvasMsg (Markers (ResolveMarkerRemove name))))),
     (''show_marker_window'', leaf (WindowMsg (SetCursorWindowVisible True))),
     (''show_logs'', leaf (WindowMsg (SetLogsVisible True))),
     (''save_state'', leaf (FileMsg (SaveStateFile (cx_state_file cx)))),
     (''save_state_as'', single_word [] (\<lambda>w. leaf (FileMsg (SaveStateFile (Some w))))),
     (''load_state'', single_word [] (\<lambda>w. leaf (FileMsg (LoadStateFile (Some w))))),
     (''viewport_add'', leaf (ViewMsg AddViewport)),
     (''viewport_remove'', leaf (ViewMsg RemoveViewport)),
     (''viewport_set_active'', single_word (cx_viewport_indices cx) (\<lambda>w. bind_parsed (of_option (parse_unsigned 64 10 w))
        (\<lambda>idx. leaf (ViewMsg (SetActiveViewport idx))))),
     (''pause_simulation'', leaf (WindowMsg PauseSimulation)),
     (''unpause_simulation'', leaf (WindowMsg UnpauseSimulation)),
     (''undo'', leaf (CanvasMsg (History (Undo 1)))),
     (''redo'', leaf (CanvasMsg (History (Redo 1)))),
     (''wcp_server_start'', leaf (WindowMsg (StartWcpServer None False))),
     (''wcp_server_stop'', leaf (WindowMsg StopWcpServer)),
     (''exit'', leaf (WindowMsg ExitProgram))]"

definition command_table :: "'s command_context \<Rightarrow> ('v, 's, 't) command_entry list" where
  "command_table cx = file_commands cx @ view_commands cx @ toolbar_commands cx @ scope_commands cx @ item_commands cx
     @ row_commands cx @ frame_buffer_commands cx @ group_commands @ time_commands cx"

text \<open>The commands that are suggested: those for a loaded file, or those without one.\<close>

definition commands_with_waves :: "bool \<Rightarrow> string list" where
  "commands_with_waves wcp_running = [
     ''load_file'', ''load_url'', ''load_state'', ''run_command_file'', ''run_command_file_from_url'', ''switch_file'',
     ''variable_add'', ''generator_add'', ''item_focus'', ''item_set_color'', ''item_set_background_color'', ''item_set_format'',
     ''item_set_height'', ''item_set_analog'', ''item_unset_color'', ''item_unset_background_color'', ''item_unfocus'',
     ''item_rename'', ''zoom_fit'', ''scope_add'', ''create_default_config'', ''scope_add_recursive'', ''scope_add_as_group'',
     ''scope_add_as_group_recursive'', ''scope_select'', ''scope_select_root'', ''stream_add'', ''stream_select'',
     ''stream_select_root'', ''divider_add'', ''config_reload'', ''theme_select'', ''reload'', ''remove_unavailable'',
     ''show_controls'', ''show_mouse_gestures'', ''show_quick_start'', ''show_logs'', ''show_performance'', ''scroll_to_start'',
     ''scroll_to_end'', ''goto_start'', ''goto_end'', ''zoom_in'', ''zoom_out'', ''zoom_to'', ''toggle_menu'', ''toggle_side_panel'',
     ''toggle_fullscreen'', ''toggle_tick_lines'', ''toolbar_set_visible'', ''toolbar_set_row'', ''variable_add_from_scope'',
     ''generator_add_from_stream'', ''variable_set_name_type'', ''variable_force_name_type'', ''preference_set_clock_highlight'',
     ''preference_set_hierarchy_style'', ''preference_set_arrow_key_bindings'', ''goto_cursor'', ''goto_marker'', ''dump_tree'',
     ''decoder_add'', ''group_marked'', ''group_dissolve'', ''group_fold_recursive'', ''group_unfold_recursive'', ''group_fold_all'',
     ''group_unfold_all'', ''save_state'', ''save_state_as'', ''timeline_add'', ''cursor_set'', ''goto_time'', ''marker_set'',
     ''marker_set_at'', ''marker_remove'', ''show_marker_window'', ''viewport_add'', ''viewport_remove'', ''viewport_set_active'',
     ''transition_next'', ''transition_previous'', ''transaction_next'', ''transaction_prev'', ''copy_value'',
     ''frame_buffer_set_array'', ''frame_buffer_set_variable'', ''frame_buffer_set_mode'', ''frame_buffer_set_width'',
     ''frame_buffer_set_range'', ''memory_viewer_open'', ''pause_simulation'', ''unpause_simulation'', ''undo'', ''redo'',
     if wcp_running then ''wcp_server_stop'' else ''wcp_server_start'', ''exit'']"

definition commands_without_waves :: "bool \<Rightarrow> string list" where
  "commands_without_waves wcp_running = [
     ''load_file'', ''load_url'', ''load_state'', ''run_command_file'', ''run_command_file_from_url'', ''config_reload'',
     ''theme_select'', ''toggle_menu'', ''toggle_side_panel'', ''toggle_fullscreen'', ''toolbar_set_visible'', ''toolbar_set_row'',
     ''preference_set_clock_highlight'', ''preference_set_hierarchy_style'', ''preference_set_arrow_key_bindings'',
     ''show_controls'', ''show_mouse_gestures'', ''show_quick_start'', ''show_logs'', ''create_default_config'',
     ''show_performance'', if wcp_running then ''wcp_server_stop'' else ''wcp_server_start'', ''exit'']"

definition command_names :: "'s command_context \<Rightarrow> string list" where
  "command_names cx = (if cx_has_waves cx then commands_with_waves (cx_wcp_running cx) else commands_without_waves (cx_wcp_running cx))
     @ (if cx_surver_files cx = [] then [] else [''surver_select_file'', ''surver_switch_file''])"

definition get_parser :: "'s command_context \<Rightarrow> ('v, 's, 't) command_message command" where
  "get_parser cx = NonTerminal WordGreed (command_names cx)
     (\<lambda>query _. case map_of (command_table cx) query of Some r \<Rightarrow> r | None \<Rightarrow> Reject)"

text \<open>A command that is run.\<close>

definition run_command :: "text_api \<Rightarrow> 's command_context \<Rightarrow> string \<Rightarrow> (parse_error, ('v, 's, 't) command_message) outcome" where
  "run_command api cx query = parse_command api (get_parser cx) query"

subsection \<open>Ids are read back\<close>

definition hex_digits :: string where "hex_digits = ''0123456789abcdef''"

lemma hex_digit_list: "list_all (\<lambda>c. alpha_to_hex (hex_to_alpha c) = c \<and> \<not> is_continuation (hex_to_alpha c) \<and> hex_to_alpha c \<noteq> CHR ''_''
    \<and> hex_to_alpha c \<noteq> char_of (10 :: nat) \<and> graphic (hex_to_alpha c) \<and> c \<noteq> CHR ''+'') hex_digits"
  by code_simp

lemma hex_digit_facts:
  "c \<in> set hex_digits \<Longrightarrow> alpha_to_hex (hex_to_alpha c) = c \<and> \<not> is_continuation (hex_to_alpha c) \<and> hex_to_alpha c \<noteq> CHR ''_''
    \<and> hex_to_alpha c \<noteq> char_of (10 :: nat) \<and> graphic (hex_to_alpha c) \<and> c \<noteq> CHR ''+''"
  using hex_digit_list by (auto simp: list_all_iff)

lemma digit_char_hex: "d < 16 \<Longrightarrow> digit_char d \<in> set hex_digits"
proof -
  assume "d < 16"
  moreover have "list_all (\<lambda>d. digit_char d \<in> set hex_digits) [0..<16]" by code_simp
  ultimately show ?thesis by (simp add: list_all_iff)
qed

lemma padded_hex: "set (zero_pad n (show_radix 16 i)) \<subseteq> set hex_digits"
proof -
  have "CHR ''0'' \<in> set hex_digits" by (simp add: hex_digits_def)
  moreover have "set (show_radix 16 i) \<subseteq> set hex_digits" using digits_of_less[of 16 _ i] by (auto simp: show_radix_def digit_char_hex)
  ultimately show ?thesis by (auto simp: zero_pad_def)
qed

lemma alpha_ok: "\<forall>c \<in> set (map hex_to_alpha (zero_pad n (show_radix 16 i))). \<not> is_continuation c \<and> c \<noteq> CHR ''_'' \<and> graphic c \<and> c \<noteq> char_of (10 :: nat)"
proof -
  have "\<forall>c \<in> set hex_digits. \<not> is_continuation (hex_to_alpha c) \<and> hex_to_alpha c \<noteq> CHR ''_'' \<and> graphic (hex_to_alpha c) \<and> hex_to_alpha c \<noteq> char_of (10 :: nat)"
    using hex_digit_facts by blast
  then show ?thesis using padded_hex[of n i] by auto
qed

lemma alpha_read:
  assumes "uint_idx_to_alpha_idx idx n = Ok s" "idx < 2 ^ 64"
  shows "alpha_idx_to_uint_idx s = Some idx"
proof -
  let ?h = "zero_pad (length (digits_of 16 n)) (show_radix 16 idx)"
  have s: "s = map hex_to_alpha ?h" using assms(1) by (simp add: uint_idx_to_alpha_idx_def split: if_splits)
  have "utf8_chars s = map (\<lambda>c. [c]) s" using alpha_ok by (intro utf8_chars_plain) (auto simp: s)
  then have "map (\<lambda>u. case u of [c] \<Rightarrow> alpha_to_hex c | _ \<Rightarrow> CHR ''?'') (utf8_chars s) = map (\<lambda>c. alpha_to_hex (hex_to_alpha c)) ?h" by (simp add: s)
  also have "\<dots> = ?h" using padded_hex[of "length (digits_of 16 n)" idx] hex_digit_facts by (intro map_idI) blast
  finally have read: "map (\<lambda>u. case u of [c] \<Rightarrow> alpha_to_hex c | _ \<Rightarrow> CHR ''?'') (utf8_chars s) = ?h" .
  obtain c cs where c: "?h = c # cs" by (cases ?h) (use zero_pad_nonempty[OF show_radix_nonempty(1)] in blast)
  then have "c \<noteq> CHR ''+''" using padded_hex[of "length (digits_of 16 n)" idx] hex_digit_facts[of c] by auto
  then have "parse_unsigned 64 16 ?h = Some idx"
    using assms(2) parse_show_radix[of 16 "length (digits_of 16 n)" idx] by (simp add: parse_unsigned_def c)
  then show ?thesis by (simp add: alpha_idx_to_uint_idx_def read)
qed

subsection \<open>Running a command\<close>

lemma run_command_line:
  assumes "ascii_words api" "list_all ascii_word_char w" "w \<noteq> []" "starts_char rest"
  shows "(run_command api (cx :: 's command_context) (w @ '' '' @ rest) :: (parse_error, ('v, 's, 't) command_message) outcome) = (case map_of (command_table cx) w of
      Some (Continue c) \<Rightarrow> parse_command api c (concat (takeWhile (\<lambda>x. \<not> is_newline x) (utf8_chars rest))) | Some ParserPanic \<Rightarrow> Panic | _ \<Rightarrow> Err (InvalidParameter w))"
proof (cases "map_of (command_table cx :: ('v, 's, 't) command_entry list) w")
  case None
  then show ?thesis using split_word_line[OF assms] assms(3) by (simp add: run_command_def get_parser_def)
next
  case (Some r)
  then show ?thesis using split_word_line[OF assms] assms(3) by (cases r) (simp_all add: run_command_def get_parser_def)
qed

lemma run_command_word:
  assumes "ascii_words api" "list_all ascii_word_char w" "w \<noteq> []" "starts_char rest" "char_of (10 :: nat) \<notin> set rest"
  shows "(run_command api (cx :: 's command_context) (w @ '' '' @ rest) :: (parse_error, ('v, 's, 't) command_message) outcome) = (case map_of (command_table cx) w of
      Some (Continue c) \<Rightarrow> parse_command api c rest | Some ParserPanic \<Rightarrow> Panic | _ \<Rightarrow> Err (InvalidParameter w))"
  unfolding run_command_line[OF assms(1-4)] no_newline_chars[OF assms(5)] concat_utf8_chars ..

lemmas table_defs = command_table_def file_commands_def view_commands_def toolbar_commands_def scope_commands_def item_commands_def
  row_commands_def frame_buffer_commands_def group_commands_def time_commands_def Let_def

lemma entry_item_focus: "map_of (command_table cx) ''item_focus''
    = Some (single_word (cx_displayed cx) (row_param (\<lambda>idx. CanvasMsg (Selection (FocusItem idx)))))"
  by (simp add: table_defs)

lemma entry_frame_buffer_set_range: "map_of (command_table cx) ''frame_buffer_set_range'' = Some (single_word [] frame_buffer_range_command)"
  by (simp add: table_defs)

lemma entry_cursor_set: "map_of (command_table cx) ''cursor_set'' = Some (single_word [] (\<lambda>s. bind_parsed (time_param cx s)
    (\<lambda>t. leaf (Batch [CanvasMsg (Selection (CursorSet t)), ViewMsg GoToCursorIfNotInView]))))"
  by (simp add: table_defs)

lemma entry_marker_set: "map_of (command_table cx) ''marker_set'' = Some (Continue (NonTerminal (CustomGreed separate_at_space) []
    (\<lambda>name _. word_param [] (\<lambda>time_str. bind_parsed (of_option (cx_parse_bigint cx time_str)) (\<lambda>t. leaf (CanvasMsg (Markers (ResolveMarkerSet name t))))))))"
  by (simp add: table_defs)

subsection \<open>Suggested rows\<close>

lemma trim_start_graphic: "s \<noteq> [] \<Longrightarrow> graphic (hd s) \<Longrightarrow> trim_start s = s"
proof -
  assume s: "s \<noteq> []" "graphic (hd s)"
  then obtain c r where c: "s = c # r" "graphic c" by (cases s) auto
  then have "ws_len (map of_char s) = 0"
    by (cases "map of_char s :: nat list" rule: ws_len.cases) (auto simp: graphic_def ws1_def ws2_def ws3_def Let_def)
  then show ?thesis by (rule trim_start_id)
qed

lemma row_command:
  fixes cx :: "'s command_context"
  assumes "ascii_words api" "uint_idx_to_alpha_idx idx n = (Ok alpha :: (string, string) outcome)" "idx < 2 ^ 64" "starts_char name"
  shows "(run_command api cx (''item_focus '' @ alpha @ ''_'' @ name) :: (parse_error, ('v, 's, 't) command_message) outcome)
    = Ok (CanvasMsg (Selection (FocusItem idx)))"
proof -
  have alpha: "alpha = map hex_to_alpha (zero_pad (length (digits_of 16 n)) (show_radix 16 idx))"
    using assms(2) by (simp add: uint_idx_to_alpha_idx_def split: if_splits)
  note chars = alpha_ok[of "length (digits_of 16 n)" idx, folded alpha]
  have ne: "alpha \<noteq> []" by (simp add: alpha)
  define line where "line = concat (takeWhile (\<lambda>x. \<not> is_newline x) (utf8_chars (alpha @ ''_'' @ name)))"
  have "utf8_chars (alpha @ ''_'' @ name) = map (\<lambda>c. [c]) alpha @ ''_'' # utf8_chars name"
  proof -
    have "utf8_chars (alpha @ ''_'' @ name) = utf8_chars alpha @ utf8_chars (''_'' @ name)"
      by (rule utf8_chars_append) (simp add: is_continuation_def)
    moreover have "utf8_chars (''_'' @ name) = utf8_chars ''_'' @ utf8_chars name" by (rule utf8_chars_append[OF assms(4)])
    moreover have "utf8_chars alpha = map (\<lambda>c. [c]) alpha" by (rule utf8_chars_plain) (use chars in blast)
    ultimately show ?thesis by simp
  qed
  moreover have "takeWhile (\<lambda>x. \<not> is_newline x) (map (\<lambda>c. [c]) alpha @ ''_'' # us)
      = map (\<lambda>c. [c]) alpha @ ''_'' # takeWhile (\<lambda>x. \<not> is_newline x) us" for us
  proof -
    have "\<not> is_newline x" if "x \<in> set (map (\<lambda>c. [c]) alpha)" for x
    proof -
      from that obtain c where "c \<in> set alpha" "x = [c]" by (auto simp del: set_map simp: image_iff set_map[of _ alpha])
      then show ?thesis using chars by (simp add: is_newline_def)
    qed
    then have "takeWhile (\<lambda>x. \<not> is_newline x) (map (\<lambda>c. [c]) alpha @ ''_'' # us)
        = map (\<lambda>c. [c]) alpha @ takeWhile (\<lambda>x. \<not> is_newline x) (''_'' # us)" by (rule takeWhile_append2)
    then show ?thesis by (simp add: is_newline_def)
  qed
  ultimately obtain tail where line: "line = alpha @ ''_'' @ tail" by (simp add: line_def)
  have "graphic (hd line)" using ne chars by (cases alpha) (simp_all add: line)
  then have trim: "trim_start line = line" by (intro trim_start_graphic) (simp_all add: line)
  have take: "takeWhile (\<lambda>c. c \<noteq> CHR ''_'') line = alpha" using chars by (simp add: line takeWhile_append2)
  have sc: "starts_char (alpha @ ''_'' @ name)" using ne chars by (cases alpha) simp_all
  have word: "list_all ascii_word_char ''item_focus''" by (simp add: ascii_word_char_def)
  have ne_line: "line \<noteq> []" using ne by (simp add: line)
  have parsed: "parse_command api (NonTerminal RestGreed ss (\<lambda>query _. row_param f query)) line = Ok (f idx)" for ss and f :: "nat \<Rightarrow> ('v, 's, 't) command_message"
    unfolding parse_rest trim row_param_def take alpha_read[OF assms(2,3)] by (simp add: ne_line)
  have "(run_command api cx (''item_focus'' @ '' '' @ alpha @ ''_'' @ name) :: (parse_error, ('v, 's, 't) command_message) outcome)
      = Ok (CanvasMsg (Selection (FocusItem idx)))"
    unfolding run_command_line[OF assms(1) word list.distinct(2) sc] entry_item_focus line_def[symmetric] single_word_def option.case parsed.case parsed ..
  then show ?thesis by simp
qed

lemma collect_nth: "collect_outcomes rs = Ok xs \<Longrightarrow> length xs = length rs \<and> (\<forall>i < length rs. rs ! i = Ok (xs ! i))"
proof (induction rs arbitrary: xs)
  case (Cons r rs)
  then obtain y ys where y: "r = Ok y" "collect_outcomes rs = Ok ys" "xs = y # ys" by (auto simp: and_then_Ok)
  with Cons.IH[OF y(2)] show ?case by (auto simp: less_Suc_eq_0_disj)
qed simp

text \<open>C32. A suggested row is the row that is focused. Every row that is suggested for the command \<open>item_focus\<close>, written after the
  command, focuses exactly the visible row it stands for: its id is read back, whatever follows it in the name of the row.\<close>

theorem suggested_row_is_focused:
  fixes cx :: "'s command_context"
  assumes "ascii_words api" and "displayed_suggestions w = Ok ss" and "i < length ss" and "i < 2 ^ 64"
    and "\<And>item. item \<in> ran (displayed_items w) \<Longrightarrow> starts_char (suggested_name item)"
  shows "(run_command api cx (''item_focus '' @ ss ! i) :: (parse_error, ('v, 's, 't) command_message) outcome)
      = Ok (CanvasMsg (Selection (FocusItem i)))
    \<and> (\<exists>node. get_visible (items_tree w) i = Some node \<and> displayed_items w (item_ref node) \<noteq> None)"
proof -
  let ?n = "length (filter (\<lambda>r. displayed_items w r \<noteq> None) [0..<display_item_ref_counter w + 1])"
  let ?rows = "List.enumerate 0 (iter_visible (items_tree w))"
  have ss: "length ss = length ?rows" "\<forall>j < length ?rows. suggested_row w (?rows ! j) = Ok (ss ! j)"
    using collect_nth[of "map (suggested_row w) ?rows" ss] assms(2) by (simp_all add: displayed_suggestions_def)
  then have i: "i < length (iter_visible (items_tree w))" using assms(3) by simp
  then have "suggested_row w (i, iter_visible (items_tree w) ! i) = Ok (ss ! i)" using ss(2) by (simp add: nth_enumerate_eq)
  then obtain item alpha where item: "displayed_items w (item_ref (iter_visible (items_tree w) ! i)) = Some item"
    and alpha: "uint_idx_to_alpha_idx i ?n = (Ok alpha :: (string, string) outcome)" "ss ! i = alpha @ ''_'' @ suggested_name item"
    by (auto simp: suggested_row_def and_then_Ok split: option.splits)
  have "starts_char (suggested_name item)" using assms(5) item by (auto simp: ran_def)
  from row_command[OF assms(1) alpha(1) assms(4) this] alpha(2) item i show ?thesis by (simp add: get_visible_def)
qed

subsection \<open>Ranges of the frame buffer\<close>

lemma pairs_of_flat: "pairs_of (concat (map (\<lambda>(a, b). [a, b]) ps)) = ps"
  by (induction ps) auto

lemma even_flat: "even (length (concat (map (\<lambda>(a, b). [a, b]) ps)))"
  by (induction ps) auto

lemma all_parsed_map: "(\<And>x. x \<in> set xs \<Longrightarrow> p (f x) = Some x) \<Longrightarrow> all_parsed p (map f xs) = Some xs"
  by (induction xs) auto

lemma digit_char_graphic: "d < 10 \<Longrightarrow> graphic (digit_char d)"
  by (auto simp: digit_char_def graphic_def Let_def)

lemma show_int_graphic: "show_int i \<noteq> [] \<and> list_all graphic (show_int i)"
  using digits_of_less[of 10] by (auto simp: show_int_def show_radix_def list_all_iff digit_char_graphic graphic_def[of "CHR ''-''"])

text \<open>Ranges of the frame buffer are read back. Any ranges of \<^verbatim>\<open>i64\<close> numbers, written one after the other with their signs,
  are what the command \<open>frame_buffer_set_range\<close> sets.\<close>

theorem range_command_roundtrip:
  fixes cx :: "'s command_context" and ranges :: "(int \<times> int) list"
  assumes "ascii_words api" and "ranges \<noteq> []"
    and "\<And>a b. (a, b) \<in> set ranges \<Longrightarrow> - (2 ^ 63) \<le> a \<and> a < 2 ^ 63 \<and> - (2 ^ 63) \<le> b \<and> b < 2 ^ 63"
  shows "(run_command api cx (''frame_buffer_set_range '' @ join '' '' (map show_int (concat (map (\<lambda>(a, b). [a, b]) ranges))))
      :: (parse_error, ('v, 's, 't) command_message) outcome) = Ok (FrameBufferMsg (SetFrameBufferRange ranges))"
proof -
  define vals where "vals = concat (map (\<lambda>(a, b). [a, b]) ranges)"
  define line where "line = join '' '' (map show_int vals)"
  have words: "list_all (\<lambda>w. w \<noteq> [] \<and> list_all graphic w) (map show_int vals)" by (simp add: list_all_iff show_int_graphic[unfolded list_all_iff])
  have ne: "vals \<noteq> []" using assms(2) by (cases ranges) (auto simp: vals_def)
  have chars: "\<forall>c \<in> set (join '' '' us). graphic c \<or> c = CHR '' ''" if "list_all (\<lambda>w. w \<noteq> [] \<and> list_all graphic w) us" for us
    using that by (induction us rule: induct_list012) (auto simp: list_all_iff)
  have head: "us \<noteq> [] \<Longrightarrow> list_all (\<lambda>w. w \<noteq> [] \<and> list_all graphic w) us \<Longrightarrow> join '' '' us \<noteq> [] \<and> graphic (hd (join '' '' us))" for us
    by (induction us rule: induct_list012) (auto simp: list_all_iff hd_append)
  have line: "line \<noteq> []" "graphic (hd line)" "\<forall>c \<in> set line. graphic c \<or> c = CHR '' ''"
    using head[OF _ words] chars[OF words] ne by (auto simp: line_def)
  have sc: "starts_char line" using line(1,2) by (cases line) (auto dest: graphic_plain)
  have nl: "char_of (10 :: nat) \<notin> set line" using line(3) by (auto simp: graphic_def Let_def)
  have "all_parsed parse_i64 (map show_int vals) = Some vals"
  proof (rule all_parsed_map)
    fix x assume "x \<in> set vals"
    then have "- (2 ^ 63) \<le> x \<and> x < 2 ^ 63" using assms(3) by (auto simp: vals_def)
    then show "parse_i64 (show_int x) = Some x" using parse_show_int by blast
  qed
  then have "frame_buffer_range_command line = (leaf (FrameBufferMsg (SetFrameBufferRange ranges)) :: ('v, 's, 't) command_message command parsed)"
    using ne even_flat[of ranges, folded vals_def] pairs_of_flat[of ranges, folded vals_def] split_join_words[OF words, folded line_def]
    by (simp add: frame_buffer_range_command_def)
  then have parsed: "parse_command api (NonTerminal RestGreed [] (\<lambda>query _. frame_buffer_range_command query)) line
      = Ok (FrameBufferMsg (SetFrameBufferRange ranges) :: ('v, 's, 't) command_message)"
    unfolding parse_rest trim_start_graphic[OF line(1,2)] using line(1) by (simp add: leaf_def)
  have word: "list_all ascii_word_char ''frame_buffer_set_range''" by (simp add: ascii_word_char_def)
  have "(run_command api cx (''frame_buffer_set_range'' @ '' '' @ line) :: (parse_error, ('v, 's, 't) command_message) outcome)
      = Ok (FrameBufferMsg (SetFrameBufferRange ranges))"
    unfolding run_command_word[OF assms(1) word list.distinct(2) sc nl] entry_frame_buffer_set_range single_word_def option.case parsed.case parsed ..
  then show ?thesis by (simp add: line_def vals_def)
qed

subsection \<open>Suggested commands\<close>

text \<open>All words of the table.\<close>

definition command_words :: "string list" where
  "command_words = [
     ''load_file'', ''create_default_config'', ''switch_file'', ''load_url'', ''run_command_file'',
     ''run_command_file_from_url'', ''config_reload'', ''theme_select'', ''scroll_to_start'', ''goto_start'',
     ''scroll_to_end'', ''goto_end'', ''zoom_in'', ''zoom_out'', ''zoom_fit'', ''zoom_to'', ''toggle_menu'',
     ''toggle_side_panel'', ''toggle_fullscreen'', ''toggle_tick_lines'', ''toolbar_set_visible'', ''toolbar_set_row'',
     ''scope_add'', ''module_add'', ''stream_add'', ''scope_add_recursive'', ''scope_add_as_group'',
     ''scope_add_as_group_recursive'', ''scope_select'', ''stream_select'', ''scope_select_root'', ''stream_select_root'',
     ''reload'', ''remove_unavailable'', ''surver_select_file'', ''surver_switch_file'', ''variable_add'',
     ''generator_add'', ''variable_add_from_scope'', ''generator_add_from_stream'', ''item_set_color'',
     ''item_set_background_color'', ''item_set_format'', ''item_set_height'', ''item_set_analog'', ''item_unset_color'',
     ''item_unset_background_color'', ''item_rename'', ''variable_set_name_type'', ''variable_force_name_type'',
     ''item_focus'', ''transition_next'', ''transition_previous'', ''transaction_next'', ''transaction_prev'',
     ''copy_value'', ''preference_set_clock_highlight'', ''preference_set_hierarchy_style'',
     ''preference_set_arrow_key_bindings'', ''item_unfocus'', ''divider_add'', ''timeline_add'', ''goto_cursor'',
     ''goto_marker'', ''frame_buffer_set_array'', ''frame_buffer_set_variable'', ''frame_buffer_set_mode'',
     ''frame_buffer_set_width'', ''frame_buffer_set_range'', ''memory_viewer_open'', ''dump_tree'', ''group_marked'',
     ''decoder_add'', ''group_dissolve'', ''group_fold_recursive'', ''group_unfold_recursive'', ''group_fold_all'',
     ''group_unfold_all'', ''show_controls'', ''show_mouse_gestures'', ''show_quick_start'', ''show_performance'',
     ''cursor_set'', ''goto_time'', ''marker_set'', ''marker_set_at'', ''marker_remove'', ''show_marker_window'',
     ''show_logs'', ''save_state'', ''save_state_as'', ''load_state'', ''viewport_add'', ''viewport_remove'',
     ''viewport_set_active'', ''pause_simulation'', ''unpause_simulation'', ''undo'', ''redo'', ''wcp_server_start'',
     ''wcp_server_stop'', ''exit'']"

lemma table_words:
  fixes cx :: "'s command_context"
  shows "map fst (command_table cx :: ('v, 's, 't) command_entry list) = command_words"
  by (simp add: table_defs command_words_def)

lemma distinct_words: "distinct command_words"
  by code_simp

lemma words_of_indices:
  assumes "list_all (\<lambda>i. i < length command_words) is" "ws = map ((!) command_words) is"
  shows "set ws \<subseteq> set command_words"
  using assms by (auto simp: list_all_iff)

lemma names_in_table: "set (command_names cx) \<subseteq> set command_words"
proof -
  have "set (commands_with_waves True) \<subseteq> set command_words"
    by (rule words_of_indices[of "[0, 3, 91, 4, 5, 2, 36, 37, 50, 40, 41, 42, 43, 44, 45, 46, 59, 47, 14, 22, 1, 25, 26, 27, 28, 30, 24, 29, 31,
       60, 6, 7, 32, 33, 78, 79, 80, 88, 81, 8, 10, 9, 11, 12, 13, 15, 16, 17, 18, 19, 20, 21, 38, 39, 48, 49, 56,
       57, 58, 62, 63, 70, 72, 71, 73, 74, 75, 76, 77, 89, 90, 61, 82, 83, 84, 85, 86, 87, 92, 93, 94, 51, 52, 53,
       54, 55, 64, 65, 66, 67, 68, 69, 95, 96, 97, 98, 100, 101]"]; code_simp)
  moreover
  have "set (commands_with_waves False) \<subseteq> set command_words"
    by (rule words_of_indices[of "[0, 3, 91, 4, 5, 2, 36, 37, 50, 40, 41, 42, 43, 44, 45, 46, 59, 47, 14, 22, 1, 25, 26, 27, 28, 30, 24, 29, 31,
       60, 6, 7, 32, 33, 78, 79, 80, 88, 81, 8, 10, 9, 11, 12, 13, 15, 16, 17, 18, 19, 20, 21, 38, 39, 48, 49, 56,
       57, 58, 62, 63, 70, 72, 71, 73, 74, 75, 76, 77, 89, 90, 61, 82, 83, 84, 85, 86, 87, 92, 93, 94, 51, 52, 53,
       54, 55, 64, 65, 66, 67, 68, 69, 95, 96, 97, 98, 99, 101]"]; code_simp)
  moreover
  have "set (commands_without_waves True) \<subseteq> set command_words"
    by (rule words_of_indices[of "[0, 3, 91, 4, 5, 6, 7, 16, 17, 18, 20, 21, 56, 57, 58, 78, 79, 80, 88, 1, 81, 100, 101]"]; code_simp)
  moreover
  have "set (commands_without_waves False) \<subseteq> set command_words"
    by (rule words_of_indices[of "[0, 3, 91, 4, 5, 6, 7, 16, 17, 18, 20, 21, 56, 57, 58, 78, 79, 80, 88, 1, 81, 99, 101]"]; code_simp)
  moreover
  have "set [''surver_select_file'', ''surver_switch_file''] \<subseteq> set command_words"
    by (rule words_of_indices[of "[34, 35]"]; code_simp)
  ultimately show ?thesis unfolding command_names_def 
    by (cases "cx_wcp_running cx"; cases "cx_has_waves cx"; cases "cx_surver_files cx = []")
      (simp_all only: set_append if_True if_False Un_subset_iff simp_thms list.set(1) empty_subsetI)
qed

fun accepted :: "'a parsed \<Rightarrow> bool" where
  "accepted (Continue c) = True"
| "accepted Reject = False"
| "accepted ParserPanic = False"

lemma accepted_simps [simp]: "accepted (leaf m)" "accepted (single_word ss f)" "accepted (optional_single_word ss f)" "accepted (word_param ss f)"
  by (simp_all add: leaf_def single_word_def optional_single_word_def word_param_def)

fun entry_accepted :: "'s command_context \<Rightarrow> ('v, 's, 't) command_entry \<Rightarrow> bool" where
  "entry_accepted cx (name, r) = (accepted r = (\<not> (cx_is_transactions cx \<and> (name = ''scope_add_as_group'' \<or> name = ''scope_add_as_group_recursive''))))"

lemma groups_accepted:
  "list_all (entry_accepted cx) (file_commands cx)" "list_all (entry_accepted cx) (view_commands cx)"
  "list_all (entry_accepted cx) (toolbar_commands cx)" "list_all (entry_accepted cx) (scope_commands cx)"
  "list_all (entry_accepted cx) (item_commands cx)" "list_all (entry_accepted cx) (row_commands cx)"
  "list_all (entry_accepted cx) (frame_buffer_commands cx)" "list_all (entry_accepted cx) group_commands"
  "list_all (entry_accepted cx) (time_commands cx)"
  by (simp_all add: file_commands_def view_commands_def toolbar_commands_def scope_commands_def item_commands_def row_commands_def
      frame_buffer_commands_def group_commands_def time_commands_def add_variable_command_def add_from_scope_command_def
      add_scope_command_def add_scope_as_group_command_def select_scope_command_def Let_def)

lemma table_accepted: "list_all (entry_accepted cx) (command_table cx)"
  unfolding command_table_def list_all_append using groups_accepted by (intro conjI)

text \<open>C34. Every suggested command is a command. The table has an entry for every word that is suggested, with a file loaded or
  without, and the entry takes the word, except that the two commands that add a scope as a group are suggested and
  rejected when transactions are loaded.\<close>

theorem listed_commands_known:
  fixes cx :: "'s command_context"
  shows "list_all (\<lambda>name. case map_of (command_table cx :: ('v, 's, 't) command_entry list) name of None \<Rightarrow> False
     | Some r \<Rightarrow> accepted r = (\<not> (cx_is_transactions cx \<and> (name = ''scope_add_as_group'' \<or> name = ''scope_add_as_group_recursive''))))
     (command_names cx)"
  unfolding list_all_iff
proof
  let ?table = "command_table cx :: ('v, 's, 't) command_entry list"
  fix name assume "name \<in> set (command_names cx)"
  moreover have "map fst ?table = command_words" by (rule table_words)
  ultimately have "name \<in> fst ` set ?table" using names_in_table[of cx] by (metis list.set_map subsetD)
  then obtain r where r: "map_of ?table name = Some r" by (metis map_of_eq_None_iff not_Some_eq)
  have "entry_accepted cx (name, r)" using table_accepted[of cx] map_of_SomeD[OF r] by (metis list_all_iff)
  then show "case map_of ?table name of None \<Rightarrow> False
     | Some r \<Rightarrow> accepted r = (\<not> (cx_is_transactions cx \<and> (name = ''scope_add_as_group'' \<or> name = ''scope_add_as_group_recursive'')))"
    by (simp only: r option.case entry_accepted.simps)
qed

subsection \<open>Markers lose their sign\<close>

lemma split_at_space:
  assumes "list_all graphic w" "w \<noteq> []" "starts_char rest" "char_of (10 :: nat) \<notin> set rest"
  shows "separate_at_space (w @ '' '' @ rest) = ([], w, '' '', rest)"
proof -
  have sp: "is_space '' ''" by (simp add: is_space_def ws1_def)
  have plain: "utf8_chars w = map (\<lambda>c. [c]) w" using assms(1) by (intro utf8_chars_plain) (auto simp: list_all_iff graphic_plain)
  have chars: "utf8_chars (w @ '' '' @ rest) = map (\<lambda>c. [c]) w @ '' '' # utf8_chars rest"
  proof -
    have "utf8_chars (w @ '' '' @ rest) = utf8_chars w @ utf8_chars ('' '' @ rest)" by (intro utf8_chars_append) (simp add: is_continuation_def)
    moreover have "utf8_chars ('' '' @ rest) = utf8_chars '' '' @ utf8_chars rest" by (rule utf8_chars_append[OF assms(3)])
    ultimately show ?thesis by (simp add: plain)
  qed
  have words: "list_all (\<lambda>x. \<not> is_space x \<and> \<not> is_space x) (map (\<lambda>c. [c]) w)" using assms(1) by (auto simp: list_all_iff graphic_not_space)
  have ne: "map (\<lambda>c. [c]) w \<noteq> []" using assms(2) by simp
  have "dropWhile is_space (map (\<lambda>c. [c]) w @ '' '' # utf8_chars rest) = map (\<lambda>c. [c]) w @ '' '' # utf8_chars rest"
    "takeWhile is_space (map (\<lambda>c. [c]) w @ '' '' # utf8_chars rest) = []"
    "dropWhile (\<lambda>x. \<not> is_space x) (map (\<lambda>c. [c]) w @ '' '' # utf8_chars rest) = '' '' # utf8_chars rest"
    "takeWhile (\<lambda>x. \<not> is_space x) (map (\<lambda>c. [c]) w @ '' '' # utf8_chars rest) = map (\<lambda>c. [c]) w"
    using match_pieces_of[where lead = "[]" and a = is_space and b = "\<lambda>x. \<not> is_space x" and c = is_space and u = "'' ''", OF _ words ne] sp
    by simp_all
  moreover have "concat (map (\<lambda>c. [c]) w) = w" by (metis concat_utf8_chars plain)
  ultimately show ?thesis using sp chars
    by (simp add: separate_at_space_def match_pieces_def Let_def no_newline_chars[OF assms(4)] del: dropWhile_append3 takeWhile_append)
qed

text \<open>A negative time loses its sign. The time of the command \<open>marker_set\<close> is a word, and what is not a word in front of it
  is dropped, so a marker at a negative time is set at the positive one.\<close>

theorem marker_set_drops_sign:
  fixes cx :: "'s command_context"
  assumes "ascii_words api" and "list_all graphic name" and "name \<noteq> []" and "cx_parse_bigint cx (show_nat n) = Some (int n)"
  shows "(run_command api cx (''marker_set '' @ name @ '' -'' @ show_nat n) :: (parse_error, ('v, 's, 't) command_message) outcome)
    = Ok (CanvasMsg (Markers (ResolveMarkerSet name (int n))))"
proof -
  have "list_all (\<lambda>d. ascii_word_char (digit_char d)) [0..<10]" by code_simp
  then have digits: "list_all ascii_word_char (show_nat n)"
    using digits_of_less[of 10 _ n] by (auto simp: show_radix_def list_all_iff)
  have g: "list_all graphic (show_nat n)" using digits_of_less[of 10 _ n] by (auto simp: show_radix_def list_all_iff digit_char_graphic)
  then have plain: "starts_char (show_nat n)" "\<forall>c \<in> set (show_nat n). graphic c"
    by (cases "show_nat n"; auto simp: list_all_iff dest: graphic_plain)+
  let ?time = "''-'' @ show_nat n"
  have nl: "char_of (10 :: nat) \<notin> set ?time" "char_of (10 :: nat) \<notin> set (name @ '' '' @ ?time)"
    using plain(2) assms(2) by (auto simp: list_all_iff graphic_def Let_def)
  have sc: "starts_char ?time" "starts_char (name @ '' '' @ ?time)"
    using assms(2,3) by (cases name; auto simp: is_continuation_def[of "CHR ''-''"] dest: graphic_plain)+
  have time: "parse_command api (NonTerminal WordGreed ss (\<lambda>query _. bind_parsed (of_option (cx_parse_bigint cx query)) (\<lambda>t. leaf (f t)))) ?time = Ok (f (int n))"
    for ss and f :: "int \<Rightarrow> ('v, 's, 't) command_message"
  proof -
    have front: "list_all (\<lambda>u. \<not> is_word_char api u) (utf8_chars ''-'')"
      using assms(1) by (auto simp: ascii_words_def ascii_word_char_def Let_def)
    show ?thesis unfolding parse_drops_front[OF front plain(1)]
      using split_last_word[OF assms(1) digits] assms(4) by (simp add: leaf_def)
  qed
  have "separate_at_space (name @ '' '' @ ?time) = ([], name, '' '', ?time)" by (rule split_at_space[OF assms(2,3) sc(1) nl(1)])
  then have "parse_command api (NonTerminal (CustomGreed separate_at_space) ss (\<lambda>name _. word_param [] (\<lambda>query.
      bind_parsed (of_option (cx_parse_bigint cx query)) (\<lambda>t. leaf (f name t))))) (name @ '' '' @ ?time) = Ok (f name (int n))"
    for ss and f :: "string \<Rightarrow> int \<Rightarrow> ('v, 's, 't) command_message"
    using assms(3) time[of "[]" "f name"] by (simp add: split_query_def word_param_def del: parse_command.simps(2)) (simp add: split_query_def)
  note parsed = this[of "[]" "\<lambda>name t. CanvasMsg (Markers (ResolveMarkerSet name t))"]
  have word: "list_all ascii_word_char ''marker_set''" by (simp add: ascii_word_char_def)
  have "(run_command api cx (''marker_set'' @ '' '' @ name @ '' '' @ ?time) :: (parse_error, ('v, 's, 't) command_message) outcome)
      = Ok (CanvasMsg (Markers (ResolveMarkerSet name (int n))))"
    unfolding run_command_word[OF assms(1) word list.distinct(2) sc(2) nl(2)] entry_marker_set option.case parsed.case parsed ..
  then show ?thesis by simp
qed

subsection \<open>Setting the cursor\<close>

lemma show_unit_plain: "list_all (\<lambda>c. c \<noteq> char_of (10 :: nat)) (show_unit u)"
proof -
  have "list_all (\<lambda>u. list_all (\<lambda>c. c \<noteq> char_of (10 :: nat)) (show_unit u))
    [ZeptoSeconds, AttoSeconds, FemtoSeconds, PicoSeconds, NanoSeconds, MicroSeconds, MilliSeconds, Seconds, NoUnit, Auto]"
    by code_simp
  then show ?thesis by (cases u) (simp_all only: list.pred_inject simp_thms)
qed

text \<open>C33. A time that is shown can be entered. The text in which \<open>n\<close> ticks are shown, in a wanted unit or with the automatic one,
  is a parameter with which the command \<open>cursor_set\<close> sets the cursor to \<open>n\<close> ticks and goes there.\<close>

theorem cursor_set_reads_shown_time:
  fixes cx :: "'s command_context"
  assumes "ascii_words api" and "cx_timescale cx = Some ts" and "standard_scale ts d" and "wanted \<noteq> NoUnit" and "n * 10 ^ d < 2 ^ 52"
    and "\<And>m p. m < 2 ^ 52 \<Longrightarrow> p \<le> 21 \<Longrightarrow> show_fixed (of_nat m / 10 ^ p) p = decimal_text m p"
  shows "\<exists>s. (time_string show_fixed lf (int n) ts wanted \<lparr>tf_format = PlainFormat, tf_show_space = sp, tf_show_unit = True\<rparr>
      :: (string, string) outcome) = Ok s
    \<and> (run_command api cx (''cursor_set '' @ s) :: (parse_error, ('v, 's, 't) command_message) outcome)
      = Ok (Batch [CanvasMsg (Selection (CursorSet (int n))), ViewMsg GoToCursorIfNotInView])"
proof -
  obtain ip fr u where r: "digits_ok ip" "ip \<noteq> []" "digits_ok fr"
    and shown: "(time_string show_fixed lf (int n) ts wanted \<lparr>tf_format = PlainFormat, tf_show_space = sp, tf_show_unit = True\<rparr>
         :: (string, string) outcome) = Ok (number_text ip fr @ (if sp then '' '' else '''') @ show_unit u)"
    and read: "parse_time_string_to_ticks (number_text ip fr @ (if sp then '' '' else '''') @ show_unit u) ts = Ok (Some (int n))"
    using shown_time[OF assms(3-6), of lf sp] by blast
  define s where "s = number_text ip fr @ (if sp then '' '' else '''') @ show_unit u"
  have g: "\<forall>c \<in> set (number_text ip fr). graphic c"
    using dec_graphic[OF r(1)] dec_graphic[OF r(3)] by (auto simp: number_text_def graphic_def)
  moreover have "number_text ip fr \<noteq> []" using r(2) by (simp add: number_text_def)
  ultimately have s: "s \<noteq> []" "graphic (hd s)" by (auto simp: s_def)
  have "\<forall>c \<in> set (number_text ip fr). c \<noteq> char_of (10 :: nat)" using g by (auto simp: graphic_def Let_def)
  then have nl: "char_of (10 :: nat) \<notin> set s" using show_unit_plain[of u] by (auto simp: s_def list_all_iff)
  have sc: "starts_char s" using s by (cases s) (auto dest: graphic_plain)
  have "parse_command api (NonTerminal RestGreed [] (\<lambda>query _. bind_parsed (time_param cx query)
      (\<lambda>t. leaf (Batch [CanvasMsg (Selection (CursorSet t)), ViewMsg GoToCursorIfNotInView])))) s
    = Ok (Batch [CanvasMsg (Selection (CursorSet (int n))), ViewMsg GoToCursorIfNotInView] :: ('v, 's, 't) command_message)"
    unfolding parse_rest trim_start_graphic[OF s] using s(1) read[folded s_def] by (simp add: leaf_def time_param_def assms(2))
  note parsed = this
  have word: "list_all ascii_word_char ''cursor_set''" by (simp add: ascii_word_char_def)
  have "(run_command api cx (''cursor_set'' @ '' '' @ s) :: (parse_error, ('v, 's, 't) command_message) outcome)
      = Ok (Batch [CanvasMsg (Selection (CursorSet (int n))), ViewMsg GoToCursorIfNotInView])"
    unfolding run_command_word[OF assms(1) word list.distinct(2) sc nl] entry_cursor_set single_word_def option.case parsed.case parsed ..
  then show ?thesis using shown by (intro exI[of _ s]) (simp add: s_def)
qed

subsection \<open>Examples\<close>

theorem cursor_set_reads_shown_time_witness:
  "\<forall>cx :: unit command_context. \<exists>s. (time_string exact_fixed \<lparr>lf_grouping = [3], lf_thousands_sep = '','', lf_decimal_point = ''.''\<rparr> (int 12345)
      \<lparr>tsc_unit = PicoSeconds, tsc_multiplier = Some 100\<rparr> Auto \<lparr>tf_format = PlainFormat, tf_show_space = True, tf_show_unit = True\<rparr> :: (string, string) outcome) = Ok s
    \<and> (run_command sample_text_api (cx\<lparr>cx_timescale := Some \<lparr>tsc_unit = PicoSeconds, tsc_multiplier = Some 100\<rparr>\<rparr>) (''cursor_set '' @ s)
       :: (parse_error, (unit, unit, unit) command_message) outcome)
      = Ok (Batch [CanvasMsg (Selection (CursorSet (int 12345))), ViewMsg GoToCursorIfNotInView])"
  by (intro allI, rule cursor_set_reads_shown_time[where d = 2]) (simp_all add: sample_text_api_ascii standard_scale_def real_unit_def exact_fixed_def)

theorem range_command_roundtrip_witness:
  "\<forall>cx :: unit command_context. (run_command sample_text_api cx (''frame_buffer_set_range '' @ join '' '' (map show_int (concat (map (\<lambda>(a, b). [a, b]) [(-8, 7), (0, 3)]))))
      :: (parse_error, (unit, unit, unit) command_message) outcome) = Ok (FrameBufferMsg (SetFrameBufferRange [(-8, 7), (0, 3)]))"
  by (intro allI, rule range_command_roundtrip) (auto simp: sample_text_api_ascii)

theorem marker_set_drops_sign_witness:
  "\<forall>cx :: unit command_context. (run_command sample_text_api (cx\<lparr>cx_parse_bigint := (\<lambda>s. if s = show_nat 25 then Some 25 else None)\<rparr>) (''marker_set '' @ ''A'' @ '' -'' @ show_nat 25)
      :: (parse_error, (unit, unit, unit) command_message) outcome) = Ok (CanvasMsg (Markers (ResolveMarkerSet ''A'' (int 25))))"
  by (intro allI, rule marker_set_drops_sign) (auto simp: sample_text_api_ascii graphic_def)

lemma sample_suggestions: "displayed_suggestions sample_canvas = Ok [''a_bus'', ''b_start'']"
  by code_simp

lemma sample_names: "item \<in> ran (displayed_items sample_canvas) \<Longrightarrow> starts_char (suggested_name item)"
proof -
  have "starts_char (suggested_name (new_variable LocalName InfoBits sample_ref :: (unit, unit) displayed_item))"
    "starts_char (suggested_name (new_marker (Some ''start'') 7 :: (unit, unit) displayed_item))"
    "starts_char (suggested_name (ItemGroup \<lparr>dg_name = ''bus'', dg_color = None, dg_background = None, dg_content = [], dg_is_open = False\<rparr> :: (unit, unit) displayed_item))"
    by code_simp+
  then show "item \<in> ran (displayed_items sample_canvas) \<Longrightarrow> starts_char (suggested_name item)"
    by (auto simp: sample_canvas_items ran_def split: if_splits)
qed

theorem suggested_row_is_focused_witness:
  "\<forall>cx :: unit command_context. (run_command sample_text_api cx (''item_focus '' @ [''a_bus'', ''b_start''] ! 1) :: (parse_error, (unit, unit, unit) command_message) outcome)
      = Ok (CanvasMsg (Selection (FocusItem 1)))
    \<and> (\<exists>node. get_visible (items_tree sample_canvas) 1 = Some node \<and> displayed_items sample_canvas (item_ref node) \<noteq> None)"
proof
  fix cx :: "unit command_context"
  show "(run_command sample_text_api cx (''item_focus '' @ [''a_bus'', ''b_start''] ! 1) :: (parse_error, (unit, unit, unit) command_message) outcome)
      = Ok (CanvasMsg (Selection (FocusItem 1)))
    \<and> (\<exists>node. get_visible (items_tree sample_canvas) 1 = Some node \<and> displayed_items sample_canvas (item_ref node) \<noteq> None)"
    by (rule suggested_row_is_focused[OF sample_text_api_ascii sample_suggestions]) (auto simp: sample_names)
qed


end
