(* ===== verification/Command_Prompt.thy ===== *)
theory Command_Prompt
  imports Fuzzy_Commands
begin

section \<open>The prompt and files of commands (command\_prompt.rs, batch\_commands.rs, lib.rs)\<close>

text \<open>
  The prompt is a text with suggestions. In every frame it turns the keys of the user into messages: to itself, or the
  message of the command that was entered. A file of commands fills a queue, from which a command is taken while nothing is
  being loaded.
\<close>

subsection \<open>The prompt and its messages\<close>

text \<open>\<open>pr_text\<close> and \<open>pr_char\<close> are the fields \<^verbatim>\<open>command_prompt_text\<close> and \<^verbatim>\<open>char_to_add_to_prompt\<close> of the state.\<close>

record command_prompt =
  pr_visible :: bool
  pr_suggestions :: "(string \<times> bool list) list"
  pr_selected :: nat
  pr_new_selection :: "nat option"
  pr_new_text :: "(string \<times> string) option"
  pr_previous :: "(string \<times> bool list) list"
  pr_text :: string
  pr_char :: "string option"

datatype prompt_message = HideCommandPrompt | ShowCommandPrompt string "string option" | CommandPromptClear
  | CommandPromptUpdate "(string \<times> bool list) list" | CommandPromptPushPrevious string | SelectPrevCommand | SelectNextCommand
  | AddCharToPrompt string

definition first_selection :: "command_prompt \<Rightarrow> nat" where
  "first_selection p = (if pr_text p = [] then min (length (pr_previous p)) 3 else 0)"

fun update_prompt :: "prompt_message \<Rightarrow> command_prompt \<Rightarrow> command_prompt" where
  "update_prompt HideCommandPrompt p =
     p\<lparr>pr_text := [], pr_suggestions := [], pr_selected := length (pr_previous p), pr_visible := False\<rparr>"
| "update_prompt (ShowCommandPrompt txt selected) p =
     p\<lparr>pr_new_text := Some (txt, case selected of Some s \<Rightarrow> s | None \<Rightarrow> []), pr_visible := True\<rparr>"
| "update_prompt CommandPromptClear p = (let p' = p\<lparr>pr_text := [], pr_suggestions := []\<rparr> in p'\<lparr>pr_selected := first_selection p'\<rparr>)"
| "update_prompt (CommandPromptUpdate ss) p =
     p\<lparr>pr_suggestions := ss, pr_selected := first_selection p, pr_new_selection := Some (first_selection p)\<rparr>"
| "update_prompt (CommandPromptPushPrevious cmd) p = p\<lparr>pr_previous := (cmd, replicate (length cmd) False) # pr_previous p\<rparr>"
| "update_prompt SelectPrevCommand p = p\<lparr>pr_new_selection := Some
     ((case pr_new_selection p of Some n \<Rightarrow> n | None \<Rightarrow> pr_selected p) - 1)\<rparr>"
| "update_prompt SelectNextCommand p = p\<lparr>pr_new_selection := Some
     (min ((case pr_new_selection p of Some n \<Rightarrow> n | None \<Rightarrow> pr_selected p) + 1) (length (pr_suggestions p) - 1))\<rparr>"
| "update_prompt (AddCharToPrompt c) p = p\<lparr>pr_char := Some c\<rparr>"

subsection \<open>A frame of the prompt\<close>

datatype 'm prompt_event = ToPrompt prompt_message | RunCommand 'm

text \<open>What the user does in a frame: \<open>pi_edit\<close> is the edit of the text field, \<open>pi_changed\<close> whether it changed the text,
  \<open>pi_enter\<close> the key that ends the edit, \<open>pi_clicked\<close> the row that is clicked.\<close>

record prompt_input =
  pi_edit :: "string \<Rightarrow> string"
  pi_changed :: bool
  pi_escape :: bool
  pi_up :: bool
  pi_down :: bool
  pi_n :: bool
  pi_p :: bool
  pi_tab :: bool
  pi_enter :: bool
  pi_clicked :: "nat option"

definition run_fuzzy_parser :: "text_api \<Rightarrow> 'm command \<Rightarrow> string \<Rightarrow> (string, 'm prompt_event) outcome" where
  "run_fuzzy_parser api cmd input = and_then (expand_command api input cmd)
     (\<lambda>out. Ok (ToPrompt (CommandPromptUpdate (case fo_suggestions out of Inr ss \<Rightarrow> ss | Inl _ \<Rightarrow> []))))"

definition shown_suggestions :: "string \<Rightarrow> command_prompt \<Rightarrow> (string \<times> bool list) list" where
  "shown_suggestions input p = rev (take (if input = [] then 3 else 0) (pr_previous p)) @ pr_suggestions p"

text \<open>The selected text takes the place of the last word, or follows the white space at the end.\<close>

definition with_selection :: "string \<Rightarrow> string \<Rightarrow> string" where
  "with_selection input selection = (if ends_with_space input then input @ '' '' @ selection
     else join '' '' (butlast (split_ascii_whitespace input)) @ '' '' @ selection)"

definition append_suggestion ::
  "text_api \<Rightarrow> 'm command \<Rightarrow> command_prompt \<Rightarrow> (string \<times> bool list) list \<Rightarrow> string \<Rightarrow> (string, string) outcome" where
  "append_suggestion api cmd p listed input =
     (let new_input = (if pr_suggestions p = [] then input else
        (let ws = split_ascii_whitespace input;
             selection = (if pr_selected p < length listed then fst (listed ! pr_selected p) else if ws = [] then [] else last ws)
         in with_selection input selection))
      in and_then (expand_command api new_input cmd) (\<lambda>out. Ok (fo_expanded out)))"

text \<open>A text that is entered runs when it is a command; otherwise it is edited further.\<close>

definition enter_command :: "text_api \<Rightarrow> 'm command \<Rightarrow> string \<Rightarrow> (string, string option \<times> 'm prompt_event list) outcome" where
  "enter_command api cmd expanded = (case parse_command api cmd expanded of
     Ok m \<Rightarrow> and_then (run_fuzzy_parser api cmd []) (\<lambda>u. Ok (None,
       [ToPrompt HideCommandPrompt, ToPrompt CommandPromptClear, ToPrompt (CommandPromptPushPrevious expanded), RunCommand m, u]))
   | Err e \<Rightarrow> and_then (run_fuzzy_parser api cmd (expanded @ '' '')) (\<lambda>u. Ok (Some (expanded @ '' ''), [u]))
   | Panic \<Rightarrow> Panic)"

definition press_enter :: "text_api \<Rightarrow> 'm command \<Rightarrow> string \<Rightarrow> string \<Rightarrow> (string, string \<times> 'm prompt_event list) outcome" where
  "press_enter api cmd input expanded = and_then (enter_command api cmd expanded)
     (\<lambda>(new_input, msgs). Ok (case new_input of Some i \<Rightarrow> i | None \<Rightarrow> input, msgs))"

definition press_tab :: "text_api \<Rightarrow> 'm command \<Rightarrow> string \<Rightarrow> (string, string \<times> 'm prompt_event list) outcome" where
  "press_tab api cmd expanded = (case parse_command api cmd expanded of
     Panic \<Rightarrow> Panic
   | r \<Rightarrow> (let new_input = (if r = Err MissingParameters then expanded @ '' '' else expanded)
           in and_then (run_fuzzy_parser api cmd new_input) (\<lambda>u. Ok (new_input, [u]))))"

definition key_events :: "prompt_input \<Rightarrow> 'm prompt_event list" where
  "key_events i = (if pi_escape i then [ToPrompt HideCommandPrompt] else []) @ (if pi_up i then [ToPrompt SelectPrevCommand] else [])
     @ (if pi_down i then [ToPrompt SelectNextCommand] else []) @ (if pi_n i then [ToPrompt SelectNextCommand] else [])
     @ (if pi_p i then [ToPrompt SelectPrevCommand] else [])"

definition show_command_prompt ::
  "text_api \<Rightarrow> 'm command \<Rightarrow> prompt_input \<Rightarrow> command_prompt \<Rightarrow> (string, command_prompt \<times> 'm prompt_event list) outcome" where
  "show_command_prompt api cmd i p =
     (let input0 = pr_text p @ (case pr_char p of Some c \<Rightarrow> c | None \<Rightarrow> []);
          input1 = (case pr_new_text p of Some (normal, selected) \<Rightarrow> normal @ selected | None \<Rightarrow> input0);
          input = pi_edit i input1; listed = shown_suggestions input p in
      and_then (if pi_changed i \<or> pr_suggestions p = [] then and_then (run_fuzzy_parser api cmd input) (\<lambda>u. Ok [u]) else Ok [])
        (\<lambda>update.
      and_then (if pi_tab i then and_then (append_suggestion api cmd p listed input) (press_tab api cmd) else Ok (input, [])) (\<lambda>(input, tab).
      and_then (if pi_enter i then and_then (append_suggestion api cmd p listed input) (press_enter api cmd input) else Ok (input, []))
        (\<lambda>(input, enter).
      and_then (expand_command api input cmd) (\<lambda>_.
      and_then (case pi_clicked i of
          Some n \<Rightarrow> if n < length listed then and_then (expand_command api (with_selection input (fst (listed ! n))) cmd)
            (\<lambda>out. press_enter api cmd input (fo_expanded out)) else Ok (input, [])
        | None \<Rightarrow> Ok (input, [])) (\<lambda>(input, click).
      Ok (p\<lparr>pr_text := input, pr_char := None, pr_new_text := None\<rparr>, update @ key_events i @ tab @ enter @ click)))))))"

text \<open>In a frame, a visible prompt is shown and takes over the new selection; the messages of the frame follow, the last one first.\<close>

definition apply_selection :: "command_prompt \<Rightarrow> command_prompt" where
  "apply_selection p = (case pr_new_selection p of Some n \<Rightarrow> p\<lparr>pr_selected := n, pr_new_selection := None\<rparr> | None \<Rightarrow> p)"

fun prompt_events :: "'m prompt_event list \<Rightarrow> command_prompt \<Rightarrow> command_prompt \<times> 'm list" where
  "prompt_events [] p = (p, [])"
| "prompt_events (ToPrompt m # es) p = prompt_events es (update_prompt m p)"
| "prompt_events (RunCommand m # es) p = (let (p', ms) = prompt_events es p in (p', m # ms))"

definition prompt_frame ::
  "text_api \<Rightarrow> 'm command \<Rightarrow> prompt_input \<Rightarrow> command_prompt \<Rightarrow> (string, command_prompt \<times> 'm list) outcome" where
  "prompt_frame api cmd i p = (if pr_visible p
     then and_then (show_command_prompt api cmd i p) (\<lambda>(p', es). Ok (prompt_events (rev es) (apply_selection p'))) else Ok (p, []))"

subsection \<open>Files of commands\<close>

text \<open>The lines of a file: trimmed, up to a comment, cut at semicolons, with the number of the line.\<close>

fun split_at_char :: "char \<Rightarrow> string \<Rightarrow> string list" where
  "split_at_char c s = pieces_between (\<lambda>x. x = c) s"

definition batch_lines :: "string list \<Rightarrow> (nat \<times> string) list" where
  "batch_lines cmds = concat (map (\<lambda>(no, line). map (\<lambda>c. (no, trim c)) (split_at_char CHR '';'' line))
     (filter (\<lambda>(no, line). line \<noteq> []) (map (\<lambda>(no, line). (no + 1, takeWhile (\<lambda>c. c \<noteq> CHR ''#'') (trim line))) (enumerate 0 cmds))))"

definition trim_quotes :: "string \<Rightarrow> string" where
  "trim_quotes s = rev (dropWhile (\<lambda>c. c = CHR 0x22) (rev (dropWhile (\<lambda>c. c = CHR 0x22) s)))"

text \<open>The path of a line that runs another file, when it is one.\<close>

definition run_file_path :: "string \<Rightarrow> string option" where
  "run_file_path c = (if take 17 c = ''run_command_file '' then Some (trim_quotes (trim (drop 17 c))) else None)"

text \<open>
  \<open>files\<close> gives the lines of a file, none when it cannot be read. The messages that are parsed are returned; those of files
  that are run are put into the queue at once. The fuel is how deep files may run each other.
\<close>

fun parse_batch_commands :: "nat \<Rightarrow> text_api \<Rightarrow> (string \<Rightarrow> string list) \<Rightarrow> 'm command \<Rightarrow> (nat \<times> string) list \<Rightarrow> 'm list
    \<Rightarrow> (string, 'm list \<times> 'm list) outcome option" where
  "parse_batch_commands fuel api files cmd [] queue = Some (Ok ([], queue))"
| "parse_batch_commands fuel api files cmd ((no, c) # cs) queue = (case run_file_path c of
     Some path \<Rightarrow> if path = [] then parse_batch_commands fuel api files cmd cs queue else
       (case fuel of 0 \<Rightarrow> None | Suc n \<Rightarrow> (case parse_batch_commands n api files cmd (batch_lines (files path)) queue of
          None \<Rightarrow> None
        | Some (Ok (ms, q)) \<Rightarrow> parse_batch_commands fuel api files cmd cs (q @ ms)
        | Some _ \<Rightarrow> Some Panic))
   | None \<Rightarrow> (case parse_command api cmd c of
       Ok m \<Rightarrow> map_option (\<lambda>r. and_then r (\<lambda>(ms, q). Ok (m # ms, q))) (parse_batch_commands fuel api files cmd cs queue)
     | Err e \<Rightarrow> parse_batch_commands fuel api files cmd cs queue
     | Panic \<Rightarrow> Some Panic))"

record 'm batch_state =
  bt_messages :: "'m list"
  bt_completed :: bool
  bt_loading :: bool

definition add_batch_message :: "'m \<Rightarrow> 'm batch_state \<Rightarrow> 'm batch_state" where
  "add_batch_message m b = b\<lparr>bt_messages := bt_messages b @ [m], bt_completed := False\<rparr>"

definition add_batch_messages :: "'m list \<Rightarrow> 'm batch_state \<Rightarrow> 'm batch_state" where
  "add_batch_messages ms b = fold add_batch_message ms b"

text \<open>
  The queue is worked off while nothing is being loaded. \<open>update\<close> is the update of the whole state, of which the queue is a part;
  it may queue more, so the loop need not end.
\<close>

partial_function (option) run_batch :: "('m \<Rightarrow> bool) \<Rightarrow> ('m \<Rightarrow> 'm batch_state \<times> 'st \<Rightarrow> 'm batch_state \<times> 'st) \<Rightarrow> bool \<Rightarrow>
    'm batch_state \<times> 'st \<Rightarrow> (bool \<times> 'm batch_state \<times> 'st) option" where
  "run_batch is_exit update should_exit s = (if bt_loading (fst s) then Some (should_exit, s) else (case bt_messages (fst s) of
     [] \<Rightarrow> Some (should_exit, s)
   | m # ms \<Rightarrow> run_batch is_exit update (should_exit \<or> is_exit m) (update m ((fst s)\<lparr>bt_messages := ms\<rparr>, snd s))))"

text \<open>The state after the commands, and whether the program is told to exit.\<close>

definition handle_batch_commands :: "('m \<Rightarrow> bool) \<Rightarrow> ('m \<Rightarrow> 'm batch_state \<times> 'st \<Rightarrow> 'm batch_state \<times> 'st) \<Rightarrow>
    'm batch_state \<times> 'st \<Rightarrow> (('m batch_state \<times> 'st) \<times> bool) option" where
  "handle_batch_commands is_exit update s = map_option (\<lambda>(should_exit, b, st).
     if \<not> bt_completed b \<and> bt_messages b = [] \<and> \<not> bt_loading b then ((b\<lparr>bt_completed := True\<rparr>, st), should_exit) else ((b, st), False))
     (run_batch is_exit update False s)"

subsection \<open>The selection in the prompt\<close>

text \<open>The last command is one step away. When the prompt is empty and its suggestions have come, one step up selects the
  command that was entered last.\<close>

theorem last_command_one_up:
  assumes "pr_text p = []" and "pr_previous p = (c, marks) # cs"
  shows "let p' = apply_selection (update_prompt SelectPrevCommand (update_prompt (CommandPromptUpdate ss) p)) in
    pr_selected p' < length (shown_suggestions [] p') \<and> shown_suggestions [] p' ! pr_selected p' = (c, marks)"
  using assms by (cases cs; cases "tl cs") (auto simp: first_selection_def apply_selection_def shown_suggestions_def nth_append rev_nth min_def)

theorem last_command_one_up_witness:
  "let p' = apply_selection (update_prompt SelectPrevCommand (update_prompt (CommandPromptUpdate [(''undo'', [])])
      \<lparr>pr_visible = True, pr_suggestions = [], pr_selected = 0, pr_new_selection = None, pr_new_text = None, pr_previous = [(''redo'', [])],
       pr_text = [], pr_char = None\<rparr>)) in
    pr_selected p' < length (shown_suggestions [] p') \<and> shown_suggestions [] p' ! pr_selected p' = (''redo'', [])"
  by (rule last_command_one_up) simp_all

lemma steps_keep:
  "set ms \<subseteq> {SelectNextCommand, SelectPrevCommand} \<Longrightarrow> pr_suggestions (fold update_prompt ms p) = pr_suggestions p
    \<and> pr_previous (fold update_prompt ms p) = pr_previous p"
proof (induction ms arbitrary: p)
  case (Cons a ms)
  then show ?case by (cases a) auto
qed simp

lemma selection_bounded:
  assumes "set ms \<subseteq> {SelectNextCommand, SelectPrevCommand}" "pr_new_selection p = Some n" "n < length (pr_suggestions p)"
  shows "\<exists>m < length (pr_suggestions p). pr_new_selection (fold update_prompt ms p) = Some m"
  using assms
proof (induction ms arbitrary: p n)
  case (Cons a ms)
  show ?case
  proof (cases "a = SelectNextCommand")
    case True
    then show ?thesis using Cons.prems Cons.IH[of "update_prompt a p" "min (n + 1) (length (pr_suggestions p) - 1)"] by simp
  next
    case False
    then show ?thesis using Cons.prems Cons.IH[of "update_prompt a p" "n - 1"] by simp
  qed
qed simp

text \<open>The last suggestions cannot be reached. In an empty prompt up to three earlier commands are listed before the
  suggestions, but the selection stops at the number of suggestions: no sequence of steps up and down selects one of as many
  rows at the end of the list as there are earlier commands at its front.\<close>

theorem last_suggestions_unreachable:
  assumes "pr_text p = []" and "set ms \<subseteq> {SelectNextCommand, SelectPrevCommand}" and "min (length (pr_previous p)) 3 < length ss"
  shows "let p' = apply_selection (fold update_prompt ms (update_prompt (CommandPromptUpdate ss) p)) in
    pr_selected p' + min (length (pr_previous p)) 3 < length (shown_suggestions [] p')"
  using selection_bounded[OF assms(2), of "update_prompt (CommandPromptUpdate ss) p" "min (length (pr_previous p)) 3"] assms(1,3)
    steps_keep[OF assms(2), of "update_prompt (CommandPromptUpdate ss) p"]
  by (auto simp: first_selection_def apply_selection_def shown_suggestions_def)

theorem last_suggestions_unreachable_witness:
  "let p' = apply_selection (fold update_prompt [SelectNextCommand, SelectNextCommand] (update_prompt (CommandPromptUpdate [(''undo'', []), (''exit'', [])])
      \<lparr>pr_visible = True, pr_suggestions = [], pr_selected = 0, pr_new_selection = None, pr_new_text = None, pr_previous = [(''redo'', [])],
       pr_text = [], pr_char = None\<rparr>)) in pr_selected p' + min (length [(''redo'', [])]) 3 < length (shown_suggestions [] p')"
  using last_suggestions_unreachable[where ms = "[SelectNextCommand, SelectNextCommand]" and ss = "[(''undo'', []), (''exit'', [])]"
      and p = "\<lparr>pr_visible = True, pr_suggestions = [], pr_selected = 0, pr_new_selection = None, pr_new_text = None,
        pr_previous = [(''redo'', [])], pr_text = [], pr_char = None\<rparr>"] by simp

lemma prompt_events_append:
  "prompt_events (xs @ ys) p = (let (p', ms) = prompt_events xs p; (p'', ms') = prompt_events ys p' in (p'', ms @ ms'))"
  by (induction xs p rule: prompt_events.induct) (auto split: prod.splits)

lemma selection_keys:
  assumes "\<not> pi_escape i"
  shows "\<exists>q. prompt_events (rev (key_events i)) p = (q, []) \<and> pr_text q = pr_text p"
proof -
  have "\<exists>q. prompt_events es p = (q, []) \<and> pr_text q = pr_text p" if "set es \<subseteq> {ToPrompt SelectNextCommand, ToPrompt SelectPrevCommand}" for es p
    using that by (induction es p rule: prompt_events.induct) auto
  moreover have "set (rev (key_events i)) \<subseteq> {ToPrompt SelectNextCommand, ToPrompt SelectPrevCommand}"
    using assms by (auto simp: key_events_def)
  ultimately show ?thesis .
qed

text \<open>C37. Editing the text selects the best suggestion. After a frame in which the text was changed, the suggestions are those for
  the new text and the first of them is selected, also when the key that typed a letter is one that moves the selection:
  messages are taken from the end, so the update of the suggestions comes last.\<close>

theorem edit_selects_best:
  assumes "pr_visible p" and "pr_new_text p = None" and "pr_char p = None" and "pi_edit i (pr_text p) \<noteq> []"
    and "expand_command api (pi_edit i (pr_text p)) cmd = Ok out" and "fo_suggestions out = Inr ss"
    and "pi_changed i" and "\<not> (pi_escape i \<or> pi_tab i \<or> pi_enter i)" and "pi_clicked i = None"
  shows "\<exists>p'. prompt_frame api cmd i p = Ok (p', []) \<and> pr_text p' = pi_edit i (pr_text p) \<and> pr_suggestions p' = ss
    \<and> pr_selected (apply_selection p') = 0"
proof -
  define p1 where "p1 = apply_selection (p\<lparr>pr_text := pi_edit i (pr_text p), pr_char := None, pr_new_text := None\<rparr>)"
  have edited: "pr_text p1 = pi_edit i (pr_text p)" by (simp add: p1_def apply_selection_def split: option.splits)
  obtain q where q: "prompt_events (rev (key_events i)) p1 = (q, [] :: 'a list)" "pr_text q = pr_text p1"
    using selection_keys[of i p1] assms(8) by blast
  have "prompt_frame api cmd i p = Ok (prompt_events (rev (key_events i) @ [ToPrompt (CommandPromptUpdate ss)]) p1)"
    using assms by (simp add: prompt_frame_def show_command_prompt_def run_fuzzy_parser_def Let_def p1_def)
  also have "\<dots> = Ok (update_prompt (CommandPromptUpdate ss) q, [])" by (simp add: prompt_events_append q(1))
  finally show ?thesis using q(2) edited assms(4) by (simp add: first_selection_def apply_selection_def)
qed

text \<open>C36. A command that is entered runs. When the text, with the selected suggestion and expanded, is a command, the frame in
  which it is entered gives the command's message, closes the prompt with an empty text and puts what was entered first among
  the earlier commands.\<close>

theorem entered_command_runs:
  assumes "pr_visible p" and "pr_new_text p = None" and "pr_char p = None" and "pr_suggestions p \<noteq> []"
    and "pi_enter i" and "\<not> (pi_changed i \<or> pi_escape i \<or> pi_up i \<or> pi_down i \<or> pi_n i \<or> pi_p i \<or> pi_tab i)" and "pi_clicked i = None"
    and "append_suggestion api cmd p (shown_suggestions (pi_edit i (pr_text p)) p) (pi_edit i (pr_text p)) = Ok e"
    and "parse_command api cmd e = Ok m" and "expand_command api [] cmd = Ok out" and "expand_command api (pi_edit i (pr_text p)) cmd = Ok out'"
  shows "\<exists>p'. prompt_frame api cmd i p = Ok (p', [m]) \<and> pr_text p' = [] \<and> \<not> pr_visible p'
    \<and> pr_previous p' = (e, replicate (length e) False) # pr_previous p"
  using assms
  by (auto simp: prompt_frame_def show_command_prompt_def run_fuzzy_parser_def key_events_def press_enter_def enter_command_def
      apply_selection_def Let_def split: option.splits)

subsection \<open>What is queued\<close>

text \<open>The messages of the lines themselves, and those of the files that the lines run.\<close>

definition own_messages :: "text_api \<Rightarrow> 'm command \<Rightarrow> (nat \<times> string) list \<Rightarrow> 'm list" where
  "own_messages api cmd cs = concat (map (\<lambda>(no, c). case run_file_path c of Some path \<Rightarrow> []
     | None \<Rightarrow> (case parse_command api cmd c of Ok m \<Rightarrow> [m] | _ \<Rightarrow> [])) cs)"

fun nested_messages :: "nat \<Rightarrow> text_api \<Rightarrow> (string \<Rightarrow> string list) \<Rightarrow> 'm command \<Rightarrow> (nat \<times> string) list \<Rightarrow> 'm list" where
  "nested_messages fuel api files cmd [] = []"
| "nested_messages fuel api files cmd ((no, c) # cs) = (case (run_file_path c, fuel) of
     (Some path, Suc n) \<Rightarrow> (if path = [] then [] else let ls = batch_lines (files path)
        in nested_messages n api files cmd ls @ own_messages api cmd ls) @ nested_messages fuel api files cmd cs
   | _ \<Rightarrow> nested_messages fuel api files cmd cs)"

lemma parsed_parts:
  assumes "parse_batch_commands fuel api files cmd cs queue = Some (Ok (ms, q))"
  shows "ms = own_messages api cmd cs \<and> q = queue @ nested_messages fuel api files cmd cs"
  using assms
proof (induction fuel api files cmd cs queue arbitrary: ms q rule: parse_batch_commands.induct)
  case (2 fuel api files cmd no c cs queue)
  show ?case
  proof (cases "run_file_path c")
    case None
    then show ?thesis using 2 by (auto simp: own_messages_def and_then_Ok split: outcome.splits nat.splits)
  next
    case (Some path)
    note c = this
    show ?thesis
    proof (cases "path = []")
      case True
      then show ?thesis using 2 c by (auto simp: own_messages_def split: nat.splits)
    next
      case False
      then obtain n where n: "fuel = Suc n" using "2.prems" c by (cases fuel) auto
      obtain ms' q' where r: "parse_batch_commands n api files cmd (batch_lines (files path)) queue = Some (Ok (ms', q'))"
        using "2.prems" c False n by (auto split: option.splits outcome.splits)
      then have rest: "parse_batch_commands fuel api files cmd cs (q' @ ms') = Some (Ok (ms, q))" using "2.prems" c False n by simp
      show ?thesis
        using "2.IH"(4)[OF c False n r] "2.IH"(5)[OF c False n r refl refl rest] c False n by (simp add: own_messages_def Let_def)
    qed
  qed
qed (simp add: own_messages_def)

text \<open>Reading a file of commands ends when files do not run each other in a circle. If every file a line runs has a smaller
  rank than the file of the line, a fuel above the ranks is enough.\<close>

theorem batch_terminates:
  fixes rank :: "string \<Rightarrow> nat"
  assumes "\<And>path no c p. (no, c) \<in> set (batch_lines (files path)) \<Longrightarrow> run_file_path c = Some p \<Longrightarrow> rank p < rank path"
    and "\<And>no c p. (no, c) \<in> set cs \<Longrightarrow> run_file_path c = Some p \<Longrightarrow> rank p < fuel"
  shows "parse_batch_commands fuel api files cmd cs queue \<noteq> None"
  using assms(2)
proof (induction fuel arbitrary: cs queue rule: less_induct)
  case (less fuel)
  from less.prems show ?case
  proof (induction cs arbitrary: queue)
    case (Cons x cs)
    obtain no c where x: "x = (no, c)" by (cases x)
    have rest: "parse_batch_commands fuel api files cmd cs q \<noteq> None" for q using Cons by (metis list.set_intros(2))
    show ?case
    proof (cases "run_file_path c")
      case None
      then show ?thesis using rest by (auto simp: x split: outcome.splits)
    next
      case (Some path)
      with Cons.prems[of no c path] have "rank path < fuel" by (simp add: x)
      then obtain n where n: "fuel = Suc n" "rank path \<le> n" by (cases fuel) auto
      have "parse_batch_commands n api files cmd (batch_lines (files path)) queue \<noteq> None"
      proof (rule less.IH)
        show "n < fuel" using n(1) by simp
        fix no c p assume "(no, c) \<in> set (batch_lines (files path))" "run_file_path c = Some p"
        then have "rank p < rank path" by (rule assms(1))
        then show "rank p < n" using n(2) by simp
      qed
      then show ?thesis using rest n(1) Some by (auto simp: x split: outcome.splits)
    qed
  qed simp
qed

lemma batch_never_panics:
  assumes "\<And>path no c. (no, c) \<in> set (batch_lines (files path)) \<Longrightarrow> run_file_path c = None \<Longrightarrow> parse_command api cmd c \<noteq> Panic"
    and "\<And>no c. (no, c) \<in> set cs \<Longrightarrow> run_file_path c = None \<Longrightarrow> parse_command api cmd c \<noteq> Panic"
    and "parse_batch_commands fuel api files cmd cs queue = Some r"
  shows "\<exists>ms q. r = Ok (ms, q)"
  using assms(2,3)
proof (induction fuel arbitrary: cs queue r rule: less_induct)
  case (less fuel)
  from less.prems show ?case
  proof (induction cs arbitrary: queue r)
    case (Cons x cs)
    obtain no c where x: "x = (no, c)" by (cases x)
    have rest: "\<exists>ms q. r = Ok (ms, q)" if "parse_batch_commands fuel api files cmd cs queue = Some r" for queue r
      by (rule Cons.IH[OF _ that]) (use Cons.prems(1) in auto)
    show ?case
    proof (cases "run_file_path c")
      case None
      then have "parse_command api cmd c \<noteq> Panic" using Cons.prems(1)[of no c] by (simp add: x)
      then show ?thesis using Cons.prems(2) None rest
        by (fastforce simp: x and_then_Ok split: outcome.splits nat.splits)
    next
      case (Some path)
      show ?thesis
      proof (cases "path = []")
        case True
        then show ?thesis using Cons.prems(2) Some rest by (simp add: x split: nat.splits)
      next
        case False
        then obtain n where n: "fuel = Suc n" using Cons.prems(2) Some by (cases fuel) (auto simp: x)
        obtain r' where r': "parse_batch_commands n api files cmd (batch_lines (files path)) queue = Some r'"
          using Cons.prems(2) Some False n by (auto simp: x split: option.splits)
        have "\<exists>ms q. r' = Ok (ms, q)"
        proof (rule less.IH[OF _ _ r'])
          show "n < fuel" using n by simp
          fix no c assume "(no, c) \<in> set (batch_lines (files path))" "run_file_path c = None"
          then show "parse_command api cmd c \<noteq> Panic" by (rule assms(1))
        qed
        then obtain ms q where "r' = Ok (ms, q)" by blast
        then show ?thesis using Cons.prems(2) Some False n r' rest by (simp add: x)
      qed
    qed
  qed simp
qed


lemma batch_runs_files:
  assumes "parse_batch_commands fuel api files cmd cs queue = Some (Ok r)" "(no, c) \<in> set cs" "run_file_path c = Some path" "path \<noteq> []"
  shows "\<exists>n q r'. fuel = Suc n \<and> parse_batch_commands n api files cmd (batch_lines (files path)) q = Some (Ok r')"
  using assms
proof (induction cs arbitrary: queue r)
  case (Cons x cs)
  obtain no' c' where x: "x = (no', c')" by (cases x)
  show ?case
  proof (cases "(no, c) \<in> set cs")
    case True
    obtain a b where "r = (a, b)" by (cases r)
    then have "\<exists>queue' r''. parse_batch_commands fuel api files cmd cs queue' = Some (Ok r'')"
      using Cons.prems(1) by (auto simp: x and_then_Ok split: option.splits outcome.splits if_splits nat.splits)
    then show ?thesis using Cons.IH True assms(3,4) by blast
  next
    case False
    then have "c' = c" using Cons.prems(2) by (simp add: x)
    then show ?thesis using Cons.prems(1) assms(3,4) by (auto simp: x split: option.splits outcome.splits nat.splits)
  qed
qed simp

text \<open>A file that runs itself is never read to the end: whatever the fuel, its lines do not give messages. In the program
  the recursion only ends when the stack does.\<close>

theorem self_running_never_ends:
  assumes "(no, c) \<in> set (batch_lines (files path))" and "run_file_path c = Some path" and "path \<noteq> []"
  shows "parse_batch_commands fuel api files cmd (batch_lines (files path)) queue \<noteq> Some (Ok r)"
proof (induction fuel arbitrary: queue r rule: less_induct)
  case (less fuel)
  show ?case
  proof
    assume "parse_batch_commands fuel api files cmd (batch_lines (files path)) queue = Some (Ok r)"
    then obtain n q r' where "fuel = Suc n" "parse_batch_commands n api files cmd (batch_lines (files path)) q = Some (Ok r')"
      using batch_runs_files[OF _ assms] by blast
    then show False using less.IH[of n q r'] by blast
  qed
qed

subsection \<open>How the queue is worked off\<close>

lemma run_batch_prefix:
  assumes "\<And>m b st. m \<in> set ms \<Longrightarrow> update m (b, st) = (b, run m st)" and "\<not> bt_loading b"
  shows "run_batch is_exit update e (b\<lparr>bt_messages := ms @ rest\<rparr>, st) =
    run_batch is_exit update (e \<or> list_ex is_exit ms) (b\<lparr>bt_messages := rest\<rparr>, fold run ms st)"
  using assms(1)
proof (induction ms arbitrary: e st)
  case (Cons m ms)
  have "run_batch is_exit update e (b\<lparr>bt_messages := (m # ms) @ rest\<rparr>, st)
      = run_batch is_exit update (e \<or> is_exit m) (b\<lparr>bt_messages := ms @ rest\<rparr>, run m st)"
    using Cons.prems[of m] assms(2) by (subst run_batch.simps) simp
  then show ?case using Cons by simp
qed simp

text \<open>Commands that load nothing are all run, in their order, and the loop ends. Then the queue is empty and complete, and the
  program is told to exit exactly when one of them said so.\<close>

theorem batch_runs_in_order:
  assumes "\<And>m b st. m \<in> set (bt_messages bs) \<Longrightarrow> update m (b, st) = (b, run m st)" and "\<not> bt_loading bs" and "\<not> bt_completed bs"
  shows "handle_batch_commands is_exit update (bs, st) =
    Some ((bs\<lparr>bt_messages := [], bt_completed := True\<rparr>, fold run (bt_messages bs) st), list_ex is_exit (bt_messages bs))"
proof -
  have "run_batch is_exit update False (bs\<lparr>bt_messages := bt_messages bs @ []\<rparr>, st)
      = run_batch is_exit update (False \<or> list_ex is_exit (bt_messages bs)) (bs\<lparr>bt_messages := []\<rparr>, fold run (bt_messages bs) st)"
    by (rule run_batch_prefix[OF assms(1,2)])
  also have "\<dots> = Some (list_ex is_exit (bt_messages bs), bs\<lparr>bt_messages := []\<rparr>, fold run (bt_messages bs) st)"
    using assms(2) by (subst run_batch.simps) simp
  finally show ?thesis using assms(2,3) by (simp add: handle_batch_commands_def)
qed

text \<open>C38. A command that loads stops the queue. The commands before it and itself are run, the ones behind it wait, and what was
  said before about exiting is forgotten: the flag is a local variable, so the program does not exit in the end.\<close>

theorem loading_stops_batch:
  assumes "\<And>m b st. m \<in> set ms \<Longrightarrow> update m (b, st) = (b, run m st)"
    and "\<And>b st. update l (b, st) = (b\<lparr>bt_loading := True\<rparr>, run l st)" and "\<not> bt_loading bs" and "bt_messages bs = ms @ l # rest"
  shows "handle_batch_commands is_exit update (bs, st) =
    Some ((bs\<lparr>bt_messages := rest, bt_loading := True\<rparr>, run l (fold run ms st)), False)"
proof -
  have "run_batch is_exit update False (bs\<lparr>bt_messages := ms @ l # rest\<rparr>, st)
      = run_batch is_exit update (False \<or> list_ex is_exit ms) (bs\<lparr>bt_messages := l # rest\<rparr>, fold run ms st)"
    by (rule run_batch_prefix[OF assms(1,3)])
  also have "\<dots> = run_batch is_exit update (list_ex is_exit ms \<or> is_exit l) (bs\<lparr>bt_messages := rest, bt_loading := True\<rparr>, run l (fold run ms st))"
    using assms(2,3) by (subst run_batch.simps) simp
  also have "\<dots> = Some (list_ex is_exit ms \<or> is_exit l, bs\<lparr>bt_messages := rest, bt_loading := True\<rparr>, run l (fold run ms st))"
    by (subst run_batch.simps) simp
  finally show ?thesis by (simp add: handle_batch_commands_def flip: assms(4))
qed

subsection \<open>Examples\<close>

text \<open>Two commands without parameters.\<close>

definition sample_commands :: "nat command" where
  "sample_commands = NonTerminal WordGreed [''undo'', ''redo''] (\<lambda>w _. if w = ''undo'' then Continue (Terminal 1)
     else if w = ''redo'' then Continue (Terminal 2) else Reject)"

definition sample_prompt :: "string \<Rightarrow> command_prompt" where
  "sample_prompt s = \<lparr>pr_visible = True, pr_suggestions = [(''undo'', []), (''redo'', [])], pr_selected = 1, pr_new_selection = None,
     pr_new_text = None, pr_previous = [], pr_text = s, pr_char = None\<rparr>"

definition no_keys :: prompt_input where
  "no_keys = \<lparr>pi_edit = (\<lambda>s. s), pi_changed = False, pi_escape = False, pi_up = False, pi_down = False, pi_n = False, pi_p = False,
     pi_tab = False, pi_enter = False, pi_clicked = None\<rparr>"

lemma sample_expansion:
  "expand_command sample_text_api ''un'' sample_commands = Ok \<lparr>fo_expanded = ''undo'', fo_suggestions = Inr [(''undo'', replicate 4 False), (''redo'', replicate 4 False)]\<rparr>"
  "expand_command sample_text_api [] sample_commands = Ok \<lparr>fo_expanded = [], fo_suggestions = Inr [(''undo'', replicate 4 False), (''redo'', replicate 4 False)]\<rparr>"
  by code_simp+

theorem edit_selects_best_witness:
  "\<exists>p'. prompt_frame sample_text_api sample_commands (no_keys\<lparr>pi_edit := (\<lambda>s. s @ ''n''), pi_changed := True, pi_n := True\<rparr>) (sample_prompt ''u'') = Ok (p', [])
    \<and> pr_text p' = ''un'' \<and> pr_suggestions p' = [(''undo'', replicate 4 False), (''redo'', replicate 4 False)] \<and> pr_selected (apply_selection p') = 0"
  using edit_selects_best[where api = sample_text_api and cmd = sample_commands and p = "sample_prompt ''u''"
      and i = "no_keys\<lparr>pi_edit := (\<lambda>s. s @ ''n''), pi_changed := True, pi_n := True\<rparr>"] sample_expansion(1)
  by (simp add: sample_prompt_def no_keys_def)

lemma sample_entered:
  "append_suggestion sample_text_api sample_commands (sample_prompt ''un'') (shown_suggestions ''un'' (sample_prompt ''un'')) ''un'' = Ok ''redo''"
  "parse_command sample_text_api sample_commands ''redo'' = Ok 2" "parse_command sample_text_api sample_commands ''undo'' = Ok 1"
  "parse_command sample_text_api sample_commands ''frob'' = Err (InvalidParameter ''frob'')"
  by code_simp+

theorem entered_command_runs_witness:
  "\<exists>p'. prompt_frame sample_text_api sample_commands (no_keys\<lparr>pi_enter := True\<rparr>) (sample_prompt ''un'') = Ok (p', [2])
    \<and> pr_text p' = [] \<and> \<not> pr_visible p' \<and> pr_previous p' = [(''redo'', replicate (length ''redo'') False)]"
  using entered_command_runs[where api = sample_text_api and cmd = sample_commands and p = "sample_prompt ''un''" and i = "no_keys\<lparr>pi_enter := True\<rparr>"
      and e = "''redo''" and m = 2] sample_expansion sample_entered
  by (simp add: sample_prompt_def no_keys_def)

definition sample_files :: "string \<Rightarrow> string list" where
  "sample_files path = (if path = ''a'' then [''undo; redo'', ''run_command_file b'', ''frob''] else if path = ''b'' then [''redo # again''] else
     if path = ''c'' then [''undo'', ''run_command_file c''] else [])"

lemma sample_files_none: "\<lbrakk>path \<noteq> ''a''; path \<noteq> ''b''; path \<noteq> ''c''\<rbrakk> \<Longrightarrow> sample_files path = []"
  by (simp add: sample_files_def)

lemma sample_batch:
  "parse_batch_commands 2 sample_text_api sample_files sample_commands (batch_lines (sample_files ''a'')) [] = Some (Ok ([1, 2], [2]))"
  "batch_lines (sample_files ''a'') = [(1, ''undo''), (1, ''redo''), (2, ''run_command_file b''), (3, ''frob'')]"
  "batch_lines (sample_files ''b'') = [(1, ''redo'')]" "batch_lines (sample_files ''c'') = [(1, ''undo''), (2, ''run_command_file c'')]"
  "run_file_path ''run_command_file b'' = Some ''b''" "run_file_path ''run_command_file c'' = Some ''c''"
  "run_file_path ''undo'' = None" "run_file_path ''redo'' = None" "run_file_path ''frob'' = None" "batch_lines [] = []"
  by code_simp+


theorem batch_terminates_witness:
  "parse_batch_commands 1 sample_text_api (\<lambda>p. if p = ''c'' then [] else sample_files p) sample_commands (batch_lines (sample_files ''a'')) [] \<noteq> None"
proof (rule batch_terminates[where rank = "\<lambda>p. if p = ''a'' then 1 else 0"])
  fix path no c p
  assume "(no, c) \<in> set (batch_lines (if path = ''c'' then [] else sample_files path))" "run_file_path c = Some p"
  then show "(if p = ''a'' then 1 else 0) < (if path = ''a'' then 1 else (0 :: nat))"
    using sample_files_none[of path] by (cases "path = ''a''"; cases "path = ''b''") (auto simp: sample_batch split: if_splits)
qed (auto simp: sample_batch)

theorem self_running_never_ends_witness:
  "parse_batch_commands 5 sample_text_api sample_files sample_commands (batch_lines (sample_files ''c'')) [] \<noteq> Some (Ok ([], []))"
  by (rule self_running_never_ends[of "2" "''run_command_file c''"]) (simp_all add: sample_batch)

theorem batch_runs_in_order_witness:
  "handle_batch_commands (\<lambda>m. m = (3 :: nat)) (\<lambda>m (b, st). (b, st @ [m])) (\<lparr>bt_messages = [1, 3, 2], bt_completed = False, bt_loading = False\<rparr>, [])
    = Some ((\<lparr>bt_messages = [], bt_completed = True, bt_loading = False\<rparr>, [1, 3, 2]), True)"
  using batch_runs_in_order[where bs = "\<lparr>bt_messages = [1, 3, 2], bt_completed = False, bt_loading = False\<rparr>" and is_exit = "\<lambda>m. m = (3 :: nat)"
      and update = "\<lambda>m (b, st). (b, st @ [m])" and run = "\<lambda>m st. st @ [m]" and st = "[]"] by simp

theorem loading_stops_batch_witness:
  "handle_batch_commands (\<lambda>m. m = (3 :: nat)) (\<lambda>m (b, st). (if m = 4 then b\<lparr>bt_loading := True\<rparr> else b, st @ [m]))
      (\<lparr>bt_messages = [3, 4, 2], bt_completed = False, bt_loading = False\<rparr>, [])
    = Some ((\<lparr>bt_messages = [2], bt_completed = False, bt_loading = True\<rparr>, [3, 4]), False)"
  using loading_stops_batch[where bs = "\<lparr>bt_messages = [3, 4, 2], bt_completed = False, bt_loading = False\<rparr>" and is_exit = "\<lambda>m. m = (3 :: nat)"
      and ms = "[3]" and l = 4 and rest = "[2]" and update = "\<lambda>m (b, st). (if m = 4 then b\<lparr>bt_loading := True\<rparr> else b, st @ [m])"
      and run = "\<lambda>m st. st @ [m]" and st = "[]"] by simp

end
