(* ===== verification/Spec2Isabelle.thy ===== *)
theory Spec2Isabelle
  imports Decoder_Uart Decoder_I2c Decoder_Spi Decoders Decoder_Rows Variable_Refs Translation_Types Item_Tree Undo_History Mapping_Translators
    Time_Format File_History Viewports Transactions Signal_Cache
    Wave_Container Frame_Buffer Variable_Filter Scope_Messages Fuzzy_Commands Command_Table Command_Prompt
begin

text \<open>
  Kahuna is a waveform viewer (a fork of Surfer). A file with the values of signals over time is loaded, the user puts
  variables, groups, markers and other rows on a canvas, and every frame of the interface draws the rows for the range of
  times that is in view. The user's actions are messages to one big \<^verbatim>\<open>update\<close> function on the state of the program. This
  development models the logic behind that: the state of the canvas and its messages, the translation of values into text
  and colours, the decoders of serial protocols, the caches, the viewports and the formatting and reading of times. File
  names are relative to \<^verbatim>\<open>src/\<close>.

  \<^bold>\<open>Conventions.\<close> A struct is a \<open>record\<close>, an enum a \<open>datatype\<close>, a function of the source a definition of the same name
  (with a suffix or prefix where a name is taken). \<open>Ok\<close>, \<open>Err\<close> and \<open>Panic\<close> are the outcomes of code that can fail; a failed
  \<^verbatim>\<open>unwrap\<close>, an index out of range, a failed \<^verbatim>\<open>debug_assert\<close> and the overflow of a checked subtraction are \<open>Panic\<close> (the debug
  build). \<^verbatim>\<open>usize\<close> and \<^verbatim>\<open>BigUint\<close> are natural numbers, \<^verbatim>\<open>BigInt\<close> is \<open>int\<close>, accumulators that shift bits out are words of
  their width. A string is its UTF-8 bytes. A hash map is a function to options, or an association list where the code reads
  its order. What comes from another package or from floating point is a parameter, and a hypothesis names what is used of it.

  \<^bold>\<open>Shared theories.\<close> \<^theory_text>\<open>Prelude\<close> has outcomes and slices. \<^theory_text>\<open>Rust_Strings\<close> has the functions of \<^verbatim>\<open>str\<close>, numbers in a radix and
  their parsing, with the round trips between them.

  \<^bold>\<open>The canvas.\<close> \<^theory_text>\<open>Item_Tree\<close> (\<^verbatim>\<open>libsurfer/src/displayed_item_tree.rs\<close>) is the flat list of nodes with levels that stands for
  the tree of rows, with insertion, removal, dissolving, draining, folding, selection and every kind of move; its lemmas say
  where an item may go, that a tree stays a tree, what exactly is visible, and where moved items end up. \<^theory_text>\<open>Displayed_Items\<close>
  (\<^verbatim>\<open>displayed_item.rs\<close>) has the kinds of rows. \<^theory_text>\<open>Annotations\<close> (\<^verbatim>\<open>annotation.rs\<close>, \<^verbatim>\<open>annotation_list.rs\<close>) has the annotations
  and their groups. \<^theory_text>\<open>Canvas\<close> is the part of \<^verbatim>\<open>WaveData\<close> (\<^verbatim>\<open>wave_data.rs\<close>, \<^verbatim>\<open>marker.rs\<close>) that is displayed: the tree, the items by
  reference, the markers, the focus, and the operations on them. \<^theory_text>\<open>Canvas_Inv\<close> proves what each of them keeps: the tree and
  the items have the same references, each once; markers and marker rows correspond; only groups have rows below them.
  \<^theory_text>\<open>Messages\<close> has the arms of \<^verbatim>\<open>SystemState::update\<close> (\<^verbatim>\<open>lib.rs\<close>) that change the canvas, with the undo and redo stacks
  (\<^verbatim>\<open>state.rs\<close>). \<^theory_text>\<open>Messages_Inv\<close> shows, by a locale over what an invariant has to be kept by and its interpretations, that
  every message keeps the invariants on the canvas and on everything undo can restore. \<^theory_text>\<open>Undo_History\<close> proves that undo
  takes a change back, that redo takes undo back, and the bound of the stacks.

  \<^bold>\<open>Values.\<close> \<^theory_text>\<open>Translation_Types\<close> (the crate \<^verbatim>\<open>surfer-translation-types\<close>) has values, kinds and the results of translation.
  \<^theory_text>\<open>Basic_Translators\<close>, \<^theory_text>\<open>Numeric_Translators\<close> and \<^theory_text>\<open>Translators\<close> (\<^verbatim>\<open>libsurfer/src/translation/\<close>) have the translators: radixes,
  ASCII, LEB128, counters, integers, fixed point, 8-bit floats, clocks, enumerations, events, colours, instructions, as
  records of functions like the two traits; the list of translators, the choice of one for a variable (\<^verbatim>\<open>wave_data.rs\<close>), and
  the formatting of hierarchical results into rows. The lemmas say that texts denote the values exactly, that the two forms
  of a value (number or binary text) give the same text, and which translator a variable gets.
  \<^theory_text>\<open>Mapping_Translators\<close> (\<^verbatim>\<open>mapping_translators.rs\<close>) parses the files in which a user describes labels and translates by them.
  \<^theory_text>\<open>Variable_Refs\<close> (\<^verbatim>\<open>variable_ref.rs\<close>, \<^verbatim>\<open>scope_ref.rs\<close>, \<^verbatim>\<open>wave_container.rs\<close>, \<^verbatim>\<open>variable_name_type.rs\<close>) has references to variables,
  their text forms and the minimal unique names.

  \<^bold>\<open>Decoders.\<close> \<^theory_text>\<open>Bit_Lanes\<close> has lanes of bits and decoded words, \<^theory_text>\<open>Decoder_Uart\<close>, \<^theory_text>\<open>Decoder_I2c\<close> and \<^theory_text>\<open>Decoder_Spi\<close> the three
  protocols (\<^verbatim>\<open>libsurfer/src/decoders/\<close>), \<^theory_text>\<open>Decoders\<close> their common interface, the guess of the signals and the drawing of a lane.
  \<^theory_text>\<open>Decoder_Rows\<close> (\<^verbatim>\<open>drawing_canvas.rs\<close>) draws all decoder rows of the canvas with the cache of decodes, which is shown never to
  change what is drawn while a file stays what it is. The main lemmas start from lines that carry frames, transactions or
  transfers, given as data, and prove that the decoder returns exactly those; for SPI the data lines are sampled at the edges that
  the clock line and the mode give. Ticks are natural numbers; \<open>uart_times_bound\<close> says when the ends of UART words fit \<^verbatim>\<open>u64\<close>.

  \<^bold>\<open>Time and views.\<close> \<^theory_text>\<open>Time_Format\<close> (\<^verbatim>\<open>time.rs\<close>) formats and reads times; a text of a time is read back as the same number of
  ticks. \<^theory_text>\<open>Viewports\<close> (\<^verbatim>\<open>viewport.rs\<close>) has the range of times in view, its moves, animation and messages; an
  animation is shown to arrive. An inductive set of reachable states carries an invariant on the width of views that holds in
  exact arithmetic.
  \<^theory_text>\<open>Signal_Cache\<close> (\<^verbatim>\<open>analog_signal_cache.rs\<close>) is the table of block summaries for analog signals and refines a search through
  all samples. \<^theory_text>\<open>Transactions\<close> (\<^verbatim>\<open>transactions.rs\<close>, \<^verbatim>\<open>transaction_container.rs\<close>) assigns rows to transactions, adds streams and
  moves the focus. \<^theory_text>\<open>File_History\<close> (\<^verbatim>\<open>file_history.rs\<close>) has the recent files and their labels.

  \<^bold>\<open>Waveforms, lists and windows.\<close> \<^theory_text>\<open>Wave_Container\<close> (\<^verbatim>\<open>wave_container.rs\<close>) is what the program asks of a loaded waveform, a
  record of functions. \<^theory_text>\<open>Variable_Filter\<close> (\<^verbatim>\<open>variable_filter.rs\<close>, \<^verbatim>\<open>hierarchy.rs\<close>) has the filter and order of the variables, the
  list of all variables and its cache; its lemmas say that neither cache changes what is shown, the second one as long as a
  generation and a source mean one waveform. \<^theory_text>\<open>Scope_Messages\<close> (\<^verbatim>\<open>lib.rs\<close>,
  \<^verbatim>\<open>wave_data.rs\<close>) has the messages that add a scope, change formats and move the cursor to a transition. \<^theory_text>\<open>Frame_Buffer\<close>
  (\<^verbatim>\<open>frame_buffer.rs\<close>) is the window that shows the bits of variables as an image; every pixel is proved, and that nothing
  panics from the settings the commands can make.

  \<^bold>\<open>Commands.\<close> \<^theory_text>\<open>Fuzzy_Commands\<close> (\<^verbatim>\<open>fzcmd.rs\<close>) parses and expands a text along a tree of commands. \<^theory_text>\<open>Command_Table\<close>
  (\<^verbatim>\<open>command_parser.rs\<close>) is the tree of the program; its theorems run command lines: what is suggested is accepted, and times,
  rows and ranges are read back. \<^theory_text>\<open>Command_Prompt\<close> (\<^verbatim>\<open>command_prompt.rs\<close>, \<^verbatim>\<open>batch_commands.rs\<close>) has a frame of the prompt, which
  turns keys into messages (taken from the end, as the frame of the program does), and the files and the queue of commands.

  \<^bold>\<open>Termination and fuel.\<close> Recursion is structural or has a measure. Loops that need not end are \<open>partial_function\<close>s: the one
  that looks for the row of a transaction and the one that descends into the levels of an array are proved to end, and the queue
  of commands ends when its commands queue no more. The digits of a fixed-point fraction take as fuel the number of fractional
  bits: every digit removes a factor of two from the denominator, so the fuel is enough. The recursion over child scopes has
  the depth of the hierarchy as fuel. Files of commands that run each other have a fuel that \<open>batch_terminates\<close> shows to be
  enough when no file runs itself, and \<open>self_running_never_ends\<close> shows that no fuel is enough when one does.

  \<^bold>\<open>Not modelled.\<close> Drawing, menus, dialogs, the toolbar and mouse gestures (\<^verbatim>\<open>view.rs\<close>, \<^verbatim>\<open>menus.rs\<close>, \<^verbatim>\<open>toolbar.rs\<close> and others)
  are calls of the package egui with little logic of their own. The readers of files and their adapters (\<^verbatim>\<open>wellen.rs\<close>,
  \<^verbatim>\<open>cxxrtl*.rs\<close>, the crate \<^verbatim>\<open>surver\<close>) are input and output and concurrency around packages that are not in the repository. The
  configuration (\<^verbatim>\<open>config.rs\<close>) is data read by a package. Of the rest of \<^verbatim>\<open>update\<close>, the messages that set one field of the state
  or open a window are left out. Python and WebAssembly plugins run foreign code. Floating point is a parameter or, in
  \<^theory_text>\<open>Viewports\<close>, the real numbers: rounding and division by zero are not modelled there.
\<close>

end
